(* ===== verification/Prelude.thy ===== *)
theory Prelude
  imports Main "HOL-Library.Word" "HOL-Library.Monad_Syntax"
begin

section \<open>Prelude\<close>

text \<open>
  What every component shares: the result convention, generic lemmas on options, lists and
  updated functions, and the \<open>named_theorems\<close> collections that the component theories fill.

  A C function is a function of the state it touches. Its result is an \<open>option\<close>:
  \<open>None\<close> stands for an execution that does not return, that is, a failed \<open>assert\<close>
  (\<open>panic\<close> in \<open>kern/debug\<close>) or an access the C standard leaves undefined. What the code
  returns on an error (an error number, a null pointer) is a value inside \<open>Some\<close>.
\<close>

named_theorems list_ops "what the operations of libs/list.h do to a well-formed list"
named_theorems frame "operations leave what they do not name unchanged"

definition assert_c :: "bool \<Rightarrow> unit option" where
  "assert_c b = (if b then Some () else None)"

lemma assert_c_simps [simp]:
  "assert_c True = Some ()" "assert_c False = None"
  by (simp_all add: assert_c_def)

lemma assert_c_eq_Some [simp]: "assert_c b = Some u \<longleftrightarrow> b"
  by (simp add: assert_c_def)

lemma assert_c_eq_None [simp]: "assert_c b = None \<longleftrightarrow> \<not> b"
  by (simp add: assert_c_def)

lemma bind_assert_c_eq_Some [simp]:
  "Option.bind (assert_c b) f = Some y \<longleftrightarrow> b \<and> f () = Some y"
  by (simp add: assert_c_def)

lemma hd_append_single: "hd (xs @ [y]) = (case xs of [] \<Rightarrow> y | x # _ \<Rightarrow> x)"
  by (cases xs) auto

lemma last_Cons_if: "last (x # xs) = (if xs = [] then x else last xs)"
  by simp

lemma in_set_split: "x \<in> set xs \<Longrightarrow> \<exists>as bs. xs = as @ x # bs \<and> x \<notin> set as"
  by (meson split_list_first)

lemma remove1_split: "x \<notin> set as \<Longrightarrow> remove1 x (as @ x # bs) = as @ bs"
  by (simp add: remove1_append)

end
