(* ===== verification/CList.thy ===== *)
theory CList
  imports Prelude
begin

section \<open>Circular doubly linked lists (libs/list.h)\<close>

text \<open>
  The kernel's one container: every free list, wait queue, run queue, timer list, vma list
  and hash bucket is a ring of \<open>list_entry_t\<close> links embedded in other structures. A link is
  named by a value of a type \<open>'n\<close> that the component chooses (the head of its list, the
  link of page \<open>i\<close>, ...), and the store of all links is the record \<open>links\<close> with the two
  fields of the C structure. The operations below are the code's, pointer by pointer; the
  predicate \<open>dlist h hh xs\<close> says that the ring at \<open>hh\<close> holds exactly the links \<open>xs\<close> in
  this order, and the lemmas say what each operation does to that sequence, and that a ring
  it does not touch stays as it is.
\<close>

record 'n links =
  nxt :: "'n \<Rightarrow> 'n"
  prv :: "'n \<Rightarrow> 'n"

subsection \<open>The operations\<close>

definition list_init :: "'n \<Rightarrow> 'n links \<Rightarrow> 'n links" where
  "list_init elm h = h\<lparr>nxt := (nxt h)(elm := elm), prv := (prv h)(elm := elm)\<rparr>"

definition raw_list_add :: "'n \<Rightarrow> 'n \<Rightarrow> 'n \<Rightarrow> 'n links \<Rightarrow> 'n links" where
  "raw_list_add elm p n h =
     h\<lparr>nxt := (nxt h)(p := elm, elm := n), prv := (prv h)(n := elm, elm := p)\<rparr>"

definition raw_list_del :: "'n \<Rightarrow> 'n \<Rightarrow> 'n links \<Rightarrow> 'n links" where
  "raw_list_del p n h = h\<lparr>nxt := (nxt h)(p := n), prv := (prv h)(n := p)\<rparr>"

definition list_add_after :: "'n \<Rightarrow> 'n \<Rightarrow> 'n links \<Rightarrow> 'n links" where
  "list_add_after listelm elm h = raw_list_add elm listelm (nxt h listelm) h"

definition list_add :: "'n \<Rightarrow> 'n \<Rightarrow> 'n links \<Rightarrow> 'n links" where
  "list_add listelm elm h = list_add_after listelm elm h"

definition list_add_before :: "'n \<Rightarrow> 'n \<Rightarrow> 'n links \<Rightarrow> 'n links" where
  "list_add_before listelm elm h = raw_list_add elm (prv h listelm) listelm h"

definition list_del :: "'n \<Rightarrow> 'n links \<Rightarrow> 'n links" where
  "list_del listelm h = raw_list_del (prv h listelm) (nxt h listelm) h"

definition list_del_init :: "'n \<Rightarrow> 'n links \<Rightarrow> 'n links" where
  "list_del_init listelm h = list_init listelm (list_del listelm h)"

definition list_empty :: "'n \<Rightarrow> 'n links \<Rightarrow> bool" where
  "list_empty lst h \<longleftrightarrow> nxt h lst = lst"

definition list_next :: "'n \<Rightarrow> 'n links \<Rightarrow> 'n" where
  "list_next listelm h = nxt h listelm"

definition list_prev :: "'n \<Rightarrow> 'n links \<Rightarrow> 'n" where
  "list_prev listelm h = prv h listelm"

subsection \<open>Rings as sequences\<close>

fun chain :: "'n links \<Rightarrow> 'n list \<Rightarrow> bool" where
  "chain h (a # b # xs) \<longleftrightarrow> nxt h a = b \<and> prv h b = a \<and> chain h (b # xs)"
| "chain h _ \<longleftrightarrow> True"

definition dlist :: "'n links \<Rightarrow> 'n \<Rightarrow> 'n list \<Rightarrow> bool" where
  "dlist h hh xs \<longleftrightarrow> distinct (hh # xs) \<and> chain h (hh # xs @ [hh])"

lemma chain_append: "chain h (xs @ [a] @ ys) \<longleftrightarrow> chain h (xs @ [a]) \<and> chain h (a # ys)"
proof (induction xs)
  case Nil
  then show ?case by (cases ys) auto
next
  case (Cons x xs)
  then show ?case by (cases xs) auto
qed

lemma chain_cong:
  assumes "\<And>x. x \<in> set (butlast xs) \<Longrightarrow> nxt h' x = nxt h x"
    and "\<And>x. x \<in> set (tl xs) \<Longrightarrow> prv h' x = prv h x"
  shows "chain h' xs \<longleftrightarrow> chain h xs"
  using assms
proof (induction h xs rule: chain.induct)
  case (1 h a b xs)
  have "chain h' (b # xs) = chain h (b # xs)"
    by (rule "1.IH") (use "1.prems" in \<open>auto split: if_splits dest: in_set_butlastD list.set_sel\<close>)
  with "1.prems" show ?case by auto
qed auto

lemma dlist_frame:
  assumes "\<And>x. x \<in> set (hh # xs) \<Longrightarrow> nxt h' x = nxt h x"
    and "\<And>x. x \<in> set (hh # xs) \<Longrightarrow> prv h' x = prv h x"
  shows "dlist h' hh xs \<longleftrightarrow> dlist h hh xs"
proof -
  have "chain h' (hh # xs @ [hh]) = chain h (hh # xs @ [hh])"
    by (rule chain_cong) (use assms in \<open>auto dest!: in_set_butlastD\<close>)
  then show ?thesis by (simp add: dlist_def)
qed

lemma dlist_distinct: "dlist h hh xs \<Longrightarrow> distinct xs \<and> hh \<notin> set xs"
  by (simp add: dlist_def)

lemma chain_nth:
  "chain h xs \<Longrightarrow> Suc i < length xs \<Longrightarrow> nxt h (xs ! i) = xs ! Suc i \<and> prv h (xs ! Suc i) = xs ! i"
proof (induction h xs arbitrary: i rule: chain.induct)
  case (1 h a b xs)
  then show ?case by (cases i) auto
qed auto

text \<open>Reading: the successor and the predecessor of every link of the ring.\<close>

lemma dlist_nxt_head: "dlist h hh xs \<Longrightarrow> nxt h hh = (case xs of [] \<Rightarrow> hh | x # _ \<Rightarrow> x)"
  by (cases xs) (auto simp: dlist_def)

lemma chain_cut: "chain h (us @ p # n # vs) \<longleftrightarrow>
    chain h (us @ [p]) \<and> nxt h p = n \<and> prv h n = p \<and> chain h (n # vs)"
  using chain_append [of h us p "n # vs"] by simp

lemma dlist_prv_head: "dlist h hh xs \<Longrightarrow> prv h hh = last (hh # xs)"
  by (cases xs rule: rev_cases) (auto simp: dlist_def chain_cut [of h "hh # as" for as, simplified])

lemma dlist_nxt: "dlist h hh (as @ x # bs) \<Longrightarrow> nxt h x = (case bs of [] \<Rightarrow> hh | b # _ \<Rightarrow> b)"
proof -
  assume "dlist h hh (as @ x # bs)"
  then have "chain h ((hh # as) @ [x] @ (bs @ [hh]))" by (simp add: dlist_def)
  then have "chain h (x # bs @ [hh])" by (auto simp only: chain_append)
  then show ?thesis by (cases bs) auto
qed

lemma dlist_prv: "dlist h hh (as @ x # bs) \<Longrightarrow> prv h x = last (hh # as)"
  by (cases as rule: rev_cases)
    (auto simp: dlist_def chain_cut [of h "hh # as" for as, simplified])

lemma dlist_nxt_last:
  "dlist h hh (as @ bs) \<Longrightarrow> nxt h (last (hh # as)) = (case bs of [] \<Rightarrow> hh | b # _ \<Rightarrow> b)"
proof (cases as rule: rev_cases)
  case Nil
  then show "dlist h hh (as @ bs) \<Longrightarrow> ?thesis" by (simp add: dlist_nxt_head)
next
  case (snoc as' a)
  then show "dlist h hh (as @ bs) \<Longrightarrow> ?thesis" using dlist_nxt [of h hh as' a bs] by simp
qed

lemma dlist_empty_iff: "dlist h hh xs \<Longrightarrow> list_empty hh h \<longleftrightarrow> xs = []"
  by (cases xs) (auto simp: list_empty_def dlist_def)

lemma dlist_unique: "dlist h hh xs \<Longrightarrow> dlist h hh ys \<Longrightarrow> xs = ys"
proof -
  have *: "chain h (a # xs @ [hh]) \<Longrightarrow> chain h (a # ys @ [hh]) \<Longrightarrow>
      hh \<notin> set xs \<Longrightarrow> hh \<notin> set ys \<Longrightarrow> xs = ys" for a
  proof (induction xs arbitrary: a ys)
    case Nil
    then show ?case by (cases ys) auto
  next
    case (Cons x xs)
    then show ?case by (cases ys) auto
  qed
  assume "dlist h hh xs" "dlist h hh ys"
  then show ?thesis using * [of hh] by (auto simp: dlist_def)
qed

subsection \<open>What the operations do to the sequence\<close>

lemma dlist_init [list_ops]: "dlist (list_init hh h) hh []"
  by (simp add: dlist_def list_init_def)

lemma chain_raw_add:
  assumes "chain h (us @ p # n # vs)" "x \<notin> set (us @ p # n # vs)"
    and "p \<notin> set us" "p \<notin> set (butlast (n # vs))" "n \<notin> set (tl (us @ [p]))" "n \<notin> set vs"
  shows "chain (raw_list_add x p n h) (us @ p # x # n # vs)"
proof -
  let ?h = "raw_list_add x p n h"
  have c: "chain h (us @ [p])" "chain h (n # vs)" using assms(1) chain_cut [of h us] by auto
  have "chain ?h (us @ [p]) = chain h (us @ [p])"
    using assms by (intro chain_cong) (auto simp: raw_list_add_def dest: list.set_sel(2) [rotated])
  moreover have "chain ?h (n # vs) = chain h (n # vs)"
    using assms by (intro chain_cong) (auto simp: raw_list_add_def split: if_splits dest: in_set_butlastD)
  moreover have "nxt ?h p = x" "prv ?h x = p" "nxt ?h x = n" "prv ?h n = x"
    using assms(2) by (auto simp: raw_list_add_def)
  ultimately show ?thesis using c chain_cut [of ?h us p x "n # vs"] by simp
qed

lemma chain_raw_del:
  assumes "chain h (us @ p # x # n # vs)"
    and "p \<notin> set us" "p \<notin> set (butlast (n # vs))" "n \<notin> set (tl (us @ [p]))" "n \<notin> set vs"
  shows "chain (raw_list_del p n h) (us @ p # n # vs)"
proof -
  let ?h = "raw_list_del p n h"
  have c: "chain h (us @ [p])" "chain h (n # vs)"
    using assms(1) chain_cut [of h us p x "n # vs"] by auto
  have "chain ?h (us @ [p]) = chain h (us @ [p])"
    using assms by (intro chain_cong) (auto simp: raw_list_del_def)
  moreover have "chain ?h (n # vs) = chain h (n # vs)"
    using assms by (intro chain_cong) (auto simp: raw_list_del_def)
  moreover have "nxt ?h p = n" "prv ?h n = p" by (auto simp: raw_list_del_def)
  ultimately show ?thesis using c chain_cut [of ?h us p n vs] by simp
qed

lemma ring_split:
  obtains us p n vs where "hh # as = us @ [p]" "bs @ [hh] = n # vs"
    "p = last (hh # as)" "n = (case bs of [] \<Rightarrow> hh | b # _ \<Rightarrow> b)"
proof -
  have "hh # as = butlast (hh # as) @ [last (hh # as)]" by (simp del: last.simps butlast.simps)
  moreover have "bs @ [hh] = (case bs of [] \<Rightarrow> hh | b # _ \<Rightarrow> b) # tl (bs @ [hh])"
    by (cases bs) auto
  ultimately show ?thesis using that by blast
qed

lemma ring_side_conditions:
  assumes "distinct (hh # as @ bs)" "hh # as = us @ [p]" "bs @ [hh] = n # vs"
  shows "p \<notin> set us" "p \<notin> set (butlast (n # vs))" "n \<notin> set (tl (us @ [p]))" "n \<notin> set vs"
proof -
  have "distinct (us @ [p])" using assms(1,2) by (metis distinct_append append_Cons)
  then show "p \<notin> set us" by simp
  have "butlast (n # vs) = bs" using assms(3) by (metis butlast_snoc)
  moreover have "p \<in> set (hh # as)" using assms(2) by simp
  ultimately show "p \<notin> set (butlast (n # vs))" using assms(1) by auto
  have "tl (us @ [p]) = as" using assms(2) by (metis list.sel(3))
  then show "n \<notin> set (tl (us @ [p]))" using assms(1,3) by (cases bs) auto
  show "n \<notin> set vs" using assms(1,3) by (cases bs) auto
qed

lemma dlist_raw_add:
  assumes "dlist h hh (as @ bs)" "x \<notin> set (hh # as @ bs)"
    and "p = last (hh # as)" "n = (case bs of [] \<Rightarrow> hh | b # _ \<Rightarrow> b)"
  shows "dlist (raw_list_add x p n h) hh (as @ x # bs)"
proof -
  obtain us vs where s: "hh # as = us @ [p]" "bs @ [hh] = n # vs"
    using ring_split [of hh as bs] assms(3,4) by metis
  have d: "distinct (hh # as @ bs)" using assms(1) by (simp add: dlist_def)
  have e: "hh # (as @ bs) @ [hh] = us @ p # n # vs" "hh # (as @ x # bs) @ [hh] = us @ p # x # n # vs"
    using s by (metis append.assoc append_Cons append_Nil)+
  have "x \<notin> set (us @ p # n # vs)" using assms(2) e(1) by (metis Un_iff append_Cons in_set_conv_decomp
        insert_iff list.set(2) set_append set_ConsD empty_iff list.set(1))
  then have "chain (raw_list_add x p n h) (us @ p # x # n # vs)"
    using assms(1) e(1) ring_side_conditions [OF d s] by (intro chain_raw_add) (auto simp: dlist_def)
  then show ?thesis using e(2) d assms(2) by (auto simp: dlist_def)
qed

lemma dlist_add_before_head [list_ops]:
  "dlist h hh xs \<Longrightarrow> x \<notin> set (hh # xs) \<Longrightarrow> dlist (list_add_before hh x h) hh (xs @ [x])"
  unfolding list_add_before_def
  by (rule dlist_raw_add) (simp_all add: dlist_prv_head)

lemma dlist_add_head [list_ops]:
  "dlist h hh xs \<Longrightarrow> x \<notin> set (hh # xs) \<Longrightarrow> dlist (list_add hh x h) hh (x # xs)"
  unfolding list_add_def list_add_after_def
  using dlist_raw_add [of h hh "[]" xs x hh "nxt h hh"] by (simp add: dlist_nxt_head)

lemma dlist_add_before [list_ops]:
  "dlist h hh (as @ y # bs) \<Longrightarrow> x \<notin> set (hh # as @ y # bs) \<Longrightarrow>
     dlist (list_add_before y x h) hh (as @ x # y # bs)"
  unfolding list_add_before_def
  by (rule dlist_raw_add) (simp_all add: dlist_prv)

lemma dlist_add [list_ops]:
  assumes "dlist h hh (as @ y # bs)" "x \<notin> set (hh # as @ y # bs)"
  shows "dlist (list_add y x h) hh (as @ y # x # bs)"
  unfolding list_add_def list_add_after_def
  using dlist_raw_add [of h hh "as @ [y]" bs x y "nxt h y"] assms by (simp add: dlist_nxt)

lemma dlist_add_last [list_ops]:
  "dlist h hh (as @ bs) \<Longrightarrow> x \<notin> set (hh # as @ bs) \<Longrightarrow>
     dlist (list_add (last (hh # as)) x h) hh (as @ x # bs)"
  unfolding list_add_def list_add_after_def
  by (rule dlist_raw_add) (simp_all add: dlist_nxt_last del: last.simps)

lemma dlist_del [list_ops]:
  assumes "dlist h hh (as @ x # bs)"
  shows "dlist (list_del x h) hh (as @ bs)"
proof -
  obtain us p n vs where s: "hh # as = us @ [p]" "bs @ [hh] = n # vs"
    and pn: "p = last (hh # as)" "n = (case bs of [] \<Rightarrow> hh | b # _ \<Rightarrow> b)"
    using ring_split [of hh as bs] by metis
  have d: "distinct (hh # as @ bs)" using assms(1) by (auto simp: dlist_def)
  have e: "hh # (as @ bs) @ [hh] = us @ p # n # vs" "hh # (as @ x # bs) @ [hh] = us @ p # x # n # vs"
    using s by (metis append.assoc append_Cons append_Nil)+
  have "chain (raw_list_del p n h) (us @ p # n # vs)"
    using assms(1) e(2) ring_side_conditions [OF d s]
    by (intro chain_raw_del [where x = x]) (auto simp: dlist_def)
  moreover have "list_del x h = raw_list_del p n h"
    using pn dlist_prv [OF assms] dlist_nxt [OF assms] by (simp add: list_del_def)
  ultimately show ?thesis using e(1) d by (auto simp: dlist_def)
qed

lemma dlist_del_init [list_ops]:
  assumes "dlist h hh (as @ x # bs)"
  shows "dlist (list_del_init x h) hh (as @ bs)"
proof -
  have "x \<notin> set (hh # as @ bs)" using assms by (auto simp: dlist_def)
  then have "dlist (list_init x (list_del x h)) hh (as @ bs) \<longleftrightarrow> dlist (list_del x h) hh (as @ bs)"
    by (intro dlist_frame) (auto simp: list_init_def)
  then show ?thesis using dlist_del [OF assms] by (simp add: list_del_init_def)
qed

subsection \<open>Rings whose links are all self-linked while off the list\<close>

text \<open>
  Most structures embed a link that \<open>list_init\<close> or \<open>list_del_init\<close> leaves linked to itself, so
  that \<open>list_empty\<close> tells whether the structure is on the list. \<open>f\<close> maps a structure to its link.
\<close>

definition ring :: "'n links \<Rightarrow> 'n \<Rightarrow> ('a \<Rightarrow> 'n) \<Rightarrow> 'a list \<Rightarrow> bool" where
  "ring h hh f xs \<longleftrightarrow> dlist h hh (map f xs) \<and> (\<forall>x. x \<notin> set xs \<longrightarrow> list_empty (f x) h)"

lemma ring_init: "hh \<notin> range f \<Longrightarrow> (\<And>x. list_empty (f x) h) \<Longrightarrow> ring (list_init hh h) hh f []"
  by (simp add: ring_def dlist_init) (auto simp: list_empty_def list_init_def)

lemma ring_distinct: "ring h hh f xs \<Longrightarrow> distinct xs"
  by (auto simp: ring_def dlist_def distinct_map)

lemma ring_empty_iff: "ring h hh f xs \<Longrightarrow> list_empty hh h \<longleftrightarrow> xs = []"
  by (auto simp: ring_def dlist_empty_iff)

lemma ring_on:
  assumes "inj f" "ring h hh f xs"
  shows "list_empty (f x) h \<longleftrightarrow> x \<notin> set xs"
proof
  assume e: "list_empty (f x) h"
  show "x \<notin> set xs"
  proof
    assume "x \<in> set xs"
    then obtain as bs where s: "xs = as @ x # bs" using split_list by metis
    then have d: "dlist h hh (map f as @ f x # map f bs)" using assms(2) by (simp add: ring_def)
    from dlist_nxt [OF d] dlist_distinct [OF d] e show False
      by (cases bs) (auto simp: list_empty_def)
  qed
qed (use assms in \<open>simp add: ring_def\<close>)

lemma ring_next_head:
  "ring h hh f xs \<Longrightarrow> list_next hh h = (case xs of [] \<Rightarrow> hh | x # _ \<Rightarrow> f x)"
  by (auto simp: ring_def list_next_def dest!: dlist_nxt_head split: list.splits)

lemma ring_add_before_head:
  assumes "inj f" "hh \<notin> range f" "ring h hh f xs" "x \<notin> set xs"
  shows "ring (list_add_before hh (f x) h) hh f (xs @ [x])"
proof -
  have d: "dlist h hh (map f xs)" using assms(3) by (simp add: ring_def)
  have "f x \<notin> set (hh # map f xs)" using assms by (auto dest: injD)
  moreover have "prv h hh \<in> set (hh # map f xs)" 
    using dlist_prv_head [OF d] last_in_set [of "hh # map f xs"] by simp
  ultimately show ?thesis
    using dlist_add_before_head [OF d] assms
    by (auto simp: ring_def list_add_before_def raw_list_add_def list_empty_def dest: injD)
qed

lemma ring_add_before:
  assumes "inj f" "hh \<notin> range f" "ring h hh f (as @ bs)" "x \<notin> set (as @ bs)"
  shows "ring (list_add_before (case bs of [] \<Rightarrow> hh | b # _ \<Rightarrow> f b) (f x) h) hh f (as @ x # bs)"
proof (cases bs)
  case Nil
  then show ?thesis using ring_add_before_head [of f hh h as x] assms by simp
next
  case (Cons b cs)
  have d: "dlist h hh (map f as @ f b # map f cs)" using assms(3) Cons by (simp add: ring_def)
  have "f x \<notin> set (hh # map f as @ f b # map f cs)" using assms Cons by (auto dest: injD)
  from dlist_add_before [OF d this]
  have "dlist (list_add_before (f b) (f x) h) hh (map f (as @ x # bs))" using Cons by simp
  moreover have "list_empty (f y) (list_add_before (f b) (f x) h)" if "y \<notin> set (as @ x # bs)" for y
  proof -
    have "prv h (f b) \<in> set (hh # map f as)" using dlist_prv [OF d] last_in_set [of "hh # map f as"] by simp
    moreover have "f y \<noteq> f x" "f y \<notin> set (hh # map f as)" using that assms(1,2) by (auto dest: injD)
    ultimately have "f y \<noteq> prv h (f b)" "f y \<noteq> f x" by metis+
    moreover have "nxt h (f y) = f y" using assms(3) that by (simp add: ring_def list_empty_def)
    ultimately show ?thesis by (simp add: list_add_before_def raw_list_add_def list_empty_def)
  qed
  ultimately show ?thesis using Cons by (simp add: ring_def)
qed

lemma ring_del_init:
  assumes "inj f" "hh \<notin> range f" "ring h hh f xs" "x \<in> set xs"
  shows "ring (list_del_init (f x) h) hh f (remove1 x xs)"
proof -
  obtain as bs where s: "xs = as @ x # bs" "x \<notin> set as" using assms(4) split_list_first by metis
  have d: "dlist h hh (map f as @ f x # map f bs)" using assms(3) s by (simp add: ring_def)
  have r: "remove1 x xs = as @ bs" using s by (simp add: remove1_append)
  have "nxt (list_del_init (f x) h) (f y) = f y" if "y \<notin> set (as @ bs)" for y
  proof (cases "y = x")
    case False
    then have "y \<notin> set xs" using that s by auto
    moreover from this have "nxt h (f y) = f y" using assms(3) by (auto simp: ring_def list_empty_def)
    moreover have "prv h (f x) \<in> set (hh # map f as)" 
      using dlist_prv [OF d] last_in_set [of "hh # map f as"] by simp
    moreover have "f y \<noteq> f x" "f y \<notin> set (hh # map f as)"
      using False that assms(1,2) by (auto dest: injD)
    ultimately show ?thesis
      by (simp add: list_del_init_def list_init_def list_del_def raw_list_del_def) metis
  qed (simp add: list_del_init_def list_init_def)
  then show ?thesis using dlist_del_init [OF d] r by (auto simp: ring_def list_empty_def)
qed

lemma ring_frame:
  assumes "ring h hh f xs" "\<And>x. x \<in> insert hh (range f) \<Longrightarrow> nxt h' x = nxt h x \<and> prv h' x = prv h x"
  shows "ring h' hh f xs"
  using assms dlist_frame [of hh "map f xs" h' h] by (auto simp: ring_def list_empty_def)

lemma ring_add_frame:
  assumes "ring h hh f xs" "l \<notin> insert hh (range f)"
  shows "nxt (list_add_before hh (f x) h) l = nxt h l" "prv (list_add_before hh (f x) h) l = prv h l"
proof -
  have "prv h hh \<in> set (hh # map f xs)"
    using assms(1) dlist_prv_head [of h hh "map f xs"] last_in_set [of "hh # map f xs"]
    by (simp only: ring_def) simp
  then have "l \<noteq> prv h hh" "l \<noteq> f x" "l \<noteq> hh" using assms(2) by auto
  then show "nxt (list_add_before hh (f x) h) l = nxt h l" "prv (list_add_before hh (f x) h) l = prv h l"
    by (simp_all add: list_add_before_def raw_list_add_def)
qed

lemma ring_del_frame:
  assumes "ring h hh f xs" "x \<in> set xs" "l \<notin> insert hh (range f)"
  shows "nxt (list_del_init (f x) h) l = nxt h l" "prv (list_del_init (f x) h) l = prv h l"
proof -
  obtain as bs where s: "xs = as @ x # bs" using assms(2) split_list by metis
  have d: "dlist h hh (map f as @ f x # map f bs)" using assms(1) s by (simp add: ring_def)
  have "prv h (f x) \<in> set (hh # map f as)"
    using dlist_prv [OF d] last_in_set [of "hh # map f as"] by simp
  moreover have "nxt h (f x) \<in> set (hh # map f bs)" using dlist_nxt [OF d] by (cases bs) auto
  ultimately have "l \<noteq> prv h (f x)" "l \<noteq> nxt h (f x)" "l \<noteq> f x" using assms(3) by auto
  then show "nxt (list_del_init (f x) h) l = nxt h l" "prv (list_del_init (f x) h) l = prv h l"
    by (simp_all add: list_del_init_def list_init_def list_del_def raw_list_del_def)
qed

end
