(* ===== verification/SkewHeap.thy ===== *)
theory SkewHeap
  imports Prelude "HOL-Library.Tree_Multiset"
begin

section \<open>Skew heaps on pointers (libs/skew_heap.h)\<close>

text \<open>
  The run pool of the stride scheduler. A node is a value of type \<open>'n\<close>, the three pointers
  of \<open>skew_heap_entry\<close> are functions, a null pointer is \<open>None\<close>. The comparison callback
  \<open>cmp\<close> is a parameter of every operation, as in the code. The merge recurses through the
  store, so it is an \<open>option\<close> function (\<open>None\<close>: it does not return, as on a cyclic store);
  \<open>heap_at\<close> says that a pointer is the root of a tree with correct parent links, and the
  lemmas show that merge, insert and remove return there and compute the functional heap.
\<close>

record 'n sheap =
  sleft :: "'n \<Rightarrow> 'n option"
  sright :: "'n \<Rightarrow> 'n option"
  sparent :: "'n \<Rightarrow> 'n option"

definition set_left :: "'n \<Rightarrow> 'n option \<Rightarrow> 'n sheap \<Rightarrow> 'n sheap" where
  "set_left x v h = h\<lparr>sleft := (sleft h)(x := v)\<rparr>"
definition set_right :: "'n \<Rightarrow> 'n option \<Rightarrow> 'n sheap \<Rightarrow> 'n sheap" where
  "set_right x v h = h\<lparr>sright := (sright h)(x := v)\<rparr>"
definition set_parent :: "'n option \<Rightarrow> 'n option \<Rightarrow> 'n sheap \<Rightarrow> 'n sheap" where
  "set_parent p v h = (case p of None \<Rightarrow> h | Some x \<Rightarrow> h\<lparr>sparent := (sparent h)(x := v)\<rparr>)"

definition skew_heap_init :: "'n \<Rightarrow> 'n sheap \<Rightarrow> 'n sheap" where
  "skew_heap_init a h = set_parent (Some a) None (set_right a None (set_left a None h))"

partial_function (option) skew_heap_merge ::
    "('n \<Rightarrow> 'n \<Rightarrow> int) \<Rightarrow> 'n option \<Rightarrow> 'n option \<Rightarrow> 'n sheap \<Rightarrow> ('n option \<times> 'n sheap) option" where
  "skew_heap_merge cmp a b h =
     (case a of None \<Rightarrow> Some (b, h) | Some x \<Rightarrow>
      case b of None \<Rightarrow> Some (a, h) | Some y \<Rightarrow>
        if cmp x y = -1 then
          Option.bind (skew_heap_merge cmp (sright h x) b h) (\<lambda>(l, h').
            Some (a, set_parent l a (set_right x (sleft h x) (set_left x l h'))))
        else
          Option.bind (skew_heap_merge cmp a (sright h y) h) (\<lambda>(l, h').
            Some (b, set_parent l b (set_right y (sleft h y) (set_left y l h')))))"

declare skew_heap_merge.simps [code]

definition skew_heap_insert ::
    "('n \<Rightarrow> 'n \<Rightarrow> int) \<Rightarrow> 'n option \<Rightarrow> 'n \<Rightarrow> 'n sheap \<Rightarrow> ('n option \<times> 'n sheap) option" where
  "skew_heap_insert cmp a b h = skew_heap_merge cmp a (Some b) (skew_heap_init b h)"

definition skew_heap_remove ::
    "('n \<Rightarrow> 'n \<Rightarrow> int) \<Rightarrow> 'n option \<Rightarrow> 'n \<Rightarrow> 'n sheap \<Rightarrow> ('n option \<times> 'n sheap) option" where
  "skew_heap_remove cmp a b h = do {
     let p = sparent h b;
     (rep, h) \<leftarrow> skew_heap_merge cmp (sleft h b) (sright h b) h;
     let h = set_parent rep p h;
     case p of
       None \<Rightarrow> Some (rep, h)
     | Some q \<Rightarrow> Some (a, if sleft h q = Some b then set_left q rep h else set_right q rep h)
   }"

subsection \<open>The functional heap\<close>

fun fmerge :: "('n \<Rightarrow> 'n \<Rightarrow> int) \<Rightarrow> 'n tree \<Rightarrow> 'n tree \<Rightarrow> 'n tree" where
  "fmerge cmp \<langle>\<rangle> t = t"
| "fmerge cmp t \<langle>\<rangle> = t"
| "fmerge cmp \<langle>l1, x, r1\<rangle> \<langle>l2, y, r2\<rangle> =
     (if cmp x y = -1 then \<langle>fmerge cmp r1 \<langle>l2, y, r2\<rangle>, x, l1\<rangle>
      else \<langle>fmerge cmp \<langle>l1, x, r1\<rangle> r2, y, l2\<rangle>)"

fun fremove :: "('n \<Rightarrow> 'n \<Rightarrow> int) \<Rightarrow> 'n \<Rightarrow> 'n tree \<Rightarrow> 'n tree" where
  "fremove cmp b \<langle>\<rangle> = \<langle>\<rangle>"
| "fremove cmp b \<langle>l, x, r\<rangle> =
     (if x = b then fmerge cmp l r
      else if b \<in> set_tree l then \<langle>fremove cmp b l, x, r\<rangle> else \<langle>l, x, fremove cmp b r\<rangle>)"

fun root :: "'n tree \<Rightarrow> 'n option" where
  "root \<langle>\<rangle> = None"
| "root \<langle>l, x, r\<rangle> = Some x"

lemma set_fmerge [simp]: "set_tree (fmerge cmp s t) = set_tree s \<union> set_tree t"
  by (induction cmp s t rule: fmerge.induct) auto

lemma mset_fmerge [simp]: "mset_tree (fmerge cmp s t) = mset_tree s + mset_tree t"
  by (induction cmp s t rule: fmerge.induct) auto

lemma size_fmerge [simp]: "size (fmerge cmp s t) = size s + size t"
  by (induction cmp s t rule: fmerge.induct) auto

lemma mset_fremove: "b \<in> set_tree t \<Longrightarrow> mset_tree (fremove cmp b t) = mset_tree t - {#b#}"
  by (induction t) (auto simp flip: set_mset_tree)

lemma root_fmerge: "root (fmerge cmp s t) \<in> {root s, root t}"
  by (induction cmp s t rule: fmerge.induct) auto

lemma root_None [simp]: "root t = None \<longleftrightarrow> t = \<langle>\<rangle>"
  by (cases t) auto

text \<open>Heap order for the preorder that a key induces.\<close>

fun heap_ordered :: "('n \<Rightarrow> 'k::linorder) \<Rightarrow> 'n tree \<Rightarrow> bool" where
  "heap_ordered key \<langle>\<rangle> \<longleftrightarrow> True"
| "heap_ordered key \<langle>l, x, r\<rangle> \<longleftrightarrow> heap_ordered key l \<and> heap_ordered key r \<and>
     (\<forall>y \<in> set_tree l \<union> set_tree r. key x \<le> key y)"

lemma heap_ordered_root: "heap_ordered key t \<Longrightarrow> root t = Some x \<Longrightarrow> y \<in> set_tree t \<Longrightarrow> key x \<le> key y"
  by (cases t) auto

lemma heap_ordered_fmerge:
  assumes "\<forall>x \<in> set_tree s \<union> set_tree t. \<forall>y \<in> set_tree s \<union> set_tree t.
      cmp x y = -1 \<longleftrightarrow> key x < key y"
    and "heap_ordered key s" "heap_ordered key t"
  shows "heap_ordered key (fmerge cmp s t)"
  using assms
proof (induction cmp s t rule: fmerge.induct)
  case (3 cmp l1 x r1 l2 y r2)
  have sym: "cmp x y = -1 \<longleftrightarrow> key x < key y" using "3.prems"(1) by auto
  show ?case
  proof (cases "cmp x y = -1")
    case True
    then have "key x \<le> key y" using sym by simp
    moreover have "heap_ordered key (fmerge cmp r1 \<langle>l2, y, r2\<rangle>)"
      by (rule "3.IH"(1)) (use True "3.prems" in auto)
    ultimately show ?thesis using True "3.prems"(2,3) by (auto intro: order_trans)
  next
    case False
    then have "key y \<le> key x" using sym by simp
    moreover have "heap_ordered key (fmerge cmp \<langle>l1, x, r1\<rangle> r2)"
      by (rule "3.IH"(2)) (use False "3.prems" in auto)
    ultimately show ?thesis using False "3.prems"(2,3) by (auto intro: order_trans)
  qed
qed auto

lemma set_fremove_subset: "set_tree (fremove cmp b t) \<subseteq> set_tree t"
  by (induction t) auto

lemma heap_ordered_fremove:
  assumes "\<forall>x \<in> set_tree t. \<forall>y \<in> set_tree t. cmp x y = -1 \<longleftrightarrow> key x < key y"
    and "heap_ordered key t"
  shows "heap_ordered key (fremove cmp b t)"
  using assms
proof (induction t)
  case (Node l x r)
  then show ?case using set_fremove_subset [of cmp b l] set_fremove_subset [of cmp b r]
    by (auto intro!: heap_ordered_fmerge)
qed simp

subsection \<open>Stores that hold a heap\<close>

fun parents_ok :: "'n sheap \<Rightarrow> 'n \<Rightarrow> 'n tree \<Rightarrow> bool" where
  "parents_ok h x \<langle>\<rangle> \<longleftrightarrow> True"
| "parents_ok h x \<langle>_, y, _\<rangle> \<longleftrightarrow> sparent h y = Some x"

fun heap_at :: "'n sheap \<Rightarrow> 'n option \<Rightarrow> 'n tree \<Rightarrow> bool" where
  "heap_at h p \<langle>\<rangle> \<longleftrightarrow> p = None"
| "heap_at h p \<langle>l, x, r\<rangle> \<longleftrightarrow> p = Some x \<and> heap_at h (sleft h x) l \<and> heap_at h (sright h x) r \<and>
     parents_ok h x l \<and> parents_ok h x r"

definition same_node :: "'n sheap \<Rightarrow> 'n sheap \<Rightarrow> 'n \<Rightarrow> bool" where
  "same_node h h' x \<longleftrightarrow>
     sleft h' x = sleft h x \<and> sright h' x = sright h x \<and> sparent h' x = sparent h x"

lemma heap_at_root: "heap_at h p t \<Longrightarrow> p = root t"
  by (cases t) auto

lemma parents_ok_root: "parents_ok h x t \<longleftrightarrow> (\<forall>y. root t = Some y \<longrightarrow> sparent h y = Some x)"
  by (cases t) auto

lemma root_in_tree: "root t = Some y \<Longrightarrow> y \<in> set_tree t"
  by (cases t) auto

lemma heap_at_frame:
  "\<forall>x \<in> set_tree t. sleft h' x = sleft h x \<and> sright h' x = sright h x \<and>
      (root t \<noteq> Some x \<longrightarrow> sparent h' x = sparent h x) \<Longrightarrow>
   distinct (inorder t) \<Longrightarrow> heap_at h p t \<Longrightarrow> heap_at h' p t"
proof (induction t arbitrary: p)
  case (Node l x r)
  have "heap_at h' (sleft h x) l" "heap_at h' (sright h x) r"
    using Node.prems by (auto intro!: Node.IH)
  moreover have "parents_ok h' x l" "parents_ok h' x r"
    using Node.prems by (auto simp: parents_ok_root dest: root_in_tree)
  ultimately show ?case using Node.prems by auto
qed simp

lemma heap_at_frame_same:
  "\<forall>x \<in> set_tree t. same_node h h' x \<Longrightarrow> distinct (inorder t) \<Longrightarrow> heap_at h p t \<Longrightarrow> heap_at h' p t"
  by (rule heap_at_frame [of t h' h]) (auto simp: same_node_def)


lemma distinct_fmerge:
  "distinct (inorder s @ inorder t) \<Longrightarrow> distinct (inorder (fmerge cmp s t))"
  using mset_eq_imp_distinct_iff [of "inorder s @ inorder t" "inorder (fmerge cmp s t)"] by simp

text \<open>The step of the merge: \<open>x\<close> goes on top, its left child moves right, \<open>m\<close> goes left.\<close>

lemma merge_step:
  assumes h: "heap_at h (sleft h x) l1" "parents_ok h x l1" and m: "heap_at h1 (root m) m"
    and dist: "distinct (inorder l1)" "distinct (inorder m)" "x \<notin> set_tree l1" "x \<notin> set_tree m"
      "set_tree l1 \<inter> set_tree m = {}"
    and same: "\<forall>z. z \<notin> set_tree m \<longrightarrow> same_node h h1 z"
    and h2: "h2 = set_parent (root m) (Some x) (set_right x (sleft h x) (set_left x (root m) h1))"
  shows "heap_at h2 (Some x) \<langle>m, x, l1\<rangle>"
    and "\<forall>z. z \<notin> insert x (set_tree m) \<longrightarrow> same_node h h2 z" and "sparent h2 x = sparent h x"
proof -
  have upd: "sleft h2 z = (if z = x then root m else sleft h1 z)"
    "sright h2 z = (if z = x then sleft h x else sright h1 z)"
    "sparent h2 z = (if root m = Some z then Some x else sparent h1 z)" for z
    by (auto simp: h2 set_parent_def set_left_def set_right_def split: option.splits)
  have "heap_at h2 (root m) m"
    by (rule heap_at_frame [of m h2 h1]) (use m dist in \<open>auto simp: upd\<close>)
  moreover have l1: "\<forall>z \<in> set_tree l1. same_node h h2 z"
    using same dist by (auto simp: same_node_def upd dest: root_in_tree)
  then have "heap_at h2 (sleft h x) l1" by (rule heap_at_frame_same) (use h dist in auto)
  moreover have "parents_ok h2 x l1"
    using h(2) l1 root_in_tree [of l1] by (auto simp: parents_ok_root same_node_def)
  moreover have "parents_ok h2 x m" by (simp add: parents_ok_root upd)
  ultimately show "heap_at h2 (Some x) \<langle>m, x, l1\<rangle>" by (simp add: upd)
  show "\<forall>z. z \<notin> insert x (set_tree m) \<longrightarrow> same_node h h2 z"
    using same by (auto simp: same_node_def upd dest: root_in_tree)
  show "sparent h2 x = sparent h x"
    using same dist by (auto simp: same_node_def upd dest: root_in_tree)
qed

lemma skew_heap_merge_refines:
  assumes "heap_at h a s" "heap_at h b t" "distinct (inorder s @ inorder t)"
  shows "\<exists>h'. skew_heap_merge cmp a b h = Some (root (fmerge cmp s t), h') \<and>
     heap_at h' (root (fmerge cmp s t)) (fmerge cmp s t) \<and>
     (\<forall>z. z \<notin> set_tree s \<union> set_tree t \<longrightarrow> same_node h h' z) \<and>
     (\<forall>z. root (fmerge cmp s t) = Some z \<longrightarrow> sparent h' z = sparent h z)"
  using assms
proof (induction cmp s t arbitrary: a b rule: fmerge.induct)
  case (1 cmp t)
  then show ?case using heap_at_root [of h b t]
    by (subst skew_heap_merge.simps) (simp add: same_node_def)
next
  case (2 cmp l x r)
  then show ?case by (subst skew_heap_merge.simps) (simp add: same_node_def)
next
  case (3 cmp l1 x r1 l2 y r2)
  let ?s = "\<langle>l1, x, r1\<rangle>" and ?t = "\<langle>l2, y, r2\<rangle>"
  note p = "3.prems"
  have ab: "a = Some x" "b = Some y" using p by auto
  show ?case
  proof (cases "cmp x y = -1")
    case True
    let ?m = "fmerge cmp r1 ?t"
    obtain h1 where h1: "skew_heap_merge cmp (sright h x) b h = Some (root ?m, h1)"
      "heap_at h1 (root ?m) ?m" "\<forall>z. z \<notin> set_tree r1 \<union> set_tree ?t \<longrightarrow> same_node h h1 z"
      using "3.IH"(1) [of "sright h x" b] True p by auto
    define h2 where "h2 = set_parent (root ?m) (Some x) (set_right x (sleft h x) (set_left x (root ?m) h1))"
    have d: "distinct (inorder ?m)" using p(3) by (intro distinct_fmerge) auto
    have "heap_at h2 (Some x) \<langle>?m, x, l1\<rangle>" "\<forall>z. z \<notin> insert x (set_tree ?m) \<longrightarrow> same_node h h2 z"
      "sparent h2 x = sparent h x"
      by (rule merge_step [OF _ _ h1(2) _ _ _ _ _ _ h2_def, of l1]; use p h1(3) d in auto)+
    moreover have "skew_heap_merge cmp a b h = Some (Some x, h2)"
      using True h1(1) ab by (subst skew_heap_merge.simps) (simp add: h2_def)
    ultimately show ?thesis using True by auto
  next
    case False
    let ?m = "fmerge cmp ?s r2"
    obtain h1 where h1: "skew_heap_merge cmp a (sright h y) h = Some (root ?m, h1)"
      "heap_at h1 (root ?m) ?m" "\<forall>z. z \<notin> set_tree ?s \<union> set_tree r2 \<longrightarrow> same_node h h1 z"
      using "3.IH"(2) [of a "sright h y"] False p by auto
    define h2 where "h2 = set_parent (root ?m) (Some y) (set_right y (sleft h y) (set_left y (root ?m) h1))"
    have d: "distinct (inorder ?m)" using p(3) by (intro distinct_fmerge) auto
    have "heap_at h2 (Some y) \<langle>?m, y, l2\<rangle>" "\<forall>z. z \<notin> insert y (set_tree ?m) \<longrightarrow> same_node h h2 z"
      "sparent h2 y = sparent h y"
      by (rule merge_step [OF _ _ h1(2) _ _ _ _ _ _ h2_def, of l2]; use p h1(3) d in auto)+
    moreover have "skew_heap_merge cmp a b h = Some (Some y, h2)"
      using False h1(1) ab by (subst skew_heap_merge.simps) (simp add: h2_def)
    ultimately show ?thesis using False by auto
  qed
qed

subsection \<open>Insertion and removal\<close>

definition pool_at :: "'n sheap \<Rightarrow> 'n option \<Rightarrow> 'n tree \<Rightarrow> bool" where
  "pool_at h a t \<longleftrightarrow> heap_at h a t \<and> distinct (inorder t) \<and>
     (\<forall>x. root t = Some x \<longrightarrow> sparent h x = None)"

lemma skew_heap_insert_refines:
  assumes "pool_at h a t" "b \<notin> set_tree t"
  shows "\<exists>h'. skew_heap_insert cmp a b h = Some (root (fmerge cmp t \<langle>\<langle>\<rangle>, b, \<langle>\<rangle>\<rangle>), h') \<and>
     pool_at h' (root (fmerge cmp t \<langle>\<langle>\<rangle>, b, \<langle>\<rangle>\<rangle>)) (fmerge cmp t \<langle>\<langle>\<rangle>, b, \<langle>\<rangle>\<rangle>) \<and>
     (\<forall>z. z \<notin> insert b (set_tree t) \<longrightarrow> same_node h h' z)"
proof -
  let ?h = "skew_heap_init b h"
  have init: "sleft ?h b = None" "sright ?h b = None" "sparent ?h b = None"
    "\<And>z. z \<noteq> b \<Longrightarrow> same_node h ?h z"
    by (auto simp: skew_heap_init_def set_left_def set_right_def set_parent_def same_node_def)
  have "\<forall>z \<in> set_tree t. same_node h ?h z" using assms(2) init(4) by metis
  then have "heap_at ?h a t"
    by (rule heap_at_frame_same) (use assms in \<open>auto simp: pool_at_def\<close>)
  moreover have "heap_at ?h (Some b) \<langle>\<langle>\<rangle>, b, \<langle>\<rangle>\<rangle>" by (simp add: init)
  moreover have d: "distinct (inorder t @ inorder \<langle>\<langle>\<rangle>, b, \<langle>\<rangle>\<rangle>)"
    using assms by (simp add: pool_at_def)
  ultimately obtain h' where h': "skew_heap_merge cmp a (Some b) ?h = Some (root (fmerge cmp t \<langle>\<langle>\<rangle>, b, \<langle>\<rangle>\<rangle>), h')"
    "heap_at h' (root (fmerge cmp t \<langle>\<langle>\<rangle>, b, \<langle>\<rangle>\<rangle>)) (fmerge cmp t \<langle>\<langle>\<rangle>, b, \<langle>\<rangle>\<rangle>)"
    "\<forall>z. z \<notin> set_tree t \<union> set_tree \<langle>\<langle>\<rangle>, b, \<langle>\<rangle>\<rangle> \<longrightarrow> same_node ?h h' z"
    "\<forall>z. root (fmerge cmp t \<langle>\<langle>\<rangle>, b, \<langle>\<rangle>\<rangle>) = Some z \<longrightarrow> sparent h' z = sparent ?h z"
    using skew_heap_merge_refines [of ?h a t "Some b" "\<langle>\<langle>\<rangle>, b, \<langle>\<rangle>\<rangle>" cmp] by blast
  have "sparent ?h z = None" if "root (fmerge cmp t \<langle>\<langle>\<rangle>, b, \<langle>\<rangle>\<rangle>) = Some z" for z
    using root_fmerge [of cmp t "\<langle>\<langle>\<rangle>, b, \<langle>\<rangle>\<rangle>"] that init assms
    by (cases "z = b") (auto simp: pool_at_def same_node_def)
  then have "pool_at h' (root (fmerge cmp t \<langle>\<langle>\<rangle>, b, \<langle>\<rangle>\<rangle>)) (fmerge cmp t \<langle>\<langle>\<rangle>, b, \<langle>\<rangle>\<rangle>)"
    using h'(2,4) distinct_fmerge [OF d] by (simp add: pool_at_def)
  moreover have "\<forall>z. z \<notin> insert b (set_tree t) \<longrightarrow> same_node h h' z"
    using h'(3) init(4) by (auto simp: same_node_def)
  ultimately show ?thesis using h'(1) by (auto simp: skew_heap_insert_def)
qed


lemma root_fremove: "root t \<noteq> Some b \<Longrightarrow> root (fremove cmp b t) = root t"
  by (cases t) auto

lemma remove_inner:
  assumes "heap_at h p t" "distinct (inorder t)" "b \<in> set_tree t" "root t \<noteq> Some b"
  shows "\<exists>q rep h1 h2 h3. sparent h b = Some q \<and>
    skew_heap_merge cmp (sleft h b) (sright h b) h = Some (rep, h1) \<and>
    h2 = set_parent rep (Some q) h1 \<and>
    h3 = (if sleft h2 q = Some b then set_left q rep h2 else set_right q rep h2) \<and>
    heap_at h3 p (fremove cmp b t) \<and> (\<forall>z. z \<notin> set_tree t \<longrightarrow> same_node h h3 z) \<and>
    (\<forall>z. root t = Some z \<longrightarrow> sparent h3 z = sparent h z)"
  using assms
proof (induction t arbitrary: p)
  case (Node l x r)
  note p = Node.prems
  have xb: "x \<noteq> b" using p(4) by simp
  consider (here) "root l = Some b \<or> root r = Some b"
    | (left) "b \<in> set_tree l" "root l \<noteq> Some b" | (right) "b \<in> set_tree r" "root r \<noteq> Some b"
    using p(3) xb by auto
  then show ?case
  proof cases
    case here
    then obtain ll lr c where c: "c = \<langle>ll, b, lr\<rangle>" "c = l \<and> b \<notin> set_tree r \<or> c = r \<and> b \<notin> set_tree l"
    proof (elim disjE)
      assume "root l = Some b"
      then obtain ll lr where "l = \<langle>ll, b, lr\<rangle>" by (cases l) auto
      then show thesis using that p(2) by auto
    next
      assume "root r = Some b"
      then obtain ll lr where "r = \<langle>ll, b, lr\<rangle>" by (cases r) auto
      then show thesis using that p(2) by auto
    qed
    let ?m = "fmerge cmp ll lr"
    have sub: "heap_at h (sleft h b) ll" "heap_at h (sright h b) lr" "distinct (inorder ll @ inorder lr)"
      "sparent h b = Some x" using p c by auto
    then obtain h1 where h1: "skew_heap_merge cmp (sleft h b) (sright h b) h = Some (root ?m, h1)"
      "heap_at h1 (root ?m) ?m" "\<forall>z. z \<notin> set_tree ll \<union> set_tree lr \<longrightarrow> same_node h h1 z"
      using skew_heap_merge_refines [OF sub(1-3), of cmp] by blast
    define h2 where "h2 = set_parent (root ?m) (Some x) h1"
    define h3 where "h3 = (if sleft h2 x = Some b then set_left x (root ?m) h2 else set_right x (root ?m) h2)"
    have out: "x \<notin> set_tree ?m" using c p(2) by auto
    have side: "sleft h x = Some b \<longleftrightarrow> c = l"
      using p(1,2) c heap_at_root [of h "sleft h x" l] by (auto dest: root_in_tree)
    have upd: "sleft h3 z = (if z = x \<and> c = l then root ?m else sleft h1 z)"
      "sright h3 z = (if z = x \<and> c \<noteq> l then root ?m else sright h1 z)"
      "sparent h3 z = (if root ?m = Some z then Some x else sparent h1 z)" for z
      using h1(3) out side
      by (auto simp: h3_def h2_def set_parent_def set_left_def set_right_def same_node_def split: option.splits)
    have m3: "heap_at h3 (root ?m) ?m" "parents_ok h3 x ?m"
      by (rule heap_at_frame [OF _ distinct_fmerge [OF sub(3)] h1(2)])
        (use out in \<open>auto simp: upd parents_ok_root\<close>)
    have same: "same_node h h3 z" if "z \<notin> set_tree ?m" "z \<noteq> x" for z
      using h1(3) that by (auto simp: same_node_def upd dest: root_in_tree)
    have x3: "sparent h3 x = sparent h x" "c = l \<Longrightarrow> sright h3 x = sright h x" "c \<noteq> l \<Longrightarrow> sleft h3 x = sleft h x"
      using h1(3) out by (auto simp: upd same_node_def dest: root_in_tree)
    have "heap_at h3 p (fremove cmp b \<langle>l, x, r\<rangle>)"
    proof (cases "c = l")
      case True
      have "\<forall>z \<in> set_tree r. z \<notin> set_tree ?m \<and> z \<noteq> x" using p(2) c True by auto
      then have "\<forall>z \<in> set_tree r. same_node h h3 z" using same by blast
      then have "heap_at h3 (sright h x) r" "parents_ok h3 x r"
        using heap_at_frame_same [of r h h3] p(1,2) root_in_tree [of r]
        by (auto simp: parents_ok_root same_node_def)
      then show ?thesis using True c m3 x3 p(1) xb by (auto simp: upd)
    next
      case False
      have "\<forall>z \<in> set_tree l. z \<notin> set_tree ?m \<and> z \<noteq> x" using p(2) c False by auto
      then have "\<forall>z \<in> set_tree l. same_node h h3 z" using same by blast
      then have "heap_at h3 (sleft h x) l" "parents_ok h3 x l"
        using heap_at_frame_same [of l h h3] p(1,2) root_in_tree [of l]
        by (auto simp: parents_ok_root same_node_def)
      then show ?thesis using False c m3 x3 p(1) xb by (auto simp: upd)
    qed
    moreover have "\<forall>z. z \<notin> set_tree \<langle>l, x, r\<rangle> \<longrightarrow> same_node h h3 z" using same c by auto
    ultimately show ?thesis using sub(4) h1(1) h2_def h3_def x3(1) by auto
  next
    case left
    then obtain q rep h1 h2 h3 where ih: "sparent h b = Some q"
      "skew_heap_merge cmp (sleft h b) (sright h b) h = Some (rep, h1)"
      "h2 = set_parent rep (Some q) h1"
      "h3 = (if sleft h2 q = Some b then set_left q rep h2 else set_right q rep h2)"
      "heap_at h3 (sleft h x) (fremove cmp b l)" "\<forall>z. z \<notin> set_tree l \<longrightarrow> same_node h h3 z"
      "\<forall>z. root l = Some z \<longrightarrow> sparent h3 z = sparent h z"
      using Node.IH(1) [of "sleft h x"] p by auto
    have "\<forall>z \<in> insert x (set_tree r). same_node h h3 z" using ih(6) p(2) by auto
    then have "heap_at h3 p (fremove cmp b \<langle>l, x, r\<rangle>)"
      using heap_at_frame_same [of r h h3] p(1,2) root_in_tree [of r] ih(5,7) left xb
      by (auto simp: parents_ok_root same_node_def root_fremove)
    then show ?thesis using ih p(2) by (auto simp: same_node_def)
  next
    case right
    then obtain q rep h1 h2 h3 where ih: "sparent h b = Some q"
      "skew_heap_merge cmp (sleft h b) (sright h b) h = Some (rep, h1)"
      "h2 = set_parent rep (Some q) h1"
      "h3 = (if sleft h2 q = Some b then set_left q rep h2 else set_right q rep h2)"
      "heap_at h3 (sright h x) (fremove cmp b r)" "\<forall>z. z \<notin> set_tree r \<longrightarrow> same_node h h3 z"
      "\<forall>z. root r = Some z \<longrightarrow> sparent h3 z = sparent h z"
      using Node.IH(2) [of "sright h x"] p by auto
    have "\<forall>z \<in> insert x (set_tree l). same_node h h3 z" using ih(6) p(2) by auto
    moreover have "b \<notin> set_tree l" using p(2) right by auto
    ultimately have "heap_at h3 p (fremove cmp b \<langle>l, x, r\<rangle>)"
      using heap_at_frame_same [of l h h3] p(1,2) root_in_tree [of l] ih(5,7) right xb
      by (auto simp: parents_ok_root same_node_def root_fremove)
    then show ?thesis using ih p(2) by (auto simp: same_node_def)
  qed
qed simp

lemma distinct_fremove: "distinct (inorder t) \<Longrightarrow> distinct (inorder (fremove cmp b t))"
proof (induction t)
  case (Node l x r)
  then show ?case using set_fremove_subset [of cmp b l] set_fremove_subset [of cmp b r]
      distinct_fmerge [of l r cmp] by auto
qed simp

lemma skew_heap_remove_refines:
  assumes "pool_at h a t" "b \<in> set_tree t"
  shows "\<exists>h'. skew_heap_remove cmp a b h = Some (root (fremove cmp b t), h') \<and>
     pool_at h' (root (fremove cmp b t)) (fremove cmp b t) \<and>
     (\<forall>z. z \<notin> set_tree t \<longrightarrow> same_node h h' z)"
proof (cases "root t = Some b")
  case True
  then obtain l r where t: "t = \<langle>l, b, r\<rangle>" by (cases t) auto
  have sub: "heap_at h (sleft h b) l" "heap_at h (sright h b) r" "distinct (inorder l @ inorder r)"
    "sparent h b = None" using assms(1) by (auto simp: pool_at_def t)
  let ?m = "fmerge cmp l r"
  obtain h1 where h1: "skew_heap_merge cmp (sleft h b) (sright h b) h = Some (root ?m, h1)"
    "heap_at h1 (root ?m) ?m" "\<forall>z. z \<notin> set_tree l \<union> set_tree r \<longrightarrow> same_node h h1 z"
    using skew_heap_merge_refines [OF sub(1-3), of cmp] by blast
  define h2 where "h2 = set_parent (root ?m) None h1"
  have "heap_at h2 (root ?m) ?m"
    by (rule heap_at_frame [OF _ distinct_fmerge [OF sub(3)] h1(2)])
      (auto simp: h2_def set_parent_def split: option.splits)
  moreover have "\<forall>z. z \<notin> set_tree t \<longrightarrow> same_node h h2 z"
    using h1(3) root_in_tree [of ?m] t
    by (auto simp: h2_def set_parent_def same_node_def split: option.splits)
  moreover have "\<forall>x. root ?m = Some x \<longrightarrow> sparent h2 x = None"
    by (simp add: h2_def set_parent_def)
  ultimately show ?thesis using sub(4) h1(1) distinct_fmerge [OF sub(3)] t
    by (auto simp: skew_heap_remove_def pool_at_def h2_def)
next
  case False
  obtain q rep h1 h2 h3 where r: "sparent h b = Some q"
      "skew_heap_merge cmp (sleft h b) (sright h b) h = Some (rep, h1)"
      "h2 = set_parent rep (Some q) h1"
      "h3 = (if sleft h2 q = Some b then set_left q rep h2 else set_right q rep h2)"
      "heap_at h3 a (fremove cmp b t)" "\<forall>z. z \<notin> set_tree t \<longrightarrow> same_node h h3 z"
      "\<forall>z. root t = Some z \<longrightarrow> sparent h3 z = sparent h z"
    using remove_inner [of h a t b cmp] assms False by (auto simp: pool_at_def)
  have "skew_heap_remove cmp a b h = Some (a, h3)"
    using r(1-4) by (simp add: skew_heap_remove_def)
  moreover have "a = root (fremove cmp b t)" using r(5) by (rule heap_at_root)
  ultimately show ?thesis using r assms False distinct_fremove [of t cmp b] root_fremove [of t b cmp]
    by (auto simp: pool_at_def)
qed

end
