(* ===== verification/Kstate.thy ===== *)
theory Kstate
  imports CList SkewHeap
begin

unbundle bit_operations_syntax

section \<open>Process structures and the kernel state the scheduler works on\<close>

text \<open>
  \<open>struct proc_struct\<close>, \<open>struct trapframe\<close>, timers, wait entries, semaphores and the run queue
  (kern/process/proc.h, kern/trap/trap.h, kern/schedule/sched.h, kern/sync/wait.h, sem.h). A
  pointer to a process is a number, a pointer that may be null an \<open>option\<close>. All list links of
  these structures live in one store \<open>klinks\<close>; the constructors of \<open>klink\<close> name the list heads
  and the link fields. \<open>uint32_t\<close> fields are \<open>32 word\<close>, registers \<open>64 word\<close>.

  The kernel runs on one hart and these operations run with interrupts off
  (\<open>local_intr_save\<close>), so each is one step of the state.
\<close>

subsection \<open>Error numbers (libs/error.h)\<close>

definition E_UNSPECIFIED :: int where "E_UNSPECIFIED = 1"
definition E_BAD_PROC :: int where "E_BAD_PROC = 2"
definition E_INVAL :: int where "E_INVAL = 3"
definition E_NO_MEM :: int where "E_NO_MEM = 4"
definition E_NO_FREE_PROC :: int where "E_NO_FREE_PROC = 5"
definition E_FAULT :: int where "E_FAULT = 6"
definition E_SWAP_FAULT :: int where "E_SWAP_FAULT = 7"
definition E_INVAL_ELF :: int where "E_INVAL_ELF = 8"
definition E_KILLED :: int where "E_KILLED = 9"
definition E_PANIC :: int where "E_PANIC = 10"
definition E_TIMEOUT :: int where "E_TIMEOUT = 11"
definition E_TOO_BIG :: int where "E_TOO_BIG = 12"
definition E_NO_DEV :: int where "E_NO_DEV = 13"
definition E_NA_DEV :: int where "E_NA_DEV = 14"
definition E_BUSY :: int where "E_BUSY = 15"
definition E_NOENT :: int where "E_NOENT = 16"
definition E_ISDIR :: int where "E_ISDIR = 17"
definition E_NOTDIR :: int where "E_NOTDIR = 18"
definition E_XDEV :: int where "E_XDEV = 19"
definition E_UNIMP :: int where "E_UNIMP = 20"
definition E_SEEK :: int where "E_SEEK = 21"
definition E_MAX_OPEN :: int where "E_MAX_OPEN = 22"
definition E_EXISTS :: int where "E_EXISTS = 23"
definition E_NOTEMPTY :: int where "E_NOTEMPTY = 24"

lemmas error_defs = E_UNSPECIFIED_def E_BAD_PROC_def E_INVAL_def E_NO_MEM_def E_NO_FREE_PROC_def
  E_FAULT_def E_SWAP_FAULT_def E_INVAL_ELF_def E_KILLED_def E_PANIC_def E_TIMEOUT_def
  E_TOO_BIG_def E_NO_DEV_def E_NA_DEV_def E_BUSY_def E_NOENT_def E_ISDIR_def E_NOTDIR_def
  E_XDEV_def E_UNIMP_def E_SEEK_def E_MAX_OPEN_def E_EXISTS_def E_NOTEMPTY_def

subsection \<open>Processes\<close>

datatype proc_state = PROC_UNINIT | PROC_SLEEPING | PROC_RUNNABLE | PROC_ZOMBIE

datatype pushregs = Zero | RA | SP | GP | TP | T0 | T1 | T2 | S0 | S1 | A0 | A1 | A2 | A3 | A4 | A5
  | A6 | A7 | S2 | S3 | S4 | S5 | S6 | S7 | S8 | S9 | S10 | S11 | T3 | T4 | T5 | T6

record trapframe =
  gpr :: "pushregs \<Rightarrow> 64 word"
  tf_status :: "64 word"
  tf_epc :: "64 word"
  tf_tval :: "64 word"
  tf_cause :: "64 word"

record ctxt =
  ctx_ra :: "64 word"
  ctx_sp :: "64 word"
  ctx_s :: "nat \<Rightarrow> 64 word"

record proc_struct =
  state :: proc_state
  pid :: int
  runs :: int
  kstack :: "64 word"
  need_resched :: bool
  parent :: "nat option"
  proc_mm :: "nat option"
  proc_ctx :: ctxt
  proc_tf :: "64 word option"
  proc_cr3 :: "64 word"
  pflags :: "32 word"
  proc_name :: string
  exit_code :: int
  wait_state :: "32 word"
  cptr :: "nat option"
  yptr :: "nat option"
  optr :: "nat option"
  on_rq :: bool
  time_slice :: int
  lab6_stride :: "32 word"
  lab6_priority :: "32 word"
  filesp :: "nat option"

definition PF_EXITING :: "32 word" where "PF_EXITING = 1"
definition WT_INTERRUPTED :: "32 word" where "WT_INTERRUPTED = 0x80000000"
definition WT_CHILD :: "32 word" where "WT_CHILD = 1 OR WT_INTERRUPTED"
definition WT_KSEM :: "32 word" where "WT_KSEM = 0x100"
definition WT_TIMER :: "32 word" where "WT_TIMER = 2 OR WT_INTERRUPTED"
definition WT_KBD :: "32 word" where "WT_KBD = 4 OR WT_INTERRUPTED"

lemmas wt_defs = PF_EXITING_def WT_INTERRUPTED_def WT_CHILD_def WT_KSEM_def WT_TIMER_def WT_KBD_def

lemma wt_values:
  "WT_CHILD = 0x80000001" "WT_TIMER = 0x80000002" "WT_KBD = 0x80000004" "WT_KSEM = 0x100"
  "WT_INTERRUPTED = 0x80000000"
  by (simp_all add: wt_defs)

subsection \<open>Timers, wait entries, semaphores\<close>

record timer_t =
  expires :: nat
  timer_proc :: nat

record wait_t =
  wait_proc :: nat
  wakeup_flags :: "32 word"
  in_queue :: nat

datatype klink = ProcList | ListLink nat | HashList nat | HashLink nat
  | RunList | RunLink nat | TimerList | TimerLink nat | WaitHead nat | WaitLink nat

text \<open>
  A wait queue is a number \<open>q\<close>; its head is \<open>WaitHead q\<close>. A semaphore is its wait queue
  together with \<open>sem_value q\<close>.
\<close>

record kst =
  procs :: "nat \<Rightarrow> proc_struct"
  current :: nat
  idleproc :: nat
  initproc :: nat
  nr_process :: int
  next_safe :: int
  last_pid :: int
  klinks :: "klink links"
  proc_num :: "32 word"
  max_time_slice :: int
  run_pool :: "nat option"
  pool :: "nat sheap"
  timers :: "nat \<Rightarrow> timer_t"
  waits :: "nat \<Rightarrow> wait_t"
  sem_value :: "nat \<Rightarrow> int"
  satp :: "64 word"

definition upd_proc :: "nat \<Rightarrow> (proc_struct \<Rightarrow> proc_struct) \<Rightarrow> kst \<Rightarrow> kst" where
  "upd_proc p f s = s\<lparr>procs := (procs s)(p := f (procs s p))\<rparr>"

definition upd_links :: "(klink links \<Rightarrow> klink links) \<Rightarrow> kst \<Rightarrow> kst" where
  "upd_links f s = s\<lparr>klinks := f (klinks s)\<rparr>"

lemma upd_proc_simps [simp]:
  "procs (upd_proc p f s) = (procs s)(p := f (procs s p))"
  "current (upd_proc p f s) = current s" "idleproc (upd_proc p f s) = idleproc s"
  "initproc (upd_proc p f s) = initproc s" "nr_process (upd_proc p f s) = nr_process s"
  "next_safe (upd_proc p f s) = next_safe s" "last_pid (upd_proc p f s) = last_pid s"
  "klinks (upd_proc p f s) = klinks s" "proc_num (upd_proc p f s) = proc_num s"
  "max_time_slice (upd_proc p f s) = max_time_slice s" "run_pool (upd_proc p f s) = run_pool s"
  "pool (upd_proc p f s) = pool s" "timers (upd_proc p f s) = timers s"
  "waits (upd_proc p f s) = waits s" "sem_value (upd_proc p f s) = sem_value s"
  "satp (upd_proc p f s) = satp s"
  by (simp_all add: upd_proc_def)

lemma upd_links_simps [simp]:
  "klinks (upd_links f s) = f (klinks s)" "procs (upd_links f s) = procs s"
  "current (upd_links f s) = current s" "idleproc (upd_links f s) = idleproc s"
  "initproc (upd_links f s) = initproc s" "nr_process (upd_links f s) = nr_process s"
  "next_safe (upd_links f s) = next_safe s" "last_pid (upd_links f s) = last_pid s"
  "proc_num (upd_links f s) = proc_num s"
  "max_time_slice (upd_links f s) = max_time_slice s" "run_pool (upd_links f s) = run_pool s"
  "pool (upd_links f s) = pool s" "timers (upd_links f s) = timers s"
  "waits (upd_links f s) = waits s" "sem_value (upd_links f s) = sem_value s"
  "satp (upd_links f s) = satp s"
  by (simp_all add: upd_links_def)

end
