(* ===== verification/Sched.thy ===== *)
theory Sched
  imports Kstate
begin

section \<open>Scheduling (kern/schedule)\<close>

text \<open>
  \<open>struct sched_class\<close> with its two implementations, the stride scheduler on a skew heap
  (lab8) and round robin (lab7's \<open>default_sched_c.c\<close>), the core in \<open>sched.c\<close> that calls
  them, and the timer list. The scheduler class is a record of functions, passed to the core
  as the code's \<open>sched_class\<close> pointer is; \<open>sched_policy\<close> is the contract between the two.
\<close>

record sched_class =
  sc_init :: "kst \<Rightarrow> kst"
  enqueue :: "nat \<Rightarrow> kst \<Rightarrow> kst option"
  dequeue :: "nat \<Rightarrow> kst \<Rightarrow> kst option"
  pick_next :: "kst \<Rightarrow> (nat option \<times> kst) option"
  proc_tick :: "nat \<Rightarrow> kst \<Rightarrow> kst"

subsection \<open>The stride scheduler\<close>

definition BIG_STRIDE :: "32 word" where "BIG_STRIDE = 100000"
definition MAX_TIME_SLICE :: int where "MAX_TIME_SLICE = 5"

definition proc_stride_comp_f :: "(nat \<Rightarrow> proc_struct) \<Rightarrow> nat \<Rightarrow> nat \<Rightarrow> int" where
  "proc_stride_comp_f ps a b =
     (let c = sint (lab6_stride (ps a) - lab6_stride (ps b))
      in if c > 0 then 1 else if c = 0 then 0 else -1)"

definition stride_init :: "kst \<Rightarrow> kst" where
  "stride_init s = (upd_links (list_init RunList) s)\<lparr>run_pool := None, proc_num := 0\<rparr>"

definition refill_slice :: "nat \<Rightarrow> kst \<Rightarrow> kst" where
  "refill_slice p s =
     (if time_slice (procs s p) = 0 \<or> time_slice (procs s p) > max_time_slice s
      then upd_proc p (\<lambda>x. x\<lparr>time_slice := max_time_slice s\<rparr>) s else s)"

definition stride_enqueue :: "nat \<Rightarrow> kst \<Rightarrow> kst option" where
  "stride_enqueue p s = do {
     (rp, h) \<leftarrow> skew_heap_insert (proc_stride_comp_f (procs s)) (run_pool s) p (pool s);
     let s = s\<lparr>run_pool := rp, pool := h\<rparr>;
     let s = upd_links (list_add_before RunList (RunLink p)) s;
     let s = refill_slice p s;
     let s = upd_proc p (\<lambda>x. x\<lparr>on_rq := True\<rparr>) s;
     Some (s\<lparr>proc_num := proc_num s + 1\<rparr>)
   }"

definition stride_dequeue :: "nat \<Rightarrow> kst \<Rightarrow> kst option" where
  "stride_dequeue p s = do {
     (rp, h) \<leftarrow> skew_heap_remove (proc_stride_comp_f (procs s)) (run_pool s) p (pool s);
     let s = s\<lparr>run_pool := rp, pool := h\<rparr>;
     let s = upd_links (list_del_init (RunLink p)) s;
     Some (s\<lparr>proc_num := proc_num s - 1\<rparr>)
   }"

text \<open>Division by a zero priority is undefined in C.\<close>

definition stride_pick_next :: "kst \<Rightarrow> (nat option \<times> kst) option" where
  "stride_pick_next s =
     (case run_pool s of
        None \<Rightarrow> Some (None, s)
      | Some p \<Rightarrow> do {
          assert_c (lab6_priority (procs s p) \<noteq> 0);
          Some (Some p, upd_proc p (\<lambda>x. x\<lparr>lab6_stride :=
            lab6_stride x + BIG_STRIDE div lab6_priority x\<rparr>) s)
        })"

definition tick_slice :: "nat \<Rightarrow> kst \<Rightarrow> kst" where
  "tick_slice p s =
     (let s = (if time_slice (procs s p) > 0
               then upd_proc p (\<lambda>x. x\<lparr>time_slice := time_slice x - 1\<rparr>) s else s)
      in if time_slice (procs s p) = 0 then upd_proc p (\<lambda>x. x\<lparr>need_resched := True\<rparr>) s else s)"

definition stride_proc_tick :: "nat \<Rightarrow> kst \<Rightarrow> kst" where
  "stride_proc_tick p s = tick_slice p s"

definition stride_sched_class :: sched_class where
  "stride_sched_class = \<lparr>sc_init = stride_init, enqueue = stride_enqueue, dequeue = stride_dequeue,
     pick_next = stride_pick_next, proc_tick = stride_proc_tick\<rparr>"

subsection \<open>Round robin\<close>

definition RR_init :: "kst \<Rightarrow> kst" where
  "RR_init s = (upd_links (list_init RunList) s)\<lparr>proc_num := 0\<rparr>"

definition RR_enqueue :: "nat \<Rightarrow> kst \<Rightarrow> kst option" where
  "RR_enqueue p s = do {
     assert_c (list_empty (RunLink p) (klinks s));
     let s = upd_links (list_add_before RunList (RunLink p)) s;
     let s = refill_slice p s;
     let s = upd_proc p (\<lambda>x. x\<lparr>on_rq := True\<rparr>) s;
     Some (s\<lparr>proc_num := proc_num s + 1\<rparr>)
   }"

definition RR_dequeue :: "nat \<Rightarrow> kst \<Rightarrow> kst option" where
  "RR_dequeue p s = do {
     assert_c (\<not> list_empty (RunLink p) (klinks s) \<and> on_rq (procs s p));
     let s = upd_links (list_del_init (RunLink p)) s;
     Some (s\<lparr>proc_num := proc_num s - 1\<rparr>)
   }"

definition RR_pick_next :: "kst \<Rightarrow> (nat option \<times> kst) option" where
  "RR_pick_next s =
     (case list_next RunList (klinks s) of RunLink p \<Rightarrow> Some (Some p, s) | _ \<Rightarrow> Some (None, s))"

definition RR_proc_tick :: "nat \<Rightarrow> kst \<Rightarrow> kst" where
  "RR_proc_tick p s = tick_slice p s"

definition RR_sched_class :: sched_class where
  "RR_sched_class = \<lparr>sc_init = RR_init, enqueue = RR_enqueue, dequeue = RR_dequeue,
     pick_next = RR_pick_next, proc_tick = RR_proc_tick\<rparr>"

subsection \<open>The core (sched.c)\<close>

definition sched_class_enqueue :: "sched_class \<Rightarrow> nat \<Rightarrow> kst \<Rightarrow> kst option" where
  "sched_class_enqueue sc p s = (if p \<noteq> idleproc s then enqueue sc p s else Some s)"

definition sched_class_dequeue :: "sched_class \<Rightarrow> nat \<Rightarrow> kst \<Rightarrow> kst option" where
  "sched_class_dequeue sc p s = dequeue sc p s"

definition sched_class_pick_next :: "sched_class \<Rightarrow> kst \<Rightarrow> (nat option \<times> kst) option" where
  "sched_class_pick_next sc s = pick_next sc s"

definition sched_class_proc_tick :: "sched_class \<Rightarrow> nat \<Rightarrow> kst \<Rightarrow> kst" where
  "sched_class_proc_tick sc p s =
     (if p \<noteq> idleproc s then proc_tick sc p s
      else upd_proc p (\<lambda>x. x\<lparr>need_resched := True\<rparr>) s)"

definition sched_init :: "sched_class \<Rightarrow> kst \<Rightarrow> kst" where
  "sched_init sc s = sc_init sc ((upd_links (list_init TimerList) s)\<lparr>max_time_slice := MAX_TIME_SLICE\<rparr>)"

definition wakeup_proc :: "sched_class \<Rightarrow> nat \<Rightarrow> kst \<Rightarrow> kst option" where
  "wakeup_proc sc p s = do {
     assert_c (state (procs s p) \<noteq> PROC_ZOMBIE);
     if state (procs s p) \<noteq> PROC_RUNNABLE then
       let s = upd_proc p (\<lambda>x. x\<lparr>state := PROC_RUNNABLE, wait_state := 0\<rparr>) s
       in if p \<noteq> current s then sched_class_enqueue sc p s else Some s
     else Some s
   }"

text \<open>
  \<open>proc_run\<close> (kern/process/proc.c): the context switch. What the model keeps of
  \<open>switch_to\<close> is that \<open>current\<close> and the page table base change.
\<close>

definition proc_run :: "nat \<Rightarrow> kst \<Rightarrow> kst" where
  "proc_run p s =
     (if p \<noteq> current s then
        if pid (procs s p) = pid (procs s (current s)) then s
        else s\<lparr>current := p, satp := proc_cr3 (procs s p)\<rparr>
      else s)"

definition schedule :: "sched_class \<Rightarrow> kst \<Rightarrow> kst option" where
  "schedule sc s = do {
     let s = upd_proc (current s) (\<lambda>x. x\<lparr>need_resched := False\<rparr>) s;
     s \<leftarrow> (if state (procs s (current s)) = PROC_RUNNABLE
            then sched_class_enqueue sc (current s) s else Some s);
     (nx, s) \<leftarrow> sched_class_pick_next sc s;
     s \<leftarrow> (case nx of Some p \<Rightarrow> sched_class_dequeue sc p s | None \<Rightarrow> Some s);
     let p = (case nx of Some p \<Rightarrow> p | None \<Rightarrow> idleproc s);
     let s = upd_proc p (\<lambda>x. x\<lparr>runs := runs x + 1\<rparr>) s;
     Some (if p \<noteq> current s then proc_run p s else s)
   }"

subsection \<open>Timers (sched.c)\<close>

definition timer_init :: "nat \<Rightarrow> nat \<Rightarrow> nat \<Rightarrow> kst \<Rightarrow> kst" where
  "timer_init t p e s =
     upd_links (list_init (TimerLink t)) (s\<lparr>timers := (timers s)(t := \<lparr>expires = e, timer_proc = p\<rparr>)\<rparr>)"

definition upd_timer :: "nat \<Rightarrow> (nat \<Rightarrow> nat) \<Rightarrow> kst \<Rightarrow> kst" where
  "upd_timer t f s = s\<lparr>timers := (timers s)(t := (timers s t)\<lparr>expires := f (expires (timers s t))\<rparr>)\<rparr>"

fun le2timer :: "klink \<Rightarrow> nat option" where
  "le2timer (TimerLink t) = Some t"
| "le2timer _ = None"

partial_function (option) add_timer_loop :: "nat \<Rightarrow> klink \<Rightarrow> kst \<Rightarrow> (klink \<times> kst) option" where
  "add_timer_loop t le s =
     (if le \<noteq> TimerList then do {
        nx \<leftarrow> le2timer le;
        if expires (timers s t) < expires (timers s nx)
        then Some (le, upd_timer nx (\<lambda>e. e - expires (timers s t)) s)
        else (let s' = upd_timer t (\<lambda>e. e - expires (timers s nx)) s
              in add_timer_loop t (list_next le (klinks s')) s')
      } else Some (le, s))"

definition add_timer :: "nat \<Rightarrow> kst \<Rightarrow> kst option" where
  "add_timer t s = do {
     assert_c (expires (timers s t) > 0);
     assert_c (list_empty (TimerLink t) (klinks s));
     (le, s) \<leftarrow> add_timer_loop t (list_next TimerList (klinks s)) s;
     Some (upd_links (list_add_before le (TimerLink t)) s)
   }"

definition del_timer :: "nat \<Rightarrow> kst \<Rightarrow> kst option" where
  "del_timer t s =
     (if \<not> list_empty (TimerLink t) (klinks s) then do {
        s \<leftarrow> (if expires (timers s t) \<noteq> 0 then
               let le = list_next (TimerLink t) (klinks s)
               in if le \<noteq> TimerList then do {
                    nx \<leftarrow> le2timer le;
                    Some (upd_timer nx (\<lambda>e. e + expires (timers s t)) s)
                  } else Some s
             else Some s);
        Some (upd_links (list_del_init (TimerLink t)) s)
      } else Some s)"

partial_function (option) expire_loop :: "sched_class \<Rightarrow> nat \<Rightarrow> klink \<Rightarrow> kst \<Rightarrow> kst option" where
  "expire_loop sc t le s =
     (if expires (timers s t) = 0 then do {
        let le = list_next le (klinks s);
        let p = timer_proc (timers s t);
        assert_c (wait_state (procs s p) \<noteq> 0 \<longrightarrow> wait_state (procs s p) AND WT_INTERRUPTED \<noteq> 0);
        s \<leftarrow> wakeup_proc sc p s;
        s \<leftarrow> del_timer t s;
        if le = TimerList then Some s
        else do {
          t \<leftarrow> le2timer le;
          expire_loop sc t le s
        }
      } else Some s)"

definition run_timer_list :: "sched_class \<Rightarrow> kst \<Rightarrow> kst option" where
  "run_timer_list sc s = do {
     s \<leftarrow> (let le = list_next TimerList (klinks s)
           in if le \<noteq> TimerList then do {
                t \<leftarrow> le2timer le;
                assert_c (expires (timers s t) \<noteq> 0);
                expire_loop sc t le (upd_timer t (\<lambda>e. e - 1) s)
              } else Some s);
     Some (sched_class_proc_tick sc (current s) s)
   }"

declare add_timer_loop.simps [code] expire_loop.simps [code]


subsection \<open>The contract of a scheduler class\<close>

fun run_link :: "klink \<Rightarrow> bool" where
  "run_link RunList = True"
| "run_link (RunLink _) = True"
| "run_link _ = False"

text \<open>What an operation of a scheduler class leaves as it was.\<close>

definition masked :: "proc_struct \<Rightarrow> proc_struct" where
  "masked x = x\<lparr>time_slice := 0, lab6_stride := 0, on_rq := False, need_resched := False\<rparr>"

lemma masked_sels:
  "state (masked x) = state x" "wait_state (masked x) = wait_state x" "pid (masked x) = pid x"
  "lab6_priority (masked x) = lab6_priority x"
  by (simp_all add: masked_def)

definition sched_keeps :: "kst \<Rightarrow> kst \<Rightarrow> bool" where
  "sched_keeps s t \<longleftrightarrow>
     current t = current s \<and> idleproc t = idleproc s \<and> initproc t = initproc s \<and>
     nr_process t = nr_process s \<and> next_safe t = next_safe s \<and> last_pid t = last_pid s \<and>
     max_time_slice t = max_time_slice s \<and> timers t = timers s \<and> waits t = waits s \<and>
     sem_value t = sem_value s \<and> satp t = satp s \<and>
     (\<forall>p. masked (procs t p) = masked (procs s p)) \<and>
     (\<forall>l. \<not> run_link l \<longrightarrow> nxt (klinks t) l = nxt (klinks s) l \<and> prv (klinks t) l = prv (klinks s) l)"

text \<open>What the core may change between two calls without touching the run queue.\<close>

definition rq_same :: "kst \<Rightarrow> kst \<Rightarrow> bool" where
  "rq_same s t \<longleftrightarrow> proc_num t = proc_num s \<and> run_pool t = run_pool s \<and> pool t = pool s \<and>
     (\<forall>p. lab6_stride (procs t p) = lab6_stride (procs s p) \<and>
          lab6_priority (procs t p) = lab6_priority (procs s p) \<and> on_rq (procs t p) = on_rq (procs s p)) \<and>
     (\<forall>l. run_link l \<longrightarrow> nxt (klinks t) l = nxt (klinks s) l \<and> prv (klinks t) l = prv (klinks s) l)"

lemma sched_keeps_sels:
  assumes "sched_keeps s t"
  shows "current t = current s" "idleproc t = idleproc s" "initproc t = initproc s"
    "state (procs t p) = state (procs s p)" "wait_state (procs t p) = wait_state (procs s p)"
    "pid (procs t p) = pid (procs s p)" "lab6_priority (procs t p) = lab6_priority (procs s p)"
    "timers t = timers s" "waits t = waits s" "sem_value t = sem_value s"
proof -
  have m: "masked (procs t p) = masked (procs s p)" using assms by (simp only: sched_keeps_def)
  show "state (procs t p) = state (procs s p)" using arg_cong [OF m, of state] by (simp add: masked_sels)
  show "wait_state (procs t p) = wait_state (procs s p)"
    using arg_cong [OF m, of wait_state] by (simp add: masked_sels)
  show "pid (procs t p) = pid (procs s p)" using arg_cong [OF m, of pid] by (simp add: masked_sels)
  show "lab6_priority (procs t p) = lab6_priority (procs s p)"
    using arg_cong [OF m, of lab6_priority] by (simp add: masked_sels)
  show "current t = current s" "idleproc t = idleproc s" "initproc t = initproc s"
    "timers t = timers s" "waits t = waits s" "sem_value t = sem_value s"
    using assms by (simp_all only: sched_keeps_def)
qed

lemma sched_keeps_refl [simp]: "sched_keeps s s"
  by (simp add: sched_keeps_def)

lemma sched_keeps_trans: "sched_keeps s t \<Longrightarrow> sched_keeps t u \<Longrightarrow> sched_keeps s u"
  by (simp add: sched_keeps_def)

lemma sched_keeps_upd:
  "(\<And>x. masked (f x) = masked x) \<Longrightarrow> sched_keeps s (upd_proc p f s)"
  by (simp add: sched_keeps_def)

lemma rq_same_sym: "rq_same s t \<Longrightarrow> rq_same t s"
  by (simp add: rq_same_def)

lemma rq_same_upd:
  "(\<And>x. lab6_stride (f x) = lab6_stride x \<and> lab6_priority (f x) = lab6_priority x \<and> on_rq (f x) = on_rq x) \<Longrightarrow>
     rq_same s (upd_proc p f s)"
  by (simp add: rq_same_def)

text \<open>
  The invariant of the core: the run queue holds exactly the runnable processes other than
  the current and the idle one; process identifiers of live processes are distinct.
\<close>

definition sched_inv :: "(kst \<Rightarrow> nat set \<Rightarrow> bool) \<Rightarrow> (proc_struct \<Rightarrow> bool) \<Rightarrow> kst \<Rightarrow> bool" where
  "sched_inv rq ready s \<longleftrightarrow>
     rq s {p. state (procs s p) = PROC_RUNNABLE \<and> p \<noteq> current s \<and> p \<noteq> idleproc s} \<and>
     (\<forall>p. state (procs s p) \<noteq> PROC_UNINIT \<longrightarrow> p \<noteq> idleproc s \<longrightarrow> ready (procs s p)) \<and>
     inj_on (\<lambda>p. pid (procs s p)) {p. state (procs s p) \<noteq> PROC_UNINIT} \<and>
     state (procs s (idleproc s)) = PROC_RUNNABLE \<and> state (procs s (current s)) \<noteq> PROC_UNINIT"

locale sched_policy =
  fixes sc :: sched_class
    and rq :: "kst \<Rightarrow> nat set \<Rightarrow> bool"
    and ready :: "proc_struct \<Rightarrow> bool"
  assumes init: "(\<And>p. list_empty (RunLink p) (klinks s)) \<Longrightarrow> rq (sc_init sc s) {}"
    and enq: "rq s Q \<Longrightarrow> p \<notin> Q \<Longrightarrow> ready (procs s p) \<Longrightarrow>
      \<exists>t. enqueue sc p s = Some t \<and> rq t (insert p Q) \<and> sched_keeps s t"
    and deq: "rq s Q \<Longrightarrow> p \<in> Q \<Longrightarrow>
      \<exists>t. dequeue sc p s = Some t \<and> rq t (Q - {p}) \<and> sched_keeps s t"
    and pick: "rq s Q \<Longrightarrow> \<exists>r t. pick_next sc s = Some (r, t) \<and> rq t Q \<and> sched_keeps s t \<and>
      (case r of None \<Rightarrow> Q = {} | Some p \<Rightarrow> p \<in> Q)"
    and tick: "rq s Q \<Longrightarrow> rq (proc_tick sc p s) Q \<and> sched_keeps s (proc_tick sc p s)"
    and same: "rq_same s t \<Longrightarrow> rq s Q \<Longrightarrow> rq t Q"
    and ready_masked: "masked x = masked y \<Longrightarrow> ready x = ready y"
    and ready_state: "ready (x\<lparr>state := st, wait_state := w\<rparr>) = ready x"
    and ready_runs: "ready (x\<lparr>runs := r\<rparr>) = ready x"
begin

lemma keeps_ready: "sched_keeps s t \<Longrightarrow> ready (procs t p) = ready (procs s p)"
  by (rule ready_masked) (simp only: sched_keeps_def)

lemma wakeup_ok:
  assumes inv: "sched_inv rq ready s" and z: "state (procs s p) \<noteq> PROC_ZOMBIE" and r: "ready (procs s p)"
    and pid: "\<forall>q. q \<noteq> p \<longrightarrow> state (procs s q) \<noteq> PROC_UNINIT \<longrightarrow> pid (procs s q) \<noteq> pid (procs s p)"
  shows "\<exists>t. wakeup_proc sc p s = Some t \<and> sched_inv rq ready t \<and> state (procs t p) = PROC_RUNNABLE \<and>
    current t = current s \<and> idleproc t = idleproc s \<and> timers t = timers s \<and>
    (\<forall>q. q \<noteq> p \<longrightarrow> state (procs t q) = state (procs s q) \<and> wait_state (procs t q) = wait_state (procs s q)) \<and>
    wait_state (procs t p) \<in> {0, wait_state (procs s p)} \<and>
    waits t = waits s \<and> sem_value t = sem_value s \<and>
    (\<forall>q. pid (procs t q) = pid (procs s q) \<and> ready (procs t q) = ready (procs s q)) \<and>
    (\<forall>l. \<not> run_link l \<longrightarrow> nxt (klinks t) l = nxt (klinks s) l \<and> prv (klinks t) l = prv (klinks s) l)"
proof (cases "state (procs s p) = PROC_RUNNABLE")
  case True
  then show ?thesis using inv by (auto simp: wakeup_proc_def)
next
  case False
  let ?s = "upd_proc p (\<lambda>x. x\<lparr>state := PROC_RUNNABLE, wait_state := 0\<rparr>) s"
  let ?Q = "{q. state (procs s q) = PROC_RUNNABLE \<and> q \<noteq> current s \<and> q \<noteq> idleproc s}"
  let ?Q' = "{q. state (procs ?s q) = PROC_RUNNABLE \<and> q \<noteq> current s \<and> q \<noteq> idleproc s}"
  have idle: "p \<noteq> idleproc s" using False inv by (auto simp: sched_inv_def)
  have q: "rq ?s ?Q"
    by (rule same [of s]) (use inv in \<open>auto simp: sched_inv_def intro: rq_same_upd\<close>)
  have rest: "\<forall>q. state (procs ?s q) \<noteq> PROC_UNINIT \<longrightarrow> q \<noteq> idleproc s \<longrightarrow> ready (procs ?s q)"
    "inj_on (\<lambda>q. pid (procs ?s q)) {q. state (procs ?s q) \<noteq> PROC_UNINIT}"
    using inv r pid by (auto simp: sched_inv_def ready_state inj_on_def)
  show ?thesis
  proof (cases "p = current s")
    case True
    then have "?Q' = ?Q" using idle by auto
    then have "sched_inv rq ready ?s" using q rest inv unfolding sched_inv_def by simp
    then show ?thesis using False True z by (auto simp: wakeup_proc_def ready_state)
  next
    case other: False
    have "p \<notin> ?Q" "ready (procs ?s p)" using False r by (simp_all add: ready_state)
    then obtain t where t: "enqueue sc p ?s = Some t" "rq t (insert p ?Q)" "sched_keeps ?s t"
      using enq [OF q] by blast
    have "insert p ?Q = ?Q'" using other idle by auto
    then have "sched_inv rq ready t"
      using t(2) rest inv keeps_ready [OF t(3)] unfolding sched_inv_def sched_keeps_sels [OF t(3)]
      by simp
    moreover have "wakeup_proc sc p s = Some t"
      using t(1) False other z idle by (simp add: wakeup_proc_def sched_class_enqueue_def Let_def)
    moreover have "\<forall>l. \<not> run_link l \<longrightarrow> nxt (klinks t) l = nxt (klinks s) l \<and> prv (klinks t) l = prv (klinks s) l"
      using t(3) by (simp add: sched_keeps_def)
    ultimately show ?thesis
      by (simp add: sched_keeps_sels [OF t(3)] keeps_ready [OF t(3)] ready_state)
  qed
qed

lemma schedule_ok:
  assumes inv: "sched_inv rq ready s"
  shows "\<exists>t. schedule sc s = Some t \<and> sched_inv rq ready t \<and> state (procs t (current t)) = PROC_RUNNABLE \<and>
    (current t = idleproc t \<longleftrightarrow> (\<forall>p. state (procs s p) = PROC_RUNNABLE \<longrightarrow> p = idleproc s)) \<and>
    (\<forall>p. state (procs t p) = state (procs s p)) \<and> idleproc t = idleproc s \<and>
    timers t = timers s \<and> waits t = waits s \<and> sem_value t = sem_value s \<and>
    (\<forall>p. wait_state (procs t p) = wait_state (procs s p)) \<and>
    (\<forall>l. \<not> run_link l \<longrightarrow> nxt (klinks t) l = nxt (klinks s) l \<and> prv (klinks t) l = prv (klinks s) l)"
proof -
  let ?c = "current s" and ?i = "idleproc s"
  let ?s0 = "upd_proc ?c (\<lambda>x. x\<lparr>need_resched := False\<rparr>) s"
  let ?Q = "{p. state (procs s p) = PROC_RUNNABLE \<and> p \<noteq> ?c \<and> p \<noteq> ?i}"
  let ?R = "{p. state (procs s p) = PROC_RUNNABLE \<and> p \<noteq> ?i}"
  have k0: "sched_keeps s ?s0" by (rule sched_keeps_upd) (simp add: masked_def)
  have q0: "rq ?s0 ?Q"
    by (rule same [of s]) (use inv in \<open>auto simp: sched_inv_def intro: rq_same_upd\<close>)
  obtain s1 where s1: "(if state (procs ?s0 ?c) = PROC_RUNNABLE then sched_class_enqueue sc ?c ?s0
      else Some ?s0) = Some s1" "rq s1 ?R" "sched_keeps s s1"
  proof (cases "state (procs s ?c) = PROC_RUNNABLE \<and> ?c \<noteq> ?i")
    case True
    have "ready (procs s ?c)" using inv True by (simp add: sched_inv_def)
    then have "ready (procs ?s0 ?c)" unfolding keeps_ready [OF k0] .
    then obtain t where t: "enqueue sc ?c ?s0 = Some t" "rq t (insert ?c ?Q)" "sched_keeps ?s0 t"
      using enq [OF q0, of ?c] by auto
    have "insert ?c ?Q = ?R" using True by auto
    then show ?thesis using that [of t] t True sched_keeps_trans [OF k0 t(3)]
      by (auto simp: sched_class_enqueue_def)
  next
    case False
    then have "?Q = ?R" by auto
    then show ?thesis using that [of ?s0] q0 k0 False by (auto simp: sched_class_enqueue_def)
  qed
  obtain r s2 where s2: "pick_next sc s1 = Some (r, s2)" "rq s2 ?R" "sched_keeps s s2"
    "case r of None \<Rightarrow> ?R = {} | Some p \<Rightarrow> p \<in> ?R"
    using pick [OF s1(2)] sched_keeps_trans [OF s1(3)] by blast
  define p where "p = (case r of None \<Rightarrow> ?i | Some p \<Rightarrow> p)"
  obtain s3 where s3: "(case r of Some p \<Rightarrow> sched_class_dequeue sc p s2 | None \<Rightarrow> Some s2) = Some s3"
    "rq s3 (?R - {p})" "sched_keeps s s3"
  proof (cases r)
    case None
    then show ?thesis using that [of s2] s2 by (auto simp: p_def)
  next
    case (Some p')
    then have p: "p = p'" "p' \<in> ?R" using s2(4) by (simp_all add: p_def)
    from deq [OF s2(2) p(2)] obtain u where u: "dequeue sc p' s2 = Some u" "rq u (?R - {p'})"
      "sched_keeps s2 u" by blast
    show ?thesis
      by (rule that [of u]) (use u p Some sched_keeps_trans [OF s2(3) u(3)] in
        \<open>simp_all add: sched_class_dequeue_def\<close>)
  qed
  note sel = sched_keeps_sels [OF s3(3)]
  let ?s4 = "upd_proc p (\<lambda>x. x\<lparr>runs := runs x + 1\<rparr>) s3"
  have prun: "state (procs s p) = PROC_RUNNABLE"
  proof (cases r)
    case None
    then show ?thesis using inv by (simp add: p_def sched_inv_def)
  next
    case (Some p')
    then show ?thesis using s2(4) by (simp add: p_def)
  qed
  have c: "current (if p \<noteq> current ?s4 then proc_run p ?s4 else ?s4) = p"
  proof (cases "p = ?c")
    case False
    have "inj_on (\<lambda>p. pid (procs s p)) {p. state (procs s p) \<noteq> PROC_UNINIT}"
      "state (procs s ?c) \<noteq> PROC_UNINIT" using inv by (simp_all add: sched_inv_def)
    from inj_onD [OF this(1), of p ?c] this(2) False prun
    have "pid (procs s p) \<noteq> pid (procs s ?c)" by auto
    then show ?thesis using False by (simp add: proc_run_def sel)
  qed (simp add: sel)
  define t where "t = (if p \<noteq> current ?s4 then proc_run p ?s4 else ?s4)"
  have t: "rq_same s3 t" "idleproc t = ?i" "\<And>q. state (procs t q) = state (procs s q)"
    "\<And>q. pid (procs t q) = pid (procs s q)" "\<And>q. ready (procs t q) = ready (procs s q)"
    by (auto simp: t_def proc_run_def sel rq_same_def ready_runs keeps_ready [OF s3(3)])
  have fr: "timers t = timers s" "waits t = waits s" "sem_value t = sem_value s"
    "\<And>p. wait_state (procs t p) = wait_state (procs s p)" "klinks t = klinks s3"
    by (auto simp: t_def proc_run_def sel)
  have "\<forall>l. \<not> run_link l \<longrightarrow> nxt (klinks s3) l = nxt (klinks s) l \<and> prv (klinks s3) l = prv (klinks s) l"
    using s3(3) by (simp add: sched_keeps_def)
  note links = this [folded fr(5)]
  have "schedule sc s = Some t"
  proof -
    have "(if state (procs ?s0 (current ?s0)) = PROC_RUNNABLE
      then sched_class_enqueue sc (current ?s0) ?s0 else Some ?s0) = Some s1"
      using s1(1) by (simp only: upd_proc_simps)
    then show ?thesis
      unfolding schedule_def Let_def
      by (simp only: Option.bind.bind_lunit sched_class_pick_next_def s2(1) prod.case s3(1)
        p_def t_def sel(2))
  qed
  note run = this
  have "rq t {q. state (procs t q) = PROC_RUNNABLE \<and> q \<noteq> p \<and> q \<noteq> ?i}"
    using same [OF t(1) s3(2)] by (simp add: t(3) set_diff_eq conj_ac)
  then have "sched_inv rq ready t"
    using inv prun c unfolding sched_inv_def t(2-5) t_def [symmetric] by simp
  moreover have "p = ?i \<longleftrightarrow> ?R = {}"
    using s2(4) by (auto simp: p_def split: option.splits)
  then have "p = ?i \<longleftrightarrow> (\<forall>p. state (procs s p) = PROC_RUNNABLE \<longrightarrow> p = ?i)" by auto
  ultimately show ?thesis using run t(2,3) c prun fr(1-4) links unfolding t_def [symmetric]
    by (intro exI [of _ t]) simp
qed

end

end
