(* ===== verification/Stride.thy ===== *)
theory Stride
  imports Sched
begin

section \<open>The two scheduler classes meet their contract; the stride order\<close>

text \<open>
  \<open>rr_rq\<close> and \<open>stride_rq\<close> read the run queue of the two classes as a set of processes. Both
  classes are instances of \<open>sched_policy\<close>. For the stride scheduler the skew heap is ordered by
  the unwrapped strides as long as all strides lie in a window of \<open>BIG_STRIDE\<close>, and the
  operations keep the window, so that the signed difference of wrapped strides is the order of
  the unwrapped ones.
\<close>

lemma run_link_iff: "run_link l \<longleftrightarrow> l \<in> insert RunList (range RunLink)"
  by (cases l) auto

lemma inj_RunLink [simp]: "inj RunLink"
  by (simp add: inj_def)

lemma RunList_RunLink [simp]: "RunList \<notin> range RunLink"
  by auto

abbreviation run_ring :: "kst \<Rightarrow> nat list \<Rightarrow> bool" where
  "run_ring s xs \<equiv> ring (klinks s) RunList RunLink xs"

lemma masked_slice [simp]: "masked (x\<lparr>time_slice := a\<rparr>) = masked x"
  "masked (x\<lparr>on_rq := b\<rparr>) = masked x" "masked (x\<lparr>need_resched := b\<rparr>) = masked x"
  "masked (x\<lparr>lab6_stride := w\<rparr>) = masked x"
  by (simp_all add: masked_def)

lemma ring_same: "rq_same s t \<Longrightarrow> run_ring s xs \<Longrightarrow> run_ring t xs"
  by (erule ring_frame) (auto simp: rq_same_def run_link_iff)

lemma refill_slice_sels [simp]:
  "klinks (refill_slice p s) = klinks s" "run_pool (refill_slice p s) = run_pool s"
  "pool (refill_slice p s) = pool s" "proc_num (refill_slice p s) = proc_num s"
  "on_rq (procs (refill_slice p s) q) = on_rq (procs s q)"
  "lab6_stride (procs (refill_slice p s) q) = lab6_stride (procs s q)"
  "lab6_priority (procs (refill_slice p s) q) = lab6_priority (procs s q)"
  by (simp_all add: refill_slice_def)

lemma refill_slice_keeps: "sched_keeps s (refill_slice p s)"
  by (simp add: refill_slice_def sched_keeps_upd)

lemma tick_slice_sels [simp]:
  "klinks (tick_slice p s) = klinks s" "run_pool (tick_slice p s) = run_pool s"
  "pool (tick_slice p s) = pool s" "proc_num (tick_slice p s) = proc_num s"
  "on_rq (procs (tick_slice p s) q) = on_rq (procs s q)"
  by (simp_all add: tick_slice_def Let_def)

lemma tick_slice_keeps: "sched_keeps s (tick_slice p s)"
proof -
  define u where "u = (if time_slice (procs s p) > 0
    then upd_proc p (\<lambda>x. x\<lparr>time_slice := time_slice x - 1\<rparr>) s else s)"
  have "sched_keeps s u" by (simp add: u_def sched_keeps_upd)
  moreover have "sched_keeps u (tick_slice p s)"
    unfolding tick_slice_def u_def [symmetric] Let_def by (simp add: sched_keeps_upd)
  ultimately show ?thesis by (rule sched_keeps_trans)
qed

lemma keeps_links:
  "(\<And>l. \<not> run_link l \<Longrightarrow> nxt (f (klinks s)) l = nxt (klinks s) l \<and> prv (f (klinks s)) l = prv (klinks s) l) \<Longrightarrow>
     sched_keeps s (upd_links f s)"
  by (simp add: sched_keeps_def)

lemma keeps_queue: "sched_keeps s (s\<lparr>run_pool := rp, pool := h\<rparr>)" "sched_keeps s (s\<lparr>proc_num := n\<rparr>)"
  by (simp_all add: sched_keeps_def)

lemma keeps_add_before:
  "run_ring s xs \<Longrightarrow> sched_keeps s (upd_links (list_add_before RunList (RunLink p)) s)"
  by (rule keeps_links) (auto simp: run_link_iff ring_add_frame)

lemma keeps_del_init:
  "run_ring s xs \<Longrightarrow> p \<in> set xs \<Longrightarrow> sched_keeps s (upd_links (list_del_init (RunLink p)) s)"
  by (rule keeps_links) (auto simp: run_link_iff ring_del_frame)

subsection \<open>Round robin\<close>

definition rr_rq :: "kst \<Rightarrow> nat set \<Rightarrow> bool" where
  "rr_rq s Q \<longleftrightarrow> (\<exists>xs. run_ring s xs \<and> set xs = Q \<and> (\<forall>p \<in> Q. on_rq (procs s p)))"

lemma RR_enqueue_list:
  assumes "run_ring s xs" "p \<notin> set xs"
  shows "\<exists>t. RR_enqueue p s = Some t \<and> run_ring t (xs @ [p]) \<and> sched_keeps s t \<and>
    (\<forall>q. on_rq (procs t q) \<longleftrightarrow> q = p \<or> on_rq (procs s q))"
proof -
  let ?s1 = "upd_links (list_add_before RunList (RunLink p)) s"
  let ?s2 = "upd_proc p (\<lambda>x. x\<lparr>on_rq := True\<rparr>) (refill_slice p ?s1)"
  let ?t = "?s2\<lparr>proc_num := proc_num ?s2 + 1\<rparr>"
  have "list_empty (RunLink p) (klinks s)" using assms by (simp add: ring_on)
  then have "RR_enqueue p s = Some ?t" by (simp add: RR_enqueue_def Let_def)
  moreover have "run_ring ?t (xs @ [p])" using assms by (simp add: ring_add_before_head)
  moreover have "sched_keeps s ?t"
    by (rule sched_keeps_trans [OF keeps_add_before [OF assms(1)] sched_keeps_trans
      [OF refill_slice_keeps sched_keeps_trans [OF sched_keeps_upd keeps_queue(2)]]]) simp
  ultimately show ?thesis by auto
qed

lemma RR_dequeue_list:
  assumes "run_ring s xs" "p \<in> set xs" "on_rq (procs s p)"
  shows "\<exists>t. RR_dequeue p s = Some t \<and> run_ring t (remove1 p xs) \<and> sched_keeps s t \<and> procs t = procs s"
proof -
  let ?s1 = "upd_links (list_del_init (RunLink p)) s"
  let ?t = "?s1\<lparr>proc_num := proc_num ?s1 - 1\<rparr>"
  have "RR_dequeue p s = Some ?t" using assms by (simp add: RR_dequeue_def ring_on Let_def)
  moreover have "run_ring ?t (remove1 p xs)" using assms by (simp add: ring_del_init)
  moreover have "sched_keeps s ?t"
    by (rule sched_keeps_trans [OF keeps_del_init [OF assms(1,2)] keeps_queue(2)])
  ultimately show ?thesis by auto
qed

interpretation rr: sched_policy RR_sched_class rr_rq "\<lambda>_. True"
proof unfold_locales
  fix s :: kst assume "\<And>p. list_empty (RunLink p) (klinks s)"
  then show "rr_rq (sc_init RR_sched_class s) {}"
    by (auto simp: rr_rq_def RR_sched_class_def RR_init_def intro!: ring_init)
next
  fix s Q p assume "rr_rq s Q" "p \<notin> Q"
  then show "\<exists>t. enqueue RR_sched_class p s = Some t \<and> rr_rq t (insert p Q) \<and> sched_keeps s t"
    using RR_enqueue_list [of s _ p] by (fastforce simp: rr_rq_def RR_sched_class_def)
next
  fix s Q p assume "rr_rq s Q" "p \<in> Q"
  then obtain xs where xs: "run_ring s xs" "set xs = Q" "\<forall>p \<in> Q. on_rq (procs s p)"
    by (auto simp: rr_rq_def)
  moreover have "set (remove1 p xs) = Q - {p}" 
    using xs ring_distinct [OF xs(1)] by (simp add: set_remove1_eq)
  ultimately show "\<exists>t. dequeue RR_sched_class p s = Some t \<and> rr_rq t (Q - {p}) \<and> sched_keeps s t"
    using RR_dequeue_list [of s xs p] \<open>p \<in> Q\<close> unfolding rr_rq_def RR_sched_class_def
    by (metis Diff_iff sched_class.select_convs(3))
next
  fix s Q assume "rr_rq s Q"
  then obtain xs where xs: "run_ring s xs" "set xs = Q" by (auto simp: rr_rq_def)
  with \<open>rr_rq s Q\<close> show "\<exists>r t. pick_next RR_sched_class s = Some (r, t) \<and> rr_rq t Q \<and> sched_keeps s t \<and>
      (case r of None \<Rightarrow> Q = {} | Some p \<Rightarrow> p \<in> Q)"
    by (cases xs) (auto simp: RR_sched_class_def RR_pick_next_def ring_next_head)
next
  fix s Q p assume "rr_rq s Q"
  then show "rr_rq (proc_tick RR_sched_class p s) Q \<and> sched_keeps s (proc_tick RR_sched_class p s)"
    by (auto simp: RR_sched_class_def RR_proc_tick_def rr_rq_def tick_slice_keeps)
next
  fix s t Q assume "rq_same s t" "rr_rq s Q"
  then show "rr_rq t Q" by (auto simp: rr_rq_def rq_same_def intro: ring_same [unfolded rq_same_def])
qed auto

subsection \<open>Stride\<close>

definition stride_rq :: "kst \<Rightarrow> nat set \<Rightarrow> bool" where
  "stride_rq s Q \<longleftrightarrow> (\<exists>xs t. run_ring s xs \<and> set xs = Q \<and> pool_at (pool s) (run_pool s) t \<and>
     set_tree t = Q \<and> (\<forall>p \<in> Q. lab6_priority (procs s p) \<noteq> 0))"

lemma stride_enqueue_heap:
  assumes "run_ring s xs" "pool_at (pool s) (run_pool s) t" "p \<notin> set xs" "p \<notin> set_tree t"
  shows "\<exists>u. stride_enqueue p s = Some u \<and> run_ring u (xs @ [p]) \<and> sched_keeps s u \<and>
    pool_at (pool u) (run_pool u) (fmerge (proc_stride_comp_f (procs s)) t \<langle>\<langle>\<rangle>, p, \<langle>\<rangle>\<rangle>) \<and>
    (\<forall>q. lab6_stride (procs u q) = lab6_stride (procs s q))"
proof -
  let ?t = "fmerge (proc_stride_comp_f (procs s)) t \<langle>\<langle>\<rangle>, p, \<langle>\<rangle>\<rangle>"
  obtain h where h: "skew_heap_insert (proc_stride_comp_f (procs s)) (run_pool s) p (pool s) =
      Some (root ?t, h)" "pool_at h (root ?t) ?t"
    using skew_heap_insert_refines [OF assms(2,4)] by blast
  let ?s0 = "s\<lparr>run_pool := root ?t, pool := h\<rparr>"
  let ?s1 = "upd_links (list_add_before RunList (RunLink p)) ?s0"
  let ?s2 = "upd_proc p (\<lambda>x. x\<lparr>on_rq := True\<rparr>) (refill_slice p ?s1)"
  let ?u = "?s2\<lparr>proc_num := proc_num ?s2 + 1\<rparr>"
  have "stride_enqueue p s = Some ?u" using h(1) by (simp add: stride_enqueue_def Let_def)
  moreover have "run_ring ?u (xs @ [p])" using assms(1,3) by (simp add: ring_add_before_head)
  moreover have "run_ring ?s0 xs" using assms(1) by simp
  then have "sched_keeps s ?u"
    by (intro sched_keeps_trans [OF keeps_queue(1) sched_keeps_trans [OF keeps_add_before sched_keeps_trans
      [OF refill_slice_keeps sched_keeps_trans [OF sched_keeps_upd keeps_queue(2)]]]]) simp_all
  ultimately show ?thesis using h(2) by (intro exI [of _ ?u]) simp
qed

lemma stride_dequeue_heap:
  assumes "run_ring s xs" "pool_at (pool s) (run_pool s) t" "p \<in> set xs" "p \<in> set_tree t"
  shows "\<exists>u. stride_dequeue p s = Some u \<and> run_ring u (remove1 p xs) \<and> sched_keeps s u \<and>
    pool_at (pool u) (run_pool u) (fremove (proc_stride_comp_f (procs s)) p t) \<and>
    (\<forall>q. lab6_stride (procs u q) = lab6_stride (procs s q))"
proof -
  let ?t = "fremove (proc_stride_comp_f (procs s)) p t"
  obtain h where h: "skew_heap_remove (proc_stride_comp_f (procs s)) (run_pool s) p (pool s) =
      Some (root ?t, h)" "pool_at h (root ?t) ?t"
    using skew_heap_remove_refines [OF assms(2,4)] by blast
  let ?s0 = "s\<lparr>run_pool := root ?t, pool := h\<rparr>"
  let ?s1 = "upd_links (list_del_init (RunLink p)) ?s0"
  let ?u = "?s1\<lparr>proc_num := proc_num ?s1 - 1\<rparr>"
  have "stride_dequeue p s = Some ?u" using h(1) by (simp add: stride_dequeue_def Let_def)
  moreover have "run_ring ?u (remove1 p xs)" using assms(1,3) by (simp add: ring_del_init)
  moreover have "run_ring ?s0 xs" using assms(1) by simp
  then have "sched_keeps s ?u"
    by (intro sched_keeps_trans [OF keeps_queue(1) sched_keeps_trans [OF keeps_del_init keeps_queue(2)]])
      (use assms(3) in simp_all)
  ultimately show ?thesis using h(2) by (intro exI [of _ ?u]) simp
qed

lemma set_tree_fremove: "distinct (inorder t) \<Longrightarrow> p \<in> set_tree t \<Longrightarrow> set_tree (fremove cmp p t) = set_tree t - {p}"
proof -
  assume a: "distinct (inorder t)" "p \<in> set_tree t"
  have "set_mset (mset_tree t - {#p#}) = set (remove1 p (inorder t))"
    by (metis mset_inorder mset_remove1 set_mset_mset)
  then show ?thesis using a mset_fremove [OF a(2), of cmp]
    by (metis set_inorder set_mset_tree set_remove1_eq)
qed

interpretation stride: sched_policy stride_sched_class stride_rq "\<lambda>x. lab6_priority x \<noteq> 0"
proof unfold_locales
  fix s :: kst assume "\<And>p. list_empty (RunLink p) (klinks s)"
  then show "stride_rq (sc_init stride_sched_class s) {}"
    by (auto simp: stride_rq_def stride_sched_class_def stride_init_def pool_at_def
      intro!: ring_init exI [of _ "\<langle>\<rangle>"])
next
  fix s Q p assume q: "stride_rq s Q" "p \<notin> Q" "lab6_priority (procs s p) \<noteq> 0"
  then obtain xs t where xs: "run_ring s xs" "set xs = Q" "pool_at (pool s) (run_pool s) t"
     "set_tree t = Q" "\<forall>p \<in> Q. lab6_priority (procs s p) \<noteq> 0" by (auto simp: stride_rq_def)
  with q obtain u where u: "stride_enqueue p s = Some u" "run_ring u (xs @ [p])" "sched_keeps s u"
    "pool_at (pool u) (run_pool u) (fmerge (proc_stride_comp_f (procs s)) t \<langle>\<langle>\<rangle>, p, \<langle>\<rangle>\<rangle>)"
    using stride_enqueue_heap [of s xs t p] by blast
  have "stride_rq u (insert p Q)" unfolding stride_rq_def
    by (rule exI [of _ "xs @ [p]"], rule exI [of _ "fmerge (proc_stride_comp_f (procs s)) t \<langle>\<langle>\<rangle>, p, \<langle>\<rangle>\<rangle>"])
      (use u xs q sched_keeps_sels(7) [OF u(3)] in auto)
  with u show "\<exists>t. enqueue stride_sched_class p s = Some t \<and> stride_rq t (insert p Q) \<and> sched_keeps s t"
    by (simp add: stride_sched_class_def)
next
  fix s Q p assume q: "stride_rq s Q" "p \<in> Q"
  then obtain xs t where xs: "run_ring s xs" "set xs = Q" "pool_at (pool s) (run_pool s) t"
     "set_tree t = Q" "\<forall>p \<in> Q. lab6_priority (procs s p) \<noteq> 0" by (auto simp: stride_rq_def)
  with q obtain u where u: "stride_dequeue p s = Some u" "run_ring u (remove1 p xs)" "sched_keeps s u"
    "pool_at (pool u) (run_pool u) (fremove (proc_stride_comp_f (procs s)) p t)"
    using stride_dequeue_heap [of s xs t p] by blast
  have "set (remove1 p xs) = Q - {p}" "set_tree (fremove (proc_stride_comp_f (procs s)) p t) = Q - {p}"
    using xs q ring_distinct [OF xs(1)] set_tree_fremove [of t p] by (simp_all add: pool_at_def set_remove1_eq)
  then have "stride_rq u (Q - {p})" unfolding stride_rq_def
    using u(2,4) xs(5) sched_keeps_sels(7) [OF u(3)] by (metis DiffD1)
  with u show "\<exists>t. dequeue stride_sched_class p s = Some t \<and> stride_rq t (Q - {p}) \<and> sched_keeps s t"
    by (auto simp: stride_sched_class_def)
next
  fix s Q assume q: "stride_rq s Q"
  then obtain xs t where xs: "run_ring s xs" "set xs = Q" "pool_at (pool s) (run_pool s) t"
     "set_tree t = Q" "\<forall>p \<in> Q. lab6_priority (procs s p) \<noteq> 0" by (auto simp: stride_rq_def)
  have r: "run_pool s = root t" using xs(3) by (auto simp: pool_at_def dest: heap_at_root)
  show "\<exists>r t. pick_next stride_sched_class s = Some (r, t) \<and> stride_rq t Q \<and> sched_keeps s t \<and>
      (case r of None \<Rightarrow> Q = {} | Some p \<Rightarrow> p \<in> Q)"
  proof (cases "root t")
    case None
    then show ?thesis using q r xs by (auto simp: stride_sched_class_def stride_pick_next_def)
  next
    case (Some p)
    let ?u = "upd_proc p (\<lambda>x. x\<lparr>lab6_stride := lab6_stride x + BIG_STRIDE div lab6_priority x\<rparr>) s"
    have p: "p \<in> Q" using root_in_tree [OF Some] xs by simp
    then have "pick_next stride_sched_class s = Some (Some p, ?u)"
      using xs r Some by (simp add: stride_sched_class_def stride_pick_next_def)
    moreover have "stride_rq ?u Q" unfolding stride_rq_def
      by (rule exI [of _ xs], rule exI [of _ t]) (use xs in simp)
    moreover have "sched_keeps s ?u" by (rule sched_keeps_upd) simp
    ultimately show ?thesis using p by auto
  qed
next
  fix s Q p assume "stride_rq s Q"
  moreover have "lab6_priority (procs (tick_slice p s) q) = lab6_priority (procs s q)" for q
    by (rule sched_keeps_sels(7) [OF tick_slice_keeps])
  ultimately show "stride_rq (proc_tick stride_sched_class p s) Q \<and>
      sched_keeps s (proc_tick stride_sched_class p s)"
    by (simp add: stride_sched_class_def stride_proc_tick_def stride_rq_def tick_slice_keeps)
next
  fix s t Q assume a: "rq_same s t" "stride_rq s Q"
  then obtain xs h where "run_ring s xs" "set xs = Q" "pool_at (pool s) (run_pool s) h"
     "set_tree h = Q" "\<forall>p \<in> Q. lab6_priority (procs s p) \<noteq> 0" by (auto simp: stride_rq_def)
  moreover have "run_ring t xs" by (rule ring_same) fact+
  ultimately show "stride_rq t Q" using a(1) unfolding stride_rq_def rq_same_def by metis
next
  fix x y assume "masked x = masked y"
  from arg_cong [OF this, of lab6_priority]
  show "(lab6_priority x \<noteq> 0) = (lab6_priority y \<noteq> 0)" by (simp add: masked_sels)
qed auto

subsection \<open>The stride order\<close>

text \<open>\<open>K p\<close> is the stride of \<open>p\<close> as it would be without wrap-around.\<close>

definition stride_ok :: "(nat \<Rightarrow> int) \<Rightarrow> kst \<Rightarrow> nat tree \<Rightarrow> bool" where
  "stride_ok K s t \<longleftrightarrow> pool_at (pool s) (run_pool s) t \<and> heap_ordered K t \<and>
     (\<forall>p \<in> set_tree t. lab6_stride (procs s p) = word_of_int (K p)) \<and>
     (\<forall>p \<in> set_tree t. \<forall>q \<in> set_tree t. K p \<le> K q + uint BIG_STRIDE)"

lemma sint_word_of_int: "- (2 ^ 31) \<le> i \<Longrightarrow> i < 2 ^ 31 \<Longrightarrow> sint (word_of_int i :: 32 word) = i"
  by (simp add: sint_sbintrunc' signed_take_bit_int_eq_self)

lemma comp_is_key_order:
  assumes "lab6_stride (ps a) = word_of_int (K a)" "lab6_stride (ps b) = word_of_int (K b)"
    and "K a \<le> K b + uint BIG_STRIDE" "K b \<le> K a + uint BIG_STRIDE"
  shows "proc_stride_comp_f ps a b = -1 \<longleftrightarrow> K a < K b"
proof -
  have "lab6_stride (ps a) - lab6_stride (ps b) = word_of_int (K a - K b)" using assms(1,2) by simp
  moreover have "sint (word_of_int (K a - K b) :: 32 word) = K a - K b"
    using assms(3,4) by (intro sint_word_of_int) (simp_all add: BIG_STRIDE_def)
  ultimately show ?thesis by (auto simp: proc_stride_comp_f_def Let_def)
qed

lemma heap_ordered_cong: "(\<And>x. x \<in> set_tree t \<Longrightarrow> K x = K' x) \<Longrightarrow> heap_ordered K t = heap_ordered K' t"
  by (induction t) auto

lemma fremove_root: "root t = Some p \<Longrightarrow> \<exists>l r. t = \<langle>l, p, r\<rangle> \<and> fremove cmp p t = fmerge cmp l r"
  by (cases t) auto

lemma stride_pick_dequeue:
  assumes ok: "stride_ok K s t" and ring: "run_ring s xs" "set xs = set_tree t" and ne: "t \<noteq> \<langle>\<rangle>"
    and prio: "\<forall>p \<in> set_tree t. lab6_priority (procs s p) \<noteq> 0"
  shows "\<exists>p s1 s2 t2. stride_pick_next s = Some (Some p, s1) \<and> stride_dequeue p s1 = Some s2 \<and>
    p \<in> set_tree t \<and> (\<forall>q \<in> set_tree t. K p \<le> K q) \<and> run_ring s2 (remove1 p xs) \<and>
    set_tree t2 = set_tree t - {p} \<and> (\<forall>q. q \<noteq> p \<longrightarrow> lab6_stride (procs s2 q) = lab6_stride (procs s q)) \<and>
    (let d = uint (BIG_STRIDE div lab6_priority (procs s p)) in
      stride_ok (K(p := K p + d)) s2 t2 \<and> lab6_stride (procs s2 p) = word_of_int (K p + d) \<and>
      (\<forall>q \<in> set_tree t2. K p + d \<le> K q + uint BIG_STRIDE \<and> K q \<le> K p + d + uint BIG_STRIDE))"
proof -
  have pool: "pool_at (pool s) (run_pool s) t" "heap_ordered K t"
    "\<forall>p \<in> set_tree t. lab6_stride (procs s p) = word_of_int (K p)"
    "\<forall>p \<in> set_tree t. \<forall>q \<in> set_tree t. K p \<le> K q + uint BIG_STRIDE"
    using ok by (auto simp: stride_ok_def)
  obtain p where p: "root t = Some p" using ne by (cases t) auto
  then have rp: "run_pool s = Some p" using pool(1) by (auto simp: pool_at_def dest: heap_at_root)
  have pt: "p \<in> set_tree t" by (rule root_in_tree [OF p])
  let ?d = "uint (BIG_STRIDE div lab6_priority (procs s p))"
  let ?K = "K(p := K p + ?d)"
  define s1 where "s1 = upd_proc p (\<lambda>x. x\<lparr>lab6_stride := lab6_stride x + BIG_STRIDE div lab6_priority x\<rparr>) s"
  let ?c = "proc_stride_comp_f (procs s1)"
  have pick: "stride_pick_next s = Some (Some p, s1)"
    using prio pt by (simp add: stride_pick_next_def rp s1_def)
  have min: "\<forall>q \<in> set_tree t. K p \<le> K q" using heap_ordered_root [OF pool(2) p] by blast
  obtain s2 where s2: "stride_dequeue p s1 = Some s2" "run_ring s2 (remove1 p xs)" "sched_keeps s1 s2"
    "pool_at (pool s2) (run_pool s2) (fremove ?c p t)"
    "\<forall>q. lab6_stride (procs s2 q) = lab6_stride (procs s1 q)"
    using stride_dequeue_heap [of s1 xs t p] ring pool(1) pt by (auto simp: s1_def)
  obtain l r where lr: "t = \<langle>l, p, r\<rangle>" "fremove ?c p t = fmerge ?c l r" using fremove_root [OF p] by blast
  have "BIG_STRIDE div lab6_priority (procs s p) \<le> BIG_STRIDE" by (simp add: word_le_nat_alt unat_div)
  then have d: "0 \<le> ?d" "?d \<le> uint BIG_STRIDE" by (simp_all add: word_le_def)
  have st: "set_tree (fmerge ?c l r) = set_tree t - {p}" "p \<notin> set_tree l \<union> set_tree r"
    using pool(1) lr set_tree_fremove [of t p ?c] pt by (auto simp: pool_at_def)
  have "heap_ordered K (fmerge ?c l r)"
  proof (rule heap_ordered_fmerge)
    show "heap_ordered K l" "heap_ordered K r" using pool(2) lr by simp_all
    show "\<forall>x \<in> set_tree l \<union> set_tree r. \<forall>y \<in> set_tree l \<union> set_tree r. ?c x y = -1 \<longleftrightarrow> K x < K y"
      using pool(3,4) lr(1) st(2) by (intro ballI comp_is_key_order) (auto simp: s1_def)
  qed
  then have "heap_ordered ?K (fmerge ?c l r)" using st by (subst heap_ordered_cong [where K' = K]) auto
  moreover have "\<forall>q \<in> set_tree t - {p}. lab6_stride (procs s2 q) = word_of_int (?K q)"
    using s2(5) pool(3) by (simp add: s1_def)
  moreover have "\<forall>x \<in> set_tree t - {p}. \<forall>q \<in> set_tree t - {p}. ?K x \<le> ?K q + uint BIG_STRIDE"
    using pool(4) by simp
  ultimately have ok2: "stride_ok ?K s2 (fmerge ?c l r)"
    using s2(4) lr(2) unfolding stride_ok_def st(1) by simp
  have "lab6_stride (procs s2 p) = word_of_int (K p + ?d)"
    using s2(5) pool(3) pt by (simp add: s1_def)
  moreover have "\<forall>q. q \<noteq> p \<longrightarrow> lab6_stride (procs s2 q) = lab6_stride (procs s q)"
    using s2(5) by (simp add: s1_def)
  moreover have "\<forall>q \<in> set_tree t - {p}. K p + ?d \<le> K q + uint BIG_STRIDE \<and> K q \<le> K p + ?d + uint BIG_STRIDE"
  proof
    fix q assume "q \<in> set_tree t - {p}"
    then have "K p \<le> K q" "K q \<le> K p + uint BIG_STRIDE" using min pool(4) pt by simp_all
    then show "K p + ?d \<le> K q + uint BIG_STRIDE \<and> K q \<le> K p + ?d + uint BIG_STRIDE"
      using d by linarith
  qed
  ultimately show ?thesis
    using pick s2(1,2) pt min ok2 st(1) unfolding Let_def
    by (intro exI [of _ p] exI [of _ s1] exI [of _ s2] exI [of _ "fmerge ?c l r"]) simp
qed

lemma stride_enqueue_order:
  assumes ok: "stride_ok K s t" and ring: "run_ring s xs" "set xs = set_tree t" and p: "p \<notin> set_tree t"
    and key: "lab6_stride (procs s p) = word_of_int (K p)"
    and win: "\<forall>q \<in> set_tree t. K p \<le> K q + uint BIG_STRIDE \<and> K q \<le> K p + uint BIG_STRIDE"
  shows "\<exists>u t'. stride_enqueue p s = Some u \<and> stride_ok K u t' \<and> set_tree t' = insert p (set_tree t) \<and>
    run_ring u (xs @ [p])"
proof -
  let ?c = "proc_stride_comp_f (procs s)"
  let ?t = "fmerge ?c t \<langle>\<langle>\<rangle>, p, \<langle>\<rangle>\<rangle>"
  have pool: "pool_at (pool s) (run_pool s) t" "heap_ordered K t"
    "\<forall>p \<in> set_tree t. lab6_stride (procs s p) = word_of_int (K p)"
    "\<forall>p \<in> set_tree t. \<forall>q \<in> set_tree t. K p \<le> K q + uint BIG_STRIDE"
    using ok by (auto simp: stride_ok_def)
  obtain u where u: "stride_enqueue p s = Some u" "run_ring u (xs @ [p])"
    "pool_at (pool u) (run_pool u) ?t" "\<forall>q. lab6_stride (procs u q) = lab6_stride (procs s q)"
    using stride_enqueue_heap [OF ring(1) pool(1)] p ring(2) by blast
  have "heap_ordered K ?t"
  proof (rule heap_ordered_fmerge)
    show "\<forall>x \<in> set_tree t \<union> set_tree \<langle>\<langle>\<rangle>, p, \<langle>\<rangle>\<rangle>. \<forall>y \<in> set_tree t \<union> set_tree \<langle>\<langle>\<rangle>, p, \<langle>\<rangle>\<rangle>.
        ?c x y = -1 \<longleftrightarrow> K x < K y"
      using pool(3,4) key win by (intro ballI comp_is_key_order) (auto simp: BIG_STRIDE_def)
  qed (use pool(2) in simp_all)
  moreover have "\<forall>x \<in> insert p (set_tree t). \<forall>y \<in> insert p (set_tree t). K x \<le> K y + uint BIG_STRIDE"
    using pool(4) win by (auto simp: BIG_STRIDE_def)
  ultimately have "stride_ok K u ?t" using u(3,4) pool(3) key by (simp add: stride_ok_def)
  then show ?thesis using u(1,2) by (intro exI [of _ u] exI [of _ ?t]) simp
qed

end
