(* ===== verification/Timers.thy ===== *)
theory Timers
  imports Stride
begin

section \<open>The timer list counts down absolute deadlines\<close>

text \<open>
  \<open>timer_list\<close> stores for each timer the ticks after the one before it. \<open>deadlines\<close> reads it
  back as ticks from now. \<open>add_timer\<close> inserts by deadline, \<open>del_timer\<close> leaves the other
  deadlines alone, and \<open>run_timer_list\<close> takes one tick off every deadline, removes the timers
  that are due and wakes their processes.
\<close>

abbreviation timer_ring :: "kst \<Rightarrow> nat list \<Rightarrow> bool" where
  "timer_ring s ts \<equiv> ring (klinks s) TimerList TimerLink ts"

fun deadlines :: "(nat \<Rightarrow> nat) \<Rightarrow> nat \<Rightarrow> nat list \<Rightarrow> (nat \<times> nat) list" where
  "deadlines e acc [] = []"
| "deadlines e acc (t # ts) = (t, acc + e t) # deadlines e (acc + e t) ts"

abbreviation due :: "kst \<Rightarrow> nat list \<Rightarrow> (nat \<times> nat) list" where
  "due s ts \<equiv> deadlines (\<lambda>t. expires (timers s t)) 0 ts"

lemma deadlines_append:
  "deadlines e acc (xs @ ys) = deadlines e acc xs @ deadlines e (acc + sum_list (map e xs)) ys"
  by (induction xs arbitrary: acc) (auto simp: add.assoc)

lemma deadlines_cong: "(\<And>t. t \<in> set ts \<Longrightarrow> e t = e' t) \<Longrightarrow> deadlines e acc ts = deadlines e' acc ts"
  by (induction ts arbitrary: acc) auto

lemma map_fst_deadlines [simp]: "map fst (deadlines e acc ts) = ts"
  by (induction ts arbitrary: acc) auto

lemma deadlines_ge: "(t, d) \<in> set (deadlines e acc ts) \<Longrightarrow> acc \<le> d"
  by (induction ts arbitrary: acc) (auto, fastforce)

lemma deadlines_le_sum: "(t, d) \<in> set (deadlines e acc ts) \<Longrightarrow> d \<le> acc + sum_list (map e ts)"
  by (induction ts arbitrary: acc) (auto simp: add.assoc, fastforce simp: add.assoc)

lemma deadlines_dropWhile:
  "deadlines e 0 (dropWhile (\<lambda>x. e x = 0) ts) = filter (\<lambda>(t, d). d > 0) (deadlines e 0 ts)"
proof (induction ts)
  case (Cons t ts)
  have "filter (\<lambda>(t, d). d > 0) (deadlines e (e t) ts) = deadlines e (e t) ts" if "e t \<noteq> 0"
    using that by (intro filter_True) (auto dest!: deadlines_ge)
  with Cons show ?case by simp
qed simp

lemma deadlines_takeWhile:
  "set (takeWhile (\<lambda>x. e x = 0) ts) = {t. (t, 0) \<in> set (deadlines e 0 ts)}"
proof (induction ts)
  case (Cons t ts)
  have "(x, 0) \<notin> set (deadlines e (e t) ts)" if "e t \<noteq> 0" for x
    using that by (auto dest!: deadlines_ge)
  with Cons show ?case by (cases "e t = 0") auto
qed simp

lemma deadlines_pred:
  "0 < acc \<Longrightarrow> deadlines e (acc - 1) ts = map (\<lambda>(t, d). (t, d - 1)) (deadlines e acc ts)"
proof (induction ts arbitrary: acc)
  case (Cons t ts)
  from Cons.IH [of "acc + e t"] Cons.prems show ?case by simp
qed simp

lemma deadlines_tick:
  assumes "t \<notin> set ts" "0 < e t"
  shows "deadlines (e(t := e t - 1)) 0 (t # ts) = map (\<lambda>(t, d). (t, d - 1)) (deadlines e 0 (t # ts))"
proof -
  have "deadlines (e(t := e t - 1)) (e t - 1) ts = deadlines e (e t - 1) ts"
    using assms(1) by (intro deadlines_cong) auto
  then show ?thesis using deadlines_pred [OF assms(2), of e ts] by simp
qed

lemma inj_TimerLink [simp]: "inj TimerLink"
  by (simp add: inj_def)

lemma TimerList_TimerLink [simp]: "TimerList \<notin> range TimerLink"
  by auto

lemma upd_timer_simps [simp]:
  "klinks (upd_timer t f s) = klinks s" "procs (upd_timer t f s) = procs s"
  "current (upd_timer t f s) = current s" "idleproc (upd_timer t f s) = idleproc s"
  "expires (timers (upd_timer t f s) u) = (if u = t then f (expires (timers s t)) else expires (timers s u))"
  "timer_proc (timers (upd_timer t f s) u) = timer_proc (timers s u)"
  by (simp_all add: upd_timer_def)

lemma rq_same_upd_timer: "rq_same s (upd_timer t f s)"
  by (simp add: rq_same_def upd_timer_def)

lemma rq_same_upd_links:
  "(\<And>l. run_link l \<Longrightarrow> nxt (f (klinks s)) l = nxt (klinks s) l \<and> prv (f (klinks s)) l = prv (klinks s) l) \<Longrightarrow>
     rq_same s (upd_links f s)"
  by (simp add: rq_same_def)

lemma list_next_timer:
  "timer_ring s (as @ t # bs) \<Longrightarrow>
     list_next (TimerLink t) (klinks s) = (case bs of [] \<Rightarrow> TimerList | b # _ \<Rightarrow> TimerLink b)"
  using dlist_nxt [of "klinks s" TimerList "map TimerLink as" "TimerLink t" "map TimerLink bs"]
  by (cases bs) (auto simp: ring_def list_next_def)

subsection \<open>Insertion and deletion\<close>

lemma add_timer_loop_list:
  assumes "timer_ring s (as @ bs)" "t \<notin> set (as @ bs)"
  shows "\<exists>cs ds u. add_timer_loop t (case bs of [] \<Rightarrow> TimerList | b # _ \<Rightarrow> TimerLink b) s =
      Some (case ds of [] \<Rightarrow> TimerList | d # _ \<Rightarrow> TimerLink d, u) \<and> bs = cs @ ds \<and>
    klinks u = klinks s \<and> procs u = procs s \<and>
    sum_list (map (\<lambda>b. expires (timers s b)) cs) + expires (timers u t) = expires (timers s t) \<and>
    (\<forall>b. b \<noteq> t \<longrightarrow> expires (timers u b) =
      (if ds \<noteq> [] \<and> b = hd ds then expires (timers s b) - expires (timers u t) else expires (timers s b))) \<and>
    (ds \<noteq> [] \<longrightarrow> expires (timers u t) < expires (timers s (hd ds)))"
  using assms
proof (induction bs arbitrary: as s)
  case Nil
  then show ?case by (simp add: add_timer_loop.simps)
next
  case (Cons b bs)
  have tb: "t \<noteq> b" using Cons.prems(2) by auto
  show ?case
  proof (cases "expires (timers s t) < expires (timers s b)")
    case True
    then show ?thesis using tb
      by (intro exI [of _ "[]"] exI [of _ "b # bs"] exI [of _ "upd_timer b (\<lambda>e. e - expires (timers s t)) s"])
        (simp add: add_timer_loop.simps [of t "TimerLink b"] upd_timer_def)
  next
    case False
    let ?s = "upd_timer t (\<lambda>e. e - expires (timers s b)) s"
    have r: "timer_ring ?s ((as @ [b]) @ bs)" using Cons.prems by simp
    from Cons.IH [OF r] Cons.prems(2) obtain cs ds u where u:
      "add_timer_loop t (case bs of [] \<Rightarrow> TimerList | b # _ \<Rightarrow> TimerLink b) ?s =
        Some (case ds of [] \<Rightarrow> TimerList | d # _ \<Rightarrow> TimerLink d, u)" "bs = cs @ ds"
      "klinks u = klinks ?s" "procs u = procs ?s"
      "sum_list (map (\<lambda>b. expires (timers ?s b)) cs) + expires (timers u t) = expires (timers ?s t)"
      "\<forall>b. b \<noteq> t \<longrightarrow> expires (timers u b) =
      (if ds \<noteq> [] \<and> b = hd ds then expires (timers ?s b) - expires (timers u t) else expires (timers ?s b))"
      "ds \<noteq> [] \<longrightarrow> expires (timers u t) < expires (timers ?s (hd ds))" by auto
    have "add_timer_loop t (TimerLink b) s = Some (case ds of [] \<Rightarrow> TimerList | d # _ \<Rightarrow> TimerLink d, u)"
      using u(1) False list_next_timer [of s as b bs] Cons.prems(1)
      by (simp add: add_timer_loop.simps [of t "TimerLink b"] Let_def)
    moreover have "t \<notin> set cs" "ds \<noteq> [] \<Longrightarrow> hd ds \<noteq> t" using u(2) Cons.prems(2) by auto
    moreover from this have m: "map (\<lambda>b. expires (timers ?s b)) cs = map (\<lambda>b. expires (timers s b)) cs"
      by (intro map_cong) auto
    moreover have "sum_list (map (\<lambda>b. expires (timers s b)) (b # cs)) + expires (timers u t) = expires (timers s t)"
      using u(5) False unfolding m by simp
    moreover have "expires (timers u c) = (if ds \<noteq> [] \<and> c = hd ds then expires (timers s c) - expires (timers u t)
        else expires (timers s c))" if "c \<noteq> t" for c
      using u(6) that by simp
    moreover have "ds \<noteq> [] \<longrightarrow> expires (timers u t) < expires (timers s (hd ds))"
      using u(7) calculation(3) by simp
    moreover have "klinks u = klinks s" "procs u = procs s" using u(3,4) by simp_all
    ultimately show ?thesis using u(2)
      by (intro exI [of _ "b # cs"] exI [of _ ds] exI [of _ u]) simp
  qed
qed

theorem add_timer_deadline:
  assumes "timer_ring s ts" "t \<notin> set ts" "expires (timers s t) > 0"
  shows "\<exists>u cs ds. add_timer t s = Some u \<and> timer_ring u (cs @ t # ds) \<and> ts = cs @ ds \<and>
    due u (cs @ t # ds) = take (length cs) (due s ts) @ (t, expires (timers s t)) # drop (length cs) (due s ts) \<and>
    (\<forall>x \<in> set (take (length cs) (due s ts)). snd x \<le> expires (timers s t)) \<and>
    (\<forall>x \<in> set (drop (length cs) (due s ts)). expires (timers s t) < snd x)"
proof -
  from add_timer_loop_list [of s "[]" ts t] assms obtain cs ds u where u:
    "add_timer_loop t (list_next TimerList (klinks s)) s =
      Some (case ds of [] \<Rightarrow> TimerList | d # _ \<Rightarrow> TimerLink d, u)" "ts = cs @ ds"
    "klinks u = klinks s"
    "sum_list (map (\<lambda>b. expires (timers s b)) cs) + expires (timers u t) = expires (timers s t)"
    "\<forall>b. b \<noteq> t \<longrightarrow> expires (timers u b) =
      (if ds \<noteq> [] \<and> b = hd ds then expires (timers s b) - expires (timers u t) else expires (timers s b))"
    "ds \<noteq> [] \<longrightarrow> expires (timers u t) < expires (timers s (hd ds))"
    by (auto simp: ring_next_head)
  let ?le = "case ds of [] \<Rightarrow> TimerList | d # _ \<Rightarrow> TimerLink d"
  let ?v = "upd_links (list_add_before ?le (TimerLink t)) u"
  have "add_timer t s = Some ?v" using u(1) assms by (simp add: add_timer_def ring_on)
  moreover have "timer_ring ?v (cs @ t # ds)"
    using ring_add_before [of TimerLink TimerList "klinks s" cs ds t] assms(1,2) u(2,3) by simp
  moreover have d: "due u (cs @ t # ds) = due s cs @ (t, expires (timers s t)) #
      deadlines (\<lambda>t. expires (timers s t)) (sum_list (map (\<lambda>b. expires (timers s b)) cs)) ds"
  proof -
    let ?m = "sum_list (map (\<lambda>b. expires (timers s b)) cs)"
    have dist: "distinct ts" by (rule ring_distinct [OF assms(1)])
    have e: "expires (timers u b) = expires (timers s b)" if "b \<in> set cs" for b
      using u(5) that assms(2) u(2) dist by (cases ds) auto
    then have m: "map (\<lambda>b. expires (timers u b)) cs = map (\<lambda>b. expires (timers s b)) cs" by simp
    moreover have "due u cs = due s cs" by (rule deadlines_cong) (rule e)
    moreover have "deadlines (\<lambda>t. expires (timers u t)) (expires (timers s t)) ds =
        deadlines (\<lambda>t. expires (timers s t)) ?m ds"
    proof (cases ds)
      case (Cons d es)
      have "expires (timers u d) = expires (timers s d) - expires (timers u t)"
        using u(5) Cons assms(2) u(2) by auto
      then have "expires (timers s t) + expires (timers u d) = ?m + expires (timers s d)"
        using u(4,6) Cons by simp
      moreover have "expires (timers u b) = expires (timers s b)" if "b \<in> set es" for b
        using u(5) that assms(2) u(2) dist Cons by auto
      ultimately show ?thesis using Cons by (auto intro: deadlines_cong)
    qed simp
    moreover have "sum_list (map (\<lambda>b. expires (timers u b)) cs) + expires (timers u t) = expires (timers s t)"
      using u(4) unfolding m .
    ultimately show ?thesis by (simp only: deadlines_append deadlines.simps add_0)
  qed
  moreover have l: "length (due s cs) = length cs" by (metis length_map map_fst_deadlines)
  have s: "due s ts = due s cs @ deadlines (\<lambda>t. expires (timers s t)) (sum_list (map (\<lambda>b. expires (timers s b)) cs)) ds"
    using u(2) by (simp add: deadlines_append)
  moreover have "\<forall>x \<in> set (due s cs). snd x \<le> expires (timers s t)"
    using deadlines_le_sum u(4) by fastforce
  moreover have "\<forall>x \<in> set (deadlines (\<lambda>t. expires (timers s t)) (sum_list (map (\<lambda>b. expires (timers s b)) cs)) ds).
      expires (timers s t) < snd x"
  proof (cases ds)
    case (Cons d es)
    then show ?thesis using u(4,6) by (auto dest!: deadlines_ge)
  qed simp
  ultimately show ?thesis using u(2)
    by (intro exI [of _ ?v] exI [of _ cs] exI [of _ ds]) (simp add: l)
qed

lemma del_timer_deadline:
  assumes "timer_ring s (as @ t # bs)"
  shows "\<exists>u. del_timer t s = Some u \<and> timer_ring u (as @ bs) \<and> procs u = procs s \<and>
    current u = current s \<and> idleproc u = idleproc s \<and> rq_same s u \<and>
    (\<forall>b. timer_proc (timers u b) = timer_proc (timers s b)) \<and>
    due u (as @ bs) = due s as @ drop (Suc (length as)) (due s (as @ t # bs)) \<and>
    (expires (timers s t) = 0 \<longrightarrow> timers u = timers s)"
proof -
  have dist: "distinct (as @ t # bs)" by (rule ring_distinct [OF assms])
  have on: "\<not> list_empty (TimerLink t) (klinks s)" using ring_on [OF _ assms] by simp
  let ?v = "if expires (timers s t) \<noteq> 0 \<and> bs \<noteq> [] then upd_timer (hd bs) (\<lambda>e. e + expires (timers s t)) s else s"
  let ?u = "upd_links (list_del_init (TimerLink t)) ?v"
  have "del_timer t s = Some ?u"
    using on list_next_timer [OF assms] by (cases bs) (auto simp: del_timer_def Let_def)
  moreover have "timer_ring ?u (as @ bs)"
    using ring_del_init [OF _ _ assms, of t] dist by (simp add: remove1_append)
  moreover have "rq_same s ?u"
    using ring_del_frame [OF assms, of t]
    by (simp add: rq_same_def upd_timer_def) (metis TimerList_TimerLink insertE rangeE run_link.simps(1,2) run_link_iff klink.distinct klink.simps)
  moreover have "due ?u (as @ bs) = due s as @ drop (Suc (length as)) (due s (as @ t # bs))"
  proof -
    have e: "expires (timers ?u b) = (if bs \<noteq> [] \<and> b = hd bs then expires (timers s b) + expires (timers s t)
       else expires (timers s b))" for b by auto
    have ea: "expires (timers ?u b) = expires (timers s b)" if "b \<in> set as" for b
      unfolding e using dist that by (cases bs) auto
    have "due ?u as = due s as" using ea by (rule deadlines_cong)
    moreover have m: "map (\<lambda>b. expires (timers ?u b)) as = map (\<lambda>b. expires (timers s b)) as"
      using ea by (intro map_cong) auto
    moreover have "deadlines (\<lambda>t. expires (timers ?u t)) a bs =
        deadlines (\<lambda>t. expires (timers s t)) (a + expires (timers s t)) bs" for a
    proof (cases bs)
      case (Cons b cs)
      have "deadlines (\<lambda>t. expires (timers ?u t)) c cs = deadlines (\<lambda>t. expires (timers s t)) c cs" for c
        using dist Cons e by (intro deadlines_cong) auto
      then show ?thesis using e [of b] Cons by (simp add: ac_simps)
    qed simp
    moreover have "length (due s as) = length as" by (metis length_map map_fst_deadlines)
    ultimately show ?thesis by (simp only: deadlines_append) simp
  qed
  ultimately show ?thesis by (intro exI [of _ ?u]) simp
qed

subsection \<open>The tick\<close>

definition timer_ok :: "kst \<Rightarrow> nat \<Rightarrow> bool" where
  "timer_ok s t \<longleftrightarrow> (let p = timer_proc (timers s t) in
     p \<noteq> idleproc s \<and> state (procs s p) \<noteq> PROC_UNINIT \<and> state (procs s p) \<noteq> PROC_ZOMBIE \<and>
     (wait_state (procs s p) \<noteq> 0 \<longrightarrow> wait_state (procs s p) AND WT_INTERRUPTED \<noteq> 0))"

context sched_policy
begin

lemma del_timer_inv:
  assumes "sched_inv rq ready s" "rq_same s u" "procs u = procs s" "current u = current s" "idleproc u = idleproc s"
  shows "sched_inv rq ready u"
  using assms same [OF assms(2)] unfolding sched_inv_def by simp

lemma expire_step:
  assumes "timer_ring s (t # ts)" "sched_inv rq ready s" "timer_ok s t" "expires (timers s t) = 0"
  shows "\<exists>w u. wakeup_proc sc (timer_proc (timers s t)) s = Some w \<and> del_timer t w = Some u \<and>
    timer_ring u ts \<and> timers u = timers s \<and> sched_inv rq ready u \<and>
    current u = current s \<and> idleproc u = idleproc s \<and>
    (\<forall>p. state (procs u p) = (if p = timer_proc (timers s t) then PROC_RUNNABLE else state (procs s p))) \<and>
    (\<forall>x. timer_ok s x \<longrightarrow> timer_ok u x)"
proof -
  let ?p = "timer_proc (timers s t)"
  have ok: "?p \<noteq> idleproc s" "state (procs s ?p) \<noteq> PROC_UNINIT" "state (procs s ?p) \<noteq> PROC_ZOMBIE"
    using assms(3) by (simp_all add: timer_ok_def Let_def)
  have "ready (procs s ?p)" using assms(2) ok by (simp add: sched_inv_def)
  moreover have "inj_on (\<lambda>p. pid (procs s p)) {p. state (procs s p) \<noteq> PROC_UNINIT}"
    using assms(2) by (simp add: sched_inv_def)
  then have "\<forall>q. q \<noteq> ?p \<longrightarrow> state (procs s q) \<noteq> PROC_UNINIT \<longrightarrow> pid (procs s q) \<noteq> pid (procs s ?p)"
    using ok(2) by (auto dest: inj_onD)
  ultimately obtain w where w: "wakeup_proc sc ?p s = Some w" "sched_inv rq ready w"
    "state (procs w ?p) = PROC_RUNNABLE" "current w = current s" "idleproc w = idleproc s" "timers w = timers s"
    "\<forall>q. q \<noteq> ?p \<longrightarrow> state (procs w q) = state (procs s q) \<and> wait_state (procs w q) = wait_state (procs s q)"
    "wait_state (procs w ?p) \<in> {0, wait_state (procs s ?p)}"
    "\<forall>l. \<not> run_link l \<longrightarrow> nxt (klinks w) l = nxt (klinks s) l \<and> prv (klinks w) l = prv (klinks s) l"
    using wakeup_ok [OF assms(2) ok(3)] by blast
  have "timer_ring w ([] @ t # ts)" using assms(1) w(9) by (auto intro!: ring_frame [of "klinks s"])
  from del_timer_deadline [OF this] obtain u where u: "del_timer t w = Some u" "timer_ring u ts"
    "procs u = procs w" "current u = current w" "idleproc u = idleproc w" "rq_same w u" "timers u = timers w"
    using assms(4) w(6) by auto
  have "timer_ok u x" if "timer_ok s x" for x
    using that u w by (cases "timer_proc (timers s x) = ?p") (auto simp: timer_ok_def Let_def)
  moreover have "sched_inv rq ready u" by (rule del_timer_inv [OF w(2) u(6,3,4,5)])
  ultimately show ?thesis using w(1,3,4-7) u by (intro exI [of _ w] exI [of _ u]) auto
qed

lemma expire_loop_ok:
  assumes "timer_ring s (t # ts)" "sched_inv rq ready s" "\<forall>x \<in> set (t # ts). timer_ok s x"
  shows "\<exists>u. expire_loop sc t (TimerLink t) s = Some u \<and>
    timer_ring u (dropWhile (\<lambda>x. expires (timers s x) = 0) (t # ts)) \<and> timers u = timers s \<and>
    sched_inv rq ready u \<and> current u = current s \<and> idleproc u = idleproc s \<and>
    (\<forall>p. state (procs u p) = (if p \<in> (\<lambda>x. timer_proc (timers s x)) ` set (takeWhile (\<lambda>x. expires (timers s x) = 0) (t # ts))
      then PROC_RUNNABLE else state (procs s p)))"
  using assms
proof (induction ts arbitrary: t s)
  case Nil
  show ?case
  proof (cases "expires (timers s t) = 0")
    case True
    from Nil expire_step [of s t "[]"] True obtain w u where u:
      "wakeup_proc sc (timer_proc (timers s t)) s = Some w" "del_timer t w = Some u"
      "timer_ring u []" "timers u = timers s" "sched_inv rq ready u"
      "current u = current s" "idleproc u = idleproc s"
      "\<forall>p. state (procs u p) = (if p = timer_proc (timers s t) then PROC_RUNNABLE else state (procs s p))"
      by (auto simp only: list.set_intros)
    have "expire_loop sc t (TimerLink t) s = Some u"
      using u(1,2) True Nil.prems(3) list_next_timer [of s "[]" t "[]"] Nil.prems(1)
      by (simp add: expire_loop.simps timer_ok_def Let_def)
    then show ?thesis using u(3-8) True by (intro exI [of _ u]) simp
  qed (use Nil in \<open>simp add: expire_loop.simps\<close>)
next
  case (Cons a ts)
  show ?case
  proof (cases "expires (timers s t) = 0")
    case False
    then show ?thesis using Cons.prems by (simp add: expire_loop.simps)
  next
    case True
    from Cons.prems expire_step [of s t "a # ts"] True obtain w u where u:
      "wakeup_proc sc (timer_proc (timers s t)) s = Some w" "del_timer t w = Some u"
      "timer_ring u (a # ts)" "timers u = timers s" "sched_inv rq ready u"
      "current u = current s" "idleproc u = idleproc s"
      "\<forall>p. state (procs u p) = (if p = timer_proc (timers s t) then PROC_RUNNABLE else state (procs s p))"
      "\<forall>x. timer_ok s x \<longrightarrow> timer_ok u x"
      by (auto simp only: list.set_intros)
    have e: "expire_loop sc t (TimerLink t) s = expire_loop sc a (TimerLink a) u"
      using u(1,2) True Cons.prems(3) list_next_timer [of s "[]" t "a # ts"] Cons.prems(1)
      by (subst expire_loop.simps) (simp add: timer_ok_def Let_def)
    have "\<forall>x \<in> set (a # ts). timer_ok u x" using u(9) Cons.prems(3) by simp
    from Cons.IH [OF u(3,5) this] obtain v where v: "expire_loop sc a (TimerLink a) u = Some v"
      "timer_ring v (dropWhile (\<lambda>x. expires (timers s x) = 0) (a # ts))" "timers v = timers s"
      "sched_inv rq ready v" "current v = current s" "idleproc v = idleproc s"
      "\<forall>p. state (procs v p) = (if p \<in> (\<lambda>x. timer_proc (timers s x)) ` set (takeWhile (\<lambda>x. expires (timers s x) = 0) (a # ts))
        then PROC_RUNNABLE else state (procs u p))"
      unfolding u(4,6,7) by blast
    show ?thesis
      by (intro exI [of _ v]) (use v(1-6) e True in \<open>simp add: v(7) u(8)\<close>)
  qed
qed

lemma class_tick_ok:
  assumes "sched_inv rq ready s"
  shows "sched_inv rq ready (sched_class_proc_tick sc p s)" "sched_keeps s (sched_class_proc_tick sc p s)"
proof -
  let ?t = "sched_class_proc_tick sc p s"
  let ?Q = "{p. state (procs s p) = PROC_RUNNABLE \<and> p \<noteq> current s \<and> p \<noteq> idleproc s}"
  have q: "rq s ?Q" using assms by (simp add: sched_inv_def)
  have "rq_same s (upd_proc p (\<lambda>x. x\<lparr>need_resched := True\<rparr>) s)" by (rule rq_same_upd) simp
  then have "rq (upd_proc p (\<lambda>x. x\<lparr>need_resched := True\<rparr>) s) ?Q" by (rule same [OF _ q])
  moreover have "sched_keeps s (upd_proc p (\<lambda>x. x\<lparr>need_resched := True\<rparr>) s)"
    by (rule sched_keeps_upd) simp
  ultimately have t: "rq ?t ?Q \<and> sched_keeps s ?t"
    using tick [OF q] unfolding sched_class_proc_tick_def by presburger
  then show k: "sched_keeps s ?t" by simp
  show "sched_inv rq ready ?t"
    using assms t unfolding sched_inv_def sched_keeps_sels [OF k] keeps_ready [OF k] by simp
qed

lemma run_timer_list_ok:
  assumes "timer_ring s ts" "sched_inv rq ready s" "\<forall>t \<in> set ts. timer_ok s t"
    and "\<forall>(t, d) \<in> set (due s ts). 0 < d"
  shows "\<exists>u. run_timer_list sc s = Some u \<and>
    timer_ring u (map fst (filter (\<lambda>(t, d). d > 1) (due s ts))) \<and>
    due u (map fst (filter (\<lambda>(t, d). d > 1) (due s ts))) =
      map (\<lambda>(t, d). (t, d - 1)) (filter (\<lambda>(t, d). d > 1) (due s ts)) \<and>
    sched_inv rq ready u \<and> current u = current s \<and>
    (\<forall>p. state (procs u p) = (if \<exists>t. (t, 1) \<in> set (due s ts) \<and> timer_proc (timers s t) = p
      then PROC_RUNNABLE else state (procs s p)))"
proof -
  have "\<exists>u. (let le = list_next TimerList (klinks s) in if le \<noteq> TimerList then do {
                t \<leftarrow> le2timer le;
                assert_c (expires (timers s t) \<noteq> 0);
                expire_loop sc t le (upd_timer t (\<lambda>e. e - 1) s)
              } else Some s) = Some u \<and>
    timer_ring u (map fst (filter (\<lambda>(t, d). d > 1) (due s ts))) \<and>
    due u (map fst (filter (\<lambda>(t, d). d > 1) (due s ts))) =
      map (\<lambda>(t, d). (t, d - 1)) (filter (\<lambda>(t, d). d > 1) (due s ts)) \<and>
    sched_inv rq ready u \<and> current u = current s \<and>
    (\<forall>p. state (procs u p) = (if \<exists>t. (t, 1) \<in> set (due s ts) \<and> timer_proc (timers s t) = p
      then PROC_RUNNABLE else state (procs s p)))" (is "\<exists>u. ?run = Some u \<and> ?P u")
  proof (cases ts)
    case Nil
    then show ?thesis using assms by (simp add: ring_next_head)
  next
    case (Cons t rs)
    let ?s = "upd_timer t (\<lambda>e. e - 1) s"
    let ?e = "\<lambda>t. expires (timers s t)"
    let ?e' = "?e(t := ?e t - 1)"
    have pos: "0 < ?e t" "t \<notin> set rs" using assms(1,4) Cons ring_distinct by fastforce+
    have e': "(\<lambda>x. expires (timers ?s x)) = ?e'" by auto
    have tick: "deadlines ?e' 0 ts = map (\<lambda>(t, d). (t, d - 1)) (due s ts)"
      using deadlines_tick [of t rs ?e] pos Cons by simp
    have pos1: "0 < d" if "(x, d) \<in> set (due s ts)" for x d using assms(4) that by auto
    have drop: "deadlines ?e' 0 (dropWhile (\<lambda>x. ?e' x = 0) ts) =
        map (\<lambda>(t, d). (t, d - 1)) (filter (\<lambda>(t, d). d > 1) (due s ts))"
      unfolding deadlines_dropWhile tick
      by (simp add: filter_map o_def case_prod_unfold)
    have dr: "dropWhile (\<lambda>x. ?e' x = 0) ts = map fst (filter (\<lambda>(t, d). d > 1) (due s ts))"
      using arg_cong [OF drop, of "map fst"] by (simp add: o_def split_beta)
    have tk: "set (takeWhile (\<lambda>x. ?e' x = 0) ts) = {t. (t, 1) \<in> set (due s ts)}"
    proof -
      have "(x, 0) \<in> set (map (\<lambda>(t, d). (t, d - 1)) (due s ts)) \<longleftrightarrow> (x, 1) \<in> set (due s ts)" for x
      proof
        assume "(x, 0) \<in> set (map (\<lambda>(t, d). (t, d - 1)) (due s ts))"
        then obtain d where d: "(x, d) \<in> set (due s ts)" "d - 1 = 0" by auto
        with pos1 [OF d(1)] have "d = 1" by simp
        with d show "(x, 1) \<in> set (due s ts)" by simp
      qed force
      then show ?thesis unfolding deadlines_takeWhile tick by simp
    qed
    have "sched_inv rq ready ?s"
      by (rule del_timer_inv [OF assms(2) rq_same_upd_timer]) simp_all
    moreover have "timer_ring ?s (t # rs)" using assms(1) Cons by simp
    moreover have "\<forall>x \<in> set (t # rs). timer_ok ?s x" using assms(3) Cons by (simp add: timer_ok_def)
    ultimately obtain u where u: "expire_loop sc t (TimerLink t) ?s = Some u"
      "timer_ring u (dropWhile (\<lambda>x. ?e' x = 0) ts)" "timers u = timers ?s" "sched_inv rq ready u"
      "current u = current s"
      "\<forall>p. state (procs u p) = (if p \<in> (\<lambda>x. timer_proc (timers s x)) ` set (takeWhile (\<lambda>x. ?e' x = 0) ts)
        then PROC_RUNNABLE else state (procs s p))"
      using expire_loop_ok [of ?s t rs] unfolding fun_cong [OF e'] Cons upd_timer_simps(2-4,6) by blast
    have "?run = Some u" using u(1) pos assms(1) Cons by (simp add: ring_next_head)
    moreover have "due u (map fst (filter (\<lambda>(t, d). d > 1) (due s ts))) =
        map (\<lambda>(t, d). (t, d - 1)) (filter (\<lambda>(t, d). d > 1) (due s ts))"
      using drop unfolding dr u(3) e' .
    moreover have "\<forall>p. state (procs u p) = (if \<exists>t. (t, 1) \<in> set (due s ts) \<and> timer_proc (timers s t) = p
        then PROC_RUNNABLE else state (procs s p))"
      unfolding u(6) [rule_format] tk by auto
    ultimately show ?thesis using u(2,4,5) unfolding dr by blast
  qed
  then obtain u where u: "?run = Some u" "?P u" by blast
  define v where "v = sched_class_proc_tick sc (current u) u"
  have inv: "sched_inv rq ready u" using u(2) by simp
  note k = class_tick_ok [OF inv, of "current u", folded v_def]
  have "run_timer_list sc s = Some v" unfolding run_timer_list_def u(1) by (simp add: v_def)
  moreover have "timer_ring v xs" if "timer_ring u xs" for xs
    by (rule ring_frame [OF that]) (use k(2) in \<open>auto simp: sched_keeps_def\<close>)
  ultimately show ?thesis
    using u(2) k(1) by (intro exI [of _ v]) (simp add: sched_keeps_sels [OF k(2)])
qed

end

end
