(* ===== verification/SchedProps.thy ===== *)
theory SchedProps
  imports Timers
begin

section \<open>Scheduler and timer properties\<close>

text \<open>
  The properties of \<open>sched_policy\<close> read off for the two scheduler classes, the order in which
  they serve processes, and a small kernel state on which they are evaluated.
\<close>

subsection \<open>A kernel state\<close>

definition ex_proc :: "proc_state \<Rightarrow> int \<Rightarrow> proc_struct" where
  "ex_proc st n = \<lparr>state = st, pid = n, runs = 0, kstack = 0, need_resched = False, parent = None,
     proc_mm = None, proc_ctx = \<lparr>ctx_ra = 0, ctx_sp = 0, ctx_s = (\<lambda>_. 0)\<rparr>, proc_tf = None, proc_cr3 = 0,
     pflags = 0, proc_name = '''', exit_code = 0,
     wait_state = (if st = PROC_SLEEPING then WT_TIMER else 0), cptr = None, yptr = None, optr = None,
     on_rq = False, time_slice = 0, lab6_stride = 0, lab6_priority = 1, filesp = None\<rparr>"

text \<open>Idle process 0, process 1 running, process 2 asleep, the other slots unused.\<close>

definition ex_kst :: kst where
  "ex_kst = \<lparr>procs = (\<lambda>p. if p < 2 then ex_proc PROC_RUNNABLE (int p)
       else if p = 2 then ex_proc PROC_SLEEPING 2 else ex_proc PROC_UNINIT (- 1)),
     current = 1, idleproc = 0, initproc = 1, nr_process = 3, next_safe = 8192, last_pid = 2,
     klinks = \<lparr>nxt = (\<lambda>l. l), prv = (\<lambda>l. l)\<rparr>, proc_num = 0, max_time_slice = 5, run_pool = None,
     pool = \<lparr>sleft = (\<lambda>_. None), sright = (\<lambda>_. None), sparent = (\<lambda>_. None)\<rparr>,
     timers = (\<lambda>_. \<lparr>expires = 0, timer_proc = 0\<rparr>),
     waits = (\<lambda>_. \<lparr>wait_proc = 0, wakeup_flags = 0, in_queue = 0\<rparr>), sem_value = (\<lambda>_. 0), satp = 0\<rparr>"

lemma ex_procs:
  "state (procs ex_kst p) = (if p < 2 then PROC_RUNNABLE else if p = 2 then PROC_SLEEPING else PROC_UNINIT)"
  "pid (procs ex_kst p) = (if p < 3 then int p else -1)" "lab6_priority (procs ex_kst p) = 1"
  "lab6_stride (procs ex_kst p) = 0"
  "wait_state (procs ex_kst p) = (if p = 2 then WT_TIMER else 0)"
  by (auto simp: ex_kst_def ex_proc_def)

lemma ex_kst_sels:
  "current ex_kst = 1" "idleproc ex_kst = 0" "klinks ex_kst = \<lparr>nxt = (\<lambda>l. l), prv = (\<lambda>l. l)\<rparr>"
  by (simp_all add: ex_kst_def)

definition ex_stride :: kst where
  "ex_stride = stride_init ex_kst"

lemma ex_stride_sels:
  "procs ex_stride = procs ex_kst" "current ex_stride = 1" "idleproc ex_stride = 0"
  "timers ex_stride = timers ex_kst" "klinks ex_stride = list_init RunList (klinks ex_kst)"
  by (simp_all add: ex_stride_def stride_init_def ex_kst_def)

lemma ex_stride_inv: "sched_inv stride_rq (\<lambda>x. lab6_priority x \<noteq> 0) ex_stride"
proof -
  have "stride_rq (sc_init stride_sched_class ex_kst) {}"
    by (rule stride.init) (simp add: ex_kst_sels list_empty_def)
  then have "stride_rq ex_stride {}" by (simp add: stride_sched_class_def ex_stride_def)
  moreover have "{p. state (procs ex_stride p) = PROC_RUNNABLE \<and> p \<noteq> current ex_stride \<and> p \<noteq> idleproc ex_stride} = {}"
    by (auto simp: ex_stride_sels ex_procs split: if_splits)
  ultimately have "stride_rq ex_stride {p. state (procs ex_stride p) = PROC_RUNNABLE \<and> p \<noteq> current ex_stride \<and> p \<noteq> idleproc ex_stride}"
    by (simp only:)
  moreover have "inj_on (\<lambda>p. pid (procs ex_stride p)) {p. state (procs ex_stride p) \<noteq> PROC_UNINIT}"
    by (auto simp: ex_stride_sels ex_procs inj_on_def split: if_splits)
  ultimately show ?thesis unfolding sched_inv_def by (simp add: ex_stride_sels ex_procs)
qed

lemma ex_ring: "ring (klinks ex_stride) TimerList TimerLink []"
  "run_ring ex_stride []"
  by (auto simp: ring_def dlist_def ex_stride_sels ex_kst_sels list_init_def list_empty_def)

subsection \<open>The core\<close>

text \<open>C3: whenever the run queue holds exactly the runnable processes besides the running and the idle one, \<open>schedule\<close> with the stride class
  returns, switches to a runnable process, to the idle process only if no other process is
  runnable, changes no process state and keeps the run queue exact.\<close>

theorem schedule_stride_correct:
  assumes "sched_inv stride_rq (\<lambda>x. lab6_priority x \<noteq> 0) s"
  shows "\<exists>t. schedule stride_sched_class s = Some t \<and> sched_inv stride_rq (\<lambda>x. lab6_priority x \<noteq> 0) t \<and>
    state (procs t (current t)) = PROC_RUNNABLE \<and>
    (current t = idleproc t \<longleftrightarrow> (\<forall>p. state (procs s p) = PROC_RUNNABLE \<longrightarrow> p = idleproc s)) \<and>
    (\<forall>p. state (procs t p) = state (procs s p))"
  using stride.schedule_ok [OF assms] by blast

theorem schedule_stride_correct_witness:
  "\<exists>t. schedule stride_sched_class ex_stride = Some t \<and> current t \<noteq> idleproc t"
proof -
  obtain t where "schedule stride_sched_class ex_stride = Some t"
    "current t = idleproc t \<longleftrightarrow> (\<forall>p. state (procs ex_stride p) = PROC_RUNNABLE \<longrightarrow> p = idleproc ex_stride)"
    using schedule_stride_correct [OF ex_stride_inv] by blast
  then show ?thesis by (auto simp: ex_stride_sels ex_procs intro!: exI [of _ 1])
qed

text \<open>C23: waking a process that is neither unused nor a zombie makes it runnable, puts it on the run queue exactly when it was not running, and keeps every other process and the run queue invariant.\<close>

theorem wakeup_proc_stride_correct:
  assumes "sched_inv stride_rq (\<lambda>x. lab6_priority x \<noteq> 0) s"
    and "state (procs s p) \<notin> {PROC_UNINIT, PROC_ZOMBIE}" "p \<noteq> idleproc s"
  shows "\<exists>t. wakeup_proc stride_sched_class p s = Some t \<and>
    sched_inv stride_rq (\<lambda>x. lab6_priority x \<noteq> 0) t \<and> state (procs t p) = PROC_RUNNABLE \<and>
    stride_rq t {q. (state (procs s q) = PROC_RUNNABLE \<or> q = p) \<and> q \<noteq> current s \<and> q \<noteq> idleproc s} \<and>
    current t = current s \<and> (\<forall>q. q \<noteq> p \<longrightarrow> state (procs t q) = state (procs s q))"
proof -
  have "inj_on (\<lambda>p. pid (procs s p)) {p. state (procs s p) \<noteq> PROC_UNINIT}"
    using assms(1) by (simp add: sched_inv_def)
  then have "\<forall>q. q \<noteq> p \<longrightarrow> state (procs s q) \<noteq> PROC_UNINIT \<longrightarrow> pid (procs s q) \<noteq> pid (procs s p)"
    using assms(2) by (auto dest: inj_onD)
  moreover have "lab6_priority (procs s p) \<noteq> 0" using assms by (auto simp: sched_inv_def)
  ultimately obtain t where t: "wakeup_proc stride_sched_class p s = Some t"
    "sched_inv stride_rq (\<lambda>x. lab6_priority x \<noteq> 0) t" "state (procs t p) = PROC_RUNNABLE"
    "current t = current s" "idleproc t = idleproc s" "\<forall>q. q \<noteq> p \<longrightarrow> state (procs t q) = state (procs s q)"
    using stride.wakeup_ok [OF assms(1), of p] assms(2) by blast
  have "{q. state (procs t q) = PROC_RUNNABLE \<and> q \<noteq> current t \<and> q \<noteq> idleproc t} =
      {q. (state (procs s q) = PROC_RUNNABLE \<or> q = p) \<and> q \<noteq> current s \<and> q \<noteq> idleproc s}"
    using t(3-6) by (metis (mono_tags, lifting))
  then show ?thesis using t unfolding sched_inv_def by auto
qed

theorem wakeup_proc_stride_correct_witness:
  "\<exists>t. wakeup_proc stride_sched_class 2 ex_stride = Some t \<and> state (procs t 2) = PROC_RUNNABLE \<and>
     stride_rq t {2}"
proof -
  have e: "{q. (state (procs ex_stride q) = PROC_RUNNABLE \<or> q = 2) \<and> q \<noteq> current ex_stride \<and> q \<noteq> idleproc ex_stride} = {2}"
    by (auto simp: ex_stride_sels ex_procs split: if_splits)
  show ?thesis
    using wakeup_proc_stride_correct [OF ex_stride_inv, of 2] unfolding e
    by (auto simp: ex_stride_sels ex_procs)
qed

subsection \<open>The order of service\<close>

text \<open>C17: the stride class picks a process with the least unwrapped stride, takes it off the
  heap, advances its stride by \<open>BIG_STRIDE\<close> over its priority, and leaves the heap ordered by
  unwrapped stride with every stride, the advanced one included, within a window of
  \<open>BIG_STRIDE\<close>; so the 32-bit wrap-around never inverts a comparison.\<close>

theorem stride_pick_minimum:
  assumes "stride_ok K s t" "run_ring s xs" "set xs = set_tree t" "t \<noteq> \<langle>\<rangle>"
    and "\<forall>p \<in> set_tree t. lab6_priority (procs s p) \<noteq> 0"
  shows "\<exists>p s1 s2 t2. stride_pick_next s = Some (Some p, s1) \<and> stride_dequeue p s1 = Some s2 \<and>
    p \<in> set_tree t \<and> (\<forall>q \<in> set_tree t. K p \<le> K q) \<and> run_ring s2 (remove1 p xs) \<and>
    set_tree t2 = set_tree t - {p} \<and> (\<forall>q. q \<noteq> p \<longrightarrow> lab6_stride (procs s2 q) = lab6_stride (procs s q)) \<and>
    (let d = uint (BIG_STRIDE div lab6_priority (procs s p)) in
      stride_ok (K(p := K p + d)) s2 t2 \<and> lab6_stride (procs s2 p) = word_of_int (K p + d) \<and>
      (\<forall>q \<in> set_tree t2. K p + d \<le> K q + uint BIG_STRIDE \<and> K q \<le> K p + d + uint BIG_STRIDE))"
  by (rule stride_pick_dequeue [OF assms])

text \<open>Enqueueing a process whose unwrapped stride lies in the window of the queued ones
  keeps the heap ordered by unwrapped stride and the window.\<close>

theorem stride_enqueue_keeps_order:
  assumes "stride_ok K s t" "run_ring s xs" "set xs = set_tree t" "p \<notin> set_tree t"
    and "lab6_stride (procs s p) = word_of_int (K p)"
    and "\<forall>q \<in> set_tree t. K p \<le> K q + uint BIG_STRIDE \<and> K q \<le> K p + uint BIG_STRIDE"
  shows "\<exists>u t'. stride_enqueue p s = Some u \<and> stride_ok K u t' \<and> set_tree t' = insert p (set_tree t) \<and>
    run_ring u (xs @ [p])"
  by (rule stride_enqueue_order [OF assms])

lemma ex_stride_ok: "stride_ok (\<lambda>_. 0) ex_stride \<langle>\<rangle>"
  by (simp add: stride_ok_def pool_at_def ex_stride_def stride_init_def)

theorem stride_enqueue_keeps_order_witness:
  "\<exists>u t'. stride_enqueue 2 ex_stride = Some u \<and> stride_ok (\<lambda>_. 0) u t' \<and> set_tree t' = {2}"
  using stride_enqueue_keeps_order [OF ex_stride_ok ex_ring(2), of 2]
  by (auto simp: ex_stride_sels ex_procs)

theorem stride_pick_minimum_witness:
  "\<exists>u p s1. stride_enqueue 2 ex_stride = Some u \<and> stride_pick_next u = Some (Some p, s1) \<and> p = 2"
proof -
  obtain u t' where u: "stride_enqueue 2 ex_stride = Some u" "stride_ok (\<lambda>_. 0) u t'" "set_tree t' = {2}"
    "run_ring u [2]"
    using stride_enqueue_order [OF ex_stride_ok ex_ring(2), of 2] by (auto simp: ex_stride_sels ex_procs)
  obtain v where v: "stride_enqueue 2 ex_stride = Some v" "sched_keeps ex_stride v"
    using stride_enqueue_heap [of ex_stride "[]" "\<langle>\<rangle>" 2] ex_ring(2) ex_stride_ok by (auto simp: stride_ok_def)
  then have "lab6_priority (procs u 2) \<noteq> 0"
    using u(1) sched_keeps_sels(7) [OF v(2), of 2] by (simp add: ex_stride_sels ex_procs)
  then have prio: "\<forall>p \<in> set_tree t'. lab6_priority (procs u p) \<noteq> 0" using u(3) by simp
  have "set [2] = set_tree t'" "t' \<noteq> \<langle>\<rangle>" using u(3) by auto
  from stride_pick_minimum [OF u(2,4) this prio]
  obtain p s1 where "stride_pick_next u = Some (Some p, s1)" "p \<in> set_tree t'" by blast
  then show ?thesis using u(1,3) by auto
qed

text \<open>with the round-robin class, \<open>schedule\<close> called by a runnable process serves the queue in
  order: the process at the head runs next and the caller goes to the back.\<close>

theorem RR_schedule_rotates:
  assumes inv: "sched_inv rr_rq (\<lambda>_. True) s" and ring: "run_ring s xs"
    and cur: "state (procs s (current s)) = PROC_RUNNABLE" "current s \<noteq> idleproc s"
  shows "\<exists>t. schedule RR_sched_class s = Some t \<and> current t = hd (xs @ [current s]) \<and>
    run_ring t (tl (xs @ [current s]))"
proof -
  let ?c = "current s"
  let ?s0 = "upd_proc ?c (\<lambda>x. x\<lparr>need_resched := False\<rparr>) s"
  obtain ys where ys: "run_ring s ys" "set ys = {p. state (procs s p) = PROC_RUNNABLE \<and> p \<noteq> ?c \<and> p \<noteq> idleproc s}"
    "\<forall>p \<in> set ys. on_rq (procs s p)" using inv by (auto simp: sched_inv_def rr_rq_def)
  have "map RunLink ys = map RunLink xs"
    by (rule dlist_unique [of "klinks s" RunList]) (use ys(1) ring in \<open>simp_all add: ring_def\<close>)
  then have xs: "ys = xs" by (simp add: inj_map_eq_map)
  have "?c \<notin> set xs" using ys(2) xs by auto
  then obtain s1 where s1: "RR_enqueue ?c ?s0 = Some s1" "run_ring s1 (xs @ [?c])" "sched_keeps ?s0 s1"
    "\<forall>q. on_rq (procs s1 q) \<longleftrightarrow> q = ?c \<or> on_rq (procs ?s0 q)"
    using RR_enqueue_list [of ?s0 xs ?c] ring by auto
  obtain p zs where p: "xs @ [?c] = p # zs" by (cases "xs @ [?c]") auto
  have pick: "RR_pick_next s1 = Some (Some p, s1)"
    using ring_next_head [OF s1(2)] p by (simp add: RR_pick_next_def)
  have pin: "p \<in> insert ?c (set xs)" using p by (cases xs) auto
  then have "on_rq (procs s1 p)" using s1(4) ys(3) xs by auto
  then obtain s2 where s2: "RR_dequeue p s1 = Some s2" "run_ring s2 (remove1 p (p # zs))" "sched_keeps s1 s2"
    using RR_dequeue_list [OF s1(2), of p] p by auto
  have k: "sched_keeps ?s0 s2" by (rule sched_keeps_trans [OF s1(3) s2(3)])
  note sel = sched_keeps_sels [OF k]
  have "state (procs s p) = PROC_RUNNABLE" using pin cur ys(2) xs by auto
  moreover have "inj_on (\<lambda>p. pid (procs s p)) {p. state (procs s p) \<noteq> PROC_UNINIT}"
    using inv by (simp add: sched_inv_def)
  ultimately have pid: "p \<noteq> ?c \<Longrightarrow> pid (procs s p) \<noteq> pid (procs s ?c)"
    using cur(1) by (auto dest: inj_onD)
  let ?s3 = "upd_proc p (\<lambda>x. x\<lparr>runs := runs x + 1\<rparr>) s2"
  define t where "t = (if p \<noteq> current ?s3 then proc_run p ?s3 else ?s3)"
  have "schedule RR_sched_class s = Some t"
    using s1(1) s2(1) pick cur sched_keeps_sels(1,2) [OF s1(3)]
    by (simp add: schedule_def sched_class_enqueue_def sched_class_pick_next_def sched_class_dequeue_def
        RR_sched_class_def t_def)
  moreover have "current t = p" using pid by (auto simp: t_def proc_run_def sel)
  moreover have "run_ring t zs" using s2(2) by (simp add: t_def proc_run_def)
  ultimately show ?thesis using p by simp
qed

definition ex_rr :: kst where
  "ex_rr = RR_init ex_kst"

theorem RR_schedule_rotates_witness:
  "\<exists>t. schedule RR_sched_class ex_rr = Some t \<and> current t = 1 \<and> run_ring t []"
proof -
  have sel: "procs ex_rr = procs ex_kst" "current ex_rr = 1" "idleproc ex_rr = 0"
    "klinks ex_rr = list_init RunList (klinks ex_kst)"
    by (simp_all add: ex_rr_def RR_init_def ex_kst_def)
  have r: "run_ring ex_rr []"
    by (auto simp: ring_def dlist_def sel ex_kst_sels list_init_def list_empty_def)
  then have "rr_rq ex_rr {}" by (auto simp: rr_rq_def)
  moreover have "{p. state (procs ex_rr p) = PROC_RUNNABLE \<and> p \<noteq> current ex_rr \<and> p \<noteq> idleproc ex_rr} = {}"
    by (auto simp: sel ex_procs split: if_splits)
  ultimately have "rr_rq ex_rr {p. state (procs ex_rr p) = PROC_RUNNABLE \<and> p \<noteq> current ex_rr \<and> p \<noteq> idleproc ex_rr}"
    by (simp only:)
  moreover have "inj_on (\<lambda>p. pid (procs ex_rr p)) {p. state (procs ex_rr p) \<noteq> PROC_UNINIT}"
    by (auto simp: sel ex_procs inj_on_def split: if_splits)
  ultimately have "sched_inv rr_rq (\<lambda>_. True) ex_rr"
    unfolding sched_inv_def by (simp add: sel ex_procs)
  from RR_schedule_rotates [OF this r] show ?thesis by (simp add: sel ex_procs)
qed

subsection \<open>Timers\<close>

text \<open>C24: one tick of \<open>run_timer_list\<close> takes one off every deadline, removes exactly the timers that
  are due, wakes exactly their processes, and keeps the scheduler's invariant.\<close>

theorem run_timer_list_deadlines:
  assumes "timer_ring s ts" "sched_inv stride_rq (\<lambda>x. lab6_priority x \<noteq> 0) s"
    and "\<forall>t \<in> set ts. timer_ok s t" "\<forall>(t, d) \<in> set (due s ts). 0 < d"
  shows "\<exists>u. run_timer_list stride_sched_class s = Some u \<and>
    timer_ring u (map fst (filter (\<lambda>(t, d). d > 1) (due s ts))) \<and>
    due u (map fst (filter (\<lambda>(t, d). d > 1) (due s ts))) =
      map (\<lambda>(t, d). (t, d - 1)) (filter (\<lambda>(t, d). d > 1) (due s ts)) \<and>
    sched_inv stride_rq (\<lambda>x. lab6_priority x \<noteq> 0) u \<and> current u = current s \<and>
    (\<forall>p. state (procs u p) = (if \<exists>t. (t, 1) \<in> set (due s ts) \<and> timer_proc (timers s t) = p
      then PROC_RUNNABLE else state (procs s p)))"
  by (rule stride.run_timer_list_ok [OF assms])

text \<open>\<open>add_timer\<close> inserts a timer behind those due no later and before those due later, with its
  deadline as given, and changes no other deadline.\<close>

theorem add_timer_inserts_deadline:
  assumes "timer_ring s ts" "t \<notin> set ts" "expires (timers s t) > 0"
  shows "\<exists>u cs ds. add_timer t s = Some u \<and> timer_ring u (cs @ t # ds) \<and> ts = cs @ ds \<and>
    due u (cs @ t # ds) = take (length cs) (due s ts) @ (t, expires (timers s t)) # drop (length cs) (due s ts) \<and>
    (\<forall>x \<in> set (take (length cs) (due s ts)). snd x \<le> expires (timers s t)) \<and>
    (\<forall>x \<in> set (drop (length cs) (due s ts)). expires (timers s t) < snd x)"
  by (rule add_timer_deadline [OF assms])

text \<open>Process 2 sleeps on timer 7 for one tick.\<close>

definition ex_timer :: kst where
  "ex_timer = timer_init 7 2 1 ex_stride"

lemma ex_timer_ring: "timer_ring ex_timer []"
  by (auto simp: ring_def dlist_def ex_timer_def timer_init_def ex_stride_sels ex_kst_sels list_init_def
      list_empty_def)

lemma ex_timer_inv: "sched_inv stride_rq (\<lambda>x. lab6_priority x \<noteq> 0) ex_timer"
  by (rule stride.del_timer_inv [OF ex_stride_inv])
    (auto simp: ex_timer_def timer_init_def rq_same_def list_init_def)

lemma ex_timer_expires: "expires (timers ex_timer 7) = 1" "timer_proc (timers ex_timer 7) = 2"
  by (simp_all add: ex_timer_def timer_init_def)

theorem add_timer_inserts_deadline_witness:
  "\<exists>u. add_timer 7 ex_timer = Some u \<and> timer_ring u [7] \<and> due u [7] = [(7, 1)]"
  using add_timer_inserts_deadline [OF ex_timer_ring, of 7] by (auto simp: ex_timer_expires)

theorem run_timer_list_deadlines_witness:
  "\<exists>s u. add_timer 7 ex_timer = Some s \<and> run_timer_list stride_sched_class s = Some u \<and>
     timer_ring u [] \<and> state (procs u 2) = PROC_RUNNABLE"
proof -
  let ?s = "upd_links (list_add_before TimerList (TimerLink 7)) ex_timer"
  have a: "add_timer 7 ex_timer = Some ?s"
    using ex_timer_ring
    by (simp add: add_timer_def ex_timer_expires ring_on ring_next_head add_timer_loop.simps)
  have r: "timer_ring ?s [7]" using ring_add_before_head [OF _ _ ex_timer_ring, of 7] by simp
  have same: "rq_same ex_timer ?s"
    using ring_add_frame [OF ex_timer_ring] by (intro rq_same_upd_links) (auto simp: run_link_iff)
  have inv: "sched_inv stride_rq (\<lambda>x. lab6_priority x \<noteq> 0) ?s"
    by (rule stride.del_timer_inv [OF ex_timer_inv same]) simp_all
  have "timer_ok ?s 7"
    by (simp add: timer_ok_def ex_timer_def timer_init_def ex_stride_sels ex_procs wt_values)
  then show ?thesis
    using run_timer_list_deadlines [OF r inv] a by (auto simp: ex_timer_expires)
qed

end
