(* ===== verification/Sync.thy ===== *)
theory Sync
  imports SchedProps
begin

section \<open>Wait queues, semaphores and monitors (kern/sync)\<close>

text \<open>
  \<open>wait.c\<close>, \<open>sem.c\<close> and \<open>monitor.c\<close> on the kernel state. A function that calls \<open>schedule\<close> is
  split there: the part before the context switch and the part that runs when the process is
  scheduled again are separate operations, so that other processes' steps come between. A wait
  entry lives on its process's kernel stack; its number stands for its address.
\<close>

subsection \<open>Wait queues (wait.c)\<close>

fun le2wait :: "klink \<Rightarrow> nat option" where
  "le2wait (WaitLink w) = Some w"
| "le2wait _ = None"

definition upd_wait :: "nat \<Rightarrow> (wait_t \<Rightarrow> wait_t) \<Rightarrow> kst \<Rightarrow> kst" where
  "upd_wait w f s = s\<lparr>waits := (waits s)(w := f (waits s w))\<rparr>"

definition wait_init :: "nat \<Rightarrow> nat \<Rightarrow> kst \<Rightarrow> kst" where
  "wait_init w p s =
     upd_links (list_init (WaitLink w))
       (upd_wait w (\<lambda>x. x\<lparr>wait_proc := p, wakeup_flags := WT_INTERRUPTED\<rparr>) s)"

definition wait_queue_init :: "nat \<Rightarrow> kst \<Rightarrow> kst" where
  "wait_queue_init q s = upd_links (list_init (WaitHead q)) s"

definition wait_queue_add :: "nat \<Rightarrow> nat \<Rightarrow> kst \<Rightarrow> kst option" where
  "wait_queue_add q w s = do {
     assert_c (list_empty (WaitLink w) (klinks s));
     Some (upd_links (list_add_before (WaitHead q) (WaitLink w)) (upd_wait w (\<lambda>x. x\<lparr>in_queue := q\<rparr>) s))
   }"

definition wait_queue_del :: "nat \<Rightarrow> nat \<Rightarrow> kst \<Rightarrow> kst option" where
  "wait_queue_del q w s = do {
     assert_c (\<not> list_empty (WaitLink w) (klinks s) \<and> in_queue (waits s w) = q);
     Some (upd_links (list_del_init (WaitLink w)) s)
   }"

definition wait_queue_next :: "nat \<Rightarrow> nat \<Rightarrow> kst \<Rightarrow> nat option option" where
  "wait_queue_next q w s = do {
     assert_c (\<not> list_empty (WaitLink w) (klinks s) \<and> in_queue (waits s w) = q);
     let le = list_next (WaitLink w) (klinks s);
     if le \<noteq> WaitHead q then do { w' \<leftarrow> le2wait le; Some (Some w') } else Some None
   }"

definition wait_queue_prev :: "nat \<Rightarrow> nat \<Rightarrow> kst \<Rightarrow> nat option option" where
  "wait_queue_prev q w s = do {
     assert_c (\<not> list_empty (WaitLink w) (klinks s) \<and> in_queue (waits s w) = q);
     let le = list_prev (WaitLink w) (klinks s);
     if le \<noteq> WaitHead q then do { w' \<leftarrow> le2wait le; Some (Some w') } else Some None
   }"

definition wait_queue_first :: "nat \<Rightarrow> kst \<Rightarrow> nat option option" where
  "wait_queue_first q s =
     (let le = list_next (WaitHead q) (klinks s)
      in if le \<noteq> WaitHead q then do { w \<leftarrow> le2wait le; Some (Some w) } else Some None)"

definition wait_queue_last :: "nat \<Rightarrow> kst \<Rightarrow> nat option option" where
  "wait_queue_last q s =
     (let le = list_prev (WaitHead q) (klinks s)
      in if le \<noteq> WaitHead q then do { w \<leftarrow> le2wait le; Some (Some w) } else Some None)"

definition wait_queue_empty :: "nat \<Rightarrow> kst \<Rightarrow> bool" where
  "wait_queue_empty q s = list_empty (WaitHead q) (klinks s)"

definition wait_in_queue :: "nat \<Rightarrow> kst \<Rightarrow> bool" where
  "wait_in_queue w s = (\<not> list_empty (WaitLink w) (klinks s))"

definition wakeup_wait :: "sched_class \<Rightarrow> nat \<Rightarrow> nat \<Rightarrow> 32 word \<Rightarrow> bool \<Rightarrow> kst \<Rightarrow> kst option" where
  "wakeup_wait sc q w flags del s = do {
     s \<leftarrow> (if del then wait_queue_del q w s else Some s);
     let s = upd_wait w (\<lambda>x. x\<lparr>wakeup_flags := flags\<rparr>) s;
     wakeup_proc sc (wait_proc (waits s w)) s
   }"

definition wakeup_first :: "sched_class \<Rightarrow> nat \<Rightarrow> 32 word \<Rightarrow> bool \<Rightarrow> kst \<Rightarrow> kst option" where
  "wakeup_first sc q flags del s = do {
     f \<leftarrow> wait_queue_first q s;
     case f of None \<Rightarrow> Some s | Some w \<Rightarrow> wakeup_wait sc q w flags del s
   }"

partial_function (option) wakeup_all_del :: "sched_class \<Rightarrow> nat \<Rightarrow> nat \<Rightarrow> 32 word \<Rightarrow> kst \<Rightarrow> kst option" where
  "wakeup_all_del sc q w flags s = do {
     s \<leftarrow> wakeup_wait sc q w flags True s;
     f \<leftarrow> wait_queue_first q s;
     case f of None \<Rightarrow> Some s | Some w \<Rightarrow> wakeup_all_del sc q w flags s
   }"

partial_function (option) wakeup_all_keep :: "sched_class \<Rightarrow> nat \<Rightarrow> nat \<Rightarrow> 32 word \<Rightarrow> kst \<Rightarrow> kst option" where
  "wakeup_all_keep sc q w flags s = do {
     s \<leftarrow> wakeup_wait sc q w flags False s;
     f \<leftarrow> wait_queue_next q w s;
     case f of None \<Rightarrow> Some s | Some w \<Rightarrow> wakeup_all_keep sc q w flags s
   }"

definition wakeup_queue :: "sched_class \<Rightarrow> nat \<Rightarrow> 32 word \<Rightarrow> bool \<Rightarrow> kst \<Rightarrow> kst option" where
  "wakeup_queue sc q flags del s = do {
     f \<leftarrow> wait_queue_first q s;
     case f of None \<Rightarrow> Some s
     | Some w \<Rightarrow> if del then wakeup_all_del sc q w flags s else wakeup_all_keep sc q w flags s
   }"

definition wait_current_set :: "nat \<Rightarrow> nat \<Rightarrow> 32 word \<Rightarrow> kst \<Rightarrow> kst option" where
  "wait_current_set q w ws s =
     wait_queue_add q w (upd_proc (current s) (\<lambda>x. x\<lparr>state := PROC_SLEEPING, wait_state := ws\<rparr>)
       (wait_init w (current s) s))"

definition wait_current_del :: "nat \<Rightarrow> nat \<Rightarrow> kst \<Rightarrow> kst option" where
  "wait_current_del q w s = (if wait_in_queue w s then wait_queue_del q w s else Some s)"

declare wakeup_all_del.simps [code] wakeup_all_keep.simps [code]

subsection \<open>Semaphores (sem.c)\<close>

definition sem_init :: "nat \<Rightarrow> int \<Rightarrow> kst \<Rightarrow> kst" where
  "sem_init q v s = wait_queue_init q (s\<lparr>sem_value := (sem_value s)(q := v)\<rparr>)"

definition up_ws :: "sched_class \<Rightarrow> nat \<Rightarrow> 32 word \<Rightarrow> kst \<Rightarrow> kst option" where
  "up_ws sc q ws s = do {
     f \<leftarrow> wait_queue_first q s;
     case f of
       None \<Rightarrow> Some (s\<lparr>sem_value := (sem_value s)(q := sem_value s q + 1)\<rparr>)
     | Some w \<Rightarrow> do {
         assert_c (wait_state (procs s (wait_proc (waits s w))) = ws);
         wakeup_wait sc q w ws True s
       }
   }"

text \<open>\<open>__down\<close> up to and including \<open>schedule\<close>: \<open>True\<close> when the caller now sleeps.\<close>

definition down_begin :: "sched_class \<Rightarrow> nat \<Rightarrow> nat \<Rightarrow> 32 word \<Rightarrow> kst \<Rightarrow> (bool \<times> kst) option" where
  "down_begin sc q w ws s =
     (if sem_value s q > 0 then Some (False, s\<lparr>sem_value := (sem_value s)(q := sem_value s q - 1)\<rparr>)
      else do {
        s \<leftarrow> wait_current_set q w ws s;
        s \<leftarrow> schedule sc s;
        Some (True, s)
      })"

text \<open>\<open>__down\<close> from the return of \<open>schedule\<close>.\<close>

definition down_end :: "nat \<Rightarrow> nat \<Rightarrow> 32 word \<Rightarrow> kst \<Rightarrow> (32 word \<times> kst) option" where
  "down_end q w ws s = do {
     s \<leftarrow> wait_current_del q w s;
     Some (if wakeup_flags (waits s w) \<noteq> ws then wakeup_flags (waits s w) else 0, s)
   }"

definition up :: "sched_class \<Rightarrow> nat \<Rightarrow> kst \<Rightarrow> kst option" where
  "up sc q s = up_ws sc q WT_KSEM s"

text \<open>\<open>down\<close> asserts that its wake-up came from \<open>up\<close>.\<close>

definition down_resume :: "nat \<Rightarrow> nat \<Rightarrow> kst \<Rightarrow> kst option" where
  "down_resume q w s = do {
     (flags, s) \<leftarrow> down_end q w WT_KSEM s;
     assert_c (flags = 0);
     Some s
   }"

definition try_down :: "nat \<Rightarrow> kst \<Rightarrow> bool \<times> kst" where
  "try_down q s =
     (if sem_value s q > 0 then (True, s\<lparr>sem_value := (sem_value s)(q := sem_value s q - 1)\<rparr>)
      else (False, s))"

subsection \<open>What the code keeps true of a semaphore\<close>

abbreviation wait_ring :: "kst \<Rightarrow> nat \<Rightarrow> nat list \<Rightarrow> bool" where
  "wait_ring s q ws \<equiv> dlist (klinks s) (WaitHead q) (map WaitLink ws)"

text \<open>
  The waiters in order: each wait entry is on this queue, its process sleeps on it; a waiter
  implies that the value is zero.
\<close>

definition sem_inv :: "kst \<Rightarrow> nat \<Rightarrow> nat list \<Rightarrow> bool" where
  "sem_inv s q ws \<longleftrightarrow> wait_ring s q ws \<and> 0 \<le> sem_value s q \<and> (ws \<noteq> [] \<longrightarrow> sem_value s q = 0) \<and>
     distinct (map (\<lambda>w. wait_proc (waits s w)) ws) \<and>
     (\<forall>w \<in> set ws. in_queue (waits s w) = q \<and> wakeup_flags (waits s w) = WT_INTERRUPTED \<and>
       state (procs s (wait_proc (waits s w))) = PROC_SLEEPING \<and>
       wait_state (procs s (wait_proc (waits s w))) = WT_KSEM)"

lemma wait_first: "wait_ring s q ws \<Longrightarrow> wait_queue_first q s = Some (case ws of [] \<Rightarrow> None | w # _ \<Rightarrow> Some w)"
  by (cases ws) (auto simp: wait_queue_first_def list_next_def dest!: dlist_nxt_head)

lemma not_list_empty_on: "dlist h hh xs \<Longrightarrow> x \<in> set xs \<Longrightarrow> \<not> list_empty x h"
proof -
  assume d: "dlist h hh xs" "x \<in> set xs"
  then obtain as bs where s: "xs = as @ x # bs" using split_list by metis
  then show "\<not> list_empty x h"
    using dlist_nxt [of h hh as x bs] dlist_distinct [OF d(1)] d(1)
    by (cases bs) (auto simp: list_empty_def)
qed

lemma up_without_waiter:
  assumes "sem_inv s q []"
  shows "up sc q s = Some (s\<lparr>sem_value := (sem_value s)(q := sem_value s q + 1)\<rparr>) \<and>
    sem_inv (s\<lparr>sem_value := (sem_value s)(q := sem_value s q + 1)\<rparr>) q []"
  using assms by (simp add: up_def up_ws_def sem_inv_def wait_first [of s q "[]", simplified])

lemma upd_wait_simps [simp]:
  "klinks (upd_wait w f s) = klinks s" "procs (upd_wait w f s) = procs s"
  "current (upd_wait w f s) = current s" "idleproc (upd_wait w f s) = idleproc s"
  "waits (upd_wait w f s) = (waits s)(w := f (waits s w))" "sem_value (upd_wait w f s) = sem_value s"
  "timers (upd_wait w f s) = timers s"
  by (simp_all add: upd_wait_def)

lemma rq_same_upd_wait: "rq_same s (upd_wait w f s)"
  by (simp add: rq_same_def upd_wait_def)

lemma wait_ring_del:
  assumes "wait_ring s q (w # ws)"
  shows "wait_ring (upd_links (list_del_init (WaitLink w)) s) q ws"
    "list_empty (WaitLink w) (klinks (upd_links (list_del_init (WaitLink w)) s))"
    "l \<notin> insert (WaitHead q) (range WaitLink) \<Longrightarrow>
      nxt (klinks (upd_links (list_del_init (WaitLink w)) s)) l = nxt (klinks s) l \<and>
      prv (klinks (upd_links (list_del_init (WaitLink w)) s)) l = prv (klinks s) l"
proof -
  have d: "dlist (klinks s) (WaitHead q) ([] @ WaitLink w # map WaitLink ws)" using assms by simp
  show "wait_ring (upd_links (list_del_init (WaitLink w)) s) q ws"
    using dlist_del_init [OF d] by simp
  show "list_empty (WaitLink w) (klinks (upd_links (list_del_init (WaitLink w)) s))"
    by (simp add: list_empty_def list_del_init_def list_init_def)
  have "prv (klinks s) (WaitLink w) = WaitHead q" "nxt (klinks s) (WaitLink w) \<in> insert (WaitHead q) (range WaitLink)"
    using dlist_prv [OF d] dlist_nxt [OF d] by (cases ws; simp)+
  then show "l \<notin> insert (WaitHead q) (range WaitLink) \<Longrightarrow>
      nxt (klinks (upd_links (list_del_init (WaitLink w)) s)) l = nxt (klinks s) l \<and>
      prv (klinks (upd_links (list_del_init (WaitLink w)) s)) l = prv (klinks s) l"
    by (auto simp: list_del_init_def list_init_def list_del_def raw_list_del_def)
qed

lemma wait_ring_add:
  assumes "wait_ring s q ws" "w \<notin> set ws"
  shows "wait_ring (upd_links (list_add_before (WaitHead q) (WaitLink w)) s) q (ws @ [w])"
    "l \<notin> insert (WaitHead q) (range WaitLink) \<Longrightarrow>
      nxt (klinks (upd_links (list_add_before (WaitHead q) (WaitLink w)) s)) l = nxt (klinks s) l \<and>
      prv (klinks (upd_links (list_add_before (WaitHead q) (WaitLink w)) s)) l = prv (klinks s) l"
proof -
  have "WaitLink w \<notin> set (WaitHead q # map WaitLink ws)" using assms(2) by auto
  from dlist_add_before_head [OF assms(1) this]
  show "wait_ring (upd_links (list_add_before (WaitHead q) (WaitLink w)) s) q (ws @ [w])" by simp
  have "prv (klinks s) (WaitHead q) \<in> set (WaitHead q # map WaitLink ws)"
    using dlist_prv_head [OF assms(1)] last_in_set [of "WaitHead q # map WaitLink ws"] by simp
  then have "prv (klinks s) (WaitHead q) \<in> insert (WaitHead q) (range WaitLink)" by auto
  then show "l \<notin> insert (WaitHead q) (range WaitLink) \<Longrightarrow>
      nxt (klinks (upd_links (list_add_before (WaitHead q) (WaitLink w)) s)) l = nxt (klinks s) l \<and>
      prv (klinks (upd_links (list_add_before (WaitHead q) (WaitLink w)) s)) l = prv (klinks s) l"
    by (auto simp: list_add_before_def raw_list_add_def)
qed

lemma run_not_wait: "run_link l \<Longrightarrow> l \<notin> insert (WaitHead q) (range WaitLink)"
  by (cases l) auto

lemma wait_ring_frame:
  "wait_ring s q ws \<Longrightarrow> \<forall>l. \<not> run_link l \<longrightarrow> nxt (klinks t) l = nxt (klinks s) l \<and> prv (klinks t) l = prv (klinks s) l \<Longrightarrow>
     wait_ring t q ws"
  by (rule iffD2 [OF dlist_frame [where h = "klinks s"]]) auto

context sched_policy
begin

lemma up_hands_over:
  assumes sem: "sem_inv s q (w # ws)" and inv: "sched_inv rq ready s"
    and idle: "wait_proc (waits s w) \<noteq> idleproc s"
  shows "\<exists>t. up sc q s = Some t \<and> sem_inv t q ws \<and> sem_value t q = 0 \<and> sched_inv rq ready t \<and>
    state (procs t (wait_proc (waits s w))) = PROC_RUNNABLE \<and> current t = current s \<and>
    (\<forall>p. p \<noteq> wait_proc (waits s w) \<longrightarrow> state (procs t p) = state (procs s p)) \<and>
    down_resume q w t = Some t"
proof -
  let ?p = "wait_proc (waits s w)"
  let ?s1 = "upd_links (list_del_init (WaitLink w)) s"
  let ?s2 = "upd_wait w (\<lambda>x. x\<lparr>wakeup_flags := WT_KSEM\<rparr>) ?s1"
  have r: "wait_ring s q (w # ws)" and p: "state (procs s ?p) = PROC_SLEEPING" "wait_state (procs s ?p) = WT_KSEM"
    and iq: "in_queue (waits s w) = q" and wws: "w \<notin> set ws"
    using sem by (auto simp: sem_inv_def)
  have "rq_same s ?s1" using wait_ring_del(3) [OF r] run_not_wait by (intro rq_same_upd_links) auto
  then have "rq_same s ?s2" unfolding rq_same_def upd_wait_def by simp
  then have inv2: "sched_inv rq ready ?s2" by (rule del_timer_inv [OF inv]) simp_all
  have rdy: "ready (procs ?s2 ?p)" using inv p idle by (simp add: sched_inv_def)
  have pid: "\<forall>x. x \<noteq> ?p \<longrightarrow> state (procs ?s2 x) \<noteq> PROC_UNINIT \<longrightarrow> pid (procs ?s2 x) \<noteq> pid (procs ?s2 ?p)"
  proof -
    have "inj_on (\<lambda>p. pid (procs s p)) {p. state (procs s p) \<noteq> PROC_UNINIT}" using inv by (simp add: sched_inv_def)
    then show ?thesis using p(1) by (auto dest: inj_onD)
  qed
  have z: "state (procs ?s2 ?p) \<noteq> PROC_ZOMBIE" using p by simp
  obtain t where t: "wakeup_proc sc ?p ?s2 = Some t" "sched_inv rq ready t" "state (procs t ?p) = PROC_RUNNABLE"
    "current t = current s" "waits t = waits ?s2" "sem_value t = sem_value s"
    "\<forall>x. x \<noteq> ?p \<longrightarrow> state (procs t x) = state (procs s x) \<and> wait_state (procs t x) = wait_state (procs s x)"
    "\<forall>l. \<not> run_link l \<longrightarrow> nxt (klinks t) l = nxt (klinks ?s2) l \<and> prv (klinks t) l = prv (klinks ?s2) l"
    using wakeup_ok [OF inv2 z rdy pid] by auto
  have up: "up sc q s = Some t"
    using t(1) r p(2) iq not_list_empty_on [OF r, of "WaitLink w"]
    by (simp add: up_def up_ws_def wait_first [OF r] wakeup_wait_def wait_queue_del_def)
  moreover have "wait_ring t q ws"
    by (rule wait_ring_frame [OF _ t(8)]) (use wait_ring_del(1) [OF r] in simp)
  have wx: "waits t x = waits s x" if "x \<in> set ws" for x using that wws t(5) by auto
  then have m: "map (\<lambda>x. wait_proc (waits t x)) ws = map (\<lambda>x. wait_proc (waits s x)) ws" by simp
  have "distinct (map (\<lambda>x. wait_proc (waits t x)) ws)"
    unfolding m using sem by (simp add: sem_inv_def)
  moreover have "wait_proc (waits s x) \<noteq> ?p" if "x \<in> set ws" for x
  proof -
    have "?p \<notin> (\<lambda>w. wait_proc (waits s w)) ` set ws" using sem by (simp add: sem_inv_def)
    then show ?thesis using that by (metis imageI)
  qed
  ultimately have "sem_inv t q ws"
    using sem wx t(6,7) \<open>wait_ring t q ws\<close> unfolding sem_inv_def by simp
  moreover have "list_empty (WaitLink w) (klinks t)"
    using t(8) wait_ring_del(2) [OF r] by (simp add: list_empty_def)
  then have "down_resume q w t = Some t"
    by (simp add: down_resume_def down_end_def wait_current_del_def wait_in_queue_def t(5))
  moreover have "sem_value t q = 0" using sem t(6) by (simp add: sem_inv_def)
  ultimately show ?thesis using up t(2-4,7) \<open>sem_inv t q ws\<close> by (intro exI [of _ t]) simp
qed

lemma down_blocks:
  assumes sem: "sem_inv s q ws" and zero: "sem_value s q = 0" and inv: "sched_inv rq ready s"
    and w: "w \<notin> set ws" and cur: "current s \<notin> (\<lambda>w. wait_proc (waits s w)) ` set ws" "current s \<noteq> idleproc s"
  shows "\<exists>t. down_begin sc q w WT_KSEM s = Some (True, t) \<and> sem_inv t q (ws @ [w]) \<and>
    wait_proc (waits t w) = current s \<and> sched_inv rq ready t \<and> current t \<noteq> current s \<and>
    state (procs t (current t)) = PROC_RUNNABLE"
proof -
  let ?c = "current s"
  let ?s1 = "wait_init w ?c s"
  let ?s2 = "upd_proc ?c (\<lambda>x. x\<lparr>state := PROC_SLEEPING, wait_state := WT_KSEM\<rparr>) ?s1"
  let ?s3 = "upd_links (list_add_before (WaitHead q) (WaitLink w)) (upd_wait w (\<lambda>x. x\<lparr>in_queue := q\<rparr>) ?s2)"
  have r: "wait_ring s q ws" using sem by (simp add: sem_inv_def)
  have r2: "wait_ring ?s2 q ws"
    using r w by (subst dlist_frame [where h = "klinks s"]) (auto simp: wait_init_def list_init_def)
  have set: "wait_current_set q w WT_KSEM s = Some ?s3"
    by (simp add: wait_current_set_def wait_queue_add_def wait_init_def list_empty_def list_init_def)
  have r3: "wait_ring ?s3 q (ws @ [w])" using wait_ring_add(1) [of "upd_wait w (\<lambda>x. x\<lparr>in_queue := q\<rparr>) ?s2"] r2 w by simp
  have links: "nxt (klinks ?s3) l = nxt (klinks s) l \<and> prv (klinks ?s3) l = prv (klinks s) l"
    if "l \<notin> insert (WaitHead q) (range WaitLink)" for l
  proof -
    have "nxt (klinks ?s2) l = nxt (klinks s) l \<and> prv (klinks ?s2) l = prv (klinks s) l"
      using that by (auto simp: wait_init_def list_init_def)
    then show ?thesis
      using wait_ring_add(2) [of "upd_wait w (\<lambda>x. x\<lparr>in_queue := q\<rparr>) ?s2" q ws w l] r2 w that by simp
  qed
  have rs: "rq_same s ?s3"
    using links run_not_wait by (simp add: rq_same_def wait_init_def upd_wait_def)
  have st: "state (procs s ?c) \<noteq> PROC_UNINIT" using inv by (simp add: sched_inv_def)
  have inv3: "sched_inv rq ready ?s3"
  proof -
    let ?Q = "\<lambda>s. {p. state (procs s p) = PROC_RUNNABLE \<and> p \<noteq> current s \<and> p \<noteq> idleproc s}"
    have "?Q ?s3 = ?Q s" by (auto simp: wait_init_def)
    moreover have "rq ?s3 (?Q s)" by (rule same [OF rs]) (use inv in \<open>simp add: sched_inv_def\<close>)
    moreover have "{p. state (procs ?s3 p) \<noteq> PROC_UNINIT} = {p. state (procs s p) \<noteq> PROC_UNINIT}"
      "\<And>p. pid (procs ?s3 p) = pid (procs s p)" "\<And>p. ready (procs ?s3 p) = ready (procs s p)"
      using st by (auto simp: wait_init_def ready_state)
    moreover have "current ?s3 = ?c" "idleproc ?s3 = idleproc s" by (simp_all add: wait_init_def)
    moreover have "state (procs ?s3 (idleproc s)) = PROC_RUNNABLE" "state (procs ?s3 ?c) \<noteq> PROC_UNINIT"
      using inv cur(2) by (simp_all add: sched_inv_def wait_init_def)
    moreover have "state (procs ?s3 p) \<noteq> PROC_UNINIT \<longleftrightarrow> state (procs s p) \<noteq> PROC_UNINIT" for p
      using st by (simp add: wait_init_def)
    ultimately show ?thesis using inv unfolding sched_inv_def by simp
  qed
  obtain t where t: "schedule sc ?s3 = Some t" "sched_inv rq ready t" "state (procs t (current t)) = PROC_RUNNABLE"
    "\<forall>p. state (procs t p) = state (procs ?s3 p)" "waits t = waits ?s3" "sem_value t = sem_value ?s3"
    "\<forall>p. wait_state (procs t p) = wait_state (procs ?s3 p)"
    "\<forall>l. \<not> run_link l \<longrightarrow> nxt (klinks t) l = nxt (klinks ?s3) l \<and> prv (klinks t) l = prv (klinks ?s3) l"
    using schedule_ok [OF inv3] by blast
  have "down_begin sc q w WT_KSEM s = Some (True, t)" using zero set t(1) by (simp add: down_begin_def)
  moreover have "wait_ring t q (ws @ [w])" by (rule wait_ring_frame [OF r3 t(8)])
  moreover have wt: "waits t x = (if x = w then \<lparr>wait_proc = ?c, wakeup_flags = WT_INTERRUPTED, in_queue = q\<rparr> else waits s x)" for x
    by (simp add: t(5) wait_init_def)
  moreover have "sem_value t = sem_value s" by (simp add: t(6) wait_init_def)
  moreover have pst: "state (procs t p) = (if p = ?c then PROC_SLEEPING else state (procs s p))"
    "wait_state (procs t p) = (if p = ?c then WT_KSEM else wait_state (procs s p))" for p
    by (simp_all add: t(4,7) wait_init_def)
  moreover have wx: "waits t x = waits s x" if "x \<in> set ws" for x using that w wt by auto
  then have m: "map (\<lambda>x. wait_proc (waits t x)) ws = map (\<lambda>x. wait_proc (waits s x)) ws"
    and i: "(\<lambda>x. wait_proc (waits t x)) ` set ws = (\<lambda>x. wait_proc (waits s x)) ` set ws" by auto
  have nc: "wait_proc (waits s x) \<noteq> ?c" if "x \<in> set ws" for x using that cur(1) by (metis imageI)
  have "distinct (map (\<lambda>x. wait_proc (waits t x)) (ws @ [w]))"
    using sem cur(1) wt [of w] unfolding map_append m by (simp add: sem_inv_def)
  moreover have "in_queue (waits t x) = q \<and> wakeup_flags (waits t x) = WT_INTERRUPTED \<and>
      state (procs t (wait_proc (waits t x))) = PROC_SLEEPING \<and>
      wait_state (procs t (wait_proc (waits t x))) = WT_KSEM" if x: "x \<in> set (ws @ [w])" for x
  proof (cases "x = w")
    case True
    then show ?thesis using wt [of w] pst by simp
  next
    case False
    then have "x \<in> set ws" using x by simp
    then show ?thesis using sem nc wx pst unfolding sem_inv_def by simp
  qed
  moreover have "sem_value t q = 0" using \<open>sem_value t = sem_value s\<close> zero by simp
  ultimately have "sem_inv t q (ws @ [w])"
    unfolding sem_inv_def using \<open>wait_ring t q (ws @ [w])\<close> by (intro conjI ballI impI) simp_all
  moreover have "current t \<noteq> ?c" using t(3) pst(1) by auto
  moreover have "wait_proc (waits t w) = ?c" using wt [of w] by simp
  ultimately show ?thesis using \<open>down_begin sc q w WT_KSEM s = Some (True, t)\<close> t(2,3)
    by (intro exI [of _ t]) simp
qed

end

subsection \<open>Semaphores with the stride scheduler\<close>

text \<open>\<open>up\<close> on a semaphore with waiters hands it to the first one: the value stays zero, exactly
  that waiter becomes runnable and leaves the queue, and when it resumes its \<open>down\<close> finishes
  without effect; the semaphore's and the scheduler's invariants hold again.\<close>

theorem semaphore_up_hands_over:
  assumes "sem_inv s q (w # ws)" "sched_inv stride_rq (\<lambda>x. lab6_priority x \<noteq> 0) s"
    and "wait_proc (waits s w) \<noteq> idleproc s"
  shows "\<exists>t. up stride_sched_class q s = Some t \<and> sem_inv t q ws \<and> sem_value t q = 0 \<and>
    sched_inv stride_rq (\<lambda>x. lab6_priority x \<noteq> 0) t \<and>
    state (procs t (wait_proc (waits s w))) = PROC_RUNNABLE \<and> current t = current s \<and>
    (\<forall>p. p \<noteq> wait_proc (waits s w) \<longrightarrow> state (procs t p) = state (procs s p)) \<and>
    down_resume q w t = Some t"
  by (rule stride.up_hands_over [OF assms])

text \<open>\<open>down\<close> on a semaphore of value zero puts the caller to sleep at the end of the queue and
  switches to another, runnable process; both invariants hold again.\<close>

theorem semaphore_down_blocks:
  assumes "sem_inv s q ws" "sem_value s q = 0" "sched_inv stride_rq (\<lambda>x. lab6_priority x \<noteq> 0) s"
    and "w \<notin> set ws" "current s \<notin> (\<lambda>w. wait_proc (waits s w)) ` set ws" "current s \<noteq> idleproc s"
  shows "\<exists>t. down_begin stride_sched_class q w WT_KSEM s = Some (True, t) \<and> sem_inv t q (ws @ [w]) \<and>
    wait_proc (waits t w) = current s \<and> sched_inv stride_rq (\<lambda>x. lab6_priority x \<noteq> 0) t \<and>
    current t \<noteq> current s \<and> state (procs t (current t)) = PROC_RUNNABLE"
  by (rule stride.down_blocks [OF assms])

definition ex_sem :: kst where
  "ex_sem = sem_init 3 0 ex_stride"

lemma ex_sem_sels:
  "procs ex_sem = procs ex_kst" "current ex_sem = 1" "idleproc ex_sem = 0" "sem_value ex_sem 3 = 0"
  by (simp_all add: ex_sem_def sem_init_def wait_queue_init_def ex_stride_def stride_init_def ex_kst_def)

lemma ex_sem_inv: "sem_inv ex_sem 3 []"
  by (simp add: sem_inv_def ex_sem_sels) (simp add: ex_sem_def sem_init_def wait_queue_init_def dlist_init)

lemma ex_sem_sched: "sched_inv stride_rq (\<lambda>x. lab6_priority x \<noteq> 0) ex_sem"
proof (rule stride.del_timer_inv [OF ex_stride_inv])
  show "rq_same ex_stride ex_sem"
    unfolding ex_sem_def sem_init_def wait_queue_init_def
    by (auto simp: rq_same_def list_init_def)
qed (simp_all add: ex_sem_sels ex_stride_sels)

theorem semaphore_down_blocks_witness:
  "\<exists>t. down_begin stride_sched_class 3 9 WT_KSEM ex_sem = Some (True, t) \<and> sem_inv t 3 [9] \<and> current t \<noteq> 1"
  using semaphore_down_blocks [OF ex_sem_inv _ ex_sem_sched, of 9] by (auto simp: ex_sem_sels)

theorem semaphore_up_hands_over_witness:
  "\<exists>t u. down_begin stride_sched_class 3 9 WT_KSEM ex_sem = Some (True, t) \<and>
     up stride_sched_class 3 t = Some u \<and> state (procs u 1) = PROC_RUNNABLE"
proof -
  from stride.down_blocks [OF ex_sem_inv _ ex_sem_sched, of 9] obtain t where
    t: "down_begin stride_sched_class 3 9 WT_KSEM ex_sem = Some (True, t)" "sem_inv t 3 [9]"
      "wait_proc (waits t 9) = 1" "sched_inv stride_rq (\<lambda>x. lab6_priority x \<noteq> 0) t"
    by (auto simp: ex_sem_sels)
  have "state (procs t 1) = PROC_SLEEPING" using t(2,3) by (simp add: sem_inv_def)
  moreover have "state (procs t (idleproc t)) = PROC_RUNNABLE" using t(4) by (simp add: sched_inv_def)
  ultimately have "wait_proc (waits t 9) \<noteq> idleproc t" using t(3) by auto
  from semaphore_up_hands_over [OF t(2,4) this] t(1,3) show ?thesis by auto
qed

end
