(* ===== verification/Philosophers.thy ===== *)
theory Philosophers
  imports Sync
begin

section \<open>The dining philosophers of check\_sync.c\<close>

text \<open>
  The five kernel threads of \<open>philosopher_using_semaphore\<close> as a step relation. A semaphore is
  its value and the queue of the threads that sleep on it; \<open>sem_up\<close> and \<open>sem_down\<close> are what
  \<open>up\<close> and \<open>down\<close> of \<open>sem.c\<close> do to that pair (\<open>up_hands_over\<close>, \<open>down_blocks\<close> in Sync): \<open>up\<close>
  hands the semaphore to the first sleeper without raising the value, which resumes after its
  \<open>down\<close>. Every statement of a thread is a step of its own and the threads interleave
  arbitrarily, which contains every schedule of the kernel. \<open>do_sleep\<close> only delays.
\<close>

subsection \<open>Semaphores as value and queue\<close>

record sema =
  val :: nat
  que :: "nat list"

definition sem_down :: "nat \<Rightarrow> sema \<Rightarrow> sema" where
  "sem_down i q = (if val q > 0 then q\<lparr>val := val q - 1\<rparr> else q\<lparr>que := que q @ [i]\<rparr>)"

definition sem_up :: "sema \<Rightarrow> sema" where
  "sem_up q = (case que q of [] \<Rightarrow> q\<lparr>val := val q + 1\<rparr> | _ # ws \<Rightarrow> q\<lparr>que := ws\<rparr>)"

subsection \<open>The threads\<close>

datatype phi_state = THINKING | HUNGRY | EATING

text \<open>
  Where a thread is: thinking; about to set its flag, test, leave the critical section and wait
  for its own semaphore in \<open>phi_take_forks_sema\<close>; eating; about to clear its flag, test its
  neighbours and leave in \<open>phi_put_forks_sema\<close>; finished. A thread that sleeps on a semaphore is
  where it resumes.
\<close>

datatype pc = Think | TakeHungry | TakeTest | TakeUp | TakeDown | Eat | PutThink | PutLeft
  | PutRight | PutUp | Quit

record phi =
  pcs :: "nat \<Rightarrow> pc"
  iter :: "nat \<Rightarrow> nat"
  state_sema :: "nat \<Rightarrow> phi_state"
  mutex :: sema
  ssem :: "nat \<Rightarrow> sema"

definition N :: nat where "N = 5"
definition TIMES :: nat where "TIMES = 4"

definition LEFT :: "nat \<Rightarrow> nat" where "LEFT i = (i + N - 1) mod N"
definition RIGHT :: "nat \<Rightarrow> nat" where "RIGHT i = (i + 1) mod N"

definition phi_test_sema :: "nat \<Rightarrow> phi \<Rightarrow> phi" where
  "phi_test_sema i s =
     (if state_sema s i = HUNGRY \<and> state_sema s (LEFT i) \<noteq> EATING \<and> state_sema s (RIGHT i) \<noteq> EATING
      then s\<lparr>state_sema := (state_sema s)(i := EATING), ssem := (ssem s)(i := sem_up (ssem s i))\<rparr>
      else s)"

definition goto :: "nat \<Rightarrow> pc \<Rightarrow> phi \<Rightarrow> phi" where
  "goto i c s = s\<lparr>pcs := (pcs s)(i := c)\<rparr>"

definition phi_take_forks_sema :: "nat \<Rightarrow> phi \<Rightarrow> phi" where
  "phi_take_forks_sema i s =
     (case pcs s i of
        TakeHungry \<Rightarrow> goto i TakeTest (s\<lparr>state_sema := (state_sema s)(i := HUNGRY)\<rparr>)
      | TakeTest \<Rightarrow> goto i TakeUp (phi_test_sema i s)
      | TakeUp \<Rightarrow> goto i TakeDown (s\<lparr>mutex := sem_up (mutex s)\<rparr>)
      | TakeDown \<Rightarrow> goto i Eat (s\<lparr>ssem := (ssem s)(i := sem_down i (ssem s i))\<rparr>)
      | _ \<Rightarrow> goto i TakeHungry (s\<lparr>mutex := sem_down i (mutex s)\<rparr>))"

definition philosopher_loop :: "nat \<Rightarrow> phi \<Rightarrow> phi" where
  "philosopher_loop i s =
     (if iter s i < TIMES then goto i Think (s\<lparr>iter := (iter s)(i := iter s i + 1)\<rparr>)
      else goto i Quit (s\<lparr>iter := (iter s)(i := iter s i + 1)\<rparr>))"

definition phi_put_forks_sema :: "nat \<Rightarrow> phi \<Rightarrow> phi" where
  "phi_put_forks_sema i s =
     (case pcs s i of
        PutThink \<Rightarrow> goto i PutLeft (s\<lparr>state_sema := (state_sema s)(i := THINKING)\<rparr>)
      | PutLeft \<Rightarrow> goto i PutRight (phi_test_sema (LEFT i) s)
      | PutRight \<Rightarrow> goto i PutUp (phi_test_sema (RIGHT i) s)
      | PutUp \<Rightarrow> philosopher_loop i (s\<lparr>mutex := sem_up (mutex s)\<rparr>)
      | _ \<Rightarrow> goto i PutThink (s\<lparr>mutex := sem_down i (mutex s)\<rparr>))"

definition philosopher_using_semaphore :: "nat \<Rightarrow> phi \<Rightarrow> phi" where
  "philosopher_using_semaphore i s =
     (if pcs s i \<in> {Think, TakeHungry, TakeTest, TakeUp, TakeDown} then phi_take_forks_sema i s
      else phi_put_forks_sema i s)"

definition asleep :: "phi \<Rightarrow> nat \<Rightarrow> bool" where
  "asleep s i \<longleftrightarrow> i \<in> set (que (mutex s)) \<or> i \<in> set (que (ssem s i))"

inductive phi_step :: "phi \<Rightarrow> phi \<Rightarrow> bool" where
  "i < N \<Longrightarrow> \<not> asleep s i \<Longrightarrow> pcs s i \<noteq> Quit \<Longrightarrow> phi_step s (philosopher_using_semaphore i s)"

text \<open>\<open>check_sync\<close>: the semaphores as initialised, every thread at its first iteration.\<close>

definition phi_init :: phi where
  "phi_init = \<lparr>pcs = (\<lambda>_. Think), iter = (\<lambda>_. 1), state_sema = (\<lambda>_. THINKING),
     mutex = \<lparr>val = 1, que = []\<rparr>, ssem = (\<lambda>_. \<lparr>val = 0, que = []\<rparr>)\<rparr>"

inductive phi_reachable :: "phi \<Rightarrow> bool" where
  init: "phi_reachable phi_init"
| step: "phi_reachable s \<Longrightarrow> phi_step s t \<Longrightarrow> phi_reachable t"

subsection \<open>The invariant\<close>

definition crit_pc :: "pc \<Rightarrow> bool" where
  "crit_pc c \<longleftrightarrow> c \<in> {TakeHungry, TakeTest, TakeUp, PutThink, PutLeft, PutRight, PutUp}"

text \<open>
  The mutex: either exactly one thread is in the critical section and the value is zero, or
  none is and the value is one with nobody waiting.
\<close>

definition mutex_ok :: "(nat \<Rightarrow> pc) \<Rightarrow> sema \<Rightarrow> bool" where
  "mutex_ok P q \<longleftrightarrow> distinct (que q) \<and> set (que q) \<subseteq> {..<N} \<and>
     (\<forall>i \<in> set (que q). P i = TakeHungry \<or> P i = PutThink) \<and>
     ((\<exists>h < N. h \<notin> set (que q) \<and> crit_pc (P h) \<and> val q = 0 \<and>
         (\<forall>j < N. j \<notin> set (que q) \<longrightarrow> crit_pc (P j) \<longrightarrow> j = h)) \<or>
      (\<forall>j < N. \<not> crit_pc (P j)) \<and> que q = [] \<and> val q = 1)"

text \<open>What a thread's place says of its flag, its semaphore and the queues.\<close>

fun local_ok :: "pc \<Rightarrow> bool \<Rightarrow> phi_state \<Rightarrow> nat \<Rightarrow> bool \<Rightarrow> bool" where
  "local_ok Think mq st v sq \<longleftrightarrow> \<not> mq \<and> st = THINKING \<and> v = 0 \<and> \<not> sq"
| "local_ok TakeHungry mq st v sq \<longleftrightarrow> st = THINKING \<and> v = 0 \<and> \<not> sq"
| "local_ok TakeTest mq st v sq \<longleftrightarrow> \<not> mq \<and> st = HUNGRY \<and> v = 0 \<and> \<not> sq"
| "local_ok TakeUp mq st v sq \<longleftrightarrow> \<not> mq \<and> (st = HUNGRY \<and> v = 0 \<or> st = EATING \<and> v = 1) \<and> \<not> sq"
| "local_ok TakeDown mq st v sq \<longleftrightarrow> \<not> mq \<and> (st = HUNGRY \<and> v = 0 \<or> st = EATING \<and> v = 1) \<and> \<not> sq"
| "local_ok Eat mq st v sq \<longleftrightarrow> \<not> mq \<and> v = 0 \<and> st = (if sq then HUNGRY else EATING)"
| "local_ok PutThink mq st v sq \<longleftrightarrow> st = EATING \<and> v = 0 \<and> \<not> sq"
| "local_ok PutLeft mq st v sq \<longleftrightarrow> \<not> mq \<and> st = THINKING \<and> v = 0 \<and> \<not> sq"
| "local_ok PutRight mq st v sq \<longleftrightarrow> \<not> mq \<and> st = THINKING \<and> v = 0 \<and> \<not> sq"
| "local_ok PutUp mq st v sq \<longleftrightarrow> \<not> mq \<and> st = THINKING \<and> v = 0 \<and> \<not> sq"
| "local_ok Quit mq st v sq \<longleftrightarrow> \<not> mq \<and> st = THINKING \<and> v = 0 \<and> \<not> sq"

text \<open>A hungry thread past its own test has an eating neighbour or is about to be tested.\<close>

definition covered :: "phi \<Rightarrow> nat \<Rightarrow> bool" where
  "covered s i \<longleftrightarrow> state_sema s (LEFT i) = EATING \<or> state_sema s (RIGHT i) = EATING \<or>
     (\<exists>j < N. pcs s j = PutLeft \<and> (i = LEFT j \<or> i = RIGHT j) \<or> pcs s j = PutRight \<and> i = RIGHT j)"

definition phi_inv :: "phi \<Rightarrow> bool" where
  "phi_inv s \<longleftrightarrow>
     (\<forall>i < N. local_ok (pcs s i) (i \<in> set (que (mutex s))) (state_sema s i) (val (ssem s i)) (i \<in> set (que (ssem s i)))) \<and>
     (\<forall>i < N. que (ssem s i) \<in> {[], [i]}) \<and> mutex_ok (pcs s) (mutex s) \<and>
     (\<forall>i < N. \<not> (state_sema s i = EATING \<and> state_sema s (RIGHT i) = EATING)) \<and>
     (\<forall>i < N. state_sema s i = HUNGRY \<longrightarrow> pcs s i \<noteq> TakeTest \<longrightarrow> covered s i)"

lemma LEFT_RIGHT: "i < N \<Longrightarrow> LEFT (RIGHT i) = i \<and> RIGHT (LEFT i) = i \<and> LEFT i < N \<and> RIGHT i < N \<and>
    LEFT i \<noteq> i \<and> RIGHT i \<noteq> i \<and> LEFT i \<noteq> RIGHT i"
proof -
  assume "i < N"
  then have "i = 0 \<or> i = 1 \<or> i = 2 \<or> i = 3 \<or> i = 4" by (auto simp: N_def)
  then show ?thesis by (elim disjE) (simp_all add: LEFT_def RIGHT_def N_def)
qed

lemma LEFT_eq: "i < N \<Longrightarrow> j < N \<Longrightarrow> LEFT i = j \<longleftrightarrow> i = RIGHT j"
  using LEFT_RIGHT by metis

lemma mutex_held:
  assumes "mutex_ok P q" "i < N" "i \<notin> set (que q)" "crit_pc (P i)"
  shows "val q = 0" "j < N \<Longrightarrow> j \<notin> set (que q) \<Longrightarrow> crit_pc (P j) \<Longrightarrow> j = i"
  using assms unfolding mutex_ok_def by metis+

lemma mutex_cases:
  assumes "mutex_ok P q"
  obtains h where "h < N" "h \<notin> set (que q)" "crit_pc (P h)" "val q = 0"
  | "\<And>j. j < N \<Longrightarrow> \<not> crit_pc (P j)" "que q = []" "val q = 1"
  using assms unfolding mutex_ok_def by blast

lemma mutex_basic:
  assumes "mutex_ok P q"
  shows "distinct (que q)" "w \<in> set (que q) \<Longrightarrow> w < N" "w \<in> set (que q) \<Longrightarrow> P w = TakeHungry \<or> P w = PutThink"
  using assms unfolding mutex_ok_def by (blast, auto)

lemma mutex_heldI:
  assumes "distinct (que q)" "\<And>w. w \<in> set (que q) \<Longrightarrow> w < N"
    "\<And>w. w \<in> set (que q) \<Longrightarrow> P w = TakeHungry \<or> P w = PutThink"
    "h < N" "h \<notin> set (que q)" "crit_pc (P h)" "val q = 0"
    "\<And>j. j < N \<Longrightarrow> j \<notin> set (que q) \<Longrightarrow> crit_pc (P j) \<Longrightarrow> j = h"
  shows "mutex_ok P q"
  unfolding mutex_ok_def using assms by blast

lemma mutex_freeI:
  "(\<And>j. j < N \<Longrightarrow> \<not> crit_pc (P j)) \<Longrightarrow> que q = [] \<Longrightarrow> val q = 1 \<Longrightarrow> mutex_ok P q"
  unfolding mutex_ok_def by simp

lemma waiting_crit: "P w = TakeHungry \<or> P w = PutThink \<Longrightarrow> crit_pc (P w)"
  by (auto simp: crit_pc_def)

lemma mutex_down:
  assumes ok: "mutex_ok P q" and i: "i < N" "\<not> crit_pc (P i)" and c: "c = TakeHungry \<or> c = PutThink"
  shows "mutex_ok (P(i := c)) (sem_down i q)"
proof -
  have ci: "crit_pc c" "i \<notin> set (que q)" using c i(2) mutex_basic(3) [OF ok] by (auto simp: crit_pc_def)
  from ok show ?thesis
  proof (cases rule: mutex_cases)
    case (1 h)
    then have hi: "h \<noteq> i" using i by auto
    have e: "sem_down i q = q\<lparr>que := que q @ [i]\<rparr>" using 1 by (simp add: sem_down_def)
    show ?thesis unfolding e
    proof (rule mutex_heldI [of _ _ h])
      fix j assume "j < N" "j \<notin> set (que (q\<lparr>que := que q @ [i]\<rparr>))" "crit_pc ((P(i := c)) j)"
      then have "j < N" "j \<notin> set (que q)" "crit_pc (P j)" by auto
      then show "j = h" by (rule mutex_held(2) [OF ok 1(1-3)])
    next
      fix w assume "w \<in> set (que (q\<lparr>que := que q @ [i]\<rparr>))"
      then have "w = i \<or> w \<in> set (que q)" by auto
      then show "w < N" "(P(i := c)) w = TakeHungry \<or> (P(i := c)) w = PutThink"
        using mutex_basic(2,3) [OF ok, of w] i(1) c by auto
    qed (use 1 ci hi mutex_basic(1) [OF ok] in simp_all)
  next
    case 2
    then show ?thesis using i ci by (intro mutex_heldI [of _ _ i]) (auto simp: sem_down_def split: if_splits)
  qed
qed

lemma mutex_in:
  assumes ok: "mutex_ok P q" and i: "i < N" "i \<notin> set (que q)" "crit_pc (P i)" and c: "crit_pc c"
  shows "mutex_ok (P(i := c)) q"
proof (rule mutex_heldI [of _ _ i])
  fix j assume "j < N" "j \<notin> set (que q)" "crit_pc ((P(i := c)) j)"
  then show "j = i" using mutex_held(2) [OF ok i, of j] by (metis fun_upd_apply)
next
  fix w assume "w \<in> set (que q)"
  then show "w < N" "(P(i := c)) w = TakeHungry \<or> (P(i := c)) w = PutThink"
    using mutex_basic(2,3) [OF ok, of w] i(2) by auto
qed (use i c mutex_basic(1) [OF ok] mutex_held(1) [OF ok i] in simp_all)

lemma mutex_out:
  assumes ok: "mutex_ok P q" and i: "i < N" "\<not> crit_pc (P i)" "\<not> crit_pc c"
  shows "mutex_ok (P(i := c)) q"
proof -
  have iq: "i \<notin> set (que q)" using i(2) mutex_basic(3) [OF ok] by (auto simp: crit_pc_def)
  from ok show ?thesis
  proof (cases rule: mutex_cases)
    case (1 h)
    then have hi: "h \<noteq> i" using i by auto
    show ?thesis
    proof (rule mutex_heldI [of _ _ h])
      fix j assume "j < N" "j \<notin> set (que q)" "crit_pc ((P(i := c)) j)"
      then show "j = h" using mutex_held(2) [OF ok 1(1-3), of j] i(3) by (metis fun_upd_apply)
    qed (use 1 hi iq mutex_basic [OF ok] in auto)
  next
    case 2
    then show ?thesis using i by (intro mutex_freeI) auto
  qed
qed

lemma mutex_up:
  assumes ok: "mutex_ok P q" and i: "i < N" "i \<notin> set (que q)" "crit_pc (P i)" and c: "\<not> crit_pc c"
  shows "mutex_ok (P(i := c)) (sem_up q)"
proof (cases "que q")
  case Nil
  then show ?thesis using mutex_held [OF ok i] c by (intro mutex_freeI) (auto simp: sem_up_def)
next
  case (Cons w ws)
  have w: "w < N" "w \<notin> set ws" "w \<noteq> i" "P w = TakeHungry \<or> P w = PutThink"
    using mutex_basic [OF ok] i(2) Cons by auto
  have e: "sem_up q = q\<lparr>que := ws\<rparr>" using Cons by (simp add: sem_up_def)
  show ?thesis unfolding e
  proof (rule mutex_heldI [of _ _ w])
    show "crit_pc ((P(i := c)) w)" using w waiting_crit by simp
    fix j assume "j < N" "j \<notin> set (que (q\<lparr>que := ws\<rparr>))" "crit_pc ((P(i := c)) j)"
    then show "j = w" using mutex_held(2) [OF ok i, of j] c Cons by (auto split: if_splits)
  next
    fix x assume "x \<in> set (que (q\<lparr>que := ws\<rparr>))"
    then have "x \<in> set (que q)" using Cons by simp
    then show "x < N" "(P(i := c)) x = TakeHungry \<or> (P(i := c)) x = PutThink"
      using mutex_basic(2,3) [OF ok, of x] i(2) by auto
  qed (use w mutex_basic(1) [OF ok] mutex_held(1) [OF ok i] Cons in auto)
qed

lemma phi_init_inv: "phi_inv phi_init"
  by (auto simp: phi_inv_def phi_init_def mutex_ok_def crit_pc_def)

lemma phi_invD:
  assumes "phi_inv s" "i < N"
  shows "local_ok (pcs s i) (i \<in> set (que (mutex s))) (state_sema s i) (val (ssem s i)) (i \<in> set (que (ssem s i)))"
    "que (ssem s i) = [] \<or> que (ssem s i) = [i]" "mutex_ok (pcs s) (mutex s)"
    "\<not> (state_sema s i = EATING \<and> state_sema s (RIGHT i) = EATING)"
    "state_sema s i = HUNGRY \<Longrightarrow> pcs s i \<noteq> TakeTest \<Longrightarrow> covered s i"
  using assms unfolding phi_inv_def by auto

lemma phi_invI:
  assumes "\<And>i. i < N \<Longrightarrow> local_ok (pcs s i) (i \<in> set (que (mutex s))) (state_sema s i) (val (ssem s i)) (i \<in> set (que (ssem s i)))"
    "\<And>i. i < N \<Longrightarrow> que (ssem s i) = [] \<or> que (ssem s i) = [i]" "mutex_ok (pcs s) (mutex s)"
    "\<And>i. i < N \<Longrightarrow> state_sema s i = EATING \<Longrightarrow> state_sema s (RIGHT i) \<noteq> EATING"
    "\<And>i. i < N \<Longrightarrow> state_sema s i = HUNGRY \<Longrightarrow> pcs s i \<noteq> TakeTest \<Longrightarrow> covered s i"
  shows "phi_inv s"
  using assms unfolding phi_inv_def by auto

text \<open>A step that changes neither flags nor tests pending keeps \<open>covered\<close>.\<close>

lemma covered_mono:
  assumes "covered s i" "state_sema t = state_sema s"
    "\<And>j. j < N \<Longrightarrow> pcs s j = PutLeft \<or> pcs s j = PutRight \<Longrightarrow> pcs t j = pcs s j"
  shows "covered t i"
  using assms unfolding covered_def by metis

lemma set_que_sem_down: "set (que (sem_down i q)) = (if val q > 0 then set (que q) else insert i (set (que q)))"
  by (simp add: sem_down_def)

lemma step_enter:
  assumes inv: "phi_inv s" and i: "i < N" and c: "pcs s i = Think \<and> c = TakeHungry \<or> pcs s i = Eat \<and> c = PutThink"
    and a: "\<not> asleep s i"
  shows "phi_inv (goto i c (s\<lparr>mutex := sem_down i (mutex s)\<rparr>))" (is "phi_inv ?t")
proof (rule phi_invI)
  have "\<not> crit_pc (pcs s i)" using c by (auto simp: crit_pc_def)
  then show "mutex_ok (pcs ?t) (mutex ?t)"
    using mutex_down [OF phi_invD(3) [OF inv i] i] c by (auto simp: goto_def)
  fix j assume j: "j < N"
  show "que (ssem ?t j) = [] \<or> que (ssem ?t j) = [j]" using phi_invD(2) [OF inv j] by (simp add: goto_def)
  show "state_sema ?t j = EATING \<Longrightarrow> state_sema ?t (RIGHT j) \<noteq> EATING"
    using phi_invD(4) [OF inv j] by (simp add: goto_def)
  show "local_ok (pcs ?t j) (j \<in> set (que (mutex ?t))) (state_sema ?t j) (val (ssem ?t j)) (j \<in> set (que (ssem ?t j)))"
    using phi_invD(1) [OF inv j] c a by (cases "j = i") (auto simp: goto_def set_que_sem_down asleep_def)
  assume "state_sema ?t j = HUNGRY" "pcs ?t j \<noteq> TakeTest"
  then have "covered s j" using phi_invD(5) [OF inv j] c by (auto simp: goto_def split: if_splits)
  then show "covered ?t j" by (rule covered_mono) (use c in \<open>auto simp: goto_def\<close>)
qed

lemma covered_cong:
  assumes "covered s i" "i < N" "\<And>j. j < N \<Longrightarrow> state_sema s j = EATING \<Longrightarrow> state_sema t j = EATING"
    "\<And>j. j < N \<Longrightarrow> pcs s j = PutLeft \<or> pcs s j = PutRight \<Longrightarrow> pcs t j = pcs s j"
  shows "covered t i"
  using assms LEFT_RIGHT [OF assms(2)] unfolding covered_def by metis

lemma step_hungry:
  assumes inv: "phi_inv s" and i: "i < N" and c: "pcs s i = TakeHungry" and a: "\<not> asleep s i"
  shows "phi_inv (goto i TakeTest (s\<lparr>state_sema := (state_sema s)(i := HUNGRY)\<rparr>))" (is "phi_inv ?t")
proof (rule phi_invI)
  have crit: "crit_pc (pcs s i)" "i \<notin> set (que (mutex s))" using c a by (auto simp: crit_pc_def asleep_def)
  show "mutex_ok (pcs ?t) (mutex ?t)"
    using mutex_in [OF phi_invD(3) [OF inv i] i crit(2,1), of TakeTest] by (simp add: goto_def crit_pc_def)
  fix j assume j: "j < N"
  show "que (ssem ?t j) = [] \<or> que (ssem ?t j) = [j]" using phi_invD(2) [OF inv j] by (simp add: goto_def)
  show "state_sema ?t j = EATING \<Longrightarrow> state_sema ?t (RIGHT j) \<noteq> EATING"
    using phi_invD(4) [OF inv j] by (simp add: goto_def split: if_splits)
  show "local_ok (pcs ?t j) (j \<in> set (que (mutex ?t))) (state_sema ?t j) (val (ssem ?t j)) (j \<in> set (que (ssem ?t j)))"
    using phi_invD(1) [OF inv j] c a by (cases "j = i") (auto simp: goto_def asleep_def)
  assume h: "state_sema ?t j = HUNGRY" "pcs ?t j \<noteq> TakeTest"
  then have "covered s j" using phi_invD(5) [OF inv j] by (auto simp: goto_def split: if_splits)
  then show "covered ?t j"
    by (rule covered_cong) (use j c phi_invD(1) [OF inv i] in \<open>auto simp: goto_def\<close>)
qed

lemma step_leave:
  assumes inv: "phi_inv s" and i: "i < N" and a: "\<not> asleep s i"
    and c: "pcs s i = TakeUp \<and> c = TakeDown \<or> pcs s i = PutUp \<and> (c = Think \<or> c = Quit)"
    and t: "t = goto i c (s\<lparr>mutex := sem_up (mutex s), iter := it\<rparr>)"
  shows "phi_inv t"
proof (rule phi_invI)
  have crit: "crit_pc (pcs s i)" "i \<notin> set (que (mutex s))" "\<not> crit_pc c"
    using c a by (auto simp: crit_pc_def asleep_def)
  show "mutex_ok (pcs t) (mutex t)"
    using mutex_up [OF phi_invD(3) [OF inv i] i crit(2,1,3)] by (simp add: goto_def t)
  fix j assume j: "j < N"
  show "que (ssem t j) = [] \<or> que (ssem t j) = [j]" using phi_invD(2) [OF inv j] by (simp add: goto_def t)
  show "state_sema t j = EATING \<Longrightarrow> state_sema t (RIGHT j) \<noteq> EATING"
    using phi_invD(4) [OF inv j] by (simp add: goto_def t)
  have q: "j \<in> set (que (mutex t)) \<Longrightarrow> j \<in> set (que (mutex s))"
    by (auto simp: t goto_def sem_up_def split: list.splits)
  show "local_ok (pcs t j) (j \<in> set (que (mutex t))) (state_sema t j) (val (ssem t j)) (j \<in> set (que (ssem t j)))"
  proof (cases "j = i")
    case True
    then show ?thesis using phi_invD(1) [OF inv i] c q crit(2) by (auto simp: goto_def t)
  next
    case False
    then have "local_ok (pcs t j) (j \<in> set (que (mutex s))) (state_sema t j) (val (ssem t j)) (j \<in> set (que (ssem t j)))"
      using phi_invD(1) [OF inv j] by (simp add: goto_def t)
    then show ?thesis using q by (cases "pcs t j") auto
  qed
  assume h: "state_sema t j = HUNGRY" "pcs t j \<noteq> TakeTest"
  then have "covered s j" using phi_invD(5) [OF inv j] c by (auto simp: goto_def t split: if_splits)
  then show "covered t j" by (rule covered_mono) (use c in \<open>auto simp: goto_def t\<close>)
qed

lemma step_wait:
  assumes inv: "phi_inv s" and i: "i < N" and c: "pcs s i = TakeDown" and a: "\<not> asleep s i"
  shows "phi_inv (goto i Eat (s\<lparr>ssem := (ssem s)(i := sem_down i (ssem s i))\<rparr>))" (is "phi_inv ?t")
proof (rule phi_invI)
  have q: "que (ssem s i) = []" using phi_invD(2) [OF inv i] a by (auto simp: asleep_def)
  show "mutex_ok (pcs ?t) (mutex ?t)"
    using mutex_out [OF phi_invD(3) [OF inv i] i, of Eat] c by (simp add: goto_def crit_pc_def)
  fix j assume j: "j < N"
  show "que (ssem ?t j) = [] \<or> que (ssem ?t j) = [j]"
    using phi_invD(2) [OF inv j] q by (simp add: goto_def sem_down_def)
  show "state_sema ?t j = EATING \<Longrightarrow> state_sema ?t (RIGHT j) \<noteq> EATING"
    using phi_invD(4) [OF inv j] by (simp add: goto_def)
  show "local_ok (pcs ?t j) (j \<in> set (que (mutex ?t))) (state_sema ?t j) (val (ssem ?t j)) (j \<in> set (que (ssem ?t j)))"
    using phi_invD(1) [OF inv j] c q by (cases "j = i") (auto simp: goto_def sem_down_def)
  assume "state_sema ?t j = HUNGRY" "pcs ?t j \<noteq> TakeTest"
  then have "covered s j" using phi_invD(5) [OF inv j] c by (auto simp: goto_def split: if_splits)
  then show "covered ?t j" by (rule covered_mono) (use c in \<open>auto simp: goto_def\<close>)
qed

lemma step_think:
  assumes inv: "phi_inv s" and i: "i < N" and c: "pcs s i = PutThink" and a: "\<not> asleep s i"
  shows "phi_inv (goto i PutLeft (s\<lparr>state_sema := (state_sema s)(i := THINKING)\<rparr>))" (is "phi_inv ?t")
proof (rule phi_invI)
  have crit: "crit_pc (pcs s i)" "i \<notin> set (que (mutex s))" using c a by (auto simp: crit_pc_def asleep_def)
  show "mutex_ok (pcs ?t) (mutex ?t)"
    using mutex_in [OF phi_invD(3) [OF inv i] i crit(2,1), of PutLeft] by (simp add: goto_def crit_pc_def)
  fix j assume j: "j < N"
  show "que (ssem ?t j) = [] \<or> que (ssem ?t j) = [j]" using phi_invD(2) [OF inv j] by (simp add: goto_def)
  show "state_sema ?t j = EATING \<Longrightarrow> state_sema ?t (RIGHT j) \<noteq> EATING"
    using phi_invD(4) [OF inv j] by (simp add: goto_def split: if_splits)
  show "local_ok (pcs ?t j) (j \<in> set (que (mutex ?t))) (state_sema ?t j) (val (ssem ?t j)) (j \<in> set (que (ssem ?t j)))"
    using phi_invD(1) [OF inv j] c a by (cases "j = i") (auto simp: goto_def asleep_def)
  assume h: "state_sema ?t j = HUNGRY" "pcs ?t j \<noteq> TakeTest"
  then have ji: "j \<noteq> i" by (auto simp: goto_def)
  with h have cov: "covered s j" using phi_invD(5) [OF inv j] by (auto simp: goto_def)
  show "covered ?t j"
  proof (cases "LEFT j = i \<or> RIGHT j = i")
    case True
    then have "j = RIGHT i \<or> j = LEFT i" using LEFT_RIGHT [OF j] by auto
    then show ?thesis using i by (auto simp: covered_def goto_def)
  next
    case False
    then have "state_sema ?t (LEFT j) = state_sema s (LEFT j)" "state_sema ?t (RIGHT j) = state_sema s (RIGHT j)"
      by (simp_all add: goto_def)
    moreover have "pcs ?t k = pcs s k" if "pcs s k = PutLeft \<or> pcs s k = PutRight" for k
      using that c by (auto simp: goto_def)
    ultimately show ?thesis using cov unfolding covered_def by metis
  qed
qed

text \<open>The three calls of \<open>phi_test_sema\<close>: by the thread on itself and on its neighbours.\<close>

lemma test_frame: "pcs (phi_test_sema k s) = pcs s" "mutex (phi_test_sema k s) = mutex s"
  by (simp_all add: phi_test_sema_def)

lemma test_eating:
  assumes "state_sema s j = EATING" shows "state_sema (phi_test_sema k s) j = EATING"
  using assms by (simp add: phi_test_sema_def)

lemma test_excludes:
  assumes inv: "phi_inv s" and k: "k < N" and j: "j < N" and e: "state_sema (phi_test_sema k s) j = EATING"
  shows "state_sema (phi_test_sema k s) (RIGHT j) \<noteq> EATING"
proof -
  have "j = k \<Longrightarrow> RIGHT j \<noteq> k" "RIGHT j = k \<Longrightarrow> LEFT k = j" using LEFT_RIGHT [OF j] by auto
  then show ?thesis
    using phi_invD(4) [OF inv j] e by (auto simp: phi_test_sema_def split: if_splits)
qed

lemma test_covers:
  assumes k: "k < N" and h: "state_sema (phi_test_sema k s) k = HUNGRY"
  shows "covered (phi_test_sema k s) k"
proof -
  have "\<not> (state_sema s k = HUNGRY \<and> state_sema s (LEFT k) \<noteq> EATING \<and> state_sema s (RIGHT k) \<noteq> EATING)"
  proof
    assume "state_sema s k = HUNGRY \<and> state_sema s (LEFT k) \<noteq> EATING \<and> state_sema s (RIGHT k) \<noteq> EATING"
    then show False using h by (simp add: phi_test_sema_def)
  qed
  moreover have "state_sema s k = HUNGRY"
    using h unfolding phi_test_sema_def by (auto split: if_splits)
  ultimately show ?thesis by (auto simp: covered_def phi_test_sema_def)
qed

lemma step_test_self:
  assumes inv: "phi_inv s" and i: "i < N" and c: "pcs s i = TakeTest" and a: "\<not> asleep s i"
  shows "phi_inv (goto i TakeUp (phi_test_sema i s))" (is "phi_inv ?t")
proof (rule phi_invI)
  let ?u = "phi_test_sema i s"
  have crit: "crit_pc (pcs s i)" "i \<notin> set (que (mutex s))" using c a by (auto simp: crit_pc_def asleep_def)
  show "mutex_ok (pcs ?t) (mutex ?t)"
    using mutex_in [OF phi_invD(3) [OF inv i] i crit(2,1), of TakeUp]
    by (simp add: goto_def crit_pc_def test_frame)
  have q: "que (ssem s i) = []" "val (ssem s i) = 0" "state_sema s i = HUNGRY"
    using phi_invD(1,2) [OF inv i] a c by (auto simp: asleep_def)
  fix j assume j: "j < N"
  show "que (ssem ?t j) = [] \<or> que (ssem ?t j) = [j]"
    using phi_invD(2) [OF inv j] q by (simp add: goto_def phi_test_sema_def sem_up_def)
  show "state_sema ?t j = EATING \<Longrightarrow> state_sema ?t (RIGHT j) \<noteq> EATING"
    using test_excludes [OF inv i j] by (simp add: goto_def)
  show "local_ok (pcs ?t j) (j \<in> set (que (mutex ?t))) (state_sema ?t j) (val (ssem ?t j)) (j \<in> set (que (ssem ?t j)))"
  proof (cases "j = i")
    case True
    then show ?thesis using q crit(2) by (simp add: goto_def phi_test_sema_def sem_up_def)
  next
    case False
    then show ?thesis using phi_invD(1) [OF inv j] by (simp add: goto_def phi_test_sema_def)
  qed
  assume h: "state_sema ?t j = HUNGRY" "pcs ?t j \<noteq> TakeTest"
  have "covered ?u j"
  proof (cases "j = i")
    case True
    then show ?thesis using test_covers [OF i] h(1) by (simp add: goto_def)
  next
    case False
    then have "covered s j"
      using phi_invD(5) [OF inv j] h by (auto simp: goto_def phi_test_sema_def split: if_splits)
    then show ?thesis by (rule covered_cong) (use j in \<open>auto simp: test_frame test_eating\<close>)
  qed
  then show "covered ?t j" by (rule covered_cong) (use j c in \<open>auto simp: goto_def test_frame\<close>)
qed

text \<open>A hungry thread other than the one in the critical section waits for its semaphore.\<close>

lemma hungry_waits:
  assumes inv: "phi_inv s" and i: "i < N" "i \<notin> set (que (mutex s))" "crit_pc (pcs s i)"
    and k: "k < N" "k \<noteq> i" "state_sema s k = HUNGRY"
  shows "k \<notin> set (que (mutex s)) \<and> val (ssem s k) = 0 \<and>
    (pcs s k = TakeDown \<and> que (ssem s k) = [] \<or> pcs s k = Eat \<and> que (ssem s k) = [k])"
proof -
  note l = phi_invD(1,2) [OF inv k(1)]
  have "k \<notin> set (que (mutex s)) \<Longrightarrow> crit_pc (pcs s k) \<Longrightarrow> k = i"
    by (rule mutex_held(2) [OF phi_invD(3) [OF inv k(1)] i k(1)])
  then show ?thesis using l k(2,3) by (cases "pcs s k") (auto simp: crit_pc_def)
qed

lemma step_test_other:
  assumes inv: "phi_inv s" and i: "i < N" and a: "\<not> asleep s i"
    and c: "pcs s i = PutLeft \<and> k = LEFT i \<and> c = PutRight \<or> pcs s i = PutRight \<and> k = RIGHT i \<and> c = PutUp"
  shows "phi_inv (goto i c (phi_test_sema k s))" (is "phi_inv ?t")
proof (rule phi_invI)
  let ?u = "phi_test_sema k s"
  have crit: "crit_pc (pcs s i)" "i \<notin> set (que (mutex s))" "crit_pc c" using c a by (auto simp: crit_pc_def asleep_def)
  have k: "k < N" "k \<noteq> i" using c LEFT_RIGHT [OF i] by auto
  show "mutex_ok (pcs ?t) (mutex ?t)"
    using mutex_in [OF phi_invD(3) [OF inv i] i crit(2,1,3)] by (simp add: goto_def test_frame)
  note w = hungry_waits [OF inv i crit(2,1) k]
  fix j assume j: "j < N"
  show "que (ssem ?t j) = [] \<or> que (ssem ?t j) = [j]"
    using phi_invD(2) [OF inv j] w by (auto simp: goto_def phi_test_sema_def sem_up_def)
  show "state_sema ?t j = EATING \<Longrightarrow> state_sema ?t (RIGHT j) \<noteq> EATING"
    using test_excludes [OF inv k(1) j] by (simp add: goto_def)
  show "local_ok (pcs ?t j) (j \<in> set (que (mutex ?t))) (state_sema ?t j) (val (ssem ?t j)) (j \<in> set (que (ssem ?t j)))"
  proof (cases "j = k")
    case True
    then show ?thesis using phi_invD(1) [OF inv j] w k
      by (auto simp: goto_def phi_test_sema_def sem_up_def)
  next
    case False
    then show ?thesis using phi_invD(1) [OF inv j] c crit by (auto simp: goto_def phi_test_sema_def)
  qed
  assume h: "state_sema ?t j = HUNGRY" "pcs ?t j \<noteq> TakeTest"
  have u: "covered ?u j"
  proof (cases "j = k")
    case True
    then show ?thesis using test_covers [OF k(1)] h(1) by (simp add: goto_def)
  next
    case False
    have "state_sema s j = HUNGRY" using False h(1) by (simp add: goto_def phi_test_sema_def split: if_splits)
    moreover have "pcs s j \<noteq> TakeTest" using h(2) c by (auto simp: goto_def test_frame split: if_splits)
    ultimately have "covered s j" by (rule phi_invD(5) [OF inv j])
    then show ?thesis by (rule covered_cong) (use j in \<open>auto simp: test_frame test_eating\<close>)
  qed
  show "covered ?t j"
  proof (cases "j = k")
    case True
    then have "state_sema ?u (LEFT j) = EATING \<or> state_sema ?u (RIGHT j) = EATING"
      using test_covers [OF k(1)] h(1) unfolding covered_def
      by (auto simp: goto_def phi_test_sema_def split: if_splits)
    then show ?thesis by (auto simp: covered_def goto_def)
  next
    case False
    show ?thesis
    proof (cases "pcs s i = PutLeft \<and> j = RIGHT i")
      case True
      then show ?thesis using c i unfolding covered_def by (auto simp: goto_def)
    next
      case other: False
      have "state_sema ?t = state_sema ?u" by (simp add: goto_def)
      moreover have "pcs ?t m = pcs ?u m" if "m \<noteq> i" for m using that by (simp add: goto_def)
      moreover have "\<not> (pcs ?u i = PutLeft \<and> (j = LEFT i \<or> j = RIGHT i) \<or> pcs ?u i = PutRight \<and> j = RIGHT i)"
        using other False c by (auto simp: test_frame)
      ultimately show ?thesis using u unfolding covered_def by metis
    qed
  qed
qed

lemma phi_step_inv: "phi_step s t \<Longrightarrow> phi_inv s \<Longrightarrow> phi_inv t"
proof (induction rule: phi_step.induct)
  case (1 i s)
  note i = 1(1) and a = 1(2) and q = 1(3) and inv = 1(4)
  note d = philosopher_using_semaphore_def phi_take_forks_sema_def phi_put_forks_sema_def
  show ?case
  proof (cases "pcs s i")
    case Think
    then show ?thesis using step_enter [OF inv i _ a, of TakeHungry] by (simp add: d)
  next
    case Eat
    then show ?thesis using step_enter [OF inv i _ a, of PutThink] by (simp add: d)
  next
    case TakeHungry
    then show ?thesis using step_hungry [OF inv i _ a] by (simp add: d)
  next
    case TakeTest
    then show ?thesis using step_test_self [OF inv i _ a] by (simp add: d)
  next
    case TakeUp
    then show ?thesis using step_leave [OF inv i a, of TakeDown _ "iter s"] by (simp add: d)
  next
    case TakeDown
    then show ?thesis using step_wait [OF inv i _ a] by (simp add: d)
  next
    case PutThink
    then show ?thesis using step_think [OF inv i _ a] by (simp add: d)
  next
    case PutLeft
    then show ?thesis using step_test_other [OF inv i a] by (simp add: d)
  next
    case PutRight
    then show ?thesis using step_test_other [OF inv i a] by (simp add: d)
  next
    case PutUp
    let ?it = "(iter s)(i := iter s i + 1)"
    have "phi_inv (goto i (if iter s i < TIMES then Think else Quit) (s\<lparr>mutex := sem_up (mutex s), iter := ?it\<rparr>))"
      by (rule step_leave [OF inv i a _ refl]) (use PutUp in auto)
    then show ?thesis using PutUp by (auto simp: d philosopher_loop_def split: if_splits)
  next
    case Quit
    then show ?thesis using q by simp
  qed
qed

lemma phi_reachable_inv: "phi_reachable s \<Longrightarrow> phi_inv s"
  by (induction rule: phi_reachable.induct) (auto intro: phi_init_inv phi_step_inv)

subsection \<open>Mutual exclusion and progress\<close>

definition crit :: "phi \<Rightarrow> nat \<Rightarrow> bool" where
  "crit s i \<longleftrightarrow> i < N \<and> i \<notin> set (que (mutex s)) \<and> crit_pc (pcs s i)"

fun phi_run :: "nat list \<Rightarrow> phi \<Rightarrow> phi option" where
  "phi_run [] s = Some s"
| "phi_run (i # is) s =
     (if i < N \<and> \<not> asleep s i \<and> pcs s i \<noteq> Quit then phi_run is (philosopher_using_semaphore i s) else None)"

lemma phi_run_reachable: "phi_run is s = Some t \<Longrightarrow> phi_reachable s \<Longrightarrow> phi_reachable t"
  by (induction "is" s rule: phi_run.induct) (auto split: if_splits intro: phi_reachable.step phi_step.intros)

text \<open>C11: in every reachable state of the five threads under any interleaving, no two neighbours
  have the flag \<open>EATING\<close>, a thread that got past \<open>phi_take_forks_sema\<close> has it, and at most one
  thread is between \<open>down(&mutex)\<close> and \<open>up(&mutex)\<close>.\<close>

theorem philosophers_exclusive:
  assumes "phi_reachable s" "i < N"
  shows "\<not> (state_sema s i = EATING \<and> state_sema s (RIGHT i) = EATING) \<and>
    (pcs s i = Eat \<longrightarrow> \<not> asleep s i \<longrightarrow> state_sema s i = EATING) \<and>
    (\<forall>j. crit s i \<longrightarrow> crit s j \<longrightarrow> j = i)"
proof -
  have inv: "phi_inv s" by (rule phi_reachable_inv [OF assms(1)])
  have "pcs s i = Eat \<longrightarrow> \<not> asleep s i \<longrightarrow> state_sema s i = EATING"
    using phi_invD(1) [OF inv assms(2)] by (auto simp: asleep_def)
  moreover have "crit s i \<longrightarrow> crit s j \<longrightarrow> j = i" for j
    using mutex_held(2) [OF phi_invD(3) [OF inv assms(2)] assms(2), of j] by (auto simp: crit_def)
  ultimately show ?thesis using phi_invD(4) [OF inv assms(2)] by blast
qed

theorem philosophers_exclusive_witness:
  "\<exists>s. phi_run [0, 0, 0, 0, 0, 1, 1, 1, 1, 1] phi_init = Some s \<and> pcs s 0 = Eat \<and> pcs s 1 = Eat \<and>
     asleep s 1 \<and> \<not> (state_sema s 0 = EATING \<and> state_sema s (RIGHT 0) = EATING)"
proof -
  have r: "case phi_run [0, 0, 0, 0, 0, 1, 1, 1, 1, 1] phi_init of None \<Rightarrow> False
    | Some s \<Rightarrow> pcs s 0 = Eat \<and> pcs s 1 = Eat \<and> asleep s 1"
    by code_simp
  then obtain s where s: "phi_run [0, 0, 0, 0, 0, 1, 1, 1, 1, 1] phi_init = Some s" "pcs s 0 = Eat"
    "pcs s 1 = Eat" "asleep s 1"
    by (auto split: option.splits)
  have "phi_reachable s" by (rule phi_run_reachable [OF s(1) phi_reachable.init])
  from philosophers_exclusive [OF this, of 0] s show ?thesis by (auto simp: N_def)
qed

text \<open>C25: the five threads never deadlock: in every reachable state in which some thread has not
  finished, some thread can take a step.\<close>

theorem philosophers_no_deadlock:
  assumes r: "phi_reachable s" and k: "k < N" "pcs s k \<noteq> Quit"
  shows "\<exists>t. phi_step s t"
proof -
  have inv: "phi_inv s" by (rule phi_reachable_inv [OF r])
  have go: "\<exists>t. phi_step s t" if "i < N" "\<not> asleep s i" "pcs s i \<noteq> Quit" for i
    using phi_step.intros [OF that] by blast
  from phi_invD(3) [OF inv k(1)] show ?thesis
  proof (cases rule: mutex_cases)
    case (1 h)
    then have "h \<notin> set (que (ssem s h))" "pcs s h \<noteq> Quit"
      using phi_invD(1) [OF inv 1(1)] by (cases "pcs s h"; simp add: crit_pc_def)+
    then show ?thesis using go [of h] 1 by (simp add: asleep_def)
  next
    case 2
    show ?thesis
    proof (cases "asleep s k")
      case True
      then have "pcs s k = Eat \<and> state_sema s k = HUNGRY"
        using phi_invD(1) [OF inv k(1)] 2 by (cases "pcs s k") (auto simp: asleep_def)
      then have "covered s k" using phi_invD(5) [OF inv k(1)] by simp
      moreover have "pcs s j \<noteq> PutLeft" "pcs s j \<noteq> PutRight" if "j < N" for j
        using 2(1) [OF that] by (auto simp: crit_pc_def)
      ultimately obtain e where e: "e < N" "state_sema s e = EATING"
        using LEFT_RIGHT [OF k(1)] unfolding covered_def by metis
      then have "\<not> asleep s e" "pcs s e \<noteq> Quit"
        using phi_invD(1) [OF inv e(1)] 2 by (cases "pcs s e"; auto simp: asleep_def split: if_splits)+
      then show ?thesis using go e(1) by blast
    qed (use go k in blast)
  qed
qed

theorem philosophers_no_deadlock_witness: "\<exists>t. phi_step phi_init t"
  using philosophers_no_deadlock [OF phi_reachable.init, of 0] by (simp add: phi_init_def N_def)

end
