(* ===== verification/CString.thy ===== *)
theory CString
  imports Prelude
begin

section \<open>C strings (libs/string.c)\<close>

text \<open>
  Memory is a partial map from addresses to bytes; reading or writing outside an object is
  \<open>None\<close>. Pointers are numbers. Loops that run to a terminating byte are partial functions,
  loops with a count recurse on it. \<open>cstr m a xs\<close> says that the string \<open>xs\<close> (without its
  terminator) is at \<open>a\<close>.
\<close>

type_synonym byte = "8 word"
type_synonym cmem = "nat \<rightharpoonup> byte"

definition wr :: "nat \<Rightarrow> byte \<Rightarrow> cmem \<Rightarrow> cmem option" where
  "wr a b m = (if m a = None then None else Some (m(a \<mapsto> b)))"

subsection \<open>Lengths and copies\<close>

partial_function (option) strlen_loop :: "cmem \<Rightarrow> nat \<Rightarrow> nat \<Rightarrow> nat option" where
  "strlen_loop m s cnt = do { b \<leftarrow> m s; if b \<noteq> 0 then strlen_loop m (s + 1) (cnt + 1) else Some cnt }"

definition strlen :: "cmem \<Rightarrow> nat \<Rightarrow> nat option" where
  "strlen m s = strlen_loop m s 0"

partial_function (option) strnlen_loop :: "cmem \<Rightarrow> nat \<Rightarrow> nat \<Rightarrow> nat \<Rightarrow> nat option" where
  "strnlen_loop m s len cnt =
     (if cnt < len then do { b \<leftarrow> m s; if b \<noteq> 0 then strnlen_loop m (s + 1) len (cnt + 1) else Some cnt }
      else Some cnt)"

definition strnlen :: "cmem \<Rightarrow> nat \<Rightarrow> nat \<Rightarrow> nat option" where
  "strnlen m s len = strnlen_loop m s len 0"

partial_function (option) strcpy_loop :: "nat \<Rightarrow> nat \<Rightarrow> cmem \<Rightarrow> cmem option" where
  "strcpy_loop p src m = do {
     b \<leftarrow> m src;
     m \<leftarrow> wr p b m;
     if b \<noteq> 0 then strcpy_loop (p + 1) (src + 1) m else Some m
   }"

definition strcpy :: "nat \<Rightarrow> nat \<Rightarrow> cmem \<Rightarrow> (nat \<times> cmem) option" where
  "strcpy dst src m = do { m \<leftarrow> strcpy_loop dst src m; Some (dst, m) }"

fun strncpy_loop :: "nat \<Rightarrow> nat \<Rightarrow> nat \<Rightarrow> cmem \<Rightarrow> cmem option" where
  "strncpy_loop p src 0 m = Some m"
| "strncpy_loop p src (Suc len) m = do {
     b \<leftarrow> m src;
     m \<leftarrow> wr p b m;
     strncpy_loop (p + 1) (if b \<noteq> 0 then src + 1 else src) len m
   }"

definition strncpy :: "nat \<Rightarrow> nat \<Rightarrow> nat \<Rightarrow> cmem \<Rightarrow> (nat \<times> cmem) option" where
  "strncpy dst src len m = do { m \<leftarrow> strncpy_loop dst src len m; Some (dst, m) }"

definition strcat :: "nat \<Rightarrow> nat \<Rightarrow> cmem \<Rightarrow> (nat \<times> cmem) option" where
  "strcat dst src m = do { n \<leftarrow> strlen m dst; (_, m) \<leftarrow> strcpy (dst + n) src m; Some (dst, m) }"

subsection \<open>Comparison and search\<close>

partial_function (option) strcmp :: "cmem \<Rightarrow> nat \<Rightarrow> nat \<Rightarrow> int option" where
  "strcmp m s1 s2 = do {
     a \<leftarrow> m s1;
     if a \<noteq> 0 then do {
       b \<leftarrow> m s2;
       if a = b then strcmp m (s1 + 1) (s2 + 1) else Some (uint a - uint b)
     } else do { b \<leftarrow> m s2; Some (uint a - uint b) }
   }"

fun strncmp :: "cmem \<Rightarrow> nat \<Rightarrow> nat \<Rightarrow> nat \<Rightarrow> int option" where
  "strncmp m s1 s2 0 = Some 0"
| "strncmp m s1 s2 (Suc n) = do {
     a \<leftarrow> m s1;
     if a \<noteq> 0 then do {
       b \<leftarrow> m s2;
       if a = b then strncmp m (s1 + 1) (s2 + 1) n else Some (uint a - uint b)
     } else do { b \<leftarrow> m s2; Some (uint a - uint b) }
   }"

partial_function (option) strchr :: "cmem \<Rightarrow> nat \<Rightarrow> byte \<Rightarrow> nat option option" where
  "strchr m s c = do {
     b \<leftarrow> m s;
     if b \<noteq> 0 then (if b = c then Some (Some s) else strchr m (s + 1) c) else Some None
   }"

partial_function (option) strfind :: "cmem \<Rightarrow> nat \<Rightarrow> byte \<Rightarrow> nat option" where
  "strfind m s c = do {
     b \<leftarrow> m s;
     if b \<noteq> 0 then (if b = c then Some s else strfind m (s + 1) c) else Some s
   }"

subsection \<open>Numbers\<close>

text \<open>Signed overflow of \<open>long\<close> is undefined.\<close>

definition long_ok :: "int \<Rightarrow> bool" where
  "long_ok v \<longleftrightarrow> - (2 ^ 63) \<le> v \<and> v < 2 ^ 63"

definition digit_of :: "byte \<Rightarrow> int option" where
  "digit_of b =
     (if 48 \<le> b \<and> b \<le> 57 then Some (uint b - 48)
      else if 97 \<le> b \<and> b \<le> 122 then Some (uint b - 97 + 10)
      else if 65 \<le> b \<and> b \<le> 90 then Some (uint b - 65 + 10)
      else None)"

partial_function (option) skip_blanks :: "cmem \<Rightarrow> nat \<Rightarrow> nat option" where
  "skip_blanks m s = do { b \<leftarrow> m s; if b = 32 \<or> b = 9 then skip_blanks m (s + 1) else Some s }"

partial_function (option) strtol_digits :: "cmem \<Rightarrow> nat \<Rightarrow> int \<Rightarrow> int \<Rightarrow> (int \<times> nat) option" where
  "strtol_digits m s base v = do {
     b \<leftarrow> m s;
     case digit_of b of
       None \<Rightarrow> Some (v, s)
     | Some dig \<Rightarrow>
         if dig \<ge> base then Some (v, s)
         else do {
           assert_c (long_ok (v * base) \<and> long_ok (v * base + dig));
           strtol_digits m (s + 1) base (v * base + dig)
         }
   }"

text \<open>The value and where parsing stopped (\<open>*endptr\<close>).\<close>

definition strtol :: "cmem \<Rightarrow> nat \<Rightarrow> int \<Rightarrow> (int \<times> nat) option" where
  "strtol m s base = do {
     s \<leftarrow> skip_blanks m s;
     c \<leftarrow> m s;
     let (s, neg) = (if c = 43 then (s + 1, False) else if c = 45 then (s + 1, True) else (s, False));
     (s, base) \<leftarrow> (if base = 0 \<or> base = 16 then do {
         c0 \<leftarrow> m s;
         if c0 = 48 then do {
           c1 \<leftarrow> m (s + 1);
           if c1 = 120 then Some (s + 2, 16)
           else if base = 0 then Some (s + 1, 8) else Some (s, base)
         } else if base = 0 then Some (s, 10) else Some (s, base)
       } else Some (s, base));
     (v, s) \<leftarrow> strtol_digits m s base 0;
     Some (if neg then - v else v, s)
   }"

subsection \<open>Memory blocks\<close>

fun memset :: "nat \<Rightarrow> byte \<Rightarrow> nat \<Rightarrow> cmem \<Rightarrow> cmem option" where
  "memset p c 0 m = Some m"
| "memset p c (Suc n) m = do { m \<leftarrow> wr p c m; memset (p + 1) c n m }"

fun copy_up :: "nat \<Rightarrow> nat \<Rightarrow> nat \<Rightarrow> cmem \<Rightarrow> cmem option" where
  "copy_up d s 0 m = Some m"
| "copy_up d s (Suc n) m = do { b \<leftarrow> m s; m \<leftarrow> wr d b m; copy_up (d + 1) (s + 1) n m }"

text \<open>\<open>d\<close> and \<open>s\<close> point just behind what is left to copy.\<close>

fun copy_down :: "nat \<Rightarrow> nat \<Rightarrow> nat \<Rightarrow> cmem \<Rightarrow> cmem option" where
  "copy_down d s 0 m = Some m"
| "copy_down d s (Suc n) m = do { b \<leftarrow> m (s - 1); m \<leftarrow> wr (d - 1) b m; copy_down (d - 1) (s - 1) n m }"

definition memmove :: "nat \<Rightarrow> nat \<Rightarrow> nat \<Rightarrow> cmem \<Rightarrow> cmem option" where
  "memmove d s n m = (if s < d \<and> s + n > d then copy_down (d + n) (s + n) n m else copy_up d s n m)"

definition memcpy :: "nat \<Rightarrow> nat \<Rightarrow> nat \<Rightarrow> cmem \<Rightarrow> cmem option" where
  "memcpy d s n m = copy_up d s n m"

fun memcmp :: "cmem \<Rightarrow> nat \<Rightarrow> nat \<Rightarrow> nat \<Rightarrow> int option" where
  "memcmp m s1 s2 0 = Some 0"
| "memcmp m s1 s2 (Suc n) = do {
     a \<leftarrow> m s1;
     b \<leftarrow> m s2;
     if a \<noteq> b then Some (uint a - uint b) else memcmp m (s1 + 1) (s2 + 1) n
   }"

declare strlen_loop.simps [code] strnlen_loop.simps [code] strcpy_loop.simps [code] strcmp.simps [code]
  strchr.simps [code] strfind.simps [code] skip_blanks.simps [code] strtol_digits.simps [code]

subsection \<open>Strings in memory\<close>

fun cstr :: "cmem \<Rightarrow> nat \<Rightarrow> byte list \<Rightarrow> bool" where
  "cstr m a [] \<longleftrightarrow> m a = Some 0"
| "cstr m a (x # xs) \<longleftrightarrow> x \<noteq> 0 \<and> m a = Some x \<and> cstr m (a + 1) xs"

definition bytes_at :: "cmem \<Rightarrow> nat \<Rightarrow> nat \<Rightarrow> byte option list" where
  "bytes_at m a n = map (\<lambda>i. m (a + i)) [0..<n]"

lemma cstr_iff: "cstr m a xs \<longleftrightarrow> 0 \<notin> set xs \<and> (\<forall>i < length xs. m (a + i) = Some (xs ! i)) \<and> m (a + length xs) = Some 0"
proof (induction xs arbitrary: a)
  case (Cons x xs)
  have "(\<forall>i < length (x # xs). m (a + i) = Some ((x # xs) ! i)) \<longleftrightarrow>
      m a = Some x \<and> (\<forall>i < length xs. m (a + 1 + i) = Some (xs ! i))"
    by (auto simp: less_Suc_eq_0_disj nth_Cons')
  then show ?case using Cons [of "a + 1"] by auto
qed simp

lemma cstr_cong: "(\<And>i. i \<le> length xs \<Longrightarrow> m' (a + i) = m (a + i)) \<Longrightarrow> cstr m' a xs = cstr m a xs"
  by (auto simp: cstr_iff)

lemma strlen_loop: "cstr m s xs \<Longrightarrow> strlen_loop m s n = Some (n + length xs)"
  by (induction xs arbitrary: s n) (simp_all add: strlen_loop.simps)

lemma strlen_cstr: "cstr m s xs \<Longrightarrow> strlen m s = Some (length xs)"
  by (simp add: strlen_def strlen_loop)

lemma strnlen_loop: "cstr m s xs \<Longrightarrow> n \<le> len \<Longrightarrow> strnlen_loop m s len n = Some (min len (n + length xs))"
  by (induction xs arbitrary: s n) (auto simp: strnlen_loop.simps min_def)

lemma wr_Some: "m a \<noteq> None \<Longrightarrow> wr a b m = Some (m(a \<mapsto> b))"
  by (simp add: wr_def)

lemma strcpy_loop:
  assumes "cstr m s xs" "\<And>i. i \<le> length xs \<Longrightarrow> m (d + i) \<noteq> None" "d + length xs < s \<or> s + length xs < d"
  shows "\<exists>m'. strcpy_loop d s m = Some m' \<and> cstr m' d xs \<and> (\<forall>a. a < d \<or> d + length xs < a \<longrightarrow> m' a = m a)"
  using assms
proof (induction xs arbitrary: d s m)
  case Nil
  from Nil.prems(2) [of 0] have "m d \<noteq> None" by simp
  then show ?case using Nil by (simp add: strcpy_loop.simps wr_Some)
next
  case (Cons x xs)
  let ?m = "m(d \<mapsto> x)"
  have d: "m d \<noteq> None" using Cons.prems(2) [of 0] by simp
  have "cstr ?m (s + 1) xs"
    using Cons.prems(1,3) by (subst cstr_cong [where m = m]) auto
  moreover have "?m (d + 1 + i) \<noteq> None" if "i \<le> length xs" for i
    using Cons.prems(2) [of "Suc i"] that by simp
  moreover have "d + 1 + length xs < s + 1 \<or> s + 1 + length xs < d + 1" using Cons.prems(3) by auto
  ultimately obtain m' where m': "strcpy_loop (d + 1) (s + 1) ?m = Some m'" "cstr m' (d + 1) xs"
    "\<forall>a. a < d + 1 \<or> d + 1 + length xs < a \<longrightarrow> m' a = ?m a"
    using Cons.IH [of ?m "s + 1" "d + 1"] by blast
  have "strcpy_loop d s m = Some m'"
    using Cons.prems(1) m'(1) d by (subst strcpy_loop.simps) (simp add: wr_Some)
  then show ?case using m'(2,3) Cons.prems(1) by auto
qed

lemma copy_up:
  assumes "\<And>i. i < n \<Longrightarrow> m (s + i) \<noteq> None" "\<And>i. i < n \<Longrightarrow> m (d + i) \<noteq> None" "d \<le> s \<or> s + n \<le> d"
  shows "\<exists>m'. copy_up d s n m = Some m' \<and> (\<forall>i < n. m' (d + i) = m (s + i)) \<and>
    (\<forall>a. a < d \<or> d + n \<le> a \<longrightarrow> m' a = m a)"
  using assms
proof (induction n arbitrary: d s m)
  case (Suc n)
  obtain b where b: "m s = Some b" using Suc.prems(1) [of 0] by auto
  let ?m = "m(d \<mapsto> b)"
  have d: "m d \<noteq> None" using Suc.prems(2) [of 0] by simp
  have p: "?m (s + 1 + i) \<noteq> None" "?m (d + 1 + i) \<noteq> None" if "i < n" for i
    using Suc.prems(1,2) [of "Suc i"] that by auto
  have "d + 1 \<le> s + 1 \<or> s + 1 + n \<le> d + 1" using Suc.prems(3) by auto
  from Suc.IH [OF p this] obtain m' where m': "copy_up (d + 1) (s + 1) n ?m = Some m'"
    "\<forall>i < n. m' (d + 1 + i) = ?m (s + 1 + i)" "\<forall>a. a < d + 1 \<or> d + 1 + n \<le> a \<longrightarrow> m' a = ?m a"
    by blast
  have "m' (d + i) = m (s + i)" if "i < Suc n" for i
  proof (cases i)
    case 0
    then show ?thesis using m'(3) b by simp
  next
    case (Suc j)
    then have "m' (d + 1 + j) = ?m (s + 1 + j)" using m'(2) that by simp
    moreover have "s + 1 + j \<noteq> d" using Suc.prems(3) that \<open>i = Suc j\<close> by auto
    ultimately show ?thesis using Suc by simp
  qed
  moreover have "m' a = m a" if "a < d \<or> d + Suc n \<le> a" for a using m'(3) that by auto
  ultimately show ?case using m'(1) b d by (intro exI [of _ m']) (simp add: wr_Some)
qed simp

lemma copy_down:
  assumes "\<And>i. i < n \<Longrightarrow> m (s + i) \<noteq> None" "\<And>i. i < n \<Longrightarrow> m (d + i) \<noteq> None" "s \<le> d"
  shows "\<exists>m'. copy_down (d + n) (s + n) n m = Some m' \<and> (\<forall>i < n. m' (d + i) = m (s + i)) \<and>
    (\<forall>a. a < d \<or> d + n \<le> a \<longrightarrow> m' a = m a)"
  using assms
proof (induction n arbitrary: m)
  case (Suc n)
  obtain b where b: "m (s + n) = Some b" using Suc.prems(1) [of n] by auto
  let ?m = "m(d + n \<mapsto> b)"
  have d: "m (d + n) \<noteq> None" using Suc.prems(2) [of n] by simp
  have p: "?m (s + i) \<noteq> None" "?m (d + i) \<noteq> None" if "i < n" for i
    using Suc.prems(1,2) [of i] that by auto
  from Suc.IH [OF p Suc.prems(3)] obtain m' where m': "copy_down (d + n) (s + n) n ?m = Some m'"
    "\<forall>i < n. m' (d + i) = ?m (s + i)" "\<forall>a. a < d \<or> d + n \<le> a \<longrightarrow> m' a = ?m a"
    by blast
  have "m' (d + i) = m (s + i)" if "i < Suc n" for i
  proof (cases "i = n")
    case True
    then show ?thesis using m'(3) b by simp
  next
    case False
    then have "m' (d + i) = ?m (s + i)" using m'(2) that by simp
    moreover have "s + i \<noteq> d + n" using Suc.prems(3) False that by simp
    ultimately show ?thesis by simp
  qed
  moreover have "m' a = m a" if "a < d \<or> d + Suc n \<le> a" for a using m'(3) that by auto
  ultimately show ?case using m'(1) b d by (intro exI [of _ m']) (simp add: wr_Some)
qed simp

text \<open>\<open>memmove\<close> copies exactly \<open>n\<close> bytes whatever the overlap of the two blocks: the
  destination holds what the source held before, and no other byte changes.\<close>

theorem memmove_copies:
  assumes "\<And>i. i < n \<Longrightarrow> m (s + i) \<noteq> None" "\<And>i. i < n \<Longrightarrow> m (d + i) \<noteq> None"
  shows "\<exists>m'. memmove d s n m = Some m' \<and> (\<forall>i < n. m' (d + i) = m (s + i)) \<and>
    (\<forall>a. a < d \<or> d + n \<le> a \<longrightarrow> m' a = m a)"
proof (cases "s < d \<and> s + n > d")
  case True
  then show ?thesis using copy_down [of n m s d] assms by (simp add: memmove_def)
next
  case False
  then show ?thesis using copy_up [of n m s d] assms by (auto simp: memmove_def)
qed

definition ex_mem :: cmem where
  "ex_mem = (\<lambda>a. if a < 100 then Some (word_of_nat a) else None)"

theorem memmove_copies_witness:
  "\<exists>m'. memmove 12 10 5 ex_mem = Some m' \<and> m' 16 = Some 14 \<and> m' 17 = Some 17"
proof -
  obtain m' where m': "memmove 12 10 5 ex_mem = Some m'" "\<forall>i < 5. m' (12 + i) = ex_mem (10 + i)"
    "\<forall>a. a < 12 \<or> 12 + 5 \<le> a \<longrightarrow> m' a = ex_mem a"
    using memmove_copies [of 5 ex_mem 10 12] by (auto simp: ex_mem_def)
  have "m' 16 = ex_mem 14" using m'(2) [rule_format, of 4] by simp
  then show ?thesis using m'(1,3) by (simp add: ex_mem_def)
qed

text \<open>The dictionary order of unsigned bytes.\<close>

fun bytes_less :: "byte list \<Rightarrow> byte list \<Rightarrow> bool" where
  "bytes_less [] ys \<longleftrightarrow> ys \<noteq> []"
| "bytes_less (x # xs) [] \<longleftrightarrow> False"
| "bytes_less (x # xs) (y # ys) \<longleftrightarrow> x < y \<or> x = y \<and> bytes_less xs ys"

lemma uint_gt_0_iff: "0 < uint (y :: 8 word) \<longleftrightarrow> y \<noteq> 0"
  by (metis uint_0_iff uint_ge_0 less_le)

lemma strcmp_cstr:
  "cstr m a xs \<Longrightarrow> cstr m b ys \<Longrightarrow>
     \<exists>r. strcmp m a b = Some r \<and> (r = 0 \<longleftrightarrow> xs = ys) \<and> (r < 0 \<longleftrightarrow> bytes_less xs ys)"
proof (induction xs arbitrary: a b ys)
  case Nil
  show ?case
  proof (cases ys)
    case (Cons y zs)
    then have "y \<noteq> 0" "m b = Some y" using Nil by simp_all
    then have "0 < uint y" by (simp add: uint_gt_0_iff)
    then show ?thesis using Nil Cons \<open>m b = Some y\<close> by (simp add: strcmp.simps [of m a])
  qed (use Nil in \<open>simp add: strcmp.simps [of m a]\<close>)
next
  case (Cons x xs)
  show ?case
  proof (cases ys)
    case Nil
    then show ?thesis using Cons.prems
      by (simp add: strcmp.simps [of m a]) (metis uint_ge_0 linorder_not_less uint_0_iff)
  next
    case (Cons y zs)
    show ?thesis
    proof (cases "x = y")
      case True
      then show ?thesis using Cons Cons.IH [of "a + 1" "b + 1" zs] Cons.prems
        by (simp add: strcmp.simps [of m a])
    next
      case False
      then show ?thesis using Cons Cons.prems
        by (auto simp: strcmp.simps [of m a] word_less_def word_uint_eq_iff)
    qed
  qed
qed

text \<open>\<open>strcmp\<close> of two strings terminates, is zero exactly on equal strings and negative exactly
  when the first comes first in the lexicographic order of unsigned bytes.\<close>

theorem strcmp_lexicographic:
  assumes "cstr m a xs" "cstr m b ys"
  shows "\<exists>r. strcmp m a b = Some r \<and> (r = 0 \<longleftrightarrow> xs = ys) \<and> (r < 0 \<longleftrightarrow> bytes_less xs ys)"
  by (rule strcmp_cstr [OF assms])

definition ex_strings :: cmem where
  "ex_strings = [0 \<mapsto> 97, 1 \<mapsto> 98, 2 \<mapsto> 0, 10 \<mapsto> 97, 11 \<mapsto> 200, 12 \<mapsto> 0]"

theorem strcmp_lexicographic_witness:
  "\<exists>r. strcmp ex_strings 0 10 = Some r \<and> r < 0"
proof -
  have "cstr ex_strings 0 [97, 98]" "cstr ex_strings 10 [97, 200]" by (simp_all add: ex_strings_def)
  from strcmp_lexicographic [OF this] show ?thesis by auto
qed

end
