(* ===== verification/PrintFmt.thy ===== *)
theory PrintFmt
  imports CString
begin

section \<open>Formatted output (libs/printfmt.c), hashing and random numbers\<close>

text \<open>
  The output of \<open>vprintfmt\<close> is the list of characters it passes to \<open>putch\<close>. The format is the
  list of its characters without the terminating zero byte. The variable arguments are a list of
  typed values; taking an argument of the wrong size or behind the end is undefined (\<open>None\<close>).
\<close>

subsection \<open>Numbers\<close>

definition digit_char :: "nat \<Rightarrow> char option" where
  "digit_char d = (if d < 16 then Some (''0123456789abcdef'' ! d) else None)"

text \<open>The field is \<open>width\<close> characters wide; a base below two does not terminate or divides by zero.\<close>

function printnum :: "nat \<Rightarrow> nat \<Rightarrow> int \<Rightarrow> char \<Rightarrow> string option" where
  "printnum num base width padc =
     (if base = 0 \<or> base = 1 \<and> num \<ge> 1 then None
      else do {
        pre \<leftarrow> (if num \<ge> base then printnum (num div base) base (width - 1) padc
               else Some (replicate (nat (width - 1)) padc));
        d \<leftarrow> digit_char (num mod base);
        Some (pre @ [d])
      })"
  by pat_completeness auto
termination
  by (relation "measure (\<lambda>(num, _). num)") (auto intro!: div_less_dividend)

declare printnum.simps [simp del]

subsection \<open>Arguments\<close>

datatype varg = VInt "32 word" | VLong "64 word" | VStr "string option" | VPtr "64 word"

fun getuint :: "varg list \<Rightarrow> nat \<Rightarrow> (nat \<times> varg list) option" where
  "getuint (VLong w # ap) lflag = (if lflag \<ge> 1 then Some (unat w, ap) else None)"
| "getuint (VInt w # ap) lflag = (if lflag = 0 then Some (unat w, ap) else None)"
| "getuint _ _ = None"

fun getint :: "varg list \<Rightarrow> nat \<Rightarrow> (int \<times> varg list) option" where
  "getint (VLong w # ap) lflag = (if lflag \<ge> 1 then Some (sint w, ap) else None)"
| "getint (VInt w # ap) lflag = (if lflag = 0 then Some (sint w, ap) else None)"
| "getint _ _ = None"

fun va_int :: "varg list \<Rightarrow> (int \<times> varg list) option" where
  "va_int (VInt w # ap) = Some (sint w, ap)"
| "va_int _ = None"

definition MAXERROR :: int where "MAXERROR = 24"

definition error_string :: "int \<Rightarrow> string option" where
  "error_string e =
     (if e = 1 then Some ''unspecified error'' else if e = 2 then Some ''bad process''
      else if e = 3 then Some ''invalid parameter'' else if e = 4 then Some ''out of memory''
      else if e = 5 then Some ''out of processes'' else if e = 6 then Some ''segmentation fault''
      else if e = 8 then Some ''invalid elf file'' else if e = 9 then Some ''process is killed''
      else if e = 10 then Some ''panic failure'' else if e = 13 then Some ''no such device''
      else if e = 14 then Some ''device not available'' else if e = 15 then Some ''device/file is busy''
      else if e = 16 then Some ''no such file or directory'' else if e = 17 then Some ''is a directory''
      else if e = 18 then Some ''not a directory'' else if e = 19 then Some ''cross device link''
      else if e = 20 then Some ''unimplemented feature'' else if e = 21 then Some ''illegal seek''
      else if e = 22 then Some ''too many files are open''
      else if e = 23 then Some ''file or directory already exists''
      else if e = 24 then Some ''directory is not empty'' else None)"

subsection \<open>One conversion\<close>

record pfspec =
  padc :: char
  width :: int
  precision :: int
  lflag :: nat
  altflag :: bool

definition pf0 :: pfspec where
  "pf0 = \<lparr>padc = CHR '' '', width = -1, precision = -1, lflag = 0, altflag = False\<rparr>"

definition process_precision :: "pfspec \<Rightarrow> pfspec" where
  "process_precision f = (if width f < 0 then f\<lparr>width := precision f, precision := -1\<rparr> else f)"

fun print_chars :: "bool \<Rightarrow> int \<Rightarrow> int \<Rightarrow> string \<Rightarrow> string \<times> int" where
  "print_chars alt prec w [] = ([], w)"
| "print_chars alt prec w (c # cs) =
     (if prec < 0 \<or> prec - 1 \<ge> 0 then
        let (out, w') = print_chars alt (if prec < 0 then prec else prec - 1) (w - 1) cs
        in ((if alt \<and> (of_char c < (32 :: nat) \<or> of_char c > (126 :: nat)) then CHR ''?'' else c) # out, w')
      else ([], w))"

text \<open>\<open>%s\<close>: padding on the left unless the flag is \<open>-\<close>, the characters, padding on the right.\<close>

definition print_string :: "pfspec \<Rightarrow> string \<Rightarrow> string" where
  "print_string f p =
     (let n = (if precision f < 0 then int (length p) else min (int (length p)) (precision f));
          (pre, w) = (if width f > 0 \<and> padc f \<noteq> CHR ''-''
                      then (replicate (nat (width f - n)) (padc f), min (width f - n) 0)
                      else ([], width f));
          (out, w) = print_chars (altflag f) (precision f) w p
      in pre @ out @ replicate (nat w) (CHR '' ''))"

datatype conv = Flag pfspec "varg list" | Out string "varg list" | Unknown

text \<open>The digits of a width: the value and what follows them.\<close>

fun width_digits :: "int \<Rightarrow> string \<Rightarrow> int \<times> string" where
  "width_digits v [] = (v, [])"
| "width_digits v (c # cs) =
     (if 48 \<le> (of_char c :: nat) \<and> (of_char c :: nat) \<le> 57
      then width_digits (v * 10 + of_char c - 48) cs else (v, c # cs))"

definition number :: "pfspec \<Rightarrow> string \<Rightarrow> nat \<Rightarrow> nat \<Rightarrow> varg list \<Rightarrow> conv option" where
  "number f pre num base ap = do { ds \<leftarrow> printnum num base (width f) (padc f); Some (Out (pre @ ds) ap) }"

definition convert :: "char \<Rightarrow> pfspec \<Rightarrow> varg list \<Rightarrow> conv option" where
  "convert c f ap =
     (if c = CHR ''-'' then Some (Flag (f\<lparr>padc := CHR ''-''\<rparr>) ap)
      else if c = CHR ''0'' then Some (Flag (f\<lparr>padc := CHR ''0''\<rparr>) ap)
      else if c = CHR ''*'' then do {
        (p, ap) \<leftarrow> va_int ap; Some (Flag (process_precision (f\<lparr>precision := p\<rparr>)) ap) }
      else if c = CHR ''.'' then Some (Flag (if width f < 0 then f\<lparr>width := 0\<rparr> else f) ap)
      else if c = CHR ''#'' then Some (Flag (f\<lparr>altflag := True\<rparr>) ap)
      else if c = CHR ''l'' then Some (Flag (f\<lparr>lflag := lflag f + 1\<rparr>) ap)
      else if c = CHR ''c'' then do { (v, ap) \<leftarrow> va_int ap; Some (Out [char_of v] ap) }
      else if c = CHR ''e'' then do {
        (err, ap) \<leftarrow> va_int ap;
        let err = (if err < 0 then - err else err);
        if err > MAXERROR \<or> error_string err = None
        then do { ds \<leftarrow> printnum (nat err) 10 (-1) (CHR '' ''); Some (Out (''error '' @ ds) ap) }
        else Some (Out (print_string pf0 (the (error_string err))) ap) }
      else if c = CHR ''s'' then (case ap of
          VStr p # ap \<Rightarrow> Some (Out (print_string f (case p of None \<Rightarrow> ''(null)'' | Some s \<Rightarrow> s)) ap)
        | _ \<Rightarrow> None)
      else if c = CHR ''d'' then do {
        (v, ap) \<leftarrow> getint ap (lflag f);
        assert_c (v \<noteq> - (2 ^ 63));
        if v < 0 then number f ''-'' (nat (- v)) 10 ap else number f [] (nat v) 10 ap }
      else if c = CHR ''u'' then do { (v, ap) \<leftarrow> getuint ap (lflag f); number f [] v 10 ap }
      else if c = CHR ''o'' then do { (v, ap) \<leftarrow> getuint ap (lflag f); number f [] v 8 ap }
      else if c = CHR ''p'' then (case ap of
          VPtr w # ap \<Rightarrow> number f ''0x'' (unat w) 16 ap | _ \<Rightarrow> None)
      else if c = CHR ''x'' then do { (v, ap) \<leftarrow> getuint ap (lflag f); number f [] v 16 ap }
      else if c = CHR ''%'' then Some (Out ''%'' ap)
      else Some Unknown)"

text \<open>
  \<open>reswitch\<close>: the flags up to the conversion. The result is the output, the rest of the format
  and the arguments; \<open>Inl\<close> when the sequence is not recognised.
\<close>

lemma width_digits_length [termination_simp]: "length (snd (width_digits v cs)) \<le> length cs"
  by (induction v cs rule: width_digits.induct) auto

fun reswitch :: "string \<Rightarrow> pfspec \<Rightarrow> varg list \<Rightarrow> (string \<times> string \<times> varg list) option option" where
  "reswitch [] f ap = Some None"
| "reswitch (c # cs) f ap =
     (if 49 \<le> (of_char c :: nat) \<and> (of_char c :: nat) \<le> 57
      then let r = width_digits (of_char c - 48) cs
           in reswitch (snd r) (process_precision (f\<lparr>precision := fst r\<rparr>)) ap
      else case convert c f ap of
          None \<Rightarrow> None
        | Some (Flag f ap) \<Rightarrow> reswitch cs f ap
        | Some (Out out ap) \<Rightarrow> Some (Some (out, cs, ap))
        | Some Unknown \<Rightarrow> Some None)"

lemma reswitch_length: "reswitch cs f ap = Some (Some (out, rest, ap')) \<Longrightarrow> length rest < length cs"
proof (induction cs f ap rule: reswitch.induct)
  case (2 c cs f ap)
  show ?case
  proof (cases "49 \<le> (of_char c :: nat) \<and> (of_char c :: nat) \<le> 57")
    case True
    let ?r = "width_digits (of_char c - 48) cs"
    have "reswitch (snd ?r) (process_precision (f\<lparr>precision := fst ?r\<rparr>)) ap = Some (Some (out, rest, ap'))"
      using 2(3) True by (simp add: Let_def)
    then have "length rest < length (snd ?r)" by (rule 2(1) [OF True refl])
    also have "\<dots> \<le> length cs" by (rule width_digits_length)
    finally show ?thesis by simp
  next
    case False
    show ?thesis
    proof (cases "convert c f ap")
      case (Some r)
      show ?thesis
      proof (cases r)
        case (Flag g ap2)
        then have "reswitch cs g ap2 = Some (Some (out, rest, ap'))" using 2(3) False Some by simp
        then have "length rest < length cs" by (rule 2(2) [OF False Some Flag])
        then show ?thesis by simp
      qed (use 2(3) False Some in auto)
    qed (use 2(3) False in simp)
  qed
qed simp

text \<open>An unrecognised sequence is printed literally from behind its percent sign.\<close>

function vprintfmt :: "string \<Rightarrow> varg list \<Rightarrow> string option" where
  "vprintfmt [] ap = Some []"
| "vprintfmt (c # cs) ap =
     (if c \<noteq> CHR ''%'' then do { out \<leftarrow> vprintfmt cs ap; Some (c # out) }
      else case reswitch cs pf0 ap of
          None \<Rightarrow> None
        | Some None \<Rightarrow> do { out \<leftarrow> vprintfmt cs ap; Some (CHR ''%'' # out) }
        | Some (Some (o1, rest, ap')) \<Rightarrow> do { out \<leftarrow> vprintfmt rest ap'; Some (o1 @ out) })"
  by pat_completeness auto
termination
  by (relation "measure (\<lambda>(cs, _). length cs)") (auto dest: reswitch_length)

subsection \<open>Printing into a buffer\<close>

record sprintbuf =
  stored :: string
  room :: nat
  cnt :: nat

definition sprintputch :: "char \<Rightarrow> sprintbuf \<Rightarrow> sprintbuf" where
  "sprintputch ch b =
     (let b = b\<lparr>cnt := cnt b + 1\<rparr>
      in if room b > 0 then b\<lparr>stored := stored b @ [ch], room := room b - 1\<rparr> else b)"

text \<open>The bytes written at \<open>str\<close> and the return value; \<open>nul\<close> says that \<open>str\<close> is null.\<close>

definition vsnprintf :: "bool \<Rightarrow> nat \<Rightarrow> string \<Rightarrow> varg list \<Rightarrow> (string \<times> int) option" where
  "vsnprintf nul n fmt ap =
     (if nul \<or> n = 0 then Some ([], - 3)
      else do {
        out \<leftarrow> vprintfmt fmt ap;
        let b = fold sprintputch out \<lparr>stored = [], room = n - 1, cnt = 0\<rparr>;
        Some (stored b @ [CHR 0x00], int (cnt b))
      })"

definition snprintf :: "bool \<Rightarrow> nat \<Rightarrow> string \<Rightarrow> varg list \<Rightarrow> (string \<times> int) option" where
  "snprintf nul n fmt ap = vsnprintf nul n fmt ap"

subsection \<open>hash.c and rand.c\<close>

definition GOLDEN_RATIO_PRIME_32 :: "32 word" where "GOLDEN_RATIO_PRIME_32 = 0x9e370001"

text \<open>A shift by 32 or more is undefined.\<close>

definition hash32 :: "32 word \<Rightarrow> nat \<Rightarrow> 32 word option" where
  "hash32 v bits =
     (if 0 < bits \<and> bits \<le> 32 then Some (drop_bit (32 - bits) (v * GOLDEN_RATIO_PRIME_32)) else None)"

definition RAND_MAX :: nat where "RAND_MAX = 2147483647"

text \<open>
  \<open>do_div(result, RAND_MAX + 1)\<close>: the macro applies its cast and the operator \<open>%\<close> to the
  unparenthesised argument, so what it computes is \<open>result % RAND_MAX + 1\<close>.
\<close>

definition rand :: "64 word \<Rightarrow> int \<times> 64 word" where
  "rand nx =
     (let nx = and (nx * 0x5DEECE66D + 0xB) (2 ^ 48 - 1);
          result = drop_bit 12 nx
      in (int (unat result mod RAND_MAX + 1), nx))"

definition srand :: "32 word \<Rightarrow> 64 word" where
  "srand seed = ucast seed"

subsection \<open>Digits\<close>

text \<open>The value of a list of digit characters.\<close>

definition dig_val :: "char \<Rightarrow> nat" where
  "dig_val c = (if of_char c \<le> (57 :: nat) then of_char c - 48 else of_char c - 87)"

definition digits_val :: "nat \<Rightarrow> string \<Rightarrow> nat" where
  "digits_val base ds = foldl (\<lambda>v c. v * base + dig_val c) 0 ds"

lemma less_16_cases:
  "d < 16 \<Longrightarrow> d \<in> {0, 1, 2, 3, 4, 5, 6, 7, 8, 9, 10, 11, 12, 13, 14, 15 :: nat}"
  by (simp only: insert_iff empty_iff) presburger

lemma digit_char_val:
  assumes "d < 16"
  shows "\<exists>c. digit_char d = Some c \<and> dig_val c = d \<and> c \<noteq> CHR 0x00 \<and> (d < 10 \<longrightarrow> of_char c = 48 + d) \<and>
    (10 \<le> d \<longrightarrow> of_char c = 87 + d)"
  using less_16_cases [OF assms] by (auto simp: digit_char_def dig_val_def)

text \<open>Without padding the digits are the canonical ones: their value is the number, the first is not
  zero unless the number is.\<close>

lemma printnum_digits:
  assumes "2 \<le> base" "base \<le> 16" "w \<le> 0"
  shows "\<exists>ds. printnum n base w p = Some ds \<and> ds \<noteq> [] \<and> digits_val base ds = n \<and>
    (n > 0 \<longrightarrow> dig_val (hd ds) > 0) \<and> (\<forall>c \<in> set ds. \<exists>d < base. digit_char d = Some c)"
  using assms(3)
proof (induction n arbitrary: w rule: less_induct)
  case (less n)
  obtain c where c: "digit_char (n mod base) = Some c" "dig_val c = n mod base"
    using digit_char_val [of "n mod base"] assms(1,2) mod_less_divisor [of base n] by fastforce
  have m: "n mod base < base" using assms(1) by simp
  show ?case
  proof (cases "n \<ge> base")
    case True
    then have "n div base < n" using assms(1) by (intro div_less_dividend) auto
    from less.IH [OF this, of "w - 1"] less.prems obtain ds where ds:
      "printnum (n div base) base (w - 1) p = Some ds" "ds \<noteq> []" "digits_val base ds = n div base"
      "n div base > 0 \<longrightarrow> dig_val (hd ds) > 0" "\<forall>c \<in> set ds. \<exists>d < base. digit_char d = Some c" by auto
    have "printnum n base w p = Some (ds @ [c])"
      using True assms(1) ds(1) c(1) by (simp add: printnum.simps [of n])
    moreover have "n div base > 0" using True assms(1) by (simp add: div_greater_zero_iff)
    ultimately show ?thesis using ds(2-) c m by (intro exI [of _ "ds @ [c]"]) (auto simp: digits_val_def)
  next
    case False
    then have "printnum n base w p = Some [c]"
      using assms(1) c(1) less.prems by (simp add: printnum.simps [of n])
    then show ?thesis using c m False
      by (intro exI [of _ "[c]"]) (auto simp: digits_val_def intro!: exI [of _ "dig_val c"])
  qed
qed

subsection \<open>Reading back what was printed\<close>

definition bytes_of :: "string \<Rightarrow> byte list" where
  "bytes_of cs = map of_char cs"

lemma digit_of_printed:
  assumes "d < 10" "digit_char d = Some c"
  shows "digit_of (of_char c) = Some (int d)"
  using less_16_cases [of d] assms by (auto simp: digit_char_def digit_of_def)

lemma foldl_digits_mono: "v \<le> foldl (\<lambda>v c. v * 10 + f c) v cs" for v :: nat
proof (induction cs arbitrary: v)
  case (Cons c cs)
  have "v \<le> v * 10 + f c" by simp
  then show ?case using order_trans [OF _ Cons] by simp
qed simp

lemma strtol_digits_printed:
  assumes "cstr m s (bytes_of ds)" "\<forall>c \<in> set ds. \<exists>d < 10. digit_char d = Some c"
    and "foldl (\<lambda>v c. v * 10 + dig_val c) v ds < 2 ^ 63"
  shows "strtol_digits m s 10 (int v) =
    Some (int (foldl (\<lambda>v c. v * 10 + dig_val c) v ds), s + length ds)"
  using assms
proof (induction ds arbitrary: s v)
  case Nil
  then show ?case by (simp add: strtol_digits.simps bytes_of_def digit_of_def)
next
  case (Cons c ds)
  obtain d where d: "d < 10" "digit_char d = Some c" using Cons.prems(2) by auto
  have v: "dig_val c = d" using digit_char_val [of d] d by auto
  have "v * 10 + dig_val c < 2 ^ 63"
    using Cons.prems(3) foldl_digits_mono [of "v * 10 + dig_val c" dig_val ds] by simp
  then have ok: "long_ok (int v * 10)" "long_ok (int v * 10 + int d)"
    using v by (auto simp: long_ok_def)
  have "strtol_digits m (s + 1) 10 (int (v * 10 + dig_val c)) =
      Some (int (foldl (\<lambda>v c. v * 10 + dig_val c) (v * 10 + dig_val c) ds), s + 1 + length ds)"
    by (rule Cons.IH) (use Cons.prems in \<open>auto simp: bytes_of_def\<close>)
  then show ?case using Cons.prems(1) digit_of_printed [OF d] d(1) ok v
    by (subst strtol_digits.simps) (simp add: bytes_of_def ac_simps)
qed

text \<open>C26: what \<open>printnum\<close> prints in base ten, \<open>strtol\<close> reads back as the same number, consuming all of
  it, for every number that fits \<open>long\<close>.\<close>

theorem printnum_strtol_roundtrip:
  assumes "n < 2 ^ 63" "printnum n 10 (- 1) p = Some ds" "cstr m s (bytes_of ds)"
  shows "strtol m s 10 = Some (int n, s + length ds)"
proof -
  obtain ds' where "printnum n 10 (- 1) p = Some ds'" "ds' \<noteq> []" "digits_val 10 ds' = n"
    "\<forall>c \<in> set ds'. \<exists>d < 10. digit_char d = Some c"
    using printnum_digits [of 10 "- 1" n p] by auto
  then have ds: "ds \<noteq> []" "digits_val 10 ds = n" "\<forall>c \<in> set ds. \<exists>d < 10. digit_char d = Some c"
    using assms(2) by auto
  obtain c cs where cc: "ds = c # cs" using ds(1) by (cases ds) auto
  obtain d where d: "d < 10" "digit_char d = Some c" using ds(3) cc by auto
  have b: "m s = Some (of_char c)" using assms(3) cc by (simp add: bytes_of_def)
  have "(of_char c :: byte) \<notin> {32, 9, 43, 45}"
    using less_16_cases [of d] d by (auto simp: digit_char_def)
  then have "skip_blanks m s = Some s" and sgn: "(of_char c :: byte) \<noteq> 43" "(of_char c :: byte) \<noteq> 45"
    using b by (auto simp: skip_blanks.simps)
  moreover have "strtol_digits m s 10 0 = Some (int n, s + length ds)"
    using strtol_digits_printed [OF assms(3) ds(3), of 0] ds(2) assms(1) by (simp add: digits_val_def)
  ultimately show ?thesis using b by (simp add: strtol_def)
qed

theorem printnum_strtol_roundtrip_witness:
  "printnum 305 10 (- 1) (CHR '' '') = Some ''305'' \<and>
   strtol [20 \<mapsto> 51, 21 \<mapsto> 48, 22 \<mapsto> 53, 23 \<mapsto> 0] 20 10 = Some (305, 23)"
proof -
  have p: "printnum 305 10 (- 1) (CHR '' '') = Some ''305''"
    by (simp add: printnum.simps digit_char_def)
  have c: "cstr [20 \<mapsto> 51, 21 \<mapsto> 48, 22 \<mapsto> 53, 23 \<mapsto> 0] 20 (bytes_of ''305'')"
    by (simp add: bytes_of_def)
  show ?thesis using p printnum_strtol_roundtrip [OF _ p c] by simp
qed

subsection \<open>Bounded printing\<close>

lemma sprintputch_eq:
  "sprintputch c b = b\<lparr>stored := stored b @ take (room b) [c], room := room b - 1, cnt := cnt b + 1\<rparr>"
  by (cases "room b") (simp_all add: sprintputch_def)

lemma sprintputch_fold:
  "fold sprintputch out b = b\<lparr>stored := stored b @ take (room b) out, room := room b - length out,
     cnt := cnt b + length out\<rparr>"
proof (induction out arbitrary: b)
  case (Cons c out)
  show ?case
    unfolding fold_simps sprintputch_eq [of c b]
    by (cases "room b") (simp_all add: Cons)
qed simp

text \<open>\<open>vsnprintf\<close> writes the output cut to what the buffer holds and always a terminating zero,
  never more than \<open>size\<close> bytes, and returns the length of the whole output.\<close>

theorem vsnprintf_truncates:
  assumes "vprintfmt fmt ap = Some out" "0 < n"
  shows "vsnprintf False n fmt ap = Some (take (n - 1) out @ [CHR 0x00], int (length out)) \<and>
    length (take (n - 1) out @ [CHR 0x00]) \<le> n"
  using assms by (simp add: vsnprintf_def sprintputch_fold)

theorem vsnprintf_truncates_witness:
  "vsnprintf False 5 ''%03d:%s'' [VInt 7, VStr (Some ''ab'')] = Some (''007:'' @ [CHR 0x00], 6)"
proof -
  have "vprintfmt ''%03d:%s'' [VInt 7, VStr (Some ''ab'')] = Some ''007:ab''" by code_simp
  from vsnprintf_truncates [OF this, of 5] show ?thesis by simp
qed

text \<open>\<open>rand\<close> never returns zero, although its comment gives the range from zero: the macro \<open>do_div\<close>
  adds one after the remainder by \<open>RAND_MAX\<close>.\<close>

theorem rand_range: "1 \<le> fst (rand nx) \<and> fst (rand nx) \<le> int RAND_MAX"
proof -
  have "x mod RAND_MAX < RAND_MAX" for x by (simp add: RAND_MAX_def)
  from this [of "unat (drop_bit 12 (and (nx * 0x5DEECE66D + 0xB) (2 ^ 48 - 1)))"]
  show ?thesis unfolding rand_def Let_def by simp
qed

end
