(* ===== verification/Pmm.thy ===== *)
theory Pmm
  imports CList
begin

section \<open>Physical page allocators (kern/mm/default_pmm.c, kern/mm/best_fit_pmm.c)\<close>

text \<open>
  The page descriptors are a function from page index to \<open>Page\<close>; the free list is the ring
  at \<open>FreeHead\<close> of the links \<open>PLink i\<close> (\<open>pages[i].page_link\<close>), worked on by the pointer
  operations of \<open>CList\<close>. First fit is lab8's manager, best fit lab2's; they share every
  operation but the search of the allocation.
\<close>

subsection \<open>Data\<close>

datatype pnode = FreeHead | PLink nat

record Page =
  pg_ref :: int
  pg_flags :: "64 word"
  pg_property :: nat

record pmm =
  pages :: "nat \<Rightarrow> Page"
  free_list :: "pnode links"
  nr_free :: nat

definition PG_reserved :: nat where "PG_reserved = 0"
definition PG_property :: nat where "PG_property = 1"

definition PageReserved :: "Page \<Rightarrow> bool" where "PageReserved p = bit (pg_flags p) PG_reserved"
definition PageProperty :: "Page \<Rightarrow> bool" where "PageProperty p = bit (pg_flags p) PG_property"

definition SetPageReserved :: "Page \<Rightarrow> Page" where
  "SetPageReserved p = p\<lparr>pg_flags := set_bit PG_reserved (pg_flags p)\<rparr>"
definition SetPageProperty :: "Page \<Rightarrow> Page" where
  "SetPageProperty p = p\<lparr>pg_flags := set_bit PG_property (pg_flags p)\<rparr>"
definition ClearPageProperty :: "Page \<Rightarrow> Page" where
  "ClearPageProperty p = p\<lparr>pg_flags := unset_bit PG_property (pg_flags p)\<rparr>"

definition set_page_ref :: "Page \<Rightarrow> int \<Rightarrow> Page" where
  "set_page_ref p v = p\<lparr>pg_ref := v\<rparr>"

fun le2page :: "pnode \<Rightarrow> nat option" where
  "le2page (PLink i) = Some i"
| "le2page FreeHead = None"

definition upd_page :: "nat \<Rightarrow> (Page \<Rightarrow> Page) \<Rightarrow> pmm \<Rightarrow> pmm" where
  "upd_page i f s = s\<lparr>pages := (pages s)(i := f (pages s i))\<rparr>"

subsection \<open>Operations\<close>

definition default_init :: "pmm \<Rightarrow> pmm" where
  "default_init s = s\<lparr>free_list := list_init FreeHead (free_list s), nr_free := 0\<rparr>"

text \<open>
  The search loop both \<open>default_init_memmap\<close> and \<open>default_free_pages\<close> run: it goes on after
  the \<open>list_add\<close> at the end of the list, as the code does (no \<open>break\<close> in that branch).
\<close>

partial_function (option) insert_loop :: "pnode \<Rightarrow> nat \<Rightarrow> pnode links \<Rightarrow> pnode links option" where
  "insert_loop le base h =
     (let le = list_next le h in
      if le = FreeHead then Some h
      else do {
        page \<leftarrow> le2page le;
        if base < page then Some (list_add_before le (PLink base) h)
        else if list_next le h = FreeHead then insert_loop le base (list_add le (PLink base) h)
        else insert_loop le base h
      })"

definition insert_free :: "nat \<Rightarrow> pnode links \<Rightarrow> pnode links option" where
  "insert_free base h =
     (if list_empty FreeHead h then Some (list_add FreeHead (PLink base) h)
      else insert_loop FreeHead base h)"

fun memmap_loop :: "nat \<Rightarrow> nat \<Rightarrow> (nat \<Rightarrow> Page) \<Rightarrow> (nat \<Rightarrow> Page) option" where
  "memmap_loop p 0 pg = Some pg"
| "memmap_loop p (Suc k) pg = do {
     assert_c (PageReserved (pg p));
     memmap_loop (Suc p) k
       (pg(p := set_page_ref ((pg p)\<lparr>pg_flags := 0, pg_property := 0\<rparr>) 0))
   }"

definition default_init_memmap :: "nat \<Rightarrow> nat \<Rightarrow> pmm \<Rightarrow> pmm option" where
  "default_init_memmap base n s = do {
     assert_c (n > 0);
     pg \<leftarrow> memmap_loop base n (pages s);
     let s = s\<lparr>pages := pg\<rparr>;
     let s = upd_page base (\<lambda>p. p\<lparr>pg_property := n\<rparr>) s;
     let s = upd_page base SetPageProperty s;
     let s = s\<lparr>nr_free := nr_free s + n\<rparr>;
     h \<leftarrow> insert_free base (free_list s);
     Some (s\<lparr>free_list := h\<rparr>)
   }"

partial_function (option) first_fit :: "pnode \<Rightarrow> nat \<Rightarrow> pmm \<Rightarrow> nat option option" where
  "first_fit le n s =
     (let le = list_next le (free_list s) in
      if le = FreeHead then Some None
      else do {
        p \<leftarrow> le2page le;
        if pg_property (pages s p) \<ge> n then Some (Some p) else first_fit le n s
      })"

text \<open>The second half of an allocation: take the chosen block off the list, give the rest back.\<close>

definition take_block :: "nat \<Rightarrow> nat \<Rightarrow> pmm \<Rightarrow> pmm" where
  "take_block page n s =
     (let prev = list_prev (PLink page) (free_list s);
          s = s\<lparr>free_list := list_del (PLink page) (free_list s)\<rparr>;
          s = (if pg_property (pages s page) > n then
                 let p = page + n;
                     s = upd_page p (\<lambda>q. q\<lparr>pg_property := pg_property (pages s page) - n\<rparr>) s;
                     s = upd_page p SetPageProperty s
                 in s\<lparr>free_list := list_add prev (PLink p) (free_list s)\<rparr>
               else s);
          s = s\<lparr>nr_free := nr_free s - n\<rparr>
      in upd_page page ClearPageProperty s)"

definition default_alloc_pages :: "nat \<Rightarrow> pmm \<Rightarrow> (nat option \<times> pmm) option" where
  "default_alloc_pages n s = do {
     assert_c (n > 0);
     if n > nr_free s then Some (None, s)
     else do {
       found \<leftarrow> first_fit FreeHead n s;
       case found of None \<Rightarrow> Some (None, s)
       | Some page \<Rightarrow> Some (Some page, take_block page n s)
     }
   }"

fun free_loop :: "nat \<Rightarrow> nat \<Rightarrow> (nat \<Rightarrow> Page) \<Rightarrow> (nat \<Rightarrow> Page) option" where
  "free_loop p 0 pg = Some pg"
| "free_loop p (Suc k) pg = do {
     assert_c (\<not> PageReserved (pg p) \<and> \<not> PageProperty (pg p));
     free_loop (Suc p) k (pg(p := set_page_ref ((pg p)\<lparr>pg_flags := 0\<rparr>) 0))
   }"

text \<open>The two merges: with the block before \<open>base\<close>, then with the block after the result.\<close>

definition merge_prev :: "nat \<Rightarrow> pmm \<Rightarrow> nat \<times> pmm" where
  "merge_prev base s =
     (case list_prev (PLink base) (free_list s) of
        FreeHead \<Rightarrow> (base, s)
      | PLink p \<Rightarrow>
          if p + pg_property (pages s p) = base then
            let s = upd_page p (\<lambda>q. q\<lparr>pg_property := pg_property q + pg_property (pages s base)\<rparr>) s;
                s = upd_page base ClearPageProperty s
            in (p, s\<lparr>free_list := list_del (PLink base) (free_list s)\<rparr>)
          else (base, s))"

definition merge_next :: "nat \<Rightarrow> pmm \<Rightarrow> pmm" where
  "merge_next base s =
     (case list_next (PLink base) (free_list s) of
        FreeHead \<Rightarrow> s
      | PLink p \<Rightarrow>
          if base + pg_property (pages s base) = p then
            let s = upd_page base (\<lambda>q. q\<lparr>pg_property := pg_property q + pg_property (pages s p)\<rparr>) s;
                s = upd_page p ClearPageProperty s
            in s\<lparr>free_list := list_del (PLink p) (free_list s)\<rparr>
          else s)"

definition default_free_pages :: "nat \<Rightarrow> nat \<Rightarrow> pmm \<Rightarrow> pmm option" where
  "default_free_pages base n s = do {
     assert_c (n > 0);
     pg \<leftarrow> free_loop base n (pages s);
     let s = s\<lparr>pages := pg\<rparr>;
     let s = upd_page base (\<lambda>p. p\<lparr>pg_property := n\<rparr>) s;
     let s = upd_page base SetPageProperty s;
     let s = s\<lparr>nr_free := nr_free s + n\<rparr>;
     h \<leftarrow> insert_free base (free_list s);
     let s = s\<lparr>free_list := h\<rparr>;
     let (base, s) = merge_prev base s;
     Some (merge_next base s)
   }"

definition default_nr_free_pages :: "pmm \<Rightarrow> nat" where
  "default_nr_free_pages s = nr_free s"

text \<open>
  Best fit: the scan keeps the smallest block that is large enough; \<open>best_size\<close> starts at
  the largest \<open>size_t\<close>.
\<close>

partial_function (option) best_fit_loop ::
    "pnode \<Rightarrow> nat \<Rightarrow> pmm \<Rightarrow> nat \<Rightarrow> nat option \<Rightarrow> nat option option" where
  "best_fit_loop le n s best_size page =
     (let le = list_next le (free_list s) in
      if le = FreeHead then Some page
      else do {
        p \<leftarrow> le2page le;
        if pg_property (pages s p) \<ge> n \<and> pg_property (pages s p) < best_size
        then best_fit_loop le n s (pg_property (pages s p)) (Some p)
        else best_fit_loop le n s best_size page
      })"

definition best_fit_alloc_pages :: "nat \<Rightarrow> pmm \<Rightarrow> (nat option \<times> pmm) option" where
  "best_fit_alloc_pages n s = do {
     assert_c (n > 0);
     if n > nr_free s then Some (None, s)
     else do {
       found \<leftarrow> best_fit_loop FreeHead n s (2 ^ 64 - 1) None;
       case found of None \<Rightarrow> Some (None, s)
       | Some page \<Rightarrow> Some (Some page, take_block page n s)
     }
   }"

declare insert_loop.simps [code] first_fit.simps [code] best_fit_loop.simps [code]

subsection \<open>Flag lemmas\<close>

lemmas flag_defs = PG_reserved_def PG_property_def PageReserved_def PageProperty_def
  SetPageReserved_def SetPageProperty_def ClearPageProperty_def set_page_ref_def

lemma flag_simps [simp]:
  "PageProperty (SetPageProperty p)" "PageReserved (SetPageProperty p) = PageReserved p"
  "\<not> PageProperty (ClearPageProperty p)" "PageReserved (ClearPageProperty p) = PageReserved p"
  "pg_property (SetPageProperty p) = pg_property p" "pg_ref (SetPageProperty p) = pg_ref p"
  "pg_property (ClearPageProperty p) = pg_property p" "pg_ref (ClearPageProperty p) = pg_ref p"
  "PageProperty (p\<lparr>pg_property := k\<rparr>) = PageProperty p"
  "PageReserved (p\<lparr>pg_property := k\<rparr>) = PageReserved p"
  "PageProperty (set_page_ref p r) = PageProperty p"
  "PageReserved (set_page_ref p r) = PageReserved p"
  "pg_property (set_page_ref p r) = pg_property p"
  "pg_ref (set_page_ref p r) = r"
  "\<not> PageProperty (p\<lparr>pg_flags := 0\<rparr>)" "\<not> PageReserved (p\<lparr>pg_flags := 0\<rparr>)"
  by (simp_all add: flag_defs bit_set_bit_iff bit_unset_bit_iff)

lemma flag_prop_upd [simp]: "PageProperty (p\<lparr>pg_flags := 0, pg_property := k\<rparr>) = False"
  "PageReserved (p\<lparr>pg_flags := 0, pg_property := k\<rparr>) = False"
  by (simp_all add: flag_defs)

lemma upd_page_simps [simp]:
  "pages (upd_page i f s) = (pages s)(i := f (pages s i))"
  "free_list (upd_page i f s) = free_list s" "nr_free (upd_page i f s) = nr_free s"
  by (simp_all add: upd_page_def)


subsection \<open>The invariant and the set of free pages\<close>

definition sorted_blocks :: "(nat \<Rightarrow> Page) \<Rightarrow> nat list \<Rightarrow> bool" where
  "sorted_blocks pg ps \<longleftrightarrow>
     sorted_wrt (\<lambda>p q. p + pg_property (pg p) \<le> q) ps \<and> (\<forall>p \<in> set ps. 0 < pg_property (pg p))"

definition pmm_wf :: "pmm \<Rightarrow> nat list \<Rightarrow> bool" where
  "pmm_wf s ps \<longleftrightarrow>
     dlist (free_list s) FreeHead (map PLink ps) \<and> sorted_blocks (pages s) ps \<and>
     (\<forall>i. PageProperty (pages s i) \<longleftrightarrow> i \<in> set ps) \<and>
     nr_free s = sum_list (map (\<lambda>p. pg_property (pages s p)) ps) \<and> nr_free s < 2 ^ 32 \<and>
     (\<forall>p \<in> set ps. \<forall>i. p \<le> i \<and> i < p + pg_property (pages s p) \<longrightarrow> \<not> PageReserved (pages s i))"

definition pmm_inv :: "pmm \<Rightarrow> bool" where
  "pmm_inv s \<longleftrightarrow> (\<exists>ps. pmm_wf s ps)"

definition free_set :: "pmm \<Rightarrow> nat set" where
  "free_set s = {i. \<exists>p. PageProperty (pages s p) \<and> p \<le> i \<and> i < p + pg_property (pages s p)}"

lemma free_set_wf:
  "pmm_wf s ps \<Longrightarrow> free_set s = (\<Union>p \<in> set ps. {p..<p + pg_property (pages s p)})"
  by (auto simp: free_set_def pmm_wf_def)

lemma sorted_blocks_append:
  "sorted_blocks pg (xs @ ys) \<longleftrightarrow> sorted_blocks pg xs \<and> sorted_blocks pg ys \<and>
     (\<forall>x \<in> set xs. \<forall>y \<in> set ys. x + pg_property (pg x) \<le> y)"
  by (auto simp: sorted_blocks_def sorted_wrt_append)

lemma sorted_blocks_Nil [simp]: "sorted_blocks pg []"
  by (simp add: sorted_blocks_def)

lemma sorted_blocks_Cons:
  "sorted_blocks pg (x # xs) \<longleftrightarrow> 0 < pg_property (pg x) \<and> sorted_blocks pg xs \<and>
     (\<forall>y \<in> set xs. x + pg_property (pg x) \<le> y)"
  by (auto simp: sorted_blocks_def)

lemma sorted_blocks_cong:
  "(\<And>p. p \<in> set ps \<Longrightarrow> pg_property (pg' p) = pg_property (pg p)) \<Longrightarrow>
     sorted_blocks pg' ps = sorted_blocks pg ps"
  by (induction ps) (auto simp: sorted_blocks_Cons sorted_blocks_def)

lemma sorted_blocks_inside:
  "sorted_blocks pg ps \<Longrightarrow> p \<in> set ps \<Longrightarrow> q \<in> set ps \<Longrightarrow> p \<le> q \<Longrightarrow> q < p + pg_property (pg p) \<Longrightarrow> p = q"
proof (induction ps)
  case (Cons x xs)
  then show ?case by (auto simp: sorted_blocks_Cons)
qed simp

lemma sorted_blocks_disjoint:
  "sorted_blocks pg ps \<Longrightarrow> p \<in> set ps \<Longrightarrow> q \<in> set ps \<Longrightarrow> p \<noteq> q \<Longrightarrow>
     {p..<p + pg_property (pg p)} \<inter> {q..<q + pg_property (pg q)} = {}"
proof (induction ps)
  case (Cons x xs)
  then show ?case by (fastforce simp: sorted_blocks_Cons)
qed simp

lemma pmm_inv_finite: "pmm_inv s \<Longrightarrow> finite (free_set s)"
  by (auto simp: pmm_inv_def free_set_wf)

text \<open>The counter \<open>nr_free\<close> is the number of free pages.\<close>

lemma pmm_inv_card: "pmm_inv s \<Longrightarrow> nr_free s = card (free_set s)"
proof -
  have "sorted_blocks pg ps \<Longrightarrow>
      card (\<Union>p \<in> set ps. {p..<p + pg_property (pg p)}) = sum_list (map (\<lambda>p. pg_property (pg p)) ps)"
    for pg ps
  proof (induction ps)
    case (Cons x xs)
    have "{x..<x + pg_property (pg x)} \<inter> (\<Union>p \<in> set xs. {p..<p + pg_property (pg p)}) = {}"
      using Cons.prems by (fastforce simp: sorted_blocks_Cons)
    then show ?case using Cons by (simp add: card_Un_disjoint sorted_blocks_Cons)
  qed simp
  then have "pmm_wf s ps \<Longrightarrow> ?thesis" for ps
    unfolding free_set_wf by (simp add: pmm_wf_def)
  then show "pmm_inv s \<Longrightarrow> ?thesis" by (auto simp: pmm_inv_def)
qed

subsection \<open>The searches\<close>

lemma list_next_last:
  assumes "dlist h FreeHead (map PLink (as @ bs))"
  shows "list_next (last (FreeHead # map PLink as)) h = (case bs of [] \<Rightarrow> FreeHead | b # _ \<Rightarrow> PLink b)"
  using dlist_nxt_last [of h FreeHead "map PLink as" "map PLink bs"] assms
  by (cases bs) (auto simp: list_next_def)

lemma first_fit_eq:
  assumes "dlist (free_list s) FreeHead (map PLink (as @ bs))"
  shows "first_fit (last (FreeHead # map PLink as)) n s =
           Some (find (\<lambda>p. pg_property (pages s p) \<ge> n) bs)"
  using assms
proof (induction bs arbitrary: as)
  case Nil
  then show ?case using list_next_last [OF Nil] by (subst first_fit.simps) (simp del: last.simps)
next
  case (Cons b bs)
  have "first_fit (last (FreeHead # map PLink (as @ [b]))) n s =
           Some (find (\<lambda>p. pg_property (pages s p) \<ge> n) bs)"
    using Cons.IH [of "as @ [b]"] Cons.prems by simp
  then show ?case using list_next_last [OF Cons.prems] by (subst first_fit.simps) simp
qed

lemma first_fit_head:
  "dlist (free_list s) FreeHead (map PLink ps) \<Longrightarrow>
     first_fit FreeHead n s = Some (find (\<lambda>p. pg_property (pages s p) \<ge> n) ps)"
  using first_fit_eq [of s "[]" ps n] by simp

fun best_of :: "(nat \<Rightarrow> nat) \<Rightarrow> nat \<Rightarrow> nat list \<Rightarrow> nat \<Rightarrow> nat option \<Rightarrow> nat option" where
  "best_of f n [] m r = r"
| "best_of f n (b # bs) m r =
     (if f b \<ge> n \<and> f b < m then best_of f n bs (f b) (Some b) else best_of f n bs m r)"

lemma best_fit_loop_eq:
  assumes "dlist (free_list s) FreeHead (map PLink (as @ bs))"
  shows "best_fit_loop (last (FreeHead # map PLink as)) n s m r =
           Some (best_of (\<lambda>p. pg_property (pages s p)) n bs m r)"
  using assms
proof (induction bs arbitrary: as m r)
  case Nil
  then show ?case using list_next_last [OF Nil] by (subst best_fit_loop.simps) (simp del: last.simps)
next
  case (Cons b bs)
  have "best_fit_loop (last (FreeHead # map PLink (as @ [b]))) n s m r =
           Some (best_of (\<lambda>p. pg_property (pages s p)) n bs m r)" for m r
    using Cons.IH [of "as @ [b]"] Cons.prems by simp
  then show ?case using list_next_last [OF Cons.prems]
    by (subst best_fit_loop.simps) (simp add: Let_def)
qed

lemma best_of_spec:
  assumes "best_of f n bs m None = r" "\<forall>b \<in> set bs. f b < m"
  shows "case r of None \<Rightarrow> \<forall>b \<in> set bs. f b < n
         | Some p \<Rightarrow> p \<in> set bs \<and> n \<le> f p \<and> (\<forall>b \<in> set bs. n \<le> f b \<longrightarrow> f p \<le> f b)"
proof -
  have *: "best_of f n bs m (Some q) = r \<Longrightarrow> n \<le> f q \<Longrightarrow> f q = m \<Longrightarrow>
     \<exists>p. r = Some p \<and> p \<in> insert q (set bs) \<and> n \<le> f p \<and> f p \<le> m \<and>
         (\<forall>b \<in> set bs. n \<le> f b \<longrightarrow> f p \<le> f b)" for q bs m r
  proof (induction bs arbitrary: q m)
    case (Cons b bs)
    show ?case
    proof (cases "f b \<ge> n \<and> f b < m")
      case True
      with Cons.prems Cons.IH [of "f b" b] show ?thesis by fastforce
    next
      case False
      with Cons.prems Cons.IH [of m q] show ?thesis by fastforce
    qed
  qed auto
  show ?thesis using assms
  proof (induction bs)
    case Nil
    then show ?case by auto
  next
    case (Cons b bs)
    show ?case
    proof (cases "n \<le> f b")
      case True
      with Cons.prems * [of bs "f b" b r] show ?thesis by fastforce
    next
      case False
      with Cons show ?thesis by (auto split: option.splits)
    qed
  qed
qed


subsection \<open>Taking a block\<close>

lemma take_block_pages:
  assumes "0 < n"
  shows "pg_property (pages (take_block p n s) q) =
      (if n < pg_property (pages s p) \<and> q = p + n then pg_property (pages s p) - n
       else pg_property (pages s q))"
    and "PageProperty (pages (take_block p n s) q) \<longleftrightarrow>
      q \<noteq> p \<and> (n < pg_property (pages s p) \<and> q = p + n \<or> PageProperty (pages s q))"
    and "PageReserved (pages (take_block p n s) q) = PageReserved (pages s q)"
    and "nr_free (take_block p n s) = nr_free s - n"
  using assms by (auto simp: take_block_def Let_def)

lemma take_block_links:
  assumes "dlist (free_list s) FreeHead (map PLink (as @ p # bs))" "p + n \<notin> set (as @ p # bs)"
  shows "dlist (free_list (take_block p n s)) FreeHead
    (map PLink (as @ (if n < pg_property (pages s p) then [p + n] else []) @ bs))"
proof -
  have "dlist (list_del (PLink p) (free_list s)) FreeHead (map PLink as @ map PLink bs)"
    by (rule dlist_del) (use assms in simp)
  moreover from this have
    "dlist (list_add (last (FreeHead # map PLink as)) (PLink (p + n)) (list_del (PLink p) (free_list s)))
      FreeHead (map PLink as @ PLink (p + n) # map PLink bs)"
    by (rule dlist_add_last) (use assms in auto)
  moreover have "prv (free_list s) (PLink p) = last (FreeHead # map PLink as)"
    by (rule dlist_prv) (use assms in simp)
  ultimately show ?thesis by (auto simp: take_block_def Let_def list_prev_def)
qed

lemma take_block_wf:
  assumes wf: "pmm_wf s ps" and "p \<in> set ps" "n \<le> pg_property (pages s p)" "0 < n"
  shows "pmm_inv (take_block p n s) \<and> free_set (take_block p n s) = free_set s - {p..<p + n}"
proof -
  let ?t = "take_block p n s" and ?f = "\<lambda>q. pg_property (pages s q)"
  obtain as bs where ps: "ps = as @ p # bs" using assms(2) by (meson split_list)
  define new where "new = (if n < ?f p then [p + n] else [])"
  note pgs = take_block_pages [OF assms(4), of p s]
  have sb: "sorted_blocks (pages s) (as @ p # bs)" and fl: "\<And>i. PageProperty (pages s i) \<longleftrightarrow> i \<in> set ps"
    using wf by (auto simp: pmm_wf_def ps)
  have notin: "p \<notin> set as" "p \<notin> set bs" "p + n \<notin> set as" "n < ?f p \<Longrightarrow> p + n \<notin> set bs"
    using sb assms(4) by (auto simp: sorted_blocks_append sorted_blocks_Cons)
  have "dlist (free_list ?t) FreeHead (map PLink (as @ new @ bs))"
  proof (cases "n < ?f p")
    case True
    then show ?thesis unfolding new_def
      by (intro take_block_links) (use wf ps notin assms(4) in \<open>auto simp: pmm_wf_def\<close>)
  next
    case False
    then show ?thesis using wf ps dlist_del [of "free_list s" FreeHead "map PLink as" "PLink p" "map PLink bs"]
      by (auto simp: new_def take_block_def Let_def pmm_wf_def)
  qed
  moreover have old: "q \<in> set as \<union> set bs \<Longrightarrow> pg_property (pages ?t q) = ?f q" for q
    using notin by (auto simp: pgs)
  moreover have "sorted_blocks (pages ?t) (as @ new @ bs)"
    using sb assms(3,4) old sorted_blocks_cong [of as "pages ?t" "pages s"]
      sorted_blocks_cong [of bs "pages ?t" "pages s"]
    by (auto simp: new_def sorted_blocks_append sorted_blocks_Cons pgs)
  moreover have "PageProperty (pages ?t i) \<longleftrightarrow> i \<in> set (as @ new @ bs)" for i
    using fl notin assms(4) by (auto simp: pgs ps new_def)
  moreover have "(\<Sum>q\<leftarrow>as. pg_property (pages ?t q)) = sum_list (map ?f as)"
      "(\<Sum>q\<leftarrow>bs. pg_property (pages ?t q)) = sum_list (map ?f bs)"
    using old by (auto intro!: arg_cong [where f = sum_list])
  then have "nr_free ?t = sum_list (map (\<lambda>q. pg_property (pages ?t q)) (as @ new @ bs))"
    using wf assms(3) by (simp add: pmm_wf_def ps new_def pgs(4)) (auto simp: pgs(1))
  moreover have "\<not> PageReserved (pages ?t i)"
    if "q \<in> set (as @ new @ bs)" "q \<le> i" "i < q + pg_property (pages ?t q)" for q i
    using wf that old assms(3) unfolding pmm_wf_def ps new_def
    by (auto simp: pgs split: if_splits)
  ultimately have w: "pmm_wf ?t (as @ new @ bs)"
    using wf by (auto simp: pmm_wf_def pgs(4))
  have "free_set ?t = (\<Union>q \<in> set as \<union> set bs. {q..<q + ?f q}) \<union> {p + n..<p + ?f p}"
    unfolding free_set_wf [OF w] using old by (auto simp: new_def pgs(1))
  moreover have "q \<in> set as \<union> set bs \<Longrightarrow> {q..<q + ?f q} \<inter> {p..<p + n} = {}" for q
    using sb assms(3) by (fastforce simp: sorted_blocks_append sorted_blocks_Cons)
  moreover have "free_set s = (\<Union>q \<in> set as \<union> set bs. {q..<q + ?f q}) \<union> {p..<p + ?f p}"
    unfolding free_set_wf [OF wf] ps by auto
  ultimately show ?thesis using w assms(3) unfolding pmm_inv_def by fastforce
qed

lemma block_in_free_set:
  "pmm_wf s ps \<Longrightarrow> p \<in> set ps \<Longrightarrow> n \<le> pg_property (pages s p) \<Longrightarrow> {p..<p + n} \<subseteq> free_set s"
  by (force simp: free_set_wf)

subsection \<open>Allocation\<close>

text \<open>
  The outcome both managers share: a block of \<open>n\<close> free pages leaves the free set, or
  \<open>NULL\<close> is returned, nothing changes, and no block is large enough.
\<close>

definition alloc_outcome :: "nat \<Rightarrow> pmm \<Rightarrow> nat option \<Rightarrow> pmm \<Rightarrow> bool" where
  "alloc_outcome n s r t \<longleftrightarrow>
     (case r of
        None \<Rightarrow> t = s \<and> (\<forall>p. PageProperty (pages s p) \<longrightarrow> pg_property (pages s p) < n)
      | Some p \<Rightarrow> PageProperty (pages s p) \<and> n \<le> pg_property (pages s p) \<and>
          {p..<p + n} \<subseteq> free_set s \<and> free_set t = free_set s - {p..<p + n} \<and>
          nr_free t = nr_free s - n)"

lemma take_block_outcome:
  "pmm_wf s ps \<Longrightarrow> p \<in> set ps \<Longrightarrow> n \<le> pg_property (pages s p) \<Longrightarrow> 0 < n \<Longrightarrow>
     pmm_inv (take_block p n s) \<and> alloc_outcome n s (Some p) (take_block p n s)"
  using take_block_wf [of s ps p n] block_in_free_set [of s ps p n] take_block_pages(4) [of n p s]
  by (auto simp: alloc_outcome_def pmm_wf_def)

lemma nr_free_too_small:
  assumes "pmm_wf s ps" "nr_free s < n"
  shows "alloc_outcome n s None s"
proof -
  have "pg_property (pages s p) \<le> nr_free s" if "p \<in> set ps" for p
    using assms(1) member_le_sum_list [of "pg_property (pages s p)" "map (\<lambda>p. pg_property (pages s p)) ps"] that
    by (auto simp: pmm_wf_def)
  then show ?thesis using assms by (fastforce simp: alloc_outcome_def pmm_wf_def)
qed

lemma default_alloc_ok:
  assumes "pmm_inv s" "0 < n"
  shows "\<exists>r t. default_alloc_pages n s = Some (r, t) \<and> pmm_inv t \<and> alloc_outcome n s r t \<and>
    (\<forall>p. r = Some p \<longrightarrow> (\<forall>q < p. PageProperty (pages s q) \<longrightarrow> pg_property (pages s q) < n))"
proof -
  obtain ps where wf: "pmm_wf s ps" using assms(1) by (auto simp: pmm_inv_def)
  then have ff: "first_fit FreeHead n s = Some (find (\<lambda>p. pg_property (pages s p) \<ge> n) ps)"
    by (intro first_fit_head) (simp add: pmm_wf_def)
  show ?thesis
  proof (cases "n > nr_free s \<or> find (\<lambda>p. pg_property (pages s p) \<ge> n) ps = None")
    case True
    have "alloc_outcome n s None s"
    proof (cases "n > nr_free s")
      case False
      with True wf show ?thesis by (auto simp: find_None_iff alloc_outcome_def pmm_wf_def)
    qed (use wf nr_free_too_small in blast)
    then show ?thesis using True assms ff by (auto simp: default_alloc_pages_def)
  next
    case False
    then obtain p where p: "find (\<lambda>p. pg_property (pages s p) \<ge> n) ps = Some p" by auto
    then obtain i where i: "i < length ps" "p = ps ! i" "n \<le> pg_property (pages s p)"
        "\<forall>j < i. pg_property (pages s (ps ! j)) < n"
      unfolding find_Some_iff not_le by blast
    have "pg_property (pages s q) < n" if q: "q < p" "PageProperty (pages s q)" for q
    proof -
      obtain j where j: "j < length ps" "q = ps ! j"
        using q wf by (auto simp: pmm_wf_def in_set_conv_nth)
      have "\<not> i \<le> j"
        using sorted_wrt_nth_less [of "\<lambda>p q. p + pg_property (pages s p) \<le> q" ps i j] q i j wf
        by (cases "i = j") (auto simp: pmm_wf_def sorted_blocks_def)
      then show ?thesis using i j by auto
    qed
    moreover have "pmm_inv (take_block p n s) \<and> alloc_outcome n s (Some p) (take_block p n s)"
      by (rule take_block_outcome [OF wf]) (use i assms in auto)
    ultimately show ?thesis using False p ff assms by (auto simp: default_alloc_pages_def)
  qed
qed

lemma best_fit_alloc_ok:
  assumes "pmm_inv s" "0 < n"
  shows "\<exists>r t. best_fit_alloc_pages n s = Some (r, t) \<and> pmm_inv t \<and> alloc_outcome n s r t \<and>
    (\<forall>p. r = Some p \<longrightarrow> (\<forall>q. PageProperty (pages s q) \<and> n \<le> pg_property (pages s q) \<longrightarrow>
        pg_property (pages s p) \<le> pg_property (pages s q)))"
proof -
  obtain ps where wf: "pmm_wf s ps" using assms(1) by (auto simp: pmm_inv_def)
  let ?f = "\<lambda>p. pg_property (pages s p)"
  define r where "r = best_of ?f n ps (2 ^ 64 - 1) None"
  have bf: "best_fit_loop FreeHead n s (2 ^ 64 - 1) None = Some r"
    using best_fit_loop_eq [of s "[]" ps n] wf by (simp add: pmm_wf_def r_def)
  have "?f p \<le> nr_free s" if "p \<in> set ps" for p
    using wf member_le_sum_list [of "?f p" "map ?f ps"] that by (auto simp: pmm_wf_def)
  then have "\<forall>p \<in> set ps. ?f p < 2 ^ 64 - 1" using wf by (fastforce simp: pmm_wf_def)
  from best_of_spec [OF r_def [symmetric] this]
  have spec: "case r of None \<Rightarrow> \<forall>b \<in> set ps. ?f b < n
     | Some p \<Rightarrow> p \<in> set ps \<and> n \<le> ?f p \<and> (\<forall>b \<in> set ps. n \<le> ?f b \<longrightarrow> ?f p \<le> ?f b)" .
  show ?thesis
  proof (cases "n > nr_free s \<or> r = None")
    case True
    have "alloc_outcome n s None s"
    proof (cases "n > nr_free s")
      case False
      with True wf spec show ?thesis by (auto simp: alloc_outcome_def pmm_wf_def)
    qed (use wf nr_free_too_small in blast)
    then show ?thesis using True assms bf by (auto simp: best_fit_alloc_pages_def)
  next
    case False
    then obtain p where p: "r = Some p" by auto
    have "pmm_inv (take_block p n s) \<and> alloc_outcome n s (Some p) (take_block p n s)"
      by (rule take_block_outcome [OF wf]) (use p spec assms in auto)
    then show ?thesis using False p bf spec assms wf
      by (auto simp: best_fit_alloc_pages_def pmm_wf_def)
  qed
qed


subsection \<open>Freeing\<close>

lemma free_loop_eq:
  "free_loop p k pg =
     (if \<forall>i. p \<le> i \<and> i < p + k \<longrightarrow> \<not> PageReserved (pg i) \<and> \<not> PageProperty (pg i)
      then Some (\<lambda>i. if p \<le> i \<and> i < p + k then set_page_ref ((pg i)\<lparr>pg_flags := 0\<rparr>) 0 else pg i)
      else None)"
proof (induction p k pg rule: free_loop.induct)
  case (2 p k pg)
  show ?case
  proof (cases "PageReserved (pg p) \<or> PageProperty (pg p)")
    case True
    then show ?thesis by (auto intro!: exI [of _ p])
  next
    case False
    let ?pg = "pg(p := set_page_ref ((pg p)\<lparr>pg_flags := 0\<rparr>) 0)"
    let ?f = "\<lambda>p k pg i. if p \<le> i \<and> i < p + k then set_page_ref ((pg i)\<lparr>pg_flags := 0\<rparr>) 0 else pg i"
    have *: "p \<le> i \<and> i < p + Suc k \<longleftrightarrow> i = p \<or> Suc p \<le> i \<and> i < Suc p + k" for i by auto
    have C: "(\<forall>i. p \<le> i \<and> i < p + Suc k \<longrightarrow> \<not> PageReserved (pg i) \<and> \<not> PageProperty (pg i)) \<longleftrightarrow>
        (\<forall>i. Suc p \<le> i \<and> i < Suc p + k \<longrightarrow> \<not> PageReserved (?pg i) \<and> \<not> PageProperty (?pg i))"
      using False unfolding * by auto
    have F: "?f (Suc p) k ?pg = ?f p (Suc k) pg"
      unfolding * by (rule ext) auto
    have I: "free_loop (Suc p) k ?pg =
        (if \<forall>i. Suc p \<le> i \<and> i < Suc p + k \<longrightarrow> \<not> PageReserved (?pg i) \<and> \<not> PageProperty (?pg i)
         then Some (?f (Suc p) k ?pg) else None)"
      by (rule "2.IH") (use False in simp)
    have S: "free_loop p (Suc k) pg = free_loop (Suc p) k ?pg" using False by simp
    show ?thesis by (simp only: S I C F)
  qed
qed (auto simp: fun_eq_iff)

lemma list_next_mid:
  assumes "dlist h FreeHead (map PLink (as @ a # bs))"
  shows "list_next (PLink a) h = (case bs of [] \<Rightarrow> FreeHead | b # _ \<Rightarrow> PLink b)"
  using dlist_nxt [of h FreeHead "map PLink as" "PLink a" "map PLink bs"] assms
  by (cases bs) (auto simp: list_next_def)

text \<open>Below some block of the list, the new block is linked in front of the first such block.\<close>

lemma insert_loop_before:
  assumes "dlist h FreeHead (map PLink (us @ as @ b # bs))" "\<forall>a \<in> set as. a < base" "base < b"
  shows "insert_loop (last (FreeHead # map PLink us)) base h =
           Some (list_add_before (PLink b) (PLink base) h)"
  using assms(1,2)
proof (induction as arbitrary: us)
  case Nil
  then show ?case using list_next_last [of h us "b # bs"] assms(3)
    by (subst insert_loop.simps) (simp add: Let_def del: last.simps)
next
  case (Cons a as)
  have nx: "list_next (last (FreeHead # map PLink us)) h = PLink a"
    using list_next_last [of h us "a # as @ b # bs"] Cons.prems by simp
  have "list_next (PLink a) h \<noteq> FreeHead"
    using list_next_mid [of h us a "as @ b # bs"] Cons.prems(1) by (cases as) auto
  moreover have "insert_loop (PLink a) base h = Some (list_add_before (PLink b) (PLink base) h)"
    using Cons.IH [of "us @ [a]"] Cons.prems by simp
  ultimately show ?case using nx Cons.prems(2)
    by (subst insert_loop.simps) (simp add: Let_def del: last.simps)
qed

text \<open>
  Above every block, the loop links \<open>base\<close> behind the last block and then, one round later,
  behind itself: its \<open>prev\<close> link ends up pointing to itself.
\<close>

definition self_prev :: "nat \<Rightarrow> pnode links \<Rightarrow> pnode links" where
  "self_prev base h = h\<lparr>prv := (prv h)(PLink base := PLink base)\<rparr>"

lemma list_add_self:
  assumes "dlist h FreeHead (map PLink (ps @ [base]))"
  shows "list_add (PLink base) (PLink base) h = self_prev base h"
proof -
  have "nxt h (PLink base) = FreeHead" "prv h FreeHead = PLink base"
    using dlist_nxt [of h FreeHead "map PLink ps" "PLink base" "[]"] dlist_prv_head [OF assms] assms
    by simp_all
  then show ?thesis
    by (auto simp: list_add_def list_add_after_def raw_list_add_def self_prev_def fun_eq_iff
        intro!: links.equality)
qed

lemma insert_loop_tail:
  assumes "dlist h FreeHead (map PLink (us @ as @ [a]))" "\<forall>a' \<in> set (us @ as @ [a]). a' < base"
  shows "insert_loop (last (FreeHead # map PLink us)) base h =
           Some (self_prev base (list_add (PLink a) (PLink base) h))"
  using assms
proof (induction as arbitrary: us)
  case Nil
  let ?h = "list_add (PLink a) (PLink base) h"
  have nx: "list_next (last (FreeHead # map PLink us)) h = PLink a" "list_next (PLink a) h = FreeHead"
    using list_next_last [of h us "[a]"] list_next_mid [of h us a "[]"] Nil.prems
    by (simp_all del: last.simps)
  have d: "dlist ?h FreeHead (map PLink ((us @ [a]) @ [base]))"
    using dlist_add [of h FreeHead "map PLink us" "PLink a" "[]" "PLink base"] Nil.prems by auto
  have nx': "list_next (PLink a) ?h = PLink base" "list_next (PLink base) ?h = FreeHead"
    using list_next_mid [of ?h us a "[base]"] list_next_mid [of ?h "us @ [a]" base "[]"] d
    by simp_all
  have "insert_loop (PLink base) base (self_prev base ?h) = Some (self_prev base ?h)"
    using nx'(2) by (subst insert_loop.simps) (simp add: list_next_def self_prev_def)
  then have "insert_loop (PLink a) base ?h = Some (self_prev base ?h)"
    using nx' list_add_self [OF d] by (subst insert_loop.simps) (simp add: Let_def)
  then show ?case using nx Nil.prems(2)
    by (subst insert_loop.simps) (simp add: Let_def del: last.simps)
next
  case (Cons b as)
  have nx: "list_next (last (FreeHead # map PLink us)) h = PLink b"
    using list_next_last [of h us "b # as @ [a]"] Cons.prems by simp
  have "list_next (PLink b) h \<noteq> FreeHead"
    using list_next_mid [of h us b "as @ [a]"] Cons.prems(1) by (cases as) auto
  moreover have "insert_loop (PLink b) base h = Some (self_prev base (list_add (PLink a) (PLink base) h))"
    using Cons.IH [of "us @ [b]"] Cons.prems by simp
  ultimately show ?case using nx Cons.prems(2)
    by (subst insert_loop.simps) (simp add: Let_def del: last.simps)
qed


lemma insert_free_before:
  assumes "dlist h FreeHead (map PLink (as @ b # bs))" "\<forall>a \<in> set as. a < base" "base < b"
    and "base \<notin> set bs"
  shows "\<exists>h'. insert_free base h = Some h' \<and> dlist h' FreeHead (map PLink (as @ base # b # bs))"
proof -
  have "\<not> list_empty FreeHead h" using dlist_empty_iff [OF assms(1)] by simp
  then have "insert_free base h = Some (list_add_before (PLink b) (PLink base) h)"
    using insert_loop_before [of h "[]" as b bs base] assms(1-3) by (simp add: insert_free_def)
  moreover have "dlist (list_add_before (PLink b) (PLink base) h) FreeHead
      (map PLink as @ PLink base # PLink b # map PLink bs)"
    by (rule dlist_add_before) (use assms in auto)
  ultimately show ?thesis by simp
qed

lemma insert_free_empty:
  assumes "dlist h FreeHead []"
  shows "\<exists>h'. insert_free base h = Some h' \<and> dlist h' FreeHead (map PLink [base])"
  using assms dlist_empty_iff [OF assms] dlist_add_head [OF assms, of "PLink base"]
  by (auto simp: insert_free_def)

text \<open>Both merges join a block \<open>p\<close> with the adjacent block \<open>b\<close> that follows it.\<close>

definition joined :: "nat \<Rightarrow> nat \<Rightarrow> pmm \<Rightarrow> pmm \<Rightarrow> bool" where
  "joined p b s t \<longleftrightarrow>
     (\<forall>q. pg_property (pages t q) =
        (if q = p then pg_property (pages s p) + pg_property (pages s b) else pg_property (pages s q))) \<and>
     (\<forall>q. PageProperty (pages t q) \<longleftrightarrow> q \<noteq> b \<and> PageProperty (pages s q)) \<and>
     (\<forall>q. PageReserved (pages t q) = PageReserved (pages s q)) \<and>
     nr_free t = nr_free s \<and> free_list t = list_del (PLink b) (free_list s)"

lemma joined_wf:
  assumes wf: "pmm_wf s (as @ p # b # bs)" and adj: "p + pg_property (pages s p) = b"
    and j: "joined p b s t"
  shows "pmm_wf t (as @ p # bs) \<and> free_set t = free_set s"
proof -
  let ?f = "\<lambda>q. pg_property (pages s q)" and ?g = "\<lambda>q. pg_property (pages t q)"
  have t: "?g q = (if q = p then ?f p + ?f b else ?f q)"
    "PageProperty (pages t q) \<longleftrightarrow> q \<noteq> b \<and> PageProperty (pages s q)"
    "PageReserved (pages t q) = PageReserved (pages s q)" "nr_free t = nr_free s"
    "free_list t = list_del (PLink b) (free_list s)" for q
    using j by (simp_all add: joined_def)
  have sb: "sorted_blocks (pages s) (as @ p # b # bs)" using wf by (simp add: pmm_wf_def)
  then have notin: "p \<noteq> b" "p \<notin> set as" "p \<notin> set bs" "b \<notin> set as" "b \<notin> set bs"
    by (auto simp: sorted_blocks_append sorted_blocks_Cons)
  have old: "sorted_blocks (pages t) as = sorted_blocks (pages s) as"
    "sorted_blocks (pages t) bs = sorted_blocks (pages s) bs"
    "(\<Sum>q\<leftarrow>as. ?g q) = (\<Sum>q\<leftarrow>as. ?f q)" "(\<Sum>q\<leftarrow>bs. ?g q) = (\<Sum>q\<leftarrow>bs. ?f q)"
    using notin by (auto simp: t(1) intro!: sorted_blocks_cong arg_cong [where f = sum_list])
  have "dlist (free_list t) FreeHead (map PLink (as @ [p]) @ map PLink bs)"
    unfolding t(5) by (rule dlist_del) (use wf in \<open>simp add: pmm_wf_def\<close>)
  moreover have "sorted_blocks (pages t) (as @ p # bs)"
    using sb old(1,2) notin by (fastforce simp: sorted_blocks_append sorted_blocks_Cons t(1))
  moreover have "PageProperty (pages t i) \<longleftrightarrow> i \<in> set (as @ p # bs)" for i
    using wf notin by (auto simp: pmm_wf_def t(2))
  moreover have "nr_free t = (\<Sum>q\<leftarrow>as @ p # bs. ?g q)" "nr_free t < 2 ^ 32"
    using wf old by (simp_all add: pmm_wf_def t(1,4))
  moreover have "\<not> PageReserved (pages t i)"
    if "q \<in> set (as @ p # bs)" "q \<le> i" "i < q + ?g q" for q i
    using wf that adj unfolding pmm_wf_def t(3)
    by (auto simp: t(1) split: if_splits) (metis add.assoc linorder_not_less)
  ultimately have w: "pmm_wf t (as @ p # bs)" by (simp add: pmm_wf_def)
  have "{p..<p + (?f p + ?f b)} = {p..<p + ?f p} \<union> {b..<b + ?f b}" using adj by auto
  moreover have "(\<Union>q\<in>set as. {q..<q + ?g q}) = (\<Union>q\<in>set as. {q..<q + ?f q})"
    "(\<Union>q\<in>set bs. {q..<q + ?g q}) = (\<Union>q\<in>set bs. {q..<q + ?f q})"
    using notin by (intro SUP_cong refl, simp add: t(1), metis)+
  ultimately have "free_set t = free_set s"
    unfolding free_set_wf [OF w] free_set_wf [OF wf] using t(1) [of p] by (simp add: Un_assoc)
  with w show ?thesis by blast
qed

definition merge_keeps :: "pmm \<Rightarrow> pmm \<Rightarrow> bool" where
  "merge_keeps s t \<longleftrightarrow> free_set t = free_set s \<and> nr_free t = nr_free s \<and>
     (\<forall>i. PageReserved (pages t i) = PageReserved (pages s i))"

lemma merge_prev_wf:
  assumes wf: "pmm_wf s ps" and "base \<in> set ps"
  shows "\<exists>b t ps'. merge_prev base s = (b, t) \<and> pmm_wf t ps' \<and> b \<in> set ps' \<and> merge_keeps s t"
proof -
  obtain as bs where ps: "ps = as @ base # bs" using assms(2) by (meson split_list)
  have dl: "dlist (free_list s) FreeHead (map PLink as @ PLink base # map PLink bs)"
    using wf by (simp add: pmm_wf_def ps)
  show ?thesis
  proof (cases "\<exists>as' p. as = as' @ [p] \<and> p + pg_property (pages s p) = base")
    case False
    then have "merge_prev base s = (base, s)"
      using dlist_prv [OF dl] by (cases as rule: rev_cases) (auto simp: merge_prev_def list_prev_def)
    then show ?thesis using assms by (auto simp: merge_keeps_def)
  next
    case True
    then obtain as' p where as: "as = as' @ [p]" and adj: "p + pg_property (pages s p) = base" by auto
    define t where "t = snd (merge_prev base s)"
    have "p \<noteq> base" using wf by (auto simp: ps as pmm_wf_def sorted_blocks_append sorted_blocks_Cons)
    then have "merge_prev base s = (p, t)" "joined p base s t"
      using dlist_prv [OF dl] as adj
      by (auto simp: t_def merge_prev_def list_prev_def Let_def joined_def)
    then show ?thesis using joined_wf [of s as' p base bs t] wf adj ps as
      by (force simp: merge_keeps_def joined_def)
  qed
qed

lemma merge_next_wf:
  assumes wf: "pmm_wf s ps" and "base \<in> set ps"
  shows "pmm_inv (merge_next base s) \<and> merge_keeps s (merge_next base s)"
proof -
  obtain as bs where ps: "ps = as @ base # bs" using assms(2) by (meson split_list)
  have dl: "dlist (free_list s) FreeHead (map PLink as @ PLink base # map PLink bs)"
    using wf by (simp add: pmm_wf_def ps)
  show ?thesis
  proof (cases "\<exists>p bs'. bs = p # bs' \<and> base + pg_property (pages s base) = p")
    case False
    then have "merge_next base s = s"
      using dlist_nxt [OF dl] by (cases bs) (auto simp: merge_next_def list_next_def)
    then show ?thesis using assms by (auto simp: merge_keeps_def pmm_inv_def)
  next
    case True
    then obtain p bs' where bs: "bs = p # bs'" and adj: "base + pg_property (pages s base) = p" by auto
    have "p \<noteq> base" using wf by (auto simp: ps bs pmm_wf_def sorted_blocks_append sorted_blocks_Cons)
    then have "joined base p s (merge_next base s)"
      using dlist_nxt [OF dl] bs adj by (auto simp: merge_next_def list_next_def Let_def joined_def)
    then show ?thesis using joined_wf [of s as base p bs' "merge_next base s"] wf adj ps bs
      by (force simp: merge_keeps_def joined_def pmm_inv_def)
  qed
qed

text \<open>
  What a caller of \<open>free_pages\<close> has to provide: the pages are neither free nor reserved, and
  either no block is free or some free block lies above them (see \<open>insert_loop_tail\<close> for
  what happens otherwise).
\<close>

definition free_ok :: "nat \<Rightarrow> nat \<Rightarrow> pmm \<Rightarrow> bool" where
  "free_ok base n s \<longleftrightarrow>
     0 < n \<and> {base..<base + n} \<inter> free_set s = {} \<and> nr_free s + n < 2 ^ 32 \<and>
     (\<forall>i \<in> {base..<base + n}. \<not> PageReserved (pages s i)) \<and>
     (free_set s = {} \<or> (\<exists>i \<in> free_set s. base < i))"

definition free_prepared :: "nat \<Rightarrow> nat \<Rightarrow> pmm \<Rightarrow> pmm" where
  "free_prepared base n s =
     upd_page base SetPageProperty (upd_page base (\<lambda>p. p\<lparr>pg_property := n\<rparr>)
       (s\<lparr>pages := (\<lambda>i. if base \<le> i \<and> i < base + n then set_page_ref ((pages s i)\<lparr>pg_flags := 0\<rparr>) 0
          else pages s i)\<rparr>))\<lparr>nr_free := nr_free s + n\<rparr>"

lemma free_set_head: "PageProperty (pages s p) \<Longrightarrow> 0 < pg_property (pages s p) \<Longrightarrow> p \<in> free_set s"
  by (force simp: free_set_def)


lemma free_prepared_simps:
  assumes "0 < n"
  shows "pg_property (pages (free_prepared base n s) q) = (if q = base then n else pg_property (pages s q))"
    and "PageProperty (pages (free_prepared base n s) q) \<longleftrightarrow>
      q = base \<or> (\<not> (base \<le> q \<and> q < base + n) \<and> PageProperty (pages s q))"
    and "PageReserved (pages (free_prepared base n s) q) \<longleftrightarrow>
      \<not> (base \<le> q \<and> q < base + n) \<and> PageReserved (pages s q)"
    and "nr_free (free_prepared base n s) = nr_free s + n"
    and "free_list (free_prepared base n s) = free_list s"
  using assms by (auto simp: free_prepared_def)

lemma default_free_unfold:
  assumes "0 < n" "\<forall>i \<in> {base..<base + n}. \<not> PageReserved (pages s i) \<and> \<not> PageProperty (pages s i)"
  shows "default_free_pages base n s = do {
     h \<leftarrow> insert_free base (free_list s);
     let (b, t) = merge_prev base ((free_prepared base n s)\<lparr>free_list := h\<rparr>);
     Some (merge_next b t)
   }"
  using assms unfolding default_free_pages_def free_loop_eq
  by (simp add: free_prepared_def Let_def upd_page_def)

text \<open>Where the freed block goes: behind the blocks \<open>as\<close> below it, in front of the rest.\<close>

lemma free_position:
  assumes wf: "pmm_wf s ps" and ok: "free_ok base n s"
  obtains as bs where "ps = as @ bs" "\<forall>a \<in> set as. a + pg_property (pages s a) \<le> base"
    "\<forall>b \<in> set bs. base + n \<le> b" "bs = [] \<Longrightarrow> ps = []"
proof -
  define as bs where "as = takeWhile (\<lambda>p. p < base) ps" and "bs = dropWhile (\<lambda>p. p < base) ps"
  have ps: "ps = as @ bs" by (simp add: as_def bs_def)
  have out: "q \<in> set ps \<Longrightarrow> {q..<q + pg_property (pages s q)} \<inter> {base..<base + n} = {}" for q
    using ok block_in_free_set [OF wf, of q] by (fastforce simp: free_ok_def)
  have pos: "q \<in> set ps \<Longrightarrow> 0 < pg_property (pages s q)" for q
    using wf by (simp add: pmm_wf_def sorted_blocks_def)
  have "a + pg_property (pages s a) \<le> base" if "a \<in> set as" for a
  proof -
    have "a < base" "a \<in> set ps" using that by (auto simp: as_def dest: set_takeWhileD)
    then show ?thesis using out [of a] ok by (auto simp: free_ok_def)
  qed
  moreover have below: "base \<le> b" if b: "b \<in> set bs" for b
  proof -
    obtain c cs where "bs = c # cs" using b by (cases bs) auto
    moreover from this have "base \<le> c" unfolding bs_def by (metis dropWhile_eq_Cons_conv linorder_not_less)
    moreover have "sorted_blocks (pages s) bs" using wf ps by (simp add: pmm_wf_def sorted_blocks_append)
    ultimately show ?thesis using b by (auto simp: sorted_blocks_Cons)
  qed
  moreover have "base + n \<le> b" if "b \<in> set bs" for b
    using below [OF that] out [of b] pos [of b] that ps by fastforce
  moreover have "ps = []" if "bs = []"
  proof (rule ccontr)
    assume "ps \<noteq> []"
    then have "free_set s \<noteq> {}" using pos by (cases ps) (auto simp: free_set_wf [OF wf])
    then obtain i p where "base < i" "p \<in> set ps" "i \<in> {p..<p + pg_property (pages s p)}"
      using ok unfolding free_ok_def free_set_wf [OF wf] by blast
    then show False using calculation(1) [of p] that ps by auto
  qed
  ultimately show ?thesis using that ps by blast
qed

lemma free_inserted_wf:
  assumes wf: "pmm_wf s (as @ bs)" and ok: "free_ok base n s"
    and as: "\<forall>a \<in> set as. a + pg_property (pages s a) \<le> base" and bs: "\<forall>b \<in> set bs. base + n \<le> b"
    and dl: "dlist h FreeHead (map PLink (as @ base # bs))"
  shows "pmm_wf ((free_prepared base n s)\<lparr>free_list := h\<rparr>) (as @ base # bs)"
    and "free_set ((free_prepared base n s)\<lparr>free_list := h\<rparr>) = free_set s \<union> {base..<base + n}"
proof -
  let ?t = "(free_prepared base n s)\<lparr>free_list := h\<rparr>"
  let ?f = "\<lambda>q. pg_property (pages s q)" and ?g = "\<lambda>q. pg_property (pages ?t q)"
  have n: "0 < n" using ok by (simp add: free_ok_def)
  note t = free_prepared_simps [OF n, of base s]
  have sb: "sorted_blocks (pages s) (as @ bs)" using wf by (simp add: pmm_wf_def)
  then have notin: "base \<notin> set as" "base \<notin> set bs"
    using as bs n by (force simp: sorted_blocks_def)+
  have old: "sorted_blocks (pages ?t) as = sorted_blocks (pages s) as"
    "sorted_blocks (pages ?t) bs = sorted_blocks (pages s) bs"
    "(\<Sum>q\<leftarrow>as. ?g q) = (\<Sum>q\<leftarrow>as. ?f q)" "(\<Sum>q\<leftarrow>bs. ?g q) = (\<Sum>q\<leftarrow>bs. ?f q)"
    using notin by (auto simp: t(1) intro!: sorted_blocks_cong arg_cong [where f = sum_list])
  have un: "(\<Union>q\<in>set as. {q..<q + ?g q}) = (\<Union>q\<in>set as. {q..<q + ?f q})"
    "(\<Union>q\<in>set bs. {q..<q + ?g q}) = (\<Union>q\<in>set bs. {q..<q + ?f q})"
    using notin by (intro SUP_cong refl; auto simp: t(1))+
  have "sorted_blocks (pages ?t) (as @ base # bs)"
    using sb old(1,2) notin as bs n
    by (fastforce simp: sorted_blocks_append sorted_blocks_Cons t(1))
  moreover have lt: "a < base" if "a \<in> set as" for a
  proof -
    have "a + ?f a \<le> base" "0 < ?f a" using as sb that by (auto simp: sorted_blocks_def)
    then show ?thesis by linarith
  qed
  have range: "\<not> (base \<le> q \<and> q < base + n)" if "q \<in> set (as @ bs)" for q
    using lt [of q] bs that by auto
  then have "PageProperty (pages ?t i) \<longleftrightarrow> i \<in> set (as @ base # bs)" for i
    using wf by (auto simp: pmm_wf_def t(2))
  moreover have "nr_free ?t = (\<Sum>q\<leftarrow>as @ base # bs. ?g q)" "nr_free ?t < 2 ^ 32"
    using wf old ok by (simp_all add: pmm_wf_def t(1,4) free_ok_def)
  moreover have "\<not> PageReserved (pages ?t i)"
    if "q \<in> set (as @ base # bs)" "q \<le> i" "i < q + ?g q" for q i
    using wf that unfolding pmm_wf_def by (auto simp: t(1,3) split: if_splits)
  ultimately show w: "pmm_wf ?t (as @ base # bs)" using dl by (simp add: pmm_wf_def)
  show "free_set ?t = free_set s \<union> {base..<base + n}"
    unfolding free_set_wf [OF w] free_set_wf [OF wf] using un t(1) [of base] by auto
qed

lemma default_free_ok:
  assumes "pmm_inv s" and ok: "free_ok base n s"
  shows "\<exists>t. default_free_pages base n s = Some t \<and> pmm_inv t \<and>
    free_set t = free_set s \<union> {base..<base + n} \<and> nr_free t = nr_free s + n"
proof -
  obtain ps where wf: "pmm_wf s ps" using assms(1) by (auto simp: pmm_inv_def)
  obtain as bs where ps: "ps = as @ bs" and as: "\<forall>a \<in> set as. a + pg_property (pages s a) \<le> base"
    and bs: "\<forall>b \<in> set bs. base + n \<le> b" "bs = [] \<Longrightarrow> ps = []"
    using free_position [OF wf ok] by blast
  have n: "0 < n" using ok by (simp add: free_ok_def)
  have pos: "q \<in> set ps \<Longrightarrow> 0 < pg_property (pages s q)" for q
    using wf by (simp add: pmm_wf_def sorted_blocks_def)
  have dl: "dlist (free_list s) FreeHead (map PLink ps)" using wf by (simp add: pmm_wf_def)
  obtain h where h: "insert_free base (free_list s) = Some h"
    "dlist h FreeHead (map PLink (as @ base # bs))"
  proof (cases bs)
    case Nil
    with bs(2) ps dl that show ?thesis using insert_free_empty [of "free_list s" base] by auto
  next
    case (Cons b bs')
    have "\<forall>a \<in> set as. a < base" using as pos ps by fastforce
    moreover have "base < b" "base \<notin> set bs'" using bs(1) Cons n by auto
    ultimately show ?thesis using insert_free_before [of "free_list s" as b bs' base] dl ps Cons that
      by auto
  qed
  let ?s = "(free_prepared base n s)\<lparr>free_list := h\<rparr>"
  have w: "pmm_wf ?s (as @ base # bs)" "free_set ?s = free_set s \<union> {base..<base + n}"
    using free_inserted_wf [OF _ ok as bs(1) h(2)] wf ps by auto
  obtain b t ps' where m: "merge_prev base ?s = (b, t)" "pmm_wf t ps'" "b \<in> set ps'" "merge_keeps ?s t"
    using merge_prev_wf [OF w(1), of base] by auto
  have "pmm_inv (merge_next b t)" "merge_keeps t (merge_next b t)"
    using merge_next_wf [OF m(2,3)] by auto
  moreover have "\<forall>i \<in> {base..<base + n}. \<not> PageReserved (pages s i) \<and> \<not> PageProperty (pages s i)"
    using ok pos wf free_set_head [of s] by (fastforce simp: free_ok_def pmm_wf_def)
  then have "default_free_pages base n s = Some (merge_next b t)"
    using h(1) m(1) by (simp add: default_free_unfold [OF n])
  ultimately show ?thesis using w(2) m(4) n by (auto simp: merge_keeps_def free_prepared_def)
qed


subsection \<open>The pmm_manager interface (kern/mm/pmm.h)\<close>

text \<open>
  \<open>struct pmm_manager\<close> is what the rest of the kernel sees of an allocator. The laws a client
  may rely on: an allocation returns pages that were free and removes exactly those from the
  free set, or returns \<open>NULL\<close> and changes nothing; freeing pages that satisfy \<open>can_free\<close>
  adds exactly those.
\<close>

locale pmm_manager =
  fixes alloc_pages :: "nat \<Rightarrow> 's \<Rightarrow> (nat option \<times> 's) option"
    and free_pages :: "nat \<Rightarrow> nat \<Rightarrow> 's \<Rightarrow> 's option"
    and inv :: "'s \<Rightarrow> bool"
    and free :: "'s \<Rightarrow> nat set"
    and can_free :: "nat \<Rightarrow> nat \<Rightarrow> 's \<Rightarrow> bool"
  assumes alloc_returns: "inv s \<Longrightarrow> 0 < n \<Longrightarrow> \<exists>r t. alloc_pages n s = Some (r, t) \<and> inv t"
    and alloc_Some: "inv s \<Longrightarrow> 0 < n \<Longrightarrow> alloc_pages n s = Some (Some p, t) \<Longrightarrow>
      {p..<p + n} \<subseteq> free s \<and> free t = free s - {p..<p + n}"
    and alloc_None: "inv s \<Longrightarrow> 0 < n \<Longrightarrow> alloc_pages n s = Some (None, t) \<Longrightarrow> t = s"
    and free_returns: "inv s \<Longrightarrow> can_free p n s \<Longrightarrow>
      \<exists>t. free_pages p n s = Some t \<and> inv t \<and> free t = free s \<union> {p..<p + n}"
begin

lemma alloc_inv: "inv s \<Longrightarrow> 0 < n \<Longrightarrow> alloc_pages n s = Some (r, t) \<Longrightarrow> inv t"
  using alloc_returns [of s n] by auto

text \<open>Two allocations in a row never hand out the same page.\<close>

lemma alloc_disjoint:
  assumes "inv s" "0 < n" "0 < m"
    and "alloc_pages n s = Some (Some p, t)" "alloc_pages m t = Some (Some q, u)"
  shows "{p..<p + n} \<inter> {q..<q + m} = {}"
proof -
  have "inv t" using alloc_inv assms(1,2,4) by blast
  then show ?thesis using alloc_Some [OF assms(1,2,4)] alloc_Some [OF _ assms(3,5)] by blast
qed

text \<open>Freeing what was just allocated gives back the free set.\<close>

lemma alloc_free:
  assumes "inv s" "0 < n" "alloc_pages n s = Some (Some p, t)" "can_free p n t"
  shows "\<exists>u. free_pages p n t = Some u \<and> inv u \<and> free u = free s"
proof -
  have "inv t" using alloc_inv assms(1,2,3) by blast
  then show ?thesis using free_returns [OF _ assms(4)] alloc_Some [OF assms(1-3)] by auto
qed

end

interpretation ff: pmm_manager default_alloc_pages default_free_pages pmm_inv free_set free_ok
proof unfold_locales
  fix s t :: pmm and n p :: nat
  assume a: "pmm_inv s" "0 < n"
  show "\<exists>r t. default_alloc_pages n s = Some (r, t) \<and> pmm_inv t"
    using default_alloc_ok [OF a] by blast
  show "default_alloc_pages n s = Some (Some p, t) \<Longrightarrow>
      {p..<p + n} \<subseteq> free_set s \<and> free_set t = free_set s - {p..<p + n}"
    using default_alloc_ok [OF a] by (auto simp: alloc_outcome_def)
  show "default_alloc_pages n s = Some (None, t) \<Longrightarrow> t = s"
    using default_alloc_ok [OF a] by (auto simp: alloc_outcome_def)
qed (use default_free_ok in blast)

interpretation bf: pmm_manager best_fit_alloc_pages default_free_pages pmm_inv free_set free_ok
proof unfold_locales
  fix s t :: pmm and n p :: nat
  assume a: "pmm_inv s" "0 < n"
  show "\<exists>r t. best_fit_alloc_pages n s = Some (r, t) \<and> pmm_inv t"
    using best_fit_alloc_ok [OF a] by blast
  show "best_fit_alloc_pages n s = Some (Some p, t) \<Longrightarrow>
      {p..<p + n} \<subseteq> free_set s \<and> free_set t = free_set s - {p..<p + n}"
    using best_fit_alloc_ok [OF a] by (auto simp: alloc_outcome_def)
  show "best_fit_alloc_pages n s = Some (None, t) \<Longrightarrow> t = s"
    using best_fit_alloc_ok [OF a] by (auto simp: alloc_outcome_def)
qed (use default_free_ok in blast)


subsection \<open>Initialisation\<close>

lemma memmap_loop_eq:
  "\<forall>i. p \<le> i \<and> i < p + k \<longrightarrow> PageReserved (pg i) \<Longrightarrow>
     memmap_loop p k pg =
       Some (\<lambda>i. if p \<le> i \<and> i < p + k
                 then set_page_ref ((pg i)\<lparr>pg_flags := 0, pg_property := 0\<rparr>) 0 else pg i)"
proof (induction p k pg rule: memmap_loop.induct)
  case (2 p k pg)
  let ?pg = "pg(p := set_page_ref ((pg p)\<lparr>pg_flags := 0, pg_property := 0\<rparr>) 0)"
  let ?f = "\<lambda>p k pg i. if p \<le> i \<and> i < p + k
      then set_page_ref ((pg i)\<lparr>pg_flags := 0, pg_property := 0\<rparr>) 0 else pg i"
  have *: "p \<le> i \<and> i < p + Suc k \<longleftrightarrow> i = p \<or> Suc p \<le> i \<and> i < Suc p + k" for i by auto
  have F: "?f (Suc p) k ?pg = ?f p (Suc k) pg" unfolding * by (rule ext) auto
  have "memmap_loop (Suc p) k ?pg = Some (?f (Suc p) k ?pg)"
    by (rule "2.IH") (use "2.prems" in auto)
  moreover have "memmap_loop p (Suc k) pg = memmap_loop (Suc p) k ?pg" using "2.prems" by simp
  ultimately show ?case by (simp only: F)
qed (auto simp: fun_eq_iff)

lemma init_memmap_ok:
  assumes "0 < n" "n < 2 ^ 32" "\<forall>i. \<not> PageProperty (pages s i)"
    and "\<forall>i \<in> {base..<base + n}. PageReserved (pages s i)"
  shows "\<exists>t. default_init_memmap base n (default_init s) = Some t \<and> pmm_inv t \<and>
    free_set t = {base..<base + n}"
proof -
  let ?h = "list_init FreeHead (free_list s)"
  obtain h where h: "insert_free base ?h = Some h" "dlist h FreeHead (map PLink [base])"
    using insert_free_empty [OF dlist_init [of FreeHead "free_list s"], of base] by auto
  obtain t where t: "default_init_memmap base n (default_init s) = Some t"
    "free_list t = h" "nr_free t = n"
    "\<And>i. PageProperty (pages t i) \<longleftrightarrow> i = base" "pg_property (pages t base) = n"
    "\<And>i. base \<le> i \<and> i < base + n \<Longrightarrow> \<not> PageReserved (pages t i)"
    using assms h(1) by (auto simp: default_init_memmap_def default_init_def memmap_loop_eq Let_def)
  have w: "pmm_wf t [base]"
    using t h(2) assms(1,2) by (auto simp: pmm_wf_def sorted_blocks_def)
  then show ?thesis using t(1,5) free_set_wf [OF w] by (auto simp: pmm_inv_def)
qed

subsection \<open>A block above all others\<close>

lemma free_at_tail:
  assumes wf: "pmm_wf s (as @ [a])" and above: "\<forall>p \<in> set (as @ [a]). p + pg_property (pages s p) \<le> base"
    and n: "0 < n" "\<forall>i \<in> {base..<base + n}. \<not> PageReserved (pages s i)"
  shows "dlist (list_add (PLink a) (PLink base) (free_list s)) FreeHead (map PLink (as @ [a, base]))"
    and "default_free_pages base n s =
      Some ((free_prepared base n s)\<lparr>free_list := self_prev base (list_add (PLink a) (PLink base) (free_list s))\<rparr>)"
proof -
  have dl: "dlist (free_list s) FreeHead (map PLink (as @ [a]))" using wf by (simp add: pmm_wf_def)
  let ?h = "list_add (PLink a) (PLink base) (free_list s)"
  have pos: "0 < pg_property (pages s q)" if "q \<in> set (as @ [a])" for q
    using wf that by (auto simp: pmm_wf_def sorted_blocks_def)
  have lt: "q < base" if "q \<in> set (as @ [a])" for q using pos [OF that] above that by fastforce
  have "\<not> list_empty FreeHead (free_list s)" using dlist_empty_iff [OF dl] by simp
  then have ins: "insert_free base (free_list s) = Some (self_prev base ?h)"
    using insert_loop_tail [of "free_list s" "[]" as a base] dl lt by (simp add: insert_free_def)
  let ?s = "(free_prepared base n s)\<lparr>free_list := self_prev base ?h\<rparr>"
  show d: "dlist ?h FreeHead (map PLink (as @ [a, base]))"
    using dlist_add [of "free_list s" FreeHead "map PLink as" "PLink a" "[]" "PLink base"] dl lt by auto
  have "list_next (PLink base) ?h = FreeHead" using list_next_mid [of ?h "as @ [a]" base "[]"] d by simp
  then have "merge_prev base ?s = (base, ?s)" "merge_next base ?s = ?s"
    using n by (simp_all add: merge_prev_def merge_next_def list_prev_def list_next_def self_prev_def free_prepared_simps)
  moreover have "\<forall>i \<in> {base..<base + n}. \<not> PageReserved (pages s i) \<and> \<not> PageProperty (pages s i)"
    using n(2) wf lt by (fastforce simp: pmm_wf_def)
  ultimately show "default_free_pages base n s = Some ?s"
    using ins by (simp add: default_free_unfold [OF n(1)])
qed

text \<open>The search runs along the \<open>next\<close> links, whatever the \<open>prev\<close> links say.\<close>

lemma first_fit_along:
  assumes "dlist h FreeHead (map PLink (us @ as @ [b]))" "\<forall>x \<in> insert FreeHead (PLink ` set (us @ as)). nxt (free_list s) x = nxt h x"
    and "\<forall>a \<in> set as. pg_property (pages s a) < n" "n \<le> pg_property (pages s b)"
  shows "first_fit (last (FreeHead # map PLink us)) n s = Some (Some b)"
  using assms(1-3)
proof (induction as arbitrary: us)
  case Nil
  have "last (FreeHead # map PLink us) \<in> insert FreeHead (PLink ` set us)" by (cases us rule: rev_cases) auto
  then have "list_next (last (FreeHead # map PLink us)) (free_list s) = PLink b"
    using list_next_last [of h us "[b]"] Nil.prems(1) Nil.prems(2) [rule_format, of "last (FreeHead # map PLink us)"]
    by (auto simp: list_next_def simp del: last.simps)
  then show ?case using assms(4) by (subst first_fit.simps) (simp del: last.simps)
next
  case (Cons a as)
  have "last (FreeHead # map PLink us) \<in> insert FreeHead (PLink ` set us)" by (cases us rule: rev_cases) auto
  then have "list_next (last (FreeHead # map PLink us)) (free_list s) = PLink a"
    using list_next_last [of h us "a # as @ [b]"] Cons.prems(1) Cons.prems(2) [rule_format, of "last (FreeHead # map PLink us)"]
    by (auto simp: list_next_def simp del: last.simps)
  moreover have "first_fit (PLink a) n s = Some (Some b)" using Cons.IH [of "us @ [a]"] Cons.prems by simp
  ultimately show ?case using Cons.prems(3) by (subst first_fit.simps) (simp del: last.simps)
qed

lemma tail_allocated_twice:
  assumes wf: "pmm_wf s (as @ [a])" and above: "\<forall>p \<in> set (as @ [a]). p + pg_property (pages s p) \<le> base"
    and n: "0 < n" "\<forall>i \<in> {base..<base + n}. \<not> PageReserved (pages s i)"
    and m: "0 < m" "m \<le> n" "2 * m \<le> nr_free s + n" "\<forall>p \<in> set (as @ [a]). pg_property (pages s p) < m"
  shows "\<exists>t u v. default_free_pages base n s = Some t \<and> default_alloc_pages m t = Some (Some base, u) \<and>
    default_alloc_pages m u = Some (Some base, v)"
proof -
  let ?h = "list_add (PLink a) (PLink base) (free_list s)"
  let ?t = "(free_prepared base n s)\<lparr>free_list := self_prev base ?h\<rparr>"
  let ?u = "take_block base m ?t"
  note ft = free_at_tail [OF wf above n]
  have lt: "q < base" if "q \<in> set (as @ [a])" for q
    using that above wf by (fastforce simp: pmm_wf_def sorted_blocks_def)
  have nx: "list_next (PLink base) ?h = FreeHead" using list_next_mid [of ?h "as @ [a]" base "[]"] ft(1) by simp
  have "pg_property (pages ?t q) < m" if "q \<in> set (as @ [a])" for q
    using that lt [OF that] m(4) n(1) by (auto simp: free_prepared_simps)
  moreover have "m \<le> pg_property (pages ?t base)" "nxt (free_list ?t) = nxt ?h"
    using m(2) n(1) by (simp_all add: free_prepared_simps self_prev_def)
  ultimately have t: "first_fit FreeHead m ?t = Some (Some base)"
    using first_fit_along [of ?h "[]" "as @ [a]" base ?t m] ft(1) by simp
  have "nxt (free_list ?u) x = nxt ?h x" if "x \<in> insert FreeHead (PLink ` set (as @ [a]))" for x
    using that lt nx n(1)
    by (auto simp: take_block_def Let_def list_del_def list_add_def list_add_after_def raw_list_add_def raw_list_del_def
        self_prev_def list_prev_def list_next_def)
  moreover have "pg_property (pages ?u q) < m" if "q \<in> set (as @ [a])" for q
    using that lt [OF that] m(4) n(1) by (auto simp: take_block_def Let_def free_prepared_simps upd_page_def)
  moreover have "pg_property (pages ?u base) = n" "nr_free ?u = nr_free s + n - m"
    using n(1) m(1) by (auto simp: take_block_def Let_def free_prepared_simps upd_page_def)
  ultimately have "first_fit FreeHead m ?u = Some (Some base)" "m \<le> nr_free ?u"
    using first_fit_along [of ?h "[]" "as @ [a]" base ?u m] ft(1) m(2,3) by auto
  then have "default_alloc_pages m ?u = Some (Some base, take_block base m ?u)"
    using m(1) by (simp add: default_alloc_pages_def)
  moreover have "default_alloc_pages m ?t = Some (Some base, ?u)"
    using t m(1,2) n(1) by (simp add: default_alloc_pages_def free_prepared_simps)
  ultimately show ?thesis using ft(2) by blast
qed

subsection \<open>Properties\<close>

text \<open>Concrete states: two free blocks, pages 2-4 and 8-9; and one free page, page 0.\<close>

definition ex_pmm :: pmm where
  "ex_pmm = \<lparr>pages = (\<lambda>i. if i = 2 then \<lparr>pg_ref = 0, pg_flags = 2, pg_property = 3\<rparr>
      else if i = 8 then \<lparr>pg_ref = 0, pg_flags = 2, pg_property = 2\<rparr>
      else \<lparr>pg_ref = 0, pg_flags = 0, pg_property = 0\<rparr>),
     free_list = \<lparr>nxt = (\<lambda>l. l)(FreeHead := PLink 2, PLink 2 := PLink 8, PLink 8 := FreeHead),
       prv = (\<lambda>l. l)(FreeHead := PLink 8, PLink 2 := FreeHead, PLink 8 := PLink 2)\<rparr>,
     nr_free = 5\<rparr>"

definition ex_pmm1 :: pmm where
  "ex_pmm1 = \<lparr>pages = (\<lambda>i. if i = 0 then \<lparr>pg_ref = 0, pg_flags = 2, pg_property = 1\<rparr>
      else \<lparr>pg_ref = 0, pg_flags = 0, pg_property = 0\<rparr>),
     free_list = \<lparr>nxt = (\<lambda>l. l)(FreeHead := PLink 0, PLink 0 := FreeHead),
       prv = (\<lambda>l. l)(FreeHead := PLink 0, PLink 0 := FreeHead)\<rparr>,
     nr_free = 1\<rparr>"

lemma ex_pmm_wf: "pmm_wf ex_pmm [2, 8]"
  by (simp add: pmm_wf_def ex_pmm_def dlist_def sorted_blocks_def flag_defs)

lemma ex_pmm_inv: "pmm_inv ex_pmm"
  using ex_pmm_wf by (auto simp: pmm_inv_def)

lemma ex_pmm1_wf: "pmm_wf ex_pmm1 [0]"
  by (simp add: pmm_wf_def ex_pmm1_def dlist_def sorted_blocks_def flag_defs)

text \<open>C20: First fit (lab8 \<open>default_alloc_pages\<close>). From any state that satisfies the allocator
  invariant a request for \<open>n > 0\<close> pages returns and keeps the invariant. Either it returns a
  page heading a free block of at least \<open>n\<close> pages, exactly these \<open>n\<close> pages leave the free
  set, \<open>nr_free\<close> drops by \<open>n\<close>, and every free block at a lower address is too small; or it
  returns \<open>NULL\<close>, nothing has changed, and no free block has \<open>n\<close> pages.\<close>

theorem default_alloc_first_fit:
  assumes "pmm_inv s" "0 < n"
  shows "\<exists>r t. default_alloc_pages n s = Some (r, t) \<and> pmm_inv t \<and> alloc_outcome n s r t \<and>
    (\<forall>p. r = Some p \<longrightarrow> (\<forall>q < p. PageProperty (pages s q) \<longrightarrow> pg_property (pages s q) < n))"
  using assms by (rule default_alloc_ok)

theorem default_alloc_first_fit_witness:
  "\<exists>r t. default_alloc_pages 2 ex_pmm = Some (r, t) \<and> pmm_inv t \<and> alloc_outcome 2 ex_pmm r t \<and>
    (\<forall>p. r = Some p \<longrightarrow> (\<forall>q < p. PageProperty (pages ex_pmm q) \<longrightarrow> pg_property (pages ex_pmm q) < 2))"
  by (rule default_alloc_first_fit [OF ex_pmm_inv]) simp

text \<open>Best fit (lab2 \<open>best_fit_alloc_pages\<close>). As for first fit, but the chosen block is
  one of the smallest free blocks with at least \<open>n\<close> pages.\<close>

theorem best_fit_alloc_smallest:
  assumes "pmm_inv s" "0 < n"
  shows "\<exists>r t. best_fit_alloc_pages n s = Some (r, t) \<and> pmm_inv t \<and> alloc_outcome n s r t \<and>
    (\<forall>p. r = Some p \<longrightarrow> (\<forall>q. PageProperty (pages s q) \<and> n \<le> pg_property (pages s q) \<longrightarrow>
        pg_property (pages s p) \<le> pg_property (pages s q)))"
  using assms by (rule best_fit_alloc_ok)

theorem best_fit_alloc_smallest_witness:
  "\<exists>r t. best_fit_alloc_pages 2 ex_pmm = Some (r, t) \<and> pmm_inv t \<and> alloc_outcome 2 ex_pmm r t \<and>
    (\<forall>p. r = Some p \<longrightarrow> (\<forall>q. PageProperty (pages ex_pmm q) \<and> 2 \<le> pg_property (pages ex_pmm q) \<longrightarrow>
        pg_property (pages ex_pmm p) \<le> pg_property (pages ex_pmm q)))"
  by (rule best_fit_alloc_smallest [OF ex_pmm_inv]) simp

text \<open>C21: Freeing (\<open>default_free_pages\<close>, with both merges) of \<open>n > 0\<close> pages. If the pages are neither free nor
  reserved, and the free list is empty or some free page lies above \<open>base\<close>, then the call
  returns, keeps the invariant (sorted disjoint blocks on a well-formed ring, flags and
  \<open>nr_free\<close> exact), and adds exactly \<open>[base, base + n)\<close> to the free set.\<close>

theorem default_free_pages_correct:
  assumes "pmm_inv s" "free_ok base n s"
  shows "\<exists>t. default_free_pages base n s = Some t \<and> pmm_inv t \<and>
    free_set t = free_set s \<union> {base..<base + n} \<and> nr_free t = nr_free s + n"
  using assms by (rule default_free_ok)

lemma ex_free_ok: "free_ok 5 3 ex_pmm"
  unfolding free_ok_def free_set_wf [OF ex_pmm_wf]
  by (auto simp: ex_pmm_def flag_defs intro: bexI [of _ 8])

theorem default_free_pages_correct_witness:
  "\<exists>t. default_free_pages 5 3 ex_pmm = Some t \<and> pmm_inv t \<and>
    free_set t = free_set ex_pmm \<union> {5..<5 + 3} \<and> nr_free t = nr_free ex_pmm + 3"
  by (rule default_free_pages_correct [OF ex_pmm_inv ex_free_ok])

text \<open>C22: The branch of the insertion loop that appends at the end of the free list lacks a
  \<open>break\<close>. From every well-formed state with a free page: when \<open>n\<close> pages above all free blocks are freed, and then
  twice \<open>m \<le> n\<close> pages are asked for that no other block has room for and that the counter covers, both
  calls hand out the same pages, those at \<open>base\<close>.\<close>

theorem tail_free_double_allocation:
  assumes "pmm_wf s ps" "ps \<noteq> []" "\<forall>p \<in> set ps. p + pg_property (pages s p) \<le> base"
    and "0 < n" "\<forall>i \<in> {base..<base + n}. \<not> PageReserved (pages s i)"
    and "0 < m" "m \<le> n" "2 * m \<le> nr_free s + n" "\<forall>p \<in> set ps. pg_property (pages s p) < m"
  shows "\<exists>t u v. default_free_pages base n s = Some t \<and> default_alloc_pages m t = Some (Some base, u) \<and>
    default_alloc_pages m u = Some (Some base, v)"
  using tail_allocated_twice [of s "butlast ps" "last ps" base n m] assms by simp

theorem tail_free_double_allocation_witness:
  "\<exists>t u v. default_free_pages 5 3 ex_pmm1 = Some t \<and> default_alloc_pages 2 t = Some (Some 5, u) \<and>
    default_alloc_pages 2 u = Some (Some 5, v)"
  by (rule tail_free_double_allocation [OF ex_pmm1_wf]) (simp_all add: ex_pmm1_def flag_defs)

text \<open>\<open>default_init\<close> followed by \<open>default_init_memmap\<close> of a reserved region makes exactly
  this region free and establishes the allocator invariant.\<close>

theorem init_memmap_establishes_invariant:
  assumes "0 < n" "n < 2 ^ 32" "\<forall>i. \<not> PageProperty (pages s i)"
    and "\<forall>i \<in> {base..<base + n}. PageReserved (pages s i)"
  shows "\<exists>t. default_init_memmap base n (default_init s) = Some t \<and> pmm_inv t \<and>
    free_set t = {base..<base + n}"
  using assms by (rule init_memmap_ok)

definition ex_reserved :: pmm where
  "ex_reserved = \<lparr>pages = (\<lambda>_. \<lparr>pg_ref = 0, pg_flags = 1, pg_property = 0\<rparr>),
     free_list = \<lparr>nxt = (\<lambda>l. l), prv = (\<lambda>l. l)\<rparr>, nr_free = 0\<rparr>"

theorem init_memmap_establishes_invariant_witness:
  "\<exists>t. default_init_memmap 4 16 (default_init ex_reserved) = Some t \<and> pmm_inv t \<and>
    free_set t = {4..<4 + 16}"
  by (rule init_memmap_establishes_invariant) (simp_all add: ex_reserved_def flag_defs)

end
