(* ===== verification/Vmbase.thy ===== *)
theory Vmbase
  imports Pmm Kstate
begin

section \<open>Address spaces: state, page table walk, swapping, page allocation\<close>

text \<open>
  kern/mm/mmu.h, memlayout.h, pmm.h and the parts of pmm.c and swap.c every other memory
  operation needs. A \<open>struct Page *\<close> is its index in the \<open>pages\<close> array. Physical memory is
  \<open>ram\<close>: 512 words per page. A page table pointer is the index of its page, a \<open>pte_t *\<close> the page
  and the entry. Reading through an entry whose page lies outside the managed memory is \<open>None\<close>.

  The swap manager is a record of operations as in swap.h, with the FIFO (lab8), clock (lab8) and
  LRU (lab3) managers; the swap disk holds a page per swap offset. The list of swappable pages is
  the global \<open>pra_list_head\<close>.

  \<open>heap\<close> is the supply of object addresses that \<open>kmalloc\<close> returns next; it is empty when
  \<open>kmalloc\<close> returns null. The allocator behind it is modelled in Kmalloc.
\<close>

subsection \<open>Constants and address arithmetic (mmu.h, memlayout.h, defs.h)\<close>

abbreviation PGSIZE :: "64 word" where "PGSIZE \<equiv> 4096"
abbreviation PTSIZE :: "64 word" where "PTSIZE \<equiv> 0x200000"
abbreviation PDSIZE :: "64 word" where "PDSIZE \<equiv> 0x40000000"
definition NPTEENTRY :: nat where "NPTEENTRY = 512"

definition PTE_V :: "64 word" where "PTE_V = 1"
definition PTE_R :: "64 word" where "PTE_R = 2"
definition PTE_W :: "64 word" where "PTE_W = 4"
definition PTE_X :: "64 word" where "PTE_X = 8"
definition PTE_U :: "64 word" where "PTE_U = 0x10"
definition READ_WRITE :: "64 word" where "READ_WRITE = PTE_R OR PTE_W OR PTE_V"
definition PTE_USER :: "64 word" where "PTE_USER = PTE_R OR PTE_W OR PTE_X OR PTE_U OR PTE_V"

definition KERNBASE :: "64 word" where "KERNBASE = 0xFFFFFFFFC0200000"
definition KMEMSIZE :: "64 word" where "KMEMSIZE = 0x7E00000"
definition KERNTOP :: "64 word" where "KERNTOP = KERNBASE + KMEMSIZE"
definition USERTOP :: "64 word" where "USERTOP = 0x80000000"
definition USERBASE :: "64 word" where "USERBASE = 0x200000"
definition USTACKTOP :: "64 word" where "USTACKTOP = USERTOP"
definition USTACKSIZE :: "64 word" where "USTACKSIZE = 256 * PGSIZE"
definition KSTACKPAGE :: nat where "KSTACKPAGE = 2"

definition PDX1 :: "64 word \<Rightarrow> nat" where "PDX1 la = unat (drop_bit 30 la AND 0x1FF)"
definition PDX0 :: "64 word \<Rightarrow> nat" where "PDX0 la = unat (drop_bit 21 la AND 0x1FF)"
definition PTX :: "64 word \<Rightarrow> nat" where "PTX la = unat (drop_bit 12 la AND 0x1FF)"
definition PPN :: "64 word \<Rightarrow> 64 word" where "PPN la = drop_bit 12 la"
definition PGOFF :: "64 word \<Rightarrow> 64 word" where "PGOFF la = la AND 0xFFF"

definition PTE_ADDR :: "64 word \<Rightarrow> 64 word" where
  "PTE_ADDR pte = push_bit 2 (pte AND NOT 0x3FF)"

definition ROUNDDOWN :: "64 word \<Rightarrow> 64 word \<Rightarrow> 64 word" where
  "ROUNDDOWN a n = a - a mod n"

definition ROUNDUP :: "64 word \<Rightarrow> 64 word \<Rightarrow> 64 word" where
  "ROUNDUP a n = ROUNDDOWN (a + n - 1) n"

definition USER_ACCESS :: "64 word \<Rightarrow> 64 word \<Rightarrow> bool" where
  "USER_ACCESS s e \<longleftrightarrow> USERBASE \<le> s \<and> s < e \<and> e \<le> USERTOP"

definition KERN_ACCESS :: "64 word \<Rightarrow> 64 word \<Rightarrow> bool" where
  "KERN_ACCESS s e \<longleftrightarrow> KERNBASE \<le> s \<and> s < e \<and> e \<le> KERNTOP"

subsection \<open>State\<close>

datatype pra = PraHead | PraLink nat
datatype vnode = MmapHead nat | VmaLink nat

record vma_struct =
  vm_mm :: nat
  vm_start :: "64 word"
  vm_end :: "64 word"
  vm_flags :: "32 word"

record mm_struct =
  mmap_cache :: "nat option"
  pgdir :: "nat option"
  map_count :: int
  sm_priv :: "pra option"
  m_count :: int
  mm_sem :: int
  locked_by :: int

record vm =
  phys :: pmm
  ram :: "nat \<Rightarrow> nat \<Rightarrow> 64 word"
  nbase :: nat
  npage :: nat
  pra_vaddr :: "nat \<Rightarrow> 64 word"
  visited :: "nat \<Rightarrow> bool"
  pra_links :: "pra links"
  curr_ptr :: pra
  mms :: "nat \<Rightarrow> mm_struct"
  vmas :: "nat \<Rightarrow> vma_struct"
  vlinks :: "vnode links"
  heap :: "nat list"
  swap_init_ok :: bool
  disk :: "nat \<Rightarrow> nat \<Rightarrow> 64 word"
  max_swap_offset :: nat
  check_mm_struct :: "nat option"
  pgfault_num :: "32 word"

definition upd_mm :: "nat \<Rightarrow> (mm_struct \<Rightarrow> mm_struct) \<Rightarrow> vm \<Rightarrow> vm" where
  "upd_mm m f s = s\<lparr>mms := (mms s)(m := f (mms s m))\<rparr>"

definition upd_vma :: "nat \<Rightarrow> (vma_struct \<Rightarrow> vma_struct) \<Rightarrow> vm \<Rightarrow> vm" where
  "upd_vma v f s = s\<lparr>vmas := (vmas s)(v := f (vmas s v))\<rparr>"

definition upd_vlinks :: "(vnode links \<Rightarrow> vnode links) \<Rightarrow> vm \<Rightarrow> vm" where
  "upd_vlinks f s = s\<lparr>vlinks := f (vlinks s)\<rparr>"

definition upd_pra :: "(pra links \<Rightarrow> pra links) \<Rightarrow> vm \<Rightarrow> vm" where
  "upd_pra f s = s\<lparr>pra_links := f (pra_links s)\<rparr>"

definition upd_ref :: "nat \<Rightarrow> (int \<Rightarrow> int) \<Rightarrow> vm \<Rightarrow> vm" where
  "upd_ref p f s = s\<lparr>phys := upd_page p (\<lambda>x. x\<lparr>pg_ref := f (pg_ref x)\<rparr>) (phys s)\<rparr>"

abbreviation page_ref :: "nat \<Rightarrow> vm \<Rightarrow> int" where
  "page_ref p s \<equiv> pg_ref (pages (phys s) p)"

definition write_word :: "nat \<times> nat \<Rightarrow> 64 word \<Rightarrow> vm \<Rightarrow> vm" where
  "write_word loc w s = s\<lparr>ram := (ram s)(fst loc := (ram s (fst loc))(snd loc := w))\<rparr>"

definition read_word :: "nat \<times> nat \<Rightarrow> vm \<Rightarrow> 64 word" where
  "read_word loc s = ram s (fst loc) (snd loc)"

definition kmalloc_obj :: "vm \<Rightarrow> nat option \<times> vm" where
  "kmalloc_obj s = (case heap s of [] \<Rightarrow> (None, s) | a # as \<Rightarrow> (Some a, s\<lparr>heap := as\<rparr>))"

definition kfree_obj :: "nat \<Rightarrow> vm \<Rightarrow> vm" where
  "kfree_obj a s = s\<lparr>heap := a # heap s\<rparr>"

subsection \<open>Pages, physical addresses and entries (pmm.h)\<close>

definition page2ppn :: "nat \<Rightarrow> vm \<Rightarrow> 64 word" where
  "page2ppn p s = of_nat (p + nbase s)"

definition page2pa :: "nat \<Rightarrow> vm \<Rightarrow> 64 word" where
  "page2pa p s = push_bit 12 (page2ppn p s)"

definition pa2page :: "64 word \<Rightarrow> vm \<Rightarrow> nat option" where
  "pa2page pa s =
     (if unat (PPN pa) < npage s \<and> nbase s \<le> unat (PPN pa) then Some (unat (PPN pa) - nbase s) else None)"

definition pte2page :: "64 word \<Rightarrow> vm \<Rightarrow> nat option" where
  "pte2page pte s = (if pte AND PTE_V = 0 then None else pa2page (PTE_ADDR pte) s)"

definition pde2page :: "64 word \<Rightarrow> vm \<Rightarrow> nat option" where
  "pde2page pde s = pa2page (PTE_ADDR pde) s"

definition pte_create :: "64 word \<Rightarrow> 64 word \<Rightarrow> 64 word" where
  "pte_create ppn type = push_bit 10 ppn OR PTE_V OR type"

definition page_ref_inc :: "nat \<Rightarrow> vm \<Rightarrow> vm" where "page_ref_inc p s = upd_ref p (\<lambda>r. r + 1) s"
definition page_ref_dec :: "nat \<Rightarrow> vm \<Rightarrow> vm" where "page_ref_dec p s = upd_ref p (\<lambda>r. r - 1) s"

subsection \<open>The page table walk (get\_pte)\<close>

text \<open>
  The allocation of a table page is a parameter, because \<open>alloc_pages\<close> may swap and swapping
  walks the table without creating anything.
\<close>

type_synonym palloc = "vm \<Rightarrow> (nat option \<times> vm) option"

definition new_table :: "palloc \<Rightarrow> nat \<times> nat \<Rightarrow> vm \<Rightarrow> (bool \<times> vm) option" where
  "new_table alloc loc s = do {
     (r, s) \<leftarrow> alloc s;
     case r of
       None \<Rightarrow> Some (False, s)
     | Some page \<Rightarrow>
         let s = upd_ref page (\<lambda>_. 1) s;
             s = s\<lparr>ram := (ram s)(page := \<lambda>_. 0)\<rparr>;
             s = write_word loc (pte_create (page2ppn page s) (PTE_U OR PTE_V)) s
         in Some (True, s)
   }"

definition get_pte :: "palloc \<Rightarrow> nat \<Rightarrow> 64 word \<Rightarrow> bool \<Rightarrow> vm \<Rightarrow> ((nat \<times> nat) option \<times> vm) option" where
  "get_pte alloc pd la create s = do {
     let pdep1 = (pd, PDX1 la);
     (ok, s) \<leftarrow> (if read_word pdep1 s AND PTE_V = 0
                 then (if create then new_table alloc pdep1 s else Some (False, s)) else Some (True, s));
     if \<not> ok then Some (None, s)
     else do {
       pd0 \<leftarrow> pa2page (PTE_ADDR (read_word pdep1 s)) s;
       let pdep0 = (pd0, PDX0 la);
       (ok, s) \<leftarrow> (if read_word pdep0 s AND PTE_V = 0
                   then (if create then new_table alloc pdep0 s else Some (False, s)) else Some (True, s));
       if \<not> ok then Some (None, s)
       else do {
         pt \<leftarrow> pa2page (PTE_ADDR (read_word pdep0 s)) s;
         Some (Some (pt, PTX la), s)
       }
     }
   }"

definition get_pte_existing :: "nat \<Rightarrow> 64 word \<Rightarrow> vm \<Rightarrow> (nat \<times> nat) option option" where
  "get_pte_existing pd la s =
     (case get_pte (\<lambda>_. None) pd la False s of None \<Rightarrow> None | Some (r, _) \<Rightarrow> Some r)"

subsection \<open>Swap managers (swap\_fifo.c, swap\_clock.c, lab3 swap\_lru.c)\<close>

fun le2page_pra :: "pra \<Rightarrow> nat option" where
  "le2page_pra (PraLink p) = Some p"
| "le2page_pra PraHead = None"

record swap_manager =
  sm_init_mm :: "nat \<Rightarrow> vm \<Rightarrow> vm"
  map_swappable :: "nat \<Rightarrow> 64 word \<Rightarrow> nat \<Rightarrow> vm \<Rightarrow> vm option"
  swap_out_victim :: "nat \<Rightarrow> bool \<Rightarrow> vm \<Rightarrow> (nat option \<times> vm) option"

definition fifo_init_mm :: "nat \<Rightarrow> vm \<Rightarrow> vm" where
  "fifo_init_mm mm s = upd_mm mm (\<lambda>m. m\<lparr>sm_priv := Some PraHead\<rparr>) (upd_pra (list_init PraHead) s)"

definition fifo_map_swappable :: "nat \<Rightarrow> 64 word \<Rightarrow> nat \<Rightarrow> vm \<Rightarrow> vm option" where
  "fifo_map_swappable mm addr page s = do {
     head \<leftarrow> sm_priv (mms s mm);
     Some (upd_pra (list_add_before head (PraLink page)) s)
   }"

definition fifo_swap_out_victim :: "nat \<Rightarrow> bool \<Rightarrow> vm \<Rightarrow> (nat option \<times> vm) option" where
  "fifo_swap_out_victim mm in_tick s = do {
     head \<leftarrow> sm_priv (mms s mm);
     assert_c (\<not> in_tick);
     let entry = list_next head (pra_links s);
     let s = upd_pra (list_del entry) s;
     page \<leftarrow> le2page_pra entry;
     Some (Some page, s)
   }"

definition swap_manager_fifo :: swap_manager where
  "swap_manager_fifo = \<lparr>sm_init_mm = fifo_init_mm, map_swappable = fifo_map_swappable,
     swap_out_victim = fifo_swap_out_victim\<rparr>"

definition clock_init_mm :: "nat \<Rightarrow> vm \<Rightarrow> vm" where
  "clock_init_mm mm s =
     upd_mm mm (\<lambda>m. m\<lparr>sm_priv := Some PraHead\<rparr>)
       ((upd_pra (list_init PraHead) s)\<lparr>curr_ptr := PraHead\<rparr>)"

definition clock_map_swappable :: "nat \<Rightarrow> 64 word \<Rightarrow> nat \<Rightarrow> vm \<Rightarrow> vm option" where
  "clock_map_swappable mm addr page s = do {
     head \<leftarrow> sm_priv (mms s mm);
     let s = upd_pra (list_add_before head (PraLink page)) s;
     Some (s\<lparr>visited := (visited s)(page := True)\<rparr>)
   }"

partial_function (option) clock_scan :: "pra \<Rightarrow> vm \<Rightarrow> (nat option \<times> vm) option" where
  "clock_scan head s =
     (let c = list_next (curr_ptr s) (pra_links s);
          c = (if c = head then list_next c (pra_links s) else c);
          s = s\<lparr>curr_ptr := c\<rparr>
      in if c = head then Some (None, s)
         else do {
           page \<leftarrow> le2page_pra c;
           if \<not> visited s page then Some (Some page, upd_pra (list_del c) s)
           else clock_scan head (s\<lparr>visited := (visited s)(page := False)\<rparr>)
         })"

definition clock_swap_out_victim :: "nat \<Rightarrow> bool \<Rightarrow> vm \<Rightarrow> (nat option \<times> vm) option" where
  "clock_swap_out_victim mm in_tick s = do {
     head \<leftarrow> sm_priv (mms s mm);
     assert_c (\<not> in_tick);
     clock_scan head s
   }"

definition swap_manager_clock :: swap_manager where
  "swap_manager_clock = \<lparr>sm_init_mm = clock_init_mm, map_swappable = clock_map_swappable,
     swap_out_victim = clock_swap_out_victim\<rparr>"

definition lru_init_mm :: "nat \<Rightarrow> vm \<Rightarrow> vm" where
  "lru_init_mm mm s = upd_mm mm (\<lambda>m. m\<lparr>sm_priv := Some PraHead\<rparr>) (upd_pra (list_init PraHead) s)"

definition lru_map_swappable :: "nat \<Rightarrow> 64 word \<Rightarrow> nat \<Rightarrow> vm \<Rightarrow> vm option" where
  "lru_map_swappable mm addr page s = do {
     head \<leftarrow> sm_priv (mms s mm);
     Some (upd_pra (list_add head (PraLink page)) (upd_pra (list_del (PraLink page)) s))
   }"

definition lru_swap_out_victim :: "nat \<Rightarrow> bool \<Rightarrow> vm \<Rightarrow> (nat option \<times> vm) option" where
  "lru_swap_out_victim mm in_tick s = do {
     head \<leftarrow> sm_priv (mms s mm);
     assert_c (\<not> in_tick);
     let entry = list_prev head (pra_links s);
     if entry \<noteq> head then do {
       page \<leftarrow> le2page_pra entry;
       Some (Some page, upd_pra (list_del entry) s)
     } else Some (None, s)
   }"

definition swap_manager_lru :: swap_manager where
  "swap_manager_lru = \<lparr>sm_init_mm = lru_init_mm, map_swappable = lru_map_swappable,
     swap_out_victim = lru_swap_out_victim\<rparr>"

declare clock_scan.simps [code]

subsection \<open>Swapping (swap.c, swapfs.c)\<close>

definition swap_init_mm :: "swap_manager \<Rightarrow> nat \<Rightarrow> vm \<Rightarrow> vm" where
  "swap_init_mm sm mm s = sm_init_mm sm mm s"

definition swap_map_swappable :: "swap_manager \<Rightarrow> nat \<Rightarrow> 64 word \<Rightarrow> nat \<Rightarrow> vm \<Rightarrow> vm option" where
  "swap_map_swappable sm mm addr page s = map_swappable sm mm addr page s"

definition swap_offset :: "64 word \<Rightarrow> vm \<Rightarrow> nat option" where
  "swap_offset entry s =
     (let off = unat (drop_bit 8 entry) in if 0 < off \<and> off < max_swap_offset s then Some off else None)"

text \<open>The sector number passed to the disk has 32 bits; the disk driver asserts its range.\<close>

definition sectors_ok :: "nat \<Rightarrow> bool" where
  "sectors_ok off \<longleftrightarrow> off * 8 + 8 \<le> 0x10000000"

definition swapfs_read :: "64 word \<Rightarrow> nat \<Rightarrow> vm \<Rightarrow> (int \<times> vm) option" where
  "swapfs_read entry page s = do {
     off \<leftarrow> swap_offset entry s;
     assert_c (sectors_ok off);
     Some (0, s\<lparr>ram := (ram s)(page := disk s off)\<rparr>)
   }"

definition swapfs_write :: "64 word \<Rightarrow> nat \<Rightarrow> vm \<Rightarrow> (int \<times> vm) option" where
  "swapfs_write entry page s = do {
     off \<leftarrow> swap_offset entry s;
     assert_c (sectors_ok off);
     Some (0, s\<lparr>disk := (disk s)(off := ram s page)\<rparr>)
   }"

definition swap_entry_of :: "64 word \<Rightarrow> 64 word" where
  "swap_entry_of v = push_bit 8 (v div PGSIZE + 1)"

definition free_pages :: "nat \<Rightarrow> nat \<Rightarrow> vm \<Rightarrow> vm option" where
  "free_pages base n s = do { p \<leftarrow> default_free_pages base n (phys s); Some (s\<lparr>phys := p\<rparr>) }"

definition nr_free_pages :: "vm \<Rightarrow> nat" where
  "nr_free_pages s = default_nr_free_pages (phys s)"

text \<open>A victim that is null, an address space without a page table and a missing entry are null pointers.\<close>

fun swap_out_loop :: "swap_manager \<Rightarrow> nat \<Rightarrow> nat \<Rightarrow> nat \<Rightarrow> bool \<Rightarrow> vm \<Rightarrow> (nat \<times> vm) option" where
  "swap_out_loop sm mm i 0 in_tick s = Some (i, s)"
| "swap_out_loop sm mm i (Suc k) in_tick s = do {
     (victim, s) \<leftarrow> swap_out_victim sm mm in_tick s;
     page \<leftarrow> victim;
     let v = pra_vaddr s page;
     pd \<leftarrow> pgdir (mms s mm);
     loc \<leftarrow> get_pte_existing pd v s;
     ptep \<leftarrow> loc;
     assert_c (read_word ptep s AND PTE_V \<noteq> 0);
     (r, s) \<leftarrow> swapfs_write (swap_entry_of v) page s;
     if r \<noteq> 0 then do {
       s \<leftarrow> map_swappable sm mm v page s;
       swap_out_loop sm mm (i + 1) k in_tick s
     } else do {
       let s = write_word ptep (swap_entry_of v) s;
       s \<leftarrow> free_pages page 1 s;
       swap_out_loop sm mm (i + 1) k in_tick s
     }
   }"

definition swap_out :: "swap_manager \<Rightarrow> nat option \<Rightarrow> nat \<Rightarrow> bool \<Rightarrow> vm \<Rightarrow> (nat \<times> vm) option" where
  "swap_out sm mm n in_tick s =
     (if n = 0 then Some (0, s) else do { mm \<leftarrow> mm; swap_out_loop sm mm 0 n in_tick s })"

subsection \<open>Page allocation (pmm.c)\<close>

partial_function (option) alloc_pages :: "swap_manager \<Rightarrow> nat \<Rightarrow> vm \<Rightarrow> (nat option \<times> vm) option" where
  "alloc_pages sm n s = do {
     (page, p) \<leftarrow> default_alloc_pages n (phys s);
     let s = s\<lparr>phys := p\<rparr>;
     if page \<noteq> None \<or> n > 1 \<or> \<not> swap_init_ok s then Some (page, s)
     else do {
       (_, s) \<leftarrow> swap_out sm (check_mm_struct s) n False s;
       alloc_pages sm n s
     }
   }"

declare alloc_pages.simps [code]

definition alloc_page :: "swap_manager \<Rightarrow> palloc" where
  "alloc_page sm s = alloc_pages sm 1 s"

text \<open>\<open>swap_in\<close>: a fresh page with the content of the swap entry at \<open>addr\<close>.\<close>

definition swap_in :: "swap_manager \<Rightarrow> nat \<Rightarrow> 64 word \<Rightarrow> vm \<Rightarrow> (nat \<times> vm) option" where
  "swap_in sm mm addr s = do {
     (result, s) \<leftarrow> alloc_page sm s;
     page \<leftarrow> result;
     pd \<leftarrow> pgdir (mms s mm);
     loc \<leftarrow> get_pte_existing pd addr s;
     ptep \<leftarrow> loc;
     (_, s) \<leftarrow> swapfs_read (read_word ptep s) page s;
     Some (page, s)
   }"

end
