(* ===== verification/PageTable.thy ===== *)
theory PageTable
  imports Vmbase
begin

section \<open>Page table operations (kern/mm/pmm.c)\<close>

text \<open>
  Mapping, unmapping and copying of address ranges on the three-level tables. The TLB is not
  modelled: \<open>tlb_invalidate\<close> has no effect here. Every loop over addresses is the code's loop
  with its 64-bit arithmetic, as a partial function.
\<close>

subsection \<open>Single pages\<close>

definition get_page :: "nat \<Rightarrow> 64 word \<Rightarrow> vm \<Rightarrow> (nat option \<times> (nat \<times> nat) option) option" where
  "get_page pd la s = do {
     ptep \<leftarrow> get_pte_existing pd la s;
     case ptep of
       None \<Rightarrow> Some (None, None)
     | Some loc \<Rightarrow>
         if read_word loc s AND PTE_V \<noteq> 0 then do { p \<leftarrow> pte2page (read_word loc s) s; Some (Some p, Some loc) }
         else Some (None, Some loc)
   }"

definition page_remove_pte :: "nat \<Rightarrow> 64 word \<Rightarrow> nat \<times> nat \<Rightarrow> vm \<Rightarrow> vm option" where
  "page_remove_pte pd la ptep s =
     (if read_word ptep s AND PTE_V \<noteq> 0 then do {
        page \<leftarrow> pte2page (read_word ptep s) s;
        let s = page_ref_dec page s;
        s \<leftarrow> (if page_ref page s = 0 then free_pages page 1 s else Some s);
        Some (write_word ptep 0 s)
      } else Some s)"

definition page_remove :: "nat \<Rightarrow> 64 word \<Rightarrow> vm \<Rightarrow> vm option" where
  "page_remove pd la s = do {
     ptep \<leftarrow> get_pte_existing pd la s;
     case ptep of None \<Rightarrow> Some s | Some loc \<Rightarrow> page_remove_pte pd la loc s
   }"

definition page_insert :: "swap_manager \<Rightarrow> nat \<Rightarrow> nat \<Rightarrow> 64 word \<Rightarrow> 64 word \<Rightarrow> vm \<Rightarrow> (int \<times> vm) option" where
  "page_insert sm pd page la perm s = do {
     (ptep, s) \<leftarrow> get_pte (alloc_page sm) pd la True s;
     case ptep of
       None \<Rightarrow> Some (- E_NO_MEM, s)
     | Some loc \<Rightarrow> do {
         let s = page_ref_inc page s;
         s \<leftarrow> (if read_word loc s AND PTE_V \<noteq> 0 then do {
                 p \<leftarrow> pte2page (read_word loc s) s;
                 if p = page then Some (page_ref_dec page s) else page_remove_pte pd la loc s
               } else Some s);
         Some (0, write_word loc (pte_create (page2ppn page s) (PTE_V OR perm)) s)
       }
   }"

definition pgdir_alloc_page :: "swap_manager \<Rightarrow> nat \<Rightarrow> 64 word \<Rightarrow> 64 word \<Rightarrow> vm \<Rightarrow> (nat option \<times> vm) option" where
  "pgdir_alloc_page sm pd la perm s = do {
     (r, s) \<leftarrow> alloc_page sm s;
     case r of
       None \<Rightarrow> Some (None, s)
     | Some page \<Rightarrow> do {
         (e, s) \<leftarrow> page_insert sm pd page la perm s;
         if e \<noteq> 0 then do { s \<leftarrow> free_pages page 1 s; Some (None, s) }
         else if swap_init_ok s then
           (case check_mm_struct s of
              Some mm \<Rightarrow> do {
                s \<leftarrow> swap_map_swappable sm mm la page s;
                let s = s\<lparr>pra_vaddr := (pra_vaddr s)(page := la)\<rparr>;
                assert_c (page_ref page s = 1);
                Some (Some page, s)
              }
            | None \<Rightarrow> Some (Some page, s))
         else Some (Some page, s)
       }
   }"

subsection \<open>Ranges\<close>

definition page_aligned :: "64 word \<Rightarrow> bool" where
  "page_aligned a \<longleftrightarrow> a mod PGSIZE = 0"

partial_function (option) unmap_loop :: "nat \<Rightarrow> 64 word \<Rightarrow> 64 word \<Rightarrow> vm \<Rightarrow> vm option" where
  "unmap_loop pd start e s = do {
     ptep \<leftarrow> get_pte_existing pd start s;
     (start, s) \<leftarrow> (case ptep of
         None \<Rightarrow> Some (ROUNDDOWN (start + PTSIZE) PTSIZE, s)
       | Some loc \<Rightarrow> do {
           s \<leftarrow> (if read_word loc s \<noteq> 0 then page_remove_pte pd start loc s else Some s);
           Some (start + PGSIZE, s)
         });
     if start \<noteq> 0 \<and> start < e then unmap_loop pd start e s else Some s
   }"

definition unmap_range :: "nat \<Rightarrow> 64 word \<Rightarrow> 64 word \<Rightarrow> vm \<Rightarrow> vm option" where
  "unmap_range pd start e s = do {
     assert_c (page_aligned start \<and> page_aligned e);
     assert_c (USER_ACCESS start e);
     unmap_loop pd start e s
   }"

text \<open>Whether all entries of a page table are invalid.\<close>

definition pt_free :: "nat \<Rightarrow> vm \<Rightarrow> bool" where
  "pt_free pt s = list_all (\<lambda>i. ram s pt i AND PTE_V = 0) [0..<NPTEENTRY]"

partial_function (option) exit_pd0_loop ::
    "nat \<Rightarrow> 64 word \<Rightarrow> 64 word \<Rightarrow> 64 word \<Rightarrow> bool \<Rightarrow> vm \<Rightarrow> (bool \<times> vm) option" where
  "exit_pd0_loop pd0 d1start d0start e free_pd0 s = do {
     let pde0 = read_word (pd0, PDX0 d0start) s;
     (free_pd0, s) \<leftarrow> (if pde0 AND PTE_V \<noteq> 0 then do {
         pt \<leftarrow> pde2page pde0 s;
         s \<leftarrow> (if pt_free pt s then do {
                 p \<leftarrow> pde2page pde0 s;
                 s \<leftarrow> free_pages p 1 s;
                 Some (write_word (pd0, PDX0 d0start) 0 s)
               } else Some s);
         Some (free_pd0, s)
       } else Some (False, s));
     let d0start = d0start + PTSIZE;
     if d0start \<noteq> 0 \<and> d0start < d1start + PDSIZE \<and> d0start < e
     then exit_pd0_loop pd0 d1start d0start e free_pd0 s else Some (free_pd0, s)
   }"

partial_function (option) exit_loop :: "nat \<Rightarrow> 64 word \<Rightarrow> 64 word \<Rightarrow> 64 word \<Rightarrow> vm \<Rightarrow> vm option" where
  "exit_loop pd d1start d0start e s = do {
     let pde1 = read_word (pd, PDX1 d1start) s;
     s \<leftarrow> (if pde1 AND PTE_V \<noteq> 0 then do {
         pd0 \<leftarrow> pde2page pde1 s;
         (free_pd0, s) \<leftarrow> exit_pd0_loop pd0 d1start d0start e True s;
         if free_pd0 then do {
           p \<leftarrow> pde2page pde1 s;
           s \<leftarrow> free_pages p 1 s;
           Some (write_word (pd, PDX1 d1start) 0 s)
         } else Some s
       } else Some s);
     let d1start = d1start + PDSIZE;
     if d1start \<noteq> 0 \<and> d1start < e then exit_loop pd d1start d1start e s else Some s
   }"

definition exit_range :: "nat \<Rightarrow> 64 word \<Rightarrow> 64 word \<Rightarrow> vm \<Rightarrow> vm option" where
  "exit_range pd start e s = do {
     assert_c (page_aligned start \<and> page_aligned e);
     assert_c (USER_ACCESS start e);
     exit_loop pd (ROUNDDOWN start PDSIZE) (ROUNDDOWN start PTSIZE) e s
   }"

partial_function (option) copy_range_loop ::
    "swap_manager \<Rightarrow> nat \<Rightarrow> nat \<Rightarrow> 64 word \<Rightarrow> 64 word \<Rightarrow> vm \<Rightarrow> (int \<times> vm) option" where
  "copy_range_loop sm to from start e s = do {
     ptep \<leftarrow> get_pte_existing from start s;
     case ptep of
       None \<Rightarrow>
         let start = ROUNDDOWN (start + PTSIZE) PTSIZE
         in if start \<noteq> 0 \<and> start < e then copy_range_loop sm to from start e s else Some (0, s)
     | Some loc \<Rightarrow> do {
         (ret, s) \<leftarrow> (if read_word loc s AND PTE_V \<noteq> 0 then do {
             (nptep, s) \<leftarrow> get_pte (alloc_page sm) to start True s;
             if nptep = None then Some (- E_NO_MEM, s)
             else do {
               let perm = read_word loc s AND PTE_USER;
               page \<leftarrow> pte2page (read_word loc s) s;
               (np, s) \<leftarrow> alloc_page sm s;
               npage \<leftarrow> np;
               let s = s\<lparr>ram := (ram s)(npage := ram s page)\<rparr>;
               (ret, s) \<leftarrow> page_insert sm to npage start perm s;
               if ret \<noteq> 0 then do { s \<leftarrow> free_pages npage 1 s; Some (ret, s) } else Some (0, s)
             }
           } else Some (0, s));
         if ret \<noteq> 0 then Some (ret, s)
         else let start = start + PGSIZE
              in if start \<noteq> 0 \<and> start < e then copy_range_loop sm to from start e s else Some (0, s)
       }
   }"

definition copy_range :: "swap_manager \<Rightarrow> nat \<Rightarrow> nat \<Rightarrow> 64 word \<Rightarrow> 64 word \<Rightarrow> bool \<Rightarrow> vm \<Rightarrow> (int \<times> vm) option" where
  "copy_range sm to from start e share s = do {
     assert_c (page_aligned start \<and> page_aligned e);
     assert_c (USER_ACCESS start e);
     copy_range_loop sm to from start e s
   }"

subsection \<open>Kernel mappings\<close>

fun boot_map_loop :: "swap_manager \<Rightarrow> nat \<Rightarrow> 64 word \<Rightarrow> nat \<Rightarrow> 64 word \<Rightarrow> 64 word \<Rightarrow> vm \<Rightarrow> vm option" where
  "boot_map_loop sm pd la 0 pa perm s = Some s"
| "boot_map_loop sm pd la (Suc n) pa perm s = do {
     (ptep, s) \<leftarrow> get_pte (alloc_page sm) pd la True s;
     loc \<leftarrow> ptep;
     boot_map_loop sm pd (la + PGSIZE) n (pa + PGSIZE) perm
       (write_word loc (pte_create (drop_bit 12 pa) (PTE_V OR perm)) s)
   }"

definition boot_map_segment ::
    "swap_manager \<Rightarrow> nat \<Rightarrow> 64 word \<Rightarrow> 64 word \<Rightarrow> 64 word \<Rightarrow> 64 word \<Rightarrow> vm \<Rightarrow> vm option" where
  "boot_map_segment sm pd la sz pa perm s = do {
     assert_c (PGOFF la = PGOFF pa);
     let n = unat (ROUNDUP (sz + PGOFF la) PGSIZE div PGSIZE);
     boot_map_loop sm pd (ROUNDDOWN la PGSIZE) n (ROUNDDOWN pa PGSIZE) perm s
   }"

definition boot_alloc_page :: "swap_manager \<Rightarrow> vm \<Rightarrow> (nat \<times> vm) option" where
  "boot_alloc_page sm s = do { (p, s) \<leftarrow> alloc_page sm s; page \<leftarrow> p; Some (page, s) }"

definition perm2str :: "64 word \<Rightarrow> string" where
  "perm2str perm =
     [if perm AND PTE_U \<noteq> 0 then CHR ''u'' else CHR ''-'', CHR ''r'',
      if perm AND PTE_W \<noteq> 0 then CHR ''w'' else CHR ''-'']"

text \<open>The first run of entries with the same permissions from \<open>start\<close>: \<open>(perm, left, right)\<close>.\<close>

fun skip_invalid :: "nat \<Rightarrow> nat \<Rightarrow> (nat \<Rightarrow> 64 word) \<Rightarrow> nat" where
  "skip_invalid 0 start table = start"
| "skip_invalid (Suc k) start table =
     (if table start AND PTE_V = 0 then skip_invalid k (start + 1) table else start)"

fun skip_perm :: "nat \<Rightarrow> nat \<Rightarrow> 64 word \<Rightarrow> (nat \<Rightarrow> 64 word) \<Rightarrow> nat" where
  "skip_perm 0 start perm table = start"
| "skip_perm (Suc k) start perm table =
     (if table start AND PTE_USER = perm then skip_perm k (start + 1) perm table else start)"

definition get_pgtable_items :: "nat \<Rightarrow> nat \<Rightarrow> (nat \<Rightarrow> 64 word) \<Rightarrow> (64 word \<times> nat \<times> nat) option" where
  "get_pgtable_items lim start table =
     (if start \<ge> lim then None
      else let l = skip_invalid (lim - start) start table in
        if l < lim then
          let perm = table l AND PTE_USER
          in Some (perm, l, skip_perm (lim - (l + 1)) (l + 1) perm table)
        else None)"

declare unmap_loop.simps [code] exit_pd0_loop.simps [code] exit_loop.simps [code]
  copy_range_loop.simps [code]

end
