(* ===== verification/Vmm.thy ===== *)
theory Vmm
  imports PageTable CString
begin

section \<open>Virtual memory areas and page faults (kern/mm/vmm.c)\<close>

text \<open>
  The list of areas of an address space is a ring in \<open>vlinks\<close>: the head \<open>MmapHead mm\<close>, a node
  \<open>VmaLink v\<close> per area. Every operation of vmm.c is here; the self checks \<open>check_vma_struct\<close>
  and \<open>check_pgfault\<close> only exercise them and are left out. The copies between kernel and user memory are in Kern,
  where the page tables and the kernel buffers meet.
\<close>

definition VM_READ :: "32 word" where "VM_READ = 1"
definition VM_WRITE :: "32 word" where "VM_WRITE = 2"
definition VM_EXEC :: "32 word" where "VM_EXEC = 4"
definition VM_STACK :: "32 word" where "VM_STACK = 8"

lemmas vm_flag_defs = VM_READ_def VM_WRITE_def VM_EXEC_def VM_STACK_def

fun le2vma :: "vnode \<Rightarrow> nat option" where
  "le2vma (VmaLink v) = Some v"
| "le2vma (MmapHead m) = None"

subsection \<open>Reference counts of address spaces (vmm.h)\<close>

definition mm_count :: "nat \<Rightarrow> vm \<Rightarrow> int" where
  "mm_count mm s = m_count (mms s mm)"

definition set_mm_count :: "nat \<Rightarrow> int \<Rightarrow> vm \<Rightarrow> vm" where
  "set_mm_count mm v s = upd_mm mm (\<lambda>m. m\<lparr>m_count := v\<rparr>) s"

definition mm_count_inc :: "nat \<Rightarrow> vm \<Rightarrow> int \<times> vm" where
  "mm_count_inc mm s = (let s = upd_mm mm (\<lambda>m. m\<lparr>m_count := m_count m + 1\<rparr>) s in (mm_count mm s, s))"

definition mm_count_dec :: "nat \<Rightarrow> vm \<Rightarrow> int \<times> vm" where
  "mm_count_dec mm s = (let s = upd_mm mm (\<lambda>m. m\<lparr>m_count := m_count m - 1\<rparr>) s in (mm_count mm s, s))"

subsection \<open>Areas\<close>

definition mm_create :: "swap_manager \<Rightarrow> vm \<Rightarrow> nat option \<times> vm" where
  "mm_create sm s =
     (case kmalloc_obj s of
        (None, s) \<Rightarrow> (None, s)
      | (Some mm, s) \<Rightarrow>
          let s = upd_vlinks (list_init (MmapHead mm)) s;
              s = upd_mm mm (\<lambda>m. m\<lparr>mmap_cache := None, pgdir := None, map_count := 0\<rparr>) s;
              s = (if swap_init_ok s then swap_init_mm sm mm s else upd_mm mm (\<lambda>m. m\<lparr>sm_priv := None\<rparr>) s);
              s = set_mm_count mm 0 s
          in (Some mm, upd_mm mm (\<lambda>m. m\<lparr>mm_sem := 1\<rparr>) s))"

definition vma_create :: "64 word \<Rightarrow> 64 word \<Rightarrow> 32 word \<Rightarrow> vm \<Rightarrow> nat option \<times> vm" where
  "vma_create b e flags s =
     (case kmalloc_obj s of
        (None, s) \<Rightarrow> (None, s)
      | (Some v, s) \<Rightarrow> (Some v, upd_vma v (\<lambda>x. x\<lparr>vm_start := b, vm_end := e, vm_flags := flags\<rparr>) s))"

definition in_vma :: "64 word \<Rightarrow> nat \<Rightarrow> vm \<Rightarrow> bool" where
  "in_vma addr v s \<longleftrightarrow> vm_start (vmas s v) \<le> addr \<and> addr < vm_end (vmas s v)"

partial_function (option) find_vma_loop :: "vnode \<Rightarrow> vnode \<Rightarrow> 64 word \<Rightarrow> vm \<Rightarrow> nat option option" where
  "find_vma_loop list le addr s =
     (let le = list_next le (vlinks s)
      in if le = list then Some None
         else do { v \<leftarrow> le2vma le; if in_vma addr v s then Some (Some v) else find_vma_loop list le addr s })"

definition find_vma :: "nat option \<Rightarrow> 64 word \<Rightarrow> vm \<Rightarrow> (nat option \<times> vm) option" where
  "find_vma m addr s =
     (case m of
        None \<Rightarrow> Some (None, s)
      | Some mm \<Rightarrow> do {
          vma \<leftarrow> (case mmap_cache (mms s mm) of
                   Some v \<Rightarrow> if in_vma addr v s then Some (Some v)
                             else find_vma_loop (MmapHead mm) (MmapHead mm) addr s
                 | None \<Rightarrow> find_vma_loop (MmapHead mm) (MmapHead mm) addr s);
          Some (vma, if vma \<noteq> None then upd_mm mm (\<lambda>m. m\<lparr>mmap_cache := vma\<rparr>) s else s)
        })"

definition check_vma_overlap :: "nat \<Rightarrow> nat \<Rightarrow> vm \<Rightarrow> unit option" where
  "check_vma_overlap p n s = do {
     assert_c (vm_start (vmas s p) < vm_end (vmas s p));
     assert_c (vm_end (vmas s p) \<le> vm_start (vmas s n));
     assert_c (vm_start (vmas s n) < vm_end (vmas s n))
   }"

partial_function (option) insert_vma_loop :: "vnode \<Rightarrow> vnode \<Rightarrow> vnode \<Rightarrow> nat \<Rightarrow> vm \<Rightarrow> vnode option" where
  "insert_vma_loop list le le_prev vma s =
     (let le = list_next le (vlinks s)
      in if le = list then Some le_prev
         else do {
           v \<leftarrow> le2vma le;
           if vm_start (vmas s v) > vm_start (vmas s vma) then Some le_prev
           else insert_vma_loop list le le vma s
         })"

definition insert_vma_struct :: "nat \<Rightarrow> nat \<Rightarrow> vm \<Rightarrow> vm option" where
  "insert_vma_struct mm vma s = do {
     assert_c (vm_start (vmas s vma) < vm_end (vmas s vma));
     le_prev \<leftarrow> insert_vma_loop (MmapHead mm) (MmapHead mm) (MmapHead mm) vma s;
     let le_next = list_next le_prev (vlinks s);
     (if le_prev \<noteq> MmapHead mm then do { p \<leftarrow> le2vma le_prev; check_vma_overlap p vma s } else Some ());
     (if le_next \<noteq> MmapHead mm then do { n \<leftarrow> le2vma le_next; check_vma_overlap vma n s } else Some ());
     let s = upd_vma vma (\<lambda>v. v\<lparr>vm_mm := mm\<rparr>) s;
     let s = upd_vlinks (list_add_after le_prev (VmaLink vma)) s;
     Some (upd_mm mm (\<lambda>m. m\<lparr>map_count := map_count m + 1\<rparr>) s)
   }"

partial_function (option) mm_destroy_loop :: "vnode \<Rightarrow> vm \<Rightarrow> vm option" where
  "mm_destroy_loop list s =
     (let le = list_next list (vlinks s)
      in if le = list then Some s
         else do {
           let s = upd_vlinks (list_del le) s;
           v \<leftarrow> le2vma le;
           mm_destroy_loop list (kfree_obj v s)
         })"

definition mm_destroy :: "nat \<Rightarrow> vm \<Rightarrow> vm option" where
  "mm_destroy mm s = do {
     assert_c (mm_count mm s = 0);
     s \<leftarrow> mm_destroy_loop (MmapHead mm) s;
     Some (kfree_obj mm s)
   }"

text \<open>The area made is the second component of the result; \<open>vma_store\<close> receives it.\<close>

definition mm_map :: "nat option \<Rightarrow> 64 word \<Rightarrow> 64 word \<Rightarrow> 32 word \<Rightarrow> vm \<Rightarrow> (int \<times> nat option \<times> vm) option" where
  "mm_map m addr len flags s = do {
     let start = ROUNDDOWN addr PGSIZE;
     let end = ROUNDUP (addr + len) PGSIZE;
     if \<not> USER_ACCESS start end then Some (- E_INVAL, None, s)
     else do {
       mm \<leftarrow> m;
       (vma, s) \<leftarrow> find_vma (Some mm) start s;
       if (case vma of None \<Rightarrow> False | Some v \<Rightarrow> end > vm_start (vmas s v)) then Some (- E_INVAL, None, s)
       else (case vma_create start end flags s of
               (None, s) \<Rightarrow> Some (- E_NO_MEM, None, s)
             | (Some v, s) \<Rightarrow> do { s \<leftarrow> insert_vma_struct mm v s; Some (0, Some v, s) })
     }
   }"

partial_function (option) dup_mmap_loop :: "swap_manager \<Rightarrow> nat \<Rightarrow> nat \<Rightarrow> vnode \<Rightarrow> vm \<Rightarrow> (int \<times> vm) option" where
  "dup_mmap_loop sm to from le s =
     (let le = list_prev le (vlinks s)
      in if le = MmapHead from then Some (0, s)
         else do {
           vma \<leftarrow> le2vma le;
           let b = vm_start (vmas s vma);
           let e = vm_end (vmas s vma);
           case vma_create b e (vm_flags (vmas s vma)) s of
             (None, s) \<Rightarrow> Some (- E_NO_MEM, s)
           | (Some nvma, s) \<Rightarrow> do {
               s \<leftarrow> insert_vma_struct to nvma s;
               topd \<leftarrow> pgdir (mms s to);
               frompd \<leftarrow> pgdir (mms s from);
               (r, s) \<leftarrow> copy_range sm topd frompd b e False s;
               if r \<noteq> 0 then Some (- E_NO_MEM, s) else dup_mmap_loop sm to from le s
             }
         })"

definition dup_mmap :: "swap_manager \<Rightarrow> nat \<Rightarrow> nat \<Rightarrow> vm \<Rightarrow> (int \<times> vm) option" where
  "dup_mmap sm to from s = dup_mmap_loop sm to from (MmapHead from) s"

partial_function (option) exit_mmap_loop ::
    "(nat \<Rightarrow> 64 word \<Rightarrow> 64 word \<Rightarrow> vm \<Rightarrow> vm option) \<Rightarrow> nat \<Rightarrow> vnode \<Rightarrow> vnode \<Rightarrow> vm \<Rightarrow> vm option" where
  "exit_mmap_loop f pd list le s =
     (let le = list_next le (vlinks s)
      in if le = list then Some s
         else do {
           v \<leftarrow> le2vma le;
           s \<leftarrow> f pd (vm_start (vmas s v)) (vm_end (vmas s v)) s;
           exit_mmap_loop f pd list le s
         })"

definition exit_mmap :: "nat \<Rightarrow> vm \<Rightarrow> vm option" where
  "exit_mmap mm s = do {
     assert_c (mm_count mm s = 0);
     pd \<leftarrow> pgdir (mms s mm);
     s \<leftarrow> exit_mmap_loop unmap_range pd (MmapHead mm) (MmapHead mm) s;
     exit_mmap_loop exit_range pd (MmapHead mm) (MmapHead mm) s
   }"

subsection \<open>Page faults\<close>

text \<open>
  A write to a present page that is mapped read-only takes the branch of a swap entry, as in the
  code. The code ignores what \<open>swap_in\<close> and \<open>page_insert\<close> return.
\<close>

definition do_pgfault :: "swap_manager \<Rightarrow> nat option \<Rightarrow> 64 word \<Rightarrow> 64 word \<Rightarrow> vm \<Rightarrow> (int \<times> vm) option" where
  "do_pgfault sm m error_code addr s = do {
     (r, s) \<leftarrow> find_vma m addr s;
     let s = s\<lparr>pgfault_num := pgfault_num s + 1\<rparr>;
     case r of
       None \<Rightarrow> Some (- E_INVAL, s)
     | Some vma \<Rightarrow>
         if vm_start (vmas s vma) > addr then Some (- E_INVAL, s)
         else do {
           let perm = (if vm_flags (vmas s vma) AND VM_WRITE \<noteq> 0 then PTE_U OR READ_WRITE else PTE_U);
           let addr = ROUNDDOWN addr PGSIZE;
           mm \<leftarrow> m;
           pd \<leftarrow> pgdir (mms s mm);
           (ptep, s) \<leftarrow> get_pte (alloc_page sm) pd addr True s;
           case ptep of
             None \<Rightarrow> Some (- E_NO_MEM, s)
           | Some loc \<Rightarrow>
               if read_word loc s = 0 then do {
                 (page, s) \<leftarrow> pgdir_alloc_page sm pd addr perm s;
                 Some (if page = None then - E_NO_MEM else 0, s)
               }
               else if swap_init_ok s then do {
                 (page, s) \<leftarrow> swap_in sm mm addr s;
                 (_, s) \<leftarrow> page_insert sm pd page addr perm s;
                 s \<leftarrow> swap_map_swappable sm mm addr page s;
                 Some (0, s\<lparr>pra_vaddr := (pra_vaddr s)(page := addr)\<rparr>)
               }
               else Some (- E_NO_MEM, s)
         }
   }"

subsection \<open>Access to user memory\<close>

partial_function (option) user_mem_loop :: "nat \<Rightarrow> 64 word \<Rightarrow> 64 word \<Rightarrow> bool \<Rightarrow> vm \<Rightarrow> (bool \<times> vm) option" where
  "user_mem_loop mm start e write s =
     (if start < e then do {
        (r, s) \<leftarrow> find_vma (Some mm) start s;
        case r of
          None \<Rightarrow> Some (False, s)
        | Some v \<Rightarrow>
            if start < vm_start (vmas s v) then Some (False, s)
            else if vm_flags (vmas s v) AND (if write then VM_WRITE else VM_READ) = 0 then Some (False, s)
            else if write \<and> vm_flags (vmas s v) AND VM_STACK \<noteq> 0 \<and> start < vm_start (vmas s v) + PGSIZE
            then Some (False, s)
            else user_mem_loop mm (vm_end (vmas s v)) e write s
      } else Some (True, s))"

definition user_mem_check :: "nat option \<Rightarrow> 64 word \<Rightarrow> 64 word \<Rightarrow> bool \<Rightarrow> vm \<Rightarrow> (bool \<times> vm) option" where
  "user_mem_check m addr len write s =
     (case m of
        Some mm \<Rightarrow> if \<not> USER_ACCESS addr (addr + len) then Some (False, s)
                   else user_mem_loop mm addr (addr + len) write s
      | None \<Rightarrow> Some (KERN_ACCESS addr (addr + len), s))"

declare find_vma_loop.simps [code] insert_vma_loop.simps [code] mm_destroy_loop.simps [code]
  dup_mmap_loop.simps [code] exit_mmap_loop.simps [code] user_mem_loop.simps [code]

end
