(* ===== verification/PageTableProps.thy ===== *)
theory PageTableProps
  imports PageTable
begin

section \<open>The page table walk refines a map from addresses to entries\<close>

text \<open>
  \<open>translate s pd la\<close> is the valid entry that the hardware finds for \<open>la\<close> from the page directory
  \<open>pd\<close>. Under \<open>pt_ok\<close> (the tables form a tree of distinct allocated pages) \<open>get_pte\<close> with
  creation changes no translation, and \<open>page_insert\<close> changes exactly one.
\<close>

subsection \<open>Invariants\<close>

definition vm_ok :: "vm \<Rightarrow> bool" where
  "vm_ok s \<longleftrightarrow> pmm_inv (phys s) \<and> free_set (phys s) \<subseteq> {..<npage s - nbase s} \<and> npage s \<le> 2 ^ 44"

abbreviation free_page_set :: "vm \<Rightarrow> nat set" where
  "free_page_set s \<equiv> free_set (phys s)"

definition valid :: "64 word \<Rightarrow> bool" where
  "valid w \<longleftrightarrow> w AND PTE_V \<noteq> 0"

definition child :: "vm \<Rightarrow> nat \<Rightarrow> nat \<Rightarrow> nat option" where
  "child s p i = (if valid (ram s p i) then pa2page (PTE_ADDR (ram s p i)) s else None)"

text \<open>The table reached from \<open>p\<close> along a list of indices.\<close>

fun walk :: "vm \<Rightarrow> nat \<Rightarrow> nat list \<Rightarrow> nat option" where
  "walk s p [] = Some p"
| "walk s p (i # is) = (case child s p i of None \<Rightarrow> None | Some q \<Rightarrow> walk s q is)"

definition translate :: "vm \<Rightarrow> nat \<Rightarrow> 64 word \<Rightarrow> 64 word option" where
  "translate s pd la =
     (case walk s pd [PDX1 la, PDX0 la] of None \<Rightarrow> None
      | Some q \<Rightarrow> if valid (ram s q (PTX la)) then Some (ram s q (PTX la)) else None)"

definition pt_ok :: "vm \<Rightarrow> nat \<Rightarrow> bool" where
  "pt_ok s pd \<longleftrightarrow>
     (\<forall>is q. length is \<le> 2 \<longrightarrow> walk s pd is = Some q \<longrightarrow> q \<notin> free_page_set s) \<and>
     (\<forall>is js q. length is \<le> 2 \<longrightarrow> length js \<le> 2 \<longrightarrow>
        walk s pd is = Some q \<longrightarrow> walk s pd js = Some q \<longrightarrow> is = js) \<and>
     (\<forall>is q i. length is \<le> 1 \<longrightarrow> walk s pd is = Some q \<longrightarrow> valid (ram s q i) \<longrightarrow> child s q i \<noteq> None)"

subsection \<open>Entries\<close>

lemma valid_pte_create: "valid (pte_create ppn t)"
  by (simp add: valid_def pte_create_def PTE_V_def)
     (metis (no_types, opaque_lifting) bit_1_0 bit_and_iff bit_or_iff bit_0_eq bot_apply bot_bool_def)

lemma not_valid_0 [simp]: "\<not> valid 0"
  by (simp add: valid_def)

lemma bit_3FF: "bit (0x3FF :: 64 word) n \<longleftrightarrow> n < 10"
proof -
  have m: "(0x3FF :: 64 word) = mask 10" by (simp add: mask_eq_exp_minus_1)
  show ?thesis unfolding m bit_mask_iff by auto
qed

lemma pte_addr_create:
  assumes "t AND NOT 0x3FF = 0" "unat ppn < 2 ^ 44"
  shows "PTE_ADDR (pte_create ppn t) = push_bit 12 ppn"
proof -
  have t: "bit t n \<Longrightarrow> n < 10" for n
  proof -
    assume "bit t n"
    moreover have "\<not> bit (t AND NOT 0x3FF) n" using assms(1) by simp
    ultimately show "n < 10"
      using bit_imp_le_length [of t n] bit_3FF [of n] by (auto simp: bit_simps)
  qed
  have "(push_bit 10 ppn OR PTE_V OR t) AND NOT 0x3FF = push_bit 10 ppn"
  proof (rule bit_word_eqI)
    fix n :: nat assume n: "n < LENGTH(64)"
    show "bit ((push_bit 10 ppn OR PTE_V OR t) AND NOT 0x3FF) n = bit (push_bit 10 ppn) n"
      using n t [of n] bit_3FF [of n] by (auto simp: bit_simps PTE_V_def)
  qed
  then show ?thesis by (simp add: PTE_ADDR_def pte_create_def)
qed

lemma not_bit_of_unat:
  fixes w :: "64 word"
  assumes "unat w < 2 ^ n"
  shows "\<not> bit w n"
proof -
  have "\<not> bit (unat w) n" using assms by (simp add: bit_iff_odd)
  then show ?thesis by (simp add: bit_unsigned_iff)
qed

lemma unat_page2ppn: "p + nbase s < 2 ^ 44 \<Longrightarrow> unat (page2ppn p s) = p + nbase s"
  unfolding page2ppn_def unat_of_nat by simp

lemma pa2page_push:
  assumes "p + nbase s < npage s" "npage s \<le> 2 ^ 44"
  shows "pa2page (push_bit 12 (page2ppn p s)) s = Some p"
proof -
  have b: "p + nbase s < 2 ^ 44" using assms by simp
  then have u: "unat (page2ppn p s) = p + nbase s" by (rule unat_page2ppn)
  have "PPN (push_bit 12 (page2ppn p s)) = page2ppn p s"
  proof (rule bit_word_eqI)
    fix n :: nat assume n: "n < LENGTH(64)"
    have hi: "n < 44" if "bit (page2ppn p s) n"
    proof (rule ccontr)
      assume "\<not> n < 44"
      then have le: "44 \<le> n" by simp
      have "(2::nat) ^ 44 \<le> 2 ^ n" using le by (intro power_increasing) auto
      then have "unat (page2ppn p s) < 2 ^ n" using u b by simp
      then show False using that by (simp add: not_bit_of_unat)
    qed
    then show "bit (PPN (push_bit 12 (page2ppn p s))) n = bit (page2ppn p s) n"
      using n hi by (auto simp: PPN_def bit_simps)
  qed
  then show ?thesis using u assms by (simp add: pa2page_def)
qed

lemma pte2page_create:
  assumes "t AND NOT 0x3FF = 0" "p + nbase s < npage s" "npage s \<le> 2 ^ 44"
  shows "pa2page (PTE_ADDR (pte_create (page2ppn p s) t)) s = Some p"
proof -
  have "p + nbase s < 2 ^ 44" using assms by simp
  then have "unat (page2ppn p s) < 2 ^ 44" by (simp add: unat_page2ppn)
  then show ?thesis using pte_addr_create [OF assms(1)] pa2page_push [OF assms(2,3)] by simp
qed

lemma pa2page_cong: "nbase t = nbase s \<Longrightarrow> npage t = npage s \<Longrightarrow> pa2page a t = pa2page a s"
  by (simp add: pa2page_def)

lemma child_cong:
  "ram t p i = ram s p i \<Longrightarrow> nbase t = nbase s \<Longrightarrow> npage t = npage s \<Longrightarrow> child t p i = child s p i"
  by (simp add: child_def pa2page_def)

subsection \<open>Allocation of a page\<close>

lemma upd_ref_pmm:
  "pmm_inv (upd_page p (\<lambda>x. x\<lparr>pg_ref := r x\<rparr>) q) = pmm_inv q"
  "free_set (upd_page p (\<lambda>x. x\<lparr>pg_ref := r x\<rparr>) q) = free_set q"
proof -
  let ?q = "upd_page p (\<lambda>x. x\<lparr>pg_ref := r x\<rparr>) q"
  have f: "PageProperty (pages ?q i) = PageProperty (pages q i)"
    "PageReserved (pages ?q i) = PageReserved (pages q i)"
    "pg_property (pages ?q i) = pg_property (pages q i)" for i
    by (simp_all add: flag_defs)
  have m: "map (\<lambda>p. pg_property (pages ?q p)) ps = map (\<lambda>p. pg_property (pages q p)) ps" for ps
    using f(3) by simp
  have "pmm_wf ?q ps = pmm_wf q ps" for ps
    unfolding pmm_wf_def f m sorted_blocks_cong [of ps "pages ?q" "pages q", OF f(3)] by simp
  then show "pmm_inv ?q = pmm_inv q" by (simp add: pmm_inv_def)
  show "free_set ?q = free_set q" unfolding free_set_def f ..
qed

lemma alloc_page_ok:
  assumes "vm_ok s" "free_page_set s \<noteq> {} \<or> \<not> swap_init_ok s"
  shows "\<exists>r t. alloc_page sm s = Some (r, s\<lparr>phys := t\<rparr>) \<and> vm_ok (s\<lparr>phys := t\<rparr>) \<and>
    (case r of None \<Rightarrow> free_page_set s = {} \<and> t = phys s
     | Some p \<Rightarrow> p \<in> free_page_set s \<and> free_set t = free_page_set s - {p})"
proof -
  have inv: "pmm_inv (phys s)" using assms(1) by (simp add: vm_ok_def)
  obtain r t where r: "default_alloc_pages 1 (phys s) = Some (r, t)" "pmm_inv t" "alloc_outcome 1 (phys s) r t"
    using default_alloc_ok [OF inv, of 1] by auto
  have none: "r = None \<Longrightarrow> free_page_set s = {} \<and> t = phys s"
  proof -
    assume "r = None"
    then have "\<forall>p. PageProperty (pages (phys s) p) \<longrightarrow> pg_property (pages (phys s) p) < 1" "t = phys s"
      using r(3) by (auto simp: alloc_outcome_def)
    then show ?thesis by (auto simp: free_set_def)
  qed
  have some: "p \<in> free_page_set s \<and> free_set t = free_page_set s - {p}" if "r = Some p" for p
    using r(3) that by (auto simp: alloc_outcome_def)
  have "r \<noteq> None \<or> \<not> swap_init_ok s" using none assms(2) by blast
  then have "alloc_page sm s = Some (r, s\<lparr>phys := t\<rparr>)"
    using r(1) unfolding alloc_page_def by (subst alloc_pages.simps) simp
  moreover have "vm_ok (s\<lparr>phys := t\<rparr>)"
    using assms(1) r(2) none some unfolding vm_ok_def by (cases r) auto
  ultimately show ?thesis using none some by (cases r) auto
qed

text \<open>A new table: a zeroed page that was free, entered at the given place.\<close>

text \<open>The fields the walk never touches.\<close>

definition same_rest :: "vm \<Rightarrow> vm \<Rightarrow> bool" where
  "same_rest s t \<longleftrightarrow> swap_init_ok t = swap_init_ok s \<and> check_mm_struct t = check_mm_struct s \<and>
     pgfault_num t = pgfault_num s \<and> mms t = mms s"

lemma new_table_ok:
  assumes ok: "vm_ok s" and f: "free_page_set s \<noteq> {}" and loc: "fst loc \<notin> free_page_set s"
  shows "\<exists>p t. new_table (alloc_page sm) loc s = Some (True, t) \<and> p \<in> free_page_set s \<and>
    free_page_set t = free_page_set s - {p} \<and> vm_ok t \<and> nbase t = nbase s \<and> npage t = npage s \<and>
    same_rest s t \<and>
    child t (fst loc) (snd loc) = Some p \<and> valid (ram t (fst loc) (snd loc)) \<and>
    (\<forall>q i. q \<noteq> p \<longrightarrow> (q, i) \<noteq> loc \<longrightarrow> ram t q i = ram s q i) \<and> (\<forall>i. ram t p i = 0)"
proof -
  obtain p q where a: "alloc_page sm s = Some (Some p, s\<lparr>phys := q\<rparr>)" "vm_ok (s\<lparr>phys := q\<rparr>)"
    "p \<in> free_page_set s" "free_set q = free_page_set s - {p}"
    using alloc_page_ok [OF ok, of sm] f by (auto split: option.splits)
  let ?q = "upd_page p (\<lambda>x. x\<lparr>pg_ref := 1\<rparr>) q"
  let ?s = "s\<lparr>phys := ?q, ram := (ram s)(p := \<lambda>_. 0)\<rparr>"
  let ?w = "pte_create (page2ppn p s) (PTE_U OR PTE_V)"
  let ?t = "write_word loc ?w ?s"
  have t: "new_table (alloc_page sm) loc s = Some (True, ?t)"
    using a(1) by (simp add: new_table_def upd_ref_def page2ppn_def)
  have pn: "fst loc \<noteq> p" using a(3) loc by auto
  have ram: "ram ?t (fst loc) (snd loc) = ?w" by (simp add: write_word_def)
  have "p < npage s - nbase s" "npage s \<le> 2 ^ 44" using ok a(3) by (auto simp: vm_ok_def)
  then have "pa2page (PTE_ADDR ?w) s = Some p"
    by (intro pte2page_create) (auto simp: PTE_U_def PTE_V_def)
  then have "pa2page (PTE_ADDR ?w) ?t = Some p"
    using pa2page_cong [of ?t s "PTE_ADDR ?w"] by (simp add: write_word_def)
  then have "child ?t (fst loc) (snd loc) = Some p"
    unfolding child_def ram by (simp add: valid_pte_create)
  moreover have "vm_ok ?t" "free_page_set ?t = free_page_set s - {p}"
    using a(2,4) by (simp_all add: vm_ok_def write_word_def upd_ref_pmm)
  moreover have "ram ?t q i = ram s q i" if "q \<noteq> p" "(q, i) \<noteq> loc" for q i
    using that by (cases loc) (auto simp: write_word_def)
  moreover have "ram ?t p i = 0" for i using pn by (simp add: write_word_def)
  ultimately show ?thesis using t a(3) ram valid_pte_create by (intro exI [of _ p] exI [of _ ?t])
      (simp add: write_word_def same_rest_def)
qed

subsection \<open>A new table in the tree\<close>

text \<open>What \<open>new_table\<close> does to memory, as a relation the tree lemmas use.\<close>

definition grown :: "vm \<Rightarrow> nat \<times> nat \<Rightarrow> nat \<Rightarrow> vm \<Rightarrow> bool" where
  "grown s loc p t \<longleftrightarrow> p \<in> free_page_set s \<and> free_page_set t = free_page_set s - {p} \<and>
     nbase t = nbase s \<and> npage t = npage s \<and> child t (fst loc) (snd loc) = Some p \<and>
     (\<forall>q i. q \<noteq> p \<longrightarrow> (q, i) \<noteq> loc \<longrightarrow> ram t q i = ram s q i) \<and> (\<forall>i. ram t p i = 0)"

lemma grown_child:
  assumes "grown s loc p t"
  shows "q \<noteq> p \<Longrightarrow> (q, i) \<noteq> loc \<Longrightarrow> child t q i = child s q i"
    "q \<noteq> p \<Longrightarrow> (q, i) \<noteq> loc \<Longrightarrow> ram t q i = ram s q i"
    "child t p j = None" "child t (fst loc) (snd loc) = Some p" "\<not> valid (ram t p j)"
    "p \<in> free_page_set s" "free_page_set t = free_page_set s - {p}"
  using assms by (auto simp: grown_def child_def pa2page_def)

lemma walk_append: "walk s p (is @ js) = Option.bind (walk s p is) (\<lambda>q. walk s q js)"
  by (induction "is" arbitrary: p) (auto split: option.splits)

lemma walk_snoc: "walk s p (is @ [i]) = Option.bind (walk s p is) (\<lambda>q. child s q i)"
  by (simp add: walk_append split: option.splits) (cases "walk s p is"; simp split: option.splits)

lemma pt_okD:
  assumes "pt_ok s pd"
  shows "length is \<le> 2 \<Longrightarrow> walk s pd is = Some q \<Longrightarrow> q \<notin> free_page_set s"
    "length is \<le> 2 \<Longrightarrow> length js \<le> 2 \<Longrightarrow> walk s pd is = Some q \<Longrightarrow> walk s pd js = Some q \<Longrightarrow> is = js"
    "length is \<le> 1 \<Longrightarrow> walk s pd is = Some q \<Longrightarrow> valid (ram s q i) \<Longrightarrow> child s q i \<noteq> None"
  using assms unfolding pt_ok_def by blast+

lemma grown_walk:
  assumes pt: "pt_ok s pd" and w: "walk s pd is = Some q" and l: "length is \<le> 1"
    and inv: "\<not> valid (ram s q i)" and g: "grown s (q, i) p t"
  shows "length js \<le> 2 \<Longrightarrow> walk t pd js = (if js = is @ [i] then Some p else walk s pd js)"
proof (induction js rule: rev_induct)
  case Nil then show ?case by simp
next
  case (snoc k js)
  have none: "walk s pd (is @ [i]) = None" using w inv by (simp add: walk_snoc child_def)
  have ih: "walk t pd js = (if js = is @ [i] then Some p else walk s pd js)" using snoc by simp
  show ?case
  proof (cases "js = is @ [i]")
    case True
    then have "walk t pd js = Some p" "walk s pd js = None" using ih none by simp_all
    then have "walk t pd (js @ [k]) = None" "walk s pd (js @ [k]) = None"
      using grown_child(3) [OF g, of k] by (simp_all add: walk_snoc)
    then show ?thesis using True by simp
  next
    case False
    note js = ih [unfolded if_not_P [OF False]]
    show ?thesis
    proof (cases "walk s pd js")
      case None
      then have "js \<noteq> is" using w by auto
      then show ?thesis using js None by (simp add: walk_snoc)
    next
      case (Some r)
      have "r \<noteq> p" using pt_okD(1) [OF pt _ Some] snoc.prems grown_child(6) [OF g] by auto
      moreover have "r = q \<longleftrightarrow> js = is" using pt_okD(2) [OF pt _ _ Some, of "is"] snoc.prems w l Some by auto
      ultimately show ?thesis
        using js Some grown_child(1) [OF g, of r k] grown_child(4) [OF g] by (auto simp: walk_snoc)
    qed
  qed
qed

lemma grown_pt_ok:
  assumes pt: "pt_ok s pd" and w: "walk s pd is = Some q" and l: "length is \<le> 1"
    and inv: "\<not> valid (ram s q i)" and g: "grown s (q, i) p t"
  shows "pt_ok t pd"
proof -
  note W = grown_walk [OF assms]
  have nf: "length js \<le> 2 \<Longrightarrow> walk s pd js = Some r \<Longrightarrow> r \<noteq> p" for js r
    using pt_okD(1) [OF pt] grown_child(6) [OF g] by blast
  show ?thesis
    unfolding pt_ok_def
  proof (intro conjI allI impI)
    fix js r assume "length js \<le> 2" "walk t pd js = Some r"
    then show "r \<notin> free_page_set t"
      using W [of js] pt_okD(1) [OF pt, of js r] grown_child(7) [OF g] by (auto split: if_splits)
  next
    fix js ks r assume "length js \<le> 2" "length ks \<le> 2" "walk t pd js = Some r" "walk t pd ks = Some r"
    then show "js = ks"
      using W [of js] W [of ks] nf [of js r] nf [of ks r] pt_okD(2) [OF pt, of js ks r] by (simp split: if_splits)
  next
    fix js r k assume a: "length js \<le> 1" "walk t pd js = Some r" "valid (ram t r k)"
    then have "r \<noteq> p" using grown_child(5) [OF g] by auto
    then have "walk s pd js = Some r" using W [of js] a(1,2) by (simp split: if_splits)
    then show "child t r k \<noteq> None"
      using a(1,3) pt_okD(3) [OF pt, of js r k] \<open>r \<noteq> p\<close> grown_child(1,2) [OF g, of r k] grown_child(4) [OF g]
      by (cases "(r, k) = (q, i)") auto
  qed
qed

text \<open>The entry of an address, zero when there is no leaf table.\<close>

definition entry :: "vm \<Rightarrow> nat \<Rightarrow> 64 word \<Rightarrow> 64 word" where
  "entry s pd la = (case walk s pd [PDX1 la, PDX0 la] of None \<Rightarrow> 0 | Some q \<Rightarrow> ram s q (PTX la))"

lemma translate_entry: "translate s pd la = (if valid (entry s pd la) then Some (entry s pd la) else None)"
  by (simp add: translate_def entry_def del: walk.simps split: option.split)

lemma grown_entry:
  assumes pt: "pt_ok s pd" and w: "walk s pd is = Some q" and l: "length is \<le> 1"
    and inv: "\<not> valid (ram s q i)" and g: "grown s (q, i) p t"
  shows "entry t pd la = entry s pd la"
proof -
  let ?js = "[PDX1 la, PDX0 la]"
  note W = grown_walk [OF assms, of ?js]
  show ?thesis
  proof (cases "?js = is @ [i]")
    case True
    have "walk s pd ?js = None" unfolding True using w inv by (simp add: walk_snoc child_def)
    moreover have "walk t pd ?js = Some p" unfolding True using grown_walk [OF assms, of "is @ [i]"] l by simp
    moreover have "ram t p k = 0" for k using g by (simp add: grown_def)
    ultimately show ?thesis by (simp add: entry_def del: walk.simps)
  next
    case False
    have eq: "walk t pd ?js = walk s pd ?js" using W False by (simp del: walk.simps)
    show ?thesis
    proof (cases "walk s pd ?js")
      case None then show ?thesis using eq by (simp add: entry_def del: walk.simps)
    next
      case (Some r)
      have "r \<noteq> p" using pt_okD(1) [OF pt _ Some] grown_child(6) [OF g] by auto
      moreover have "r \<noteq> q" using pt_okD(2) [OF pt _ _ Some, of "is"] w l by auto
      ultimately have "ram t r (PTX la) = ram s r (PTX la)" using grown_child(2) [OF g, of r] by simp
      then show ?thesis using eq Some by (simp add: entry_def del: walk.simps)
    qed
  qed
qed

lemma grown_translate:
  assumes "pt_ok s pd" "walk s pd is = Some q" "length is \<le> 1" "\<not> valid (ram s q i)" "grown s (q, i) p t"
  shows "translate t pd la = translate s pd la"
  unfolding translate_entry grown_entry [OF assms] ..

subsection \<open>The creating walk\<close>

text \<open>One level of \<open>get_pte\<close>: follow the entry, or enter a new table.\<close>

lemma level_ok:
  assumes ok: "vm_ok s" and pt: "pt_ok s pd" and w: "walk s pd is = Some q" and l: "length is \<le> 1"
    and f: "free_page_set s \<noteq> {}"
  shows "\<exists>p t. (if read_word (q, i) s AND PTE_V = 0 then new_table (alloc_page sm) (q, i) s
                else Some (True, s)) = Some (True, t) \<and>
    child t q i = Some p \<and> walk t pd (is @ [i]) = Some p \<and> vm_ok t \<and> pt_ok t pd \<and>
    nbase t = nbase s \<and> npage t = npage s \<and> same_rest s t \<and>
    pa2page (PTE_ADDR (read_word (q, i) t)) t = Some p \<and>
    free_page_set s - {p} \<subseteq> free_page_set t \<and> free_page_set t \<subseteq> free_page_set s \<and>
    (\<forall>la. entry t pd la = entry s pd la) \<and>
    (\<forall>r k. r \<notin> free_page_set s \<longrightarrow> (r, k) \<noteq> (q, i) \<longrightarrow> ram t r k = ram s r k)"
proof (cases "valid (ram s q i)")
  case True
  obtain p where p: "child s q i = Some p" using pt_okD(3) [OF pt l w True] by blast
  then have "pa2page (PTE_ADDR (ram s q i)) s = Some p" by (simp add: child_def split: if_splits)
  then show ?thesis
    using True p w ok pt by (intro exI [of _ p] exI [of _ s]) (auto simp: valid_def read_word_def walk_snoc same_rest_def)
next
  case False
  have "q \<notin> free_page_set s" using pt_okD(1) [OF pt _ w] l by simp
  then obtain p t where t: "new_table (alloc_page sm) (q, i) s = Some (True, t)" "p \<in> free_page_set s"
    "free_page_set t = free_page_set s - {p}" "vm_ok t" "nbase t = nbase s" "npage t = npage s" "same_rest s t"
    "child t q i = Some p" "\<forall>r k. r \<noteq> p \<longrightarrow> (r, k) \<noteq> (q, i) \<longrightarrow> ram t r k = ram s r k" "\<forall>k. ram t p k = 0"
    using new_table_ok [OF ok f, of "(q, i)" sm] by auto
  have g: "grown s (q, i) p t" using t by (simp add: grown_def)
  have "walk t pd (is @ [i]) = Some p" using grown_walk [OF pt w l False g, of "is @ [i]"] l by simp
  moreover have "pa2page (PTE_ADDR (ram t q i)) t = Some p"
    using t(8) by (simp add: child_def split: if_splits)
  moreover have "\<forall>r k. r \<notin> free_page_set s \<longrightarrow> (r, k) \<noteq> (q, i) \<longrightarrow> ram t r k = ram s r k"
    using t(2,9) by metis
  ultimately show ?thesis
    using False t(1-8) grown_pt_ok [OF pt w l False g] grown_entry [OF pt w l False g]
    by (intro exI [of _ p] exI [of _ t]) (simp add: valid_def read_word_def Diff_subset)
qed

lemma card_Diff_ge: "finite A \<Longrightarrow> A - {p} \<subseteq> B \<Longrightarrow> Suc n \<le> card A \<Longrightarrow> B \<subseteq> A \<Longrightarrow> n \<le> card B"
  using card_mono [of B "A - {p}"] finite_subset [of B A] card_Diff_singleton_if [of A p]
  by (auto split: if_splits)

lemma get_pte_creates:
  assumes ok: "vm_ok s" and pt: "pt_ok s pd" and f: "2 \<le> card (free_page_set s)"
  shows "\<exists>q t. get_pte (alloc_page sm) pd la True s = Some (Some (q, PTX la), t) \<and>
    walk t pd [PDX1 la, PDX0 la] = Some q \<and> vm_ok t \<and> pt_ok t pd \<and>
    nbase t = nbase s \<and> npage t = npage s \<and> free_page_set t \<subseteq> free_page_set s \<and>
    same_rest s t \<and> card (free_page_set s) \<le> card (free_page_set t) + 2 \<and> (\<forall>a. entry t pd a = entry s pd a)"
proof -
  have fin: "finite (free_page_set s)"
    using ok unfolding vm_ok_def by (meson finite_lessThan finite_subset)
  obtain p u where u: "(if read_word (pd, PDX1 la) s AND PTE_V = 0 then new_table (alloc_page sm) (pd, PDX1 la) s
                else Some (True, s)) = Some (True, u)" "walk u pd ([] @ [PDX1 la]) = Some p" "vm_ok u" "pt_ok u pd"
    "nbase u = nbase s" "npage u = npage s" "pa2page (PTE_ADDR (read_word (pd, PDX1 la) u)) u = Some p"
    "free_page_set s - {p} \<subseteq> free_page_set u" "free_page_set u \<subseteq> free_page_set s"
    "\<forall>a. entry u pd a = entry s pd a" "same_rest s u"
    using level_ok [OF ok pt walk.simps(1), of "PDX1 la" sm] f by force
  have "1 \<le> card (free_page_set u)" using card_Diff_ge [OF fin u(8) _ u(9), of 1] f by simp
  then have fu: "free_page_set u \<noteq> {}" by force
  obtain q t where t: "(if read_word (p, PDX0 la) u AND PTE_V = 0 then new_table (alloc_page sm) (p, PDX0 la) u
                else Some (True, u)) = Some (True, t)" "walk t pd ([PDX1 la] @ [PDX0 la]) = Some q" "vm_ok t" "pt_ok t pd"
    "nbase t = nbase u" "npage t = npage u" "pa2page (PTE_ADDR (read_word (p, PDX0 la) t)) t = Some q"
    "free_page_set u - {q} \<subseteq> free_page_set t" "free_page_set t \<subseteq> free_page_set u" "\<forall>a. entry t pd a = entry u pd a" "same_rest u t"
    using level_ok [OF u(3,4), of "[PDX1 la]" p "PDX0 la" sm] u(2) fu by force
  have "get_pte (alloc_page sm) pd la True s = Some (Some (q, PTX la), t)"
    unfolding get_pte_def using u(1,7) t(1,7) by (simp del: not_None_eq cong: if_cong)
  moreover have "same_rest s t" using u(11) t(11) by (simp add: same_rest_def)
  moreover have "card (free_page_set s) \<le> card (free_page_set u) + 1"
    using card_Diff_ge [OF fin u(8) _ u(9), of "card (free_page_set s) - 1"] f by simp
  moreover have "card (free_page_set u) \<le> card (free_page_set t) + 1"
    using card_Diff_ge [OF _ t(8) _ t(9), of "card (free_page_set u) - 1"] fin u(9) fu finite_subset card_gt_0_iff
    by (metis One_nat_def Suc_eq_plus1 Suc_pred le_refl Suc_le_mono)
  ultimately show ?thesis using t u by (intro exI [of _ q] exI [of _ t]) auto
qed

subsection \<open>Writing a leaf entry\<close>

definition same_page :: "64 word \<Rightarrow> 64 word \<Rightarrow> bool" where
  "same_page la a \<longleftrightarrow> PDX1 a = PDX1 la \<and> PDX0 a = PDX0 la \<and> PTX a = PTX la"

lemma child_write:
  "child (write_word (q, k) w s) r i =
     (if r = q \<and> i = k then (if valid w then pa2page (PTE_ADDR w) s else None) else child s r i)"
  by (simp add: child_def write_word_def pa2page_def)

lemma write_word_simps [simp]:
  "phys (write_word l w s) = phys s" "nbase (write_word l w s) = nbase s" "npage (write_word l w s) = npage s"
  "ram (write_word (q, k) w s) r i = (if r = q \<and> i = k then w else ram s r i)"
  "swap_init_ok (write_word l w s) = swap_init_ok s" "vm_ok (write_word l w s) = vm_ok s"
  by (simp_all add: write_word_def vm_ok_def)

lemma walk_write_leaf:
  assumes pt: "pt_ok s pd" and w: "walk s pd [a, b] = Some q"
  shows "length is \<le> 2 \<Longrightarrow> walk (write_word (q, k) v s) pd is = walk s pd is"
proof (induction "is" rule: rev_induct)
  case Nil then show ?case by simp
next
  case (snoc i js)
  show ?case
  proof (cases "walk s pd js")
    case None then show ?thesis using snoc by (simp add: walk_snoc)
  next
    case (Some r)
    have "r \<noteq> q" using pt_okD(2) [OF pt _ _ Some, of "[a, b]"] w snoc.prems by auto
    then show ?thesis using snoc Some by (simp add: walk_snoc child_write)
  qed
qed

lemma write_leaf:
  assumes pt: "pt_ok s pd" and w: "walk s pd [PDX1 la, PDX0 la] = Some q"
  shows "pt_ok (write_word (q, PTX la) v s) pd"
    "translate (write_word (q, PTX la) v s) pd a =
       (if same_page la a then (if valid v then Some v else None) else translate s pd a)"
proof -
  let ?t = "write_word (q, PTX la) v s"
  note W = walk_write_leaf [OF pt w]
  show "pt_ok ?t pd"
    unfolding pt_ok_def
  proof (intro conjI allI impI)
    fix js r i assume a: "length js \<le> 1" "walk ?t pd js = Some r" "valid (ram ?t r i)"
    then have js: "walk s pd js = Some r" using W [of js] by simp
    have "r \<noteq> q" using pt_okD(2) [OF pt _ _ js, of "[PDX1 la, PDX0 la]"] w a(1) by auto
    then show "child ?t r i \<noteq> None" using a(3) pt_okD(3) [OF pt a(1) js, of i] by (simp add: child_write)
  qed (use W pt_okD(1,2) [OF pt] in \<open>auto simp del: walk.simps\<close>)
  have wa: "walk ?t pd [PDX1 a, PDX0 a] = walk s pd [PDX1 a, PDX0 a]" by (rule W) simp
  show "translate ?t pd a = (if same_page la a then (if valid v then Some v else None) else translate s pd a)"
  proof (cases "walk s pd [PDX1 a, PDX0 a] = Some q")
    case True
    then have "PDX1 a = PDX1 la \<and> PDX0 a = PDX0 la"
      using pt_okD(2) [OF pt _ _ True w] by simp
    then show ?thesis using wa True by (auto simp: translate_def same_page_def simp del: walk.simps)
  next
    case False
    then have "\<not> same_page la a" using w by (auto simp: same_page_def simp del: walk.simps)
    then show ?thesis using wa False
      by (simp add: translate_def del: walk.simps split: option.split)
  qed
qed

lemma upd_ref_simps [simp]:
  "walk (upd_ref p f s) q is = walk s q is" "vm_ok (upd_ref p f s) = vm_ok s" "pt_ok (upd_ref p f s) pd = pt_ok s pd"
  "translate (upd_ref p f s) pd = translate s pd" "ram (upd_ref p f s) = ram s" "nbase (upd_ref p f s) = nbase s"
  "npage (upd_ref p f s) = npage s" "free_page_set (upd_ref p f s) = free_page_set s"
proof -
  let ?t = "upd_ref p f s"
  show b: "ram ?t = ram s" "nbase ?t = nbase s" "npage ?t = npage s" by (simp_all add: upd_ref_def)
  have c: "child ?t = child s" using b by (intro ext) (simp add: child_def pa2page_def)
  have "walk ?t q is = walk s q is" for q "is" by (induction "is" arbitrary: q) (auto simp: c split: option.split)
  then show w: "walk ?t q is = walk s q is" for q "is" .
  show f: "free_page_set ?t = free_page_set s" by (simp add: upd_ref_def upd_ref_pmm)
  show "vm_ok ?t = vm_ok s" by (simp add: upd_ref_def vm_ok_def upd_ref_pmm)
  show "pt_ok ?t pd = pt_ok s pd" by (simp add: pt_ok_def w f c b)
  show "translate ?t pd = translate s pd" by (intro ext) (auto simp: translate_def w b simp del: walk.simps split: option.split)
qed

lemma walk_frame:
  assumes "ram t = ram s" "nbase t = nbase s" "npage t = npage s"
  shows "walk t q is = walk s q is" "entry t pd la = entry s pd la" "translate t pd la = translate s pd la"
    "child t q i = child s q i"
proof -
  show c: "child t q i = child s q i" for q i using assms by (simp add: child_def pa2page_def)
  have "walk t q is = walk s q is" for q "is" by (induction "is" arbitrary: q) (auto simp: c split: option.split)
  then show w: "walk t q is = walk s q is" for q "is" .
  show e: "entry t pd la = entry s pd la" by (auto simp: entry_def w assms simp del: walk.simps split: option.split)
  show "translate t pd la = translate s pd la" by (simp add: translate_entry e)
qed

lemma pt_ok_shrink:
  assumes "pt_ok s pd" "ram t = ram s" "nbase t = nbase s" "npage t = npage s" "free_page_set t \<subseteq> free_page_set s"
  shows "pt_ok t pd"
  using assms(1,5) unfolding pt_ok_def walk_frame [OF assms(2-4)] assms(2) by blast

lemma page_insert_ok:
  assumes "vm_ok s" "pt_ok s pd" "2 \<le> card (free_page_set s)" "translate s pd la = None"
  shows "\<exists>t. page_insert sm pd page la perm s = Some (0, t) \<and> vm_ok t \<and> pt_ok t pd \<and>
    (\<forall>a. translate t pd a =
       (if same_page la a then Some (pte_create (page2ppn page s) (PTE_V OR perm)) else translate s pd a)) \<and> same_rest s t"
proof -
  obtain q t where t: "get_pte (alloc_page sm) pd la True s = Some (Some (q, PTX la), t)"
    "walk t pd [PDX1 la, PDX0 la] = Some q" "vm_ok t" "pt_ok t pd" "nbase t = nbase s"
    "\<forall>a. translate t pd a = translate s pd a" "same_rest s t"
    using get_pte_creates [OF assms(1-3), of sm la] unfolding translate_entry by auto
  let ?u = "page_ref_inc page t"
  let ?w = "pte_create (page2ppn page s) (PTE_V OR perm)"
  have inv: "\<not> valid (ram t q (PTX la))"
    using t(2) t(6) [rule_format, of la, unfolded assms(4)] by (simp add: translate_def del: walk.simps split: if_splits)
  have p: "page_insert sm pd page la perm s = Some (0, write_word (q, PTX la) ?w ?u)"
    using t(1,5) inv
    by (simp add: page_insert_def read_word_def valid_def page2ppn_def page_ref_inc_def)
  have u: "pt_ok ?u pd" "walk ?u pd [PDX1 la, PDX0 la] = Some q" "vm_ok ?u"
    "\<forall>a. translate ?u pd a = translate s pd a"
    using t by (simp_all add: page_ref_inc_def del: walk.simps)
  have rest: "same_rest s (write_word (q, PTX la) ?w ?u)"
    using t(7) by (simp add: same_rest_def write_word_def page_ref_inc_def upd_ref_def)
  show ?thesis
    using p u(3,4) write_leaf [OF u(1,2), of ?w] rest by (intro exI [of _ "write_word (q, PTX la) ?w ?u"])
      (simp add: valid_pte_create)
qed

subsection \<open>Properties\<close>

text \<open>A machine with pages 2-4 and 8-9 of ten free and an empty page directory in page 0.\<close>

definition ex_vm :: vm where
  "ex_vm = \<lparr>phys = ex_pmm, ram = (\<lambda>_ _. 0), nbase = 0x80000, npage = 0x8000A, pra_vaddr = (\<lambda>_. 0),
     visited = (\<lambda>_. False), pra_links = \<lparr>nxt = (\<lambda>x. x), prv = (\<lambda>x. x)\<rparr>, curr_ptr = PraHead,
     mms = (\<lambda>_. \<lparr>mmap_cache = None, pgdir = None, map_count = 0, sm_priv = None, m_count = 0,
       mm_sem = 1, locked_by = 0\<rparr>),
     vmas = (\<lambda>_. \<lparr>vm_mm = 0, vm_start = 0, vm_end = 0, vm_flags = 0\<rparr>),
     vlinks = \<lparr>nxt = (\<lambda>x. x), prv = (\<lambda>x. x)\<rparr>, heap = [], swap_init_ok = False, disk = (\<lambda>_ _. 0),
     max_swap_offset = 8, check_mm_struct = None, pgfault_num = 0\<rparr>"

lemma ex_vm_free: "free_page_set ex_vm = {2, 3, 4, 8, 9}"
proof -
  have "free_page_set ex_vm = (\<Union>p \<in> set [2, 8]. {p..<p + pg_property (pages ex_pmm p)})"
    using free_set_wf [OF ex_pmm_wf] by (simp add: ex_vm_def)
  moreover have "pg_property (pages ex_pmm 2) = 3" "pg_property (pages ex_pmm 8) = 2"
    by (simp_all add: ex_pmm_def)
  moreover have "{2..<2 + 3::nat} = {2, 3, 4}" "{8..<8 + 2::nat} = {8, 9}" by auto
  ultimately show ?thesis by (simp add: insert_commute)
qed

lemma ex_vm_ok: "vm_ok ex_vm"
proof -
  have "phys ex_vm = ex_pmm" "npage ex_vm - nbase ex_vm = 10" "npage ex_vm \<le> 2 ^ 44"
    by (simp_all add: ex_vm_def)
  then show ?thesis using ex_pmm_inv ex_vm_free unfolding vm_ok_def by auto
qed

lemma ex_vm_walk: "walk ex_vm 0 is = (if is = [] then Some 0 else None)"
  by (cases "is") (simp_all add: child_def ex_vm_def)

lemma ex_vm_pt: "pt_ok ex_vm 0"
  unfolding pt_ok_def ex_vm_walk ex_vm_free by (auto simp: ex_vm_def split: if_splits)

text \<open>C6: Refinement of the map from virtual pages to entries. On a well-formed tree of tables with
  two free pages, \<open>get_pte\<close> with creation succeeds, gives the entry of its address in the leaf
  table the tree now reaches, keeps the tree and the allocator well-formed and takes pages only
  from the free list, and leaves the translation of every address as it was.\<close>

theorem get_pte_refines_map:
  assumes "vm_ok s" "pt_ok s pd" "2 \<le> card (free_page_set s)"
  shows "\<exists>q t. get_pte (alloc_page sm) pd la True s = Some (Some (q, PTX la), t) \<and>
    walk t pd [PDX1 la, PDX0 la] = Some q \<and> vm_ok t \<and> pt_ok t pd \<and>
    free_page_set t \<subseteq> free_page_set s \<and> (\<forall>a. translate t pd a = translate s pd a)"
  using get_pte_creates [OF assms, of sm la] unfolding translate_entry by auto

theorem get_pte_refines_map_witness:
  "\<exists>q t. get_pte (alloc_page swap_manager_fifo) 0 0x80000000 True ex_vm = Some (Some (q, PTX 0x80000000), t) \<and>
    walk t 0 [PDX1 0x80000000, PDX0 0x80000000] = Some q \<and> vm_ok t \<and> pt_ok t 0 \<and>
    free_page_set t \<subseteq> free_page_set ex_vm \<and> (\<forall>a. translate t 0 a = translate ex_vm 0 a)"
  by (rule get_pte_refines_map [OF ex_vm_ok ex_vm_pt]) (simp add: ex_vm_free)

text \<open>C27: \<open>page_insert\<close> on an unmapped address with two free pages succeeds, keeps the tree and
  the allocator well-formed, maps exactly the page of that address, to the given frame with the
  given permissions, and changes no other translation.\<close>

theorem page_insert_maps_one_page:
  assumes "vm_ok s" "pt_ok s pd" "2 \<le> card (free_page_set s)" "translate s pd la = None"
  shows "\<exists>t. page_insert sm pd page la perm s = Some (0, t) \<and> vm_ok t \<and> pt_ok t pd \<and>
    (\<forall>a. translate t pd a =
       (if same_page la a then Some (pte_create (page2ppn page s) (PTE_V OR perm)) else translate s pd a))"
  using page_insert_ok [OF assms, of sm page perm] by blast

theorem page_insert_maps_one_page_witness:
  "\<exists>t. page_insert swap_manager_fifo 0 7 0x7FFFF000 PTE_USER ex_vm = Some (0, t) \<and> vm_ok t \<and> pt_ok t 0 \<and>
    (\<forall>a. translate t 0 a =
       (if same_page 0x7FFFF000 a then Some (pte_create (page2ppn 7 ex_vm) (PTE_V OR PTE_USER)) else translate ex_vm 0 a))"
  by (rule page_insert_maps_one_page [OF ex_vm_ok ex_vm_pt])
     (simp_all add: ex_vm_free translate_def ex_vm_walk del: walk.simps)

end
