(* ===== verification/VmmProps.thy ===== *)
theory VmmProps
  imports Vmm PageTableProps
begin

section \<open>Areas are sorted and disjoint; user memory checks\<close>

text \<open>
  \<open>mm_inv s mm vs\<close> says that the ring of the address space \<open>mm\<close> holds the areas \<open>vs\<close>, in order
  and disjoint. The operations are then functions of that list: \<open>find_vma\<close> is the list's lookup,
  \<open>insert_vma_struct\<close> the insertion by start address, \<open>user_mem_check\<close> a statement about every
  address of the range.
\<close>

definition areas_ok :: "vm \<Rightarrow> nat list \<Rightarrow> bool" where
  "areas_ok s vs \<longleftrightarrow> (\<forall>v \<in> set vs. vm_start (vmas s v) < vm_end (vmas s v)) \<and>
     sorted_wrt (\<lambda>a b. vm_end (vmas s a) \<le> vm_start (vmas s b)) vs"

definition mm_inv :: "vm \<Rightarrow> nat \<Rightarrow> nat list \<Rightarrow> bool" where
  "mm_inv s mm vs \<longleftrightarrow> dlist (vlinks s) (MmapHead mm) (map VmaLink vs) \<and> areas_ok s vs \<and>
     map_count (mms s mm) = int (length vs) \<and>
     (case mmap_cache (mms s mm) of None \<Rightarrow> True | Some v \<Rightarrow> v \<in> set vs)"

definition area_at :: "vm \<Rightarrow> nat list \<Rightarrow> 64 word \<Rightarrow> nat option" where
  "area_at s vs addr = List.find (\<lambda>v. in_vma addr v s) vs"

lemma areas_ok_cong:
  "(\<And>u. vm_start (vmas t u) = vm_start (vmas s u)) \<Longrightarrow> (\<And>u. vm_end (vmas t u) = vm_end (vmas s u)) \<Longrightarrow>
     areas_ok t vs = areas_ok s vs"
  by (simp add: areas_ok_def)

lemma areas_ok_cong_set: "(\<And>u. u \<in> set vs \<Longrightarrow> vmas t u = vmas s u) \<Longrightarrow> areas_ok t vs = areas_ok s vs"
  by (induction vs) (auto simp: areas_ok_def)

subsection \<open>Lookup\<close>

lemma areas_ok_append:
  "areas_ok s (as @ v # bs) \<Longrightarrow> a \<in> set as \<Longrightarrow> vm_end (vmas s a) \<le> vm_start (vmas s v)"
  "areas_ok s (as @ v # bs) \<Longrightarrow> b \<in> set bs \<Longrightarrow> vm_end (vmas s v) \<le> vm_start (vmas s b)"
  by (auto simp: areas_ok_def sorted_wrt_append)

lemma area_unique:
  assumes ok: "areas_ok s vs" and u: "u \<in> set vs" "in_vma addr u s" and v: "v \<in> set vs" "in_vma addr v s"
  shows "u = v"
proof (rule ccontr)
  assume "u \<noteq> v"
  obtain as bs where vs: "vs = as @ u # bs" using u(1) by (meson split_list)
  then have "v \<in> set as \<or> v \<in> set bs" using v(1) \<open>u \<noteq> v\<close> by auto
  then show False
    using areas_ok_append [of s as u bs v] ok u(2) v(2) unfolding vs in_vma_def by force
qed

lemma area_at_Some:
  "area_at s vs addr = Some v \<Longrightarrow> v \<in> set vs \<and> in_vma addr v s"
  unfolding area_at_def by (metis find_Some_iff nth_mem)

lemma area_at_None: "area_at s vs addr = None \<longleftrightarrow> (\<forall>v \<in> set vs. \<not> in_vma addr v s)"
  by (auto simp: area_at_def find_None_iff)

lemma area_at_eq: "areas_ok s vs \<Longrightarrow> v \<in> set vs \<Longrightarrow> in_vma addr v s \<Longrightarrow> area_at s vs addr = Some v"
proof (cases "area_at s vs addr")
  case None then show "v \<in> set vs \<Longrightarrow> in_vma addr v s \<Longrightarrow> ?thesis" by (simp add: area_at_None)
next
  case (Some u)
  then show "areas_ok s vs \<Longrightarrow> v \<in> set vs \<Longrightarrow> in_vma addr v s \<Longrightarrow> ?thesis"
    using area_unique area_at_Some [OF Some] by metis
qed

lemma find_vma_loop_eq:
  "dlist (vlinks s) (MmapHead mm) (map VmaLink (as @ bs)) \<Longrightarrow>
     find_vma_loop (MmapHead mm) (last (MmapHead mm # map VmaLink as)) addr s =
       Some (List.find (\<lambda>v. in_vma addr v s) bs)"
proof (induction bs arbitrary: as)
  case Nil
  then have "list_next (last (MmapHead mm # map VmaLink as)) (vlinks s) = MmapHead mm"
    using dlist_nxt_last [of "vlinks s" "MmapHead mm" "map VmaLink as" "[]"] by (simp add: list_next_def)
  then show ?case by (subst find_vma_loop.simps) simp
next
  case (Cons b bs)
  then have n: "list_next (last (MmapHead mm # map VmaLink as)) (vlinks s) = VmaLink b"
    using dlist_nxt_last [of "vlinks s" "MmapHead mm" "map VmaLink as" "map VmaLink (b # bs)"]
    by (simp add: list_next_def del: last.simps)
  have "find_vma_loop (MmapHead mm) (last (MmapHead mm # map VmaLink (as @ [b]))) addr s =
      Some (List.find (\<lambda>v. in_vma addr v s) bs)"
    by (rule Cons.IH) (use Cons.prems in simp)
  moreover have "last (MmapHead mm # map VmaLink (as @ [b])) = VmaLink b" by simp
  ultimately show ?case using n by (subst find_vma_loop.simps) (simp del: last.simps)
qed

lemma find_vma_area:
  assumes inv: "mm_inv s mm vs"
  shows "\<exists>t. find_vma (Some mm) addr s = Some (area_at s vs addr, t) \<and> mm_inv t mm vs \<and>
    vmas t = vmas s \<and> heap t = heap s \<and> (\<exists>c. t = upd_mm mm (\<lambda>m. m\<lparr>mmap_cache := c\<rparr>) s)"
proof -
  have loop: "find_vma_loop (MmapHead mm) (MmapHead mm) addr s = Some (area_at s vs addr)"
    using find_vma_loop_eq [of s mm "[]" vs addr] inv by (simp add: mm_inv_def area_at_def)
  have "find_vma (Some mm) addr s =
      Some (area_at s vs addr, if area_at s vs addr \<noteq> None
        then upd_mm mm (\<lambda>m. m\<lparr>mmap_cache := area_at s vs addr\<rparr>) s else s)"
  proof (cases "mmap_cache (mms s mm)")
    case None then show ?thesis using loop by (simp add: find_vma_def)
  next
    case (Some v)
    then have "v \<in> set vs" "areas_ok s vs" using inv by (simp_all add: mm_inv_def)
    then show ?thesis using loop Some area_at_eq [of s vs v addr] by (simp add: find_vma_def)
  qed
  moreover have "mm_inv (upd_mm mm (\<lambda>m. m\<lparr>mmap_cache := area_at s vs addr\<rparr>) s) mm vs"
    using inv area_at_Some [of s vs addr]
    by (auto simp: mm_inv_def upd_mm_def areas_ok_def split: option.split)
  moreover have "s = upd_mm mm (\<lambda>m. m\<lparr>mmap_cache := mmap_cache (mms s mm)\<rparr>) s" by (simp add: upd_mm_def)
  moreover have "vmas (upd_mm mm f s) = vmas s" "heap (upd_mm mm f s) = heap s" for f by (simp_all add: upd_mm_def)
  ultimately show ?thesis using inv by auto
qed

subsection \<open>Insertion\<close>

definition disjoint_from :: "vm \<Rightarrow> nat \<Rightarrow> nat list \<Rightarrow> bool" where
  "disjoint_from s v vs \<longleftrightarrow>
     (\<forall>u \<in> set vs. vm_end (vmas s u) \<le> vm_start (vmas s v) \<or> vm_end (vmas s v) \<le> vm_start (vmas s u))"

definition below :: "vm \<Rightarrow> nat \<Rightarrow> nat list \<Rightarrow> nat list" where
  "below s v vs = takeWhile (\<lambda>u. vm_start (vmas s u) \<le> vm_start (vmas s v)) vs"

definition above :: "vm \<Rightarrow> nat \<Rightarrow> nat list \<Rightarrow> nat list" where
  "above s v vs = dropWhile (\<lambda>u. vm_start (vmas s u) \<le> vm_start (vmas s v)) vs"

lemma below_above: "below s v vs @ above s v vs = vs"
  by (simp add: below_def above_def)

lemma insert_vma_loop_eq:
  "dlist (vlinks s) (MmapHead mm) (map VmaLink (as @ bs)) \<Longrightarrow>
     insert_vma_loop (MmapHead mm) (last (MmapHead mm # map VmaLink as)) (last (MmapHead mm # map VmaLink as)) v s =
       Some (last (MmapHead mm # map VmaLink (as @ below s v bs)))"
proof (induction bs arbitrary: as)
  case Nil
  then have "list_next (last (MmapHead mm # map VmaLink as)) (vlinks s) = MmapHead mm"
    using dlist_nxt_last [of "vlinks s" "MmapHead mm" "map VmaLink as" "[]"] by (simp add: list_next_def)
  then show ?case by (subst insert_vma_loop.simps) (simp add: below_def)
next
  case (Cons b bs)
  then have n: "list_next (last (MmapHead mm # map VmaLink as)) (vlinks s) = VmaLink b"
    using dlist_nxt_last [of "vlinks s" "MmapHead mm" "map VmaLink as" "map VmaLink (b # bs)"]
    by (simp add: list_next_def del: last.simps)
  have "insert_vma_loop (MmapHead mm) (last (MmapHead mm # map VmaLink (as @ [b])))
      (last (MmapHead mm # map VmaLink (as @ [b]))) v s =
      Some (last (MmapHead mm # map VmaLink ((as @ [b]) @ below s v bs)))"
    by (rule Cons.IH) (use Cons.prems in simp)
  moreover have "last (MmapHead mm # map VmaLink (as @ [b])) = VmaLink b" by simp
  ultimately show ?case
    using n by (subst insert_vma_loop.simps) (auto simp: below_def not_less Let_def simp del: last.simps)
qed

lemma disjoint_neighbours:
  assumes ok: "areas_ok s vs" and v: "vm_start (vmas s v) < vm_end (vmas s v)"
  shows "disjoint_from s v vs \<longleftrightarrow>
    (below s v vs \<noteq> [] \<longrightarrow> vm_end (vmas s (last (below s v vs))) \<le> vm_start (vmas s v)) \<and>
    (above s v vs \<noteq> [] \<longrightarrow> vm_end (vmas s v) \<le> vm_start (vmas s (List.hd (above s v vs))))"
proof -
  let ?as = "below s v vs" and ?bs = "above s v vs"
  have pos: "u \<in> set vs \<Longrightarrow> vm_start (vmas s u) < vm_end (vmas s u)" for u using ok by (simp add: areas_ok_def)
  have as: "u \<in> set ?as \<Longrightarrow> vm_start (vmas s u) \<le> vm_start (vmas s v)" for u
    unfolding below_def by (metis set_takeWhileD)
  have sub: "set ?as \<subseteq> set vs" "set ?bs \<subseteq> set vs" using below_above [of s v vs] by (metis le_sup_iff order_refl set_append)+
  have hd: "?bs \<noteq> [] \<Longrightarrow> vm_start (vmas s v) < vm_start (vmas s (List.hd ?bs))"
    unfolding above_def using hd_dropWhile not_le by blast
  have srt: "sorted_wrt (\<lambda>a b. vm_end (vmas s a) \<le> vm_start (vmas s b)) (?as @ ?bs)"
    using ok below_above [of s v vs] by (simp add: areas_ok_def)
  show ?thesis
  proof (intro iffI conjI impI)
    assume d: "disjoint_from s v vs" and ne: "?as \<noteq> []"
    then have l: "last ?as \<in> set vs" "last ?as \<in> set ?as" using sub by auto
    then show "vm_end (vmas s (last ?as)) \<le> vm_start (vmas s v)"
      using d as [OF l(2)] v by (auto simp: disjoint_from_def)
  next
    assume d: "disjoint_from s v vs" and ne: "?bs \<noteq> []"
    then have h: "List.hd ?bs \<in> set vs" using sub by auto
    then show "vm_end (vmas s v) \<le> vm_start (vmas s (List.hd ?bs))"
      using d hd [OF ne] pos [OF h] by (auto simp: disjoint_from_def)
  next
    assume a: "(?as \<noteq> [] \<longrightarrow> vm_end (vmas s (last ?as)) \<le> vm_start (vmas s v)) \<and>
      (?bs \<noteq> [] \<longrightarrow> vm_end (vmas s v) \<le> vm_start (vmas s (List.hd ?bs)))"
    have "vm_end (vmas s u) \<le> vm_start (vmas s v)" if u: "u \<in> set ?as" for u
    proof (cases "u = last ?as")
      case True then show ?thesis using a u by auto
    next
      case False
      have ne: "?as \<noteq> []" using u by auto
      then have "sorted_wrt (\<lambda>a b. vm_end (vmas s a) \<le> vm_start (vmas s b)) (butlast ?as @ [last ?as])"
        using srt by (simp add: sorted_wrt_append)
      moreover have "u \<in> set (butlast ?as)" using u False ne by (metis append_butlast_last_id in_set_butlastD rotate1.simps(2) set_ConsD set_rotate1)
      ultimately have "vm_end (vmas s u) \<le> vm_start (vmas s (last ?as))" by (simp add: sorted_wrt_append)
      also have "\<dots> < vm_end (vmas s (last ?as))" using pos sub ne by (meson last_in_set subsetD)
      also have "\<dots> \<le> vm_start (vmas s v)" using a ne by simp
      finally show ?thesis by simp
    qed
    moreover have "vm_end (vmas s v) \<le> vm_start (vmas s u)" if u: "u \<in> set ?bs" for u
    proof -
      obtain b bs where b: "?bs = b # bs" using u by (cases ?bs) auto
      have "u = b \<or> vm_end (vmas s b) \<le> vm_start (vmas s u)" using srt u b by (auto simp: sorted_wrt_append)
      moreover have "vm_end (vmas s v) \<le> vm_start (vmas s b)" using a b by simp
      moreover have "vm_start (vmas s b) < vm_end (vmas s b)" using pos [of b] sub b by auto
      ultimately show ?thesis by auto
    qed
    ultimately show "disjoint_from s v vs"
      unfolding disjoint_from_def using below_above [of s v vs] by (metis Un_iff set_append)
  qed
qed

lemma areas_ok_insert:
  assumes ok: "areas_ok s vs" and v: "vm_start (vmas s v) < vm_end (vmas s v)" and d: "disjoint_from s v vs"
  shows "areas_ok s (below s v vs @ v # above s v vs)"
proof -
  let ?as = "below s v vs" and ?bs = "above s v vs"
  have pos: "\<forall>u \<in> set vs. vm_start (vmas s u) < vm_end (vmas s u)" using ok by (simp add: areas_ok_def)
  have sub: "set ?as \<union> set ?bs = set vs" using below_above [of s v vs] by (metis set_append)
  have srt: "sorted_wrt (\<lambda>a b. vm_end (vmas s a) \<le> vm_start (vmas s b)) (?as @ ?bs)"
    using ok below_above [of s v vs] by (simp add: areas_ok_def)
  have lo: "vm_end (vmas s u) \<le> vm_start (vmas s v)" if u: "u \<in> set ?as" for u
  proof -
    have "vm_start (vmas s u) \<le> vm_start (vmas s v)" using u unfolding below_def by (metis set_takeWhileD)
    moreover have "u \<in> set vs" using u sub by auto
    ultimately show ?thesis using d v unfolding disjoint_from_def by (meson leD less_le_trans order.trans)
  qed
  have hi: "vm_end (vmas s v) \<le> vm_start (vmas s u)" if u: "u \<in> set ?bs" for u
  proof -
    have uv: "u \<in> set vs" using u sub by auto
    have "\<not> vm_end (vmas s u) \<le> vm_start (vmas s v)"
    proof
      assume e: "vm_end (vmas s u) \<le> vm_start (vmas s v)"
      obtain b bs where b: "?bs = b # bs" using u by (cases ?bs) auto
      then have bv: "vm_start (vmas s v) < vm_start (vmas s b)" unfolding above_def
        using hd_dropWhile [of "\<lambda>u. vm_start (vmas s u) \<le> vm_start (vmas s v)" vs] by (simp add: not_le)
      have "u = b \<or> vm_end (vmas s b) \<le> vm_start (vmas s u)" using srt u b by (auto simp: sorted_wrt_append)
      moreover have "vm_start (vmas s b) < vm_end (vmas s b)" "vm_start (vmas s u) < vm_end (vmas s u)"
        using pos uv sub b by auto
      ultimately show False using e bv by auto
    qed
    then show ?thesis using d uv by (auto simp: disjoint_from_def)
  qed
  show ?thesis using srt lo hi pos v sub by (auto simp: areas_ok_def sorted_wrt_append)
qed

lemma insert_vma_struct_eq:
  assumes inv: "mm_inv s mm vs" and new: "v \<notin> set vs"
  shows "insert_vma_struct mm v s =
    (if vm_start (vmas s v) < vm_end (vmas s v) \<and> disjoint_from s v vs
     then Some (upd_mm mm (\<lambda>m. m\<lparr>map_count := map_count m + 1\<rparr>)
       (upd_vlinks (list_add_after (last (MmapHead mm # map VmaLink (below s v vs))) (VmaLink v))
         (upd_vma v (\<lambda>x. x\<lparr>vm_mm := mm\<rparr>) s)))
     else None)"
proof -
  let ?as = "below s v vs" and ?bs = "above s v vs"
  have dl: "dlist (vlinks s) (MmapHead mm) (map VmaLink vs)" and ok: "areas_ok s vs"
    using inv by (simp_all add: mm_inv_def)
  have pos: "u \<in> set vs \<Longrightarrow> vm_start (vmas s u) < vm_end (vmas s u)" for u using ok by (simp add: areas_ok_def)
  have sub: "set ?as \<subseteq> set vs" "set ?bs \<subseteq> set vs" using below_above [of s v vs] by (metis le_sup_iff order_refl set_append)+
  have loop: "insert_vma_loop (MmapHead mm) (MmapHead mm) (MmapHead mm) v s =
      Some (last (MmapHead mm # map VmaLink ?as))"
    using insert_vma_loop_eq [of s mm "[]" vs v] dl by simp
  have nxt: "list_next (last (MmapHead mm # map VmaLink ?as)) (vlinks s) =
      (case ?bs of [] \<Rightarrow> MmapHead mm | b # _ \<Rightarrow> VmaLink b)"
    using dlist_nxt_last [of "vlinks s" "MmapHead mm" "map VmaLink ?as" "map VmaLink ?bs"] dl below_above [of s v vs]
    by (simp add: list_next_def del: last.simps flip: map_append split: list.splits)
  have prev: "last (MmapHead mm # map VmaLink ?as) = (if ?as = [] then MmapHead mm else VmaLink (last ?as))"
    by (simp add: last_map)
  show ?thesis
  proof (cases "vm_start (vmas s v) < vm_end (vmas s v)")
    case False then show ?thesis by (simp add: insert_vma_struct_def)
  next
    case True
    note d = disjoint_neighbours [OF ok True]
    have a: "check_vma_overlap (last ?as) v s = (if vm_end (vmas s (last ?as)) \<le> vm_start (vmas s v) then Some () else None)"
      if "?as \<noteq> []"
      using that True pos [of "last ?as"] subsetD [OF sub(1) last_in_set] by (simp add: check_vma_overlap_def)
    have b: "check_vma_overlap v (List.hd ?bs) s = (if vm_end (vmas s v) \<le> vm_start (vmas s (List.hd ?bs)) then Some () else None)"
      if "?bs \<noteq> []"
      using that True pos [of "List.hd ?bs"] subsetD [OF sub(2) list.set_sel(1)] by (simp add: check_vma_overlap_def)
    show ?thesis
      unfolding insert_vma_struct_def loop
      using True d a b nxt
      by (cases "?as = []"; cases ?bs) (auto simp: prev Let_def last_map)
  qed
qed

lemma insert_vma_struct_ok:
  assumes inv: "mm_inv s mm vs" and new: "v \<notin> set vs"
    and v: "vm_start (vmas s v) < vm_end (vmas s v)" and d: "disjoint_from s v vs"
  shows "\<exists>t. insert_vma_struct mm v s = Some t \<and> mm_inv t mm (below s v vs @ v # above s v vs) \<and>
    (\<forall>u. vm_start (vmas t u) = vm_start (vmas s u) \<and> vm_end (vmas t u) = vm_end (vmas s u) \<and>
      vm_flags (vmas t u) = vm_flags (vmas s u)) \<and> heap t = heap s"
proof -
  let ?t = "upd_mm mm (\<lambda>m. m\<lparr>map_count := map_count m + 1\<rparr>)
       (upd_vlinks (list_add_after (last (MmapHead mm # map VmaLink (below s v vs))) (VmaLink v))
         (upd_vma v (\<lambda>x. x\<lparr>vm_mm := mm\<rparr>) s))"
  let ?vs = "below s v vs @ v # above s v vs"
  have vm: "vm_start (vmas ?t u) = vm_start (vmas s u)" "vm_end (vmas ?t u) = vm_end (vmas s u)"
    "vm_flags (vmas ?t u) = vm_flags (vmas s u)" for u
    by (simp_all add: upd_mm_def upd_vma_def upd_vlinks_def)
  have set: "set ?vs = insert v (set vs)" "length ?vs = Suc (length vs)"
    using below_above [of s v vs] by (metis Un_insert_right list.simps(15) set_append, metis add_Suc_right length_Cons length_append)
  have "areas_ok ?t ?vs = areas_ok s ?vs" by (rule areas_ok_cong) (rule vm)+
  then have "areas_ok ?t ?vs" using areas_ok_insert [OF _ v d] inv by (simp add: mm_inv_def)
  moreover have "dlist (vlinks ?t) (MmapHead mm) (map VmaLink ?vs)"
  proof -
    have "VmaLink v \<notin> set (MmapHead mm # map VmaLink (below s v vs) @ map VmaLink (above s v vs))"
      using new below_above [of s v vs] by (auto simp flip: map_append set_append)
    then have "dlist (list_add (last (MmapHead mm # map VmaLink (below s v vs))) (VmaLink v) (vlinks s)) (MmapHead mm)
        (map VmaLink (below s v vs) @ VmaLink v # map VmaLink (above s v vs))"
      using inv below_above [of s v vs] by (intro dlist_add_last) (simp_all add: mm_inv_def flip: map_append)
    then show ?thesis by (simp add: upd_mm_def upd_vma_def upd_vlinks_def list_add_def del: last.simps)
  qed
  moreover have "map_count (mms ?t mm) = int (length ?vs)" unfolding set(2) using inv
    by (simp add: upd_mm_def upd_vma_def upd_vlinks_def mm_inv_def)
  moreover have "case mmap_cache (mms ?t mm) of None \<Rightarrow> True | Some u \<Rightarrow> u \<in> set ?vs" unfolding set(1) using inv
    by (simp add: upd_mm_def upd_vma_def upd_vlinks_def mm_inv_def split: option.splits)
  ultimately have "mm_inv ?t mm ?vs" by (simp add: mm_inv_def)
  then show ?thesis using insert_vma_struct_eq [OF inv new] v d vm
    by (intro exI [of _ ?t]) (simp add: upd_mm_def upd_vma_def upd_vlinks_def)
qed

subsection \<open>Checking a user range\<close>

definition user_ok :: "vm \<Rightarrow> nat list \<Rightarrow> bool \<Rightarrow> 64 word \<Rightarrow> bool" where
  "user_ok s vs write a \<longleftrightarrow> (\<exists>v \<in> set vs. in_vma a v s \<and>
     vm_flags (vmas s v) AND (if write then VM_WRITE else VM_READ) \<noteq> 0 \<and>
     (write \<and> vm_flags (vmas s v) AND VM_STACK \<noteq> 0 \<longrightarrow> vm_start (vmas s v) + PGSIZE \<le> a))"

lemma mm_inv_vmas: "mm_inv t mm vs \<Longrightarrow> vmas t = vmas s \<Longrightarrow> user_ok t vs = user_ok s vs"
  by (intro ext) (simp add: user_ok_def in_vma_def)

lemma user_mem_loop_eq:
  "mm_inv s mm vs \<Longrightarrow> \<exists>t. user_mem_loop mm start e write s =
     Some (\<forall>a. start \<le> a \<longrightarrow> a < e \<longrightarrow> user_ok s vs write a, t) \<and> mm_inv t mm vs \<and> vmas t = vmas s \<and> heap t = heap s"
proof (induction "unat e - unat start" arbitrary: start s rule: less_induct)
  case less
  obtain u where u: "find_vma (Some mm) start s = Some (area_at s vs start, u)" "mm_inv u mm vs"
    "vmas u = vmas s" "heap u = heap s"
    using find_vma_area [OF less.prems, of start] by blast
  have ok: "areas_ok s vs" using less.prems by (simp add: mm_inv_def)
  show ?case
  proof (cases "start < e")
    case False
    then have "(\<forall>a. start \<le> a \<longrightarrow> a < e \<longrightarrow> user_ok s vs write a)" by auto
    then show ?thesis using False less.prems by (subst user_mem_loop.simps) auto
  next
    case True
    show ?thesis
    proof (cases "area_at s vs start")
      case None
      then have "\<not> user_ok s vs write start" by (auto simp: user_ok_def area_at_None)
      then have "\<not> (\<forall>a. start \<le> a \<longrightarrow> a < e \<longrightarrow> user_ok s vs write a)" using True by blast
      then show ?thesis using True None u by (subst user_mem_loop.simps) auto
    next
      case (Some v)
      then have v: "v \<in> set vs" "in_vma start v s" using area_at_Some by blast+
      then have b: "vm_start (vmas s v) \<le> start" "start < vm_end (vmas s v)" by (simp_all add: in_vma_def)
      let ?fl = "vm_flags (vmas s v) AND (if write then VM_WRITE else VM_READ) \<noteq> 0"
      let ?st = "write \<and> vm_flags (vmas s v) AND VM_STACK \<noteq> 0"
      have here: "user_ok s vs write a \<longleftrightarrow> ?fl \<and> (?st \<longrightarrow> vm_start (vmas s v) + PGSIZE \<le> a)"
        if "in_vma a v s" for a
        using area_unique [OF ok _ _ v(1) that] v(1) that unfolding user_ok_def by metis
      show ?thesis
      proof (cases "?fl \<and> (?st \<longrightarrow> vm_start (vmas s v) + PGSIZE \<le> start)")
        case False
        then have "\<not> (\<forall>a. start \<le> a \<longrightarrow> a < e \<longrightarrow> user_ok s vs write a)" using True here [OF v(2)] by blast
        then show ?thesis using True Some u b False by (subst user_mem_loop.simps) (auto simp: not_le)
      next
        case fine: True
        have step: "user_mem_loop mm start e write s = user_mem_loop mm (vm_end (vmas s v)) e write u"
          using True Some u b fine by (subst user_mem_loop.simps) (auto simp: not_less)
        have "unat e - unat (vm_end (vmas s v)) < unat e - unat start"
          using b(2) True by (simp add: word_less_nat_alt)
        then obtain t where t: "user_mem_loop mm (vm_end (vmas s v)) e write u =
            Some (\<forall>a. vm_end (vmas s v) \<le> a \<longrightarrow> a < e \<longrightarrow> user_ok u vs write a, t)" "mm_inv t mm vs" "vmas t = vmas u"
            "heap t = heap u"
          using less.hyps u(2) by blast
        have lo: "user_ok s vs write a" if "start \<le> a" "a < vm_end (vmas s v)" for a
        proof -
          have "in_vma a v s" using that b by (simp add: in_vma_def)
          then show ?thesis using here fine that by (meson order.trans)
        qed
        have "(\<forall>a. vm_end (vmas s v) \<le> a \<longrightarrow> a < e \<longrightarrow> user_ok u vs write a) =
            (\<forall>a. start \<le> a \<longrightarrow> a < e \<longrightarrow> user_ok s vs write a)"
          unfolding mm_inv_vmas [OF u(2,3)]
        proof (intro iffI allI impI)
          fix a assume h: "\<forall>a. vm_end (vmas s v) \<le> a \<longrightarrow> a < e \<longrightarrow> user_ok s vs write a" "start \<le> a" "a < e"
          show "user_ok s vs write a" using lo [OF h(2)] h(1,3) by (cases "a < vm_end (vmas s v)") (simp_all add: not_less)
        next
          fix a assume "\<forall>a. start \<le> a \<longrightarrow> a < e \<longrightarrow> user_ok s vs write a" "vm_end (vmas s v) \<le> a" "a < e"
          then show "user_ok s vs write a" using b(2) by (meson less_le order.trans)
        qed
        then show ?thesis using step t u by auto
      qed
    qed
  qed
qed

subsection \<open>A fault on an address without an entry\<close>

lemma pgdir_alloc_page_maps:
  assumes ok: "vm_ok s" "pt_ok s pd" and f: "3 \<le> card (free_page_set s)" and tr: "translate s pd la = None"
    and sw: "swap_init_ok s \<longrightarrow> check_mm_struct s = None"
  shows "\<exists>p t. pgdir_alloc_page sm pd la perm s = Some (Some p, t) \<and> p \<in> free_page_set s \<and> vm_ok t \<and> pt_ok t pd \<and>
    (\<forall>a. translate t pd a =
       (if same_page la a then Some (pte_create (page2ppn p s) (PTE_V OR perm)) else translate s pd a)) \<and>
    same_rest s t"
proof -
  have fin: "finite (free_page_set s)" using f card.infinite by force
  obtain p q where a: "alloc_page sm s = Some (Some p, s\<lparr>phys := q\<rparr>)" "vm_ok (s\<lparr>phys := q\<rparr>)"
    "p \<in> free_page_set s" "free_set q = free_page_set s - {p}"
    using alloc_page_ok [OF ok(1), of sm] f by (fastforce split: option.splits)
  let ?s = "s\<lparr>phys := q\<rparr>"
  have pt: "pt_ok ?s pd" by (rule pt_ok_shrink [OF ok(2)]) (use a(4) in auto)
  have card: "2 \<le> card (free_page_set ?s)" using f a(3,4) fin by simp
  have tr': "translate ?s pd a = translate s pd a" for a by (rule walk_frame) simp_all
  have n: "translate ?s pd la = None" using tr tr' by simp
  obtain t where t: "page_insert sm pd p la perm ?s = Some (0, t)" "vm_ok t" "pt_ok t pd" "same_rest ?s t"
    "\<forall>a. translate t pd a =
       (if same_page la a then Some (pte_create (page2ppn p ?s) (PTE_V OR perm)) else translate ?s pd a)"
    using page_insert_ok [OF a(2) pt card n, of sm p perm] by blast
  have "pgdir_alloc_page sm pd la perm s = Some (Some p, t)"
    using a(1) t(1,4) sw by (simp add: pgdir_alloc_page_def same_rest_def)
  then show ?thesis using a(3) t tr' by (intro exI [of _ p] exI [of _ t]) (simp add: same_rest_def page2ppn_def)
qed

subsection \<open>Properties\<close>

text \<open>An address space, object 1, with the areas 2 (\<open>0x800000\<close> to \<open>0x802000\<close>, readable and writable)
  and 3 (a stack, \<open>0x900000\<close> to \<open>0x910000\<close>); 4 and 5 are the next free objects.\<close>

definition ex_mm :: vm where
  "ex_mm = ex_vm\<lparr>mms := (\<lambda>_. \<lparr>mmap_cache = None, pgdir = Some 0, map_count = 2, sm_priv = None, m_count = 1,
       mm_sem = 1, locked_by = 0\<rparr>),
     vmas := (\<lambda>v. if v = 2 then \<lparr>vm_mm = 1, vm_start = 0x800000, vm_end = 0x802000, vm_flags = 3\<rparr>
       else if v = 3 then \<lparr>vm_mm = 1, vm_start = 0x900000, vm_end = 0x910000, vm_flags = 0xB\<rparr>
       else \<lparr>vm_mm = 0, vm_start = 0x850000, vm_end = 0x851000, vm_flags = 1\<rparr>),
     vlinks := \<lparr>nxt = (\<lambda>x. x)(MmapHead 1 := VmaLink 2, VmaLink 2 := VmaLink 3, VmaLink 3 := MmapHead 1),
       prv = (\<lambda>x. x)(MmapHead 1 := VmaLink 3, VmaLink 2 := MmapHead 1, VmaLink 3 := VmaLink 2)\<rparr>,
     heap := [4, 5]\<rparr>"

lemma ex_mm_inv: "mm_inv ex_mm 1 [2, 3]"
  by (simp add: mm_inv_def ex_mm_def dlist_def areas_ok_def)

text \<open>\<open>find_vma\<close> on a well-formed address space returns, and keeps it well-formed: the result,
  whether it comes from the cache or from the walk of the list, is the one area that contains the
  address, or null when no area does.\<close>

theorem find_vma_correct:
  assumes "mm_inv s mm vs"
  shows "\<exists>r t. find_vma (Some mm) addr s = Some (r, t) \<and> mm_inv t mm vs \<and> vmas t = vmas s \<and>
    (case r of None \<Rightarrow> \<forall>v \<in> set vs. \<not> in_vma addr v s
     | Some v \<Rightarrow> v \<in> set vs \<and> in_vma addr v s \<and> (\<forall>u \<in> set vs. in_vma addr u s \<longrightarrow> u = v))"
proof -
  have ok: "areas_ok s vs" using assms by (simp add: mm_inv_def)
  obtain t where t: "find_vma (Some mm) addr s = Some (area_at s vs addr, t)" "mm_inv t mm vs" "vmas t = vmas s"
    using find_vma_area [OF assms, of addr] by blast
  show ?thesis
  proof (cases "area_at s vs addr")
    case None then show ?thesis using t area_at_None [of s vs addr] by simp
  next
    case (Some v)
    then show ?thesis using t area_at_Some [OF Some] area_unique [OF ok, of _ addr v] by auto
  qed
qed

theorem find_vma_correct_witness:
  "\<exists>r t. find_vma (Some 1) 0x801234 ex_mm = Some (r, t) \<and> mm_inv t 1 [2, 3] \<and> vmas t = vmas ex_mm \<and>
    (case r of None \<Rightarrow> \<forall>v \<in> set [2, 3]. \<not> in_vma 0x801234 v ex_mm
     | Some v \<Rightarrow> v \<in> set [2, 3] \<and> in_vma 0x801234 v ex_mm \<and> (\<forall>u \<in> set [2, 3]. in_vma 0x801234 u ex_mm \<longrightarrow> u = v))"
  by (rule find_vma_correct [OF ex_mm_inv])

text \<open>C28: \<open>insert_vma_struct\<close> of a new area either keeps the list sorted and disjoint, with the area
  behind exactly those that start at or below it and every area's bounds unchanged, or panics; it
  panics exactly when the area is empty or overlaps one on the list.\<close>

theorem insert_vma_struct_sorted:
  assumes "mm_inv s mm vs" "v \<notin> set vs"
  shows "case insert_vma_struct mm v s of
      None \<Rightarrow> vm_end (vmas s v) \<le> vm_start (vmas s v) \<or>
        (\<exists>u \<in> set vs. vm_start (vmas s u) < vm_end (vmas s v) \<and> vm_start (vmas s v) < vm_end (vmas s u))
    | Some t \<Rightarrow> vm_start (vmas s v) < vm_end (vmas s v) \<and>
        (\<forall>u \<in> set vs. vm_end (vmas s u) \<le> vm_start (vmas s v) \<or> vm_end (vmas s v) \<le> vm_start (vmas s u)) \<and>
        mm_inv t mm (below s v vs @ v # above s v vs) \<and> below s v vs @ above s v vs = vs \<and>
        (\<forall>u. vm_start (vmas t u) = vm_start (vmas s u) \<and> vm_end (vmas t u) = vm_end (vmas s u))"
proof (cases "vm_start (vmas s v) < vm_end (vmas s v) \<and> disjoint_from s v vs")
  case True
  then obtain t where "insert_vma_struct mm v s = Some t" "mm_inv t mm (below s v vs @ v # above s v vs)"
    "\<forall>u. vm_start (vmas t u) = vm_start (vmas s u) \<and> vm_end (vmas t u) = vm_end (vmas s u)"
    using insert_vma_struct_ok [OF assms] by blast
  then show ?thesis using True below_above [of s v vs] by (simp add: disjoint_from_def)
next
  case False
  then show ?thesis unfolding insert_vma_struct_eq [OF assms] by (auto simp: disjoint_from_def not_le)
qed

theorem insert_vma_struct_sorted_witness:
  "\<exists>t. insert_vma_struct 1 4 ex_mm = Some t \<and> mm_inv t 1 (below ex_mm 4 [2, 3] @ 4 # above ex_mm 4 [2, 3])"
proof (cases "insert_vma_struct 1 4 ex_mm")
  case None
  then show ?thesis using insert_vma_struct_sorted [OF ex_mm_inv, of 4] by (simp add: ex_mm_def)
next
  case (Some t)
  then show ?thesis using insert_vma_struct_sorted [OF ex_mm_inv, of 4] by simp
qed

text \<open>C29: \<open>user_mem_check\<close> returns for every range, and says yes exactly when the range lies in user
  space and every address of it is in an area with the permission asked for, above the guard page
  when it is a write to a stack area.\<close>

theorem user_mem_check_correct:
  assumes "mm_inv s mm vs"
  shows "\<exists>t. user_mem_check (Some mm) addr len write s =
      Some (USER_ACCESS addr (addr + len) \<and> (\<forall>a. addr \<le> a \<longrightarrow> a < addr + len \<longrightarrow> user_ok s vs write a), t) \<and>
    mm_inv t mm vs \<and> vmas t = vmas s"
  using user_mem_loop_eq [OF assms, of addr "addr + len" "write"] assms
  by (auto simp: user_mem_check_def)

theorem user_mem_check_correct_witness:
  "\<exists>t. user_mem_check (Some 1) 0x900800 0x1000 True ex_mm =
      Some (USER_ACCESS 0x900800 (0x900800 + 0x1000) \<and>
        (\<forall>a. 0x900800 \<le> a \<longrightarrow> a < 0x900800 + 0x1000 \<longrightarrow> user_ok ex_mm [2, 3] True a), t) \<and>
    mm_inv t 1 [2, 3] \<and> vmas t = vmas ex_mm"
  by (rule user_mem_check_correct [OF ex_mm_inv])

text \<open>C30: Outcomes of \<open>mm_map\<close> when an object can be allocated. A range outside user space, or one
  whose first address is mapped, is refused with \<open>-E_INVAL\<close> and the areas are unchanged. A range
  that is free gets a new area with exactly its bounds and flags, entered in order. But a range that
  starts in a gap and runs into a later area is not refused: the overlap reaches an assertion of
  \<open>insert_vma_struct\<close> and the kernel panics.\<close>

theorem mm_map_outcomes:
  assumes inv: "mm_inv s mm vs" and heap: "heap s = a # h" "a \<notin> set vs"
    and b: "b = ROUNDDOWN addr PGSIZE" and e: "e = ROUNDUP (addr + len) PGSIZE"
  shows "if \<not> USER_ACCESS b e then mm_map (Some mm) addr len flags s = Some (- E_INVAL, None, s)
    else if \<exists>v \<in> set vs. in_vma b v s
      then \<exists>t. mm_map (Some mm) addr len flags s = Some (- E_INVAL, None, t) \<and> mm_inv t mm vs \<and> vmas t = vmas s
    else if \<exists>v \<in> set vs. vm_start (vmas s v) < e \<and> b < vm_end (vmas s v)
      then mm_map (Some mm) addr len flags s = None
    else \<exists>t as bs. mm_map (Some mm) addr len flags s = Some (0, Some a, t) \<and> vs = as @ bs \<and>
      mm_inv t mm (as @ a # bs) \<and> vm_start (vmas t a) = b \<and> vm_end (vmas t a) = e \<and> vm_flags (vmas t a) = flags \<and>
      (\<forall>u \<in> set vs. vm_start (vmas t u) = vm_start (vmas s u) \<and> vm_end (vmas t u) = vm_end (vmas s u) \<and>
        vm_flags (vmas t u) = vm_flags (vmas s u))"
proof (cases "USER_ACCESS b e")
  case False then show ?thesis by (simp add: mm_map_def b e)
next
  case True
  obtain t where t: "find_vma (Some mm) b s = Some (area_at s vs b, t)" "mm_inv t mm vs" "vmas t = vmas s"
    "heap t = heap s" using find_vma_area [OF inv, of b] by blast
  show ?thesis
  proof (cases "area_at s vs b")
    case (Some v)
    then have v: "v \<in> set vs" "in_vma b v s" using area_at_Some by blast+
    moreover have "e > vm_start (vmas s v)" using v(2) True by (auto simp: in_vma_def USER_ACCESS_def)
    ultimately show ?thesis using True t Some by (auto simp: mm_map_def b e)
  next
    case None
    let ?u = "upd_vma a (\<lambda>x. x\<lparr>vm_start := b, vm_end := e, vm_flags := flags\<rparr>) (t\<lparr>heap := h\<rparr>)"
    have vm: "x \<noteq> a \<Longrightarrow> vmas ?u x = vmas s x" for x using t(3) by (simp add: upd_vma_def)
    have va: "vm_start (vmas ?u a) = b" "vm_end (vmas ?u a) = e" "vm_flags (vmas ?u a) = flags"
      by (simp_all add: upd_vma_def)
    have vs: "x \<in> set vs \<Longrightarrow> vmas ?u x = vmas s x" for x using vm heap(2) by metis
    have "areas_ok ?u vs = areas_ok s vs" by (rule areas_ok_cong_set) (rule vs)
    then have u: "mm_inv ?u mm vs" using t(2) inv by (simp add: mm_inv_def upd_vma_def)
    have be: "b < e" using True by (simp add: USER_ACCESS_def)
    have map: "mm_map (Some mm) addr len flags s =
        (case insert_vma_struct mm a ?u of None \<Rightarrow> None | Some t \<Rightarrow> Some (0, Some a, t))"
      using True t(1,4) None heap(1)
      by (simp add: mm_map_def b e vma_create_def kmalloc_obj_def split: option.split)
    have none: "\<not> (\<exists>v \<in> set vs. in_vma b v s)" using None by (simp add: area_at_None)
    show ?thesis
    proof (cases "\<exists>v \<in> set vs. vm_start (vmas s v) < e \<and> b < vm_end (vmas s v)")
      case over: True
      then have "\<not> disjoint_from ?u a vs" by (auto simp: disjoint_from_def va vs not_le)
      then have "mm_map (Some mm) addr len flags s = None"
        unfolding map insert_vma_struct_eq [OF u heap(2)] by simp
      then show ?thesis using True none over by auto
    next
      case False
      then have "disjoint_from ?u a vs" by (auto simp: disjoint_from_def va vs not_less)
      then obtain r where r: "insert_vma_struct mm a ?u = Some r" "mm_inv r mm (below ?u a vs @ a # above ?u a vs)"
        "\<forall>x. vm_start (vmas r x) = vm_start (vmas ?u x) \<and> vm_end (vmas r x) = vm_end (vmas ?u x) \<and>
          vm_flags (vmas r x) = vm_flags (vmas ?u x)"
        using insert_vma_struct_ok [OF u heap(2)] va be by auto
      have "\<exists>t as bs. mm_map (Some mm) addr len flags s = Some (0, Some a, t) \<and> vs = as @ bs \<and>
          mm_inv t mm (as @ a # bs) \<and> vm_start (vmas t a) = b \<and> vm_end (vmas t a) = e \<and> vm_flags (vmas t a) = flags \<and>
          (\<forall>u \<in> set vs. vm_start (vmas t u) = vm_start (vmas s u) \<and> vm_end (vmas t u) = vm_end (vmas s u) \<and>
            vm_flags (vmas t u) = vm_flags (vmas s u))"
        using map r va vs below_above [of ?u a vs]
        by (intro exI [of _ r] exI [of _ "below ?u a vs"] exI [of _ "above ?u a vs"]) simp
      moreover have "\<not> \<not> USER_ACCESS b e" using True by simp
      ultimately show ?thesis using none False by (simp only: if_not_P if_False)
    qed
  qed
qed

theorem mm_map_outcomes_witness:
  "mm_map (Some 1) 0x850000 0x100000 1 ex_mm = None"
  using mm_map_outcomes [OF ex_mm_inv, where a = 4 and h = "[5]" and b = "0x850000" and addr = "0x850000"
    and len = "0x100000" and e = "0x950000" and flags = 1]
  by (simp add: ex_mm_def ROUNDDOWN_def ROUNDUP_def USER_ACCESS_def USERBASE_def USERTOP_def in_vma_def)

text \<open>C14: Demand paging. A fault on an address inside an area whose page has no entry, with five pages
  free, returns 0: one page that was free is now mapped at the address, user-accessible and writable
  exactly when the area is, no other translation changed, and the tables and the allocator are
  well-formed. (Swapping is off or has no address space to swap from, as after the boot checks.)\<close>

theorem do_pgfault_maps_page:
  assumes mm: "mm_inv s mm vs" "v \<in> set vs" "in_vma addr v s" and pd: "pgdir (mms s mm) = Some pd"
    and ok: "vm_ok s" "pt_ok s pd" "5 \<le> card (free_page_set s)" and la: "la = ROUNDDOWN addr PGSIZE"
    and e: "entry s pd la = 0" and sw: "swap_init_ok s \<longrightarrow> check_mm_struct s = None"
  shows "\<exists>p t. do_pgfault sm (Some mm) ec addr s = Some (0, t) \<and> p \<in> free_page_set s \<and> vm_ok t \<and> pt_ok t pd \<and>
    (\<forall>a. translate t pd a =
       (if same_page la a
        then Some (pte_create (page2ppn p s)
          (PTE_V OR (if vm_flags (vmas s v) AND VM_WRITE \<noteq> 0 then PTE_U OR READ_WRITE else PTE_U)))
        else translate s pd a)) \<and> pgfault_num t = pgfault_num s + 1"
proof -
  let ?perm = "if vm_flags (vmas s v) AND VM_WRITE \<noteq> 0 then PTE_U OR READ_WRITE else PTE_U"
  have at: "area_at s vs addr = Some v" using area_at_eq [OF _ mm(2,3)] mm(1) by (simp add: mm_inv_def)
  obtain c u where u: "find_vma (Some mm) addr s = Some (Some v, u)" "u = upd_mm mm (\<lambda>m. m\<lparr>mmap_cache := c\<rparr>) s"
    using find_vma_area [OF mm(1), of addr] at by auto
  let ?u = "u\<lparr>pgfault_num := pgfault_num u + 1\<rparr>"
  have b: "phys ?u = phys s" "ram ?u = ram s" "nbase ?u = nbase s" "npage ?u = npage s" "vmas ?u = vmas s"
    "pgdir (mms ?u mm) = Some pd" "swap_init_ok ?u = swap_init_ok s" "check_mm_struct ?u = check_mm_struct s"
    using u(2) pd by (simp_all add: upd_mm_def)
  have uok: "vm_ok ?u" "pt_ok ?u pd" "5 \<le> card (free_page_set ?u)"
    using ok(1,3) b pt_ok_shrink [OF ok(2), of ?u] by (simp_all add: vm_ok_def)
  have fr: "entry ?u pd a = entry s pd a" "translate ?u pd a = translate s pd a" for a
    using walk_frame [OF b(2-4)] by simp_all
  obtain q t where t: "get_pte (alloc_page sm) pd la True ?u = Some (Some (q, PTX la), t)"
    "walk t pd [PDX1 la, PDX0 la] = Some q" "vm_ok t" "pt_ok t pd" "nbase t = nbase ?u"
    "free_page_set t \<subseteq> free_page_set ?u" "card (free_page_set ?u) \<le> card (free_page_set t) + 2"
    "\<forall>a. entry t pd a = entry ?u pd a" "same_rest ?u t"
    using get_pte_creates [OF uok(1,2), of sm la] uok(3) by auto
  have z: "read_word (q, PTX la) t = 0"
    using t(2) t(8) [rule_format, of la] e fr(1) by (simp add: read_word_def entry_def del: walk.simps)
  have tr: "translate t pd a = translate s pd a" for a
    using t(8) fr by (simp add: translate_entry)
  have n: "translate t pd la = None" using tr e by (simp add: translate_entry)
  have sw': "swap_init_ok t \<longrightarrow> check_mm_struct t = None" using sw t(9) b by (simp add: same_rest_def)
  have c3: "3 \<le> card (free_page_set t)" using t(7) uok(3) by simp
  obtain p r where r: "pgdir_alloc_page sm pd la ?perm t = Some (Some p, r)" "p \<in> free_page_set t" "vm_ok r" "pt_ok r pd"
    "\<forall>a. translate r pd a =
       (if same_page la a then Some (pte_create (page2ppn p t) (PTE_V OR ?perm)) else translate t pd a)" "same_rest t r"
    using pgdir_alloc_page_maps [OF t(3,4) c3 n sw', of sm ?perm] by blast
  have "\<not> addr < vm_start (vmas s v)" using mm(3) by (simp add: in_vma_def not_less)
  then have "do_pgfault sm (Some mm) ec addr s = Some (0, r)"
    using u(1) t(1) r(1) z b by (simp add: do_pgfault_def la Let_def)
  moreover have "pgfault_num r = pgfault_num s + 1" using r(6) t(9) u(2) by (simp add: same_rest_def upd_mm_def)
  ultimately show ?thesis using r t tr b
    by (intro exI [of _ p] exI [of _ r]) (auto simp: page2ppn_def)
qed

theorem do_pgfault_maps_page_witness:
  "\<exists>p t. do_pgfault swap_manager_fifo (Some 1) 0 0x801234 ex_mm = Some (0, t) \<and> p \<in> free_page_set ex_mm \<and>
    translate t 0 0x801234 = Some (pte_create (page2ppn p ex_mm) (PTE_V OR (PTE_U OR READ_WRITE)))"
proof -
  have b: "phys ex_mm = phys ex_vm" "ram ex_mm = ram ex_vm" "nbase ex_mm = nbase ex_vm" "npage ex_mm = npage ex_vm"
    by (simp_all add: ex_mm_def)
  have ok: "vm_ok ex_mm" "5 \<le> card (free_page_set ex_mm)" using ex_vm_ok ex_vm_free b by (simp_all add: vm_ok_def)
  have pt: "pt_ok ex_mm 0" by (rule pt_ok_shrink [OF ex_vm_pt]) (use b in auto)
  have e: "entry ex_mm 0 0x801000 = 0"
    unfolding walk_frame [OF b(2-4)] by (simp add: entry_def ex_vm_walk del: walk.simps)
  have v: "2 \<in> set [2, 3::nat]" "in_vma 0x801234 2 ex_mm" "pgdir (mms ex_mm 1) = Some 0"
    "0x801000 = ROUNDDOWN 0x801234 PGSIZE" "swap_init_ok ex_mm \<longrightarrow> check_mm_struct ex_mm = None"
    by (simp_all add: in_vma_def ex_mm_def ex_vm_def ROUNDDOWN_def)
  have "same_page 0x801000 0x801234" by (simp add: same_page_def PDX1_def PDX0_def PTX_def)
  moreover have "vm_flags (vmas ex_mm 2) AND VM_WRITE \<noteq> 0" by (simp add: ex_mm_def VM_WRITE_def)
  ultimately show ?thesis
    using do_pgfault_maps_page [OF ex_mm_inv v(1,2,3) ok(1) pt ok(2) v(4) e v(5), of swap_manager_fifo 0] by auto
qed

end
