(* ===== verification/Inode.thy ===== *)
theory Inode
  imports Kstate CString
begin

section \<open>Inodes, file tables and the state of the virtual file system\<close>

text \<open>
  kern/fs/vfs/inode.c, kern/fs/iobuf.c, the declarations of vfs.h, inode.h, fs.h, file.h, and the
  file-system state that vfs*.c, file.c and fs.c work on. A concrete file system or device is a
  table of functions (\<open>struct inode_ops\<close>, the function pointers of \<open>struct fs\<close>), as in the code;
  its own state is the type parameter, field \<open>low\<close>. An entry of a table that the code leaves null
  is \<open>None\<close>.

  Kernel buffers are bytes of \<open>kbuf\<close>. The data that an \<open>iobuf_move\<close> transfers from or to a
  kernel variable is passed as a list of bytes. Offsets (\<open>off_t\<close>) are 64-bit words read as signed.

  Code inside the kernel is not preempted and holds no file-system lock while it waits for a
  device, so a lock is always free when it is taken; taking a lock that is not free is \<open>None\<close>.
\<close>

subsection \<open>State\<close>

datatype fd_status = FD_NONE | FD_INIT | FD_OPENED | FD_CLOSED
datatype in_type_t = inode_type_device_info | inode_type_sfs_inode_info
datatype vdlink = VdevList | VdevLink nat

record file_t =
  status :: fd_status
  readable :: bool
  writable :: bool
  fd :: int
  pos :: "64 word"
  node :: "nat option"
  fopen_count :: int

record files_struct =
  pwd :: "nat option"
  files_count :: int
  files_sem :: int

record inode =
  in_type :: in_type_t
  ref_count :: int
  open_count :: int
  in_fs :: "nat option"
  in_ops :: "nat option"

record vfs_dev_t =
  devname :: string
  devnode :: "nat option"
  vdev_fs :: "nat option"
  mountable :: bool

record 'd vst =
  inodes :: "nat \<Rightarrow> inode"
  fd_array :: "nat \<Rightarrow> nat \<Rightarrow> file_t"
  fstructs :: "nat \<Rightarrow> files_struct"
  cur_filesp :: "nat option"
  bootfs_node :: "nat option"
  bootfs_sem :: int
  vdevs :: "nat \<Rightarrow> vfs_dev_t"
  vdev_links :: "vdlink links"
  vdev_list_sem :: int
  fs_ops_of :: "nat \<Rightarrow> nat"
  vheap :: "nat list"
  kbuf :: cmem
  low :: 'd

record iobuf =
  io_base :: nat
  io_offset :: "64 word"
  io_len :: nat
  io_resid :: nat

record stat =
  st_mode :: "32 word"
  st_nlinks :: nat
  st_blocks :: nat
  st_size :: nat

subsection \<open>Operation tables\<close>

record 'd inode_ops =
  op_open :: "(nat \<Rightarrow> 32 word \<Rightarrow> 'd vst \<Rightarrow> (int \<times> 'd vst) option) option"
  op_close :: "(nat \<Rightarrow> 'd vst \<Rightarrow> (int \<times> 'd vst) option) option"
  op_read :: "(nat \<Rightarrow> iobuf \<Rightarrow> 'd vst \<Rightarrow> (int \<times> iobuf \<times> 'd vst) option) option"
  op_write :: "(nat \<Rightarrow> iobuf \<Rightarrow> 'd vst \<Rightarrow> (int \<times> iobuf \<times> 'd vst) option) option"
  op_fstat :: "(nat \<Rightarrow> 'd vst \<Rightarrow> (int \<times> stat \<times> 'd vst) option) option"
  op_fsync :: "(nat \<Rightarrow> 'd vst \<Rightarrow> (int \<times> 'd vst) option) option"
  op_namefile :: "(nat \<Rightarrow> iobuf \<Rightarrow> 'd vst \<Rightarrow> (int \<times> iobuf \<times> 'd vst) option) option"
  op_getdirentry :: "(nat \<Rightarrow> iobuf \<Rightarrow> 'd vst \<Rightarrow> (int \<times> iobuf \<times> 'd vst) option) option"
  op_reclaim :: "(nat \<Rightarrow> 'd vst \<Rightarrow> (int \<times> 'd vst) option) option"
  op_gettype :: "(nat \<Rightarrow> 'd vst \<Rightarrow> (int \<times> 32 word \<times> 'd vst) option) option"
  op_tryseek :: "(nat \<Rightarrow> 64 word \<Rightarrow> 'd vst \<Rightarrow> (int \<times> 'd vst) option) option"
  op_truncate :: "(nat \<Rightarrow> 64 word \<Rightarrow> 'd vst \<Rightarrow> (int \<times> 'd vst) option) option"
  op_create :: "(nat \<Rightarrow> string \<Rightarrow> bool \<Rightarrow> 'd vst \<Rightarrow> (int \<times> nat option \<times> 'd vst) option) option"
  op_lookup :: "(nat \<Rightarrow> string \<Rightarrow> 'd vst \<Rightarrow> (int \<times> nat option \<times> 'd vst) option) option"
  op_ioctl :: "(nat \<Rightarrow> int \<Rightarrow> nat \<Rightarrow> 'd vst \<Rightarrow> (int \<times> 'd vst) option) option"

record 'd fs_ops =
  fs_sync :: "nat \<Rightarrow> 'd vst \<Rightarrow> (int \<times> 'd vst) option"
  fs_get_root :: "nat \<Rightarrow> 'd vst \<Rightarrow> (nat option \<times> 'd vst) option"
  fs_unmount :: "nat \<Rightarrow> 'd vst \<Rightarrow> (int \<times> 'd vst) option"
  fs_cleanup :: "nat \<Rightarrow> 'd vst \<Rightarrow> 'd vst option"

record 'd vtab =
  itab :: "nat \<Rightarrow> 'd inode_ops"
  ftab :: "nat \<Rightarrow> 'd fs_ops"

definition upd_inode :: "nat \<Rightarrow> (inode \<Rightarrow> inode) \<Rightarrow> 'd vst \<Rightarrow> 'd vst" where
  "upd_inode n f s = s\<lparr>inodes := (inodes s)(n := f (inodes s n))\<rparr>"

definition upd_file :: "nat \<Rightarrow> nat \<Rightarrow> (file_t \<Rightarrow> file_t) \<Rightarrow> 'd vst \<Rightarrow> 'd vst" where
  "upd_file p i f s = s\<lparr>fd_array := (fd_array s)(p := (fd_array s p)(i := f (fd_array s p i)))\<rparr>"

definition upd_fstruct :: "nat \<Rightarrow> (files_struct \<Rightarrow> files_struct) \<Rightarrow> 'd vst \<Rightarrow> 'd vst" where
  "upd_fstruct p f s = s\<lparr>fstructs := (fstructs s)(p := f (fstructs s p))\<rparr>"

definition vmalloc :: "'d vst \<Rightarrow> nat option \<times> 'd vst" where
  "vmalloc s = (case vheap s of [] \<Rightarrow> (None, s) | a # as \<Rightarrow> (Some a, s\<lparr>vheap := as\<rparr>))"

definition vfree :: "nat \<Rightarrow> 'd vst \<Rightarrow> 'd vst" where
  "vfree a s = s\<lparr>vheap := a # vheap s\<rparr>"

subsection \<open>I/O buffers (iobuf.c)\<close>

definition iobuf_init :: "nat \<Rightarrow> nat \<Rightarrow> 64 word \<Rightarrow> iobuf" where
  "iobuf_init base len offset = \<lparr>io_base = base, io_offset = offset, io_len = len, io_resid = len\<rparr>"

definition iobuf_used :: "iobuf \<Rightarrow> nat" where
  "iobuf_used iob = io_len iob - io_resid iob"

definition iobuf_skip :: "iobuf \<Rightarrow> nat \<Rightarrow> iobuf option" where
  "iobuf_skip iob n = do {
     assert_c (io_resid iob \<ge> n);
     Some (iob\<lparr>io_base := io_base iob + n, io_offset := io_offset iob + of_nat n, io_resid := io_resid iob - n\<rparr>)
   }"

fun wr_bytes :: "nat \<Rightarrow> byte list \<Rightarrow> cmem \<Rightarrow> cmem option" where
  "wr_bytes a [] m = Some m"
| "wr_bytes a (b # bs) m = do { m \<leftarrow> wr a b m; wr_bytes (a + 1) bs m }"

fun rd_bytes :: "nat \<Rightarrow> nat \<Rightarrow> cmem \<Rightarrow> byte list option" where
  "rd_bytes a 0 m = Some []"
| "rd_bytes a (Suc n) m = do { b \<leftarrow> m a; bs \<leftarrow> rd_bytes (a + 1) n m; Some (b # bs) }"

text \<open>\<open>iobuf_move\<close> with \<open>m2b\<close> set (data to buffer) and not set (buffer to data).\<close>

definition iobuf_move_in :: "iobuf \<Rightarrow> byte list \<Rightarrow> 'd vst \<Rightarrow> (int \<times> nat \<times> iobuf \<times> 'd vst) option" where
  "iobuf_move_in iob data s = do {
     let alen = min (io_resid iob) (length data);
     (iob, s) \<leftarrow> (if alen > 0 then do {
         m \<leftarrow> wr_bytes (io_base iob) (take alen data) (kbuf s);
         iob \<leftarrow> iobuf_skip iob alen;
         Some (iob, s\<lparr>kbuf := m\<rparr>)
       } else Some (iob, s));
     Some (if length data - alen = 0 then 0 else - E_NO_MEM, alen, iob, s)
   }"

definition iobuf_move_out :: "iobuf \<Rightarrow> nat \<Rightarrow> 'd vst \<Rightarrow> (int \<times> byte list \<times> iobuf) option" where
  "iobuf_move_out iob len s = do {
     let alen = min (io_resid iob) len;
     (iob, data) \<leftarrow> (if alen > 0 then do {
         data \<leftarrow> rd_bytes (io_base iob) alen (kbuf s);
         iob \<leftarrow> iobuf_skip iob alen;
         Some (iob, data)
       } else Some (iob, []));
     Some (if len - alen = 0 then 0 else - E_NO_MEM, data, iob)
   }"

definition iobuf_move_zeros :: "iobuf \<Rightarrow> nat \<Rightarrow> 'd vst \<Rightarrow> (int \<times> nat \<times> iobuf \<times> 'd vst) option" where
  "iobuf_move_zeros iob len s = do {
     let alen = min (io_resid iob) len;
     (iob, s) \<leftarrow> (if alen > 0 then do {
         m \<leftarrow> memset (io_base iob) 0 alen (kbuf s);
         iob \<leftarrow> iobuf_skip iob alen;
         Some (iob, s\<lparr>kbuf := m\<rparr>)
       } else Some (iob, s));
     Some (if len - alen = 0 then 0 else - E_NO_MEM, alen, iob, s)
   }"

subsection \<open>Inodes (inode.c)\<close>

definition MAX_INODE_COUNT :: int where "MAX_INODE_COUNT = 0x10000"

definition alloc_inode :: "in_type_t \<Rightarrow> 'd vst \<Rightarrow> nat option \<times> 'd vst" where
  "alloc_inode type s =
     (case vmalloc s of (None, s) \<Rightarrow> (None, s) | (Some n, s) \<Rightarrow> (Some n, upd_inode n (\<lambda>i. i\<lparr>in_type := type\<rparr>) s))"

definition inode_ref_inc :: "nat \<Rightarrow> 'd vst \<Rightarrow> 'd vst" where
  "inode_ref_inc n s = upd_inode n (\<lambda>i. i\<lparr>ref_count := ref_count i + 1\<rparr>) s"

definition inode_open_inc :: "nat \<Rightarrow> 'd vst \<Rightarrow> 'd vst" where
  "inode_open_inc n s = upd_inode n (\<lambda>i. i\<lparr>open_count := open_count i + 1\<rparr>) s"

definition inode_init :: "nat \<Rightarrow> nat \<Rightarrow> nat option \<Rightarrow> 'd vst \<Rightarrow> 'd vst" where
  "inode_init n ops fs s =
     inode_ref_inc n (upd_inode n (\<lambda>i. i\<lparr>ref_count := 0, open_count := 0, in_ops := Some ops, in_fs := fs\<rparr>) s)"

definition inode_kill :: "nat \<Rightarrow> 'd vst \<Rightarrow> 'd vst option" where
  "inode_kill n s = do {
     assert_c (ref_count (inodes s n) = 0);
     assert_c (open_count (inodes s n) = 0);
     Some (vfree n s)
   }"

definition inode_check :: "nat \<Rightarrow> 'd vst \<Rightarrow> unit option" where
  "inode_check n s = do {
     assert_c (in_ops (inodes s n) \<noteq> None);
     let r = ref_count (inodes s n);
     let c = open_count (inodes s n);
     assert_c (r \<ge> c \<and> c \<ge> 0);
     assert_c (r < MAX_INODE_COUNT \<and> c < MAX_INODE_COUNT)
   }"

text \<open>The function a \<open>vop\<close> macro calls.\<close>

definition vop :: "'d vtab \<Rightarrow> ('d inode_ops \<Rightarrow> 'f option) \<Rightarrow> nat \<Rightarrow> 'd vst \<Rightarrow> 'f option" where
  "vop T sel n s = do {
     ops \<leftarrow> in_ops (inodes s n);
     f \<leftarrow> sel (itab T ops);
     inode_check n s;
     Some f
   }"

text \<open>\<open>vop_reclaim\<close> and \<open>vop_close\<close> failures are only reported.\<close>

definition inode_ref_dec :: "'d vtab \<Rightarrow> nat \<Rightarrow> 'd vst \<Rightarrow> (int \<times> 'd vst) option" where
  "inode_ref_dec T n s = do {
     assert_c (ref_count (inodes s n) > 0);
     let s = upd_inode n (\<lambda>i. i\<lparr>ref_count := ref_count i - 1\<rparr>) s;
     let r = ref_count (inodes s n);
     s \<leftarrow> (if r = 0 then do { f \<leftarrow> vop T op_reclaim n s; (_, s) \<leftarrow> f n s; Some s } else Some s);
     Some (r, s)
   }"

definition inode_open_dec :: "'d vtab \<Rightarrow> nat \<Rightarrow> 'd vst \<Rightarrow> (int \<times> 'd vst) option" where
  "inode_open_dec T n s = do {
     assert_c (open_count (inodes s n) > 0);
     let s = upd_inode n (\<lambda>i. i\<lparr>open_count := open_count i - 1\<rparr>) s;
     let c = open_count (inodes s n);
     s \<leftarrow> (if c = 0 then do { f \<leftarrow> vop T op_close n s; (_, s) \<leftarrow> f n s; Some s } else Some s);
     Some (c, s)
   }"

end
