(* ===== verification/Vfs.thy ===== *)
theory Vfs
  imports Inode
begin

section \<open>The virtual file system layer (kern/fs/vfs)\<close>

text \<open>
  vfs.c, vfsdev.c, vfslookup.c, vfspath.c and vfsfile.c. A path is a string. \<open>get_device\<close> cuts the
  caller's path buffer at a colon; what the buffer then reads as is part of the result.
\<close>

definition O_RDONLY :: "32 word" where "O_RDONLY = 0"
definition O_WRONLY :: "32 word" where "O_WRONLY = 1"
definition O_RDWR :: "32 word" where "O_RDWR = 2"
definition O_CREAT :: "32 word" where "O_CREAT = 4"
definition O_EXCL :: "32 word" where "O_EXCL = 8"
definition O_TRUNC :: "32 word" where "O_TRUNC = 0x10"
definition O_APPEND :: "32 word" where "O_APPEND = 0x20"
definition O_ACCMODE :: "32 word" where "O_ACCMODE = 3"

lemmas o_defs = O_RDONLY_def O_WRONLY_def O_RDWR_def O_CREAT_def O_EXCL_def O_TRUNC_def O_APPEND_def O_ACCMODE_def

definition FS_MAX_DNAME_LEN :: nat where "FS_MAX_DNAME_LEN = 31"
definition FS_MAX_FNAME_LEN :: nat where "FS_MAX_FNAME_LEN = 255"
definition FS_MAX_FPATH_LEN :: nat where "FS_MAX_FPATH_LEN = 4095"

definition S_IFMT :: "32 word" where "S_IFMT = 0x7000"
definition S_IFREG :: "32 word" where "S_IFREG = 0x1000"
definition S_IFDIR :: "32 word" where "S_IFDIR = 0x2000"
definition S_ISDIR :: "32 word \<Rightarrow> bool" where "S_ISDIR m \<longleftrightarrow> m AND S_IFMT = S_IFDIR"

definition str_bytes :: "string \<Rightarrow> byte list" where
  "str_bytes s = map of_char s"

subsection \<open>Locks\<close>

definition lock_bootfs :: "'d vst \<Rightarrow> 'd vst option" where
  "lock_bootfs s = do { assert_c (bootfs_sem s > 0); Some (s\<lparr>bootfs_sem := bootfs_sem s - 1\<rparr>) }"

definition unlock_bootfs :: "'d vst \<Rightarrow> 'd vst" where
  "unlock_bootfs s = s\<lparr>bootfs_sem := bootfs_sem s + 1\<rparr>"

definition lock_vdev_list :: "'d vst \<Rightarrow> 'd vst option" where
  "lock_vdev_list s = do { assert_c (vdev_list_sem s > 0); Some (s\<lparr>vdev_list_sem := vdev_list_sem s - 1\<rparr>) }"

definition unlock_vdev_list :: "'d vst \<Rightarrow> 'd vst" where
  "unlock_vdev_list s = s\<lparr>vdev_list_sem := vdev_list_sem s + 1\<rparr>"

definition lock_files :: "nat \<Rightarrow> 'd vst \<Rightarrow> 'd vst option" where
  "lock_files p s = do {
     assert_c (files_sem (fstructs s p) > 0);
     Some (upd_fstruct p (\<lambda>f. f\<lparr>files_sem := files_sem f - 1\<rparr>) s)
   }"

definition unlock_files :: "nat \<Rightarrow> 'd vst \<Rightarrow> 'd vst" where
  "unlock_files p s = upd_fstruct p (\<lambda>f. f\<lparr>files_sem := files_sem f + 1\<rparr>) s"

subsection \<open>The device list (vfsdev.c)\<close>

fun le2vdev :: "vdlink \<Rightarrow> nat option" where
  "le2vdev (VdevLink v) = Some v"
| "le2vdev VdevList = None"

text \<open>The walk of the device list to the first device that satisfies \<open>P\<close>.\<close>

partial_function (option) vdev_find :: "(vfs_dev_t \<Rightarrow> bool) \<Rightarrow> vdlink \<Rightarrow> 'd vst \<Rightarrow> nat option option" where
  "vdev_find P le s =
     (let le = list_next le (vdev_links s)
      in if le = VdevList then Some None
         else do { v \<leftarrow> le2vdev le; if P (vdevs s v) then Some (Some v) else vdev_find P le s })"

definition vfs_devlist_init :: "'d vst \<Rightarrow> 'd vst" where
  "vfs_devlist_init s = s\<lparr>vdev_links := list_init VdevList (vdev_links s), vdev_list_sem := 1\<rparr>"

partial_function (option) vfs_cleanup_loop :: "'d vtab \<Rightarrow> vdlink \<Rightarrow> 'd vst \<Rightarrow> 'd vst option" where
  "vfs_cleanup_loop T le s =
     (let le = list_next le (vdev_links s)
      in if le = VdevList then Some s
         else do {
           v \<leftarrow> le2vdev le;
           s \<leftarrow> (case vdev_fs (vdevs s v) of None \<Rightarrow> Some s | Some fs \<Rightarrow> fs_cleanup (ftab T (fs_ops_of s fs)) fs s);
           vfs_cleanup_loop T le s
         })"

definition vfs_cleanup :: "'d vtab \<Rightarrow> 'd vst \<Rightarrow> 'd vst option" where
  "vfs_cleanup T s =
     (if \<not> list_empty VdevList (vdev_links s) then do {
        s \<leftarrow> lock_vdev_list s;
        s \<leftarrow> vfs_cleanup_loop T VdevList s;
        Some (unlock_vdev_list s)
      } else Some s)"

definition vfs_get_root :: "'d vtab \<Rightarrow> string \<Rightarrow> 'd vst \<Rightarrow> (int \<times> nat option \<times> 'd vst) option" where
  "vfs_get_root T name s =
     (if \<not> list_empty VdevList (vdev_links s) then do {
        s \<leftarrow> lock_vdev_list s;
        r \<leftarrow> vdev_find (\<lambda>d. devname d = name) VdevList s;
        (ret, node, s) \<leftarrow> (case r of
            None \<Rightarrow> Some (- E_NO_DEV, None, s)
          | Some v \<Rightarrow> do {
              (found, s) \<leftarrow> (case vdev_fs (vdevs s v) of
                  Some fs \<Rightarrow> fs_get_root (ftab T (fs_ops_of s fs)) fs s
                | None \<Rightarrow> if \<not> mountable (vdevs s v)
                    then do { n \<leftarrow> devnode (vdevs s v); Some (Some n, inode_ref_inc n s) }
                    else Some (None, s));
              Some (if found \<noteq> None then 0 else - E_NA_DEV, found, s)
            });
        Some (ret, node, unlock_vdev_list s)
      } else Some (- E_NO_DEV, None, s))"

definition vfs_get_devname :: "nat \<Rightarrow> 'd vst \<Rightarrow> string option option" where
  "vfs_get_devname fs s = do {
     r \<leftarrow> vdev_find (\<lambda>d. vdev_fs d = Some fs) VdevList s;
     Some (case r of None \<Rightarrow> None | Some v \<Rightarrow> Some (devname (vdevs s v)))
   }"

definition check_devname_conflict :: "string \<Rightarrow> 'd vst \<Rightarrow> bool option" where
  "check_devname_conflict name s = do { r \<leftarrow> vdev_find (\<lambda>d. devname d = name) VdevList s; Some (r = None) }"

definition vfs_do_add :: "string \<Rightarrow> nat option \<Rightarrow> nat option \<Rightarrow> bool \<Rightarrow> 'd vst \<Rightarrow> (int \<times> 'd vst) option" where
  "vfs_do_add name dnode fs mnt s = do {
     assert_c ((dnode = None \<and> \<not> mnt) \<or>
       (case dnode of None \<Rightarrow> False | Some n \<Rightarrow> in_type (inodes s n) = inode_type_device_info));
     if length name > FS_MAX_DNAME_LEN then Some (- E_TOO_BIG, s)
     else (case vmalloc s of
         (None, s) \<Rightarrow> Some (- E_NO_MEM, s)
       | (Some s_devname, s) \<Rightarrow>
           (case vmalloc s of
              (None, s) \<Rightarrow> Some (- E_NO_MEM, vfree s_devname s)
            | (Some vdev, s) \<Rightarrow> do {
                s \<leftarrow> lock_vdev_list s;
                ok \<leftarrow> check_devname_conflict name s;
                if \<not> ok then Some (- E_EXISTS, vfree s_devname (vfree vdev (unlock_vdev_list s)))
                else do {
                  let s = s\<lparr>vdevs := (vdevs s)(vdev :=
                    \<lparr>devname = name, devnode = dnode, vdev_fs = fs, mountable = mnt\<rparr>)\<rparr>;
                  let s = s\<lparr>vdev_links := list_add VdevList (VdevLink vdev) (vdev_links s)\<rparr>;
                  Some (0, unlock_vdev_list s)
                }
              }))
   }"

definition vfs_add_fs :: "string \<Rightarrow> nat \<Rightarrow> 'd vst \<Rightarrow> (int \<times> 'd vst) option" where
  "vfs_add_fs name fs s = vfs_do_add name None (Some fs) False s"

definition vfs_add_dev :: "string \<Rightarrow> nat \<Rightarrow> bool \<Rightarrow> 'd vst \<Rightarrow> (int \<times> 'd vst) option" where
  "vfs_add_dev name dnode mnt s = vfs_do_add name (Some dnode) None mnt s"

definition find_mount :: "string \<Rightarrow> 'd vst \<Rightarrow> nat option option" where
  "find_mount name s = vdev_find (\<lambda>d. mountable d \<and> devname d = name) VdevList s"

definition set_vdev_fs :: "nat \<Rightarrow> nat option \<Rightarrow> 'd vst \<Rightarrow> 'd vst" where
  "set_vdev_fs v fs s = s\<lparr>vdevs := (vdevs s)(v := (vdevs s v)\<lparr>vdev_fs := fs\<rparr>)\<rparr>"

text \<open>\<open>mountfunc\<close> hands back the file system it made, or null when it stored none.\<close>

definition vfs_mount ::
    "string \<Rightarrow> (nat \<Rightarrow> 'd vst \<Rightarrow> (int \<times> nat option \<times> 'd vst) option) \<Rightarrow> 'd vst \<Rightarrow> (int \<times> 'd vst) option" where
  "vfs_mount name mountfunc s = do {
     s \<leftarrow> lock_vdev_list s;
     r \<leftarrow> find_mount name s;
     (ret, s) \<leftarrow> (case r of
         None \<Rightarrow> Some (- E_NO_DEV, s)
       | Some v \<Rightarrow>
           if vdev_fs (vdevs s v) \<noteq> None then Some (- E_BUSY, s)
           else do {
             assert_c (mountable (vdevs s v));
             dev \<leftarrow> devnode (vdevs s v);
             assert_c (in_type (inodes s dev) = inode_type_device_info);
             (ret, fs, s) \<leftarrow> mountfunc dev s;
             let s = (if fs \<noteq> None then set_vdev_fs v fs s else s);
             assert_c (ret = 0 \<longrightarrow> vdev_fs (vdevs s v) \<noteq> None);
             Some (ret, s)
           });
     Some (ret, unlock_vdev_list s)
   }"

definition vfs_unmount :: "'d vtab \<Rightarrow> string \<Rightarrow> 'd vst \<Rightarrow> (int \<times> 'd vst) option" where
  "vfs_unmount T name s = do {
     s \<leftarrow> lock_vdev_list s;
     r \<leftarrow> find_mount name s;
     (ret, s) \<leftarrow> (case r of
         None \<Rightarrow> Some (- E_NO_DEV, s)
       | Some v \<Rightarrow>
           (case vdev_fs (vdevs s v) of
              None \<Rightarrow> Some (- E_INVAL, s)
            | Some fs \<Rightarrow> do {
                assert_c (mountable (vdevs s v));
                (ret, s) \<leftarrow> fs_sync (ftab T (fs_ops_of s fs)) fs s;
                if ret \<noteq> 0 then Some (ret, s)
                else do {
                  (ret, s) \<leftarrow> fs_unmount (ftab T (fs_ops_of s fs)) fs s;
                  Some (ret, if ret = 0 then set_vdev_fs v None s else s)
                }
              }));
     Some (ret, unlock_vdev_list s)
   }"

partial_function (option) vfs_unmount_all_loop :: "'d vtab \<Rightarrow> vdlink \<Rightarrow> 'd vst \<Rightarrow> 'd vst option" where
  "vfs_unmount_all_loop T le s =
     (let le = list_next le (vdev_links s)
      in if le = VdevList then Some s
         else do {
           v \<leftarrow> le2vdev le;
           s \<leftarrow> (case vdev_fs (vdevs s v) of
                   None \<Rightarrow> Some s
                 | Some fs \<Rightarrow>
                     if \<not> mountable (vdevs s v) then Some s
                     else do {
                       (ret, s) \<leftarrow> fs_sync (ftab T (fs_ops_of s fs)) fs s;
                       if ret \<noteq> 0 then Some s
                       else do {
                         (ret, s) \<leftarrow> fs_unmount (ftab T (fs_ops_of s fs)) fs s;
                         Some (if ret \<noteq> 0 then s else set_vdev_fs v None s)
                       }
                     });
           vfs_unmount_all_loop T le s
         })"

definition vfs_unmount_all :: "'d vtab \<Rightarrow> 'd vst \<Rightarrow> (int \<times> 'd vst) option" where
  "vfs_unmount_all T s =
     (if \<not> list_empty VdevList (vdev_links s) then do {
        s \<leftarrow> lock_vdev_list s;
        s \<leftarrow> vfs_unmount_all_loop T VdevList s;
        Some (0, unlock_vdev_list s)
      } else Some (0, s))"

definition vfs_init :: "'d vst \<Rightarrow> 'd vst" where
  "vfs_init s = vfs_devlist_init (s\<lparr>bootfs_sem := 1\<rparr>)"

subsection \<open>Current directory and boot file system\<close>

definition get_cwd_nolock :: "'d vst \<Rightarrow> nat option option" where
  "get_cwd_nolock s = do { p \<leftarrow> cur_filesp s; Some (pwd (fstructs s p)) }"

definition set_cwd_nolock :: "nat option \<Rightarrow> 'd vst \<Rightarrow> 'd vst option" where
  "set_cwd_nolock n s = do { p \<leftarrow> cur_filesp s; Some (upd_fstruct p (\<lambda>f. f\<lparr>pwd := n\<rparr>) s) }"

definition lock_cfs :: "'d vst \<Rightarrow> 'd vst option" where
  "lock_cfs s = do { p \<leftarrow> cur_filesp s; lock_files p s }"

definition unlock_cfs :: "'d vst \<Rightarrow> 'd vst option" where
  "unlock_cfs s = do { p \<leftarrow> cur_filesp s; Some (unlock_files p s) }"

definition vfs_get_curdir :: "'d vst \<Rightarrow> (int \<times> nat option \<times> 'd vst) option" where
  "vfs_get_curdir s = do {
     r \<leftarrow> get_cwd_nolock s;
     case r of
       Some n \<Rightarrow> Some (0, Some n, inode_ref_inc n s)
     | None \<Rightarrow> Some (- E_NOENT, None, s)
   }"

definition vfs_set_curdir :: "'d vtab \<Rightarrow> nat option \<Rightarrow> 'd vst \<Rightarrow> (int \<times> 'd vst) option" where
  "vfs_set_curdir T dir s = do {
     s \<leftarrow> lock_cfs s;
     old_dir \<leftarrow> get_cwd_nolock s;
     (ret, s) \<leftarrow> (if old_dir = dir then Some (0, s)
       else do {
         (ret, s) \<leftarrow> (case dir of
             None \<Rightarrow> Some (0, s)
           | Some d \<Rightarrow> do {
               f \<leftarrow> vop T op_gettype d s;
               (ret, type, s) \<leftarrow> f d s;
               if ret \<noteq> 0 then Some (ret, s)
               else if \<not> S_ISDIR type then Some (- E_NOTDIR, s)
               else Some (0, inode_ref_inc d s)
             });
         if ret \<noteq> 0 then Some (ret, s)
         else do {
           s \<leftarrow> set_cwd_nolock dir s;
           s \<leftarrow> (case old_dir of None \<Rightarrow> Some s | Some o' \<Rightarrow> do { (_, s) \<leftarrow> inode_ref_dec T o' s; Some s });
           Some (ret, s)
         }
       });
     s \<leftarrow> unlock_cfs s;
     Some (ret, s)
   }"

definition change_bootfs :: "'d vtab \<Rightarrow> nat option \<Rightarrow> 'd vst \<Rightarrow> 'd vst option" where
  "change_bootfs T n s = do {
     s \<leftarrow> lock_bootfs s;
     let old = bootfs_node s;
     let s = unlock_bootfs (s\<lparr>bootfs_node := n\<rparr>);
     case old of None \<Rightarrow> Some s | Some o' \<Rightarrow> do { (_, s) \<leftarrow> inode_ref_dec T o' s; Some s }
   }"

definition vfs_get_bootfs :: "'d vst \<Rightarrow> (int \<times> nat option \<times> 'd vst) option" where
  "vfs_get_bootfs s =
     (case bootfs_node s of
        None \<Rightarrow> Some (- E_NOENT, None, s)
      | Some n \<Rightarrow> do {
          s \<leftarrow> lock_bootfs s;
          Some (0, Some n, unlock_bootfs (inode_ref_inc n s))
        })"

subsection \<open>Lookup (vfslookup.c)\<close>

definition is_sep :: "char \<Rightarrow> bool" where
  "is_sep c \<longleftrightarrow> c = CHR '':'' \<or> c = CHR ''/''"

text \<open>The result: return value, subpath, node, what the path buffer now reads as.\<close>

definition get_device ::
    "'d vtab \<Rightarrow> string \<Rightarrow> 'd vst \<Rightarrow> (int \<times> string \<times> nat option \<times> string \<times> 'd vst) option" where
  "get_device T path s = do {
     let i = length (takeWhile (\<lambda>c. \<not> is_sep c) path);
     let colon = (i < length path \<and> path ! i = CHR '':'');
     let slash = (i < length path \<and> path ! i = CHR ''/'');
     if \<not> colon \<and> \<not> (slash \<and> i = 0) then do {
       (ret, n, s) \<leftarrow> vfs_get_curdir s;
       Some (ret, path, n, path, s)
     }
     else if colon \<and> i > 0 then do {
       let subpath = dropWhile (\<lambda>c. c = CHR ''/'') (drop (i + 1) path);
       (ret, n, s) \<leftarrow> vfs_get_root T (take i path) s;
       Some (ret, subpath, n, take i path, s)
     }
     else do {
       (ret, n, s) \<leftarrow> (if slash then vfs_get_bootfs s
         else do {
           (ret, n, s) \<leftarrow> vfs_get_curdir s;
           if ret \<noteq> 0 then Some (ret, None, s)
           else do {
             d \<leftarrow> n;
             fs \<leftarrow> in_fs (inodes s d);
             (root, s) \<leftarrow> fs_get_root (ftab T (fs_ops_of s fs)) fs s;
             (_, s) \<leftarrow> inode_ref_dec T d s;
             Some (0, root, s)
           }
         });
       if ret \<noteq> 0 then Some (ret, path, None, path, s)
       else Some (0, dropWhile (\<lambda>c. c = CHR ''/'') (tl path), n, path, s)
     }
   }"

definition vfs_lookup :: "'d vtab \<Rightarrow> string \<Rightarrow> 'd vst \<Rightarrow> (int \<times> nat option \<times> string \<times> 'd vst) option" where
  "vfs_lookup T path s = do {
     (ret, sub, n, path, s) \<leftarrow> get_device T path s;
     if ret \<noteq> 0 then Some (ret, None, path, s)
     else if sub \<noteq> [] then do {
       d \<leftarrow> n;
       f \<leftarrow> vop T op_lookup d s;
       (ret, r, s) \<leftarrow> f d sub s;
       (_, s) \<leftarrow> inode_ref_dec T d s;
       Some (ret, r, path, s)
     }
     else Some (0, n, path, s)
   }"

definition vfs_lookup_parent :: "'d vtab \<Rightarrow> string \<Rightarrow> 'd vst \<Rightarrow> (int \<times> nat option \<times> string \<times> 'd vst) option" where
  "vfs_lookup_parent T path s = do {
     (ret, sub, n, path, s) \<leftarrow> get_device T path s;
     if ret \<noteq> 0 then Some (ret, None, [], s) else Some (0, n, sub, s)
   }"

definition vfs_chdir :: "'d vtab \<Rightarrow> string \<Rightarrow> 'd vst \<Rightarrow> (int \<times> 'd vst) option" where
  "vfs_chdir T path s = do {
     (ret, n, _, s) \<leftarrow> vfs_lookup T path s;
     if ret = 0 then do {
       d \<leftarrow> n;
       (ret, s) \<leftarrow> vfs_set_curdir T (Some d) s;
       (_, s) \<leftarrow> inode_ref_dec T d s;
       Some (ret, s)
     } else Some (ret, s)
   }"

definition vfs_getcwd :: "'d vtab \<Rightarrow> iobuf \<Rightarrow> 'd vst \<Rightarrow> (int \<times> iobuf \<times> 'd vst) option" where
  "vfs_getcwd T iob s = do {
     (ret, n, s) \<leftarrow> vfs_get_curdir s;
     if ret \<noteq> 0 then Some (ret, iob, s)
     else do {
       d \<leftarrow> n;
       fs \<leftarrow> in_fs (inodes s d);
       dn \<leftarrow> vfs_get_devname fs s;
       name \<leftarrow> dn;
       (ret, _, iob, s) \<leftarrow> iobuf_move_in iob (str_bytes name) s;
       (ret, iob, s) \<leftarrow> (if ret \<noteq> 0 then Some (ret, iob, s)
         else do {
           (ret, _, iob, s) \<leftarrow> iobuf_move_in iob (str_bytes '':'') s;
           if ret \<noteq> 0 then Some (ret, iob, s)
           else do { f \<leftarrow> vop T op_namefile d s; f d iob s }
         });
       (_, s) \<leftarrow> inode_ref_dec T d s;
       Some (ret, iob, s)
     }
   }"

definition vfs_set_bootfs :: "'d vtab \<Rightarrow> string option \<Rightarrow> 'd vst \<Rightarrow> (int \<times> 'd vst) option" where
  "vfs_set_bootfs T fsname s =
     (case fsname of
        None \<Rightarrow> do { s \<leftarrow> change_bootfs T None s; Some (0, s) }
      | Some name \<Rightarrow>
          if dropWhile (\<lambda>c. c \<noteq> CHR '':'') name \<noteq> '':'' then Some (- E_INVAL, s)
          else do {
            (ret, s) \<leftarrow> vfs_chdir T name s;
            if ret \<noteq> 0 then Some (ret, s)
            else do {
              (ret, n, s) \<leftarrow> vfs_get_curdir s;
              if ret \<noteq> 0 then Some (ret, s)
              else do { s \<leftarrow> change_bootfs T n s; Some (0, s) }
            }
          })"

subsection \<open>Open and close (vfsfile.c)\<close>

text \<open>
  The code ignores what \<open>vop_create\<close> returns; a node it did not store is an uninitialised
  pointer. The reference to the directory that \<open>vfs_lookup_parent\<close> took is not given back, nor is
  the one to an existing file when \<open>O_EXCL\<close> refuses it.
\<close>

definition vfs_open :: "'d vtab \<Rightarrow> string \<Rightarrow> 32 word \<Rightarrow> 'd vst \<Rightarrow> (int \<times> nat option \<times> 'd vst) option" where
  "vfs_open T path flags s = do {
     let acc = flags AND O_ACCMODE;
     let can_write = (acc = O_WRONLY \<or> acc = O_RDWR);
     if acc \<noteq> O_RDONLY \<and> \<not> can_write then Some (- E_INVAL, None, s)
     else if flags AND O_TRUNC \<noteq> 0 \<and> \<not> can_write then Some (- E_INVAL, None, s)
     else do {
       let excl = (flags AND O_EXCL \<noteq> 0);
       let create = (flags AND O_CREAT \<noteq> 0);
       (ret, n, path, s) \<leftarrow> vfs_lookup T path s;
       (stop, n, s) \<leftarrow> (if ret \<noteq> 0 then
           (if ret = -16 \<and> create then do {
              (ret, d, name, s) \<leftarrow> vfs_lookup_parent T path s;
              if ret \<noteq> 0 then Some (Some ret, None, s)
              else do {
                dir \<leftarrow> d;
                f \<leftarrow> vop T op_create dir s;
                (ret, n, s) \<leftarrow> f dir name excl s;
                Some (None, n, s)
              }
            } else Some (Some ret, None, s))
         else if excl \<and> create then Some (Some (- E_EXISTS), None, s)
         else Some (None, n, s));
       case stop of
         Some ret \<Rightarrow> Some (ret, None, s)
       | None \<Rightarrow> do {
           node \<leftarrow> n;
           f \<leftarrow> vop T op_open node s;
           (ret, s) \<leftarrow> f node flags s;
           if ret \<noteq> 0 then do { (_, s) \<leftarrow> inode_ref_dec T node s; Some (ret, None, s) }
           else do {
             let s = inode_open_inc node s;
             if flags AND O_TRUNC \<noteq> 0 \<or> create then do {
               f \<leftarrow> vop T op_truncate node s;
               (ret, s) \<leftarrow> f node 0 s;
               if ret \<noteq> 0 then do {
                 (_, s) \<leftarrow> inode_open_dec T node s;
                 (_, s) \<leftarrow> inode_ref_dec T node s;
                 Some (ret, None, s)
               } else Some (0, Some node, s)
             } else Some (0, Some node, s)
           }
         }
     }
   }"

definition vfs_close :: "'d vtab \<Rightarrow> nat \<Rightarrow> 'd vst \<Rightarrow> 'd vst option" where
  "vfs_close T n s = do {
     (_, s) \<leftarrow> inode_open_dec T n s;
     (_, s) \<leftarrow> inode_ref_dec T n s;
     Some s
   }"

definition vfs_unlink :: "string \<Rightarrow> int" where "vfs_unlink path = - E_UNIMP"
definition vfs_rename :: "string \<Rightarrow> string \<Rightarrow> int" where "vfs_rename old_path new_path = - E_UNIMP"
definition vfs_link :: "string \<Rightarrow> string \<Rightarrow> int" where "vfs_link old_path new_path = - E_UNIMP"

declare vdev_find.simps [code] vfs_cleanup_loop.simps [code] vfs_unmount_all_loop.simps [code]

end
