(* ===== verification/Filetab.thy ===== *)
theory Filetab
  imports Vfs
begin

section \<open>Open files (kern/fs/file.c, kern/fs/fs.c)\<close>

text \<open>
  The table of open files of a process: entries \<open>fd_array s p i\<close> of the files structure \<open>p\<close>. A
  \<open>struct file *\<close> is \<open>(p, i)\<close>. The size of a table is what remains of a page behind
  \<open>struct files_struct\<close> (48 bytes), in entries of 56 bytes.
\<close>

definition FILES_STRUCT_NENTRY :: nat where "FILES_STRUCT_NENTRY = (4096 - 48) div 56"
definition NO_FD :: int where "NO_FD = - 0x9527"
definition LSEEK_SET :: int where "LSEEK_SET = 0"
definition LSEEK_CUR :: int where "LSEEK_CUR = 1"
definition LSEEK_END :: int where "LSEEK_END = 2"

lemma FILES_STRUCT_NENTRY [simp]: "FILES_STRUCT_NENTRY = 72"
  by (simp add: FILES_STRUCT_NENTRY_def)

definition testfd :: "int \<Rightarrow> bool" where
  "testfd x \<longleftrightarrow> x \<ge> 0 \<and> x < int FILES_STRUCT_NENTRY"

subsection \<open>Table entries\<close>

definition get_fd_array :: "'d vst \<Rightarrow> nat option" where
  "get_fd_array s = do { p \<leftarrow> cur_filesp s; assert_c (files_count (fstructs s p) > 0); Some p }"

fun fd_array_init_loop :: "nat \<Rightarrow> nat list \<Rightarrow> 'd vst \<Rightarrow> 'd vst" where
  "fd_array_init_loop p [] s = s"
| "fd_array_init_loop p (i # is) s =
     fd_array_init_loop p is (upd_file p i (\<lambda>f. f\<lparr>fopen_count := 0, status := FD_NONE, fd := int i\<rparr>) s)"

definition fd_array_init :: "nat \<Rightarrow> 'd vst \<Rightarrow> 'd vst" where
  "fd_array_init p s = fd_array_init_loop p [0..<FILES_STRUCT_NENTRY] s"

definition fd_array_alloc :: "int \<Rightarrow> 'd vst \<Rightarrow> (int \<times> (nat \<times> nat) option \<times> 'd vst) option" where
  "fd_array_alloc x s = do {
     p \<leftarrow> get_fd_array s;
     let free = (\<lambda>i. status (fd_array s p i) = FD_NONE);
     let (err, slot) =
       (if x = NO_FD then (- E_MAX_OPEN, List.find free [0..<FILES_STRUCT_NENTRY])
        else if testfd x then (- E_BUSY, if free (nat x) then Some (nat x) else None)
        else (- E_INVAL, None));
     case slot of
       None \<Rightarrow> Some (err, None, s)
     | Some i \<Rightarrow> do {
         assert_c (fopen_count (fd_array s p i) = 0);
         Some (0, Some (p, i), upd_file p i (\<lambda>f. f\<lparr>status := FD_INIT, node := None\<rparr>) s)
       }
   }"

definition fd_array_free :: "'d vtab \<Rightarrow> nat \<times> nat \<Rightarrow> 'd vst \<Rightarrow> 'd vst option" where
  "fd_array_free T pi s = do {
     let f = fd_array s (fst pi) (snd pi);
     assert_c (status f = FD_INIT \<or> status f = FD_CLOSED);
     assert_c (fopen_count f = 0);
     s \<leftarrow> (if status f = FD_CLOSED then do { n \<leftarrow> node f; vfs_close T n s } else Some s);
     Some (upd_file (fst pi) (snd pi) (\<lambda>f. f\<lparr>status := FD_NONE\<rparr>) s)
   }"

definition fd_array_acquire :: "nat \<times> nat \<Rightarrow> 'd vst \<Rightarrow> 'd vst option" where
  "fd_array_acquire pi s = do {
     assert_c (status (fd_array s (fst pi) (snd pi)) = FD_OPENED);
     Some (upd_file (fst pi) (snd pi) (\<lambda>f. f\<lparr>fopen_count := fopen_count f + 1\<rparr>) s)
   }"

definition fd_array_release :: "'d vtab \<Rightarrow> nat \<times> nat \<Rightarrow> 'd vst \<Rightarrow> 'd vst option" where
  "fd_array_release T pi s = do {
     let f = fd_array s (fst pi) (snd pi);
     assert_c (status f = FD_OPENED \<or> status f = FD_CLOSED);
     assert_c (fopen_count f > 0);
     let s = upd_file (fst pi) (snd pi) (\<lambda>f. f\<lparr>fopen_count := fopen_count f - 1\<rparr>) s;
     if fopen_count (fd_array s (fst pi) (snd pi)) = 0 then fd_array_free T pi s else Some s
   }"

definition fd_array_open :: "nat \<times> nat \<Rightarrow> 'd vst \<Rightarrow> 'd vst option" where
  "fd_array_open pi s = do {
     assert_c (status (fd_array s (fst pi) (snd pi)) = FD_INIT \<and> node (fd_array s (fst pi) (snd pi)) \<noteq> None);
     Some (upd_file (fst pi) (snd pi) (\<lambda>f. f\<lparr>status := FD_OPENED, fopen_count := fopen_count f + 1\<rparr>) s)
   }"

definition fd_array_close :: "'d vtab \<Rightarrow> nat \<times> nat \<Rightarrow> 'd vst \<Rightarrow> 'd vst option" where
  "fd_array_close T pi s = do {
     assert_c (status (fd_array s (fst pi) (snd pi)) = FD_OPENED);
     assert_c (fopen_count (fd_array s (fst pi) (snd pi)) > 0);
     let s = upd_file (fst pi) (snd pi) (\<lambda>f. f\<lparr>status := FD_CLOSED, fopen_count := fopen_count f - 1\<rparr>) s;
     if fopen_count (fd_array s (fst pi) (snd pi)) = 0 then fd_array_free T pi s else Some s
   }"

definition fd_array_dup :: "nat \<times> nat \<Rightarrow> nat \<times> nat \<Rightarrow> 'd vst \<Rightarrow> 'd vst option" where
  "fd_array_dup to from s = do {
     let f = fd_array s (fst from) (snd from);
     assert_c (status (fd_array s (fst to) (snd to)) = FD_INIT \<and> status f = FD_OPENED);
     let s = upd_file (fst to) (snd to) (\<lambda>t. t\<lparr>pos := pos f, readable := readable f, writable := writable f\<rparr>) s;
     n \<leftarrow> node f;
     let s = inode_open_inc n (inode_ref_inc n s);
     let s = upd_file (fst to) (snd to) (\<lambda>t. t\<lparr>node := Some n\<rparr>) s;
     fd_array_open to s
   }"

definition fd2file :: "int \<Rightarrow> 'd vst \<Rightarrow> (nat \<times> nat) option option" where
  "fd2file fd' s =
     (if testfd fd' then do {
        p \<leftarrow> get_fd_array s;
        let f = fd_array s p (nat fd');
        Some (if status f = FD_OPENED \<and> fd f = fd' then Some (p, nat fd') else None)
      } else Some None)"

subsection \<open>Operations on files\<close>

text \<open>Each operation on an open file runs between \<open>fd_array_acquire\<close> and \<open>fd_array_release\<close>.\<close>

definition file_testfd :: "int \<Rightarrow> bool \<Rightarrow> bool \<Rightarrow> 'd vst \<Rightarrow> bool option" where
  "file_testfd fd' r w s = do {
     x \<leftarrow> fd2file fd' s;
     Some (case x of
         None \<Rightarrow> False
       | Some (p, i) \<Rightarrow> (r \<longrightarrow> readable (fd_array s p i)) \<and> (w \<longrightarrow> writable (fd_array s p i)))
   }"

definition file_open :: "'d vtab \<Rightarrow> string \<Rightarrow> 32 word \<Rightarrow> 'd vst \<Rightarrow> (int \<times> 'd vst) option" where
  "file_open T path flags s = do {
     let acc = flags AND O_ACCMODE;
     let r = (acc = O_RDONLY \<or> acc = O_RDWR);
     let w = (acc = O_WRONLY \<or> acc = O_RDWR);
     if \<not> r \<and> \<not> w then Some (- E_INVAL, s)
     else do {
       (ret, x, s) \<leftarrow> fd_array_alloc NO_FD s;
       if ret \<noteq> 0 then Some (ret, s)
       else do {
         pi \<leftarrow> x;
         (ret, n, s) \<leftarrow> vfs_open T path flags s;
         if ret \<noteq> 0 then do { s \<leftarrow> fd_array_free T pi s; Some (ret, s) }
         else do {
           nd \<leftarrow> n;
           let s = upd_file (fst pi) (snd pi) (\<lambda>f. f\<lparr>pos := 0\<rparr>) s;
           (ret, s) \<leftarrow> (if flags AND O_APPEND \<noteq> 0 then do {
               f \<leftarrow> vop T op_fstat nd s;
               (ret, st, s) \<leftarrow> f nd s;
               if ret \<noteq> 0 then do { s \<leftarrow> vfs_close T nd s; s \<leftarrow> fd_array_free T pi s; Some (ret, s) }
               else Some (0, upd_file (fst pi) (snd pi) (\<lambda>f. f\<lparr>pos := of_nat (st_size st)\<rparr>) s)
             } else Some (0, s));
           if ret \<noteq> 0 then Some (ret, s)
           else do {
             let s = upd_file (fst pi) (snd pi) (\<lambda>f. f\<lparr>node := Some nd, readable := r, writable := w\<rparr>) s;
             s \<leftarrow> fd_array_open pi s;
             Some (fd (fd_array s (fst pi) (snd pi)), s)
           }
         }
       }
     }
   }"

definition file_close :: "'d vtab \<Rightarrow> int \<Rightarrow> 'd vst \<Rightarrow> (int \<times> 'd vst) option" where
  "file_close T fd' s = do {
     x \<leftarrow> fd2file fd' s;
     case x of None \<Rightarrow> Some (- E_INVAL, s) | Some pi \<Rightarrow> do { s \<leftarrow> fd_array_close T pi s; Some (0, s) }
   }"

definition advance :: "nat \<times> nat \<Rightarrow> nat \<Rightarrow> 'd vst \<Rightarrow> 'd vst" where
  "advance pi copied s =
     (if status (fd_array s (fst pi) (snd pi)) = FD_OPENED
      then upd_file (fst pi) (snd pi) (\<lambda>f. f\<lparr>pos := pos f + of_nat copied\<rparr>) s else s)"

text \<open>The result: return value, \<open>copied_store\<close>, state.\<close>

definition file_read :: "'d vtab \<Rightarrow> int \<Rightarrow> nat \<Rightarrow> nat \<Rightarrow> 'd vst \<Rightarrow> (int \<times> nat \<times> 'd vst) option" where
  "file_read T fd' base len s = do {
     x \<leftarrow> fd2file fd' s;
     case x of
       None \<Rightarrow> Some (- E_INVAL, 0, s)
     | Some pi \<Rightarrow>
         if \<not> readable (fd_array s (fst pi) (snd pi)) then Some (- E_INVAL, 0, s)
         else do {
           s \<leftarrow> fd_array_acquire pi s;
           let iob = iobuf_init base len (pos (fd_array s (fst pi) (snd pi)));
           n \<leftarrow> node (fd_array s (fst pi) (snd pi));
           f \<leftarrow> vop T op_read n s;
           (ret, iob, s) \<leftarrow> f n iob s;
           let copied = iobuf_used iob;
           s \<leftarrow> fd_array_release T pi (advance pi copied s);
           Some (ret, copied, s)
         }
   }"

definition file_write :: "'d vtab \<Rightarrow> int \<Rightarrow> nat \<Rightarrow> nat \<Rightarrow> 'd vst \<Rightarrow> (int \<times> nat \<times> 'd vst) option" where
  "file_write T fd' base len s = do {
     x \<leftarrow> fd2file fd' s;
     case x of
       None \<Rightarrow> Some (- E_INVAL, 0, s)
     | Some pi \<Rightarrow>
         if \<not> writable (fd_array s (fst pi) (snd pi)) then Some (- E_INVAL, 0, s)
         else do {
           s \<leftarrow> fd_array_acquire pi s;
           let iob = iobuf_init base len (pos (fd_array s (fst pi) (snd pi)));
           n \<leftarrow> node (fd_array s (fst pi) (snd pi));
           f \<leftarrow> vop T op_write n s;
           (ret, iob, s) \<leftarrow> f n iob s;
           let copied = iobuf_used iob;
           s \<leftarrow> fd_array_release T pi (advance pi copied s);
           Some (ret, copied, s)
         }
   }"

definition file_seek :: "'d vtab \<Rightarrow> int \<Rightarrow> 64 word \<Rightarrow> int \<Rightarrow> 'd vst \<Rightarrow> (int \<times> 'd vst) option" where
  "file_seek T fd' p whence s = do {
     x \<leftarrow> fd2file fd' s;
     case x of
       None \<Rightarrow> Some (- E_INVAL, s)
     | Some pi \<Rightarrow> do {
         s \<leftarrow> fd_array_acquire pi s;
         n \<leftarrow> node (fd_array s (fst pi) (snd pi));
         (ret, p, s) \<leftarrow>
           (if whence = LSEEK_SET then Some (0, p, s)
            else if whence = LSEEK_CUR then Some (0, p + pos (fd_array s (fst pi) (snd pi)), s)
            else if whence = LSEEK_END then do {
              f \<leftarrow> vop T op_fstat n s;
              (ret, st, s) \<leftarrow> f n s;
              Some (ret, if ret = 0 then p + of_nat (st_size st) else p, s)
            }
            else Some (- E_INVAL, p, s));
         (ret, s) \<leftarrow> (if ret = 0 then do {
             f \<leftarrow> vop T op_tryseek n s;
             (ret, s) \<leftarrow> f n p s;
             Some (ret, if ret = 0 then upd_file (fst pi) (snd pi) (\<lambda>f. f\<lparr>pos := p\<rparr>) s else s)
           } else Some (ret, s));
         s \<leftarrow> fd_array_release T pi s;
         Some (ret, s)
       }
   }"

definition file_fstat :: "'d vtab \<Rightarrow> int \<Rightarrow> 'd vst \<Rightarrow> (int \<times> stat option \<times> 'd vst) option" where
  "file_fstat T fd' s = do {
     x \<leftarrow> fd2file fd' s;
     case x of
       None \<Rightarrow> Some (- E_INVAL, None, s)
     | Some pi \<Rightarrow> do {
         s \<leftarrow> fd_array_acquire pi s;
         n \<leftarrow> node (fd_array s (fst pi) (snd pi));
         f \<leftarrow> vop T op_fstat n s;
         (ret, st, s) \<leftarrow> f n s;
         s \<leftarrow> fd_array_release T pi s;
         Some (ret, Some st, s)
       }
   }"

definition file_fsync :: "'d vtab \<Rightarrow> int \<Rightarrow> 'd vst \<Rightarrow> (int \<times> 'd vst) option" where
  "file_fsync T fd' s = do {
     x \<leftarrow> fd2file fd' s;
     case x of
       None \<Rightarrow> Some (- E_INVAL, s)
     | Some pi \<Rightarrow> do {
         s \<leftarrow> fd_array_acquire pi s;
         n \<leftarrow> node (fd_array s (fst pi) (snd pi));
         f \<leftarrow> vop T op_fsync n s;
         (ret, s) \<leftarrow> f n s;
         s \<leftarrow> fd_array_release T pi s;
         Some (ret, s)
       }
   }"

text \<open>The directory entry lies at \<open>de\<close> in memory; its offset and the new offset are passed as values.\<close>

definition file_getdirentry :: "'d vtab \<Rightarrow> int \<Rightarrow> nat \<Rightarrow> 64 word \<Rightarrow> 'd vst \<Rightarrow> (int \<times> 64 word \<times> 'd vst) option" where
  "file_getdirentry T fd' de off s = do {
     x \<leftarrow> fd2file fd' s;
     case x of
       None \<Rightarrow> Some (- E_INVAL, off, s)
     | Some pi \<Rightarrow> do {
         s \<leftarrow> fd_array_acquire pi s;
         let iob = iobuf_init (de + 8) (FS_MAX_FNAME_LEN + 1) off;
         n \<leftarrow> node (fd_array s (fst pi) (snd pi));
         f \<leftarrow> vop T op_getdirentry n s;
         (ret, iob, s) \<leftarrow> f n iob s;
         let off = (if ret = 0 then off + of_nat (iobuf_used iob) else off);
         s \<leftarrow> fd_array_release T pi s;
         Some (ret, off, s)
       }
   }"

definition file_dup :: "int \<Rightarrow> int \<Rightarrow> 'd vst \<Rightarrow> (int \<times> 'd vst) option" where
  "file_dup fd1 fd2 s = do {
     x \<leftarrow> fd2file fd1 s;
     case x of
       None \<Rightarrow> Some (- E_INVAL, s)
     | Some f1 \<Rightarrow> do {
         (ret, y, s) \<leftarrow> fd_array_alloc fd2 s;
         if ret \<noteq> 0 then Some (ret, s)
         else do {
           f2 \<leftarrow> y;
           s \<leftarrow> fd_array_dup f2 f1 s;
           Some (fd (fd_array s (fst f2) (snd f2)), s)
         }
       }
   }"

subsection \<open>File tables of processes (fs.c)\<close>

definition files_count_inc :: "nat \<Rightarrow> 'd vst \<Rightarrow> 'd vst" where
  "files_count_inc p s = upd_fstruct p (\<lambda>f. f\<lparr>files_count := files_count f + 1\<rparr>) s"

definition files_count_dec :: "nat \<Rightarrow> 'd vst \<Rightarrow> int \<times> 'd vst" where
  "files_count_dec p s =
     (let s = upd_fstruct p (\<lambda>f. f\<lparr>files_count := files_count f - 1\<rparr>) s in (files_count (fstructs s p), s))"

definition files_create :: "'d vst \<Rightarrow> nat option \<times> 'd vst" where
  "files_create s =
     (case vmalloc s of
        (None, s) \<Rightarrow> (None, s)
      | (Some p, s) \<Rightarrow>
          (Some p, fd_array_init p (upd_fstruct p (\<lambda>f. f\<lparr>pwd := None, files_count := 0, files_sem := 1\<rparr>) s)))"

fun files_destroy_loop :: "'d vtab \<Rightarrow> nat \<Rightarrow> nat list \<Rightarrow> 'd vst \<Rightarrow> 'd vst option" where
  "files_destroy_loop T p [] s = Some s"
| "files_destroy_loop T p (i # is) s = do {
     s \<leftarrow> (if status (fd_array s p i) = FD_OPENED then fd_array_close T (p, i) s else Some s);
     assert_c (status (fd_array s p i) = FD_NONE);
     files_destroy_loop T p is s
   }"

definition files_destroy :: "'d vtab \<Rightarrow> nat \<Rightarrow> 'd vst \<Rightarrow> 'd vst option" where
  "files_destroy T p s = do {
     assert_c (files_count (fstructs s p) = 0);
     s \<leftarrow> (case pwd (fstructs s p) of None \<Rightarrow> Some s | Some n \<Rightarrow> do { (_, s) \<leftarrow> inode_ref_dec T n s; Some s });
     s \<leftarrow> files_destroy_loop T p [0..<FILES_STRUCT_NENTRY] s;
     Some (vfree p s)
   }"

fun files_closeall_loop :: "'d vtab \<Rightarrow> nat \<Rightarrow> nat list \<Rightarrow> 'd vst \<Rightarrow> 'd vst option" where
  "files_closeall_loop T p [] s = Some s"
| "files_closeall_loop T p (i # is) s = do {
     s \<leftarrow> (if status (fd_array s p i) = FD_OPENED then fd_array_close T (p, i) s else Some s);
     files_closeall_loop T p is s
   }"

definition files_closeall :: "'d vtab \<Rightarrow> nat \<Rightarrow> 'd vst \<Rightarrow> 'd vst option" where
  "files_closeall T p s = do {
     assert_c (files_count (fstructs s p) > 0);
     files_closeall_loop T p [2..<FILES_STRUCT_NENTRY] s
   }"

fun dup_files_loop :: "nat \<Rightarrow> nat \<Rightarrow> nat list \<Rightarrow> 'd vst \<Rightarrow> 'd vst option" where
  "dup_files_loop to from [] s = Some s"
| "dup_files_loop to from (i # is) s = do {
     s \<leftarrow> (if status (fd_array s from i) = FD_OPENED
           then fd_array_dup (to, i) (from, i) (upd_file to i (\<lambda>f. f\<lparr>status := FD_INIT\<rparr>) s)
           else Some s);
     dup_files_loop to from is s
   }"

definition dup_files :: "nat \<Rightarrow> nat \<Rightarrow> 'd vst \<Rightarrow> (int \<times> 'd vst) option" where
  "dup_files to from s = do {
     assert_c (files_count (fstructs s to) = 0 \<and> files_count (fstructs s from) > 0);
     let d = pwd (fstructs s from);
     let s = upd_fstruct to (\<lambda>f. f\<lparr>pwd := d\<rparr>) s;
     let s = (case d of None \<Rightarrow> s | Some n \<Rightarrow> inode_ref_inc n s);
     s \<leftarrow> dup_files_loop to from [0..<FILES_STRUCT_NENTRY] s;
     Some (0, s)
   }"

end
