(* ===== verification/Dev.thy ===== *)
theory Dev
  imports Filetab
begin

section \<open>Disks and devices (kern/driver, kern/fs/devs)\<close>

text \<open>
  ide.c and ramdisk.c, dev_disk0.c, dev_stdin.c, dev_stdout.c and the device nodes of dev.c, with
  the state of the low layers: the component \<open>low\<close> of the file-system state. The disks are memory
  images; an access outside the image is \<open>None\<close>, as is a failed assertion or a panic.

  A reader of an empty \<open>stdin\<close> sleeps. What happens meanwhile is the next entry of \<open>kbd\<close>: the
  characters that \<open>dev_stdin_write\<close> receives before the reader runs again and the flags it is woken
  with; with no entry left it sleeps forever, \<open>None\<close>. \<open>console\<close> is what \<open>cputchar\<close> wrote, last
  byte first.
\<close>

subsection \<open>State\<close>

datatype dev_fun = StdinFun | StdoutFun | Disk0Fun

record device =
  d_blocks :: nat
  d_blocksize :: nat
  d_fun :: dev_fun

record sfs_super =
  magic :: "32 word"
  blocks :: "32 word"
  unused_blocks :: "32 word"
  info :: "byte list"

record sfs_disk_inode =
  di_size :: "32 word"
  di_type :: "16 word"
  di_nlinks :: "16 word"
  di_blocks :: "32 word"
  di_direct :: "32 word list"
  di_indirect :: "32 word"

record sfs_inode =
  din :: sfs_disk_inode
  din_at :: nat
  ino :: "32 word"
  dirty :: bool
  reclaim_count :: int
  sin_sem :: int

record bitmap =
  nbits :: "32 word"
  nwords :: "32 word"
  bits_at :: nat
  bm_at :: nat

record sfs_fs =
  super :: sfs_super
  sfs_dev :: nat
  freemap :: bitmap
  super_dirty :: bool
  sfs_buffer :: nat
  fs_sem :: int
  io_sem :: int
  mutex_sem :: int
  hash_at :: nat

datatype sfslink = InodeList nat | SfsHash nat nat | InodeLink nat | SinHash nat

record ide_device =
  ide_valid :: bool
  ide_size :: nat
  ide_data :: "nat \<Rightarrow> byte"

record klow =
  devs :: "nat \<Rightarrow> device"
  sins :: "nat \<Rightarrow> sfs_inode"
  sfss :: "nat \<Rightarrow> sfs_fs"
  slinks :: "sfslink links"
  ide_devices :: "nat \<Rightarrow> ide_device"
  disk0_buffer :: nat
  disk0_sem :: int
  stdin_buffer :: "nat \<Rightarrow> byte"
  p_rpos :: nat
  p_wpos :: nat
  kbd :: "(32 word \<times> byte list) list"
  console :: "byte list"

type_synonym kvst = "klow vst"

definition upd_low :: "(klow \<Rightarrow> klow) \<Rightarrow> kvst \<Rightarrow> kvst" where
  "upd_low f s = s\<lparr>low := f (low s)\<rparr>"

definition set_kbuf :: "cmem \<Rightarrow> 'd vst \<Rightarrow> 'd vst" where
  "set_kbuf m s = s\<lparr>kbuf := m\<rparr>"

subsection \<open>Disks (ide.c, ramdisk.c)\<close>

definition SECTSIZE :: nat where "SECTSIZE = 512"
definition SWAP_DEV_NO :: nat where "SWAP_DEV_NO = 1"
definition DISK0_DEV_NO :: nat where "DISK0_DEV_NO = 2"
definition MAX_IDE :: nat where "MAX_IDE = 4"
definition MAX_NSECS :: nat where "MAX_NSECS = 128"
definition MAX_DISK_NSECS :: nat where "MAX_DISK_NSECS = 0x10000000"

text \<open>The sectors a transfer touches: \<open>MIN (nsecs, size - secno)\<close> in unsigned arithmetic.\<close>

definition ramdisk_nsecs :: "ide_device \<Rightarrow> nat \<Rightarrow> nat \<Rightarrow> nat" where
  "ramdisk_nsecs d secno nsecs = min nsecs (unat (of_nat (ide_size d) - of_nat secno :: 64 word))"

definition ramdisk_read :: "ide_device \<Rightarrow> nat \<Rightarrow> nat \<Rightarrow> nat \<Rightarrow> cmem \<Rightarrow> (int \<times> cmem) option" where
  "ramdisk_read d secno dst nsecs m = do {
     let n = ramdisk_nsecs d secno nsecs;
     assert_c (secno + n \<le> ide_size d);
     m \<leftarrow> wr_bytes dst (map (ide_data d) [secno * SECTSIZE..<(secno + n) * SECTSIZE]) m;
     Some (0, m)
   }"

fun put_bytes :: "nat \<Rightarrow> byte list \<Rightarrow> (nat \<Rightarrow> byte) \<Rightarrow> nat \<Rightarrow> byte" where
  "put_bytes a [] f = f"
| "put_bytes a (b # bs) f = put_bytes (a + 1) bs (f(a := b))"

definition ramdisk_write :: "ide_device \<Rightarrow> nat \<Rightarrow> nat \<Rightarrow> nat \<Rightarrow> cmem \<Rightarrow> (int \<times> ide_device) option" where
  "ramdisk_write d secno src nsecs m = do {
     let n = ramdisk_nsecs d secno nsecs;
     assert_c (secno + n \<le> ide_size d);
     data \<leftarrow> rd_bytes src (n * SECTSIZE) m;
     Some (0, d\<lparr>ide_data := put_bytes (secno * SECTSIZE) data (ide_data d)\<rparr>)
   }"

definition VALID_IDE :: "nat \<Rightarrow> kvst \<Rightarrow> bool" where
  "VALID_IDE n s \<longleftrightarrow> n < MAX_IDE \<and> ide_valid (ide_devices (low s) n)"

definition ide_device_valid :: "nat \<Rightarrow> kvst \<Rightarrow> bool" where
  "ide_device_valid n s = VALID_IDE n s"

definition ide_device_size :: "nat \<Rightarrow> kvst \<Rightarrow> nat" where
  "ide_device_size n s = (if ide_device_valid n s then ide_size (ide_devices (low s) n) else 0)"

definition ide_read_secs :: "nat \<Rightarrow> 32 word \<Rightarrow> nat \<Rightarrow> nat \<Rightarrow> kvst \<Rightarrow> (int \<times> kvst) option" where
  "ide_read_secs n secno dst nsecs s = do {
     assert_c (nsecs \<le> MAX_NSECS \<and> VALID_IDE n s);
     assert_c (unat secno < MAX_DISK_NSECS \<and> unat secno + nsecs \<le> MAX_DISK_NSECS);
     (ret, m) \<leftarrow> ramdisk_read (ide_devices (low s) n) (unat secno) dst nsecs (kbuf s);
     Some (ret, set_kbuf m s)
   }"

definition ide_write_secs :: "nat \<Rightarrow> 32 word \<Rightarrow> nat \<Rightarrow> nat \<Rightarrow> kvst \<Rightarrow> (int \<times> kvst) option" where
  "ide_write_secs n secno src nsecs s = do {
     assert_c (nsecs \<le> MAX_NSECS \<and> VALID_IDE n s);
     assert_c (unat secno < MAX_DISK_NSECS \<and> unat secno + nsecs \<le> MAX_DISK_NSECS);
     (ret, d) \<leftarrow> ramdisk_write (ide_devices (low s) n) (unat secno) src nsecs (kbuf s);
     Some (ret, upd_low (\<lambda>l. l\<lparr>ide_devices := (ide_devices l)(n := d)\<rparr>) s)
   }"

subsection \<open>The device disk0\<close>

definition DISK0_BLKSIZE :: nat where "DISK0_BLKSIZE = 4096"
definition DISK0_BUFSIZE :: nat where "DISK0_BUFSIZE = 4 * DISK0_BLKSIZE"
definition DISK0_BLK_NSECT :: nat where "DISK0_BLK_NSECT = DISK0_BLKSIZE div SECTSIZE"

lemma DISK0_BLK_NSECT [simp]: "DISK0_BLK_NSECT = 8"
  by (simp add: DISK0_BLK_NSECT_def DISK0_BLKSIZE_def SECTSIZE_def)

definition lock_disk0 :: "kvst \<Rightarrow> kvst option" where
  "lock_disk0 s = do { assert_c (disk0_sem (low s) > 0); Some (upd_low (\<lambda>l. l\<lparr>disk0_sem := disk0_sem l - 1\<rparr>) s) }"

definition unlock_disk0 :: "kvst \<Rightarrow> kvst" where
  "unlock_disk0 s = upd_low (\<lambda>l. l\<lparr>disk0_sem := disk0_sem l + 1\<rparr>) s"

definition disk0_read_blks_nolock :: "32 word \<Rightarrow> 32 word \<Rightarrow> kvst \<Rightarrow> kvst option" where
  "disk0_read_blks_nolock blkno nblks s = do {
     let sectno = blkno * of_nat DISK0_BLK_NSECT;
     let nsecs = nblks * of_nat DISK0_BLK_NSECT;
     (ret, s) \<leftarrow> ide_read_secs DISK0_DEV_NO sectno (disk0_buffer (low s)) (unat nsecs) s;
     assert_c (ret = 0);
     Some s
   }"

definition disk0_write_blks_nolock :: "32 word \<Rightarrow> 32 word \<Rightarrow> kvst \<Rightarrow> kvst option" where
  "disk0_write_blks_nolock blkno nblks s = do {
     let sectno = blkno * of_nat DISK0_BLK_NSECT;
     let nsecs = nblks * of_nat DISK0_BLK_NSECT;
     (ret, s) \<leftarrow> ide_write_secs DISK0_DEV_NO sectno (disk0_buffer (low s)) (unat nsecs) s;
     assert_c (ret = 0);
     Some s
   }"

partial_function (option) disk0_io_loop ::
    "bool \<Rightarrow> nat \<Rightarrow> 32 word \<Rightarrow> iobuf \<Rightarrow> kvst \<Rightarrow> (iobuf \<times> kvst) option" where
  "disk0_io_loop write resid blkno iob s =
     (if resid = 0 then Some (iob, s)
      else if write then do {
        (_, data, iob) \<leftarrow> iobuf_move_out iob DISK0_BUFSIZE s;
        m \<leftarrow> wr_bytes (disk0_buffer (low s)) data (kbuf s);
        let s = set_kbuf m s;
        let copied = length data;
        assert_c (copied \<noteq> 0 \<and> copied \<le> resid \<and> copied mod DISK0_BLKSIZE = 0);
        let nblks = of_nat (copied div DISK0_BLKSIZE);
        s \<leftarrow> disk0_write_blks_nolock blkno nblks s;
        disk0_io_loop write (resid - copied) (blkno + nblks) iob s
      }
      else do {
        let alen = (if DISK0_BUFSIZE > resid then resid else DISK0_BUFSIZE);
        let nblks = of_nat (alen div DISK0_BLKSIZE);
        s \<leftarrow> disk0_read_blks_nolock blkno nblks s;
        data \<leftarrow> rd_bytes (disk0_buffer (low s)) alen (kbuf s);
        (_, copied, iob, s) \<leftarrow> iobuf_move_in iob data s;
        assert_c (copied = alen \<and> copied mod DISK0_BLKSIZE = 0);
        disk0_io_loop write (resid - copied) (blkno + nblks) iob s
      })"

definition disk0_io :: "device \<Rightarrow> iobuf \<Rightarrow> bool \<Rightarrow> kvst \<Rightarrow> (int \<times> iobuf \<times> kvst) option" where
  "disk0_io dev iob write s = do {
     let offset = io_offset iob;
     let resid = io_resid iob;
     let blkno = (word_of_int (sint offset div int DISK0_BLKSIZE) :: 32 word);
     let nblks = (of_nat (resid div DISK0_BLKSIZE) :: 32 word);
     if sint offset mod int DISK0_BLKSIZE \<noteq> 0 \<or> resid mod DISK0_BLKSIZE \<noteq> 0 then Some (- E_INVAL, iob, s)
     else if unat (blkno + nblks) > d_blocks dev then Some (- E_INVAL, iob, s)
     else if nblks = 0 then Some (0, iob, s)
     else do {
       s \<leftarrow> lock_disk0 s;
       (iob, s) \<leftarrow> disk0_io_loop write resid blkno iob s;
       Some (0, iob, unlock_disk0 s)
     }
   }"

declare disk0_io_loop.simps [code]

subsection \<open>The devices stdin and stdout\<close>

definition STDIN_BUFSIZE :: nat where "STDIN_BUFSIZE = 4096"

definition dev_stdin_write :: "byte \<Rightarrow> kvst \<Rightarrow> kvst" where
  "dev_stdin_write c s =
     (if c \<noteq> 0 then
        upd_low (\<lambda>l. l\<lparr>stdin_buffer := (stdin_buffer l)(p_wpos l mod STDIN_BUFSIZE := c),
          p_wpos := (if p_wpos l - p_rpos l < STDIN_BUFSIZE then p_wpos l + 1 else p_wpos l)\<rparr>) s
      else s)"

text \<open>One turn of the loop takes a character, or sleeps and then tries again or leaves the loop.\<close>

partial_function (option) stdin_loop :: "nat \<Rightarrow> nat \<Rightarrow> nat \<Rightarrow> kvst \<Rightarrow> (nat \<times> kvst) option" where
  "stdin_loop ret buf len s =
     (if ret < len then
        (if p_rpos (low s) < p_wpos (low s) then do {
           m \<leftarrow> wr buf (stdin_buffer (low s) (p_rpos (low s) mod STDIN_BUFSIZE)) (kbuf s);
           stdin_loop (ret + 1) (buf + 1) len (upd_low (\<lambda>l. l\<lparr>p_rpos := p_rpos l + 1\<rparr>) (set_kbuf m s))
         }
         else case kbd (low s) of
             [] \<Rightarrow> None
           | (fl, cs) # evs \<Rightarrow>
               let s = fold dev_stdin_write cs (upd_low (\<lambda>l. l\<lparr>kbd := evs\<rparr>) s)
               in if fl = WT_KBD then stdin_loop ret buf len s else Some (ret, s))
      else Some (ret, s))"

declare stdin_loop.simps [code]

definition dev_stdin_read :: "nat \<Rightarrow> nat \<Rightarrow> kvst \<Rightarrow> (nat \<times> kvst) option" where
  "dev_stdin_read buf len s = stdin_loop 0 buf len s"

definition stdin_io :: "iobuf \<Rightarrow> bool \<Rightarrow> kvst \<Rightarrow> (int \<times> iobuf \<times> kvst) option" where
  "stdin_io iob write s =
     (if \<not> write then do {
        (ret, s) \<leftarrow> dev_stdin_read (io_base iob) (io_resid iob) s;
        Some (int ret, (if ret > 0 then iob\<lparr>io_resid := io_resid iob - ret\<rparr> else iob), s)
      } else Some (- E_INVAL, iob, s))"

definition stdout_io :: "iobuf \<Rightarrow> bool \<Rightarrow> kvst \<Rightarrow> (int \<times> iobuf \<times> kvst) option" where
  "stdout_io iob write s =
     (if write then do {
        data \<leftarrow> rd_bytes (io_base iob) (io_resid iob) (kbuf s);
        Some (0, iob\<lparr>io_resid := 0\<rparr>, upd_low (\<lambda>l. l\<lparr>console := rev data @ console l\<rparr>) s)
      } else Some (- E_INVAL, iob, s))"

definition stdin_open :: "32 word \<Rightarrow> int" where
  "stdin_open open_flags = (if open_flags \<noteq> O_RDONLY then - E_INVAL else 0)"

definition stdout_open :: "32 word \<Rightarrow> int" where
  "stdout_open open_flags = (if open_flags \<noteq> O_WRONLY then - E_INVAL else 0)"

definition disk0_open :: "32 word \<Rightarrow> int" where "disk0_open open_flags = 0"
definition stdin_close :: int where "stdin_close = 0"
definition stdout_close :: int where "stdout_close = 0"
definition disk0_close :: int where "disk0_close = 0"
definition stdin_ioctl :: "int \<Rightarrow> int" where "stdin_ioctl op' = - E_INVAL"
definition stdout_ioctl :: "int \<Rightarrow> int" where "stdout_ioctl op' = - E_INVAL"
definition disk0_ioctl :: "int \<Rightarrow> int" where "disk0_ioctl op' = - E_UNIMP"

subsection \<open>Calls through a device\<close>

definition dop_open :: "device \<Rightarrow> 32 word \<Rightarrow> int" where
  "dop_open dev flags = (case d_fun dev of
     StdinFun \<Rightarrow> stdin_open flags | StdoutFun \<Rightarrow> stdout_open flags | Disk0Fun \<Rightarrow> disk0_open flags)"

definition dop_close :: "device \<Rightarrow> int" where
  "dop_close dev = (case d_fun dev of StdinFun \<Rightarrow> stdin_close | StdoutFun \<Rightarrow> stdout_close | Disk0Fun \<Rightarrow> disk0_close)"

definition dop_io :: "device \<Rightarrow> iobuf \<Rightarrow> bool \<Rightarrow> kvst \<Rightarrow> (int \<times> iobuf \<times> kvst) option" where
  "dop_io dev iob write s = (case d_fun dev of
     StdinFun \<Rightarrow> stdin_io iob write s | StdoutFun \<Rightarrow> stdout_io iob write s | Disk0Fun \<Rightarrow> disk0_io dev iob write s)"

definition dop_ioctl :: "device \<Rightarrow> int \<Rightarrow> int" where
  "dop_ioctl dev op' = (case d_fun dev of
     StdinFun \<Rightarrow> stdin_ioctl op' | StdoutFun \<Rightarrow> stdout_ioctl op' | Disk0Fun \<Rightarrow> disk0_ioctl op')"

subsection \<open>Device nodes (dev.c)\<close>

definition S_IFLNK :: "32 word" where "S_IFLNK = 0x3000"
definition S_IFCHR :: "32 word" where "S_IFCHR = 0x4000"
definition S_IFBLK :: "32 word" where "S_IFBLK = 0x5000"

text \<open>The numbers of the operation tables: \<open>dev_node_ops\<close>, \<open>sfs_node_dirops\<close>, \<open>sfs_node_fileops\<close>.\<close>

definition DEV_OPS :: nat where "DEV_OPS = 0"
definition SFS_DIROPS :: nat where "SFS_DIROPS = 1"
definition SFS_FILEOPS :: nat where "SFS_FILEOPS = 2"

definition no_ops :: "'d inode_ops" where
  "no_ops = \<lparr>op_open = None, op_close = None, op_read = None, op_write = None, op_fstat = None, op_fsync = None,
     op_namefile = None, op_getdirentry = None, op_reclaim = None, op_gettype = None, op_tryseek = None,
     op_truncate = None, op_create = None, op_lookup = None, op_ioctl = None\<rparr>"

definition dev_info :: "nat \<Rightarrow> kvst \<Rightarrow> device option" where
  "dev_info n s = do { assert_c (in_type (inodes s n) = inode_type_device_info); Some (devs (low s) n) }"

definition dev_open :: "nat \<Rightarrow> 32 word \<Rightarrow> kvst \<Rightarrow> (int \<times> kvst) option" where
  "dev_open n flags s =
     (if flags AND (O_CREAT OR O_TRUNC OR O_EXCL OR O_APPEND) \<noteq> 0 then Some (- E_INVAL, s)
      else do { dev \<leftarrow> dev_info n s; Some (dop_open dev flags, s) })"

definition dev_close :: "nat \<Rightarrow> kvst \<Rightarrow> (int \<times> kvst) option" where
  "dev_close n s = do { dev \<leftarrow> dev_info n s; Some (dop_close dev, s) }"

definition dev_read :: "nat \<Rightarrow> iobuf \<Rightarrow> kvst \<Rightarrow> (int \<times> iobuf \<times> kvst) option" where
  "dev_read n iob s = do { dev \<leftarrow> dev_info n s; dop_io dev iob False s }"

definition dev_write :: "nat \<Rightarrow> iobuf \<Rightarrow> kvst \<Rightarrow> (int \<times> iobuf \<times> kvst) option" where
  "dev_write n iob s = do { dev \<leftarrow> dev_info n s; dop_io dev iob True s }"

definition dev_ioctl :: "nat \<Rightarrow> int \<Rightarrow> nat \<Rightarrow> kvst \<Rightarrow> (int \<times> kvst) option" where
  "dev_ioctl n op' data s = do { dev \<leftarrow> dev_info n s; Some (dop_ioctl dev op', s) }"

definition dev_gettype :: "nat \<Rightarrow> kvst \<Rightarrow> (int \<times> 32 word \<times> kvst) option" where
  "dev_gettype n s = do { dev \<leftarrow> dev_info n s; Some (0, if d_blocks dev > 0 then S_IFBLK else S_IFCHR, s) }"

definition dev_fstat :: "nat \<Rightarrow> kvst \<Rightarrow> (int \<times> stat \<times> kvst) option" where
  "dev_fstat n s = do {
     let T = \<lparr>itab = (\<lambda>k. if k = DEV_OPS then no_ops\<lparr>op_gettype := Some dev_gettype\<rparr> else no_ops), ftab = undefined\<rparr>;
     f \<leftarrow> vop T op_gettype n s;
     (ret, mode, s) \<leftarrow> f n s;
     if ret \<noteq> 0 then Some (ret, \<lparr>st_mode = mode, st_nlinks = 0, st_blocks = 0, st_size = 0\<rparr>, s)
     else do {
       dev \<leftarrow> dev_info n s;
       Some (0, \<lparr>st_mode = mode, st_nlinks = 1, st_blocks = d_blocks dev,
                 st_size = d_blocks dev * d_blocksize dev\<rparr>, s)
     }
   }"

text \<open>\<open>pos\<close> is signed, \<open>d_blocksize\<close> unsigned: the remainder is taken of the unsigned offset.\<close>

definition dev_tryseek :: "nat \<Rightarrow> 64 word \<Rightarrow> kvst \<Rightarrow> (int \<times> kvst) option" where
  "dev_tryseek n p s = do {
     dev \<leftarrow> dev_info n s;
     Some (if d_blocks dev > 0 \<and> unat p mod d_blocksize dev = 0 \<and>
              sint p \<ge> 0 \<and> unat p < d_blocks dev * d_blocksize dev
           then 0 else - E_INVAL, s)
   }"

definition dev_lookup :: "nat \<Rightarrow> string \<Rightarrow> kvst \<Rightarrow> (int \<times> nat option \<times> kvst) option" where
  "dev_lookup n path s =
     (if path \<noteq> [] then Some (- E_NOENT, None, s) else Some (0, Some n, inode_ref_inc n s))"

definition dev_node_ops :: "klow inode_ops" where
  "dev_node_ops = no_ops\<lparr>op_open := Some dev_open, op_close := Some dev_close, op_read := Some dev_read,
     op_write := Some dev_write, op_fstat := Some dev_fstat, op_ioctl := Some dev_ioctl,
     op_gettype := Some dev_gettype, op_tryseek := Some dev_tryseek, op_lookup := Some dev_lookup\<rparr>"

definition dev_create_inode :: "kvst \<Rightarrow> nat option \<times> kvst" where
  "dev_create_inode s =
     (case alloc_inode inode_type_device_info s of
        (None, s) \<Rightarrow> (None, s)
      | (Some n, s) \<Rightarrow> (Some n, inode_init n DEV_OPS None s))"

definition set_dev :: "nat \<Rightarrow> device \<Rightarrow> kvst \<Rightarrow> kvst" where
  "set_dev n d s = upd_low (\<lambda>l. l\<lparr>devs := (devs l)(n := d)\<rparr>) s"

definition stdin_device_init :: "nat \<Rightarrow> kvst \<Rightarrow> kvst" where
  "stdin_device_init n s =
     upd_low (\<lambda>l. l\<lparr>p_rpos := 0, p_wpos := 0\<rparr>) (set_dev n \<lparr>d_blocks = 0, d_blocksize = 1, d_fun = StdinFun\<rparr> s)"

definition stdout_device_init :: "nat \<Rightarrow> kvst \<Rightarrow> kvst" where
  "stdout_device_init n s = set_dev n \<lparr>d_blocks = 0, d_blocksize = 1, d_fun = StdoutFun\<rparr> s"

definition disk0_device_init :: "nat \<Rightarrow> kvst \<Rightarrow> kvst option" where
  "disk0_device_init n s = do {
     assert_c (ide_device_valid DISK0_DEV_NO s);
     let s = set_dev n \<lparr>d_blocks = ide_device_size DISK0_DEV_NO s div DISK0_BLK_NSECT,
               d_blocksize = DISK0_BLKSIZE, d_fun = Disk0Fun\<rparr> s;
     let s = upd_low (\<lambda>l. l\<lparr>disk0_sem := 1\<rparr>) s;
     case vmalloc s of (None, _) \<Rightarrow> None | (Some a, s) \<Rightarrow> Some (upd_low (\<lambda>l. l\<lparr>disk0_buffer := a\<rparr>) s)
   }"

definition dev_init_stdin :: "kvst \<Rightarrow> kvst option" where
  "dev_init_stdin s = (case dev_create_inode s of
      (None, _) \<Rightarrow> None
    | (Some n, s) \<Rightarrow> do {
        (ret, s) \<leftarrow> vfs_add_dev ''stdin'' n False (stdin_device_init n s);
        assert_c (ret = 0);
        Some s
      })"

definition dev_init_stdout :: "kvst \<Rightarrow> kvst option" where
  "dev_init_stdout s = (case dev_create_inode s of
      (None, _) \<Rightarrow> None
    | (Some n, s) \<Rightarrow> do {
        (ret, s) \<leftarrow> vfs_add_dev ''stdout'' n False (stdout_device_init n s);
        assert_c (ret = 0);
        Some s
      })"

definition dev_init_disk0 :: "kvst \<Rightarrow> kvst option" where
  "dev_init_disk0 s = (case dev_create_inode s of
      (None, _) \<Rightarrow> None
    | (Some n, s) \<Rightarrow> do {
        s \<leftarrow> disk0_device_init n s;
        (ret, s) \<leftarrow> vfs_add_dev ''disk0'' n True s;
        assert_c (ret = 0);
        Some s
      })"

definition dev_init :: "kvst \<Rightarrow> kvst option" where
  "dev_init s = do { s \<leftarrow> dev_init_stdin s; s \<leftarrow> dev_init_stdout s; dev_init_disk0 s }"

end
