(* ===== verification/SfsIo.thy ===== *)
theory SfsIo
  imports Dev PrintFmt
begin

section \<open>Blocks and the free map of the simple file system (kern/fs/sfs)\<close>

text \<open>
  sfs.h, bitmap.c, sfs_lock.c, sfs_io.c: the on-disk structures as bytes, the free map, whose bits
  lie in kernel memory at \<open>bits_at\<close>, and the transfer of whole blocks and of parts of a block
  through \<open>sfs_buffer\<close>. A \<open>struct sfs_fs *\<close> is the number \<open>f\<close> of the file system. Data that the
  code reads into or writes from a kernel variable is a list of bytes.
\<close>

subsection \<open>Constants\<close>

definition SFS_MAGIC :: "32 word" where "SFS_MAGIC = 0x2f8dbe2a"
definition SFS_BLKSIZE :: nat where "SFS_BLKSIZE = 4096"
definition SFS_NDIRECT :: nat where "SFS_NDIRECT = 12"
definition SFS_MAX_INFO_LEN :: nat where "SFS_MAX_INFO_LEN = 31"
definition SFS_MAX_FNAME_LEN :: nat where "SFS_MAX_FNAME_LEN = FS_MAX_FNAME_LEN"
definition SFS_MAX_FILE_SIZE :: nat where "SFS_MAX_FILE_SIZE = 1024 * 1024 * 128"
definition SFS_BLKN_SUPER :: "32 word" where "SFS_BLKN_SUPER = 0"
definition SFS_BLKN_ROOT :: "32 word" where "SFS_BLKN_ROOT = 1"
definition SFS_BLKN_FREEMAP :: "32 word" where "SFS_BLKN_FREEMAP = 2"
definition SFS_BLKBITS :: nat where "SFS_BLKBITS = SFS_BLKSIZE * 8"
definition SFS_BLK_NENTRY :: nat where "SFS_BLK_NENTRY = SFS_BLKSIZE div 4"
definition SFS_TYPE_FILE :: "16 word" where "SFS_TYPE_FILE = 1"
definition SFS_TYPE_DIR :: "16 word" where "SFS_TYPE_DIR = 2"
definition SFS_TYPE_LINK :: "16 word" where "SFS_TYPE_LINK = 3"
definition SFS_HLIST_SHIFT :: nat where "SFS_HLIST_SHIFT = 10"

definition sin_hashfn :: "32 word \<Rightarrow> nat option" where
  "sin_hashfn x = do { h \<leftarrow> hash32 x SFS_HLIST_SHIFT; Some (unat h) }"

definition ROUNDUP_DIV :: "nat \<Rightarrow> nat \<Rightarrow> nat" where
  "ROUNDUP_DIV a n = (a + n - 1) div n"

definition sfs_freemap_bits :: "sfs_super \<Rightarrow> 32 word" where
  "sfs_freemap_bits sp = of_nat (ROUNDUP_DIV (unat (blocks sp)) SFS_BLKBITS * SFS_BLKBITS)"

definition sfs_freemap_blocks :: "sfs_super \<Rightarrow> 32 word" where
  "sfs_freemap_blocks sp = of_nat (ROUNDUP_DIV (unat (blocks sp)) SFS_BLKBITS)"

subsection \<open>Bytes of the on-disk structures\<close>

definition le16 :: "16 word \<Rightarrow> byte list" where
  "le16 w = [ucast w, ucast (drop_bit 8 w)]"

definition le32 :: "32 word \<Rightarrow> byte list" where
  "le32 w = [ucast w, ucast (drop_bit 8 w), ucast (drop_bit 16 w), ucast (drop_bit 24 w)]"

definition un16 :: "byte list \<Rightarrow> 16 word" where
  "un16 bs = (case bs of a # b # _ \<Rightarrow> ucast a OR push_bit 8 (ucast b) | _ \<Rightarrow> 0)"

definition un32 :: "byte list \<Rightarrow> 32 word" where
  "un32 bs = (case bs of
     a # b # c # d # _ \<Rightarrow> ucast a OR push_bit 8 (ucast b) OR push_bit 16 (ucast c) OR push_bit 24 (ucast d)
   | _ \<Rightarrow> 0)"

definition din_bytes :: "sfs_disk_inode \<Rightarrow> byte list" where
  "din_bytes d = le32 (di_size d) @ le16 (di_type d) @ le16 (di_nlinks d) @ le32 (di_blocks d) @
     concat (map le32 (di_direct d)) @ le32 (di_indirect d)"

definition din_of_bytes :: "byte list \<Rightarrow> sfs_disk_inode" where
  "din_of_bytes bs = \<lparr>di_size = un32 bs, di_type = un16 (drop 4 bs), di_nlinks = un16 (drop 6 bs),
     di_blocks = un32 (drop 8 bs), di_direct = map (\<lambda>i. un32 (drop (12 + 4 * i) bs)) [0..<SFS_NDIRECT],
     di_indirect = un32 (drop 60 bs)\<rparr>"

definition DIN_SIZE :: nat where "DIN_SIZE = 64"

record sfs_disk_entry =
  ent_ino :: "32 word"
  ent_name :: "byte list"

definition ENTRY_SIZE :: nat where "ENTRY_SIZE = 4 + (SFS_MAX_FNAME_LEN + 1)"

definition entry_of_bytes :: "byte list \<Rightarrow> sfs_disk_entry" where
  "entry_of_bytes bs = \<lparr>ent_ino = un32 bs, ent_name = drop 4 bs\<rparr>"

definition cstring :: "byte list \<Rightarrow> string" where
  "cstring bs = map (\<lambda>b. char_of (unat b)) (takeWhile (\<lambda>b. b \<noteq> 0) bs)"

definition super_bytes :: "sfs_super \<Rightarrow> byte list" where
  "super_bytes sp = le32 (magic sp) @ le32 (blocks sp) @ le32 (unused_blocks sp) @ info sp"

definition super_of_bytes :: "byte list \<Rightarrow> sfs_super" where
  "super_of_bytes bs = \<lparr>magic = un32 bs, blocks = un32 (drop 4 bs), unused_blocks = un32 (drop 8 bs),
     info = drop 12 bs\<rparr>"

definition SUPER_SIZE :: nat where "SUPER_SIZE = 12 + (SFS_MAX_INFO_LEN + 1)"

subsection \<open>State access\<close>

definition upd_sfs :: "nat \<Rightarrow> (sfs_fs \<Rightarrow> sfs_fs) \<Rightarrow> kvst \<Rightarrow> kvst" where
  "upd_sfs f g s = upd_low (\<lambda>l. l\<lparr>sfss := (sfss l)(f := g (sfss l f))\<rparr>) s"

definition upd_sin :: "nat \<Rightarrow> (sfs_inode \<Rightarrow> sfs_inode) \<Rightarrow> kvst \<Rightarrow> kvst" where
  "upd_sin n g s = upd_low (\<lambda>l. l\<lparr>sins := (sins l)(n := g (sins l n))\<rparr>) s"

definition upd_din :: "nat \<Rightarrow> (sfs_disk_inode \<Rightarrow> sfs_disk_inode) \<Rightarrow> kvst \<Rightarrow> kvst" where
  "upd_din n g s = upd_sin n (\<lambda>i. i\<lparr>din := g (din i)\<rparr>) s"

abbreviation fs_of :: "kvst \<Rightarrow> nat \<Rightarrow> sfs_fs" where "fs_of s f \<equiv> sfss (low s) f"
abbreviation sin_of :: "kvst \<Rightarrow> nat \<Rightarrow> sfs_inode" where "sin_of s n \<equiv> sins (low s) n"
abbreviation din_of :: "kvst \<Rightarrow> nat \<Rightarrow> sfs_disk_inode" where "din_of s n \<equiv> din (sins (low s) n)"

subsection \<open>The free map (bitmap.c)\<close>

definition WORD_BITS :: nat where "WORD_BITS = 32"

definition ld32 :: "nat \<Rightarrow> cmem \<Rightarrow> 32 word option" where
  "ld32 a m = do { bs \<leftarrow> rd_bytes a 4 m; Some (un32 bs) }"

definition st32 :: "nat \<Rightarrow> 32 word \<Rightarrow> cmem \<Rightarrow> cmem option" where
  "st32 a w m = wr_bytes a (le32 w) m"

fun bitmap_overbits :: "nat \<Rightarrow> nat list \<Rightarrow> cmem \<Rightarrow> cmem option" where
  "bitmap_overbits a [] m = Some m"
| "bitmap_overbits a (o' # os) m = do {
     w \<leftarrow> ld32 a m;
     m \<leftarrow> st32 a (w XOR push_bit o' 1) m;
     bitmap_overbits a os m
   }"

definition bitmap_create :: "32 word \<Rightarrow> kvst \<Rightarrow> (bitmap option \<times> kvst) option" where
  "bitmap_create nb s = do {
     assert_c (nb \<noteq> 0 \<and> unat nb + WORD_BITS > unat nb);
     case vmalloc s of
       (None, s) \<Rightarrow> Some (None, s)
     | (Some b, s) \<Rightarrow> do {
         let nw = ROUNDUP_DIV (unat nb) WORD_BITS;
         case vmalloc s of
           (None, s) \<Rightarrow> Some (None, vfree b s)
         | (Some a, s) \<Rightarrow> do {
             m \<leftarrow> memset a 0xFF (4 * nw) (kbuf s);
             m \<leftarrow> (if unat nb \<noteq> nw * WORD_BITS then do {
                 let ix = nw - 1;
                 let overbits = unat nb - ix * WORD_BITS;
                 assert_c (unat nb div WORD_BITS = ix);
                 assert_c (overbits > 0 \<and> overbits < WORD_BITS);
                 bitmap_overbits (a + 4 * ix) [overbits..<WORD_BITS] m
               } else Some m);
             Some (Some \<lparr>nbits = nb, nwords = of_nat nw, bits_at = a, bm_at = b\<rparr>, set_kbuf m s)
           }
       }
   }"

text \<open>The result: return value, the index when one is stored, memory.\<close>

fun bitmap_alloc_loop :: "nat \<Rightarrow> nat list \<Rightarrow> cmem \<Rightarrow> (int \<times> 32 word option \<times> cmem) option" where
  "bitmap_alloc_loop a [] m = Some (- E_NO_MEM, None, m)"
| "bitmap_alloc_loop a (ix # ixs) m = do {
     w \<leftarrow> ld32 (a + 4 * ix) m;
     if w \<noteq> 0 then
       (case List.find (\<lambda>offset. w AND push_bit offset 1 \<noteq> 0) [0..<WORD_BITS] of
          None \<Rightarrow> None
        | Some offset \<Rightarrow> do {
            m \<leftarrow> st32 (a + 4 * ix) (w XOR push_bit offset 1) m;
            Some (0, Some (of_nat (ix * WORD_BITS + offset)), m)
          })
     else bitmap_alloc_loop a ixs m
   }"

definition bitmap_alloc :: "bitmap \<Rightarrow> cmem \<Rightarrow> (int \<times> 32 word option \<times> cmem) option" where
  "bitmap_alloc b m = bitmap_alloc_loop (bits_at b) [0..<unat (nwords b)] m"

text \<open>Address of the word and the mask.\<close>

definition bitmap_translate :: "bitmap \<Rightarrow> 32 word \<Rightarrow> (nat \<times> 32 word) option" where
  "bitmap_translate b index = do {
     assert_c (index < nbits b);
     Some (bits_at b + 4 * (unat index div WORD_BITS), push_bit (unat index mod WORD_BITS) 1)
   }"

definition bitmap_test :: "bitmap \<Rightarrow> 32 word \<Rightarrow> cmem \<Rightarrow> bool option" where
  "bitmap_test b index m = do {
     (a, mask) \<leftarrow> bitmap_translate b index;
     w \<leftarrow> ld32 a m;
     Some (w AND mask \<noteq> 0)
   }"

definition bitmap_free :: "bitmap \<Rightarrow> 32 word \<Rightarrow> cmem \<Rightarrow> cmem option" where
  "bitmap_free b index m = do {
     (a, mask) \<leftarrow> bitmap_translate b index;
     w \<leftarrow> ld32 a m;
     assert_c (w AND mask = 0);
     st32 a (w OR mask) m
   }"

definition bitmap_destroy :: "bitmap \<Rightarrow> kvst \<Rightarrow> kvst" where
  "bitmap_destroy b s = vfree (bm_at b) (vfree (bits_at b) s)"

text \<open>The address of the bits and their length in bytes.\<close>

definition bitmap_getdata :: "bitmap \<Rightarrow> nat \<times> nat" where
  "bitmap_getdata b = (bits_at b, 4 * unat (nwords b))"

subsection \<open>Locks (sfs_lock.c)\<close>

definition lock_sfs_fs :: "nat \<Rightarrow> kvst \<Rightarrow> kvst option" where
  "lock_sfs_fs f s = do { assert_c (fs_sem (fs_of s f) > 0); Some (upd_sfs f (\<lambda>x. x\<lparr>fs_sem := fs_sem x - 1\<rparr>) s) }"

definition lock_sfs_io :: "nat \<Rightarrow> kvst \<Rightarrow> kvst option" where
  "lock_sfs_io f s = do { assert_c (io_sem (fs_of s f) > 0); Some (upd_sfs f (\<lambda>x. x\<lparr>io_sem := io_sem x - 1\<rparr>) s) }"

definition unlock_sfs_fs :: "nat \<Rightarrow> kvst \<Rightarrow> kvst" where
  "unlock_sfs_fs f s = upd_sfs f (\<lambda>x. x\<lparr>fs_sem := fs_sem x + 1\<rparr>) s"

definition unlock_sfs_io :: "nat \<Rightarrow> kvst \<Rightarrow> kvst" where
  "unlock_sfs_io f s = upd_sfs f (\<lambda>x. x\<lparr>io_sem := io_sem x + 1\<rparr>) s"

subsection \<open>Block transfers (sfs_io.c)\<close>

text \<open>The byte offset of a block is computed in 32 bits.\<close>

definition sfs_rwblock_nolock :: "nat \<Rightarrow> nat \<Rightarrow> 32 word \<Rightarrow> bool \<Rightarrow> bool \<Rightarrow> kvst \<Rightarrow> (int \<times> kvst) option" where
  "sfs_rwblock_nolock f buf blkno write check s = do {
     assert_c ((blkno \<noteq> 0 \<or> \<not> check) \<and> blkno < blocks (super (fs_of s f)));
     let iob = iobuf_init buf SFS_BLKSIZE (ucast (blkno * of_nat SFS_BLKSIZE));
     (ret, _, s) \<leftarrow> dop_io (devs (low s) (sfs_dev (fs_of s f))) iob write s;
     Some (ret, s)
   }"

fun sfs_rwblock_loop :: "nat \<Rightarrow> nat \<Rightarrow> 32 word \<Rightarrow> nat \<Rightarrow> bool \<Rightarrow> kvst \<Rightarrow> (int \<times> kvst) option" where
  "sfs_rwblock_loop f buf blkno 0 write s = Some (0, s)"
| "sfs_rwblock_loop f buf blkno (Suc nblks) write s = do {
     (ret, s) \<leftarrow> sfs_rwblock_nolock f buf blkno write True s;
     if ret \<noteq> 0 then Some (ret, s)
     else sfs_rwblock_loop f (buf + SFS_BLKSIZE) (blkno + 1) nblks write s
   }"

definition sfs_rwblock :: "nat \<Rightarrow> nat \<Rightarrow> 32 word \<Rightarrow> 32 word \<Rightarrow> bool \<Rightarrow> kvst \<Rightarrow> (int \<times> kvst) option" where
  "sfs_rwblock f buf blkno nblks write s = do {
     s \<leftarrow> lock_sfs_io f s;
     (ret, s) \<leftarrow> sfs_rwblock_loop f buf blkno (unat nblks) write s;
     Some (ret, unlock_sfs_io f s)
   }"

definition sfs_rblock :: "nat \<Rightarrow> nat \<Rightarrow> 32 word \<Rightarrow> 32 word \<Rightarrow> kvst \<Rightarrow> (int \<times> kvst) option" where
  "sfs_rblock f buf blkno nblks s = sfs_rwblock f buf blkno nblks False s"

definition sfs_wblock :: "nat \<Rightarrow> nat \<Rightarrow> 32 word \<Rightarrow> 32 word \<Rightarrow> kvst \<Rightarrow> (int \<times> kvst) option" where
  "sfs_wblock f buf blkno nblks s = sfs_rwblock f buf blkno nblks True s"

text \<open>The bytes are the ones \<open>memcpy\<close> copies to the caller's buffer; none on an error.\<close>

definition sfs_rbuf :: "nat \<Rightarrow> nat \<Rightarrow> 32 word \<Rightarrow> nat \<Rightarrow> kvst \<Rightarrow> (int \<times> byte list \<times> kvst) option" where
  "sfs_rbuf f len blkno offset s = do {
     assert_c (offset < SFS_BLKSIZE \<and> offset + len \<le> SFS_BLKSIZE);
     s \<leftarrow> lock_sfs_io f s;
     (ret, s) \<leftarrow> sfs_rwblock_nolock f (sfs_buffer (fs_of s f)) blkno False True s;
     data \<leftarrow> (if ret = 0 then rd_bytes (sfs_buffer (fs_of s f) + offset) len (kbuf s) else Some []);
     Some (ret, data, unlock_sfs_io f s)
   }"

definition sfs_wbuf :: "nat \<Rightarrow> byte list \<Rightarrow> 32 word \<Rightarrow> nat \<Rightarrow> kvst \<Rightarrow> (int \<times> kvst) option" where
  "sfs_wbuf f data blkno offset s = do {
     assert_c (offset < SFS_BLKSIZE \<and> offset + length data \<le> SFS_BLKSIZE);
     s \<leftarrow> lock_sfs_io f s;
     (ret, s) \<leftarrow> sfs_rwblock_nolock f (sfs_buffer (fs_of s f)) blkno False True s;
     (ret, s) \<leftarrow> (if ret = 0 then do {
         m \<leftarrow> wr_bytes (sfs_buffer (fs_of s f) + offset) data (kbuf s);
         let s = set_kbuf m s;
         sfs_rwblock_nolock f (sfs_buffer (fs_of s f)) blkno True True s
       } else Some (ret, s));
     Some (ret, unlock_sfs_io f s)
   }"

definition sfs_sync_super :: "nat \<Rightarrow> kvst \<Rightarrow> (int \<times> kvst) option" where
  "sfs_sync_super f s = do {
     s \<leftarrow> lock_sfs_io f s;
     m \<leftarrow> memset (sfs_buffer (fs_of s f)) 0 SFS_BLKSIZE (kbuf s);
     m \<leftarrow> wr_bytes (sfs_buffer (fs_of s f)) (super_bytes (super (fs_of s f))) m;
     (ret, s) \<leftarrow> sfs_rwblock_nolock f (sfs_buffer (fs_of s f)) SFS_BLKN_SUPER True False (set_kbuf m s);
     Some (ret, unlock_sfs_io f s)
   }"

definition sfs_sync_freemap :: "nat \<Rightarrow> kvst \<Rightarrow> (int \<times> kvst) option" where
  "sfs_sync_freemap f s =
     sfs_wblock f (fst (bitmap_getdata (freemap (fs_of s f)))) SFS_BLKN_FREEMAP
       (sfs_freemap_blocks (super (fs_of s f))) s"

fun sfs_clear_loop :: "nat \<Rightarrow> 32 word \<Rightarrow> nat \<Rightarrow> kvst \<Rightarrow> (int \<times> kvst) option" where
  "sfs_clear_loop f blkno 0 s = Some (0, s)"
| "sfs_clear_loop f blkno (Suc nblks) s = do {
     (ret, s) \<leftarrow> sfs_rwblock_nolock f (sfs_buffer (fs_of s f)) blkno True True s;
     if ret \<noteq> 0 then Some (ret, s) else sfs_clear_loop f (blkno + 1) nblks s
   }"

text \<open>With no block to clear the code returns an uninitialised variable.\<close>

definition sfs_clear_block :: "nat \<Rightarrow> 32 word \<Rightarrow> 32 word \<Rightarrow> kvst \<Rightarrow> (int \<times> kvst) option" where
  "sfs_clear_block f blkno nblks s = do {
     s \<leftarrow> lock_sfs_io f s;
     m \<leftarrow> memset (sfs_buffer (fs_of s f)) 0 SFS_BLKSIZE (kbuf s);
     assert_c (nblks \<noteq> 0);
     (ret, s) \<leftarrow> sfs_clear_loop f blkno (unat nblks) (set_kbuf m s);
     Some (ret, unlock_sfs_io f s)
   }"

end
