(* ===== verification/Sfs.thy ===== *)
theory Sfs
  imports SfsIo
begin

section \<open>Files and directories of the simple file system (sfs_inode.c)\<close>

text \<open>
  A \<open>struct sfs_inode *\<close> is the number of the inode node it lies in; its file system is \<open>in_fs\<close> of
  that node. An operation returns, after its return value, what it stored through its pointers.
\<close>

definition lock_sin :: "nat \<Rightarrow> kvst \<Rightarrow> kvst option" where
  "lock_sin n s = do { assert_c (sin_sem (sin_of s n) > 0); Some (upd_sin n (\<lambda>i. i\<lparr>sin_sem := sin_sem i - 1\<rparr>) s) }"

definition unlock_sin :: "nat \<Rightarrow> kvst \<Rightarrow> kvst" where
  "unlock_sin n s = upd_sin n (\<lambda>i. i\<lparr>sin_sem := sin_sem i + 1\<rparr>) s"

definition sfs_get_ops :: "16 word \<Rightarrow> nat option" where
  "sfs_get_ops type =
     (if type = SFS_TYPE_DIR then Some SFS_DIROPS else if type = SFS_TYPE_FILE then Some SFS_FILEOPS else None)"

definition sfs_info :: "nat \<Rightarrow> kvst \<Rightarrow> nat option" where
  "sfs_info n s = do { assert_c (in_type (inodes s n) = inode_type_sfs_inode_info); in_fs (inodes s n) }"

definition sfs_hash_list :: "nat \<Rightarrow> 32 word \<Rightarrow> sfslink option" where
  "sfs_hash_list f i = do { h \<leftarrow> sin_hashfn i; Some (SfsHash f h) }"

definition upd_slinks :: "(sfslink links \<Rightarrow> sfslink links) \<Rightarrow> kvst \<Rightarrow> kvst" where
  "upd_slinks g s = upd_low (\<lambda>l. l\<lparr>slinks := g (slinks l)\<rparr>) s"

definition sfs_set_links :: "nat \<Rightarrow> nat \<Rightarrow> kvst \<Rightarrow> kvst option" where
  "sfs_set_links f n s = do {
     let s = upd_slinks (list_add (InodeList f) (InodeLink n)) s;
     h \<leftarrow> sfs_hash_list f (ino (sin_of s n));
     Some (upd_slinks (list_add h (SinHash n)) s)
   }"

definition sfs_remove_links :: "nat \<Rightarrow> kvst \<Rightarrow> kvst" where
  "sfs_remove_links n s = upd_slinks (list_del (SinHash n)) (upd_slinks (list_del (InodeLink n)) s)"

subsection \<open>Blocks\<close>

definition sfs_block_inuse :: "nat \<Rightarrow> 32 word \<Rightarrow> kvst \<Rightarrow> bool option" where
  "sfs_block_inuse f i s =
     (if i \<noteq> 0 \<and> i < blocks (super (fs_of s f)) then do {
        b \<leftarrow> bitmap_test (freemap (fs_of s f)) i (kbuf s);
        Some (\<not> b)
      } else None)"

definition assert_inuse :: "nat \<Rightarrow> 32 word \<Rightarrow> kvst \<Rightarrow> unit option" where
  "assert_inuse f i s = do { b \<leftarrow> sfs_block_inuse f i s; assert_c b }"

definition sfs_block_alloc :: "nat \<Rightarrow> kvst \<Rightarrow> (int \<times> 32 word \<times> kvst) option" where
  "sfs_block_alloc f s = do {
     (ret, x, m) \<leftarrow> bitmap_alloc (freemap (fs_of s f)) (kbuf s);
     let s = set_kbuf m s;
     if ret \<noteq> 0 then Some (ret, 0, s)
     else do {
       i \<leftarrow> x;
       assert_c (unused_blocks (super (fs_of s f)) > 0);
       let s = upd_sfs f (\<lambda>a. a\<lparr>super := (super a)\<lparr>unused_blocks := unused_blocks (super a) - 1\<rparr>, super_dirty := True\<rparr>) s;
       assert_inuse f i s;
       (ret, s) \<leftarrow> sfs_clear_block f i 1 s;
       Some (ret, i, s)
     }
   }"

definition sfs_block_free :: "nat \<Rightarrow> 32 word \<Rightarrow> kvst \<Rightarrow> kvst option" where
  "sfs_block_free f i s = do {
     assert_inuse f i s;
     m \<leftarrow> bitmap_free (freemap (fs_of s f)) i (kbuf s);
     let s = set_kbuf m s;
     Some (upd_sfs f (\<lambda>a. a\<lparr>super := (super a)\<lparr>unused_blocks := unused_blocks (super a) + 1\<rparr>, super_dirty := True\<rparr>) s)
   }"

subsection \<open>Inodes in memory\<close>

definition sfs_create_inode :: "nat \<Rightarrow> nat \<Rightarrow> sfs_disk_inode \<Rightarrow> 32 word \<Rightarrow> kvst \<Rightarrow> (int \<times> nat option \<times> kvst) option" where
  "sfs_create_inode f a d i s =
     (case alloc_inode inode_type_sfs_inode_info s of
        (None, s) \<Rightarrow> Some (- E_NO_MEM, None, s)
      | (Some n, s) \<Rightarrow> do {
          ops \<leftarrow> sfs_get_ops (di_type d);
          let s = inode_init n ops (Some f) s;
          let s = upd_sin n (\<lambda>_. \<lparr>din = d, din_at = a, ino = i, dirty = False, reclaim_count = 1, sin_sem = 1\<rparr>) s;
          Some (0, Some n, s)
        })"

fun le2sin :: "sfslink \<Rightarrow> nat option" where
  "le2sin (InodeLink n) = Some n"
| "le2sin (SinHash n) = Some n"
| "le2sin _ = None"

partial_function (option) lookup_sfs_loop :: "sfslink \<Rightarrow> sfslink \<Rightarrow> 32 word \<Rightarrow> kvst \<Rightarrow> nat option option" where
  "lookup_sfs_loop list le i s =
     (let le = list_next le (slinks (low s))
      in if le = list then Some None
         else do { n \<leftarrow> le2sin le; if ino (sin_of s n) = i then Some (Some n) else lookup_sfs_loop list le i s })"

definition lookup_sfs_nolock :: "nat \<Rightarrow> 32 word \<Rightarrow> kvst \<Rightarrow> (nat option \<times> kvst) option" where
  "lookup_sfs_nolock f i s = do {
     list \<leftarrow> sfs_hash_list f i;
     r \<leftarrow> lookup_sfs_loop list list i s;
     case r of
       None \<Rightarrow> Some (None, s)
     | Some n \<Rightarrow> do {
         let s = inode_ref_inc n s;
         let s = (if ref_count (inodes s n) = 1 then upd_sin n (\<lambda>x. x\<lparr>reclaim_count := reclaim_count x + 1\<rparr>) s else s);
         Some (Some n, s)
       }
   }"

definition sfs_load_inode :: "nat \<Rightarrow> 32 word \<Rightarrow> kvst \<Rightarrow> (int \<times> nat option \<times> kvst) option" where
  "sfs_load_inode f i s = do {
     s \<leftarrow> lock_sfs_fs f s;
     (r, s) \<leftarrow> lookup_sfs_nolock f i s;
     case r of
       Some n \<Rightarrow> Some (0, Some n, unlock_sfs_fs f s)
     | None \<Rightarrow>
         (case vmalloc s of
            (None, s) \<Rightarrow> Some (- E_NO_MEM, None, unlock_sfs_fs f s)
          | (Some a, s) \<Rightarrow> do {
              assert_inuse f i s;
              (ret, bs, s) \<leftarrow> sfs_rbuf f DIN_SIZE i 0 s;
              if ret \<noteq> 0 then Some (ret, None, unlock_sfs_fs f (vfree a s))
              else do {
                let d = din_of_bytes bs;
                assert_c (di_nlinks d \<noteq> 0);
                (ret, x, s) \<leftarrow> sfs_create_inode f a d i s;
                if ret \<noteq> 0 then Some (ret, None, unlock_sfs_fs f (vfree a s))
                else do {
                  n \<leftarrow> x;
                  s \<leftarrow> sfs_set_links f n s;
                  Some (0, Some n, unlock_sfs_fs f s)
                }
              }
            })
   }"

subsection \<open>The blocks of a file\<close>

text \<open>
  \<open>entp\<close> is the value behind the pointer of that name before the call; the second component of the
  result is its value afterwards. \<open>sfs_bmap_get_sub_new\<close> is the part that allocates a data block.
\<close>

definition sfs_bmap_get_sub_new ::
    "nat \<Rightarrow> 32 word \<Rightarrow> 32 word \<Rightarrow> nat \<Rightarrow> kvst \<Rightarrow> (int \<times> 32 word \<times> 32 word \<times> kvst) option" where
  "sfs_bmap_get_sub_new f entp ent offset s = do {
     (ret, i, s) \<leftarrow> sfs_block_alloc f s;
     (ret, s) \<leftarrow> (if ret \<noteq> 0 then Some (ret, s)
       else do {
         (ret, s) \<leftarrow> sfs_wbuf f (le32 i) ent offset s;
         if ret \<noteq> 0 then do { s \<leftarrow> sfs_block_free f i s; Some (ret, s) } else Some (0, s)
       });
     if ret \<noteq> 0 then do {
       s \<leftarrow> (if ent \<noteq> entp then sfs_block_free f ent s else Some s);
       Some (ret, entp, 0, s)
     } else Some (0, ent, i, s)
   }"

definition sfs_bmap_get_sub_nolock ::
    "nat \<Rightarrow> 32 word \<Rightarrow> 32 word \<Rightarrow> bool \<Rightarrow> kvst \<Rightarrow> (int \<times> 32 word \<times> 32 word \<times> kvst) option" where
  "sfs_bmap_get_sub_nolock f entp index create s = do {
     assert_c (unat index < SFS_BLK_NENTRY);
     let offset = unat index * 4;
     if entp \<noteq> 0 then do {
       (ret, bs, s) \<leftarrow> sfs_rbuf f 4 entp offset s;
       if ret \<noteq> 0 then Some (ret, entp, 0, s)
       else if un32 bs \<noteq> 0 \<or> \<not> create then Some (0, entp, un32 bs, s)
       else sfs_bmap_get_sub_new f entp entp offset s
     }
     else if \<not> create then Some (0, entp, 0, s)
     else do {
       (ret, ent, s) \<leftarrow> sfs_block_alloc f s;
       if ret \<noteq> 0 then Some (ret, entp, 0, s) else sfs_bmap_get_sub_new f entp ent offset s
     }
   }"

definition sfs_bmap_get_nolock ::
    "nat \<Rightarrow> nat \<Rightarrow> 32 word \<Rightarrow> bool \<Rightarrow> kvst \<Rightarrow> (int \<times> 32 word \<times> kvst) option" where
  "sfs_bmap_get_nolock f n index create s = do {
     (ret, i, s) \<leftarrow> (if unat index < SFS_NDIRECT then do {
         let i = di_direct (din_of s n) ! unat index;
         if i = 0 \<and> create then do {
           (ret, i, s) \<leftarrow> sfs_block_alloc f s;
           if ret \<noteq> 0 then Some (ret, 0, s)
           else Some (0, i, upd_sin n (\<lambda>x. x\<lparr>dirty := True\<rparr>)
                  (upd_din n (\<lambda>d. d\<lparr>di_direct := (di_direct d)[unat index := i]\<rparr>) s))
         } else Some (0, i, s)
       }
       else do {
         let index = index - of_nat SFS_NDIRECT;
         assert_c (unat index < SFS_BLK_NENTRY);
         let indirect = di_indirect (din_of s n);
         (ret, ent, i, s) \<leftarrow> sfs_bmap_get_sub_nolock f indirect index create s;
         if ret \<noteq> 0 then Some (ret, 0, s)
         else if ent \<noteq> di_indirect (din_of s n) then do {
           assert_c (di_indirect (din_of s n) = 0);
           Some (0, i, upd_sin n (\<lambda>x. x\<lparr>dirty := True\<rparr>) (upd_din n (\<lambda>d. d\<lparr>di_indirect := ent\<rparr>) s))
         } else Some (0, i, s)
       });
     if ret \<noteq> 0 then Some (ret, 0, s)
     else do {
       (if i = 0 then Some () else assert_inuse f i s);
       Some (0, i, s)
     }
   }"

definition sfs_bmap_free_sub_nolock :: "nat \<Rightarrow> 32 word \<Rightarrow> 32 word \<Rightarrow> kvst \<Rightarrow> (int \<times> kvst) option" where
  "sfs_bmap_free_sub_nolock f ent index s = do {
     assert_inuse f ent s;
     assert_c (unat index < SFS_BLK_NENTRY);
     let offset = unat index * 4;
     (ret, bs, s) \<leftarrow> sfs_rbuf f 4 ent offset s;
     if ret \<noteq> 0 then Some (ret, s)
     else if un32 bs \<noteq> 0 then do {
       (ret, s) \<leftarrow> sfs_wbuf f (le32 0) ent offset s;
       if ret \<noteq> 0 then Some (ret, s) else do { s \<leftarrow> sfs_block_free f (un32 bs) s; Some (0, s) }
     } else Some (0, s)
   }"

definition sfs_bmap_free_nolock :: "nat \<Rightarrow> nat \<Rightarrow> 32 word \<Rightarrow> kvst \<Rightarrow> (int \<times> kvst) option" where
  "sfs_bmap_free_nolock f n index s =
     (if unat index < SFS_NDIRECT then do {
        let i = di_direct (din_of s n) ! unat index;
        if i \<noteq> 0 then do {
          s \<leftarrow> sfs_block_free f i s;
          Some (0, upd_sin n (\<lambda>x. x\<lparr>dirty := True\<rparr>)
                 (upd_din n (\<lambda>d. d\<lparr>di_direct := (di_direct d)[unat index := 0]\<rparr>) s))
        } else Some (0, s)
      }
      else if unat (index - of_nat SFS_NDIRECT) < SFS_BLK_NENTRY then
        (if di_indirect (din_of s n) \<noteq> 0
         then sfs_bmap_free_sub_nolock f (di_indirect (din_of s n)) (index - of_nat SFS_NDIRECT) s
         else Some (0, s))
      else Some (0, s))"

definition sfs_bmap_load_nolock :: "nat \<Rightarrow> nat \<Rightarrow> 32 word \<Rightarrow> kvst \<Rightarrow> (int \<times> 32 word \<times> kvst) option" where
  "sfs_bmap_load_nolock f n index s = do {
     assert_c (index \<le> di_blocks (din_of s n));
     let create = (index = di_blocks (din_of s n));
     (ret, i, s) \<leftarrow> sfs_bmap_get_nolock f n index create s;
     if ret \<noteq> 0 then Some (ret, 0, s)
     else do {
       assert_inuse f i s;
       Some (0, i, if create then upd_din n (\<lambda>d. d\<lparr>di_blocks := di_blocks d + 1\<rparr>) s else s)
     }
   }"

definition sfs_bmap_truncate_nolock :: "nat \<Rightarrow> nat \<Rightarrow> kvst \<Rightarrow> (int \<times> kvst) option" where
  "sfs_bmap_truncate_nolock f n s = do {
     assert_c (di_blocks (din_of s n) \<noteq> 0);
     (ret, s) \<leftarrow> sfs_bmap_free_nolock f n (di_blocks (din_of s n) - 1) s;
     if ret \<noteq> 0 then Some (ret, s)
     else Some (0, upd_sin n (\<lambda>x. x\<lparr>dirty := True\<rparr>) (upd_din n (\<lambda>d. d\<lparr>di_blocks := di_blocks d - 1\<rparr>) s))
   }"

end
