(* ===== verification/SfsNode.thy ===== *)
theory SfsNode
  imports Sfs
begin

section \<open>Directories and the node operations of the simple file system (sfs_inode.c)\<close>

text \<open>
  Directory search, reading and writing of files, truncation, reclaiming, and the operation tables
  of directories and files. A call through a table (\<open>vop_fsync\<close>, \<open>vop_truncate\<close>, \<open>vop_reclaim\<close>) from
  inside the file system uses a table that holds the operation called; \<open>SfsTab\<close> shows that the tables agree.
\<close>

subsection \<open>Directory entries\<close>

definition sfs_dirent_read_nolock :: "nat \<Rightarrow> nat \<Rightarrow> nat \<Rightarrow> kvst \<Rightarrow> (int \<times> sfs_disk_entry option \<times> kvst) option" where
  "sfs_dirent_read_nolock f n slot s = do {
     assert_c (di_type (din_of s n) = SFS_TYPE_DIR \<and> slot < unat (di_blocks (din_of s n)));
     (ret, i, s) \<leftarrow> sfs_bmap_load_nolock f n (of_nat slot) s;
     if ret \<noteq> 0 then Some (ret, None, s)
     else do {
       assert_inuse f i s;
       (ret, bs, s) \<leftarrow> sfs_rbuf f ENTRY_SIZE i 0 s;
       if ret \<noteq> 0 then Some (ret, None, s)
       else do {
         let e = entry_of_bytes bs;
         Some (0, Some (e\<lparr>ent_name := (ent_name e)[SFS_MAX_FNAME_LEN := 0]\<rparr>), s)
       }
     }
   }"

text \<open>The result: return value, \<open>ino\<close>, \<open>slot\<close> and \<open>empty_slot\<close> as far as they are stored, state.\<close>

fun dirent_search_loop ::
    "nat \<Rightarrow> nat \<Rightarrow> string \<Rightarrow> nat list \<Rightarrow> nat \<Rightarrow> kvst \<Rightarrow> (int \<times> 32 word option \<times> nat option \<times> nat \<times> kvst) option" where
  "dirent_search_loop f n name [] empty_slot s = Some (- E_NOENT, None, None, empty_slot, s)"
| "dirent_search_loop f n name (i # is) empty_slot s = do {
     (ret, x, s) \<leftarrow> sfs_dirent_read_nolock f n i s;
     if ret \<noteq> 0 then Some (ret, None, None, empty_slot, s)
     else do {
       e \<leftarrow> x;
       if ent_ino e = 0 then dirent_search_loop f n name is i s
       else if name = cstring (ent_name e) then Some (0, Some (ent_ino e), Some i, empty_slot, s)
       else dirent_search_loop f n name is empty_slot s
     }
   }"

definition sfs_dirent_search_nolock ::
    "nat \<Rightarrow> nat \<Rightarrow> string \<Rightarrow> kvst \<Rightarrow> (int \<times> 32 word option \<times> nat option \<times> nat \<times> kvst) option" where
  "sfs_dirent_search_nolock f n name s = do {
     assert_c (length name \<le> SFS_MAX_FNAME_LEN);
     case vmalloc s of
       (None, s) \<Rightarrow> Some (- E_NO_MEM, None, None, 0, s)
     | (Some a, s) \<Rightarrow> do {
         let nslots = unat (di_blocks (din_of s n));
         (ret, i, slot, empty_slot, s) \<leftarrow> dirent_search_loop f n name [0..<nslots] nslots s;
         Some (ret, i, slot, empty_slot, vfree a s)
       }
   }"

fun dirent_findino_loop :: "nat \<Rightarrow> nat \<Rightarrow> 32 word \<Rightarrow> nat list \<Rightarrow> kvst \<Rightarrow> (int \<times> sfs_disk_entry option \<times> kvst) option" where
  "dirent_findino_loop f n i [] s = Some (- E_NOENT, None, s)"
| "dirent_findino_loop f n i (j # js) s = do {
     (ret, x, s) \<leftarrow> sfs_dirent_read_nolock f n j s;
     if ret \<noteq> 0 then Some (ret, None, s)
     else do { e \<leftarrow> x; if ent_ino e = i then Some (0, Some e, s) else dirent_findino_loop f n i js s }
   }"

definition sfs_dirent_findino_nolock :: "nat \<Rightarrow> nat \<Rightarrow> 32 word \<Rightarrow> kvst \<Rightarrow> (int \<times> sfs_disk_entry option \<times> kvst) option" where
  "sfs_dirent_findino_nolock f n i s = dirent_findino_loop f n i [0..<unat (di_blocks (din_of s n))] s"

definition sfs_lookup_once :: "nat \<Rightarrow> nat \<Rightarrow> string \<Rightarrow> kvst \<Rightarrow> (int \<times> nat option \<times> nat option \<times> kvst) option" where
  "sfs_lookup_once f n name s = do {
     s \<leftarrow> lock_sin n s;
     (ret, i, slot, _, s) \<leftarrow> sfs_dirent_search_nolock f n name s;
     let s = unlock_sin n s;
     if ret = 0 then do {
       i \<leftarrow> i;
       (ret, node, s) \<leftarrow> sfs_load_inode f i s;
       Some (ret, node, slot, s)
     } else Some (ret, None, slot, s)
   }"

subsection \<open>Opening and file types\<close>

definition sfs_opendir :: "nat \<Rightarrow> 32 word \<Rightarrow> kvst \<Rightarrow> (int \<times> kvst) option" where
  "sfs_opendir n flags s =
     (if flags AND O_ACCMODE \<noteq> O_RDONLY then Some (- E_ISDIR, s)
      else if flags AND O_APPEND \<noteq> 0 then Some (- E_ISDIR, s)
      else Some (0, s))"

definition sfs_openfile :: "nat \<Rightarrow> 32 word \<Rightarrow> kvst \<Rightarrow> (int \<times> kvst) option" where
  "sfs_openfile n flags s = Some (0, s)"

definition sfs_gettype :: "nat \<Rightarrow> kvst \<Rightarrow> (int \<times> 32 word \<times> kvst) option" where
  "sfs_gettype n s = do {
     f \<leftarrow> sfs_info n s;
     let type = di_type (din_of s n);
     if type = SFS_TYPE_DIR then Some (0, S_IFDIR, s)
     else if type = SFS_TYPE_FILE then Some (0, S_IFREG, s)
     else if type = SFS_TYPE_LINK then Some (0, S_IFLNK, s)
     else None
   }"

subsection \<open>Reading and writing\<close>

text \<open>\<open>sfs_buf_op\<close> and \<open>sfs_block_op\<close> with the buffer at \<open>buf\<close>.\<close>

definition sfs_buf_op :: "bool \<Rightarrow> nat \<Rightarrow> nat \<Rightarrow> nat \<Rightarrow> 32 word \<Rightarrow> nat \<Rightarrow> kvst \<Rightarrow> (int \<times> kvst) option" where
  "sfs_buf_op write f buf len i offset s =
     (if write then do { data \<leftarrow> rd_bytes buf len (kbuf s); sfs_wbuf f data i offset s }
      else do {
        (ret, data, s) \<leftarrow> sfs_rbuf f len i offset s;
        m \<leftarrow> wr_bytes buf data (kbuf s);
        Some (ret, set_kbuf m s)
      })"

definition sfs_block_op :: "bool \<Rightarrow> nat \<Rightarrow> nat \<Rightarrow> 32 word \<Rightarrow> 32 word \<Rightarrow> kvst \<Rightarrow> (int \<times> kvst) option" where
  "sfs_block_op write f buf blkno nblks s = (if write then sfs_wblock f buf blkno nblks s else sfs_rblock f buf blkno nblks s)"

text \<open>
  The three parts of the transfer: the first block when the offset is not aligned, whole blocks, the
  rest. Each returns whether to go to \<open>out\<close>, the return value, the length done, \<open>blkno\<close>, \<open>nblks\<close>.
  The second part passes the number of the block within the file, \<open>blkno\<close>, to \<open>sfs_block_op\<close>.
\<close>

type_synonym io_part = "bool \<times> int \<times> nat \<times> 32 word \<times> 32 word \<times> kvst"

definition io_first :: "bool \<Rightarrow> nat \<Rightarrow> nat \<Rightarrow> nat \<Rightarrow> nat \<Rightarrow> nat \<Rightarrow> 32 word \<Rightarrow> 32 word \<Rightarrow> kvst \<Rightarrow> io_part option" where
  "io_first write f n buf offset endpos blkno nblks s = do {
     let blkoff = offset mod SFS_BLKSIZE;
     if blkoff \<noteq> 0 then do {
       let size = (if nblks \<noteq> 0 then SFS_BLKSIZE - blkoff else endpos - offset);
       (ret, i, s) \<leftarrow> sfs_bmap_load_nolock f n blkno s;
       if ret \<noteq> 0 then Some (True, ret, 0, blkno, nblks, s)
       else do {
         (ret, s) \<leftarrow> sfs_buf_op write f buf size i blkoff s;
         if ret \<noteq> 0 then Some (True, ret, 0, blkno, nblks, s)
         else if nblks = 0 then Some (True, 0, size, blkno, nblks, s)
         else Some (False, 0, size, blkno + 1, nblks - 1, s)
       }
     } else Some (False, 0, 0, blkno, nblks, s)
   }"

definition io_blocks :: "bool \<Rightarrow> nat \<Rightarrow> nat \<Rightarrow> nat \<Rightarrow> nat \<Rightarrow> 32 word \<Rightarrow> 32 word \<Rightarrow> kvst \<Rightarrow> io_part option" where
  "io_blocks write f n buf alen blkno nblks s =
     (if nblks > 0 then do {
        (ret, i, s) \<leftarrow> sfs_bmap_load_nolock f n blkno s;
        if ret < 0 then Some (True, ret, alen, blkno, nblks, s)
        else do {
          (ret, s) \<leftarrow> sfs_block_op write f (buf + alen) blkno nblks s;
          if ret < 0 then Some (True, ret, alen, blkno, nblks, s)
          else Some (False, ret, alen + unat nblks * SFS_BLKSIZE, blkno + nblks, 0, s)
        }
      } else Some (False, 0, alen, blkno, nblks, s))"

definition io_last :: "bool \<Rightarrow> nat \<Rightarrow> nat \<Rightarrow> nat \<Rightarrow> nat \<Rightarrow> nat \<Rightarrow> int \<Rightarrow> 32 word \<Rightarrow> kvst \<Rightarrow> (int \<times> nat \<times> kvst) option" where
  "io_last write f n buf endpos alen ret blkno s = do {
     let size = endpos mod SFS_BLKSIZE;
     if size \<noteq> 0 then do {
       (ret, i, s) \<leftarrow> sfs_bmap_load_nolock f n blkno s;
       if ret \<noteq> 0 then Some (ret, alen, s)
       else do {
         (ret, s) \<leftarrow> sfs_buf_op write f (buf + alen) size i 0 s;
         if ret \<noteq> 0 then Some (ret, alen, s) else Some (0, alen + size, s)
       }
     } else Some (ret, alen, s)
   }"

text \<open>At \<open>out\<close> the file grows when the transfer ended behind its end.\<close>

definition io_out :: "nat \<Rightarrow> nat \<Rightarrow> int \<Rightarrow> nat \<Rightarrow> kvst \<Rightarrow> int \<times> nat \<times> kvst" where
  "io_out n offset ret alen s =
     (ret, alen, if offset + alen > unat (di_size (din_of s n))
        then upd_sin n (\<lambda>x. x\<lparr>dirty := True\<rparr>) (upd_din n (\<lambda>d. d\<lparr>di_size := of_nat (offset + alen)\<rparr>) s) else s)"

definition sfs_io_nolock ::
    "nat \<Rightarrow> nat \<Rightarrow> nat \<Rightarrow> 64 word \<Rightarrow> nat \<Rightarrow> bool \<Rightarrow> kvst \<Rightarrow> (int \<times> nat \<times> kvst) option" where
  "sfs_io_nolock f n buf offset alen write s = do {
     assert_c (di_type (din_of s n) \<noteq> SFS_TYPE_DIR);
     let endpos = offset + of_nat alen;
     if sint offset < 0 \<or> unat offset \<ge> SFS_MAX_FILE_SIZE \<or> sint offset > sint endpos then Some (- E_INVAL, 0, s)
     else if offset = endpos then Some (0, 0, s)
     else do {
       let o' = unat offset;
       let size = unat (di_size (din_of s n));
       let e = (if unat endpos > SFS_MAX_FILE_SIZE then SFS_MAX_FILE_SIZE else unat endpos);
       if \<not> write \<and> o' \<ge> size then Some (0, 0, s)
       else do {
         let e = (if \<not> write \<and> e > size then size else e);
         let blkno = of_nat (o' div SFS_BLKSIZE);
         let nblks = of_nat (e div SFS_BLKSIZE) - blkno;
         (out, ret, alen, blkno, nblks, s) \<leftarrow> io_first write f n buf o' e blkno nblks s;
         if out then Some (io_out n o' ret alen s)
         else do {
           (out, ret, alen, blkno, nblks, s) \<leftarrow> io_blocks write f n buf alen blkno nblks s;
           if out then Some (io_out n o' ret alen s)
           else do {
             (ret, alen, s) \<leftarrow> io_last write f n buf e alen ret blkno s;
             Some (io_out n o' ret alen s)
           }
         }
       }
     }
   }"

definition sfs_io :: "bool \<Rightarrow> nat \<Rightarrow> iobuf \<Rightarrow> kvst \<Rightarrow> (int \<times> iobuf \<times> kvst) option" where
  "sfs_io write n iob s = do {
     f \<leftarrow> sfs_info n s;
     s \<leftarrow> lock_sin n s;
     (ret, alen, s) \<leftarrow> sfs_io_nolock f n (io_base iob) (io_offset iob) (io_resid iob) write s;
     iob \<leftarrow> (if alen \<noteq> 0 then iobuf_skip iob alen else Some iob);
     Some (ret, iob, unlock_sin n s)
   }"

definition sfs_read :: "nat \<Rightarrow> iobuf \<Rightarrow> kvst \<Rightarrow> (int \<times> iobuf \<times> kvst) option" where
  "sfs_read n iob s = sfs_io False n iob s"

definition sfs_write :: "nat \<Rightarrow> iobuf \<Rightarrow> kvst \<Rightarrow> (int \<times> iobuf \<times> kvst) option" where
  "sfs_write n iob s = sfs_io True n iob s"

subsection \<open>Synchronising, closing, truncating\<close>

definition sfs_fsync :: "nat \<Rightarrow> kvst \<Rightarrow> (int \<times> kvst) option" where
  "sfs_fsync n s = do {
     f \<leftarrow> sfs_info n s;
     if dirty (sin_of s n) then do {
       s \<leftarrow> lock_sin n s;
       let s = upd_sin n (\<lambda>x. x\<lparr>dirty := False\<rparr>) s;
       (ret, s) \<leftarrow> sfs_wbuf f (din_bytes (din_of s n)) (ino (sin_of s n)) 0 s;
       let s = (if ret \<noteq> 0 then upd_sin n (\<lambda>x. x\<lparr>dirty := True\<rparr>) s else s);
       Some (ret, unlock_sin n s)
     } else Some (0, s)
   }"

fun grow_loop :: "nat \<Rightarrow> nat \<Rightarrow> nat list \<Rightarrow> kvst \<Rightarrow> (int \<times> kvst) option" where
  "grow_loop f n [] s = Some (0, s)"
| "grow_loop f n (b # bs) s = do {
     (ret, _, s) \<leftarrow> sfs_bmap_load_nolock f n (of_nat b) s;
     if ret \<noteq> 0 then Some (ret, s) else grow_loop f n bs s
   }"

fun shrink_loop :: "nat \<Rightarrow> nat \<Rightarrow> nat \<Rightarrow> kvst \<Rightarrow> (int \<times> kvst) option" where
  "shrink_loop f n 0 s = Some (0, s)"
| "shrink_loop f n (Suc k) s = do {
     (ret, s) \<leftarrow> sfs_bmap_truncate_nolock f n s;
     if ret \<noteq> 0 then Some (ret, s) else shrink_loop f n k s
   }"

definition sfs_truncfile :: "nat \<Rightarrow> 64 word \<Rightarrow> kvst \<Rightarrow> (int \<times> kvst) option" where
  "sfs_truncfile n len s =
     (if sint len < 0 \<or> unat len > SFS_MAX_FILE_SIZE then Some (- E_INVAL, s)
      else do {
        f \<leftarrow> sfs_info n s;
        let tblks = ROUNDUP_DIV (unat len) SFS_BLKSIZE;
        if unat (di_size (din_of s n)) = unat len then do {
          assert_c (tblks = unat (di_blocks (din_of s n)));
          Some (0, s)
        }
        else do {
          s \<leftarrow> lock_sin n s;
          let nblks = unat (di_blocks (din_of s n));
          (ret, s) \<leftarrow> (if nblks < tblks then grow_loop f n [nblks..<tblks] s else shrink_loop f n (nblks - tblks) s);
          if ret \<noteq> 0 then Some (ret, unlock_sin n s)
          else do {
            assert_c (unat (di_blocks (din_of s n)) = tblks);
            let s = upd_sin n (\<lambda>x. x\<lparr>dirty := True\<rparr>) (upd_din n (\<lambda>d. d\<lparr>di_size := ucast len\<rparr>) s);
            Some (0, unlock_sin n s)
          }
        }
      })"

text \<open>The operations of the tables that other operations of this file system call.\<close>

definition sfs_tab_base :: "klow vtab" where
  "sfs_tab_base = \<lparr>itab = (\<lambda>k.
       if k = SFS_DIROPS then no_ops\<lparr>op_fsync := Some sfs_fsync, op_gettype := Some sfs_gettype\<rparr>
       else if k = SFS_FILEOPS then no_ops\<lparr>op_fsync := Some sfs_fsync, op_gettype := Some sfs_gettype,
         op_truncate := Some sfs_truncfile\<rparr>
       else no_ops), ftab = undefined\<rparr>"

definition vop_fsync :: "nat \<Rightarrow> kvst \<Rightarrow> (int \<times> kvst) option" where
  "vop_fsync n s = do { f \<leftarrow> vop sfs_tab_base op_fsync n s; f n s }"

definition vop_truncate :: "nat \<Rightarrow> 64 word \<Rightarrow> kvst \<Rightarrow> (int \<times> kvst) option" where
  "vop_truncate n len s = do { f \<leftarrow> vop sfs_tab_base op_truncate n s; f n len s }"

definition sfs_close :: "nat \<Rightarrow> kvst \<Rightarrow> (int \<times> kvst) option" where
  "sfs_close n s = vop_fsync n s"

definition sfs_fstat :: "nat \<Rightarrow> kvst \<Rightarrow> (int \<times> stat \<times> kvst) option" where
  "sfs_fstat n s = do {
     f \<leftarrow> vop sfs_tab_base op_gettype n s;
     (ret, mode, s) \<leftarrow> f n s;
     if ret \<noteq> 0 then Some (ret, \<lparr>st_mode = mode, st_nlinks = 0, st_blocks = 0, st_size = 0\<rparr>, s)
     else do {
       sfs_info n s;
       let d = din_of s n;
       Some (0, \<lparr>st_mode = mode, st_nlinks = unat (di_nlinks d), st_blocks = unat (di_blocks d),
                 st_size = unat (di_size d)\<rparr>, s)
     }
   }"

definition sfs_tryseek :: "nat \<Rightarrow> 64 word \<Rightarrow> kvst \<Rightarrow> (int \<times> kvst) option" where
  "sfs_tryseek n p s =
     (if sint p < 0 \<or> unat p \<ge> SFS_MAX_FILE_SIZE then Some (- E_INVAL, s)
      else do {
        sfs_info n s;
        if unat p > unat (di_size (din_of s n)) then vop_truncate n p s else Some (0, s)
      })"

subsection \<open>Reclaiming (sfs_reclaim)\<close>

definition sfs_reclaim :: "nat \<Rightarrow> kvst \<Rightarrow> (int \<times> kvst) option" where
  "sfs_reclaim n s = do {
     f \<leftarrow> sfs_info n s;
     s \<leftarrow> lock_sfs_fs f s;
     assert_c (reclaim_count (sin_of s n) > 0);
     let s = upd_sin n (\<lambda>x. x\<lparr>reclaim_count := reclaim_count x - 1\<rparr>) s;
     if reclaim_count (sin_of s n) \<noteq> 0 \<or> ref_count (inodes s n) \<noteq> 0 then Some (- E_BUSY, unlock_sfs_fs f s)
     else do {
       (ret, s) \<leftarrow> (if di_nlinks (din_of s n) = 0 then vop_truncate n 0 s else Some (0, s));
       if ret \<noteq> 0 then Some (ret, unlock_sfs_fs f s)
       else do {
         (ret, s) \<leftarrow> (if dirty (sin_of s n) then vop_fsync n s else Some (0, s));
         if ret \<noteq> 0 then Some (ret, unlock_sfs_fs f s)
         else do {
           let s = unlock_sfs_fs f (sfs_remove_links n s);
           s \<leftarrow> (if di_nlinks (din_of s n) = 0 then do {
               s \<leftarrow> sfs_block_free f (ino (sin_of s n)) s;
               let ent = di_indirect (din_of s n);
               if ent \<noteq> 0 then sfs_block_free f ent s else Some s
             } else Some s);
           let s = vfree (din_at (sin_of s n)) s;
           s \<leftarrow> inode_kill n s;
           Some (0, s)
         }
       }
     }
   }"

definition sfs_tab_reclaim :: "klow vtab" where
  "sfs_tab_reclaim = \<lparr>itab = (\<lambda>k.
       if k = SFS_DIROPS \<or> k = SFS_FILEOPS then no_ops\<lparr>op_reclaim := Some sfs_reclaim\<rparr> else no_ops), ftab = undefined\<rparr>"

definition vop_ref_dec :: "nat \<Rightarrow> kvst \<Rightarrow> kvst option" where
  "vop_ref_dec n s = do { (_, s) \<leftarrow> inode_ref_dec sfs_tab_reclaim n s; Some s }"

subsection \<open>Names, lookup\<close>

text \<open>
  \<open>sfs_namefile\<close> builds the path backwards from the end of the buffer: \<open>ptr\<close> and \<open>resid\<close>. The loop
  returns with 0 at the root.
\<close>

partial_function (option) namefile_loop :: "nat \<Rightarrow> nat \<Rightarrow> nat \<Rightarrow> nat \<Rightarrow> kvst \<Rightarrow> (int \<times> nat \<times> nat \<times> kvst) option" where
  "namefile_loop f n ptr resid s = do {
     (ret, parent, _, s) \<leftarrow> sfs_lookup_once f n ''..'' s;
     if ret \<noteq> 0 then do { s \<leftarrow> vop_ref_dec n s; Some (ret, ptr, resid, s) }
     else do {
       p \<leftarrow> parent;
       let i = ino (sin_of s n);
       s \<leftarrow> vop_ref_dec n s;
       if n = p then do { s \<leftarrow> vop_ref_dec n s; Some (0, ptr, resid, s) }
       else do {
         sfs_info p s;
         assert_c (i \<noteq> ino (sin_of s p) \<and> di_type (din_of s p) = SFS_TYPE_DIR);
         s \<leftarrow> lock_sin p s;
         (ret, x, s) \<leftarrow> sfs_dirent_findino_nolock f p i s;
         let s = unlock_sin p s;
         if ret \<noteq> 0 then do { s \<leftarrow> vop_ref_dec p s; Some (ret, ptr, resid, s) }
         else do {
           e \<leftarrow> x;
           let name = takeWhile (\<lambda>b. b \<noteq> 0) (ent_name e);
           let alen = length name + 1;
           if alen > resid then do { s \<leftarrow> vop_ref_dec p s; Some (- E_NO_MEM, ptr, resid, s) }
           else do {
             m \<leftarrow> wr_bytes (ptr - alen) (name @ [0x2F]) (kbuf s);
             namefile_loop f p (ptr - alen) (resid - alen) (set_kbuf m s)
           }
         }
       }
     }
   }"

declare namefile_loop.simps [code]

definition sfs_namefile :: "nat \<Rightarrow> iobuf \<Rightarrow> kvst \<Rightarrow> (int \<times> iobuf \<times> kvst) option" where
  "sfs_namefile n iob s =
     (if io_resid iob \<le> 2 then Some (- E_NO_MEM, iob, s)
      else case vmalloc s of
        (None, s) \<Rightarrow> Some (- E_NO_MEM, iob, s)
      | (Some a, s) \<Rightarrow> do {
          f \<leftarrow> sfs_info n s;
          let s = inode_ref_inc n s;
          (ret, ptr, resid, s) \<leftarrow> namefile_loop f n (io_base iob + io_resid iob) (io_resid iob - 2) s;
          if ret \<noteq> 0 then Some (ret, iob, vfree a s)
          else do {
            let alen = io_resid iob - resid - 2;
            bs \<leftarrow> rd_bytes ptr alen (kbuf s);
            m \<leftarrow> wr_bytes (io_base iob + 1) bs (kbuf s);
            m \<leftarrow> wr (io_base iob) 0x2F m;
            m \<leftarrow> wr (io_base iob + 1 + alen) 0 m;
            iob \<leftarrow> iobuf_skip iob alen;
            Some (0, iob, vfree a (set_kbuf m s))
          }
        })"

fun getdirentry_loop :: "nat \<Rightarrow> nat \<Rightarrow> nat \<Rightarrow> nat list \<Rightarrow> kvst \<Rightarrow> (int \<times> sfs_disk_entry option \<times> kvst) option" where
  "getdirentry_loop f n slot [] s = Some (- E_NOENT, None, s)"
| "getdirentry_loop f n slot (i # is) s = do {
     (ret, x, s) \<leftarrow> sfs_dirent_read_nolock f n i s;
     if ret \<noteq> 0 then Some (ret, None, s)
     else do {
       e \<leftarrow> x;
       if ent_ino e \<noteq> 0 then
         (if slot = 0 then Some (0, Some e, s) else getdirentry_loop f n (slot - 1) is s)
       else getdirentry_loop f n slot is s
     }
   }"

definition sfs_getdirentry_sub_nolock :: "nat \<Rightarrow> nat \<Rightarrow> nat \<Rightarrow> kvst \<Rightarrow> (int \<times> sfs_disk_entry option \<times> kvst) option" where
  "sfs_getdirentry_sub_nolock f n slot s = getdirentry_loop f n slot [0..<unat (di_blocks (din_of s n))] s"

text \<open>The slot number is the offset divided by 256, cut to 32 bits and compared as unsigned.\<close>

definition sfs_getdirentry :: "nat \<Rightarrow> iobuf \<Rightarrow> kvst \<Rightarrow> (int \<times> iobuf \<times> kvst) option" where
  "sfs_getdirentry n iob s =
     (case vmalloc s of
        (None, s) \<Rightarrow> Some (- E_NO_MEM, iob, s)
      | (Some a, s) \<Rightarrow> do {
          f \<leftarrow> sfs_info n s;
          let offset = io_offset iob;
          let dentry = SFS_MAX_FNAME_LEN + 1;
          if sint offset < 0 \<or> unat offset mod dentry \<noteq> 0 then Some (- E_INVAL, iob, vfree a s)
          else do {
            let slot = (of_nat (unat offset div dentry) :: 32 word);
            if slot > di_blocks (din_of s n) then Some (- E_NOENT, iob, vfree a s)
            else do {
              s \<leftarrow> lock_sin n s;
              (ret, x, s) \<leftarrow> sfs_getdirentry_sub_nolock f n (unat slot) s;
              let s = unlock_sin n s;
              if ret \<noteq> 0 then Some (ret, iob, vfree a s)
              else do {
                e \<leftarrow> x;
                (ret, _, iob, s) \<leftarrow> iobuf_move_in iob (ent_name e) s;
                Some (ret, iob, vfree a s)
              }
            }
          }
        })"

definition sfs_lookup :: "nat \<Rightarrow> string \<Rightarrow> kvst \<Rightarrow> (int \<times> nat option \<times> kvst) option" where
  "sfs_lookup n path s = do {
     f \<leftarrow> sfs_info n s;
     assert_c (path \<noteq> [] \<and> List.hd path \<noteq> CHR ''/'');
     let s = inode_ref_inc n s;
     if di_type (din_of s n) \<noteq> SFS_TYPE_DIR then do { s \<leftarrow> vop_ref_dec n s; Some (- E_NOTDIR, None, s) }
     else do {
       (ret, subnode, _, s) \<leftarrow> sfs_lookup_once f n path s;
       s \<leftarrow> vop_ref_dec n s;
       if ret \<noteq> 0 then Some (ret, None, s) else Some (0, subnode, s)
     }
   }"

definition sfs_node_dirops :: "klow inode_ops" where
  "sfs_node_dirops = no_ops\<lparr>op_open := Some sfs_opendir, op_close := Some sfs_close, op_fstat := Some sfs_fstat,
     op_fsync := Some sfs_fsync, op_namefile := Some sfs_namefile, op_getdirentry := Some sfs_getdirentry,
     op_reclaim := Some sfs_reclaim, op_gettype := Some sfs_gettype, op_lookup := Some sfs_lookup\<rparr>"

definition sfs_node_fileops :: "klow inode_ops" where
  "sfs_node_fileops = no_ops\<lparr>op_open := Some sfs_openfile, op_close := Some sfs_close, op_read := Some sfs_read,
     op_write := Some sfs_write, op_fstat := Some sfs_fstat, op_fsync := Some sfs_fsync,
     op_reclaim := Some sfs_reclaim, op_gettype := Some sfs_gettype, op_tryseek := Some sfs_tryseek,
     op_truncate := Some sfs_truncfile\<rparr>"

end
