(* ===== verification/SfsTab.thy ===== *)
theory SfsTab
  imports SfsNode
begin

section \<open>Mounting the simple file system (sfs_fs.c, sfs.c) and the tables of the kernel\<close>

definition SFS_FS :: nat where "SFS_FS = 0"

text \<open>The walk over all nodes in memory; what \<open>vop_fsync\<close> returns is ignored.\<close>

partial_function (option) sfs_sync_loop :: "nat \<Rightarrow> sfslink \<Rightarrow> kvst \<Rightarrow> kvst option" where
  "sfs_sync_loop f le s =
     (let le = list_next le (slinks (low s))
      in if le = InodeList f then Some s
         else do { n \<leftarrow> le2sin le; (_, s) \<leftarrow> vop_fsync n s; sfs_sync_loop f le s })"

declare sfs_sync_loop.simps [code]

definition sfs_sync :: "nat \<Rightarrow> kvst \<Rightarrow> (int \<times> kvst) option" where
  "sfs_sync f s = do {
     s \<leftarrow> lock_sfs_fs f s;
     s \<leftarrow> sfs_sync_loop f (InodeList f) s;
     let s = unlock_sfs_fs f s;
     if super_dirty (fs_of s f) then do {
       (ret, s) \<leftarrow> sfs_sync_super f (upd_sfs f (\<lambda>a. a\<lparr>super_dirty := False\<rparr>) s);
       if ret \<noteq> 0 then Some (ret, upd_sfs f (\<lambda>a. a\<lparr>super_dirty := True\<rparr>) s)
       else do {
         (ret, s) \<leftarrow> sfs_sync_freemap f s;
         if ret \<noteq> 0 then Some (ret, upd_sfs f (\<lambda>a. a\<lparr>super_dirty := True\<rparr>) s) else Some (0, s)
       }
     } else Some (0, s)
   }"

definition sfs_get_root :: "nat \<Rightarrow> kvst \<Rightarrow> (nat option \<times> kvst) option" where
  "sfs_get_root f s = do {
     (ret, node, s) \<leftarrow> sfs_load_inode f SFS_BLKN_ROOT s;
     assert_c (ret = 0);
     Some (node, s)
   }"

definition sfs_unmount :: "nat \<Rightarrow> kvst \<Rightarrow> (int \<times> kvst) option" where
  "sfs_unmount f s =
     (if \<not> list_empty (InodeList f) (slinks (low s)) then Some (- E_BUSY, s)
      else do {
        assert_c (\<not> super_dirty (fs_of s f));
        let s = bitmap_destroy (freemap (fs_of s f)) s;
        Some (0, vfree f (vfree (hash_at (fs_of s f)) (vfree (sfs_buffer (fs_of s f)) s)))
      })"

fun sfs_cleanup_loop :: "nat \<Rightarrow> nat \<Rightarrow> kvst \<Rightarrow> kvst option" where
  "sfs_cleanup_loop f 0 s = Some s"
| "sfs_cleanup_loop f (Suc i) s = do { (ret, s) \<leftarrow> sfs_sync f s; if ret = 0 then Some s else sfs_cleanup_loop f i s }"

definition sfs_cleanup :: "nat \<Rightarrow> kvst \<Rightarrow> kvst option" where
  "sfs_cleanup f s = sfs_cleanup_loop f 32 s"

definition sfs_init_read :: "nat \<Rightarrow> 32 word \<Rightarrow> nat \<Rightarrow> kvst \<Rightarrow> (int \<times> kvst) option" where
  "sfs_init_read dev blkno blk_buffer s = do {
     let iob = iobuf_init blk_buffer SFS_BLKSIZE (ucast (blkno * of_nat SFS_BLKSIZE));
     (ret, _, s) \<leftarrow> dop_io (devs (low s) dev) iob False s;
     Some (ret, s)
   }"

fun sfs_init_freemap_loop :: "nat \<Rightarrow> nat \<Rightarrow> 32 word \<Rightarrow> nat \<Rightarrow> kvst \<Rightarrow> (int \<times> kvst) option" where
  "sfs_init_freemap_loop dev data blkno 0 s = Some (0, s)"
| "sfs_init_freemap_loop dev data blkno (Suc nblks) s = do {
     (ret, s) \<leftarrow> sfs_init_read dev blkno data s;
     if ret \<noteq> 0 then Some (ret, s) else sfs_init_freemap_loop dev (data + SFS_BLKSIZE) (blkno + 1) nblks s
   }"

definition sfs_init_freemap :: "nat \<Rightarrow> bitmap \<Rightarrow> 32 word \<Rightarrow> 32 word \<Rightarrow> kvst \<Rightarrow> (int \<times> kvst) option" where
  "sfs_init_freemap dev b blkno nblks s = do {
     let (data, len) = bitmap_getdata b;
     assert_c (len = unat nblks * SFS_BLKSIZE);
     sfs_init_freemap_loop dev data blkno (unat nblks) s
   }"

fun count_free :: "bitmap \<Rightarrow> nat list \<Rightarrow> cmem \<Rightarrow> 32 word option" where
  "count_free b [] m = Some 0"
| "count_free b (i # is) m = do {
     t \<leftarrow> bitmap_test b (of_nat i) m;
     k \<leftarrow> count_free b is m;
     Some (if t then k + 1 else k)
   }"

fun hash_init :: "nat \<Rightarrow> nat list \<Rightarrow> kvst \<Rightarrow> kvst" where
  "hash_init f [] s = s"
| "hash_init f (h # hs) s = hash_init f hs (upd_slinks (list_init (SfsHash f h)) s)"

text \<open>
  \<open>sfs_do_mount_maps\<close> is the part from the hash list on, with its clean-up paths.
\<close>

definition sfs_do_mount_maps :: "nat \<Rightarrow> nat \<Rightarrow> kvst \<Rightarrow> (int \<times> kvst) option" where
  "sfs_do_mount_maps dev f s =
     (case vmalloc s of
        (None, s) \<Rightarrow> Some (- E_NO_MEM, s)
      | (Some h, s) \<Rightarrow> do {
          let s = hash_init f [0..<2 ^ SFS_HLIST_SHIFT] (upd_sfs f (\<lambda>a. a\<lparr>hash_at := h\<rparr>) s);
          let nb = sfs_freemap_bits (super (fs_of s f));
          (x, s) \<leftarrow> bitmap_create nb s;
          case x of
            None \<Rightarrow> Some (- E_NO_MEM, vfree h s)
          | Some b \<Rightarrow> do {
              let s = upd_sfs f (\<lambda>a. a\<lparr>freemap := b\<rparr>) s;
              (ret, s) \<leftarrow> sfs_init_freemap dev b SFS_BLKN_FREEMAP (sfs_freemap_blocks (super (fs_of s f))) s;
              if ret \<noteq> 0 then Some (ret, vfree h (bitmap_destroy b s))
              else do {
                k \<leftarrow> count_free b [0..<unat nb] (kbuf s);
                assert_c (k = unused_blocks (super (fs_of s f)));
                let s = upd_sfs f (\<lambda>a. a\<lparr>super_dirty := False, fs_sem := 1, io_sem := 1, mutex_sem := 1\<rparr>) s;
                let s = upd_slinks (list_init (InodeList f)) s;
                Some (0, s\<lparr>fs_ops_of := (fs_ops_of s)(f := SFS_FS)\<rparr>)
              }
            }
        })"

definition sfs_do_mount :: "nat \<Rightarrow> kvst \<Rightarrow> (int \<times> nat option \<times> kvst) option" where
  "sfs_do_mount dev s =
     (if d_blocksize (devs (low s) dev) \<noteq> SFS_BLKSIZE then Some (- E_NA_DEV, None, s)
      else case vmalloc s of
        (None, s) \<Rightarrow> Some (- E_NO_MEM, None, s)
      | (Some f, s) \<Rightarrow> do {
          let s = upd_sfs f (\<lambda>a. a\<lparr>sfs_dev := dev\<rparr>) s;
          case vmalloc s of
            (None, s) \<Rightarrow> Some (- E_NO_MEM, None, vfree f s)
          | (Some buf, s) \<Rightarrow> do {
              let s = upd_sfs f (\<lambda>a. a\<lparr>sfs_buffer := buf\<rparr>) s;
              (ret, s) \<leftarrow> sfs_init_read dev SFS_BLKN_SUPER buf s;
              (ret, s) \<leftarrow> (if ret \<noteq> 0 then Some (ret, s)
                else do {
                  bs \<leftarrow> rd_bytes buf SUPER_SIZE (kbuf s);
                  let sp = super_of_bytes bs;
                  if magic sp \<noteq> SFS_MAGIC \<or> unat (blocks sp) > d_blocks (devs (low s) dev) then Some (- E_INVAL, s)
                  else do {
                    m \<leftarrow> wr (buf + 12 + SFS_MAX_INFO_LEN) 0 (kbuf s);
                    let s = upd_sfs f (\<lambda>a. a\<lparr>super := sp\<lparr>info := (info sp)[SFS_MAX_INFO_LEN := 0]\<rparr>\<rparr>) (set_kbuf m s);
                    sfs_do_mount_maps dev f s
                  }
                });
              if ret \<noteq> 0 then Some (ret, None, vfree f (vfree buf s)) else Some (0, Some f, s)
            }
        })"

definition sfs_mount :: "string \<Rightarrow> kvst \<Rightarrow> (int \<times> kvst) option" where
  "sfs_mount name s = vfs_mount name sfs_do_mount s"

definition sfs_init :: "kvst \<Rightarrow> kvst option" where
  "sfs_init s = do { (ret, s) \<leftarrow> sfs_mount ''disk0'' s; assert_c (ret = 0); Some s }"

subsection \<open>The tables\<close>

text \<open>The operation tables of the kernel: every function pointer of \<open>inode_ops\<close> and \<open>struct fs\<close> that the code installs.\<close>

definition ktab :: "klow vtab" where
  "ktab = \<lparr>itab = (\<lambda>k. if k = DEV_OPS then dev_node_ops else if k = SFS_DIROPS then sfs_node_dirops
              else if k = SFS_FILEOPS then sfs_node_fileops else no_ops),
     ftab = (\<lambda>_. \<lparr>fs_sync = sfs_sync, fs_get_root = sfs_get_root, fs_unmount = sfs_unmount, fs_cleanup = sfs_cleanup\<rparr>)\<rparr>"

definition fs_init :: "kvst \<Rightarrow> kvst option" where
  "fs_init s = do { s \<leftarrow> dev_init (vfs_init s); sfs_init s }"

definition fs_cleanup_all :: "kvst \<Rightarrow> kvst option" where
  "fs_cleanup_all s = vfs_cleanup ktab s"

end
