(* ===== verification/BlockIo.thy ===== *)
theory BlockIo
  imports SfsTab
begin

section \<open>Reading and writing blocks: the laws\<close>

text \<open>
  What a block transfer does when the buffers are mapped and apart: it moves exactly one block
  between memory and the disk image. \<open>overlay\<close> is a memory with some bytes replaced.
\<close>

subsection \<open>Bytes in memory\<close>

definition mapped :: "cmem \<Rightarrow> nat \<Rightarrow> nat \<Rightarrow> bool" where
  "mapped m a n \<longleftrightarrow> (\<forall>i < n. m (a + i) \<noteq> None)"

definition apart :: "nat \<Rightarrow> nat \<Rightarrow> nat \<Rightarrow> nat \<Rightarrow> bool" where
  "apart a n b k \<longleftrightarrow> a + n \<le> b \<or> b + k \<le> a"

definition overlay :: "nat \<Rightarrow> byte list \<Rightarrow> cmem \<Rightarrow> cmem" where
  "overlay a bs m = (\<lambda>x. if a \<le> x \<and> x < a + length bs then Some (bs ! (x - a)) else m x)"

lemma overlay_Nil [simp]: "overlay a [] m = m"
  by (rule ext) (auto simp: overlay_def)

lemma overlay_Cons: "overlay a (b # bs) m = overlay (a + 1) bs (m(a \<mapsto> b))"
  by (auto simp: overlay_def nth_Cons' fun_eq_iff Suc_le_eq)

lemma wr_bytes_overlay: "mapped m a (length bs) \<Longrightarrow> wr_bytes a bs m = Some (overlay a bs m)"
proof (induction bs arbitrary: a m)
  case (Cons b bs)
  have "mapped (m(a \<mapsto> b)) (a + 1) (length bs)"
    using Cons.prems unfolding mapped_def by (metis Suc_less_eq add_Suc_right add_Suc_shift fun_upd_apply length_Cons option.distinct(1) plus_1_eq_Suc add.commute)
  then have "wr_bytes (a + 1) bs (m(a \<mapsto> b)) = Some (overlay (a + 1) bs (m(a \<mapsto> b)))" by (rule Cons.IH)
  moreover have "m a \<noteq> None" using Cons.prems by (auto simp: mapped_def)
  ultimately show ?case by (simp only: simp_thms wr_bytes.simps wr_Some overlay_Cons Option.bind.simps)
qed simp

lemma rd_bytes_Some: "rd_bytes a n m = Some bs \<longleftrightarrow> length bs = n \<and> (\<forall>i < n. m (a + i) = Some (bs ! i))"
proof (induction n arbitrary: a bs)
  case (Suc n)
  show ?case
  proof (cases bs)
    case (Cons c cs)
    have "(\<forall>i < Suc n. m (a + i) = Some ((c # cs) ! i)) \<longleftrightarrow> m a = Some c \<and> (\<forall>i < n. m (a + 1 + i) = Some (cs ! i))"
      by (simp add: All_less_Suc2)
    then show ?thesis using Cons Suc [of "a + 1" cs] by (auto simp: bind_eq_Some_conv)
  qed (auto simp: bind_eq_Some_conv)
qed auto

lemma rd_bytes_mapped: "mapped m a n \<Longrightarrow> \<exists>bs. rd_bytes a n m = Some bs \<and> length bs = n"
  by (rule exI [of _ "map (\<lambda>i. the (m (a + i))) [0..<n]"]) (auto simp: rd_bytes_Some mapped_def)

lemma rd_overlay_in: "i + n \<le> length bs \<Longrightarrow> rd_bytes (a + i) n (overlay a bs m) = Some (take n (drop i bs))"
  by (simp add: rd_bytes_Some overlay_def add.assoc)

lemma rd_overlay_all [simp]: "length bs = n \<Longrightarrow> rd_bytes a n (overlay a bs m) = Some bs"
  using rd_overlay_in [of 0 n bs a m] by simp

lemma rd_overlay_apart: "apart a (length bs) b n \<Longrightarrow> rd_bytes b n (overlay a bs m) = rd_bytes b n m"
proof (induction n arbitrary: b)
  case (Suc n)
  then have "overlay a bs m b = m b" by (auto simp: overlay_def apart_def)
  moreover have "apart a (length bs) (b + 1) n" using Suc.prems by (auto simp: apart_def)
  ultimately show ?case using Suc.IH by simp
qed simp

lemma mapped_overlay [simp]: "mapped m b n \<Longrightarrow> mapped (overlay a bs m) b n"
  by (simp add: mapped_def overlay_def)

lemma mapped_sub: "mapped m a n \<Longrightarrow> i + k \<le> n \<Longrightarrow> mapped m (a + i) k"
  by (simp add: mapped_def add.assoc)

lemma mapped_le: "mapped m a n \<Longrightarrow> k \<le> n \<Longrightarrow> mapped m a k"
  by (simp add: mapped_def)

lemma memset_overlay: "mapped m a n \<Longrightarrow> memset a c n m = Some (overlay a (replicate n c) m)"
proof (induction n arbitrary: a m)
  case (Suc n)
  have "mapped (m(a \<mapsto> c)) (a + 1) n" using Suc.prems by (auto simp: mapped_def)
  then have "memset (a + 1) c n (m(a \<mapsto> c)) = Some (overlay (a + 1) (replicate n c) (m(a \<mapsto> c)))" by (rule Suc.IH)
  moreover have "m a \<noteq> None" using Suc.prems by (auto simp: mapped_def)
  ultimately show ?case by (simp only: simp_thms memset.simps wr_Some replicate_Suc overlay_Cons Option.bind.simps)
qed simp

lemma put_bytes_at: "put_bytes a bs f x = (if a \<le> x \<and> x < a + length bs then bs ! (x - a) else f x)"
  by (induction bs arbitrary: a f) (auto simp: nth_Cons' Suc_le_eq)

subsection \<open>One block\<close>

definition disk_blk :: "kvst \<Rightarrow> nat \<Rightarrow> byte list" where
  "disk_blk s b = map (ide_data (ide_devices (low s) DISK0_DEV_NO)) [b * SFS_BLKSIZE..<(b + 1) * SFS_BLKSIZE]"

definition set_disk :: "nat \<Rightarrow> byte list \<Rightarrow> kvst \<Rightarrow> kvst" where
  "set_disk b data s = upd_low (\<lambda>l. l\<lparr>ide_devices := (ide_devices l)(DISK0_DEV_NO :=
     (ide_devices l DISK0_DEV_NO)\<lparr>ide_data := put_bytes (b * SFS_BLKSIZE) data (ide_data (ide_devices l DISK0_DEV_NO))\<rparr>)\<rparr>) s"

definition disk_ok :: "kvst \<Rightarrow> device \<Rightarrow> bool" where
  "disk_ok s d \<longleftrightarrow> d_fun d = Disk0Fun \<and> d_blocks d \<le> 0x100000 \<and> ide_valid (ide_devices (low s) DISK0_DEV_NO) \<and>
     8 * d_blocks d \<le> ide_size (ide_devices (low s) DISK0_DEV_NO) \<and> ide_size (ide_devices (low s) DISK0_DEV_NO) < 2 ^ 64 \<and>
     mapped (kbuf s) (disk0_buffer (low s)) SFS_BLKSIZE"

lemma length_disk_blk [simp]: "length (disk_blk s b) = SFS_BLKSIZE"
  by (simp add: disk_blk_def)

lemma block_word:
  assumes "unat (b :: 32 word) < 0x100000"
  shows "unat (b * of_nat SFS_BLKSIZE) = unat b * 4096" "unat (b * of_nat DISK0_BLK_NSECT) = unat b * 8"
    "unat (b + 1) = unat b + 1"
  using assms by (simp_all add: SFS_BLKSIZE_def unat_word_ariths)

lemma block_offset:
  assumes "unat (b :: 32 word) < 0x100000"
  shows "sint (ucast (b * of_nat SFS_BLKSIZE) :: 64 word) = int (unat b) * 4096"
proof -
  let ?w = "ucast (b * of_nat SFS_BLKSIZE) :: 64 word"
  have u: "unat ?w = unat b * 4096"
    using block_word(1) [OF assms] assms by (simp add: unsigned_ucast_eq take_bit_nat_eq_self)
  then have "uint ?w = int (unat b) * 4096" by (metis int_ops(7) of_nat_numeral uint_nat)
  moreover have "int (unat b) < 0x100000" using assms by linarith
  then have "int (unat b) * 4096 < 2 ^ 63" by simp
  moreover have "- (2 ^ 63) \<le> int (unat b) * 4096" by (rule order_trans [of _ 0]) simp_all
  ultimately have "signed_take_bit 63 (uint ?w) = int (unat b) * 4096"
    by (metis signed_take_bit_int_eq_self)
  then show ?thesis by (simp add: sint_uint)
qed

lemma low_same [simp]: "l\<lparr>disk0_sem := disk0_sem l\<rparr> = (l :: klow)"
  by simp

lemma ramdisk_block:
  assumes "unat (b :: 32 word) < d" "8 * d \<le> ide_size v" "ide_size v < 2 ^ 64" "d \<le> 0x100000"
  shows "ramdisk_nsecs v (unat b * 8) 8 = 8" "unat b * 8 + 8 \<le> ide_size v"
proof -
  show l: "unat b * 8 + 8 \<le> ide_size v" using assms by linarith
  have d: "unat (of_nat n - of_nat k :: 64 word) = n - k" if "k \<le> n" "n < 2 ^ 64" for n k
    using that by (subst unat_sub) (simp_all add: word_le_nat_alt unat_of_nat take_bit_nat_eq_self)
  have "unat (of_nat (ide_size v) - of_nat (unat b * 8) :: 64 word) = ide_size v - unat b * 8"
    by (rule d) (use l assms(3) in linarith)+
  then show "ramdisk_nsecs v (unat b * 8) 8 = 8" using l by (simp add: ramdisk_nsecs_def)
qed

lemma disk0_read_block:
  assumes ok: "disk_ok s d" "unat b < d_blocks d"
  shows "disk0_read_blks_nolock b 1 s = Some (set_kbuf (overlay (disk0_buffer (low s)) (disk_blk s (unat b)) (kbuf s)) s)"
proof -
  have b: "unat b < 0x100000" using ok by (simp add: disk_ok_def)
  have r: "ramdisk_nsecs (ide_devices (low s) DISK0_DEV_NO) (unat b * 8) 8 = 8"
    "unat b * 8 + 8 \<le> ide_size (ide_devices (low s) DISK0_DEV_NO)"
    using ramdisk_block [of b "d_blocks d" "ide_devices (low s) DISK0_DEV_NO"] ok by (simp_all add: disk_ok_def)
  have e: "map (ide_data (ide_devices (low s) DISK0_DEV_NO)) [unat b * 8 * SECTSIZE..<(unat b * 8 + 8) * SECTSIZE] = disk_blk s (unat b)"
    by (simp add: disk_blk_def SECTSIZE_def SFS_BLKSIZE_def algebra_simps)
  have w: "wr_bytes (disk0_buffer (low s)) (disk_blk s (unat b)) (kbuf s) =
      Some (overlay (disk0_buffer (low s)) (disk_blk s (unat b)) (kbuf s))"
    by (rule wr_bytes_overlay) (use ok in \<open>simp add: disk_ok_def\<close>)
  have u: "unat ((1 :: 32 word) * of_nat DISK0_BLK_NSECT) = 8" by simp
  show ?thesis
    unfolding disk0_read_blks_nolock_def ide_read_secs_def ramdisk_read_def Let_def u block_word(2) [OF b] r(1) e w
    using ok b r(2) by (simp add: disk_ok_def VALID_IDE_def MAX_NSECS_def MAX_IDE_def DISK0_DEV_NO_def MAX_DISK_NSECS_def set_kbuf_def)
qed

lemma disk0_write_block:
  assumes ok: "disk_ok s d" "unat b < d_blocks d"
    and data: "rd_bytes (disk0_buffer (low s)) SFS_BLKSIZE (kbuf s) = Some data"
  shows "disk0_write_blks_nolock b 1 s = Some (set_disk (unat b) data s)"
proof -
  have b: "unat b < 0x100000" using ok by (simp add: disk_ok_def)
  have r: "ramdisk_nsecs (ide_devices (low s) DISK0_DEV_NO) (unat b * 8) 8 = 8"
    "unat b * 8 + 8 \<le> ide_size (ide_devices (low s) DISK0_DEV_NO)"
    using ramdisk_block [of b "d_blocks d" "ide_devices (low s) DISK0_DEV_NO"] ok by (simp_all add: disk_ok_def)
  have e: "8 * SECTSIZE = SFS_BLKSIZE" "unat b * 8 * SECTSIZE = unat b * SFS_BLKSIZE" by (simp_all add: SECTSIZE_def SFS_BLKSIZE_def)
  have u: "unat ((1 :: 32 word) * of_nat DISK0_BLK_NSECT) = 8" by simp
  show ?thesis
    unfolding disk0_write_blks_nolock_def ide_write_secs_def ramdisk_write_def Let_def u block_word(2) [OF b] r(1) e data
    using ok b r(2) by (simp add: disk_ok_def VALID_IDE_def MAX_NSECS_def MAX_IDE_def DISK0_DEV_NO_def MAX_DISK_NSECS_def
        set_disk_def upd_low_def e)
qed

lemma block_params:
  assumes "unat (b :: 32 word) < 0x100000"
  shows "sint (ucast (b * of_nat SFS_BLKSIZE) :: 64 word) mod int DISK0_BLKSIZE = 0"
    "word_of_int (sint (ucast (b * of_nat SFS_BLKSIZE) :: 64 word) div int DISK0_BLKSIZE) = b"
  using block_offset [OF assms] by (simp_all add: DISK0_BLKSIZE_def)

lemma set_disk_sels [simp]:
  "disk0_sem (low (set_disk i data s)) = disk0_sem (low s)" "kbuf (set_disk i data s) = kbuf s"
  "sfss (low (set_disk i data s)) = sfss (low s)" "sins (low (set_disk i data s)) = sins (low s)"
  "devs (low (set_disk i data s)) = devs (low s)" "inodes (set_disk i data s) = inodes s"
  "disk0_buffer (low (set_disk i data s)) = disk0_buffer (low s)" "slinks (low (set_disk i data s)) = slinks (low s)"
  by (simp_all add: set_disk_def upd_low_def)

definition lock0 :: "int \<Rightarrow> kvst \<Rightarrow> kvst" where
  "lock0 k s = upd_low (\<lambda>l. l\<lparr>disk0_sem := k\<rparr>) s"

lemma lock0_simps [simp]:
  "disk_ok (lock0 k s) d = disk_ok s d" "disk_blk (lock0 k s) b = disk_blk s b" "kbuf (lock0 k s) = kbuf s"
  "disk0_buffer (low (lock0 k s)) = disk0_buffer (low s)" "disk0_sem (low (lock0 k s)) = k"
  "lock0 j (lock0 k s) = lock0 j s" "set_kbuf m (lock0 k s) = lock0 k (set_kbuf m s)"
  "set_disk i data (lock0 k s) = lock0 k (set_disk i data s)" "disk0_sem (low s) = k \<Longrightarrow> lock0 k s = s"
  by (auto simp: lock0_def upd_low_def disk_ok_def disk_blk_def set_kbuf_def set_disk_def)

lemma lock_disk0_eq: "disk0_sem (low s) > 0 \<Longrightarrow> lock_disk0 s = Some (lock0 (disk0_sem (low s) - 1) s)"
  "unlock_disk0 s = lock0 (disk0_sem (low s) + 1) s"
  by (simp_all add: lock_disk0_def unlock_disk0_def lock0_def upd_low_def)

lemma kbuf_set [simp]: "kbuf (set_kbuf m s) = m" "low (set_kbuf m s) = low s" "inodes (set_kbuf m s) = inodes s"
  "set_kbuf m (set_kbuf m' s) = set_kbuf m s"
  by (simp_all add: set_kbuf_def)

lemma disk_ok_set_kbuf: "disk_ok s d \<Longrightarrow> disk_ok (set_kbuf (overlay a bs (kbuf s)) s) d"
  by (simp add: disk_ok_def)

lemma io_loop_read:
  assumes ok: "disk_ok s d" "unat b < d_blocks d" and buf: "mapped (kbuf s) buf SFS_BLKSIZE"
    and iob: "iob = iobuf_init buf SFS_BLKSIZE off"
  shows "\<exists>iob'. disk0_io_loop False SFS_BLKSIZE b iob s = Some (iob',
    set_kbuf (overlay buf (disk_blk s (unat b)) (overlay (disk0_buffer (low s)) (disk_blk s (unat b)) (kbuf s))) s)"
proof -
  let ?t = "set_kbuf (overlay (disk0_buffer (low s)) (disk_blk s (unat b)) (kbuf s)) s"
  have w: "wr_bytes buf (disk_blk s (unat b)) (kbuf ?t) = Some (overlay buf (disk_blk s (unat b)) (kbuf ?t))"
    by (rule wr_bytes_overlay) (simp add: buf)
  have m: "\<exists>iob'. iobuf_move_in iob (disk_blk s (unat b)) ?t = Some (0, SFS_BLKSIZE, iob', set_kbuf (overlay buf (disk_blk s (unat b)) (kbuf ?t)) ?t)"
    unfolding iobuf_move_in_def Let_def
    by (simp add: iob iobuf_init_def w [simplified] iobuf_skip_def SFS_BLKSIZE_def [symmetric] set_kbuf_def [symmetric]) (simp add: SFS_BLKSIZE_def)
  then obtain iob' where m: "iobuf_move_in iob (disk_blk s (unat b)) ?t = Some (0, SFS_BLKSIZE, iob', set_kbuf (overlay buf (disk_blk s (unat b)) (kbuf ?t)) ?t)"
    by blast
  have c: "SFS_BLKSIZE \<noteq> 0" "(if DISK0_BUFSIZE > SFS_BLKSIZE then SFS_BLKSIZE else DISK0_BUFSIZE) = SFS_BLKSIZE"
    "SFS_BLKSIZE div DISK0_BLKSIZE = 1" "SFS_BLKSIZE mod DISK0_BLKSIZE = 0"
    by (simp_all add: SFS_BLKSIZE_def DISK0_BUFSIZE_def DISK0_BLKSIZE_def)
  show ?thesis
    by (subst disk0_io_loop.simps)
      (simp add: Let_def c disk0_read_block [OF ok] m [simplified] disk0_io_loop.simps [of False 0])
qed

lemma io_loop_write:
  assumes ok: "disk_ok s d" "unat b < d_blocks d" and data: "rd_bytes buf SFS_BLKSIZE (kbuf s) = Some data"
    and iob: "iob = iobuf_init buf SFS_BLKSIZE off"
  shows "\<exists>iob'. disk0_io_loop True SFS_BLKSIZE b iob s = Some (iob',
    set_disk (unat b) data (set_kbuf (overlay (disk0_buffer (low s)) data (kbuf s)) s))"
proof -
  let ?t = "set_kbuf (overlay (disk0_buffer (low s)) data (kbuf s)) s"
  have l: "length data = SFS_BLKSIZE" using data by (simp add: rd_bytes_Some)
  have w: "wr_bytes (disk0_buffer (low s)) data (kbuf s) = Some (overlay (disk0_buffer (low s)) data (kbuf s))"
    by (rule wr_bytes_overlay) (use ok(1) l in \<open>simp add: disk_ok_def\<close>)
  have c: "SFS_BLKSIZE \<noteq> 0" "min SFS_BLKSIZE DISK0_BUFSIZE = SFS_BLKSIZE"
    "SFS_BLKSIZE div DISK0_BLKSIZE = 1" "SFS_BLKSIZE mod DISK0_BLKSIZE = 0"
    by (simp_all add: SFS_BLKSIZE_def DISK0_BUFSIZE_def DISK0_BLKSIZE_def)
  have "\<exists>r iob'. iobuf_move_out iob DISK0_BUFSIZE s = Some (r, data, iob')"
    unfolding iobuf_move_out_def Let_def by (simp add: iob iobuf_init_def c data iobuf_skip_def)
  then obtain r iob' where m: "iobuf_move_out iob DISK0_BUFSIZE s = Some (r, data, iob')" by blast
  have "disk_ok ?t d" using ok(1) by (rule disk_ok_set_kbuf)
  moreover have "rd_bytes (disk0_buffer (low ?t)) SFS_BLKSIZE (kbuf ?t) = Some data" using l by simp
  ultimately have "disk0_write_blks_nolock b 1 ?t = Some (set_disk (unat b) data ?t)" using ok(2) by (intro disk0_write_block)
  moreover have "data \<noteq> []" using l by (auto simp: SFS_BLKSIZE_def)
  ultimately show ?thesis
    by (subst disk0_io_loop.simps) (simp add: Let_def c m w l disk0_io_loop.simps [of _ 0])
qed

lemma disk0_io_read:
  assumes ok: "disk_ok s d" "unat (b :: 32 word) < d_blocks d" "disk0_sem (low s) > 0" and buf: "mapped (kbuf s) buf SFS_BLKSIZE"
  shows "\<exists>iob'. disk0_io d (iobuf_init buf SFS_BLKSIZE (ucast (b * of_nat SFS_BLKSIZE))) False s = Some (0, iob',
    set_kbuf (overlay buf (disk_blk s (unat b)) (overlay (disk0_buffer (low s)) (disk_blk s (unat b)) (kbuf s))) s)"
proof -
  let ?i = "iobuf_init buf SFS_BLKSIZE (ucast (b * of_nat SFS_BLKSIZE))"
  have b: "unat b < 0x100000" using ok by (simp add: disk_ok_def)
  obtain iob' where r: "disk0_io_loop False SFS_BLKSIZE b ?i (lock0 (disk0_sem (low s) - 1) s) = Some (iob',
      set_kbuf (overlay buf (disk_blk s (unat b)) (overlay (disk0_buffer (low s)) (disk_blk s (unat b)) (kbuf s))) (lock0 (disk0_sem (low s) - 1) s))"
    using io_loop_read [of "lock0 (disk0_sem (low s) - 1) s" d b buf ?i] ok(1,2) buf by auto
  have f: "io_offset ?i = ucast (b * of_nat SFS_BLKSIZE)" "io_resid ?i = SFS_BLKSIZE" by (simp_all add: iobuf_init_def)
  have c: "SFS_BLKSIZE mod DISK0_BLKSIZE = 0" "of_nat (SFS_BLKSIZE div DISK0_BLKSIZE) = (1 :: 32 word)"
    by (simp_all add: SFS_BLKSIZE_def DISK0_BLKSIZE_def)
  have n: "\<not> d_blocks d < unat (b + 1)" using block_word(3) [OF b] ok(2) by simp
  show ?thesis
    unfolding disk0_io_def Let_def f block_params [OF b] c
    using n ok(3) r by (simp add: lock_disk0_eq)
qed

lemma disk0_io_write:
  assumes ok: "disk_ok s d" "unat (b :: 32 word) < d_blocks d" "disk0_sem (low s) > 0"
    and data: "rd_bytes buf SFS_BLKSIZE (kbuf s) = Some data"
  shows "\<exists>iob'. disk0_io d (iobuf_init buf SFS_BLKSIZE (ucast (b * of_nat SFS_BLKSIZE))) True s = Some (0, iob',
    set_disk (unat b) data (set_kbuf (overlay (disk0_buffer (low s)) data (kbuf s)) s))"
proof -
  let ?i = "iobuf_init buf SFS_BLKSIZE (ucast (b * of_nat SFS_BLKSIZE))"
  have b: "unat b < 0x100000" using ok by (simp add: disk_ok_def)
  obtain iob' where r: "disk0_io_loop True SFS_BLKSIZE b ?i (lock0 (disk0_sem (low s) - 1) s) = Some (iob',
      set_disk (unat b) data (set_kbuf (overlay (disk0_buffer (low s)) data (kbuf s)) (lock0 (disk0_sem (low s) - 1) s)))"
    using io_loop_write [of "lock0 (disk0_sem (low s) - 1) s" d b buf data ?i] ok(1,2) data by auto
  have f: "io_offset ?i = ucast (b * of_nat SFS_BLKSIZE)" "io_resid ?i = SFS_BLKSIZE" by (simp_all add: iobuf_init_def)
  have c: "SFS_BLKSIZE mod DISK0_BLKSIZE = 0" "of_nat (SFS_BLKSIZE div DISK0_BLKSIZE) = (1 :: 32 word)"
    by (simp_all add: SFS_BLKSIZE_def DISK0_BLKSIZE_def)
  have n: "\<not> d_blocks d < unat (b + 1)" using block_word(3) [OF b] ok(2) by simp
  show ?thesis
    unfolding disk0_io_def Let_def f block_params [OF b] c
    using n ok(3) r by (simp add: lock_disk0_eq)
qed

subsection \<open>Blocks of a file system\<close>

definition blk_ok :: "kvst \<Rightarrow> nat \<Rightarrow> bool" where
  "blk_ok s f \<longleftrightarrow> disk_ok s (devs (low s) (sfs_dev (fs_of s f))) \<and> disk0_sem (low s) > 0 \<and>
     unat (blocks (super (fs_of s f))) \<le> d_blocks (devs (low s) (sfs_dev (fs_of s f))) \<and>
     mapped (kbuf s) (sfs_buffer (fs_of s f)) SFS_BLKSIZE \<and>
     apart (disk0_buffer (low s)) SFS_BLKSIZE (sfs_buffer (fs_of s f)) SFS_BLKSIZE"

text \<open>The memory after a transfer through the disk's buffer \<open>d\<close> and after one that ends in \<open>buf\<close>.\<close>

definition through :: "kvst \<Rightarrow> byte list \<Rightarrow> cmem" where
  "through s data = overlay (disk0_buffer (low s)) data (kbuf s)"

lemma rwblock_read:
  assumes ok: "blk_ok s f" and b: "b < blocks (super (fs_of s f))" "b \<noteq> 0 \<or> \<not> check" and buf: "mapped (kbuf s) buf SFS_BLKSIZE"
  shows "sfs_rwblock_nolock f buf b False check s =
    Some (0, set_kbuf (overlay buf (disk_blk s (unat b)) (through s (disk_blk s (unat b)))) s)"
proof -
  let ?d = "devs (low s) (sfs_dev (fs_of s f))"
  have d: "disk_ok s ?d" "disk0_sem (low s) > 0" using ok by (simp_all add: blk_ok_def)
  have n: "unat b < d_blocks ?d" using ok b(1) by (simp add: blk_ok_def word_less_nat_alt)
  obtain iob' where "disk0_io ?d (iobuf_init buf SFS_BLKSIZE (ucast (b * of_nat SFS_BLKSIZE))) False s = Some (0, iob',
    set_kbuf (overlay buf (disk_blk s (unat b)) (through s (disk_blk s (unat b)))) s)"
    using disk0_io_read [OF d(1) n d(2) buf] by (auto simp: through_def)
  then show ?thesis
    using b d(1) by (simp add: sfs_rwblock_nolock_def Let_def dop_io_def disk_ok_def)
qed

lemma rwblock_write:
  assumes ok: "blk_ok s f" and b: "b < blocks (super (fs_of s f))" "b \<noteq> 0 \<or> \<not> check"
    and data: "rd_bytes buf SFS_BLKSIZE (kbuf s) = Some data"
  shows "sfs_rwblock_nolock f buf b True check s = Some (0, set_disk (unat b) data (set_kbuf (through s data) s))"
proof -
  let ?d = "devs (low s) (sfs_dev (fs_of s f))"
  have d: "disk_ok s ?d" "disk0_sem (low s) > 0" using ok by (simp_all add: blk_ok_def)
  have n: "unat b < d_blocks ?d" using ok b(1) by (simp add: blk_ok_def word_less_nat_alt)
  obtain iob' where "disk0_io ?d (iobuf_init buf SFS_BLKSIZE (ucast (b * of_nat SFS_BLKSIZE))) True s = Some (0, iob',
    set_disk (unat b) data (set_kbuf (through s data) s))"
    using disk0_io_write [OF d(1) n d(2) data] by (auto simp: through_def)
  then show ?thesis
    using b d(1) by (simp add: sfs_rwblock_nolock_def Let_def dop_io_def disk_ok_def)
qed

lemma rwblock_zero: "sfs_rwblock_nolock f buf 0 write True s = None"
  by (simp add: sfs_rwblock_nolock_def)

definition fs_ok :: "kvst \<Rightarrow> nat \<Rightarrow> bool" where
  "fs_ok s f \<longleftrightarrow> blk_ok s f \<and> io_sem (fs_of s f) > 0"

definition iolock :: "nat \<Rightarrow> int \<Rightarrow> kvst \<Rightarrow> kvst" where
  "iolock f k s = upd_sfs f (\<lambda>x. x\<lparr>io_sem := k\<rparr>) s"

lemma upd_same [simp]: "x\<lparr>io_sem := io_sem x\<rparr> = (x :: sfs_fs)"
  by simp

lemma iolock_sels [simp]:
  "kbuf (iolock f k s) = kbuf s" "disk_blk (iolock f k s) b = disk_blk s b" "through (iolock f k s) data = through s data"
  "io_sem (fs_of (iolock f k s) f) = k" "sfs_buffer (fs_of (iolock f k s) g) = sfs_buffer (fs_of s g)"
  "super (fs_of (iolock f k s) g) = super (fs_of s g)" "freemap (fs_of (iolock f k s) g) = freemap (fs_of s g)"
  "disk0_buffer (low (iolock f k s)) = disk0_buffer (low s)"
  by (simp_all add: iolock_def upd_sfs_def upd_low_def disk_blk_def through_def)

lemma iolock_move [simp]:
  "iolock f j (iolock f k s) = iolock f j s" "set_kbuf m (iolock f k s) = iolock f k (set_kbuf m s)"
  "set_disk i data (iolock f k s) = iolock f k (set_disk i data s)" "io_sem (fs_of s f) = k \<Longrightarrow> iolock f k s = s"
  by (auto simp: iolock_def upd_sfs_def upd_low_def set_kbuf_def set_disk_def)

lemma blk_ok_iolock [simp]: "blk_ok (iolock f k s) g = blk_ok s g"
  by (simp add: blk_ok_def disk_ok_def iolock_def upd_sfs_def upd_low_def)

lemma blk_okD: "blk_ok s f \<Longrightarrow> mapped (kbuf s) (sfs_buffer (fs_of s f)) SFS_BLKSIZE"
  by (simp add: blk_ok_def)

lemma blk_ok_set_kbuf: "blk_ok s f \<Longrightarrow> blk_ok (set_kbuf (overlay a bs (kbuf s)) s) f"
  by (simp add: blk_ok_def disk_ok_def)

lemma blk_ok_through: "blk_ok s f \<Longrightarrow> blk_ok (set_kbuf (through s bs) s) f"
  by (simp add: through_def blk_ok_set_kbuf)

lemma blk_ok_set_disk [simp]: "blk_ok (set_disk i data s) f = blk_ok s f"
  by (simp add: blk_ok_def disk_ok_def) (simp add: set_disk_def upd_low_def)

lemma through_sels [simp]: "mapped (kbuf s) a n \<Longrightarrow> mapped (through s data) a n"
  by (simp add: through_def)

lemma lock_sfs_io_eq: "io_sem (fs_of s f) > 0 \<Longrightarrow> lock_sfs_io f s = Some (iolock f (io_sem (fs_of s f) - 1) s)"
  "unlock_sfs_io f s = iolock f (io_sem (fs_of s f) + 1) s"
  by (simp_all add: lock_sfs_io_def unlock_sfs_io_def iolock_def upd_sfs_def upd_low_def)

text \<open>Memory after a block was read into \<open>sfs_buffer\<close>.\<close>

definition loaded :: "nat \<Rightarrow> byte list \<Rightarrow> kvst \<Rightarrow> kvst" where
  "loaded f data s = set_kbuf (overlay (sfs_buffer (fs_of s f)) data (through s data)) s"

lemma sfs_rbuf_eq:
  assumes ok: "fs_ok s f" and b: "b < blocks (super (fs_of s f))" "b \<noteq> 0" and o: "offset < SFS_BLKSIZE" "offset + len \<le> SFS_BLKSIZE"
  shows "sfs_rbuf f len b offset s =
    Some (0, take len (drop offset (disk_blk s (unat b))), loaded f (disk_blk s (unat b)) s)"
proof -
  let ?u = "iolock f (io_sem (fs_of s f) - 1) s"
  have bo: "blk_ok s f" "io_sem (fs_of s f) > 0" using ok by (simp_all add: fs_ok_def)
  have "sfs_rwblock_nolock f (sfs_buffer (fs_of s f)) b False True ?u =
      Some (0, iolock f (io_sem (fs_of s f) - 1) (loaded f (disk_blk s (unat b)) s))"
    using rwblock_read [of ?u f b True "sfs_buffer (fs_of s f)"] bo b blk_okD [OF bo(1)] by (simp add: loaded_def)
  moreover have "rd_bytes (sfs_buffer (fs_of s f) + offset) len (kbuf (loaded f (disk_blk s (unat b)) s)) =
      Some (take len (drop offset (disk_blk s (unat b))))"
    unfolding loaded_def using o by (simp add: rd_overlay_in)
  ultimately show ?thesis
    using o bo by (simp add: sfs_rbuf_def lock_sfs_io_eq) (simp add: loaded_def)
qed

text \<open>\<open>splice\<close> of bytes into a block.\<close>

definition patch :: "nat \<Rightarrow> byte list \<Rightarrow> byte list \<Rightarrow> byte list" where
  "patch i xs bs = take i bs @ xs @ drop (i + length xs) bs"

lemma length_patch [simp]: "i + length xs \<le> length bs \<Longrightarrow> length (patch i xs bs) = length bs"
  by (simp add: patch_def)

lemma overlay_patch: "i + length xs \<le> length bs \<Longrightarrow> overlay (a + i) xs (overlay a bs m) = overlay a (patch i xs bs) m"
  by (rule ext) (auto simp: overlay_def patch_def nth_append)

text \<open>\<open>m\<close> is the memory of \<open>s\<close> up to the two transfer buffers.\<close>

definition scratch :: "nat \<Rightarrow> kvst \<Rightarrow> cmem \<Rightarrow> bool" where
  "scratch f s m \<longleftrightarrow> (\<forall>x. apart (disk0_buffer (low s)) SFS_BLKSIZE x 1 \<longrightarrow> apart (sfs_buffer (fs_of s f)) SFS_BLKSIZE x 1 \<longrightarrow>
       m x = kbuf s x) \<and> (\<forall>x. kbuf s x \<noteq> None \<longrightarrow> m x \<noteq> None)"

lemma scratch_mapped: "scratch f s m \<Longrightarrow> mapped (kbuf s) a n \<Longrightarrow> mapped m a n"
  by (simp add: scratch_def mapped_def)

lemma scratch_overlays:
  "length xs = SFS_BLKSIZE \<Longrightarrow> length ys = SFS_BLKSIZE \<Longrightarrow> length zs = SFS_BLKSIZE \<Longrightarrow>
    scratch f s (overlay (disk0_buffer (low s)) xs (overlay (sfs_buffer (fs_of s f)) ys (overlay (disk0_buffer (low s)) zs (kbuf s))))"
  "length xs = SFS_BLKSIZE \<Longrightarrow> length ys = SFS_BLKSIZE \<Longrightarrow>
    scratch f s (overlay (disk0_buffer (low s)) xs (overlay (sfs_buffer (fs_of s f)) ys (kbuf s)))"
  "length xs = SFS_BLKSIZE \<Longrightarrow> length ys = SFS_BLKSIZE \<Longrightarrow>
    scratch f s (overlay (sfs_buffer (fs_of s f)) ys (overlay (disk0_buffer (low s)) xs (kbuf s)))"
  by (auto simp: scratch_def overlay_def apart_def)

lemma fs_ok_scratch: "fs_ok s f \<Longrightarrow> scratch f s m \<Longrightarrow> fs_ok (set_kbuf m s) f"
  by (auto simp: fs_ok_def blk_ok_def disk_ok_def intro: scratch_mapped)

lemma fs_ok_set_disk [simp]: "fs_ok (set_disk i data s) f = fs_ok s f"
  by (simp add: fs_ok_def)

lemma loaded_scratch: "\<exists>m. loaded f (disk_blk s b) s = set_kbuf m s \<and> scratch f s m"
  unfolding loaded_def through_def by (rule exI, rule conjI, rule refl) (simp add: scratch_overlays)

lemma disk_blk_set_disk:
  "length data = SFS_BLKSIZE \<Longrightarrow> disk_blk (set_disk i data s) j = (if j = i then data else disk_blk s j)"
proof -
  assume l: "length data = SFS_BLKSIZE"
  have "ide_data (ide_devices (low (set_disk i data s)) DISK0_DEV_NO) = put_bytes (i * SFS_BLKSIZE) data (ide_data (ide_devices (low s) DISK0_DEV_NO))"
    by (simp add: set_disk_def upd_low_def)
  moreover have "i * SFS_BLKSIZE \<le> j * SFS_BLKSIZE + k \<and> j * SFS_BLKSIZE + k < i * SFS_BLKSIZE + SFS_BLKSIZE \<longleftrightarrow> j = i" if "k < SFS_BLKSIZE" for k
    using that by (auto simp: SFS_BLKSIZE_def)
  ultimately show ?thesis
    by (intro nth_equalityI) (auto simp: l disk_blk_def put_bytes_at)
qed

lemma disk_blk_set_kbuf [simp]: "disk_blk (set_kbuf m s) b = disk_blk s b"
  by (simp add: disk_blk_def)

lemma sfs_wbuf_eq:
  assumes ok: "fs_ok s f" and b: "b < blocks (super (fs_of s f))" "b \<noteq> 0"
    and o: "offset < SFS_BLKSIZE" "offset + length data \<le> SFS_BLKSIZE"
  shows "\<exists>m. sfs_wbuf f data b offset s = Some (0, set_disk (unat b) (patch offset data (disk_blk s (unat b))) (set_kbuf m s)) \<and>
    scratch f s m"
proof -
  let ?u = "iolock f (io_sem (fs_of s f) - 1) s"
  let ?blk = "disk_blk s (unat b)"
  let ?a = "sfs_buffer (fs_of s f)"
  let ?l = "loaded f ?blk s"
  let ?p = "patch offset data ?blk"
  have bo: "blk_ok s f" "io_sem (fs_of s f) > 0" using ok by (simp_all add: fs_ok_def)
  have r: "sfs_rwblock_nolock f ?a b False True ?u = Some (0, iolock f (io_sem (fs_of s f) - 1) ?l)"
    using rwblock_read [of ?u f b True ?a] bo b blk_okD [OF bo(1)] by (simp add: loaded_def)
  have w: "wr_bytes (?a + offset) data (kbuf ?l) = Some (overlay ?a ?p (through s ?blk))"
  proof -
    have "mapped (kbuf ?l) (?a + offset) (length data)"
      unfolding loaded_def by (rule mapped_sub [OF _ o(2)]) (simp add: blk_okD [OF bo(1)])
    then show ?thesis using o by (simp add: wr_bytes_overlay loaded_def overlay_patch)
  qed
  let ?v = "set_kbuf (overlay ?a ?p (through s ?blk)) s"
  have p: "length ?p = SFS_BLKSIZE" using o by simp
  have bv: "blk_ok ?v f" using bo(1) by (simp add: blk_ok_def disk_ok_def)
  have "rd_bytes ?a SFS_BLKSIZE (kbuf ?v) = Some ?p" using p by simp
  then have x: "sfs_rwblock_nolock f ?a b True True (iolock f (io_sem (fs_of s f) - 1) ?v) =
      Some (0, set_disk (unat b) ?p (set_kbuf (through ?v ?p) (iolock f (io_sem (fs_of s f) - 1) ?v)))"
    using rwblock_write [of "iolock f (io_sem (fs_of s f) - 1) ?v" f b True ?a ?p] bv b by (simp del: iolock_move)
  have "sfs_wbuf f data b offset s = Some (0, set_disk (unat b) ?p (set_kbuf (through ?v ?p) s))"
    using o bo r w x by (simp add: sfs_wbuf_def lock_sfs_io_eq) (simp add: loaded_def)
  then show ?thesis
    using p by (intro exI [of _ "through ?v ?p"]) (simp add: through_def scratch_overlays)
qed

lemma sfs_clear_block_eq:
  assumes ok: "fs_ok s f" and b: "b < blocks (super (fs_of s f))" "b \<noteq> 0"
  shows "\<exists>m. sfs_clear_block f b 1 s = Some (0, set_disk (unat b) (replicate SFS_BLKSIZE 0) (set_kbuf m s)) \<and> scratch f s m"
proof -
  let ?k = "io_sem (fs_of s f) - 1"
  let ?a = "sfs_buffer (fs_of s f)"
  let ?z = "replicate SFS_BLKSIZE (0 :: byte)"
  have bo: "blk_ok s f" "io_sem (fs_of s f) > 0" using ok by (simp_all add: fs_ok_def)
  let ?v = "set_kbuf (overlay ?a ?z (kbuf s)) s"
  have m: "memset ?a 0 SFS_BLKSIZE (kbuf s) = Some (overlay ?a ?z (kbuf s))"
    by (rule memset_overlay) (rule blk_okD [OF bo(1)])
  have "blk_ok ?v f" using bo(1) by (rule blk_ok_set_kbuf)
  moreover have "rd_bytes ?a SFS_BLKSIZE (kbuf ?v) = Some ?z" by simp
  ultimately have x: "sfs_rwblock_nolock f ?a b True True (iolock f ?k ?v) =
      Some (0, set_disk (unat b) ?z (set_kbuf (through ?v ?z) (iolock f ?k ?v)))"
    using rwblock_write [of "iolock f ?k ?v" f b True ?a ?z] b by (simp del: iolock_move)
  have "sfs_clear_block f b 1 s = Some (0, set_disk (unat b) ?z (set_kbuf (through ?v ?z) s))"
    using bo(2) m x by (simp add: sfs_clear_block_def lock_sfs_io_eq)
  then show ?thesis
    by (intro exI [of _ "through ?v ?z"]) (simp add: through_def scratch_overlays)
qed

end
