(* ===== verification/SfsProps.thy ===== *)
theory SfsProps
  imports BlockIo
begin

section \<open>The free map and the files of the simple file system: properties\<close>

subsection \<open>Words in memory\<close>

lemma un32_le32 [simp]: "un32 (le32 w @ bs) = w"
proof (rule bit_word_eqI)
  fix n assume "n < LENGTH(32)"
  then consider "n < 8" | "8 \<le> n" "n < 16" | "16 \<le> n" "n < 24" | "24 \<le> n" "n < 32" by fastforce
  then show "bit (un32 (le32 w @ bs)) n = bit w n"
    by cases (auto simp: un32_def le32_def bit_or_iff bit_push_bit_iff bit_ucast_iff bit_drop_bit_eq)
qed

lemma un32_le32' [simp]: "un32 (le32 w) = w"
  using un32_le32 [of w "[]"] by simp

lemma un16_le16 [simp]: "un16 (le16 w @ bs) = w"
  by (rule bit_eqI) (auto simp: un16_def le16_def bit_or_iff bit_push_bit_iff bit_ucast_iff bit_drop_bit_eq)

lemma length_le [simp]: "length (le32 w) = 4" "length (le16 x) = 2"
  by (simp_all add: le32_def le16_def)

lemma ld32_mapped: "mapped m a 4 \<Longrightarrow> \<exists>w. ld32 a m = Some w"
  using rd_bytes_mapped [of m a 4] by (auto simp: ld32_def)

lemma st32_eq: "mapped m a 4 \<Longrightarrow> st32 a w m = Some (overlay a (le32 w) m)"
  by (simp add: st32_def wr_bytes_overlay)

lemma ld32_st32: "ld32 a (overlay a (le32 w) m) = Some w"
  by (simp add: ld32_def)

lemma ld32_apart: "apart a (length bs) b 4 \<Longrightarrow> ld32 b (overlay a bs m) = ld32 b m"
  by (simp add: ld32_def rd_overlay_apart)

lemma mask_bit: "(w AND push_bit k 1 \<noteq> 0) = bit (w :: 32 word) k"
  by (simp add: bit_iff_and_push_bit_not_eq_0)

subsection \<open>The free map\<close>

definition free_bit :: "bitmap \<Rightarrow> cmem \<Rightarrow> nat \<Rightarrow> bool" where
  "free_bit b m i \<longleftrightarrow> (case ld32 (bits_at b + 4 * (i div 32)) m of Some w \<Rightarrow> bit w (i mod 32) | None \<Rightarrow> False)"

definition bm_ok :: "bitmap \<Rightarrow> cmem \<Rightarrow> bool" where
  "bm_ok b m \<longleftrightarrow> mapped m (bits_at b) (4 * unat (nwords b)) \<and> unat (nbits b) = 32 * unat (nwords b)"

lemma word_at: "mapped m a (4 * n) \<Longrightarrow> k < n \<Longrightarrow> mapped m (a + 4 * k) 4"
  by (erule mapped_sub) linarith

lemma bit_word:
  assumes "ld32 (bits_at b + 4 * k) m = Some w" "o' < 32"
  shows "free_bit b m (k * 32 + o') = bit w o'"
proof -
  have "(k * 32 + o') div 32 = k" "(k * 32 + o') mod 32 = o'" using assms(2) by simp_all
  then show ?thesis using assms(1) by (simp add: free_bit_def)
qed

lemma free_bit_update:
  assumes "bm_ok b m" "k < unat (nwords b)" "ld32 (bits_at b + 4 * k) m = Some w" "o' < 32"
    and v: "\<And>j. j < 32 \<Longrightarrow> bit v j = (if j = o' then c else bit w j)"
  shows "free_bit b (overlay (bits_at b + 4 * k) (le32 v) m) i = (if i = k * 32 + o' then c else free_bit b m i)"
proof (cases "i div 32 = k")
  case True
  then have i: "k * 32 + i mod 32 = i" by (metis div_mult_mod_eq)
  have "free_bit b (overlay (bits_at b + 4 * k) (le32 v) m) (k * 32 + i mod 32) = bit v (i mod 32)"
    by (rule bit_word) (simp_all add: ld32_st32)
  moreover have "free_bit b m (k * 32 + i mod 32) = bit w (i mod 32)" by (rule bit_word [OF assms(3)]) simp
  moreover have "(i = k * 32 + o') = (i mod 32 = o')" using i by (metis add_left_cancel)
  moreover have "bit v (i mod 32) = (if i mod 32 = o' then c else bit w (i mod 32))" by (rule v) simp
  ultimately show ?thesis unfolding i by simp
next
  case False
  then have "apart (bits_at b + 4 * k) (length (le32 v)) (bits_at b + 4 * (i div 32)) 4"
    by (auto simp: apart_def)
  then have "ld32 (bits_at b + 4 * (i div 32)) (overlay (bits_at b + 4 * k) (le32 v) m) = ld32 (bits_at b + 4 * (i div 32)) m"
    by (rule ld32_apart)
  moreover have "i \<noteq> k * 32 + o'" using False assms(4) by auto
  ultimately show ?thesis by (simp add: free_bit_def)
qed

lemma find_first: "(\<exists>j < n. P j) \<Longrightarrow> \<exists>k. List.find P [0..<n] = Some k \<and> k < n \<and> P k \<and> (\<forall>j < k. \<not> P j)"
  by (cases "List.find P [0..<n]") (fastforce simp: find_None_iff find_Some_iff)+

lemma bitmap_alloc_loop_eq:
  assumes ok: "bm_ok b m"
  shows "k \<le> unat (nwords b) \<Longrightarrow> (\<forall>i < 32 * k. \<not> free_bit b m i) \<Longrightarrow>
    (if \<exists>i < unat (nbits b). free_bit b m i then
       \<exists>i m'. bitmap_alloc_loop (bits_at b) [k..<unat (nwords b)] m = Some (0, Some (of_nat i), m') \<and>
         i < unat (nbits b) \<and> free_bit b m i \<and> (\<forall>j < i. \<not> free_bit b m j) \<and>
         (\<forall>j. free_bit b m' j = (free_bit b m j \<and> j \<noteq> i)) \<and>
         (\<exists>bs. length bs = 4 \<and> m' = overlay (bits_at b + 4 * (i div 32)) bs m)
     else bitmap_alloc_loop (bits_at b) [k..<unat (nwords b)] m = Some (- E_NO_MEM, None, m))"
proof (induction "unat (nwords b) - k" arbitrary: k)
  case 0
  then have "k = unat (nwords b)" by simp
  then show ?case using 0 ok by (simp add: bm_ok_def)
next
  case (Suc d)
  then have k: "k < unat (nwords b)" by simp
  then have l: "[k..<unat (nwords b)] = k # [k + 1..<unat (nwords b)]" by (simp add: upt_conv_Cons)
  have mp: "mapped m (bits_at b + 4 * k) 4" using ok k by (auto simp: bm_ok_def intro: word_at)
  then obtain w where w: "ld32 (bits_at b + 4 * k) m = Some w" using ld32_mapped by blast
  show ?case
  proof (cases "w = 0")
    case True
    have "\<forall>i < 32 * (k + 1). \<not> free_bit b m i"
    proof (intro allI impI)
      fix i assume "i < 32 * (k + 1)"
      then consider "i < 32 * k" | o' where "o' < 32" "i = k * 32 + o'"
        by (cases "i < 32 * k") (simp, force dest: le_Suc_ex simp: linorder_not_less mult.commute)
      then show "\<not> free_bit b m i"
      proof cases
        case 2
        then show ?thesis using bit_word [OF w, of o'] True by simp
      qed (use Suc.prems(2) in simp)
    qed
    moreover have "d = unat (nwords b) - (k + 1)" using Suc.hyps(2) by simp
    moreover have "k + 1 \<le> unat (nwords b)" using k by simp
    moreover have "bitmap_alloc_loop (bits_at b) [k..<unat (nwords b)] m = bitmap_alloc_loop (bits_at b) [k + 1..<unat (nwords b)] m"
      unfolding l by (simp add: w True)
    ultimately show ?thesis using Suc.hyps(1) [of "k + 1"] by presburger
  next
    case False
    let ?P = "\<lambda>j. bit w j"
    have "\<exists>j < 32. bit w j"
    proof (rule ccontr)
      assume "\<not> (\<exists>j < 32. bit w j)"
      then have "w = 0" by (intro bit_word_eqI) simp
      then show False using False by simp
    qed
    then obtain o' where f: "List.find ?P [0..<32] = Some o'" "o' < 32" "bit w o'" "\<forall>j < o'. \<not> bit w j"
      using find_first [of 32 ?P] by blast
    let ?v = "w XOR push_bit o' 1"
    let ?m = "overlay (bits_at b + 4 * k) (le32 ?v) m"
    let ?i = "k * 32 + o'"
    have r: "bitmap_alloc_loop (bits_at b) [k..<unat (nwords b)] m = Some (0, Some (of_nat ?i), ?m)"
    proof -
      have fd: "List.find (\<lambda>offset. w AND push_bit offset 1 \<noteq> 0) [0..<WORD_BITS] = Some o'"
        using f(1) by (simp only: mask_bit WORD_BITS_def)
      show ?thesis
        unfolding l using False
        by (simp only: bitmap_alloc_loop.simps w Option.bind.simps simp_thms if_True fd [unfolded WORD_BITS_def] option.simps st32_eq [OF mp] WORD_BITS_def)
    qed
    have v: "bit ?v j = (if j = o' then False else bit w j)" if "j < 32" for j
      using that f(2,3) by (auto simp: bit_xor_iff bit_exp_iff)
    have fb: "free_bit b m ?i" using bit_word [OF w f(2)] f(3) by simp
    have "\<not> free_bit b m j" if j: "j < ?i" for j
    proof (cases "j < 32 * k")
      case True
      then show ?thesis using Suc.prems(2) by simp
    next
      case False
      then obtain j' where "j = k * 32 + j'" by (metis le_Suc_ex linorder_not_less mult.commute)
      then show ?thesis using bit_word [OF w, of j'] f(2,4) j by simp
    qed
    moreover have "?i < unat (nbits b)" using k f(2) ok by (simp add: bm_ok_def)
    moreover have "\<forall>j. free_bit b ?m j = (free_bit b m j \<and> j \<noteq> ?i)"
      using free_bit_update [OF ok k w f(2) v] by auto
    moreover have "\<exists>bs. length bs = 4 \<and> ?m = overlay (bits_at b + 4 * (?i div 32)) bs m"
      using f(2) by (intro exI [of _ "le32 ?v"]) simp
    ultimately show ?thesis using r fb by (subst if_P) (blast, blast)
  qed
qed

subsection \<open>Allocating and releasing blocks\<close>

definition free_blocks :: "kvst \<Rightarrow> nat \<Rightarrow> nat set" where
  "free_blocks s f = {i. i < unat (nbits (freemap (fs_of s f))) \<and> free_bit (freemap (fs_of s f)) (kbuf s) i}"

definition map_ok :: "kvst \<Rightarrow> nat \<Rightarrow> bool" where
  "map_ok s f \<longleftrightarrow> (let b = freemap (fs_of s f) in
     bm_ok b (kbuf s) \<and> apart (disk0_buffer (low s)) SFS_BLKSIZE (bits_at b) (4 * unat (nwords b)) \<and>
     apart (sfs_buffer (fs_of s f)) SFS_BLKSIZE (bits_at b) (4 * unat (nwords b)) \<and>
     unat (blocks (super (fs_of s f))) \<le> unat (nbits b) \<and>
     (\<forall>i \<in> free_blocks s f. 0 < i \<and> i < unat (blocks (super (fs_of s f)))) \<and>
     unat (unused_blocks (super (fs_of s f))) = card (free_blocks s f))"

lemma finite_free_blocks [simp]: "finite (free_blocks s f)"
  by (simp add: free_blocks_def)

lemma rd_bytes_cong: "(\<And>i. i < n \<Longrightarrow> m' (a + i) = m (a + i)) \<Longrightarrow> rd_bytes a n m' = rd_bytes a n m"
proof (induction n arbitrary: a)
  case (Suc n)
  have "m' a = m a" using Suc.prems [of 0] by simp
  moreover have "rd_bytes (a + 1) n m' = rd_bytes (a + 1) n m" using Suc.prems [of "Suc i" for i] by (intro Suc.IH) simp
  ultimately show ?case by simp
qed simp

lemma free_bit_scratch:
  assumes ok: "map_ok s f" and m: "scratch f s m" and i: "i < unat (nbits (freemap (fs_of s f)))"
  shows "free_bit (freemap (fs_of s f)) m i = free_bit (freemap (fs_of s f)) (kbuf s) i"
proof -
  let ?b = "freemap (fs_of s f)"
  have k: "i div 32 < unat (nwords ?b)" using ok i by (simp add: map_ok_def bm_ok_def Let_def)
  have "m (bits_at ?b + 4 * (i div 32) + j) = kbuf s (bits_at ?b + 4 * (i div 32) + j)" if "j < 4" for j
  proof -
    have "4 * (i div 32) + j < 4 * unat (nwords ?b)" using k that by linarith
    then show ?thesis using ok m unfolding map_ok_def Let_def scratch_def apart_def by auto
  qed
  then have "ld32 (bits_at ?b + 4 * (i div 32)) m = ld32 (bits_at ?b + 4 * (i div 32)) (kbuf s)"
    by (simp add: ld32_def rd_bytes_cong [of 4 m _ "kbuf s"])
  then show ?thesis by (simp add: free_bit_def)
qed

lemma bitmap_test_eq:
  assumes "bm_ok b m" "i < nbits b"
  shows "bitmap_test b i m = Some (free_bit b m (unat i))"
proof -
  have "unat i div 32 < unat (nwords b)" using assms by (simp add: bm_ok_def word_less_nat_alt)
  then have "mapped m (bits_at b + 4 * (unat i div 32)) 4" using assms(1) by (auto simp: bm_ok_def intro: word_at)
  then obtain w where w: "ld32 (bits_at b + 4 * (unat i div 32)) m = Some w" using ld32_mapped by blast
  then show ?thesis using assms(2)
    by (simp add: bitmap_test_def bitmap_translate_def WORD_BITS_def free_bit_def mask_bit del: push_bit_of_1)
qed

lemma assert_inuse_eq:
  assumes "map_ok s f"
  shows "assert_inuse f i s = assert_c (i \<noteq> 0 \<and> i < blocks (super (fs_of s f)) \<and> unat i \<notin> free_blocks s f)"
proof (cases "i \<noteq> 0 \<and> i < blocks (super (fs_of s f))")
  case True
  then have "i < nbits (freemap (fs_of s f))" using assms by (simp add: map_ok_def Let_def word_less_nat_alt)
  then show ?thesis using True assms
    by (simp add: assert_inuse_def sfs_block_inuse_def bitmap_test_eq map_ok_def Let_def free_blocks_def word_less_nat_alt)
qed (auto simp: assert_inuse_def sfs_block_inuse_def)

lemma free_blocks_scratch:
  assumes "map_ok s f" "scratch f s m"
  shows "free_blocks (set_disk i d (set_kbuf m s)) f = free_blocks s f" "map_ok (set_disk i d (set_kbuf m s)) f"
proof -
  show f: "free_blocks (set_disk i d (set_kbuf m s)) f = free_blocks s f"
    using free_bit_scratch [OF assms] by (auto simp: free_blocks_def)
  have "bm_ok (freemap (fs_of s f)) m" using assms by (auto simp: map_ok_def Let_def bm_ok_def intro: scratch_mapped)
  then show "map_ok (set_disk i d (set_kbuf m s)) f" using assms(1) unfolding map_ok_def Let_def f by simp
qed

definition marked :: "nat \<Rightarrow> 32 word \<Rightarrow> cmem \<Rightarrow> kvst \<Rightarrow> kvst" where
  "marked f u m s = upd_sfs f (\<lambda>a. a\<lparr>super := (super a)\<lparr>unused_blocks := u\<rparr>, super_dirty := True\<rparr>) (set_kbuf m s)"

lemma marked_sels [simp]:
  "kbuf (marked f u m s) = m" "freemap (fs_of (marked f u m s) f) = freemap (fs_of s f)"
  "blocks (super (fs_of (marked f u m s) f)) = blocks (super (fs_of s f))"
  "unused_blocks (super (fs_of (marked f u m s) f)) = u" "sfs_buffer (fs_of (marked f u m s) f) = sfs_buffer (fs_of s f)"
  "disk0_buffer (low (marked f u m s)) = disk0_buffer (low s)" "disk_blk (marked f u m s) b = disk_blk s b"
  by (simp_all add: marked_def upd_sfs_def upd_low_def disk_blk_def)

lemma marked_eq:
  "upd_sfs f (\<lambda>a. a\<lparr>super := (super a)\<lparr>unused_blocks := unused_blocks (super a) - 1\<rparr>, super_dirty := True\<rparr>) (set_kbuf m s) =
     marked f (unused_blocks (super (fs_of s f)) - 1) m s"
  "upd_sfs f (\<lambda>a. a\<lparr>super := (super a)\<lparr>unused_blocks := unused_blocks (super a) + 1\<rparr>, super_dirty := True\<rparr>) (set_kbuf m s) =
     marked f (unused_blocks (super (fs_of s f)) + 1) m s"
  by (simp_all add: marked_def upd_sfs_def upd_low_def)

lemma fs_ok_marked: "fs_ok s f \<Longrightarrow> m = overlay a bs (kbuf s) \<Longrightarrow> fs_ok (marked f u m s) f"
  by (simp add: fs_ok_def blk_ok_def disk_ok_def marked_def upd_sfs_def upd_low_def)

lemma map_ok_marked:
  assumes "map_ok s f" "m = overlay a bs (kbuf s)" "free_blocks (marked f u m s) f = F" "unat u = card F"
    "\<forall>i \<in> F. 0 < i \<and> i < unat (blocks (super (fs_of s f)))"
  shows "map_ok (marked f u m s) f"
  using assms unfolding map_ok_def Let_def by (auto simp: bm_ok_def)

lemma block_alloc_none:
  assumes "map_ok s f" "free_blocks s f = {}"
  shows "sfs_block_alloc f s = Some (- E_NO_MEM, 0, s)"
proof -
  let ?b = "freemap (fs_of s f)"
  have "\<not> (\<exists>i < unat (nbits ?b). free_bit ?b (kbuf s) i)" using assms(2) by (auto simp: free_blocks_def)
  then have "bitmap_alloc ?b (kbuf s) = Some (- E_NO_MEM, None, kbuf s)"
    using bitmap_alloc_loop_eq [of ?b "kbuf s" 0] assms(1) by (simp add: bitmap_alloc_def map_ok_def Let_def)
  then show ?thesis by (simp add: sfs_block_alloc_def set_kbuf_def E_NO_MEM_def)
qed

lemma block_alloc_some:
  assumes ok: "fs_ok s f" "map_ok s f" and ne: "free_blocks s f \<noteq> {}"
  shows "\<exists>t. sfs_block_alloc f s = Some (0, of_nat (Min (free_blocks s f)), t) \<and>
    free_blocks t f = free_blocks s f - {Min (free_blocks s f)} \<and> fs_ok t f \<and> map_ok t f \<and>
    (\<forall>b. disk_blk t b = (if b = Min (free_blocks s f) then replicate SFS_BLKSIZE 0 else disk_blk s b))"
proof -
  let ?b = "freemap (fs_of s f)"
  let ?F = "free_blocks s f"
  have bm: "bm_ok ?b (kbuf s)" using ok(2) by (simp add: map_ok_def Let_def)
  have "\<exists>i < unat (nbits ?b). free_bit ?b (kbuf s) i" using ne by (auto simp: free_blocks_def)
  then obtain i m bs where a: "bitmap_alloc ?b (kbuf s) = Some (0, Some (of_nat i), m)"
    and i: "i < unat (nbits ?b)" "free_bit ?b (kbuf s) i" "\<forall>j < i. \<not> free_bit ?b (kbuf s) j"
    and m: "\<forall>j. free_bit ?b m j = (free_bit ?b (kbuf s) j \<and> j \<noteq> i)" "m = overlay (bits_at ?b + 4 * (i div 32)) bs (kbuf s)"
    using bitmap_alloc_loop_eq [OF bm, of 0] by (auto simp: bitmap_alloc_def)
  have iF: "i \<in> ?F" using i by (simp add: free_blocks_def)
  have mi: "Min ?F = i" using i iF by (intro Min_eqI) (auto simp: free_blocks_def linorder_not_less [symmetric])
  have ib: "0 < i" "i < unat (blocks (super (fs_of s f)))" using ok(2) iF by (auto simp: map_ok_def Let_def)
  have "unat (nbits ?b) < 2 ^ LENGTH(32)" by (rule unsigned_less)
  then have iw: "unat (of_nat i :: 32 word) = i" using i(1) by (simp add: unat_of_nat take_bit_nat_eq_self)
  have cu: "unat (unused_blocks (super (fs_of s f))) = card ?F" using ok(2) by (simp add: map_ok_def Let_def)
  have c0: "card ?F > 0" using iF by (auto simp: card_gt_0_iff)
  let ?u = "unused_blocks (super (fs_of s f)) - 1"
  let ?s = "marked f ?u m s"
  have F: "free_blocks ?s f = ?F - {i}" using m(1) by (auto simp: free_blocks_def)
  have "unused_blocks (super (fs_of s f)) \<noteq> 0" using cu c0 by auto
  then have "unat ?u = card ?F - 1" using cu by (simp add: unat_minus_one)
  then have mo: "map_ok ?s f"
    using iF ok(2) by (intro map_ok_marked [OF ok(2) m(2) F]) (auto simp: map_ok_def Let_def)
  have fo: "fs_ok ?s f" using ok(1) m(2) by (rule fs_ok_marked)
  have "(of_nat i :: 32 word) \<noteq> 0" "(of_nat i :: 32 word) < blocks (super (fs_of s f))"
    using ib iw by (auto simp: word_less_nat_alt)
  then obtain m' where c: "sfs_clear_block f (of_nat i) 1 ?s = Some (0, set_disk i (replicate SFS_BLKSIZE 0) (set_kbuf m' ?s))"
    "scratch f ?s m'" using sfs_clear_block_eq [OF fo, of "of_nat i"] iw by auto
  let ?t = "set_disk i (replicate SFS_BLKSIZE 0) (set_kbuf m' ?s)"
  have "assert_inuse f (of_nat i) ?s = Some ()"
    unfolding assert_inuse_eq [OF mo] F using ib iw by (auto simp: word_less_nat_alt assert_c_def)
  then have "sfs_block_alloc f s = Some (0, of_nat i, ?t)"
    using a c(1) \<open>unused_blocks (super (fs_of s f)) \<noteq> 0\<close>
    by (simp add: sfs_block_alloc_def word_greater_zero_iff marked_eq)
  moreover have "free_blocks ?t f = ?F - {i}" "map_ok ?t f" using free_blocks_scratch [OF mo c(2)] F by simp_all
  moreover have "fs_ok ?t f" using fs_ok_scratch [OF fo c(2)] by simp
  moreover have "\<forall>b. disk_blk ?t b = (if b = i then replicate SFS_BLKSIZE 0 else disk_blk s b)"
    by (simp add: disk_blk_set_disk)
  ultimately show ?thesis unfolding mi by blast
qed

lemma block_free_eq:
  assumes ok: "fs_ok s f" "map_ok s f" and i: "i \<noteq> 0" "i < blocks (super (fs_of s f))" "unat i \<notin> free_blocks s f"
  shows "\<exists>t. sfs_block_free f i s = Some t \<and> free_blocks t f = insert (unat i) (free_blocks s f) \<and> fs_ok t f \<and> map_ok t f \<and>
    (\<forall>b. disk_blk t b = disk_blk s b)"
proof -
  let ?b = "freemap (fs_of s f)"
  let ?k = "unat i div 32" and ?o = "unat i mod 32"
  have bm: "bm_ok ?b (kbuf s)" using ok(2) by (simp add: map_ok_def Let_def)
  have ib: "unat i < unat (nbits ?b)" using ok(2) i(2) by (simp add: map_ok_def Let_def word_less_nat_alt)
  then have k: "?k < unat (nwords ?b)" using bm by (simp add: bm_ok_def)
  then have mp: "mapped (kbuf s) (bits_at ?b + 4 * ?k) 4" using bm by (auto simp: bm_ok_def intro: word_at)
  then obtain w where w: "ld32 (bits_at ?b + 4 * ?k) (kbuf s) = Some w" using ld32_mapped by blast
  have nf: "\<not> bit w ?o" using i(3) ib w by (simp add: free_blocks_def free_bit_def)
  let ?v = "w OR push_bit ?o 1"
  let ?m = "overlay (bits_at ?b + 4 * ?k) (le32 ?v) (kbuf s)"
  have fr: "bitmap_free ?b i (kbuf s) = Some ?m"
  proof -
    have "w AND push_bit ?o 1 = 0" using nf mask_bit by blast
    then show ?thesis using ib
      by (simp add: bitmap_free_def bitmap_translate_def WORD_BITS_def w st32_eq [OF mp] word_less_nat_alt del: push_bit_of_1)
  qed
  have v: "bit ?v j = (if j = ?o then True else bit w j)" if "j < 32" for j
    using that by (auto simp: bit_or_iff bit_exp_iff)
  have m: "free_bit ?b ?m j = (if j = unat i then True else free_bit ?b (kbuf s) j)" for j
    using free_bit_update [OF bm k w _ v, of j] by simp
  let ?u = "unused_blocks (super (fs_of s f)) + 1"
  let ?s = "marked f ?u ?m s"
  have F: "free_blocks ?s f = insert (unat i) (free_blocks s f)" using m ib by (auto simp: free_blocks_def)
  have sub: "insert (unat i) (free_blocks s f) \<subseteq> {1..<unat (blocks (super (fs_of s f)))}"
    using ok(2) i(1,2) by (auto simp: map_ok_def Let_def word_less_nat_alt Suc_le_eq unat_gt_0)
  then have "card (insert (unat i) (free_blocks s f)) \<le> unat (blocks (super (fs_of s f))) - 1"
    using card_mono [OF _ sub] by simp
  moreover have "unat (unused_blocks (super (fs_of s f))) = card (free_blocks s f)" using ok(2) by (simp add: map_ok_def Let_def)
  moreover have "unat (blocks (super (fs_of s f))) < 2 ^ LENGTH(32)" by (rule unsigned_less)
  ultimately have "unat ?u = card (insert (unat i) (free_blocks s f))"
    using i(3) by (simp add: unat_word_ariths)
  then have "map_ok ?s f" using sub by (intro map_ok_marked [OF ok(2) refl F]) auto
  moreover have "fs_ok ?s f" using ok(1) by (rule fs_ok_marked) simp
  moreover have "sfs_block_free f i s = Some ?s"
    unfolding sfs_block_free_def assert_inuse_eq [OF ok(2)] using i by (simp add: fr marked_eq)
  ultimately show ?thesis using F by simp
qed

subsection \<open>Reading a whole block of a file\<close>

lemma off_word:
  assumes "n < 2 ^ 63"
  shows "unat (of_nat n :: 64 word) = n" "sint (of_nat n :: 64 word) = int n"
proof -
  show u: "unat (of_nat n :: 64 word) = n" using assms by (simp add: unat_of_nat take_bit_nat_eq_self)
  have n: "int n < 2 ^ 63" using assms by simp
  have "signed_take_bit 63 (int n) = int n"
    by (rule signed_take_bit_int_eq_self) (use n in simp_all)
  moreover have "uint (of_nat n :: 64 word) = int n" using u by (metis uint_nat)
  ultimately show "sint (of_nat n :: 64 word) = int n" by (simp add: sint_uint)
qed

lemma sfs_rblock_one:
  assumes ok: "fs_ok s f" and b: "b < blocks (super (fs_of s f))" and buf: "mapped (kbuf s) buf SFS_BLKSIZE"
  shows "sfs_rblock f buf b 1 s = (if b = 0 then None
     else Some (0, set_kbuf (overlay buf (disk_blk s (unat b)) (through s (disk_blk s (unat b)))) s))"
proof (cases "b = 0")
  case True
  then show ?thesis using ok by (simp add: sfs_rblock_def sfs_rwblock_def fs_ok_def lock_sfs_io_eq rwblock_zero)
next
  case False
  have bo: "blk_ok s f" "io_sem (fs_of s f) > 0" using ok by (simp_all add: fs_ok_def)
  have "sfs_rwblock_nolock f buf b False True (iolock f (io_sem (fs_of s f) - 1) s) =
      Some (0, iolock f (io_sem (fs_of s f) - 1) (set_kbuf (overlay buf (disk_blk s (unat b)) (through s (disk_blk s (unat b)))) s))"
    using rwblock_read [of "iolock f (io_sem (fs_of s f) - 1) s" f b True buf] bo b False buf by simp
  then show ?thesis using False bo by (simp add: sfs_rblock_def sfs_rwblock_def lock_sfs_io_eq)
qed

lemma bmap_load_direct:
  assumes "map_ok s f" "unat index < SFS_NDIRECT" "index < di_blocks (din_of s n)"
    "i = di_direct (din_of s n) ! unat index" "i \<noteq> 0" "i < blocks (super (fs_of s f))" "unat i \<notin> free_blocks s f"
  shows "sfs_bmap_load_nolock f n index s = Some (0, i, s)"
  using assms less_imp_le [OF assms(3)]
  by (simp add: sfs_bmap_load_nolock_def sfs_bmap_get_nolock_def Let_def assert_inuse_eq)

text \<open>The block \<open>k\<close> of the file \<open>n\<close> is the disk block \<open>i\<close>.\<close>

definition file_block :: "kvst \<Rightarrow> nat \<Rightarrow> nat \<Rightarrow> nat \<Rightarrow> 32 word \<Rightarrow> bool" where
  "file_block s f n k i \<longleftrightarrow> di_type (din_of s n) = SFS_TYPE_FILE \<and> k < SFS_NDIRECT \<and> k < unat (di_blocks (din_of s n)) \<and>
     (k + 1) * SFS_BLKSIZE \<le> unat (di_size (din_of s n)) \<and> i = di_direct (din_of s n) ! k \<and>
     i \<noteq> 0 \<and> i < blocks (super (fs_of s f)) \<and> unat i \<notin> free_blocks s f"

lemma read_block_eq:
  assumes ok: "fs_ok s f" "map_ok s f" and fb: "file_block s f n k i"
    and k: "k < unat (blocks (super (fs_of s f)))" and buf: "mapped (kbuf s) buf SFS_BLKSIZE"
  shows "sfs_io_nolock f n buf (of_nat (k * SFS_BLKSIZE)) SFS_BLKSIZE False s = (if k = 0 then None
     else Some (0, SFS_BLKSIZE, set_kbuf (overlay buf (disk_blk s k) (through s (disk_blk s k))) s))"
proof -
  let ?k = "of_nat k :: 32 word"
  have k12: "k < 12" using fb by (simp add: file_block_def SFS_NDIRECT_def)
  have uk: "unat ?k = k" using k12 by (simp add: unat_of_nat take_bit_nat_eq_self)
  have e: "(of_nat (k * SFS_BLKSIZE) + of_nat SFS_BLKSIZE :: 64 word) = of_nat ((k + 1) * SFS_BLKSIZE)" by simp
  have "k * SFS_BLKSIZE < 2 ^ 63" "(k + 1) * SFS_BLKSIZE < 2 ^ 63" using k12 by (simp_all add: SFS_BLKSIZE_def)
  note w = off_word [OF this(1)] off_word [OF this(2)]
  have z: "(k + 1) * SFS_BLKSIZE \<le> unat (di_size (din_of s n))" using fb by (simp add: file_block_def)
  have lim: "k * SFS_BLKSIZE < SFS_MAX_FILE_SIZE" "(k + 1) * SFS_BLKSIZE \<le> SFS_MAX_FILE_SIZE"
    using k12 by (simp_all add: SFS_BLKSIZE_def SFS_MAX_FILE_SIZE_def)
  have d: "k * SFS_BLKSIZE mod SFS_BLKSIZE = 0" "(k + 1) * SFS_BLKSIZE mod SFS_BLKSIZE = 0"
    "k * SFS_BLKSIZE div SFS_BLKSIZE = k" "(k + 1) * SFS_BLKSIZE div SFS_BLKSIZE = k + 1" "SFS_BLKSIZE > 0"
    by (simp_all add: SFS_BLKSIZE_def)
  have ne: "(of_nat (k * SFS_BLKSIZE) :: 64 word) \<noteq> of_nat ((k + 1) * SFS_BLKSIZE)"
  proof
    assume "(of_nat (k * SFS_BLKSIZE) :: 64 word) = of_nat ((k + 1) * SFS_BLKSIZE)"
    then have "k * SFS_BLKSIZE = (k + 1) * SFS_BLKSIZE" using w(1,3) by metis
    then show False using d(5) by simp
  qed
  have f: "io_first False f n buf (k * SFS_BLKSIZE) ((k + 1) * SFS_BLKSIZE) ?k 1 s = Some (False, 0, 0, ?k, 1, s)"
    by (simp add: io_first_def d(1))
  have ld: "sfs_bmap_load_nolock f n ?k s = Some (0, i, s)"
    using fb by (intro bmap_load_direct [OF ok(2)]) (auto simp: file_block_def uk word_less_nat_alt)
  let ?t = "set_kbuf (overlay buf (disk_blk s k) (through s (disk_blk s k))) s"
  have b: "io_blocks False f n buf 0 ?k 1 s = (if k = 0 then None else Some (False, 0, SFS_BLKSIZE, ?k + 1, 0, ?t))"
  proof -
    have "unat ?k = 0 \<longleftrightarrow> ?k = 0" by (rule unsigned_eq_0_iff)
    then have "?k = 0 \<longleftrightarrow> k = 0" unfolding uk by blast
    then show ?thesis
      using ld sfs_rblock_one [OF ok(1), of ?k buf] k buf uk
      by (simp add: io_blocks_def sfs_block_op_def word_less_nat_alt)
  qed
  have l: "io_last False f n buf ((k + 1) * SFS_BLKSIZE) SFS_BLKSIZE 0 (?k + 1) ?t = Some (0, SFS_BLKSIZE, ?t)"
    by (simp only: io_last_def Let_def d simp_thms if_False)
  have o: "io_out n (k * SFS_BLKSIZE) 0 SFS_BLKSIZE ?t = (0, SFS_BLKSIZE, ?t)"
    using z by (simp add: io_out_def)
  have nb: "of_nat (k + 1) - ?k = (1 :: 32 word)" by simp
  have ty: "di_type (din_of s n) \<noteq> SFS_TYPE_DIR" using fb by (simp add: file_block_def SFS_TYPE_FILE_def SFS_TYPE_DIR_def)
  have c: "\<not> (int (k * SFS_BLKSIZE) < 0 \<or> SFS_MAX_FILE_SIZE \<le> k * SFS_BLKSIZE \<or> int ((k + 1) * SFS_BLKSIZE) < int (k * SFS_BLKSIZE))"
    "\<not> SFS_MAX_FILE_SIZE < (k + 1) * SFS_BLKSIZE" "\<not> unat (di_size (din_of s n)) \<le> k * SFS_BLKSIZE"
    "\<not> unat (di_size (din_of s n)) < (k + 1) * SFS_BLKSIZE"
    using lim z d(5) by (simp_all del: of_nat_mult of_nat_add)
  show ?thesis
  proof (cases "k = 0")
    case True
    then show ?thesis
      unfolding sfs_io_nolock_def Let_def e w using ty ne c f b d nb by (simp del: of_nat_mult of_nat_add)
  next
    case False
    then show ?thesis
      unfolding sfs_io_nolock_def Let_def e w using ty ne c f b d nb l o by (simp del: of_nat_mult of_nat_add)
  qed
qed

end
