(* ===== verification/SfsClaims.thy ===== *)
theory SfsClaims
  imports SfsProps
begin

section \<open>The simple file system: what it promises and where it fails\<close>

subsection \<open>An example file system\<close>

text \<open>
  Four blocks, of which 2 and 3 are free; the free map at address 0, the buffer of the disk at 4096,
  \<open>sfs_buffer\<close> at 8192. Node 1 is a file of two blocks whose first is disk block 1, node 2 an empty
  directory, the current one of files structure 7.
\<close>

definition ex_mem :: cmem where
  "ex_mem = (\<lambda>x. Some 0)(0 := Some 0x0C)"

definition ex_bitmap :: bitmap where
  "ex_bitmap = \<lparr>nbits = 32, nwords = 1, bits_at = 0, bm_at = 0\<rparr>"

definition ex_sfs :: sfs_fs where
  "ex_sfs = \<lparr>super = \<lparr>magic = SFS_MAGIC, blocks = 4, unused_blocks = 2, info = []\<rparr>, sfs_dev = 0, freemap = ex_bitmap,
     super_dirty = False, sfs_buffer = 8192, fs_sem = 1, io_sem = 1, mutex_sem = 1, hash_at = 0\<rparr>"

definition ex_din :: sfs_disk_inode where
  "ex_din = \<lparr>di_size = 8192, di_type = SFS_TYPE_FILE, di_nlinks = 1, di_blocks = 2,
     di_direct = [1, 1, 0, 0, 0, 0, 0, 0, 0, 0, 0, 0], di_indirect = 0\<rparr>"

definition ex_low :: klow where
  "ex_low = \<lparr>devs = (\<lambda>_. \<lparr>d_blocks = 4, d_blocksize = 4096, d_fun = Disk0Fun\<rparr>),
     sins = (\<lambda>n. \<lparr>din = (if n = 1 then ex_din else ex_din\<lparr>di_size := 0, di_type := SFS_TYPE_DIR, di_blocks := 0\<rparr>),
       din_at = 0, ino = 1, dirty = (n = 1), reclaim_count = 1, sin_sem = 1\<rparr>),
     sfss = (\<lambda>_. ex_sfs), slinks = undefined,
     ide_devices = (\<lambda>_. \<lparr>ide_valid = True, ide_size = 32, ide_data = (\<lambda>x. of_nat x)\<rparr>),
     disk0_buffer = 4096, disk0_sem = 1, stdin_buffer = (\<lambda>_. 0), p_rpos = 0, p_wpos = 0, kbd = [], console = []\<rparr>"

definition ex_vst :: kvst where
  "ex_vst = \<lparr>inodes = (\<lambda>n. \<lparr>in_type = inode_type_sfs_inode_info, ref_count = 1, open_count = 0, in_fs = Some 5,
       in_ops = Some (if n = 1 then SFS_FILEOPS else SFS_DIROPS)\<rparr>),
     fd_array = undefined, fstructs = (\<lambda>_. \<lparr>pwd = Some 2, files_count = 1, files_sem = 1\<rparr>), cur_filesp = Some 7,
     bootfs_node = None, bootfs_sem = 1, vdevs = undefined, vdev_links = undefined, vdev_list_sem = 1,
     fs_ops_of = (\<lambda>_. SFS_FS), vheap = [100, 101, 102], kbuf = ex_mem, low = ex_low\<rparr>"

lemma ex_vst_sels [simp]:
  "kbuf ex_vst = ex_mem" "sfss ex_low f = ex_sfs" "low ex_vst = ex_low"
  by (simp_all add: ex_vst_def ex_low_def)

lemma ex_mapped [simp]: "mapped ex_mem a n"
  by (simp add: mapped_def ex_mem_def)

lemma ex_fs_ok: "fs_ok ex_vst f"
  by (simp add: fs_ok_def blk_ok_def disk_ok_def ex_low_def ex_sfs_def apart_def SFS_BLKSIZE_def)

lemma ex_free: "free_blocks ex_vst f = {2, 3}"
proof -
  have l: "ld32 0 ex_mem = Some 0x0C"
  proof -
    have "(4 :: nat) = Suc (Suc (Suc (Suc 0)))" by simp
    then have "rd_bytes 0 4 ex_mem = Some [0x0C, 0, 0, 0]" by (simp only: rd_bytes.simps) (simp add: ex_mem_def)
    then show ?thesis by (simp add: ld32_def un32_def)
  qed
  have "free_bit ex_bitmap ex_mem i = (i = 2 \<or> i = 3)" if "i < 32" for i
  proof -
    have "free_bit ex_bitmap ex_mem i = bit (0x0C :: 32 word) i"
      using that l by (simp add: free_bit_def ex_bitmap_def)
    also have "\<dots> = (i = 2 \<or> i = 3)"
      by (auto simp: bit_numeral_rec bit_1_iff numeral_eq_Suc split: nat.splits) 
    finally show ?thesis .
  qed
  then show ?thesis by (auto simp: free_blocks_def ex_sfs_def) (simp_all add: ex_bitmap_def)
qed

lemma ex_map_ok: "map_ok ex_vst f"
  by (simp add: map_ok_def ex_free Let_def) (simp add: ex_sfs_def ex_bitmap_def ex_low_def bm_ok_def apart_def SFS_BLKSIZE_def)

subsection \<open>The free map\<close>

text \<open>C13: Allocating a block returns the lowest free one, cleared on the disk, and takes exactly it out of
  the free map; with no free block it fails without change. The map stays well-formed: the counter of
  unused blocks is the number of free bits, and no block outside the file system is ever free.\<close>

theorem sfs_block_alloc_lowest:
  assumes "fs_ok s f" "map_ok s f"
  shows "if free_blocks s f = {} then sfs_block_alloc f s = Some (- E_NO_MEM, 0, s)
    else \<exists>t. sfs_block_alloc f s = Some (0, of_nat (Min (free_blocks s f)), t) \<and>
      free_blocks t f = free_blocks s f - {Min (free_blocks s f)} \<and> fs_ok t f \<and> map_ok t f \<and>
      (\<forall>b. disk_blk t b = (if b = Min (free_blocks s f) then replicate SFS_BLKSIZE 0 else disk_blk s b))"
proof (cases "free_blocks s f = {}")
  case True
  then show ?thesis using block_alloc_none [OF assms(2)] by simp
next
  case False
  then show ?thesis unfolding if_not_P [OF False] by (rule block_alloc_some [OF assms])
qed

theorem sfs_block_alloc_lowest_witness:
  "\<exists>t. sfs_block_alloc 5 ex_vst = Some (0, 2, t) \<and> free_blocks t 5 = {3} \<and> fs_ok t 5 \<and> map_ok t 5 \<and>
     (\<forall>b. disk_blk t b = (if b = 2 then replicate SFS_BLKSIZE 0 else disk_blk ex_vst b))"
  using sfs_block_alloc_lowest [OF ex_fs_ok ex_map_ok, of 5] by (auto simp: ex_free)

text \<open>Releasing a block in use makes exactly it free again, keeps the map well-formed and no disk block changes.\<close>

theorem sfs_block_free_returns:
  assumes "fs_ok s f" "map_ok s f" "i \<noteq> 0" "i < blocks (super (fs_of s f))" "unat i \<notin> free_blocks s f"
  shows "\<exists>t. sfs_block_free f i s = Some t \<and> free_blocks t f = insert (unat i) (free_blocks s f) \<and> fs_ok t f \<and> map_ok t f \<and>
    (\<forall>b. disk_blk t b = disk_blk s b)"
  using block_free_eq [OF assms] .

theorem sfs_block_free_returns_witness:
  "\<exists>t. sfs_block_free 5 1 ex_vst = Some t \<and> free_blocks t 5 = {1, 2, 3} \<and> fs_ok t 5 \<and> map_ok t 5 \<and>
    (\<forall>b. disk_blk t b = disk_blk ex_vst b)"
  using sfs_block_free_returns [OF ex_fs_ok ex_map_ok, of 1 5] by (simp add: ex_free ex_sfs_def)

subsection \<open>Blocks on the disk\<close>

text \<open>C31: What \<open>sfs_wbuf\<close> writes into a part of a block, \<open>sfs_rbuf\<close> reads back; the rest of the block and all
  other blocks keep their bytes, and the buffers and locks are ready again.\<close>

theorem sfs_wbuf_rbuf_roundtrip:
  assumes "fs_ok s f" "b \<noteq> 0" "b < blocks (super (fs_of s f))" "offset < SFS_BLKSIZE" "offset + length data \<le> SFS_BLKSIZE"
  shows "\<exists>t u. sfs_wbuf f data b offset s = Some (0, t) \<and> sfs_rbuf f (length data) b offset t = Some (0, data, u) \<and>
    fs_ok u f \<and> (\<forall>c. disk_blk u c = (if c = unat b then patch offset data (disk_blk s c) else disk_blk s c))"
proof -
  let ?p = "patch offset data (disk_blk s (unat b))"
  obtain m where w: "sfs_wbuf f data b offset s = Some (0, set_disk (unat b) ?p (set_kbuf m s))" and m: "scratch f s m"
    using sfs_wbuf_eq [OF assms(1,3,2,4,5)] by blast
  let ?t = "set_disk (unat b) ?p (set_kbuf m s)"
  have ft: "fs_ok ?t f" using fs_ok_scratch [OF assms(1) m] by simp
  have pt: "disk_blk ?t (unat b) = ?p" using assms(5) by (simp add: disk_blk_set_disk)
  have r: "sfs_rbuf f (length data) b offset ?t = Some (0, take (length data) (drop offset ?p), loaded f ?p ?t)"
    using sfs_rbuf_eq [OF ft, of b offset "length data"] assms pt by simp
  have "take (length data) (drop offset ?p) = data" using assms(5) by (simp add: patch_def)
  moreover obtain m' where "loaded f ?p ?t = set_kbuf m' ?t" "scratch f ?t m'"
    using loaded_scratch [of f ?t "unat b"] pt by auto
  ultimately show ?thesis
    using w r fs_ok_scratch [OF ft] assms(5) by (auto simp: disk_blk_set_disk)
qed

theorem sfs_wbuf_rbuf_roundtrip_witness:
  "\<exists>t u. sfs_wbuf 5 [1, 2, 3] 2 10 ex_vst = Some (0, t) \<and> sfs_rbuf 5 3 2 10 t = Some (0, [1, 2, 3], u) \<and>
    fs_ok u 5 \<and> (\<forall>c. disk_blk u c = (if c = 2 then patch 10 [1, 2, 3] (disk_blk ex_vst c) else disk_blk ex_vst c))"
  using sfs_wbuf_rbuf_roundtrip [OF ex_fs_ok, of 2 5 10 "[1, 2, 3]"] by (simp add: ex_sfs_def SFS_BLKSIZE_def numeral_3_eq_3)

subsection \<open>Inodes on the disk\<close>

lemma le32_block: "i < length ws \<Longrightarrow> drop (4 * i) (concat (map le32 ws) @ bs) = le32 (ws ! i) @ drop (4 * (i + 1)) (concat (map le32 ws) @ bs)"
proof (induction ws arbitrary: i)
  case (Cons w ws)
  then show ?case by (cases i) simp_all
qed simp

lemma din_roundtrip:
  assumes "length (di_direct d) = SFS_NDIRECT"
  shows "din_of_bytes (din_bytes d @ bs) = d"
proof -
  have l: "length (concat (map le32 (di_direct d))) = 48"
    using assms by (simp add: length_concat comp_def sum_list_triv SFS_NDIRECT_def)
  let ?ws = "concat (map le32 (di_direct d)) @ le32 (di_indirect d) @ bs"
  have b: "din_bytes d @ bs = le32 (di_size d) @ le16 (di_type d) @ le16 (di_nlinks d) @ le32 (di_blocks d) @ ?ws"
    by (simp add: din_bytes_def)
  have x: "drop (12 + k) (din_bytes d @ bs) = drop k ?ws" for k
  proof -
    have "drop 12 (din_bytes d @ bs) = ?ws" unfolding b by (simp add: le32_def le16_def)
    then show ?thesis by (metis drop_drop add.commute)
  qed
  have "map (\<lambda>i. un32 (drop (12 + 4 * i) (din_bytes d @ bs))) [0..<SFS_NDIRECT] = di_direct d"
    using assms by (intro nth_equalityI) (simp_all add: x le32_block del: drop_append)
  moreover have "un32 (drop 60 (din_bytes d @ bs)) = di_indirect d"
    using x [of 48] l by simp
  moreover have "drop 4 (din_bytes d @ bs) = le16 (di_type d) @ le16 (di_nlinks d) @ le32 (di_blocks d) @ ?ws"
    "drop 6 (din_bytes d @ bs) = le16 (di_nlinks d) @ le32 (di_blocks d) @ ?ws"
    "drop 8 (din_bytes d @ bs) = le32 (di_blocks d) @ ?ws"
    unfolding b by (simp_all add: le32_def le16_def)
  ultimately show ?thesis by (simp add: din_of_bytes_def) (simp add: b)
qed

text \<open>C32: Synchronising a dirty inode writes it to its disk block such that loading the block yields the same
  inode: the layout on the disk loses nothing. The inode is then clean and no other block changes.\<close>

theorem sfs_fsync_stores_inode:
  assumes ok: "fs_ok s f" and n: "in_type (inodes s n) = inode_type_sfs_inode_info" "in_fs (inodes s n) = Some f"
    and d: "dirty (sin_of s n)" "sin_sem (sin_of s n) > 0" "length (di_direct (din_of s n)) = SFS_NDIRECT"
    and i: "ino (sin_of s n) \<noteq> 0" "ino (sin_of s n) < blocks (super (fs_of s f))"
  shows "\<exists>t. sfs_fsync n s = Some (0, t) \<and> \<not> dirty (sin_of t n) \<and> din_of t n = din_of s n \<and>
    din_of_bytes (disk_blk t (unat (ino (sin_of s n)))) = din_of s n \<and>
    (\<forall>b. b \<noteq> unat (ino (sin_of s n)) \<longrightarrow> disk_blk t b = disk_blk s b) \<and> fs_ok t f"
proof -
  let ?k = "sin_sem (sin_of s n) - 1"
  let ?s = "upd_sin n (\<lambda>x. x\<lparr>dirty := False\<rparr>) (upd_sin n (\<lambda>i. i\<lparr>sin_sem := sin_sem i - 1\<rparr>) s)"
  let ?data = "din_bytes (din_of s n)"
  have l: "length ?data = 64" using d(3) by (simp add: din_bytes_def length_concat comp_def sum_list_triv SFS_NDIRECT_def)
  have s: "fs_ok ?s f" "fs_of ?s f = fs_of s f" "sin_of ?s n = (sin_of s n)\<lparr>dirty := False, sin_sem := ?k\<rparr>"
    "\<And>b. disk_blk ?s b = disk_blk s b"
    using ok by (simp_all add: upd_sin_def upd_low_def fs_ok_def blk_ok_def disk_ok_def disk_blk_def)
  have "0 < SFS_BLKSIZE" "0 + length ?data \<le> SFS_BLKSIZE" by (simp_all add: l SFS_BLKSIZE_def)
  then obtain m where w: "sfs_wbuf f ?data (ino (sin_of s n)) 0 ?s = Some (0, set_disk (unat (ino (sin_of s n)))
      (patch 0 ?data (disk_blk s (unat (ino (sin_of s n))))) (set_kbuf m ?s))" and m: "scratch f ?s m"
    using sfs_wbuf_eq [OF s(1), of "ino (sin_of s n)" 0 ?data] i s(2,4) by auto
  let ?p = "patch 0 ?data (disk_blk s (unat (ino (sin_of s n))))"
  let ?t = "unlock_sin n (set_disk (unat (ino (sin_of s n))) ?p (set_kbuf m ?s))"
  have r: "sfs_fsync n s = Some (0, ?t)"
    using n d(1,2) w s(3) by (simp add: sfs_fsync_def sfs_info_def lock_sin_def)
  have u: "fs_ok (unlock_sin n x) f = fs_ok x f" "disk_blk (unlock_sin n x) b = disk_blk x b"
    "din_of (unlock_sin n x) n = din_of x n" "dirty (sin_of (unlock_sin n x) n) = dirty (sin_of x n)" for x b
    by (simp_all add: unlock_sin_def upd_sin_def upd_low_def fs_ok_def blk_ok_def disk_ok_def disk_blk_def)
  have p: "length ?p = SFS_BLKSIZE" using l by (simp add: SFS_BLKSIZE_def)
  have "din_of_bytes ?p = din_of s n" using din_roundtrip [OF d(3)] by (simp add: patch_def)
  then show ?thesis
    using r u s(3,4) p fs_ok_scratch [OF s(1) m] by (simp add: disk_blk_set_disk)
qed

theorem sfs_fsync_stores_inode_witness:
  "\<exists>t. sfs_fsync 1 ex_vst = Some (0, t) \<and> \<not> dirty (sin_of t 1) \<and> din_of t 1 = ex_din \<and>
    din_of_bytes (disk_blk t 1) = ex_din \<and> (\<forall>b. b \<noteq> 1 \<longrightarrow> disk_blk t b = disk_blk ex_vst b) \<and> fs_ok t 5"
proof -
  have i: "sin_of ex_vst 1 = \<lparr>din = ex_din, din_at = 0, ino = 1, dirty = True, reclaim_count = 1, sin_sem = 1\<rparr>"
    by (simp add: ex_low_def)
  show ?thesis
    using sfs_fsync_stores_inode [OF ex_fs_ok, of 1 5, unfolded i]
    by (simp add: ex_vst_def ex_din_def SFS_NDIRECT_def ex_sfs_def)
qed

subsection \<open>Two failures\<close>

text \<open>C33: Reading a whole aligned block of a file does not read that file: the read of file block \<open>k\<close> returns the
  disk block with the number \<open>k\<close>, whatever disk block the file has there, and for the first block the
  kernel panics.\<close>

theorem sfs_whole_block_read_ignores_map:
  assumes "fs_ok s f" "map_ok s f" "file_block s f n k i" "k < unat (blocks (super (fs_of s f)))"
    "mapped (kbuf s) buf SFS_BLKSIZE"
  shows "\<exists>m. sfs_io_nolock f n buf (of_nat (k * SFS_BLKSIZE)) SFS_BLKSIZE False s =
      (if k = 0 then None else Some (0, SFS_BLKSIZE, set_kbuf m s)) \<and> rd_bytes buf SFS_BLKSIZE m = Some (disk_blk s k)"
  using read_block_eq [OF assms] by (intro exI [of _ "overlay buf (disk_blk s k) (through s (disk_blk s k))"]) simp

theorem sfs_whole_block_read_ignores_map_witness:
  "(\<exists>m. sfs_io_nolock 5 1 16384 0 SFS_BLKSIZE False ex_vst = None \<and> rd_bytes 16384 SFS_BLKSIZE m = Some (disk_blk ex_vst 0)) \<and>
   (\<exists>m. sfs_io_nolock 5 1 16384 (of_nat SFS_BLKSIZE) SFS_BLKSIZE False ex_vst = Some (0, SFS_BLKSIZE, set_kbuf m ex_vst) \<and>
      rd_bytes 16384 SFS_BLKSIZE m = Some (disk_blk ex_vst 1))"
proof -
  have i: "din_of ex_vst 1 = ex_din" by (simp add: ex_low_def)
  have "file_block ex_vst 5 1 0 1" "file_block ex_vst 5 1 1 1"
    by (simp_all add: file_block_def i [simplified] ex_free SFS_NDIRECT_def SFS_BLKSIZE_def ex_din_def ex_sfs_def)
  note b = this
  have "0 < unat (blocks (super (fs_of ex_vst 5)))" "1 < unat (blocks (super (fs_of ex_vst 5)))" by (simp_all add: ex_sfs_def)
  note l = this
  have m: "mapped (kbuf ex_vst) 16384 SFS_BLKSIZE" by simp
  show ?thesis
    using sfs_whole_block_read_ignores_map [OF ex_fs_ok ex_map_ok b(1) l(1) m]
      sfs_whole_block_read_ignores_map [OF ex_fs_ok ex_map_ok b(2) l(2) m] by simp
qed

text \<open>C34: No operation table of the kernel has a create operation: opening a missing file with \<open>O_CREAT\<close> and any further
  flags that the checks accept (a known access mode, \<open>O_TRUNC\<close> only with writing), where the lookup of its directory
  succeeds, panics the kernel. The witness has the flags with which the shell opens the file of a \<open>>\<close>.\<close>

theorem vfs_open_create_panics:
  assumes "flags AND O_ACCMODE \<in> {O_RDONLY, O_WRONLY, O_RDWR}" "flags AND O_TRUNC \<noteq> 0 \<longrightarrow> flags AND O_ACCMODE \<noteq> O_RDONLY"
    "flags AND O_CREAT \<noteq> 0"
    and "vfs_lookup ktab path s = Some (- E_NOENT, n, path', t)" "vfs_lookup_parent ktab path' t = Some (0, d, name, u)"
  shows "vfs_open ktab path flags s = None"
proof -
  have "op_create (itab ktab k) = None" for k
    by (simp add: ktab_def dev_node_ops_def sfs_node_dirops_def sfs_node_fileops_def no_ops_def)
  then have c: "vop ktab op_create x u = None" for x by (cases "in_ops (inodes u x)") (simp_all add: vop_def)
  show ?thesis
    using assms by (cases d) (auto simp: vfs_open_def Let_def E_NOENT_def c)
qed

lemma ex_lookup:
  "\<exists>n p t d nm u. vfs_lookup ktab ''x'' ex_vst = Some (- E_NOENT, n, p, t) \<and> vfs_lookup_parent ktab p t = Some (0, d, nm, u)"
  by (simp add: vfs_lookup_def vfs_lookup_parent_def get_device_def is_sep_def vfs_get_curdir_def get_cwd_nolock_def
      ex_vst_def inode_ref_inc_def upd_inode_def vop_def ktab_def DEV_OPS_def SFS_DIROPS_def SFS_FILEOPS_def
      sfs_node_dirops_def no_ops_def inode_check_def MAX_INODE_COUNT_def sfs_lookup_def sfs_info_def ex_low_def ex_din_def
      SFS_TYPE_DIR_def sfs_lookup_once_def lock_sin_def upd_sin_def upd_low_def sfs_dirent_search_nolock_def
      SFS_MAX_FNAME_LEN_def FS_MAX_FNAME_LEN_def vmalloc_def vfree_def unlock_sin_def vop_ref_dec_def inode_ref_dec_def E_NOENT_def)

theorem vfs_open_create_panics_witness: "vfs_open ktab ''x'' (O_RDWR OR O_TRUNC OR O_CREAT) ex_vst = None"
proof -
  obtain n p t d nm u where "vfs_lookup ktab ''x'' ex_vst = Some (- E_NOENT, n, p, t)" "vfs_lookup_parent ktab p t = Some (0, d, nm, u)"
    using ex_lookup by blast
  then show ?thesis by (intro vfs_open_create_panics) (simp_all add: o_defs)
qed

end
