(* ===== verification/FiletabProps.thy ===== *)
theory FiletabProps
  imports Filetab
begin

section \<open>Open counts: every open entry counts once\<close>

text \<open>
  \<open>P\<close> is the set of the files structures in use. \<open>holds s P n\<close> are the table entries through which
  the node \<open>n\<close> is open. \<open>tab_ok\<close>: the open count of every node is exactly the number of these, its
  reference count is not smaller, and every entry is either free or open.
\<close>

definition holds :: "'d vst \<Rightarrow> nat set \<Rightarrow> nat \<Rightarrow> (nat \<times> nat) set" where
  "holds s P n = {(p, i). p \<in> P \<and> i < FILES_STRUCT_NENTRY \<and> status (fd_array s p i) = FD_OPENED \<and> node (fd_array s p i) = Some n}"

definition entry_ok :: "nat \<Rightarrow> file_t \<Rightarrow> bool" where
  "entry_ok i f \<longleftrightarrow> fd f = int i \<and> (status f = FD_NONE \<and> fopen_count f = 0 \<or>
     status f = FD_OPENED \<and> fopen_count f > 0 \<and> node f \<noteq> None)"

definition tab_ok :: "'d vst \<Rightarrow> nat set \<Rightarrow> bool" where
  "tab_ok s P \<longleftrightarrow> finite P \<and> (\<forall>p \<in> P. \<forall>i < FILES_STRUCT_NENTRY. entry_ok i (fd_array s p i)) \<and>
     (\<forall>n. open_count (inodes s n) = int (card (holds s P n)) \<and> open_count (inodes s n) \<le> ref_count (inodes s n))"

lemma finite_holds: "finite P \<Longrightarrow> finite (holds s P n)"
  by (rule finite_subset [of _ "P \<times> {..<FILES_STRUCT_NENTRY}"]) (auto simp: holds_def)

lemma upd_sels [simp]:
  "inodes (upd_file p i f s) = inodes s" "fstructs (upd_file p i f s) = fstructs s" "cur_filesp (upd_file p i f s) = cur_filesp s"
  "fd_array (inode_ref_inc n s) = fd_array s" "fd_array (inode_open_inc n s) = fd_array s"
  "fstructs (inode_ref_inc n s) = fstructs s" "fstructs (inode_open_inc n s) = fstructs s"
  "cur_filesp (inode_ref_inc n s) = cur_filesp s" "cur_filesp (inode_open_inc n s) = cur_filesp s"
  "inodes (upd_fstruct p g s) = inodes s" "fd_array (upd_fstruct p g s) = fd_array s"
  by (simp_all add: upd_file_def inode_ref_inc_def inode_open_inc_def upd_inode_def upd_fstruct_def)

lemma fd_array_upd: "fd_array (upd_file p i f s) q j = (if q = p \<and> j = i then f (fd_array s p i) else fd_array s q j)"
  by (simp add: upd_file_def)

lemma inodes_inc:
  "inodes (inode_ref_inc n s) m = (if m = n then (inodes s n)\<lparr>ref_count := ref_count (inodes s n) + 1\<rparr> else inodes s m)"
  "inodes (inode_open_inc n s) m = (if m = n then (inodes s n)\<lparr>open_count := open_count (inodes s n) + 1\<rparr> else inodes s m)"
  by (simp_all add: inode_ref_inc_def inode_open_inc_def upd_inode_def)

text \<open>The state after \<open>fd_array_dup\<close>: the entry \<open>(q, j)\<close> is open on the node of \<open>(p, i)\<close>.\<close>

definition dupped :: "'d vst \<Rightarrow> nat \<times> nat \<Rightarrow> nat \<times> nat \<Rightarrow> 'd vst \<Rightarrow> bool" where
  "dupped s to from t \<longleftrightarrow> (\<exists>n. node (fd_array s (fst from) (snd from)) = Some n \<and>
     (\<forall>q j. fd_array t q j = (if (q, j) = to then (fd_array s q j)\<lparr>status := FD_OPENED, node := Some n,
        pos := pos (fd_array s (fst from) (snd from)), readable := readable (fd_array s (fst from) (snd from)),
        writable := writable (fd_array s (fst from) (snd from)), fopen_count := fopen_count (fd_array s q j) + 1\<rparr>
       else fd_array s q j)) \<and>
     (\<forall>m. inodes t m = (if m = n then (inodes s n)\<lparr>ref_count := ref_count (inodes s n) + 1,
        open_count := open_count (inodes s n) + 1\<rparr> else inodes s m)) \<and>
     fstructs t = fstructs s \<and> cur_filesp t = cur_filesp s)"

lemma fd_array_dup_eq:
  assumes "status (fd_array s (fst to) (snd to)) = FD_INIT" "status (fd_array s (fst from) (snd from)) = FD_OPENED"
    "node (fd_array s (fst from) (snd from)) \<noteq> None" "to \<noteq> from"
  shows "\<exists>t. fd_array_dup to from s = Some t \<and> dupped s to from t"
proof -
  obtain n where n: "node (fd_array s (fst from) (snd from)) = Some n" using assms(3) by blast
  let ?f = "fd_array s (fst from) (snd from)"
  let ?a = "upd_file (fst to) (snd to) (\<lambda>t. t\<lparr>pos := pos ?f, readable := readable ?f, writable := writable ?f\<rparr>) s"
  let ?b = "upd_file (fst to) (snd to) (\<lambda>t. t\<lparr>node := Some n\<rparr>) (inode_open_inc n (inode_ref_inc n ?a))"
  let ?t = "upd_file (fst to) (snd to) (\<lambda>f. f\<lparr>status := FD_OPENED, fopen_count := fopen_count f + 1\<rparr>) ?b"
  have "fd_array_dup to from s = Some ?t"
    using assms(1,2) n by (simp add: fd_array_dup_def fd_array_open_def fd_array_upd Let_def)
  moreover have "dupped s to from ?t"
    unfolding dupped_def using n by (intro exI [of _ n]) (auto simp: fd_array_upd inodes_inc)
  ultimately show ?thesis by blast
qed

lemma holds_dupped:
  assumes d: "dupped s to from t" and n: "node (fd_array s (fst from) (snd from)) = Some n"
    and to: "fst to \<in> P" "snd to < FILES_STRUCT_NENTRY" "status (fd_array s (fst to) (snd to)) \<noteq> FD_OPENED"
  shows "holds t P m = (if m = n then insert to (holds s P n) else holds s P m)" "to \<notin> holds s P m"
  using d n to by (cases to; auto simp: holds_def dupped_def split: if_splits)+

lemma tab_ok_dupped:
  assumes ok: "finite P" "\<forall>p \<in> P. \<forall>i < FILES_STRUCT_NENTRY. (p, i) \<noteq> to \<longrightarrow> entry_ok i (fd_array s p i)"
      "\<forall>n. open_count (inodes s n) = int (card (holds s P n)) \<and> open_count (inodes s n) \<le> ref_count (inodes s n)"
    and d: "dupped s to from t"
    and to: "fst to \<in> P" "snd to < FILES_STRUCT_NENTRY" "status (fd_array s (fst to) (snd to)) = FD_INIT"
      "fd (fd_array s (fst to) (snd to)) = int (snd to)" "fopen_count (fd_array s (fst to) (snd to)) = 0"
  shows "tab_ok t P"
proof -
  obtain n where n: "node (fd_array s (fst from) (snd from)) = Some n" using d by (auto simp: dupped_def)
  have st: "status (fd_array s (fst to) (snd to)) \<noteq> FD_OPENED" using to(3) by simp
  note h = holds_dupped [OF d n to(1,2) st]
  have "open_count (inodes t m) = int (card (holds t P m)) \<and> open_count (inodes t m) \<le> ref_count (inodes t m)" for m
  proof -
    have "inodes t m = (if m = n then (inodes s n)\<lparr>ref_count := ref_count (inodes s n) + 1,
        open_count := open_count (inodes s n) + 1\<rparr> else inodes s m)" using d n by (auto simp: dupped_def)
    moreover have "open_count (inodes s m) = int (card (holds s P m))" "open_count (inodes s m) \<le> ref_count (inodes s m)"
      using ok(3) by blast+
    ultimately show ?thesis using h [of m] finite_holds [OF ok(1), of s n] by (auto simp: card_insert_disjoint)
  qed
  moreover have "entry_ok i (fd_array t p i)" if "p \<in> P" "i < FILES_STRUCT_NENTRY" for p i
    using d n to ok(2) that by (cases to) (auto simp: dupped_def entry_ok_def)
  ultimately show ?thesis using ok(1) unfolding tab_ok_def by blast
qed

subsection \<open>Duplicating a table\<close>

text \<open>
  While \<open>dup_files\<close> copies, the entries of \<open>to\<close> below the current index are copies and the rest is
  free.
\<close>

lemma dup_files_loop_ok:
  assumes "from \<noteq> to" "from \<in> P" "to \<notin> P"
  shows "tab_ok s (insert to P) \<Longrightarrow> distinct is \<Longrightarrow> \<forall>i \<in> set is. i < FILES_STRUCT_NENTRY \<and> status (fd_array s to i) = FD_NONE \<Longrightarrow>
    \<exists>t. dup_files_loop to from is s = Some t \<and> tab_ok t (insert to P) \<and> fstructs t = fstructs s \<and> cur_filesp t = cur_filesp s \<and>
      (\<forall>p i. p \<noteq> to \<or> i \<notin> set is \<longrightarrow> fd_array t p i = fd_array s p i) \<and>
      (\<forall>i \<in> set is. let a = fd_array s from i; b = fd_array t to i in
         status b = status a \<and> fd b = int i \<and> (status a = FD_OPENED \<longrightarrow> node b = node a \<and> pos b = pos a \<and>
           readable b = readable a \<and> writable b = writable a \<and> fopen_count b = 1))"
proof (induction "is" arbitrary: s)
  case Nil
  then show ?case by simp
next
  case (Cons i "is")
  note tab = Cons.prems(1) [unfolded tab_ok_def]
  note fin = conjunct1 [OF tab] and ent = conjunct1 [OF conjunct2 [OF tab]] and cnt = conjunct2 [OF conjunct2 [OF tab]]
  have i: "i < FILES_STRUCT_NENTRY" "status (fd_array s to i) = FD_NONE" "i \<notin> set is" using Cons.prems by auto
  have et: "fd (fd_array s to i) = int i" "fopen_count (fd_array s to i) = 0"
    using ent i(1,2) by (auto simp: entry_ok_def)
  have ef: "entry_ok i (fd_array s from i)" using ent assms(2) i(1) by blast
  show ?case
  proof (cases "status (fd_array s from i) = FD_OPENED")
    case True
    let ?s = "upd_file to i (\<lambda>f. f\<lparr>status := FD_INIT\<rparr>) s"
    have nf: "fd_array ?s from i = fd_array s from i" using assms(1) by (simp add: fd_array_upd)
    obtain n where n: "node (fd_array s from i) = Some n" using ef True by (auto simp: entry_ok_def)
    obtain t where t: "fd_array_dup (to, i) (from, i) ?s = Some t" "dupped ?s (to, i) (from, i) t"
      using fd_array_dup_eq [of ?s "(to, i)" "(from, i)"] True n assms(1) nf by (auto simp: fd_array_upd)
    have h: "holds ?s (insert to P) m = holds s (insert to P) m" for m
      using i(2) by (auto simp: holds_def fd_array_upd)
    have tk: "tab_ok t (insert to P)"
    proof (rule tab_ok_dupped [OF fin _ _ t(2)])
      show "\<forall>n. open_count (inodes ?s n) = int (card (holds ?s (insert to P) n)) \<and> open_count (inodes ?s n) \<le> ref_count (inodes ?s n)"
        unfolding h upd_sels by (rule cnt)
      show "\<forall>p \<in> insert to P. \<forall>j < FILES_STRUCT_NENTRY. (p, j) \<noteq> (to, i) \<longrightarrow> entry_ok j (fd_array ?s p j)"
        using ent by (auto simp: fd_array_upd)
    qed (use i(1) et in \<open>simp_all add: fd_array_upd\<close>)
    have ft: "fd_array t q j = fd_array s q j" if "(q, j) \<noteq> (to, i)" for q j
      using t(2) that by (auto simp: dupped_def fd_array_upd)
    have fi: "fd_array t to i = (fd_array s to i)\<lparr>status := FD_OPENED, node := Some n, pos := pos (fd_array s from i),
        readable := readable (fd_array s from i), writable := writable (fd_array s from i), fopen_count := 1\<rparr>"
      using t(2) n nf et(2) by (auto simp: dupped_def fd_array_upd)
    have "\<forall>j \<in> set is. j < FILES_STRUCT_NENTRY \<and> status (fd_array t to j) = FD_NONE"
    proof
      fix j assume j: "j \<in> set is"
      then have "(to, j) \<noteq> (to, i)" using i(3) by auto
      then show "j < FILES_STRUCT_NENTRY \<and> status (fd_array t to j) = FD_NONE" using ft [of to j] Cons.prems(3) j by simp
    qed
    then obtain u where u: "dup_files_loop to from is t = Some u" "tab_ok u (insert to P)" "fstructs u = fstructs t"
      "cur_filesp u = cur_filesp t" "\<forall>p j. p \<noteq> to \<or> j \<notin> set is \<longrightarrow> fd_array u p j = fd_array t p j"
      "\<forall>j \<in> set is. let a = fd_array t from j; b = fd_array u to j in
         status b = status a \<and> fd b = int j \<and> (status a = FD_OPENED \<longrightarrow> node b = node a \<and> pos b = pos a \<and>
           readable b = readable a \<and> writable b = writable a \<and> fopen_count b = 1)"
      using Cons.IH [OF tk] Cons.prems(2) by auto
    have "fstructs t = fstructs s" "cur_filesp t = cur_filesp s" using t(2) by (auto simp: dupped_def)
    moreover have "fd_array u to i = fd_array t to i" using u(5) i(3) by blast
    ultimately show ?thesis
      using u t(1) True ft fi n et(1) assms(1) by (intro exI [of _ u]) (auto simp: Let_def)
  next
    case False
    then have "status (fd_array s from i) = FD_NONE" using ef by (auto simp: entry_ok_def)
    moreover obtain u where u: "dup_files_loop to from is s = Some u" "tab_ok u (insert to P)" "fstructs u = fstructs s"
      "cur_filesp u = cur_filesp s" "\<forall>p j. p \<noteq> to \<or> j \<notin> set is \<longrightarrow> fd_array u p j = fd_array s p j"
      "\<forall>j \<in> set is. let a = fd_array s from j; b = fd_array u to j in
         status b = status a \<and> fd b = int j \<and> (status a = FD_OPENED \<longrightarrow> node b = node a \<and> pos b = pos a \<and>
           readable b = readable a \<and> writable b = writable a \<and> fopen_count b = 1)"
      using Cons.IH [OF Cons.prems(1)] Cons.prems(2,3) by auto
    moreover have "fd_array u to i = fd_array s to i" using u(5) i(3) by blast
    ultimately show ?thesis
      using False i(2) et by (intro exI [of _ u]) (auto simp: Let_def)
  qed
qed

text \<open>When a process is forked, its child gets the same open files: \<open>dup_files\<close> returns, every open entry
  is copied with its node, offset and access mode, and afterwards the open count of every node is
  again the number of entries on it, the child's included. Nothing else changes in the tables.\<close>

theorem dup_files_counts_entries:
  assumes ok: "tab_ok s P" and p: "from \<in> P" "to \<notin> P"
    and c: "files_count (fstructs s to) = 0" "files_count (fstructs s from) > 0"
    and new: "\<forall>i < FILES_STRUCT_NENTRY. status (fd_array s to i) = FD_NONE \<and> fopen_count (fd_array s to i) = 0 \<and> fd (fd_array s to i) = int i"
  shows "\<exists>t. dup_files to from s = Some (0, t) \<and> tab_ok t (insert to P) \<and> pwd (fstructs t to) = pwd (fstructs s from) \<and>
    (\<forall>q i. q \<noteq> to \<longrightarrow> fd_array t q i = fd_array s q i) \<and>
    (\<forall>i < FILES_STRUCT_NENTRY. let a = fd_array s from i; b = fd_array t to i in
       status b = status a \<and> (status a = FD_OPENED \<longrightarrow> node b = node a \<and> pos b = pos a \<and> readable b = readable a \<and> writable b = writable a))"
proof -
  let ?d = "pwd (fstructs s from)"
  let ?a = "upd_fstruct to (\<lambda>f. f\<lparr>pwd := ?d\<rparr>) s"
  let ?s = "case ?d of None \<Rightarrow> ?a | Some n \<Rightarrow> inode_ref_inc n ?a"
  note tab = ok [unfolded tab_ok_def]
  note fin = conjunct1 [OF tab] and ent = conjunct1 [OF conjunct2 [OF tab]] and cnt = conjunct2 [OF conjunct2 [OF tab]]
  have f: "fd_array ?s = fd_array s" by (simp split: option.split)
  have h: "holds ?s (insert to P) n = holds s P n" for n using new f by (auto simp: holds_def)
  have i: "open_count (inodes ?s n) = open_count (inodes s n) \<and> ref_count (inodes s n) \<le> ref_count (inodes ?s n)" for n
    by (simp add: inodes_inc split: option.split)
  have "tab_ok ?s (insert to P)"
    unfolding tab_ok_def h f
  proof (intro conjI ballI allI impI)
    fix q j assume "q \<in> insert to P" "j < FILES_STRUCT_NENTRY"
    then show "entry_ok j (fd_array s q j)" using ent new by (auto simp: entry_ok_def)
  next
    fix n
    show "open_count (inodes ?s n) = int (card (holds s P n))" using i [of n] cnt [rule_format, of n] by linarith
    show "open_count (inodes ?s n) \<le> ref_count (inodes ?s n)" using i [of n] cnt [rule_format, of n] by linarith
  qed (use fin in simp)
  moreover have nt: "from \<noteq> to" using p by auto
  moreover have "\<forall>j \<in> set [0..<FILES_STRUCT_NENTRY]. j < FILES_STRUCT_NENTRY \<and> status (fd_array ?s to j) = FD_NONE"
    using new unfolding f by simp
  note l = dup_files_loop_ok [OF nt p calculation(1) distinct_upt this, unfolded f]
  obtain t where t: "dup_files_loop to from [0..<FILES_STRUCT_NENTRY] ?s = Some t" "tab_ok t (insert to P)" "fstructs t = fstructs ?s"
    "\<forall>q j. q \<noteq> to \<or> j \<notin> set [0..<FILES_STRUCT_NENTRY] \<longrightarrow> fd_array t q j = fd_array s q j"
    "\<forall>j \<in> set [0..<FILES_STRUCT_NENTRY]. let a = fd_array s from j; b = fd_array t to j in
         status b = status a \<and> fd b = int j \<and> (status a = FD_OPENED \<longrightarrow> node b = node a \<and> pos b = pos a \<and>
           readable b = readable a \<and> writable b = writable a \<and> fopen_count b = 1)"
    using l by (elim exE conjE) (rule that)
  have "dup_files to from s = Some (0, t)" using c t(1) by (simp add: dup_files_def Let_def)
  moreover have "pwd (fstructs t to) = ?d" unfolding t(3) by (simp add: upd_fstruct_def split: option.split)
  ultimately show ?thesis using t(2,4,5) by (intro exI [of _ t]) (auto simp: Let_def)
qed

subsection \<open>Duplicating a descriptor\<close>

lemma fd_array_alloc_cases:
  assumes p: "cur_filesp s = Some p" "files_count (fstructs s p) > 0"
    and ent: "\<forall>i < FILES_STRUCT_NENTRY. entry_ok i (fd_array s p i)"
  shows "(\<exists>r < 0. fd_array_alloc x s = Some (r, None, s)) \<or>
    (\<exists>i < FILES_STRUCT_NENTRY. status (fd_array s p i) = FD_NONE \<and> (x \<noteq> NO_FD \<longrightarrow> x = int i) \<and>
       (x = NO_FD \<longrightarrow> (\<forall>j < i. status (fd_array s p j) \<noteq> FD_NONE)) \<and>
       fd_array_alloc x s = Some (0, Some (p, i), upd_file p i (\<lambda>f. f\<lparr>status := FD_INIT, node := None\<rparr>) s))"
proof -
  let ?free = "\<lambda>i. status (fd_array s p i) = FD_NONE"
  have g: "get_fd_array s = Some p" using p by (simp add: get_fd_array_def)
  have z: "i < FILES_STRUCT_NENTRY \<Longrightarrow> ?free i \<Longrightarrow> fopen_count (fd_array s p i) = 0" for i
    using ent by (auto simp: entry_ok_def)
  consider (any) "x = NO_FD" | (one) "x \<noteq> NO_FD" "testfd x" | (bad) "x \<noteq> NO_FD" "\<not> testfd x" by blast
  then show ?thesis
  proof cases
    case any
    show ?thesis
    proof (cases "List.find ?free [0..<FILES_STRUCT_NENTRY]")
      case None
      then show ?thesis using any g by (simp add: fd_array_alloc_def E_MAX_OPEN_def)
    next
      case (Some i)
      then have i: "i < FILES_STRUCT_NENTRY" "?free i" "\<forall>j < i. \<not> ?free j" by (auto simp: find_Some_iff)
      then show ?thesis using any g Some z [OF i(1,2)] by (intro disjI2 exI [of _ i]) (simp add: fd_array_alloc_def)
    qed
  next
    case one
    then have x: "nat x < FILES_STRUCT_NENTRY" "x = int (nat x)" by (auto simp: testfd_def)
    show ?thesis
    proof (cases "?free (nat x)")
      case True
      then show ?thesis using one g x z [OF x(1) True] by (intro disjI2 exI [of _ "nat x"]) (simp add: fd_array_alloc_def)
    next
      case False
      then show ?thesis using one g by (simp add: fd_array_alloc_def E_BUSY_def)
    qed
  next
    case bad
    then show ?thesis using g by (simp add: fd_array_alloc_def E_INVAL_def)
  qed
qed

text \<open>C35: \<open>file_dup\<close> always returns. Either it fails, with a negative result and no change, or its result is a
  descriptor that was free (the requested one, or the lowest when none was requested) and is now open
  on the node, offset and mode of the first; all other entries stay and the open counts stay exact.\<close>

theorem file_dup_keeps_counts:
  assumes ok: "tab_ok s P" and p: "p \<in> P" "cur_filesp s = Some p" "files_count (fstructs s p) > 0"
  shows "\<exists>r t. file_dup fd1 fd2 s = Some (r, t) \<and> tab_ok t P \<and>
    (r < 0 \<and> t = s \<or>
     testfd r \<and> testfd fd1 \<and> (if fd2 = NO_FD then \<forall>j < nat r. status (fd_array s p j) \<noteq> FD_NONE else r = fd2) \<and>
     status (fd_array s p (nat r)) = FD_NONE \<and> status (fd_array s p (nat fd1)) = FD_OPENED \<and>
     (let a = fd_array s p (nat fd1); b = fd_array t p (nat r) in status b = FD_OPENED \<and> node b = node a \<and> pos b = pos a \<and>
        readable b = readable a \<and> writable b = writable a \<and> fopen_count b = 1) \<and>
     (\<forall>q j. (q, j) \<noteq> (p, nat r) \<longrightarrow> fd_array t q j = fd_array s q j))"
proof -
  note tab = ok [unfolded tab_ok_def]
  note fin = conjunct1 [OF tab] and ent = conjunct1 [OF conjunct2 [OF tab]] and cnt = conjunct2 [OF conjunct2 [OF tab]]
  have g: "get_fd_array s = Some p" using p by (simp add: get_fd_array_def)
  show ?thesis
  proof (cases "testfd fd1 \<and> status (fd_array s p (nat fd1)) = FD_OPENED \<and> fd (fd_array s p (nat fd1)) = fd1")
    case False
    then have "fd2file fd1 s = Some None" using g by (auto simp: fd2file_def Let_def)
    then show ?thesis using ok by (simp add: file_dup_def E_INVAL_def)
  next
    case True
    then have f1: "fd2file fd1 s = Some (Some (p, nat fd1))" using g by (simp add: fd2file_def Let_def)
    let ?k = "nat fd1"
    have k: "?k < FILES_STRUCT_NENTRY" using True by (auto simp: testfd_def)
    have ep: "\<forall>i < FILES_STRUCT_NENTRY. entry_ok i (fd_array s p i)" using ent p(1) by blast
    from fd_array_alloc_cases [OF p(2,3) ep, of fd2] show ?thesis
    proof (elim disjE exE conjE)
      fix r assume "r < 0" "fd_array_alloc fd2 s = Some (r, None, s)"
      then have "file_dup fd1 fd2 s = Some (r, s)" using f1 by (simp add: file_dup_def)
      then show ?thesis using ok \<open>r < 0\<close> by blast
    next
      fix i
      assume i: "i < FILES_STRUCT_NENTRY" "status (fd_array s p i) = FD_NONE" "fd2 \<noteq> NO_FD \<longrightarrow> fd2 = int i"
        "fd2 = NO_FD \<longrightarrow> (\<forall>j < i. status (fd_array s p j) \<noteq> FD_NONE)"
        and al: "fd_array_alloc fd2 s = Some (0, Some (p, i), upd_file p i (\<lambda>f. f\<lparr>status := FD_INIT, node := None\<rparr>) s)"
      let ?s = "upd_file p i (\<lambda>f. f\<lparr>status := FD_INIT, node := None\<rparr>) s"
      have ne: "i \<noteq> ?k" using i(2) True by auto
      have fk: "fd_array ?s p ?k = fd_array s p ?k" using ne by (simp add: fd_array_upd)
      have ek: "entry_ok ?k (fd_array s p ?k)" and ei: "entry_ok i (fd_array s p i)" using ep k i(1) by blast+
      have nk: "node (fd_array s p ?k) \<noteq> None" using ek True by (auto simp: entry_ok_def)
      have ci: "fopen_count (fd_array s p i) = 0" "fd (fd_array s p i) = int i" using ei i(2) by (auto simp: entry_ok_def)
      obtain t where t: "fd_array_dup (p, i) (p, ?k) ?s = Some t" "dupped ?s (p, i) (p, ?k) t"
        using fd_array_dup_eq [of ?s "(p, i)" "(p, ?k)"] True nk ne fk by (auto simp: fd_array_upd)
      have h: "holds ?s P m = holds s P m" for m using i(2) by (auto simp: holds_def fd_array_upd)
      have tk: "tab_ok t P"
      proof (rule tab_ok_dupped [OF fin _ _ t(2)])
        show "\<forall>n. open_count (inodes ?s n) = int (card (holds ?s P n)) \<and> open_count (inodes ?s n) \<le> ref_count (inodes ?s n)"
          unfolding h upd_sels by (rule cnt)
        show "\<forall>q \<in> P. \<forall>j < FILES_STRUCT_NENTRY. (q, j) \<noteq> (p, i) \<longrightarrow> entry_ok j (fd_array ?s q j)"
          using ent by (auto simp: fd_array_upd)
      qed (use i(1) p(1) ci in \<open>simp_all add: fd_array_upd\<close>)
      have e: "fd_array t p i = (fd_array s p i)\<lparr>status := FD_OPENED, node := node (fd_array s p ?k), pos := pos (fd_array s p ?k),
          readable := readable (fd_array s p ?k), writable := writable (fd_array s p ?k), fopen_count := 1\<rparr>"
        using t(2) fk ci(1) by (auto simp: dupped_def fd_array_upd)
      have o: "fd_array t q j = fd_array s q j" if "(q, j) \<noteq> (p, i)" for q j
        using t(2) that by (auto simp: dupped_def fd_array_upd)
      have "file_dup fd1 fd2 s = Some (int i, t)" using f1 al t(1) e ci(2) by (simp add: file_dup_def)
      moreover have "testfd (int i)" using i(1) by (simp add: testfd_def)
      ultimately show ?thesis
        using tk e o i True by (intro exI [of _ "int i"] exI [of _ t]) (simp add: Let_def)
    qed
  qed
qed

text \<open>One process with the file structure 7, whose entry 0 is open on node 3.\<close>

definition ex_tab :: "unit vst" where
  "ex_tab = \<lparr>inodes = (\<lambda>n. \<lparr>in_type = inode_type_sfs_inode_info, ref_count = 1, open_count = (if n = 3 then 1 else 0),
       in_fs = None, in_ops = Some 0\<rparr>),
     fd_array = (\<lambda>p i. \<lparr>status = (if p = 7 \<and> i = 0 then FD_OPENED else FD_NONE), readable = True, writable = False,
       fd = int i, pos = 5, node = Some 3, fopen_count = (if p = 7 \<and> i = 0 then 1 else 0)\<rparr>),
     fstructs = (\<lambda>p. \<lparr>pwd = Some 4, files_count = (if p = 7 then 1 else 0), files_sem = 1\<rparr>), cur_filesp = Some 7,
     bootfs_node = None, bootfs_sem = 1, vdevs = undefined, vdev_links = undefined, vdev_list_sem = 1,
     fs_ops_of = undefined, vheap = [], kbuf = undefined, low = ()\<rparr>"

lemma ex_tab_ok: "tab_ok ex_tab {7}"
proof -
  have "holds ex_tab {7} n = (if n = 3 then {(7, 0)} else {})" for n
    by (auto simp: holds_def ex_tab_def split: if_splits)
  then show ?thesis by (simp add: tab_ok_def entry_ok_def) (simp add: ex_tab_def)
qed

theorem file_dup_keeps_counts_witness:
  "\<exists>r t. file_dup 0 NO_FD ex_tab = Some (r, t) \<and> tab_ok t {7} \<and>
    (r < 0 \<and> t = ex_tab \<or>
     testfd r \<and> testfd 0 \<and> (if NO_FD = NO_FD then \<forall>j < nat r. status (fd_array ex_tab 7 j) \<noteq> FD_NONE else r = NO_FD) \<and>
     status (fd_array ex_tab 7 (nat r)) = FD_NONE \<and> status (fd_array ex_tab 7 (nat 0)) = FD_OPENED \<and>
     (let a = fd_array ex_tab 7 (nat 0); b = fd_array t 7 (nat r) in status b = FD_OPENED \<and> node b = node a \<and> pos b = pos a \<and>
        readable b = readable a \<and> writable b = writable a \<and> fopen_count b = 1) \<and>
     (\<forall>q j. (q, j) \<noteq> (7, nat r) \<longrightarrow> fd_array t q j = fd_array ex_tab q j))"
  by (rule file_dup_keeps_counts [OF ex_tab_ok]) (simp_all add: ex_tab_def)

theorem dup_files_counts_entries_witness:
  "\<exists>t. dup_files 8 7 ex_tab = Some (0, t) \<and> tab_ok t {8, 7} \<and> pwd (fstructs t 8) = Some 4 \<and>
    (\<forall>q i. q \<noteq> 8 \<longrightarrow> fd_array t q i = fd_array ex_tab q i) \<and> status (fd_array t 8 0) = FD_OPENED \<and> node (fd_array t 8 0) = Some 3"
proof -
  have "\<exists>t. dup_files 8 7 ex_tab = Some (0, t) \<and> tab_ok t (insert 8 {7}) \<and> pwd (fstructs t 8) = pwd (fstructs ex_tab 7) \<and>
    (\<forall>q i. q \<noteq> 8 \<longrightarrow> fd_array t q i = fd_array ex_tab q i) \<and>
    (\<forall>i < FILES_STRUCT_NENTRY. let a = fd_array ex_tab 7 i; b = fd_array t 8 i in
       status b = status a \<and> (status a = FD_OPENED \<longrightarrow> node b = node a \<and> pos b = pos a \<and> readable b = readable a \<and> writable b = writable a))"
    by (rule dup_files_counts_entries [OF ex_tab_ok]) (simp_all add: ex_tab_def)
  moreover have "status (fd_array ex_tab 7 0) = FD_OPENED" "node (fd_array ex_tab 7 0) = Some 3" "pwd (fstructs ex_tab 7) = Some 4"
    by (simp_all add: ex_tab_def)
  ultimately show ?thesis by (auto simp: Let_def)
qed

end
