(* ===== verification/Procs.thy ===== *)
theory Procs
  imports Sched PrintFmt
begin

section \<open>Process identifiers, the process lists and the family tree (kern/process/proc.c)\<close>

text \<open>
  The parts of proc.c that work on the process structures alone: \<open>get_pid\<close>, the hash lists, the
  family links. \<open>last_pid\<close> and \<open>next_safe\<close> are the static variables of \<open>get_pid\<close>.
\<close>

definition MAX_PROCESS :: int where "MAX_PROCESS = 4096"
definition MAX_PID :: int where "MAX_PID = MAX_PROCESS * 2"
definition PROC_NAME_LEN :: nat where "PROC_NAME_LEN = 15"
definition HASH_SHIFT :: nat where "HASH_SHIFT = 10"

lemma MAX_PID_val: "MAX_PID = 8192"
  by (simp add: MAX_PID_def MAX_PROCESS_def)

definition pid_hashfn :: "int \<Rightarrow> nat option" where
  "pid_hashfn x = do { h \<leftarrow> hash32 (word_of_int x) HASH_SHIFT; Some (unat h) }"

fun le2proc :: "klink \<Rightarrow> nat option" where
  "le2proc (ListLink p) = Some p"
| "le2proc (HashLink p) = Some p"
| "le2proc (RunLink p) = Some p"
| "le2proc _ = None"

text \<open>The name field holds \<open>PROC_NAME_LEN\<close> characters and a final zero.\<close>

definition set_proc_name :: "nat \<Rightarrow> string \<Rightarrow> kst \<Rightarrow> kst" where
  "set_proc_name p name s = upd_proc p (\<lambda>x. x\<lparr>proc_name := take PROC_NAME_LEN name\<rparr>) s"

definition get_proc_name :: "nat \<Rightarrow> kst \<Rightarrow> string" where
  "get_proc_name p s = take PROC_NAME_LEN (proc_name (procs s p))"

subsection \<open>Family links\<close>

definition set_links :: "nat \<Rightarrow> kst \<Rightarrow> kst option" where
  "set_links p s = do {
     let s = upd_links (list_add ProcList (ListLink p)) s;
     let s = upd_proc p (\<lambda>x. x\<lparr>yptr := None\<rparr>) s;
     par \<leftarrow> parent (procs s p);
     let c = cptr (procs s par);
     let s = upd_proc p (\<lambda>x. x\<lparr>optr := c\<rparr>) s;
     let s = (case c of None \<Rightarrow> s | Some o' \<Rightarrow> upd_proc o' (\<lambda>x. x\<lparr>yptr := Some p\<rparr>) s);
     let s = upd_proc par (\<lambda>x. x\<lparr>cptr := Some p\<rparr>) s;
     Some (s\<lparr>nr_process := nr_process s + 1\<rparr>)
   }"

definition remove_links :: "nat \<Rightarrow> kst \<Rightarrow> kst option" where
  "remove_links p s = do {
     let s = upd_links (list_del (ListLink p)) s;
     let s = (case optr (procs s p) of None \<Rightarrow> s
       | Some o' \<Rightarrow> upd_proc o' (\<lambda>x. x\<lparr>yptr := yptr (procs s p)\<rparr>) s);
     s \<leftarrow> (case yptr (procs s p) of
         Some y \<Rightarrow> Some (upd_proc y (\<lambda>x. x\<lparr>optr := optr (procs s p)\<rparr>) s)
       | None \<Rightarrow> do {
           par \<leftarrow> parent (procs s p);
           Some (upd_proc par (\<lambda>x. x\<lparr>cptr := optr (procs s p)\<rparr>) s)
         });
     Some (s\<lparr>nr_process := nr_process s - 1\<rparr>)
   }"

subsection \<open>Process identifiers\<close>

text \<open>The scan from \<open>repeat\<close>: candidate \<open>cand\<close>, bound \<open>safe\<close>, position \<open>le\<close> in the list.\<close>

partial_function (option) pid_scan :: "kst \<Rightarrow> klink \<Rightarrow> int \<Rightarrow> int \<Rightarrow> (int \<times> int) option" where
  "pid_scan s le cand safe =
     (let le = list_next le (klinks s)
      in if le = ProcList then Some (cand, safe)
         else do {
           p \<leftarrow> le2proc le;
           let i = pid (procs s p);
           if i = cand then
             (if cand + 1 \<ge> safe
              then pid_scan s ProcList (if cand + 1 \<ge> MAX_PID then 1 else cand + 1) MAX_PID
              else pid_scan s le (cand + 1) safe)
           else if i > cand \<and> safe > i then pid_scan s le cand i
           else pid_scan s le cand safe
         })"

definition get_pid :: "kst \<Rightarrow> (int \<times> kst) option" where
  "get_pid s = do {
     let cand = last_pid s + 1;
     (cand, safe) \<leftarrow>
       (if cand \<ge> MAX_PID then pid_scan s ProcList 1 MAX_PID
        else if cand \<ge> next_safe s then pid_scan s ProcList cand MAX_PID
        else Some (cand, next_safe s));
     Some (cand, s\<lparr>last_pid := cand, next_safe := safe\<rparr>)
   }"

declare pid_scan.simps [code]

subsection \<open>Hash lists\<close>

definition hash_proc :: "nat \<Rightarrow> kst \<Rightarrow> kst option" where
  "hash_proc p s = do {
     h \<leftarrow> pid_hashfn (pid (procs s p));
     Some (upd_links (list_add (HashList h) (HashLink p)) s)
   }"

definition unhash_proc :: "nat \<Rightarrow> kst \<Rightarrow> kst" where
  "unhash_proc p s = upd_links (list_del (HashLink p)) s"

partial_function (option) find_proc_loop :: "klink \<Rightarrow> klink \<Rightarrow> int \<Rightarrow> kst \<Rightarrow> nat option option" where
  "find_proc_loop list le i s =
     (let le = list_next le (klinks s)
      in if le = list then Some None
         else do { p \<leftarrow> le2proc le; if pid (procs s p) = i then Some (Some p) else find_proc_loop list le i s })"

definition find_proc :: "int \<Rightarrow> kst \<Rightarrow> nat option option" where
  "find_proc i s =
     (if 0 < i \<and> i < MAX_PID then do {
        h \<leftarrow> pid_hashfn i;
        find_proc_loop (HashList h) (HashList h) i s
      } else Some None)"

declare find_proc_loop.simps [code]

subsection \<open>Yielding, priorities, killing, sleeping\<close>

definition do_yield :: "kst \<Rightarrow> int \<times> kst" where
  "do_yield s = (0, upd_proc (current s) (\<lambda>x. x\<lparr>need_resched := True\<rparr>) s)"

definition lab6_set_priority :: "32 word \<Rightarrow> kst \<Rightarrow> kst" where
  "lab6_set_priority pr s =
     upd_proc (current s) (\<lambda>x. x\<lparr>lab6_priority := (if pr = 0 then 1 else pr)\<rparr>) s"

definition do_kill :: "sched_class \<Rightarrow> int \<Rightarrow> kst \<Rightarrow> (int \<times> kst) option" where
  "do_kill sc i s = do {
     r \<leftarrow> find_proc i s;
     case r of
       None \<Rightarrow> Some (- E_INVAL, s)
     | Some p \<Rightarrow>
         if pflags (procs s p) AND PF_EXITING = 0 then do {
           let s = upd_proc p (\<lambda>x. x\<lparr>pflags := pflags x OR PF_EXITING\<rparr>) s;
           s \<leftarrow> (if wait_state (procs s p) AND WT_INTERRUPTED \<noteq> 0 then wakeup_proc sc p s else Some s);
           Some (0, s)
         } else Some (- E_KILLED, s)
   }"

text \<open>
  \<open>do_sleep\<close> up to and including \<open>schedule\<close>, and from its return. The timer lies on the caller's
  stack; \<open>t\<close> stands for its address. \<open>True\<close>: the caller now sleeps.
\<close>

definition do_sleep_begin :: "sched_class \<Rightarrow> nat \<Rightarrow> nat \<Rightarrow> kst \<Rightarrow> (bool \<times> kst) option" where
  "do_sleep_begin sc t time s =
     (if time = 0 then Some (False, s)
      else do {
        let s = timer_init t (current s) time s;
        let s = upd_proc (current s) (\<lambda>x. x\<lparr>state := PROC_SLEEPING, wait_state := WT_TIMER\<rparr>) s;
        s \<leftarrow> add_timer t s;
        s \<leftarrow> schedule sc s;
        Some (True, s)
      })"

definition do_sleep_end :: "nat \<Rightarrow> kst \<Rightarrow> (int \<times> kst) option" where
  "do_sleep_end t s = do { s \<leftarrow> del_timer t s; Some (0, s) }"

end
