(* ===== verification/ProcsProps.thy ===== *)
theory ProcsProps
  imports Procs
begin

section \<open>Fresh identifiers, the hash lists and the family tree\<close>

subsection \<open>The scan for an unused identifier\<close>

text \<open>Candidates are tried in cyclic order; \<open>dist\<close> is how far the next unused one is away.\<close>

definition nxt_pid :: "int \<Rightarrow> int" where
  "nxt_pid c = (if c + 1 \<ge> MAX_PID then 1 else c + 1)"

definition used :: "kst \<Rightarrow> nat list \<Rightarrow> int set" where
  "used s ps = (\<lambda>p. pid (procs s p)) ` set ps"

definition pid_dist :: "int set \<Rightarrow> int \<Rightarrow> nat" where
  "pid_dist U c = (LEAST n. (nxt_pid ^^ n) c \<notin> U)"

lemma nxt_pid_add: "1 \<le> c \<Longrightarrow> c + int n < MAX_PID \<Longrightarrow> (nxt_pid ^^ n) c = c + int n"
proof (induction n)
  case 0 then show ?case by simp
next
  case (Suc n)
  then have "(nxt_pid ^^ n) c = c + int n" by simp
  then show ?case using Suc.prems by (simp add: nxt_pid_def [of "c + int n"])
qed

lemma nxt_pid_reaches:
  assumes "1 \<le> c" "c < MAX_PID" "1 \<le> x" "x < MAX_PID"
  shows "\<exists>n. (nxt_pid ^^ n) c = x"
proof (cases "c \<le> x")
  case True
  then show ?thesis using nxt_pid_add [of c "nat (x - c)"] assms by (intro exI [of _ "nat (x - c)"]) simp
next
  case False
  have "(nxt_pid ^^ nat (MAX_PID - 1 - c)) c = MAX_PID - 1"
    using nxt_pid_add [of c "nat (MAX_PID - 1 - c)"] assms by simp
  then have "(nxt_pid ^^ Suc (nat (MAX_PID - 1 - c))) c = 1" by (simp add: nxt_pid_def)
  moreover have "(nxt_pid ^^ nat (x - 1)) 1 = x" using nxt_pid_add [of 1 "nat (x - 1)"] assms by simp
  ultimately have "(nxt_pid ^^ (nat (x - 1) + Suc (nat (MAX_PID - 1 - c)))) c = x"
    by (simp only: funpow_add comp_apply)
  then show ?thesis by blast
qed

lemma pid_dist_nxt:
  assumes "\<exists>n. (nxt_pid ^^ n) c \<notin> U" "c \<in> U"
  shows "pid_dist U (nxt_pid c) < pid_dist U c"
proof -
  have l: "(nxt_pid ^^ pid_dist U c) c \<notin> U" unfolding pid_dist_def by (rule LeastI_ex) (rule assms(1))
  then obtain m where m: "pid_dist U c = Suc m" using assms(2) by (cases "pid_dist U c") auto
  have "(nxt_pid ^^ m) (nxt_pid c) \<notin> U" using l unfolding m by (simp add: funpow_swap1)
  then have "pid_dist U (nxt_pid c) \<le> m" unfolding pid_dist_def by (rule Least_le)
  then show ?thesis using m by simp
qed

text \<open>No process of \<open>ps\<close> has an identifier in \<open>[c, safe)\<close>.\<close>

definition gap :: "kst \<Rightarrow> nat list \<Rightarrow> int \<Rightarrow> int \<Rightarrow> bool" where
  "gap s ps c safe \<longleftrightarrow> (\<forall>p \<in> set ps. pid (procs s p) < c \<or> safe \<le> pid (procs s p))"

lemma pid_scan_step:
  assumes "dlist (klinks s) ProcList (map ListLink (vs @ w # ws))"
  shows "pid_scan s (last (ProcList # map ListLink vs)) c safe =
    (if pid (procs s w) = c then
       (if c + 1 \<ge> safe then pid_scan s ProcList (nxt_pid c) MAX_PID
        else pid_scan s (last (ProcList # map ListLink (vs @ [w]))) (c + 1) safe)
     else pid_scan s (last (ProcList # map ListLink (vs @ [w]))) c
       (if pid (procs s w) > c \<and> safe > pid (procs s w) then pid (procs s w) else safe))"
proof -
  have n: "list_next (last (ProcList # map ListLink vs)) (klinks s) = ListLink w"
    using dlist_nxt_last [of "klinks s" ProcList "map ListLink vs" "map ListLink (w # ws)"] assms
    by (simp add: list_next_def del: last.simps)
  have l: "last (ProcList # map ListLink (vs @ [w])) = ListLink w" by simp
  show ?thesis
    unfolding l by (subst pid_scan.simps) (simp add: n nxt_pid_def Let_def del: last.simps)
qed

lemma pid_scan_finds:
  assumes dl: "dlist (klinks s) ProcList (map ListLink ps)"
    and ex: "\<exists>x. 1 \<le> x \<and> x < MAX_PID \<and> x \<notin> used s ps"
  shows "ps = vs @ ws \<Longrightarrow> 1 \<le> c \<Longrightarrow> c < safe \<Longrightarrow> safe \<le> MAX_PID \<Longrightarrow> gap s vs c safe \<Longrightarrow>
    \<exists>c' safe'. pid_scan s (last (ProcList # map ListLink vs)) c safe = Some (c', safe') \<and>
      1 \<le> c' \<and> c' < safe' \<and> safe' \<le> MAX_PID \<and> gap s ps c' safe'"
proof (induction "pid_dist (used s ps) c" arbitrary: vs ws c safe rule: less_induct)
  case less
  note outer = less.hyps
  from less.prems show ?case
  proof (induction ws arbitrary: vs safe)
    case Nil
    then have "list_next (last (ProcList # map ListLink vs)) (klinks s) = ProcList"
      using dlist_nxt_last [of "klinks s" ProcList "map ListLink vs" "[]"] dl by (simp add: list_next_def)
    then have "pid_scan s (last (ProcList # map ListLink vs)) c safe = Some (c, safe)"
      by (subst pid_scan.simps) simp
    then show ?case using Nil by simp
  next
    case (Cons w ws)
    have d: "dlist (klinks s) ProcList (map ListLink (vs @ w # ws))" using dl Cons.prems(1) by simp
    note step = pid_scan_step [OF d, of c safe]
    show ?case
    proof (cases "pid (procs s w) = c")
      case True
      then have u: "c \<in> used s ps" using Cons.prems(1) by (auto simp: used_def)
      have "\<exists>n. (nxt_pid ^^ n) c \<notin> used s ps"
        using ex nxt_pid_reaches [of c] Cons.prems(2-4) by (metis le_less_trans less_le_trans not_le)
      then have lt: "pid_dist (used s ps) (nxt_pid c) < pid_dist (used s ps) c" using u by (rule pid_dist_nxt)
      show ?thesis
      proof (cases "c + 1 \<ge> safe")
        case restart: True
        have n: "1 \<le> nxt_pid c" "nxt_pid c < MAX_PID" using Cons.prems(2) by (auto simp: nxt_pid_def MAX_PID_val)
        show ?thesis
          using outer [OF lt, of "[]" ps MAX_PID] n True restart step by (simp add: gap_def)
      next
        case False
        then have nc: "nxt_pid c = c + 1" using Cons.prems(4) by (simp add: nxt_pid_def)
        have "gap s (vs @ [w]) (c + 1) safe" using Cons.prems(5) True by (auto simp: gap_def)
        then show ?thesis
          using outer [OF lt, of "vs @ [w]" ws safe] nc Cons.prems(1,2,4) True False step
          by (simp del: last.simps)
      qed
    next
      case False
      let ?sf = "if pid (procs s w) > c \<and> safe > pid (procs s w) then pid (procs s w) else safe"
      have "gap s (vs @ [w]) c ?sf" using Cons.prems(5) False by (auto simp: gap_def)
      moreover have "c < ?sf" "?sf \<le> MAX_PID" using Cons.prems(3,4) by auto
      ultimately have "\<exists>c' safe'. pid_scan s (last (ProcList # map ListLink (vs @ [w]))) c ?sf = Some (c', safe') \<and>
          1 \<le> c' \<and> c' < safe' \<and> safe' \<le> MAX_PID \<and> gap s ps c' safe'"
        using Cons.IH [of "vs @ [w]" ?sf] Cons.prems(1,2) by (simp del: last.simps)
      then show ?thesis using step False by (simp del: last.simps)
    qed
  qed
qed

definition pid_inv :: "kst \<Rightarrow> nat list \<Rightarrow> bool" where
  "pid_inv s ps \<longleftrightarrow> dlist (klinks s) ProcList (map ListLink ps) \<and> 0 \<le> last_pid s \<and> next_safe s \<le> MAX_PID \<and>
     gap s ps (last_pid s + 1) (next_safe s)"

lemma unused_pid: "int (length ps) < MAX_PID - 1 \<Longrightarrow> \<exists>x. 1 \<le> x \<and> x < MAX_PID \<and> x \<notin> used s ps"
proof (rule ccontr)
  assume l: "int (length ps) < MAX_PID - 1" and "\<not> (\<exists>x. 1 \<le> x \<and> x < MAX_PID \<and> x \<notin> used s ps)"
  then have "{1..<MAX_PID} \<subseteq> used s ps" by auto
  then have "card {1..<MAX_PID} \<le> card (used s ps)" by (rule card_mono [rotated]) (simp add: used_def)
  also have "\<dots> \<le> length ps" unfolding used_def by (metis card_image_le card_length finite_set le_trans)
  finally show False using l by (simp add: MAX_PID_val)
qed

subsection \<open>The hash lists\<close>

text \<open>The processes \<open>P\<close> are spread over the lists \<open>hs h\<close> by the hash of their identifier.\<close>

definition hash_ok :: "kst \<Rightarrow> nat set \<Rightarrow> (nat \<Rightarrow> nat list) \<Rightarrow> bool" where
  "hash_ok s P hs \<longleftrightarrow> (\<forall>h. dlist (klinks s) (HashList h) (map HashLink (hs h))) \<and>
     (\<forall>h p. p \<in> set (hs h) \<longleftrightarrow> p \<in> P \<and> pid_hashfn (pid (procs s p)) = Some h)"

lemma find_proc_loop_eq:
  "dlist (klinks s) (HashList h) (map HashLink (as @ bs)) \<Longrightarrow>
     find_proc_loop (HashList h) (last (HashList h # map HashLink as)) i s =
       Some (List.find (\<lambda>p. pid (procs s p) = i) bs)"
proof (induction bs arbitrary: as)
  case Nil
  then have "list_next (last (HashList h # map HashLink as)) (klinks s) = HashList h"
    using dlist_nxt_last [of "klinks s" "HashList h" "map HashLink as" "[]"] by (simp add: list_next_def)
  then show ?case by (subst find_proc_loop.simps) simp
next
  case (Cons b bs)
  then have n: "list_next (last (HashList h # map HashLink as)) (klinks s) = HashLink b"
    using dlist_nxt_last [of "klinks s" "HashList h" "map HashLink as" "map HashLink (b # bs)"]
    by (simp add: list_next_def del: last.simps)
  have "find_proc_loop (HashList h) (last (HashList h # map HashLink (as @ [b]))) i s =
      Some (List.find (\<lambda>p. pid (procs s p) = i) bs)"
    by (rule Cons.IH) (use Cons.prems in simp)
  moreover have "last (HashList h # map HashLink (as @ [b])) = HashLink b" by simp
  ultimately show ?case using n by (subst find_proc_loop.simps) (simp del: last.simps)
qed

lemma pid_hashfn_total: "\<exists>h. pid_hashfn i = Some h"
  by (simp add: pid_hashfn_def hash32_def HASH_SHIFT_def)

lemma find_proc_eq:
  assumes "hash_ok s P hs" "0 < i" "i < MAX_PID"
  shows "\<exists>r. find_proc i s = Some r \<and>
    (case r of None \<Rightarrow> \<forall>p \<in> P. pid (procs s p) \<noteq> i | Some p \<Rightarrow> p \<in> P \<and> pid (procs s p) = i)"
proof -
  obtain h where h: "pid_hashfn i = Some h" using pid_hashfn_total by blast
  have d: "dlist (klinks s) (HashList h) (map HashLink ([] @ hs h))" using assms(1) by (simp add: hash_ok_def)
  have f: "find_proc i s = Some (List.find (\<lambda>p. pid (procs s p) = i) (hs h))"
    using find_proc_loop_eq [OF d] assms(2,3) h by (simp add: find_proc_def)
  show ?thesis
  proof (cases "List.find (\<lambda>p. pid (procs s p) = i) (hs h)")
    case None
    then have "\<forall>p \<in> set (hs h). pid (procs s p) \<noteq> i" by (auto simp: find_None_iff)
    then show ?thesis using f None assms(1) h by (auto simp: hash_ok_def)
  next
    case (Some p)
    then have "p \<in> set (hs h)" "pid (procs s p) = i" by (auto simp: find_Some_iff)
    then show ?thesis using f Some assms(1) by (auto simp: hash_ok_def)
  qed
qed

subsection \<open>The children of a process\<close>

fun siblings :: "kst \<Rightarrow> nat option \<Rightarrow> nat list \<Rightarrow> bool" where
  "siblings s y [] \<longleftrightarrow> True"
| "siblings s y (c # cs) \<longleftrightarrow> yptr (procs s c) = y \<and>
     optr (procs s c) = (case cs of [] \<Rightarrow> None | d # _ \<Rightarrow> Some d) \<and> siblings s (Some c) cs"

definition kids :: "kst \<Rightarrow> nat \<Rightarrow> nat list \<Rightarrow> bool" where
  "kids s p cs \<longleftrightarrow> cptr (procs s p) = (case cs of [] \<Rightarrow> None | c # _ \<Rightarrow> Some c) \<and> siblings s None cs \<and>
     distinct cs \<and> p \<notin> set cs \<and> (\<forall>c \<in> set cs. parent (procs s c) = Some p)"

lemma siblings_cong:
  "(\<And>c. c \<in> set cs \<Longrightarrow> yptr (procs t c) = yptr (procs s c) \<and> optr (procs t c) = optr (procs s c)) \<Longrightarrow>
     siblings t y cs = siblings s y cs"
  by (induction cs arbitrary: y) auto

lemma siblings_tail:
  "siblings s y (as @ bs) \<Longrightarrow> siblings s (if as = [] then y else Some (last as)) bs"
proof (induction as arbitrary: y)
  case Nil
  then show ?case by simp
next
  case (Cons a as)
  then have "siblings s (if as = [] then Some a else Some (last as)) bs" by (simp only: append_Cons siblings.simps)
  then show ?case by (cases "as = []") simp_all
qed

lemma siblings_ends:
  assumes "siblings s y (as @ p # bs)"
  shows "yptr (procs s p) = (if as = [] then y else Some (last as))"
    "optr (procs s p) = (case bs of [] \<Rightarrow> None | b # _ \<Rightarrow> Some b)"
  using siblings_tail [OF assms] by simp_all

lemma siblings_remove:
  assumes "siblings s y (as @ p # bs)" "distinct (as @ p # bs)"
    and "\<And>x. yptr (procs t x) = (if bs \<noteq> [] \<and> x = List.hd bs then (if as = [] then y else Some (last as)) else yptr (procs s x))"
    and "\<And>x. optr (procs t x) = (if as \<noteq> [] \<and> x = last as then (case bs of [] \<Rightarrow> None | b # _ \<Rightarrow> Some b) else optr (procs s x))"
  shows "siblings t y (as @ bs)"
  using assms
proof (induction as arbitrary: y)
  case Nil
  show ?case
  proof (cases bs)
    case (Cons b bs')
    have "siblings t (Some b) bs' = siblings s (Some b) bs'"
    proof (rule siblings_cong)
      fix c assume "c \<in> set bs'"
      then have "c \<noteq> b" using Nil(2) Cons by auto
      then show "yptr (procs t c) = yptr (procs s c) \<and> optr (procs t c) = optr (procs s c)"
        unfolding Nil(3,4) using Cons by simp
    qed
    moreover have "siblings s (Some b) bs'" "optr (procs s b) = (case bs' of [] \<Rightarrow> None | d # _ \<Rightarrow> Some d)"
      using Nil(1) Cons by simp_all
    ultimately show ?thesis using Nil(3) [of b] Nil(4) [of b] Cons by simp
  qed simp
next
  case (Cons a as)
  have p: "siblings s (Some a) (as @ p # bs)" "yptr (procs s a) = y" "optr (procs s a) = (case as @ p # bs of [] \<Rightarrow> None | d # _ \<Rightarrow> Some d)"
    using Cons.prems(1) by (simp_all only: append_Cons siblings.simps)
  have d: "distinct (as @ p # bs)" "a \<notin> set as" "a \<noteq> p" "a \<notin> set bs" using Cons.prems(2) by auto
  have y: "yptr (procs t x) = (if bs \<noteq> [] \<and> x = List.hd bs then (if as = [] then Some a else Some (last as)) else yptr (procs s x))" for x
    unfolding Cons.prems(3) by simp
  have ya: "yptr (procs t a) = y" unfolding Cons.prems(3) using d(4) p(2) by (cases bs) auto
  show ?case
  proof (cases "as = []")
    case True
    have oa: "optr (procs t a) = (case bs of [] \<Rightarrow> None | b # _ \<Rightarrow> Some b)" unfolding Cons.prems(4) using True by simp
    have "siblings t (Some a) bs"
    proof (cases bs)
      case (Cons b bs')
      have "siblings t (Some b) bs' = siblings s (Some b) bs'"
      proof (rule siblings_cong)
        fix c assume "c \<in> set bs'"
        then have "c \<noteq> b" "c \<noteq> a" using d Cons by auto
        then show "yptr (procs t c) = yptr (procs s c) \<and> optr (procs t c) = optr (procs s c)"
          unfolding Cons.prems(4) y using Cons True by simp
      qed
      moreover have "siblings s (Some b) bs'" "optr (procs s b) = (case bs' of [] \<Rightarrow> None | d # _ \<Rightarrow> Some d)"
        using p(1) Cons True by simp_all
      moreover have "a \<noteq> b" using d(4) Cons by auto
      ultimately show ?thesis using y [of b] Cons.prems(4) [of b] Cons True by simp
    qed simp
    then show ?thesis using oa ya True by simp
  next
    case False
    have "siblings t (Some a) (as @ bs)"
    proof (rule Cons.IH [OF p(1) d(1) y])
      fix x
      show "optr (procs t x) = (if as \<noteq> [] \<and> x = last as then (case bs of [] \<Rightarrow> None | b # _ \<Rightarrow> Some b) else optr (procs s x))"
        unfolding Cons.prems(4) using False by simp
    qed
    moreover have "a \<noteq> last as" using False d(2) by auto
    then have "optr (procs t a) = optr (procs s a)" unfolding Cons.prems(4) using False by simp
    ultimately show ?thesis using ya p(3) False by (cases as) simp_all
  qed
qed

text \<open>A process without its family links: what the operations on the links leave alone.\<close>

definition unlinked :: "proc_struct \<Rightarrow> proc_struct" where
  "unlinked x = x\<lparr>cptr := None, yptr := None, optr := None, parent := None\<rparr>"

lemma unlinked_upd [simp]:
  "unlinked (x\<lparr>cptr := a\<rparr>) = unlinked x" "unlinked (x\<lparr>yptr := a\<rparr>) = unlinked x"
  "unlinked (x\<lparr>optr := a\<rparr>) = unlinked x" "unlinked (x\<lparr>parent := a\<rparr>) = unlinked x"
  by (simp_all add: unlinked_def)

lemma unlinked_upd_proc:
  "unlinked (procs (upd_proc a (cptr_update g) s) q) = unlinked (procs s q)"
  "unlinked (procs (upd_proc a (yptr_update g) s) q) = unlinked (procs s q)"
  "unlinked (procs (upd_proc a (optr_update g) s) q) = unlinked (procs s q)"
  "unlinked (procs (upd_proc a (parent_update g) s) q) = unlinked (procs s q)"
  "unlinked (procs (case old of None \<Rightarrow> s | Some c \<Rightarrow> upd_proc c (yptr_update h) s) q) = unlinked (procs s q)"
  by (simp_all add: unlinked_def split: option.split)


subsection \<open>Entering and leaving the family\<close>

lemma case_upd_frame:
  "current (case old of None \<Rightarrow> s | Some c \<Rightarrow> upd_proc c h s) = current s"
  "idleproc (case old of None \<Rightarrow> s | Some c \<Rightarrow> upd_proc c h s) = idleproc s"
  "initproc (case old of None \<Rightarrow> s | Some c \<Rightarrow> upd_proc c h s) = initproc s"
  "klinks (case old of None \<Rightarrow> s | Some c \<Rightarrow> upd_proc c h s) = klinks s"
  "proc_num (case old of None \<Rightarrow> s | Some c \<Rightarrow> upd_proc c h s) = proc_num s"
  "run_pool (case old of None \<Rightarrow> s | Some c \<Rightarrow> upd_proc c h s) = run_pool s"
  "last_pid (case old of None \<Rightarrow> s | Some c \<Rightarrow> upd_proc c h s) = last_pid s"
  "next_safe (case old of None \<Rightarrow> s | Some c \<Rightarrow> upd_proc c h s) = next_safe s"
  "pool (case old of None \<Rightarrow> s | Some c \<Rightarrow> upd_proc c h s) = pool s"
  "procs (case old of None \<Rightarrow> s | Some c \<Rightarrow> upd_proc c h s) q =
     (if old = Some q then h (procs s q) else procs s q)"
  by (auto split: option.split)

text \<open>Everything but the family links, the process list and the number of processes is left as it was.\<close>

definition links_only :: "kst \<Rightarrow> kst \<Rightarrow> bool" where
  "links_only s t \<longleftrightarrow> (\<forall>x. unlinked (procs t x) = unlinked (procs s x)) \<and> current t = current s \<and> idleproc t = idleproc s \<and> initproc t = initproc s \<and> last_pid t = last_pid s \<and>
    next_safe t = next_safe s \<and> proc_num t = proc_num s \<and> run_pool t = run_pool s \<and> pool t = pool s"

lemma set_links_frame: "set_links p s = Some t \<Longrightarrow> links_only s t"
  by (auto simp: set_links_def Let_def links_only_def unlinked_upd_proc case_upd_frame bind_eq_Some_conv
    simp del: upd_proc_simps(1) simp: upd_proc_simps(2-) unlinked_upd_proc)

lemma remove_links_frame: "remove_links p s = Some t \<Longrightarrow> links_only s t"
  by (auto simp: remove_links_def Let_def links_only_def unlinked_upd_proc case_upd_frame bind_eq_Some_conv split: option.splits)

lemma set_links_ok:
  assumes k: "kids s par cs" and p: "parent (procs s p) = Some par" "p \<notin> set cs" "p \<noteq> par"
    and dl: "dlist (klinks s) ProcList (map ListLink ps)" "p \<notin> set ps"
  shows "\<exists>t. set_links p s = Some t \<and> kids t par (p # cs) \<and> dlist (klinks t) ProcList (map ListLink (p # ps)) \<and>
    nr_process t = nr_process s + 1 \<and>
    klinks t = list_add ProcList (ListLink p) (klinks s) \<and> links_only s t"
proof -
  have c: "cptr (procs s par) = (case cs of [] \<Rightarrow> None | c # _ \<Rightarrow> Some c)" "siblings s None cs" "distinct cs" "par \<notin> set cs"
    "\<forall>c \<in> set cs. parent (procs s c) = Some par" using k by (simp_all add: kids_def)
  have l: "dlist (list_add ProcList (ListLink p) (klinks s)) ProcList (map ListLink (p # ps))"
    using dlist_add_head [OF dl(1), of "ListLink p"] dl(2) by auto
  obtain t where t: "set_links p s = Some t" "klinks t = list_add ProcList (ListLink p) (klinks s)"
    "nr_process t = nr_process s + 1"
    "procs t p = (procs s p)\<lparr>yptr := None, optr := cptr (procs s par)\<rparr>"
    "procs t par = (procs s par)\<lparr>cptr := Some p\<rparr>"
    "\<And>x. x \<noteq> p \<Longrightarrow> x \<noteq> par \<Longrightarrow> procs t x = (if cptr (procs s par) = Some x then (procs s x)\<lparr>yptr := Some p\<rparr> else procs s x)"
  proof (cases cs)
    case Nil
    then show ?thesis using that c(1) p by (simp add: set_links_def Let_def)
  next
    case (Cons b bs)
    then have "b \<noteq> p" "b \<noteq> par" using p(2) c(4) by auto
    then show ?thesis using that c(1) p Cons by (simp add: set_links_def Let_def)
  qed
  have o: "optr (procs t x) = optr (procs s x) \<and> parent (procs t x) = parent (procs s x)" if "x \<in> set cs" for x
  proof -
    have "x \<noteq> p" "x \<noteq> par" using that p(2) c(4) by auto
    then show ?thesis using t(6) [of x] by (cases "cptr (procs s par) = Some x") simp_all
  qed
  have "siblings t (Some p) cs"
  proof (cases cs)
    case (Cons b bs)
    have "siblings t (Some b) bs = siblings s (Some b) bs"
    proof (rule siblings_cong)
      fix x assume "x \<in> set bs"
      then have "x \<noteq> p" "x \<noteq> par" "cptr (procs s par) \<noteq> Some x" using Cons p(2) c(1,3,4) by auto
      then show "yptr (procs t x) = yptr (procs s x) \<and> optr (procs t x) = optr (procs s x)" using t(6) [of x] by simp
    qed
    moreover have "yptr (procs t b) = Some p" using t(6) [of b] Cons p(2) c(1,4) by auto
    ultimately show ?thesis using Cons c(2) o by auto
  qed simp
  then have "kids t par (p # cs)" using t(4,5) c p o by (auto simp: kids_def)
  then show ?thesis using t(1,2,3) l set_links_frame [OF t(1)] by (intro exI [of _ t]) simp
qed

lemma remove_links_ok:
  assumes k: "kids s par (as @ p # bs)" and dl: "dlist (klinks s) ProcList (map ListLink (xs @ p # ys))"
  shows "\<exists>t. remove_links p s = Some t \<and> kids t par (as @ bs) \<and> dlist (klinks t) ProcList (map ListLink (xs @ ys)) \<and>
    nr_process t = nr_process s - 1 \<and>
    klinks t = list_del (ListLink p) (klinks s) \<and> links_only s t"
proof -
  have c: "cptr (procs s par) = (case as @ p # bs of [] \<Rightarrow> None | c # _ \<Rightarrow> Some c)" "siblings s None (as @ p # bs)"
    "distinct (as @ p # bs)" "par \<notin> set (as @ p # bs)"
    "\<forall>c \<in> set (as @ p # bs). parent (procs s c) = Some par" using k by (simp_all add: kids_def)
  have e: "yptr (procs s p) = (if as = [] then None else Some (last as))"
    "optr (procs s p) = (case bs of [] \<Rightarrow> None | b # _ \<Rightarrow> Some b)" "parent (procs s p) = Some par"
    using siblings_ends [OF c(2)] c(5) by simp_all
  have l: "dlist (list_del (ListLink p) (klinks s)) ProcList (map ListLink (xs @ ys))"
    using dlist_del [of "klinks s" ProcList "map ListLink xs" "ListLink p" "map ListLink ys"] dl by simp
  have la: "as \<noteq> [] \<Longrightarrow> last as \<noteq> p \<and> last as \<noteq> par \<and> last as \<notin> set bs" using c(3,4) by (cases as rule: rev_cases) auto
  obtain t where t: "remove_links p s = Some t" "klinks t = list_del (ListLink p) (klinks s)"
    "nr_process t = nr_process s - 1"
    "\<And>x. yptr (procs t x) = (if bs \<noteq> [] \<and> x = List.hd bs then (if as = [] then None else Some (last as)) else yptr (procs s x))"
    "\<And>x. optr (procs t x) = (if as \<noteq> [] \<and> x = last as then (case bs of [] \<Rightarrow> None | b # _ \<Rightarrow> Some b) else optr (procs s x))"
    "\<And>x. cptr (procs t x) = (if as = [] \<and> x = par then (case bs of [] \<Rightarrow> None | b # _ \<Rightarrow> Some b) else cptr (procs s x))"
    "\<And>x. parent (procs t x) = parent (procs s x)"
  proof (cases bs)
    case Nil
    then show ?thesis using that e by (cases "as = []") (simp_all add: remove_links_def Let_def)
  next
    case (Cons b bs')
    then have "b \<noteq> p" "b \<noteq> par" using c(3,4) by auto
    moreover have "as \<noteq> [] \<Longrightarrow> last as \<noteq> b" using la Cons by auto
    ultimately show ?thesis using that e Cons by (cases "as = []") (simp_all add: remove_links_def Let_def)
  qed
  have "siblings t None (as @ bs)" by (rule siblings_remove [OF c(2,3) t(4,5)])
  moreover have "cptr (procs t par) = (case as @ bs of [] \<Rightarrow> None | c # _ \<Rightarrow> Some c)"
    unfolding t(6) using c(1) by (cases as) auto
  ultimately have "kids t par (as @ bs)" using c t(7) by (auto simp: kids_def)
  then show ?thesis using t(1-3) l remove_links_frame [OF t(1)] by (intro exI [of _ t]) simp
qed

lemma get_pid_ok:
  assumes "pid_inv s ps" "int (length ps) < MAX_PID - 1"
  shows "\<exists>i safe. get_pid s = Some (i, s\<lparr>last_pid := i, next_safe := safe\<rparr>) \<and> 1 \<le> i \<and> i < MAX_PID \<and>
    (\<forall>p \<in> set ps. pid (procs s p) \<noteq> i) \<and> safe \<le> MAX_PID \<and> gap s ps (i + 1) safe"
proof -
  have dl: "dlist (klinks s) ProcList (map ListLink ([] @ ps))" using assms(1) by (simp add: pid_inv_def)
  have scan: "\<exists>c' safe'. pid_scan s ProcList c MAX_PID = Some (c', safe') \<and> 1 \<le> c' \<and> c' < safe' \<and> safe' \<le> MAX_PID \<and>
      gap s ps c' safe'" if "1 \<le> c" "c < MAX_PID" for c
    using pid_scan_finds [OF dl [simplified] unused_pid [OF assms(2)], where vs = "[]" and ws = ps and c = c and safe = MAX_PID] that
    by (simp add: gap_def)
  let ?c = "last_pid s + 1"
  have "\<exists>c' safe'. (if ?c \<ge> MAX_PID then pid_scan s ProcList 1 MAX_PID
        else if ?c \<ge> next_safe s then pid_scan s ProcList ?c MAX_PID
        else Some (?c, next_safe s)) = Some (c', safe') \<and> 1 \<le> c' \<and> c' < safe' \<and> safe' \<le> MAX_PID \<and> gap s ps c' safe'"
    using scan [of 1] scan [of ?c] assms(1) by (auto simp: pid_inv_def MAX_PID_val)
  then obtain c' safe' where c: "(if ?c \<ge> MAX_PID then pid_scan s ProcList 1 MAX_PID
        else if ?c \<ge> next_safe s then pid_scan s ProcList ?c MAX_PID
        else Some (?c, next_safe s)) = Some (c', safe')" "1 \<le> c'" "c' < safe'" "safe' \<le> MAX_PID" "gap s ps c' safe'"
    by blast
  have "get_pid s = Some (c', s\<lparr>last_pid := c', next_safe := safe'\<rparr>)"
    unfolding get_pid_def Let_def c(1) by simp
  then show ?thesis using c(2-) by (intro exI [of _ c'] exI [of _ safe']) (fastforce simp: gap_def)
qed

subsection \<open>Properties\<close>

text \<open>C18: \<open>get_pid\<close> returns whenever fewer processes exist than there are identifiers, and its result is
  a valid identifier no process has: the scan of the process list, restarts included, ends, and
  the interval it leaves for the next call is again free of identifiers.\<close>

theorem get_pid_fresh:
  assumes "pid_inv s ps" "int (length ps) < MAX_PID - 1"
  shows "\<exists>i t. get_pid s = Some (i, t) \<and> 1 \<le> i \<and> i < MAX_PID \<and> (\<forall>p \<in> set ps. pid (procs s p) \<noteq> i) \<and>
    last_pid t = i \<and> pid_inv t ps \<and> procs t = procs s \<and> klinks t = klinks s"
proof -
  obtain i safe where g: "get_pid s = Some (i, s\<lparr>last_pid := i, next_safe := safe\<rparr>)" "1 \<le> i" "i < MAX_PID"
    "\<forall>p \<in> set ps. pid (procs s p) \<noteq> i" "safe \<le> MAX_PID" "gap s ps (i + 1) safe"
    using get_pid_ok [OF assms] by blast
  moreover have "dlist (klinks s) ProcList (map ListLink ps)" using assms(1) by (simp add: pid_inv_def)
  ultimately show ?thesis by (auto simp: pid_inv_def gap_def)
qed

text \<open>A kernel with the processes 1 and 2 (identifiers 1 and 3) where the last identifier given is the largest.\<close>

definition ex_proc :: proc_struct where
  "ex_proc = \<lparr>state = PROC_SLEEPING, pid = 1, runs = 0, kstack = 0, need_resched = False, parent = None, proc_mm = None,
     proc_ctx = \<lparr>ctx_ra = 0, ctx_sp = 0, ctx_s = (\<lambda>_. 0)\<rparr>, proc_tf = None, proc_cr3 = 0, pflags = 0, proc_name = [],
     exit_code = 0, wait_state = 0, cptr = None, yptr = None, optr = None, on_rq = False, time_slice = 0,
     lab6_stride = 0, lab6_priority = 1, filesp = None\<rparr>"

definition ex_pids :: kst where
  "ex_pids = \<lparr>procs = (\<lambda>p. if p = 1 then ex_proc\<lparr>cptr := Some 2\<rparr>
       else if p = 2 then ex_proc\<lparr>pid := 3, parent := Some 1\<rparr> else ex_proc\<lparr>parent := Some 1\<rparr>),
     current = 1, idleproc = 0, initproc = 1, nr_process = 2, next_safe = 8192, last_pid = 8191,
     klinks = \<lparr>nxt = (\<lambda>x. x)(ProcList := ListLink 2, ListLink 2 := ListLink 1, ListLink 1 := ProcList),
       prv = (\<lambda>x. x)(ProcList := ListLink 1, ListLink 1 := ListLink 2, ListLink 2 := ProcList)\<rparr>,
     proc_num = 0, max_time_slice = 5, run_pool = None, pool = undefined, timers = undefined,
     waits = undefined, sem_value = (\<lambda>_. 0), satp = 0\<rparr>"

lemma ex_pids_inv: "pid_inv ex_pids [2, 1]"
  by (simp add: pid_inv_def ex_pids_def dlist_def gap_def MAX_PID_val ex_proc_def)

theorem get_pid_fresh_witness:
  "\<exists>i t. get_pid ex_pids = Some (i, t) \<and> 1 \<le> i \<and> i < MAX_PID \<and> (\<forall>p \<in> set [2, 1]. pid (procs ex_pids p) \<noteq> i) \<and>
    last_pid t = i \<and> pid_inv t [2, 1] \<and> procs t = procs ex_pids \<and> klinks t = klinks ex_pids"
  by (rule get_pid_fresh [OF ex_pids_inv]) (simp add: MAX_PID_val)

text \<open>On well-formed hash lists \<open>find_proc\<close> returns for every argument: null outside the range of
  identifiers, otherwise a process with that identifier, or null when there is none.\<close>

theorem find_proc_correct:
  assumes "hash_ok s P hs"
  shows "\<exists>r. find_proc i s = Some r \<and>
    (case r of None \<Rightarrow> i \<le> 0 \<or> MAX_PID \<le> i \<or> (\<forall>p \<in> P. pid (procs s p) \<noteq> i)
     | Some p \<Rightarrow> p \<in> P \<and> pid (procs s p) = i)"
proof (cases "0 < i \<and> i < MAX_PID")
  case True
  then show ?thesis using find_proc_eq [OF assms, of i] by (force split: option.splits)
next
  case False
  then have "find_proc i s = Some None" by (auto simp: find_proc_def)
  then show ?thesis using False by auto
qed

text \<open>A kernel whose only hashed process has the identifier 1, which falls into the list 632.\<close>

definition ex_hash :: kst where
  "ex_hash = ex_pids\<lparr>klinks := \<lparr>nxt = (\<lambda>x. x)(HashList 632 := HashLink 1, HashLink 1 := HashList 632),
     prv = (\<lambda>x. x)(HashList 632 := HashLink 1, HashLink 1 := HashList 632)\<rparr>\<rparr>"

lemma ex_hash_ok: "hash_ok ex_hash {1} (\<lambda>h. if h = 632 then [1] else [])"
proof -
  have "pid_hashfn 1 = Some 632" by (simp add: pid_hashfn_def hash32_def HASH_SHIFT_def GOLDEN_RATIO_PRIME_32_def)
  then show ?thesis by (auto simp: hash_ok_def ex_hash_def ex_pids_def ex_proc_def dlist_def)
qed

theorem find_proc_correct_witness:
  "\<exists>r. find_proc 1 ex_hash = Some r \<and>
    (case r of None \<Rightarrow> (1::int) \<le> 0 \<or> MAX_PID \<le> 1 \<or> (\<forall>p \<in> {1}. pid (procs ex_hash p) \<noteq> 1)
     | Some p \<Rightarrow> p \<in> {1} \<and> pid (procs ex_hash p) = 1)"
  by (rule find_proc_correct [OF ex_hash_ok])

text \<open>\<open>set_links\<close> puts a new process at the front of the process list and makes it the youngest
  child of its parent; the other children stay, in order.\<close>

theorem set_links_adds_child:
  assumes k: "kids s par cs" and p: "parent (procs s p) = Some par" "p \<notin> set cs" "p \<noteq> par"
    and dl: "dlist (klinks s) ProcList (map ListLink ps)" "p \<notin> set ps"
  shows "\<exists>t. set_links p s = Some t \<and> kids t par (p # cs) \<and> dlist (klinks t) ProcList (map ListLink (p # ps)) \<and>
    nr_process t = nr_process s + 1"
  using set_links_ok [OF assms] by blast

text \<open>\<open>remove_links\<close> takes a process out of the process list and out of the children of its parent,
  wherever it stands among them, and leaves the rest in order.\<close>

theorem remove_links_removes_child:
  assumes k: "kids s par (as @ p # bs)" and dl: "dlist (klinks s) ProcList (map ListLink (xs @ p # ys))"
  shows "\<exists>t. remove_links p s = Some t \<and> kids t par (as @ bs) \<and> dlist (klinks t) ProcList (map ListLink (xs @ ys)) \<and>
    nr_process t = nr_process s - 1"
  using remove_links_ok [OF assms] by blast

lemma ex_pids_kids: "kids ex_pids 1 [2]"
  by (simp add: kids_def ex_pids_def ex_proc_def)

theorem set_links_adds_child_witness:
  "\<exists>t. set_links 5 ex_pids = Some t \<and> kids t 1 [5, 2] \<and> dlist (klinks t) ProcList (map ListLink [5, 2, 1]) \<and>
    nr_process t = nr_process ex_pids + 1"
  by (rule set_links_adds_child [OF ex_pids_kids])
     (use ex_pids_inv in \<open>simp_all add: pid_inv_def\<close>, simp_all add: ex_pids_def)

theorem remove_links_removes_child_witness:
  "\<exists>t. remove_links 2 ex_pids = Some t \<and> kids t 1 ([] @ []) \<and> dlist (klinks t) ProcList (map ListLink ([] @ [1])) \<and>
    nr_process t = nr_process ex_pids - 1"
  by (rule remove_links_removes_child)
     (use ex_pids_inv ex_pids_kids in \<open>simp_all add: pid_inv_def\<close>)

end
