(* ===== verification/Kern.thy ===== *)
theory Kern
  imports Vmm Procs SfsTab
begin

section \<open>The kernel as a whole: state, memory accesses, user memory\<close>

text \<open>
  The state of the running kernel joins the process state \<open>ks\<close>, the memory management state
  \<open>vmst\<close> and the file-system state \<open>fsys\<close>. Below them lie the trapframes (\<open>tfs\<close>, by the address
  that a process keeps in its \<open>tf\<close>), the supplies of process structures and of \<open>kmalloc\<close> buffers,
  the supervisor status register, the tick counter, and what the linker and compiler choose: the
  addresses of \<open>forkret\<close>, \<open>kernel_thread_entry\<close> and of the local variables \<open>__elf\<close>, \<open>__ph\<close>,
  \<open>__local_stat\<close> and \<open>local_name\<close> on the kernel stack.

  A virtual address is a 64-bit word. An address of a kernel object is a byte of \<open>kbuf\<close>; any other
  kernel address is a byte of the page it is the direct mapping of; a user address goes through
  the page table in \<open>satp\<close>. A user access that the table does not allow takes the page fault of
  trap.c and is repeated when the handler returns 0; when the handler fails, the kernel panics.
\<close>

record kern =
  ks :: kst
  vmst :: vm
  fsys :: kvst
  tfs :: "64 word \<Rightarrow> trapframe"
  boot_pgdir :: nat
  pheap :: "nat list"
  kbufs :: "64 word list"
  sstatus :: "64 word"
  ticks :: "64 word"
  forkret :: "64 word"
  kernel_thread_entry :: "64 word"
  elf_at :: "64 word"
  ph_at :: "64 word"
  stat_at :: "64 word"
  name_at :: "64 word"

definition upd_ks :: "(kst \<Rightarrow> kst) \<Rightarrow> kern \<Rightarrow> kern" where
  "upd_ks f k = k\<lparr>ks := f (ks k)\<rparr>"

definition with_ks :: "(kst \<Rightarrow> kst option) \<Rightarrow> kern \<Rightarrow> kern option" where
  "with_ks f k = do { s \<leftarrow> f (ks k); Some (k\<lparr>ks := s\<rparr>) }"

definition with_vm :: "(vm \<Rightarrow> ('a \<times> vm) option) \<Rightarrow> kern \<Rightarrow> ('a \<times> kern) option" where
  "with_vm f k = do { (r, s) \<leftarrow> f (vmst k); Some (r, k\<lparr>vmst := s\<rparr>) }"

definition with_vm0 :: "(vm \<Rightarrow> vm option) \<Rightarrow> kern \<Rightarrow> kern option" where
  "with_vm0 f k = do { s \<leftarrow> f (vmst k); Some (k\<lparr>vmst := s\<rparr>) }"

text \<open>The file system finds the file table of the current process in \<open>cur_filesp\<close>.\<close>

abbreviation cur_proc :: "kern \<Rightarrow> proc_struct" where
  "cur_proc k \<equiv> procs (ks k) (current (ks k))"

abbreviation cur_mm :: "kern \<Rightarrow> nat option" where
  "cur_mm k \<equiv> proc_mm (cur_proc k)"

definition with_fs :: "(kvst \<Rightarrow> ('a \<times> kvst) option) \<Rightarrow> kern \<Rightarrow> ('a \<times> kern) option" where
  "with_fs f k = do {
     (r, s) \<leftarrow> f ((fsys k)\<lparr>cur_filesp := filesp (cur_proc k)\<rparr>);
     Some (r, k\<lparr>fsys := s\<rparr>)
   }"

definition upd_cur :: "(proc_struct \<Rightarrow> proc_struct) \<Rightarrow> kern \<Rightarrow> kern" where
  "upd_cur f k = upd_ks (\<lambda>s. upd_proc (current s) f s) k"

definition lcr3 :: "64 word \<Rightarrow> kern \<Rightarrow> kern" where
  "lcr3 cr3 k = upd_ks (\<lambda>s. s\<lparr>satp := cr3\<rparr>) k"

subsection \<open>Kernel addresses (pmm.h)\<close>

definition va_pa_offset :: "64 word" where "va_pa_offset = 0xFFFFFFFF40000000"

definition PADDR :: "64 word \<Rightarrow> 64 word option" where
  "PADDR kva = do { assert_c (KERNBASE \<le> kva); Some (kva - va_pa_offset) }"

definition KADDR :: "64 word \<Rightarrow> vm \<Rightarrow> 64 word option" where
  "KADDR pa s = do { assert_c (unat (PPN pa) < npage s); Some (pa + va_pa_offset) }"

definition page2kva :: "nat \<Rightarrow> vm \<Rightarrow> 64 word option" where
  "page2kva p s = KADDR (page2pa p s) s"

definition kva2page :: "64 word \<Rightarrow> vm \<Rightarrow> nat option" where
  "kva2page kva s = do { pa \<leftarrow> PADDR kva; pa2page pa s }"

text \<open>The physical address of a page directory, through its kernel address.\<close>

definition pgdir_pa :: "nat \<Rightarrow> kern \<Rightarrow> 64 word option" where
  "pgdir_pa pd k = do { a \<leftarrow> page2kva pd (vmst k); PADDR a }"

definition boot_cr3 :: "kern \<Rightarrow> 64 word" where
  "boot_cr3 k = page2pa (boot_pgdir k) (vmst k)"

subsection \<open>Buffers of \<open>kmalloc\<close>\<close>

definition kmalloc_buf :: "kern \<Rightarrow> 64 word option \<times> kern" where
  "kmalloc_buf k = (case kbufs k of [] \<Rightarrow> (None, k) | a # as \<Rightarrow> (Some a, k\<lparr>kbufs := as\<rparr>))"

definition kfree_buf :: "64 word \<Rightarrow> kern \<Rightarrow> kern" where
  "kfree_buf a k = k\<lparr>kbufs := a # kbufs k\<rparr>"

subsection \<open>Locks of address spaces (vmm.h)\<close>

definition lock_mm :: "nat option \<Rightarrow> kern \<Rightarrow> kern option" where
  "lock_mm m k = (case m of
     None \<Rightarrow> Some k
   | Some mm \<Rightarrow> do {
       assert_c (mm_sem (mms (vmst k) mm) > 0);
       Some (k\<lparr>vmst := upd_mm mm (\<lambda>x. x\<lparr>mm_sem := mm_sem x - 1, locked_by := pid (cur_proc k)\<rparr>) (vmst k)\<rparr>)
     })"

definition unlock_mm :: "nat option \<Rightarrow> kern \<Rightarrow> kern" where
  "unlock_mm m k = (case m of
     None \<Rightarrow> k
   | Some mm \<Rightarrow> k\<lparr>vmst := upd_mm mm (\<lambda>x. x\<lparr>mm_sem := mm_sem x + 1, locked_by := 0\<rparr>) (vmst k)\<rparr>)"

subsection \<open>Page faults (trap.c)\<close>

definition CAUSE_LOAD_PAGE_FAULT :: "64 word" where "CAUSE_LOAD_PAGE_FAULT = 0xd"
definition CAUSE_STORE_PAGE_FAULT :: "64 word" where "CAUSE_STORE_PAGE_FAULT = 0xf"

definition pgfault_handler :: "swap_manager \<Rightarrow> 64 word \<Rightarrow> 64 word \<Rightarrow> kern \<Rightarrow> (int \<times> kern) option" where
  "pgfault_handler sm cause tval k = do {
     mm \<leftarrow> (case check_mm_struct (vmst k) of
         Some m \<Rightarrow> do { assert_c (current (ks k) = idleproc (ks k)); Some (Some m) }
       | None \<Rightarrow> Some (cur_mm k));
     with_vm (do_pgfault sm mm cause tval) k
   }"

subsection \<open>Byte accesses\<close>

type_synonym place = "nat \<times> nat"

definition word_byte :: "64 word \<Rightarrow> nat \<Rightarrow> byte" where
  "word_byte w i = ucast (drop_bit (8 * i) w)"

definition set_word_byte :: "64 word \<Rightarrow> nat \<Rightarrow> byte \<Rightarrow> 64 word" where
  "set_word_byte w i b = (w AND NOT (push_bit (8 * i) 0xFF)) OR push_bit (8 * i) (ucast b)"

definition page_byte :: "place \<Rightarrow> vm \<Rightarrow> byte" where
  "page_byte l s = word_byte (read_word (fst l, snd l div 8) s) (snd l mod 8)"

definition set_page_byte :: "place \<Rightarrow> byte \<Rightarrow> vm \<Rightarrow> vm" where
  "set_page_byte l b s =
     write_word (fst l, snd l div 8) (set_word_byte (read_word (fst l, snd l div 8) s) (snd l mod 8) b) s"

definition kernel_addr :: "64 word \<Rightarrow> bool" where
  "kernel_addr a \<longleftrightarrow> a \<ge> 0x8000000000000000"

text \<open>Where the page table has a user address: \<open>Some None\<close> when it does not allow the access.\<close>

definition user_place :: "64 word \<Rightarrow> bool \<Rightarrow> kern \<Rightarrow> place option option" where
  "user_place a write k = do {
     pd \<leftarrow> pa2page (satp (ks k)) (vmst k);
     loc \<leftarrow> get_pte_existing pd a (vmst k);
     case loc of
       None \<Rightarrow> Some None
     | Some l \<Rightarrow>
         let e = read_word l (vmst k)
         in if e AND PTE_V \<noteq> 0 \<and> e AND (if write then PTE_W else PTE_R) \<noteq> 0
            then do { p \<leftarrow> pa2page (PTE_ADDR e) (vmst k); Some (Some (p, unat (PGOFF a))) }
            else Some None
   }"

partial_function (option) touch :: "swap_manager \<Rightarrow> 64 word \<Rightarrow> bool \<Rightarrow> kern \<Rightarrow> (place \<times> kern) option" where
  "touch sm a write k = do {
     pl \<leftarrow> user_place a write k;
     case pl of
       Some p \<Rightarrow> Some (p, k)
     | None \<Rightarrow> do {
         (ret, k) \<leftarrow> pgfault_handler sm (if write then CAUSE_STORE_PAGE_FAULT else CAUSE_LOAD_PAGE_FAULT) a k;
         if ret \<noteq> 0 then None else touch sm a write k
       }
   }"

declare touch.simps [code]

definition load8 :: "swap_manager \<Rightarrow> 64 word \<Rightarrow> kern \<Rightarrow> (byte \<times> kern) option" where
  "load8 sm a k =
     (if kernel_addr a then (case kbuf (fsys k) (unat a) of
        Some b \<Rightarrow> Some (b, k)
      | None \<Rightarrow> do { p \<leftarrow> kva2page a (vmst k); Some (page_byte (p, unat (PGOFF a)) (vmst k), k) })
      else do { (l, k) \<leftarrow> touch sm a False k; Some (page_byte l (vmst k), k) })"

definition store8 :: "swap_manager \<Rightarrow> 64 word \<Rightarrow> byte \<Rightarrow> kern \<Rightarrow> kern option" where
  "store8 sm a b k =
     (if kernel_addr a then (case kbuf (fsys k) (unat a) of
        Some _ \<Rightarrow> do { m \<leftarrow> wr (unat a) b (kbuf (fsys k)); Some (k\<lparr>fsys := set_kbuf m (fsys k)\<rparr>) }
      | None \<Rightarrow> do { p \<leftarrow> kva2page a (vmst k); Some (k\<lparr>vmst := set_page_byte (p, unat (PGOFF a)) b (vmst k)\<rparr>) })
      else do { (l, k) \<leftarrow> touch sm a True k; Some (k\<lparr>vmst := set_page_byte l b (vmst k)\<rparr>) })"

subsection \<open>Runs of bytes\<close>

fun load_bytes :: "swap_manager \<Rightarrow> 64 word \<Rightarrow> nat \<Rightarrow> kern \<Rightarrow> (byte list \<times> kern) option" where
  "load_bytes sm a 0 k = Some ([], k)"
| "load_bytes sm a (Suc n) k = do {
     (b, k) \<leftarrow> load8 sm a k;
     (bs, k) \<leftarrow> load_bytes sm (a + 1) n k;
     Some (b # bs, k)
   }"

fun store_bytes :: "swap_manager \<Rightarrow> 64 word \<Rightarrow> byte list \<Rightarrow> kern \<Rightarrow> kern option" where
  "store_bytes sm a [] k = Some k"
| "store_bytes sm a (b # bs) k = do { k \<leftarrow> store8 sm a b k; store_bytes sm (a + 1) bs k }"

fun copy_bytes :: "swap_manager \<Rightarrow> 64 word \<Rightarrow> 64 word \<Rightarrow> nat \<Rightarrow> kern \<Rightarrow> kern option" where
  "copy_bytes sm dst src 0 k = Some k"
| "copy_bytes sm dst src (Suc n) k = do {
     (b, k) \<leftarrow> load8 sm src k;
     k \<leftarrow> store8 sm dst b k;
     copy_bytes sm (dst + 1) (src + 1) n k
   }"

fun fill_bytes :: "swap_manager \<Rightarrow> 64 word \<Rightarrow> byte \<Rightarrow> nat \<Rightarrow> kern \<Rightarrow> kern option" where
  "fill_bytes sm a b 0 k = Some k"
| "fill_bytes sm a b (Suc n) k = do { k \<leftarrow> store8 sm a b k; fill_bytes sm (a + 1) b n k }"

fun strnlen_at :: "swap_manager \<Rightarrow> 64 word \<Rightarrow> nat \<Rightarrow> kern \<Rightarrow> (nat \<times> kern) option" where
  "strnlen_at sm a 0 k = Some (0, k)"
| "strnlen_at sm a (Suc n) k = do {
     (b, k) \<leftarrow> load8 sm a k;
     if b = 0 then Some (0, k) else do { (l, k) \<leftarrow> strnlen_at sm (a + 1) n k; Some (l + 1, k) }
   }"

definition le_word :: "byte list \<Rightarrow> 64 word" where
  "le_word bs = word_rcat (rev bs)"

fun le_bytes :: "nat \<Rightarrow> 64 word \<Rightarrow> byte list" where
  "le_bytes 0 w = []"
| "le_bytes (Suc n) w = ucast w # le_bytes n (drop_bit 8 w)"

definition load_word :: "swap_manager \<Rightarrow> 64 word \<Rightarrow> nat \<Rightarrow> kern \<Rightarrow> (64 word \<times> kern) option" where
  "load_word sm a n k = do { (bs, k) \<leftarrow> load_bytes sm a n k; Some (le_word bs, k) }"

definition store_word :: "swap_manager \<Rightarrow> 64 word \<Rightarrow> nat \<Rightarrow> 64 word \<Rightarrow> kern \<Rightarrow> kern option" where
  "store_word sm a n w k = store_bytes sm a (le_bytes n w) k"

text \<open>The C string at a kernel address whose end is found within \<open>n\<close> bytes.\<close>

definition string_at :: "swap_manager \<Rightarrow> 64 word \<Rightarrow> nat \<Rightarrow> kern \<Rightarrow> (string \<times> kern) option" where
  "string_at sm a n k = do {
     (l, k) \<leftarrow> strnlen_at sm a n k;
     (bs, k) \<leftarrow> load_bytes sm a l k;
     Some (map (\<lambda>b. char_of (unat b)) bs, k)
   }"

subsection \<open>Access to user memory (vmm.c)\<close>

definition mem_check :: "nat option \<Rightarrow> 64 word \<Rightarrow> 64 word \<Rightarrow> bool \<Rightarrow> kern \<Rightarrow> (bool \<times> kern) option" where
  "mem_check m a len write k = with_vm (user_mem_check m a len write) k"

definition copy_from_user ::
    "swap_manager \<Rightarrow> nat option \<Rightarrow> 64 word \<Rightarrow> 64 word \<Rightarrow> 64 word \<Rightarrow> bool \<Rightarrow> kern \<Rightarrow> (bool \<times> kern) option" where
  "copy_from_user sm m dst src len wrt k = do {
     (ok, k) \<leftarrow> mem_check m src len wrt k;
     if \<not> ok then Some (False, k)
     else do { k \<leftarrow> copy_bytes sm dst src (unat len) k; Some (True, k) }
   }"

definition copy_to_user ::
    "swap_manager \<Rightarrow> nat option \<Rightarrow> 64 word \<Rightarrow> 64 word \<Rightarrow> 64 word \<Rightarrow> kern \<Rightarrow> (bool \<times> kern) option" where
  "copy_to_user sm m dst src len k = do {
     (ok, k) \<leftarrow> mem_check m dst len True k;
     if \<not> ok then Some (False, k)
     else do { k \<leftarrow> copy_bytes sm dst src (unat len) k; Some (True, k) }
   }"

partial_function (option) copy_string_loop ::
    "swap_manager \<Rightarrow> nat option \<Rightarrow> 64 word \<Rightarrow> 64 word \<Rightarrow> 64 word \<Rightarrow> 64 word \<Rightarrow> kern \<Rightarrow> (bool \<times> kern) option" where
  "copy_string_loop sm m dst src maxn part k = do {
     let part = (if part > maxn then maxn else part);
     (ok, k) \<leftarrow> mem_check m src part False k;
     if \<not> ok then Some (False, k)
     else do {
       (alen, k) \<leftarrow> strnlen_at sm src (unat part) k;
       if alen < unat part then do { k \<leftarrow> copy_bytes sm dst src (alen + 1) k; Some (True, k) }
       else if part = maxn then Some (False, k)
       else do {
         k \<leftarrow> copy_bytes sm dst src (unat part) k;
         copy_string_loop sm m (dst + part) (src + part) (maxn - part) PGSIZE k
       }
     }
   }"

definition copy_string ::
    "swap_manager \<Rightarrow> nat option \<Rightarrow> 64 word \<Rightarrow> 64 word \<Rightarrow> 64 word \<Rightarrow> kern \<Rightarrow> (bool \<times> kern) option" where
  "copy_string sm m dst src maxn k =
     copy_string_loop sm m dst src maxn (ROUNDDOWN (src + PGSIZE) PGSIZE - src) k"

declare copy_string_loop.simps [code]

end
