(* ===== verification/Sysfile.thy ===== *)
theory Sysfile
  imports Kern
begin

section \<open>File system calls (kern/fs/sysfile.c)\<close>

text \<open>
  Every function of sysfile.c: it copies paths and data between the memory of the current process
  and a kernel buffer and calls file.c or vfs.c. \<open>c_int\<close> is the conversion of a \<open>size_t\<close> to the
  \<open>int\<close> that is returned.
\<close>

definition IOBUF_SIZE :: "64 word" where "IOBUF_SIZE = 4096"
definition DIRENT_SIZE :: nat where "DIRENT_SIZE = 8 + (FS_MAX_FNAME_LEN + 1)"
definition STAT_SIZE :: nat where "STAT_SIZE = 32"

definition c_int :: "64 word \<Rightarrow> int" where
  "c_int w = sint (ucast w :: 32 word)"

definition copy_path :: "swap_manager \<Rightarrow> 64 word \<Rightarrow> kern \<Rightarrow> (int \<times> 64 word option \<times> kern) option" where
  "copy_path sm from k = do {
     let mm = cur_mm k;
     case kmalloc_buf k of
       (None, k) \<Rightarrow> Some (- E_NO_MEM, None, k)
     | (Some buffer, k) \<Rightarrow> do {
         k \<leftarrow> lock_mm mm k;
         (ok, k) \<leftarrow> copy_string sm mm buffer from (of_nat (FS_MAX_FPATH_LEN + 1)) k;
         let k = unlock_mm mm k;
         if \<not> ok then Some (- E_INVAL, None, kfree_buf buffer k)
         else Some (0, Some buffer, k)
       }
   }"

text \<open>The calls that work on a path: the string in the buffer, the operation, the release of the buffer.\<close>

definition on_path ::
    "swap_manager \<Rightarrow> 64 word \<Rightarrow> (string \<Rightarrow> kvst \<Rightarrow> (int \<times> kvst) option) \<Rightarrow> kern \<Rightarrow> (int \<times> kern) option" where
  "on_path sm upath f k = do {
     (ret, buf, k) \<leftarrow> copy_path sm upath k;
     if ret \<noteq> 0 then Some (ret, k)
     else do {
       b \<leftarrow> buf;
       (path, k) \<leftarrow> string_at sm b (FS_MAX_FPATH_LEN + 1) k;
       (ret, k) \<leftarrow> with_fs (f path) k;
       Some (ret, kfree_buf b k)
     }
   }"

definition sysfile_open :: "swap_manager \<Rightarrow> 64 word \<Rightarrow> 32 word \<Rightarrow> kern \<Rightarrow> (int \<times> kern) option" where
  "sysfile_open sm upath open_flags k = on_path sm upath (\<lambda>path. file_open ktab path open_flags) k"

definition sysfile_close :: "int \<Rightarrow> kern \<Rightarrow> (int \<times> kern) option" where
  "sysfile_close fd' k = with_fs (file_close ktab fd') k"

subsection \<open>Reading and writing\<close>

text \<open>\<open>ret\<close>, \<open>copied\<close> and the state when the loop is left.\<close>

partial_function (option) sysfile_read_loop ::
    "swap_manager \<Rightarrow> int \<Rightarrow> 64 word \<Rightarrow> 64 word \<Rightarrow> 64 word \<Rightarrow> 64 word \<Rightarrow> int \<Rightarrow> kern \<Rightarrow> (int \<times> 64 word \<times> kern) option" where
  "sysfile_read_loop sm fd' buffer base len copied ret k =
     (if len = 0 then Some (ret, copied, k)
      else do {
        let mm = cur_mm k;
        let alen = (if IOBUF_SIZE > len then len else IOBUF_SIZE);
        ((ret, n), k) \<leftarrow> with_fs (\<lambda>s. do { (r, n, s) \<leftarrow> file_read ktab fd' (unat buffer) (unat alen) s; Some ((r, n), s) }) k;
        let alen = of_nat n;
        (ret, base, len, copied, k) \<leftarrow> (if alen \<noteq> 0 then do {
            k \<leftarrow> lock_mm mm k;
            (ok, k) \<leftarrow> copy_to_user sm mm base buffer alen k;
            assert_c (ok \<longrightarrow> len \<ge> alen);
            let k = unlock_mm mm k;
            Some (if ok then (ret, base + alen, len - alen, copied + alen, k)
                  else (if ret = 0 then - E_INVAL else ret, base, len, copied, k))
          } else Some (ret, base, len, copied, k));
        if ret \<noteq> 0 \<or> alen = 0 then Some (ret, copied, k)
        else sysfile_read_loop sm fd' buffer base len copied ret k
      })"

definition sysfile_read :: "swap_manager \<Rightarrow> int \<Rightarrow> 64 word \<Rightarrow> 64 word \<Rightarrow> kern \<Rightarrow> (int \<times> kern) option" where
  "sysfile_read sm fd' base len k =
     (if len = 0 then Some (0, k)
      else do {
        (ok, k) \<leftarrow> with_fs (\<lambda>s. do { r \<leftarrow> file_testfd fd' True False s; Some (r, s) }) k;
        if \<not> ok then Some (- E_INVAL, k)
        else case kmalloc_buf k of
          (None, k) \<Rightarrow> Some (- E_NO_MEM, k)
        | (Some buffer, k) \<Rightarrow> do {
            (ret, copied, k) \<leftarrow> sysfile_read_loop sm fd' buffer base len 0 0 k;
            Some (if copied \<noteq> 0 then c_int copied else ret, kfree_buf buffer k)
          }
      })"

partial_function (option) sysfile_write_loop ::
    "swap_manager \<Rightarrow> int \<Rightarrow> 64 word \<Rightarrow> 64 word \<Rightarrow> 64 word \<Rightarrow> 64 word \<Rightarrow> kern \<Rightarrow> (int \<times> 64 word \<times> kern) option" where
  "sysfile_write_loop sm fd' buffer base len copied k =
     (if len = 0 then Some (0, copied, k)
      else do {
        let mm = cur_mm k;
        let alen = (if IOBUF_SIZE > len then len else IOBUF_SIZE);
        k \<leftarrow> lock_mm mm k;
        (ok, k) \<leftarrow> copy_from_user sm mm buffer base alen False k;
        let k = unlock_mm mm k;
        (ret, alen, k) \<leftarrow> (if ok then do {
            ((ret, n), k) \<leftarrow> with_fs (\<lambda>s. do { (r, n, s) \<leftarrow> file_write ktab fd' (unat buffer) (unat alen) s; Some ((r, n), s) }) k;
            assert_c (n \<noteq> 0 \<longrightarrow> len \<ge> of_nat n);
            Some (ret, of_nat n, k)
          } else Some (- E_INVAL, alen, k));
        let moved = (if ok then alen else 0);
        if ret \<noteq> 0 \<or> alen = 0 then Some (ret, copied + moved, k)
        else sysfile_write_loop sm fd' buffer (base + moved) (len - moved) (copied + moved) k
      })"

definition sysfile_write :: "swap_manager \<Rightarrow> int \<Rightarrow> 64 word \<Rightarrow> 64 word \<Rightarrow> kern \<Rightarrow> (int \<times> kern) option" where
  "sysfile_write sm fd' base len k =
     (if len = 0 then Some (0, k)
      else do {
        (ok, k) \<leftarrow> with_fs (\<lambda>s. do { r \<leftarrow> file_testfd fd' False True s; Some (r, s) }) k;
        if \<not> ok then Some (- E_INVAL, k)
        else case kmalloc_buf k of
          (None, k) \<Rightarrow> Some (- E_NO_MEM, k)
        | (Some buffer, k) \<Rightarrow> do {
            (ret, copied, k) \<leftarrow> sysfile_write_loop sm fd' buffer base len 0 k;
            Some (if copied \<noteq> 0 then c_int copied else ret, kfree_buf buffer k)
          }
      })"

declare sysfile_read_loop.simps [code] sysfile_write_loop.simps [code]

subsection \<open>Other calls on descriptors\<close>

definition sysfile_seek :: "int \<Rightarrow> 64 word \<Rightarrow> int \<Rightarrow> kern \<Rightarrow> (int \<times> kern) option" where
  "sysfile_seek fd' p whence k = with_fs (file_seek ktab fd' p whence) k"

text \<open>The structure on the kernel stack: its four padding bytes keep what the stack held.\<close>

definition store_stat :: "swap_manager \<Rightarrow> 64 word \<Rightarrow> stat \<Rightarrow> kern \<Rightarrow> kern option" where
  "store_stat sm a st k = do {
     k \<leftarrow> store_word sm a 4 (ucast (st_mode st)) k;
     k \<leftarrow> store_word sm (a + 8) 8 (of_nat (st_nlinks st)) k;
     k \<leftarrow> store_word sm (a + 16) 8 (of_nat (st_blocks st)) k;
     store_word sm (a + 24) 8 (of_nat (st_size st)) k
   }"

definition sysfile_fstat :: "swap_manager \<Rightarrow> int \<Rightarrow> 64 word \<Rightarrow> kern \<Rightarrow> (int \<times> kern) option" where
  "sysfile_fstat sm fd' ustat k = do {
     let mm = cur_mm k;
     ((ret, st), k) \<leftarrow> with_fs (\<lambda>s. do { (r, st, s) \<leftarrow> file_fstat ktab fd' s; Some ((r, st), s) }) k;
     k \<leftarrow> (case st of None \<Rightarrow> Some k | Some x \<Rightarrow> store_stat sm (stat_at k) x k);
     if ret \<noteq> 0 then Some (ret, k)
     else do {
       k \<leftarrow> lock_mm mm k;
       (ok, k) \<leftarrow> copy_to_user sm mm ustat (stat_at k) (of_nat STAT_SIZE) k;
       Some (if ok then 0 else - E_INVAL, unlock_mm mm k)
     }
   }"

definition sysfile_fsync :: "int \<Rightarrow> kern \<Rightarrow> (int \<times> kern) option" where
  "sysfile_fsync fd' k = with_fs (file_fsync ktab fd') k"

definition sysfile_dup :: "int \<Rightarrow> int \<Rightarrow> kern \<Rightarrow> (int \<times> kern) option" where
  "sysfile_dup fd1 fd2 k = with_fs (file_dup fd1 fd2) k"

definition sysfile_pipe :: int where "sysfile_pipe = - E_UNIMP"
definition sysfile_mkfifo :: int where "sysfile_mkfifo = - E_UNIMP"

subsection \<open>Calls on paths\<close>

definition sysfile_chdir :: "swap_manager \<Rightarrow> 64 word \<Rightarrow> kern \<Rightarrow> (int \<times> kern) option" where
  "sysfile_chdir sm upath k = on_path sm upath (vfs_chdir ktab) k"

definition sysfile_unlink :: "swap_manager \<Rightarrow> 64 word \<Rightarrow> kern \<Rightarrow> (int \<times> kern) option" where
  "sysfile_unlink sm upath k = on_path sm upath (\<lambda>path s. Some (vfs_unlink path, s)) k"

definition two_paths ::
    "swap_manager \<Rightarrow> 64 word \<Rightarrow> 64 word \<Rightarrow> (string \<Rightarrow> string \<Rightarrow> int) \<Rightarrow> kern \<Rightarrow> (int \<times> kern) option" where
  "two_paths sm u1 u2 f k = do {
     (ret, b1, k) \<leftarrow> copy_path sm u1 k;
     if ret \<noteq> 0 then Some (ret, k)
     else do {
       old \<leftarrow> b1;
       (ret, b2, k) \<leftarrow> copy_path sm u2 k;
       if ret \<noteq> 0 then Some (ret, kfree_buf old k)
       else do {
         new \<leftarrow> b2;
         (p1, k) \<leftarrow> string_at sm old (FS_MAX_FPATH_LEN + 1) k;
         (p2, k) \<leftarrow> string_at sm new (FS_MAX_FPATH_LEN + 1) k;
         Some (f p1 p2, kfree_buf new (kfree_buf old k))
       }
     }
   }"

definition sysfile_link :: "swap_manager \<Rightarrow> 64 word \<Rightarrow> 64 word \<Rightarrow> kern \<Rightarrow> (int \<times> kern) option" where
  "sysfile_link sm u1 u2 k = two_paths sm u1 u2 vfs_link k"

definition sysfile_rename :: "swap_manager \<Rightarrow> 64 word \<Rightarrow> 64 word \<Rightarrow> kern \<Rightarrow> (int \<times> kern) option" where
  "sysfile_rename sm u1 u2 k = two_paths sm u1 u2 vfs_rename k"

text \<open>
  \<open>vfs_getcwd\<close> writes into the buffer of the caller itself. Its bytes are collected at the address
  of the buffer in \<open>kbuf\<close> and then stored in order.
\<close>

definition stage :: "64 word \<Rightarrow> nat \<Rightarrow> cmem \<Rightarrow> cmem" where
  "stage buf len m = (\<lambda>a. if unat buf \<le> a \<and> a < unat buf + len then Some 0 else m a)"

definition sysfile_getcwd :: "swap_manager \<Rightarrow> 64 word \<Rightarrow> 64 word \<Rightarrow> kern \<Rightarrow> (int \<times> kern) option" where
  "sysfile_getcwd sm buf len k = do {
     let mm = cur_mm k;
     if len = 0 then Some (- E_INVAL, k)
     else do {
       k \<leftarrow> lock_mm mm k;
       (ok, k) \<leftarrow> mem_check mm buf len True k;
       (ret, k) \<leftarrow> (if \<not> ok then Some (- E_INVAL, k)
         else do {
           let m = kbuf (fsys k);
           ((ret, n, data), k) \<leftarrow> with_fs (\<lambda>s. do {
               (r, iob, s) \<leftarrow> vfs_getcwd ktab (iobuf_init (unat buf) (unat len) 0) (set_kbuf (stage buf (unat len) m) s);
               data \<leftarrow> rd_bytes (unat buf) (iobuf_used iob) (kbuf s);
               Some ((r, iobuf_used iob, data),
                     set_kbuf (\<lambda>a. if unat buf \<le> a \<and> a < unat buf + unat len then m a else kbuf s a) s)
             }) k;
           k \<leftarrow> store_bytes sm buf data k;
           Some (ret, k)
         });
       Some (ret, unlock_mm mm k)
     }
   }"

definition sysfile_getdirentry :: "swap_manager \<Rightarrow> int \<Rightarrow> 64 word \<Rightarrow> kern \<Rightarrow> (int \<times> kern) option" where
  "sysfile_getdirentry sm fd' udirent k = do {
     let mm = cur_mm k;
     case kmalloc_buf k of
       (None, k) \<Rightarrow> Some (- E_NO_MEM, k)
     | (Some de, k) \<Rightarrow> do {
         k \<leftarrow> lock_mm mm k;
         (ok, k) \<leftarrow> copy_from_user sm mm de udirent 8 True k;
         let k = unlock_mm mm k;
         (ret, k) \<leftarrow> (if \<not> ok then Some (- E_INVAL, k)
           else do {
             (off, k) \<leftarrow> load_word sm de 8 k;
             ((ret, off), k) \<leftarrow> with_fs (\<lambda>s. do { (r, off, s) \<leftarrow> file_getdirentry ktab fd' (unat de) off s; Some ((r, off), s) }) k;
             k \<leftarrow> store_word sm de 8 off k;
             if ret \<noteq> 0 then Some (ret, k)
             else do {
               k \<leftarrow> lock_mm mm k;
               (ok, k) \<leftarrow> copy_to_user sm mm udirent de (of_nat DIRENT_SIZE) k;
               Some (if ok then 0 else - E_INVAL, unlock_mm mm k)
             }
           });
         Some (ret, kfree_buf de k)
       }
   }"

end
