(* ===== verification/Lifecycle.thy ===== *)
theory Lifecycle
  imports Sysfile
begin

section \<open>Creation, end and collection of processes (kern/process/proc.c)\<close>

text \<open>
  \<open>do_fork\<close>, \<open>do_exit\<close>, \<open>do_wait\<close> and what they call. A function that gives up the processor is
  cut at \<open>schedule\<close>: its first part ends with the state another process finds, the part after it
  is a definition of its own that runs when the caller is scheduled again. \<open>sc\<close> is the scheduling
  class, \<open>sm\<close> the swap manager.
\<close>

definition CLONE_VM :: "32 word" where "CLONE_VM = 0x100"
definition CLONE_FS :: "32 word" where "CLONE_FS = 0x800"
definition KSTACKSIZE :: "64 word" where "KSTACKSIZE = of_nat KSTACKPAGE * PGSIZE"
definition TRAPFRAME_SIZE :: "64 word" where "TRAPFRAME_SIZE = 36 * 8"
definition SSTATUS_SIE :: "64 word" where "SSTATUS_SIE = 2"
definition SSTATUS_SPIE :: "64 word" where "SSTATUS_SPIE = 0x20"
definition SSTATUS_SPP :: "64 word" where "SSTATUS_SPP = 0x100"

subsection \<open>Process structures\<close>

text \<open>\<open>exit_code\<close>, the stride and the priority keep what the memory held.\<close>

definition alloc_proc :: "kern \<Rightarrow> nat option \<times> kern" where
  "alloc_proc k = (case pheap k of
     [] \<Rightarrow> (None, k)
   | p # ps \<Rightarrow>
       let k = upd_ks (\<lambda>s. upd_links (list_init (RunLink p)) s) (k\<lparr>pheap := ps\<rparr>);
           k = upd_ks (\<lambda>s. upd_links (list_init (HashLink p)) s) k;
           cr3 = boot_cr3 k
       in (Some p, upd_ks (upd_proc p (\<lambda>x. x\<lparr>state := PROC_UNINIT, pid := -1, runs := 0, kstack := 0,
             need_resched := False, parent := None, proc_mm := None,
             proc_ctx := \<lparr>ctx_ra = 0, ctx_sp = 0, ctx_s = (\<lambda>_. 0)\<rparr>, proc_tf := None, proc_cr3 := cr3, pflags := 0,
             wait_state := 0, cptr := None, yptr := None, optr := None, on_rq := False, time_slice := 0,
             filesp := None, proc_name := []\<rparr>)) k))"

definition kfree_proc :: "nat \<Rightarrow> kern \<Rightarrow> kern" where
  "kfree_proc p k = k\<lparr>pheap := p # pheap k\<rparr>"

definition setup_kstack :: "swap_manager \<Rightarrow> nat \<Rightarrow> kern \<Rightarrow> (int \<times> kern) option" where
  "setup_kstack sm p k = do {
     (r, k) \<leftarrow> with_vm (alloc_pages sm KSTACKPAGE) k;
     case r of
       None \<Rightarrow> Some (- E_NO_MEM, k)
     | Some page \<Rightarrow> do {
         a \<leftarrow> page2kva page (vmst k);
         Some (0, upd_ks (upd_proc p (\<lambda>x. x\<lparr>kstack := a\<rparr>)) k)
       }
   }"

definition put_kstack :: "nat \<Rightarrow> kern \<Rightarrow> kern option" where
  "put_kstack p k = do {
     page \<leftarrow> kva2page (kstack (procs (ks k) p)) (vmst k);
     with_vm0 (free_pages page KSTACKPAGE) k
   }"

subsection \<open>Page directories and address spaces\<close>

definition setup_pgdir :: "swap_manager \<Rightarrow> nat \<Rightarrow> kern \<Rightarrow> (int \<times> kern) option" where
  "setup_pgdir sm mm k = do {
     (r, k) \<leftarrow> with_vm (alloc_page sm) k;
     case r of
       None \<Rightarrow> Some (- E_NO_MEM, k)
     | Some pd \<Rightarrow>
         let s = vmst k;
             s = s\<lparr>ram := (ram s)(pd := ram s (boot_pgdir k))\<rparr>;
             s = upd_mm mm (\<lambda>m. m\<lparr>pgdir := Some pd\<rparr>) s
         in Some (0, k\<lparr>vmst := s\<rparr>)
   }"

definition put_pgdir :: "nat \<Rightarrow> kern \<Rightarrow> kern option" where
  "put_pgdir mm k = do { pd \<leftarrow> pgdir (mms (vmst k) mm); with_vm0 (free_pages pd 1) k }"

text \<open>The end of an address space whose count has dropped to zero, as in \<open>do_exit\<close> and \<open>do_execve\<close>.\<close>

definition drop_mm :: "nat \<Rightarrow> kern \<Rightarrow> kern option" where
  "drop_mm mm k = do {
     k \<leftarrow> with_vm0 (exit_mmap mm) k;
     k \<leftarrow> put_pgdir mm k;
     with_vm0 (mm_destroy mm) k
   }"

definition good_mm :: "nat \<Rightarrow> nat \<Rightarrow> kern \<Rightarrow> (int \<times> kern) option" where
  "good_mm mm p k = do {
     let k = k\<lparr>vmst := snd (mm_count_inc mm (vmst k))\<rparr>;
     pd \<leftarrow> pgdir (mms (vmst k) mm);
     cr3 \<leftarrow> pgdir_pa pd k;
     Some (0, upd_ks (upd_proc p (\<lambda>x. x\<lparr>proc_mm := Some mm, proc_cr3 := cr3\<rparr>)) k)
   }"

definition copy_mm :: "swap_manager \<Rightarrow> 32 word \<Rightarrow> nat \<Rightarrow> kern \<Rightarrow> (int \<times> kern) option" where
  "copy_mm sm clone_flags p k =
     (case cur_mm k of
        None \<Rightarrow> Some (0, k)
      | Some oldmm \<Rightarrow>
          if clone_flags AND CLONE_VM \<noteq> 0 then good_mm oldmm p k
          else (case mm_create sm (vmst k) of
              (None, s) \<Rightarrow> Some (- E_NO_MEM, k\<lparr>vmst := s\<rparr>)
            | (Some mm, s) \<Rightarrow> do {
                let k = k\<lparr>vmst := s\<rparr>;
                (r, k) \<leftarrow> setup_pgdir sm mm k;
                if r \<noteq> 0 then do { k \<leftarrow> with_vm0 (mm_destroy mm) k; Some (- E_NO_MEM, k) }
                else do {
                  k \<leftarrow> lock_mm (Some oldmm) k;
                  (ret, k) \<leftarrow> with_vm (dup_mmap sm mm oldmm) k;
                  let k = unlock_mm (Some oldmm) k;
                  if ret \<noteq> 0 then do { k \<leftarrow> drop_mm mm k; Some (ret, k) }
                  else good_mm mm p k
                }
              }))"

subsection \<open>The first frame of a new process\<close>

definition copy_thread :: "nat \<Rightarrow> 64 word \<Rightarrow> trapframe \<Rightarrow> kern \<Rightarrow> kern" where
  "copy_thread p esp tf k =
     (let a = kstack (procs (ks k) p) + KSTACKSIZE - TRAPFRAME_SIZE;
          g = (gpr tf)(A0 := 0, SP := (if esp = 0 then a - 4 else esp));
          k = k\<lparr>tfs := (tfs k)(a := tf\<lparr>gpr := g\<rparr>)\<rparr>;
          entry = forkret k
      in upd_ks (upd_proc p (\<lambda>x. x\<lparr>proc_tf := Some a, proc_ctx := (proc_ctx x)\<lparr>ctx_ra := entry, ctx_sp := a\<rparr>\<rparr>)) k)"

subsection \<open>File tables\<close>

definition copy_files :: "32 word \<Rightarrow> nat \<Rightarrow> kern \<Rightarrow> (int \<times> kern) option" where
  "copy_files clone_flags p k = do {
     old \<leftarrow> filesp (cur_proc k);
     let good = (\<lambda>f k. upd_ks (upd_proc p (\<lambda>x. x\<lparr>filesp := Some f\<rparr>)) (k\<lparr>fsys := files_count_inc f (fsys k)\<rparr>));
     if clone_flags AND CLONE_FS \<noteq> 0 then Some (0, good old k)
     else (case files_create (fsys k) of
         (None, s) \<Rightarrow> Some (- E_NO_MEM, k\<lparr>fsys := s\<rparr>)
       | (Some f, s) \<Rightarrow> do {
           (ret, k) \<leftarrow> with_fs (dup_files f old) (k\<lparr>fsys := s\<rparr>);
           if ret \<noteq> 0 then do { (_, k) \<leftarrow> with_fs (\<lambda>s. do { s \<leftarrow> files_destroy ktab f s; Some ((), s) }) k; Some (ret, k) }
           else Some (0, good f k)
         })
   }"

definition put_files :: "nat \<Rightarrow> kern \<Rightarrow> kern option" where
  "put_files p k = (case filesp (procs (ks k) p) of
     None \<Rightarrow> Some k
   | Some f \<Rightarrow>
       let (c, s) = files_count_dec f (fsys k); k = k\<lparr>fsys := s\<rparr>
       in if c = 0
          then do { (_, k) \<leftarrow> with_fs (\<lambda>s. do { s \<leftarrow> files_destroy ktab f s; Some ((), s) }) k; Some k }
          else Some k)"

subsection \<open>Forking\<close>

text \<open>
  The clean-up code is reached from three places; the label for the file table is never used.
  When \<open>copy_files\<close> fails, the child is already in the lists and on the run queue.
\<close>

definition fork_cleanup_proc :: "nat \<Rightarrow> int \<Rightarrow> kern \<Rightarrow> (int \<times> kern) option" where
  "fork_cleanup_proc p ret k = Some (ret, kfree_proc p k)"

definition fork_cleanup_kstack :: "nat \<Rightarrow> int \<Rightarrow> kern \<Rightarrow> (int \<times> kern) option" where
  "fork_cleanup_kstack p ret k = do { k \<leftarrow> put_kstack p k; fork_cleanup_proc p ret k }"

definition fork_enter :: "sched_class \<Rightarrow> nat \<Rightarrow> kern \<Rightarrow> kern option" where
  "fork_enter sc p k = do {
     (i, s) \<leftarrow> get_pid (ks k);
     let s = upd_proc p (\<lambda>x. x\<lparr>pid := i\<rparr>) s;
     s \<leftarrow> hash_proc p s;
     s \<leftarrow> set_links p s;
     s \<leftarrow> wakeup_proc sc p s;
     Some (k\<lparr>ks := s\<rparr>)
   }"

definition do_fork :: "sched_class \<Rightarrow> swap_manager \<Rightarrow> 32 word \<Rightarrow> 64 word \<Rightarrow> trapframe \<Rightarrow> kern \<Rightarrow> (int \<times> kern) option" where
  "do_fork sc sm clone_flags stack tf k =
     (if nr_process (ks k) \<ge> MAX_PROCESS then Some (- E_NO_FREE_PROC, k)
      else case alloc_proc k of
        (None, k) \<Rightarrow> Some (- E_NO_MEM, k)
      | (Some p, k) \<Rightarrow> do {
          let par = current (ks k);
          let k = upd_ks (upd_proc p (\<lambda>x. x\<lparr>parent := Some par\<rparr>)) k;
          assert_c (wait_state (cur_proc k) = 0);
          (r, k) \<leftarrow> setup_kstack sm p k;
          if r \<noteq> 0 then fork_cleanup_proc p (- E_NO_MEM) k
          else do {
            (r, k) \<leftarrow> copy_mm sm clone_flags p k;
            if r \<noteq> 0 then fork_cleanup_kstack p (- E_NO_MEM) k
            else do {
              let k = copy_thread p stack tf k;
              k \<leftarrow> fork_enter sc p k;
              let ret = pid (procs (ks k) p);
              (r, k) \<leftarrow> copy_files clone_flags p k;
              if r \<noteq> 0 then fork_cleanup_kstack p ret k else Some (ret, k)
            }
          }
        })"

definition kernel_thread :: "sched_class \<Rightarrow> swap_manager \<Rightarrow> 64 word \<Rightarrow> 64 word \<Rightarrow> 32 word \<Rightarrow> kern \<Rightarrow> (int \<times> kern) option" where
  "kernel_thread sc sm fn arg clone_flags k =
     (let tf = \<lparr>gpr = (\<lambda>_. 0)(S0 := fn, S1 := arg),
                tf_status = (sstatus k OR SSTATUS_SPP OR SSTATUS_SPIE) AND NOT SSTATUS_SIE,
                tf_epc = kernel_thread_entry k, tf_tval = 0, tf_cause = 0\<rparr>
      in do_fork sc sm (clone_flags OR CLONE_VM) 0 tf k)"

subsection \<open>The end of a process\<close>

text \<open>
  The children of the current process go to \<open>initproc\<close>, one turn of the loop per child.
  \<open>reparent_move\<close> is the part of a turn that moves the child \<open>p\<close>.
\<close>

definition reparent_move :: "nat \<Rightarrow> kst \<Rightarrow> kst" where
  "reparent_move p s =
     (let nxt = optr (procs s p);
          s = upd_proc (current s) (\<lambda>x. x\<lparr>cptr := nxt\<rparr>) s;
          s = upd_proc p (\<lambda>x. x\<lparr>yptr := None\<rparr>) s;
          old = cptr (procs s (initproc s));
          s = upd_proc p (\<lambda>x. x\<lparr>optr := old\<rparr>) s;
          s = (case old of None \<Rightarrow> s | Some c \<Rightarrow> upd_proc c (\<lambda>x. x\<lparr>yptr := Some p\<rparr>) s);
          s = upd_proc p (\<lambda>x. x\<lparr>parent := Some (initproc s)\<rparr>) s
      in upd_proc (initproc s) (\<lambda>x. x\<lparr>cptr := Some p\<rparr>) s)"

partial_function (option) reparent_loop :: "sched_class \<Rightarrow> kst \<Rightarrow> kst option" where
  "reparent_loop sc s =
     (case cptr (procs s (current s)) of
        None \<Rightarrow> Some s
      | Some p \<Rightarrow> do {
          let s = reparent_move p s;
          s \<leftarrow> (if state (procs s p) = PROC_ZOMBIE \<and> wait_state (procs s (initproc s)) = WT_CHILD
                then wakeup_proc sc (initproc s) s else Some s);
          reparent_loop sc s
        })"

declare reparent_loop.simps [code]

definition exit_notify :: "sched_class \<Rightarrow> int \<Rightarrow> kst \<Rightarrow> kst option" where
  "exit_notify sc error_code s = do {
     let s = upd_proc (current s) (\<lambda>x. x\<lparr>state := PROC_ZOMBIE, exit_code := error_code\<rparr>) s;
     par \<leftarrow> parent (procs s (current s));
     s \<leftarrow> (if wait_state (procs s par) = WT_CHILD then wakeup_proc sc par s else Some s);
     reparent_loop sc s
   }"

text \<open>\<open>do_exit\<close> does not return: its result is the state after \<open>schedule\<close> has left the process for good.\<close>

definition do_exit :: "sched_class \<Rightarrow> int \<Rightarrow> kern \<Rightarrow> kern option" where
  "do_exit sc error_code k = do {
     assert_c (current (ks k) \<noteq> idleproc (ks k));
     assert_c (current (ks k) \<noteq> initproc (ks k));
     k \<leftarrow> (case cur_mm k of
         None \<Rightarrow> Some k
       | Some mm \<Rightarrow> do {
           let k = lcr3 (boot_cr3 k) k;
           let (c, s) = mm_count_dec mm (vmst k);
           let k = k\<lparr>vmst := s\<rparr>;
           k \<leftarrow> (if c = 0 then drop_mm mm k else Some k);
           let k = upd_cur (\<lambda>x. x\<lparr>proc_mm := None\<rparr>) k;
           put_files (current (ks k)) k
         });
     k \<leftarrow> with_ks (exit_notify sc error_code) k;
     with_ks (schedule sc) k
   }"

subsection \<open>Waiting for a child\<close>

datatype call_result =
    Returned int
  | InWait int "64 word"
  | InSleep nat
  | Exited

text \<open>The search for a zombie: whether there is a child at all, and the zombie found.\<close>

partial_function (option) child_loop :: "nat option \<Rightarrow> bool \<Rightarrow> kst \<Rightarrow> (bool \<times> nat option) option" where
  "child_loop c haskid s = (case c of
     None \<Rightarrow> Some (haskid, None)
   | Some p \<Rightarrow> if state (procs s p) = PROC_ZOMBIE then Some (True, Some p) else child_loop (optr (procs s p)) True s)"

declare child_loop.simps [code]

definition wait_search :: "int \<Rightarrow> kst \<Rightarrow> (bool \<times> nat option) option" where
  "wait_search i s =
     (if i \<noteq> 0 then do {
        r \<leftarrow> find_proc i s;
        Some (case r of
            None \<Rightarrow> (False, None)
          | Some p \<Rightarrow>
              if parent (procs s p) = Some (current s)
              then (True, if state (procs s p) = PROC_ZOMBIE then Some p else None) else (False, None))
      } else child_loop (cptr (procs s (current s))) False s)"

text \<open>From the label \<open>found\<close>.\<close>

definition wait_found :: "swap_manager \<Rightarrow> 64 word \<Rightarrow> nat \<Rightarrow> kern \<Rightarrow> (int \<times> kern) option" where
  "wait_found sm code_store p k = do {
     assert_c (p \<noteq> idleproc (ks k) \<and> p \<noteq> initproc (ks k));
     k \<leftarrow> (if code_store \<noteq> 0
           then store_word sm code_store 4 (word_of_int (exit_code (procs (ks k) p))) k else Some k);
     k \<leftarrow> with_ks (\<lambda>s. remove_links p (unhash_proc p s)) k;
     k \<leftarrow> put_kstack p k;
     Some (0, kfree_proc p k)
   }"

text \<open>From the label \<open>repeat\<close> to the return or to the call of \<open>schedule\<close>.\<close>

definition wait_round ::
    "sched_class \<Rightarrow> swap_manager \<Rightarrow> int \<Rightarrow> 64 word \<Rightarrow> kern \<Rightarrow> (call_result \<times> kern) option" where
  "wait_round sc sm i code_store k = do {
     (haskid, z) \<leftarrow> wait_search i (ks k);
     case z of
       Some p \<Rightarrow> do { (r, k) \<leftarrow> wait_found sm code_store p k; Some (Returned r, k) }
     | None \<Rightarrow>
         if haskid then do {
           let k = upd_cur (\<lambda>x. x\<lparr>state := PROC_SLEEPING, wait_state := WT_CHILD\<rparr>) k;
           k \<leftarrow> with_ks (schedule sc) k;
           Some (InWait i code_store, k)
         }
         else Some (Returned (- E_BAD_PROC), k)
   }"

definition do_wait ::
    "sched_class \<Rightarrow> swap_manager \<Rightarrow> int \<Rightarrow> 64 word \<Rightarrow> kern \<Rightarrow> (call_result \<times> kern) option" where
  "do_wait sc sm i code_store k = do {
     (ok, k) \<leftarrow> (if code_store \<noteq> 0 then mem_check (cur_mm k) code_store 4 True k else Some (True, k));
     if \<not> ok then Some (Returned (- E_INVAL), k) else wait_round sc sm i code_store k
   }"

text \<open>When \<open>schedule\<close> returns to the waiting process.\<close>

definition do_wait_resume ::
    "sched_class \<Rightarrow> swap_manager \<Rightarrow> int \<Rightarrow> 64 word \<Rightarrow> kern \<Rightarrow> (call_result \<times> kern) option" where
  "do_wait_resume sc sm i code_store k =
     (if pflags (cur_proc k) AND PF_EXITING \<noteq> 0
      then do { k \<leftarrow> do_exit sc (- E_KILLED) k; Some (Exited, k) }
      else wait_round sc sm i code_store k)"

end
