(* ===== verification/LifeProps.thy ===== *)
theory LifeProps
  imports Lifecycle ProcsProps Stride
begin

section \<open>What happens to the family when a process ends or is collected\<close>

subsection \<open>What the scheduler leaves alone\<close>

text \<open>
  \<open>skel\<close> is a process without the fields the scheduler works on. The operations of a scheduler class
  and with them \<open>wakeup_proc\<close> and \<open>schedule\<close> keep it for every process, whatever the state.
\<close>

definition skel :: "proc_struct \<Rightarrow> proc_struct" where
  "skel x = (masked x)\<lparr>state := PROC_UNINIT, wait_state := 0, runs := 0\<rparr>"

definition skel_same :: "kst \<Rightarrow> kst \<Rightarrow> bool" where
  "skel_same s t \<longleftrightarrow> (\<forall>q. skel (procs t q) = skel (procs s q)) \<and> idleproc t = idleproc s \<and>
     initproc t = initproc s \<and> nr_process t = nr_process s"

lemma skel_sels:
  "cptr (skel x) = cptr x" "yptr (skel x) = yptr x" "optr (skel x) = optr x" "parent (skel x) = parent x"
  "exit_code (skel x) = exit_code x" "pid (skel x) = pid x" "kstack (skel x) = kstack x" "pflags (skel x) = pflags x"
  "proc_mm (skel x) = proc_mm x" "filesp (skel x) = filesp x" "proc_tf (skel x) = proc_tf x"
  "lab6_priority (skel x) = lab6_priority x" "proc_name (skel x) = proc_name x"
  by (simp_all add: skel_def masked_def)

lemma skel_upd [simp]:
  "skel (x\<lparr>state := a\<rparr>) = skel x" "skel (x\<lparr>wait_state := b\<rparr>) = skel x" "skel (x\<lparr>runs := c\<rparr>) = skel x"
  "skel (x\<lparr>need_resched := d\<rparr>) = skel x"
  by (simp_all add: skel_def masked_def)

lemma skel_masked: "masked x = masked y \<Longrightarrow> skel x = skel y"
  by (simp add: skel_def)

lemma skel_eq:
  assumes "skel x = skel y"
  shows "cptr x = cptr y" "yptr x = yptr y" "optr x = optr y" "parent x = parent y" "exit_code x = exit_code y"
    "pid x = pid y" "kstack x = kstack y" "pflags x = pflags y" "proc_mm x = proc_mm y" "filesp x = filesp y"
    "proc_tf x = proc_tf y" "lab6_priority x = lab6_priority y" "proc_name x = proc_name y"
  using arg_cong [OF assms, of cptr] arg_cong [OF assms, of yptr] arg_cong [OF assms, of optr]
    arg_cong [OF assms, of parent] arg_cong [OF assms, of exit_code] arg_cong [OF assms, of pid]
    arg_cong [OF assms, of kstack] arg_cong [OF assms, of pflags] arg_cong [OF assms, of proc_mm]
    arg_cong [OF assms, of filesp] arg_cong [OF assms, of proc_tf] arg_cong [OF assms, of lab6_priority]
    arg_cong [OF assms, of proc_name]
  by (simp_all only: skel_sels)

lemma skel_same_refl [simp]: "skel_same s s"
  by (simp add: skel_same_def)

lemma skel_same_trans: "skel_same s t \<Longrightarrow> skel_same t u \<Longrightarrow> skel_same s u"
  by (simp add: skel_same_def)

lemma skel_same_upd: "(\<And>x. skel (f x) = skel x) \<Longrightarrow> skel_same s (upd_proc p f s)"
  by (simp add: skel_same_def)

lemma skel_same_sels:
  assumes "skel_same s t"
  shows "cptr (procs t q) = cptr (procs s q)" "yptr (procs t q) = yptr (procs s q)" "optr (procs t q) = optr (procs s q)"
    "parent (procs t q) = parent (procs s q)" "exit_code (procs t q) = exit_code (procs s q)"
    "pid (procs t q) = pid (procs s q)" "kstack (procs t q) = kstack (procs s q)"
    "pflags (procs t q) = pflags (procs s q)" "proc_mm (procs t q) = proc_mm (procs s q)"
    "filesp (procs t q) = filesp (procs s q)" "proc_tf (procs t q) = proc_tf (procs s q)"
    "lab6_priority (procs t q) = lab6_priority (procs s q)"
    "idleproc t = idleproc s" "initproc t = initproc s" "nr_process t = nr_process s"
proof -
  have "skel (procs t q) = skel (procs s q)" using assms by (simp add: skel_same_def)
  note skel_eq [OF this]
  then show "cptr (procs t q) = cptr (procs s q)" "yptr (procs t q) = yptr (procs s q)" "optr (procs t q) = optr (procs s q)"
    "parent (procs t q) = parent (procs s q)" "exit_code (procs t q) = exit_code (procs s q)"
    "pid (procs t q) = pid (procs s q)" "kstack (procs t q) = kstack (procs s q)"
    "pflags (procs t q) = pflags (procs s q)" "proc_mm (procs t q) = proc_mm (procs s q)"
    "filesp (procs t q) = filesp (procs s q)" "proc_tf (procs t q) = proc_tf (procs s q)"
    "lab6_priority (procs t q) = lab6_priority (procs s q)" by simp_all
qed (use assms in \<open>simp_all add: skel_same_def\<close>)

lemma kids_cong:
  assumes "\<And>q. cptr (procs t q) = cptr (procs s q)" "\<And>q. yptr (procs t q) = yptr (procs s q)"
    "\<And>q. optr (procs t q) = optr (procs s q)" "\<And>q. parent (procs t q) = parent (procs s q)"
  shows "kids t p cs = kids s p cs"
  unfolding kids_def using siblings_cong [of cs t s None] assms by simp

lemma kids_skel: "skel_same s t \<Longrightarrow> kids t p cs = kids s p cs"
  by (rule kids_cong) (simp_all add: skel_same_sels)

locale sched_frame =
  fixes sc :: sched_class
  assumes enq_skel: "enqueue sc p s = Some t \<Longrightarrow> skel_same s t"
    and deq_skel: "dequeue sc p s = Some t \<Longrightarrow> skel_same s t"
    and pick_skel: "pick_next sc s = Some (r, t) \<Longrightarrow> skel_same s t"
begin

lemma wakeup_skel: "wakeup_proc sc p s = Some t \<Longrightarrow> skel_same s t"
proof -
  assume w: "wakeup_proc sc p s = Some t"
  let ?s = "upd_proc p (\<lambda>x. x\<lparr>state := PROC_RUNNABLE, wait_state := 0\<rparr>) s"
  have "skel_same s ?s" by (rule skel_same_upd) (simp add: skel_def masked_def)
  then show ?thesis
    using w enq_skel [of p ?s t] skel_same_trans [of s ?s t]
    by (auto simp: wakeup_proc_def sched_class_enqueue_def Let_def split: if_splits)
qed

lemma proc_run_skel: "skel_same s (proc_run p s)"
  by (simp add: skel_same_def proc_run_def)

lemma schedule_skel: "schedule sc s = Some t \<Longrightarrow> skel_same s t"
proof -
  assume sch: "schedule sc s = Some t"
  let ?s0 = "upd_proc (current s) (\<lambda>x. x\<lparr>need_resched := False\<rparr>) s"
  have k0: "skel_same s ?s0" by (rule skel_same_upd) simp
  from sch obtain s1 r s2 s3 where s1: "(if state (procs ?s0 (current ?s0)) = PROC_RUNNABLE
      then sched_class_enqueue sc (current ?s0) ?s0 else Some ?s0) = Some s1"
    and s2: "sched_class_pick_next sc s1 = Some (r, s2)"
    and s3: "(case r of Some p \<Rightarrow> sched_class_dequeue sc p s2 | None \<Rightarrow> Some s2) = Some s3"
    and t: "t = (let p = (case r of Some p \<Rightarrow> p | None \<Rightarrow> idleproc s3); s = upd_proc p (\<lambda>x. x\<lparr>runs := runs x + 1\<rparr>) s3
      in if p \<noteq> current s then proc_run p s else s)"
    unfolding schedule_def Let_def by (auto simp: bind_eq_Some_conv split: prod.splits)
  have k1: "skel_same ?s0 s1" using s1 enq_skel by (auto simp: sched_class_enqueue_def split: if_splits)
  have k2: "skel_same s1 s2" using s2 pick_skel by (auto simp: sched_class_pick_next_def)
  have k3: "skel_same s2 s3" using s3 deq_skel by (cases r) (auto simp: sched_class_dequeue_def)
  let ?u = "upd_proc (case r of Some p \<Rightarrow> p | None \<Rightarrow> idleproc s3) (\<lambda>x. x\<lparr>runs := runs x + 1\<rparr>) s3"
  have k4: "skel_same s3 ?u" by (rule skel_same_upd) simp
  have k5: "skel_same ?u t" unfolding t Let_def using proc_run_skel by simp
  show ?thesis
    by (rule skel_same_trans [OF k0 skel_same_trans [OF k1 skel_same_trans [OF k2 skel_same_trans [OF k3 skel_same_trans [OF k4 k5]]]]])
qed

end

lemma refill_skel: "skel_same s (refill_slice p s)"
  by (simp add: refill_slice_def skel_same_def skel_def masked_def)

interpretation stride_frame: sched_frame stride_sched_class
proof unfold_locales
  fix p s t
  show "enqueue stride_sched_class p s = Some t \<Longrightarrow> skel_same s t"
    by (auto simp: stride_sched_class_def stride_enqueue_def Let_def refill_slice_def skel_same_def skel_def masked_def
      bind_eq_Some_conv split: prod.splits)
  show "dequeue stride_sched_class p s = Some t \<Longrightarrow> skel_same s t"
    by (auto simp: stride_sched_class_def stride_dequeue_def Let_def skel_same_def bind_eq_Some_conv split: prod.splits)
  fix r
  show "pick_next stride_sched_class s = Some (r, t) \<Longrightarrow> skel_same s t"
    by (auto simp: stride_sched_class_def stride_pick_next_def skel_same_def skel_def masked_def split: option.splits)
qed

interpretation rr_frame: sched_frame RR_sched_class
proof unfold_locales
  fix p s t
  show "enqueue RR_sched_class p s = Some t \<Longrightarrow> skel_same s t"
    by (auto simp: RR_sched_class_def RR_enqueue_def Let_def refill_slice_def skel_same_def skel_def masked_def)
  show "dequeue RR_sched_class p s = Some t \<Longrightarrow> skel_same s t"
    by (auto simp: RR_sched_class_def RR_dequeue_def Let_def skel_same_def)
  fix r
  show "pick_next RR_sched_class s = Some (r, t) \<Longrightarrow> skel_same s t"
    by (auto simp: RR_sched_class_def RR_pick_next_def split: klink.splits)
qed

subsection \<open>The children of a process that ends\<close>

fun olinks :: "kst \<Rightarrow> nat list \<Rightarrow> bool" where
  "olinks s [] \<longleftrightarrow> True"
| "olinks s (c # cs) \<longleftrightarrow> optr (procs s c) = (case cs of [] \<Rightarrow> None | d # _ \<Rightarrow> Some d) \<and> olinks s cs"

lemma siblings_olinks: "siblings s y cs \<Longrightarrow> olinks s cs"
  by (induction cs arbitrary: y) auto

lemma olinks_cong: "(\<And>c. c \<in> set cs \<Longrightarrow> optr (procs t c) = optr (procs s c)) \<Longrightarrow> olinks t cs = olinks s cs"
  by (induction cs) auto

lemma reparent_move_proc: "unlinked (procs (reparent_move p s) q) = unlinked (procs s q)"
  by (simp only: reparent_move_def Let_def unlinked_upd_proc)

lemma reparent_move_same:
  "state (procs (reparent_move p s) q) = state (procs s q)" "wait_state (procs (reparent_move p s) q) = wait_state (procs s q)"
  "pid (procs (reparent_move p s) q) = pid (procs s q)" "exit_code (procs (reparent_move p s) q) = exit_code (procs s q)"
  "lab6_stride (procs (reparent_move p s) q) = lab6_stride (procs s q)"
  "lab6_priority (procs (reparent_move p s) q) = lab6_priority (procs s q)"
  "on_rq (procs (reparent_move p s) q) = on_rq (procs s q)"
  using reparent_move_proc [of p s q, THEN arg_cong [of _ _ state]] reparent_move_proc [of p s q, THEN arg_cong [of _ _ wait_state]]
    reparent_move_proc [of p s q, THEN arg_cong [of _ _ pid]] reparent_move_proc [of p s q, THEN arg_cong [of _ _ exit_code]]
    reparent_move_proc [of p s q, THEN arg_cong [of _ _ lab6_stride]] reparent_move_proc [of p s q, THEN arg_cong [of _ _ lab6_priority]]
    reparent_move_proc [of p s q, THEN arg_cong [of _ _ on_rq]]
  by (simp_all add: unlinked_def)

lemma reparent_move_frame:
  "current (reparent_move p s) = current s" "idleproc (reparent_move p s) = idleproc s"
  "initproc (reparent_move p s) = initproc s" "klinks (reparent_move p s) = klinks s"
  "proc_num (reparent_move p s) = proc_num s" "run_pool (reparent_move p s) = run_pool s" "pool (reparent_move p s) = pool s"
  by (simp_all only: reparent_move_def Let_def upd_proc_simps case_upd_frame)

lemma reparent_move_rq: "rq_same s (reparent_move p s)"
  by (simp add: rq_same_def reparent_move_same reparent_move_frame)

lemma reparent_move_fields:
  assumes "current s \<noteq> initproc s" "p \<noteq> current s" "p \<noteq> initproc s" "cptr (procs s (initproc s)) \<noteq> Some p"
  shows "cptr (procs (reparent_move p s) q) = (if q = initproc s then Some p else if q = current s then optr (procs s p) else cptr (procs s q))"
    "yptr (procs (reparent_move p s) q) = (if cptr (procs s (initproc s)) = Some q then Some p else if q = p then None else yptr (procs s q))"
    "optr (procs (reparent_move p s) q) = (if q = p then cptr (procs s (initproc s)) else optr (procs s q))"
    "parent (procs (reparent_move p s) q) = (if q = p then Some (initproc s) else parent (procs s q))"
  using assms unfolding reparent_move_def Let_def
  by (simp_all add: case_upd_frame del: option.case_eq_if)

lemma reparent_move_kids:
  assumes k: "kids s (initproc s) ds" and p: "p \<notin> set ds" "p \<noteq> initproc s" "p \<noteq> current s" and c: "current s \<noteq> initproc s"
  shows "kids (reparent_move p s) (initproc s) (p # ds)"
proof -
  let ?t = "reparent_move p s"
  have i: "cptr (procs s (initproc s)) = (case ds of [] \<Rightarrow> None | d # _ \<Rightarrow> Some d)" "siblings s None ds" "distinct ds"
    "initproc s \<notin> set ds" "\<forall>c \<in> set ds. parent (procs s c) = Some (initproc s)" using k by (simp_all add: kids_def)
  have np: "cptr (procs s (initproc s)) \<noteq> Some p" using i(1) p(1) by (auto split: list.splits)
  note f = reparent_move_fields [OF c p(3,2) np]
  have sib: "siblings ?t (Some p) ds"
  proof (cases ds)
    case (Cons d ds')
    have "siblings ?t (Some d) ds' = siblings s (Some d) ds'"
    proof (rule siblings_cong)
      fix x assume "x \<in> set ds'"
      then have "x \<noteq> p" "x \<noteq> d" using Cons p(1) i(3) by auto
      then show "yptr (procs ?t x) = yptr (procs s x) \<and> optr (procs ?t x) = optr (procs s x)"
        using f(2,3) i(1) Cons by simp
    qed
    then show ?thesis using i(1,2) Cons p(1) f(2) [of d] f(3) [of d] by auto
  qed simp
  show ?thesis
    using f(1) [of "initproc s"] f(2,3,4) [of p] f(4) i(1,3,4,5) sib p np by (auto simp: kids_def)
qed

locale exit_policy = sched_policy + sched_frame +
  assumes ready_family:
    "ready (unlinked x) = ready x" "ready (x\<lparr>exit_code := e\<rparr>) = ready x"
begin

lemma reparent_move_inv:
  assumes "sched_inv rq ready s"
  shows "sched_inv rq ready (reparent_move p s)"
proof -
  have r: "ready (procs (reparent_move p s) q) = ready (procs s q)" for q
    using arg_cong [OF reparent_move_proc [of p s q], of ready] by (simp add: ready_family(1))
  show ?thesis
    using assms same [OF reparent_move_rq] unfolding sched_inv_def reparent_move_same reparent_move_frame r by blast
qed

text \<open>Waking a process that may be asleep waiting for a child.\<close>

lemma wake_waiter:
  assumes inv: "sched_inv rq ready s" and p: "state (procs s p) \<notin> {PROC_UNINIT, PROC_ZOMBIE}" "p \<noteq> idleproc s"
  shows "\<exists>t. wakeup_proc sc p s = Some t \<and> sched_inv rq ready t \<and> skel_same s t \<and> current t = current s \<and>
    state (procs t p) = PROC_RUNNABLE \<and> (\<forall>q. q \<noteq> p \<longrightarrow> state (procs t q) = state (procs s q) \<and> wait_state (procs t q) = wait_state (procs s q)) \<and>
    (\<forall>l. \<not> run_link l \<longrightarrow> nxt (klinks t) l = nxt (klinks s) l \<and> prv (klinks t) l = prv (klinks s) l)"
proof -
  have "inj_on (\<lambda>p. pid (procs s p)) {p. state (procs s p) \<noteq> PROC_UNINIT}" using inv by (simp add: sched_inv_def)
  then have d: "\<forall>q. q \<noteq> p \<longrightarrow> state (procs s q) \<noteq> PROC_UNINIT \<longrightarrow> pid (procs s q) \<noteq> pid (procs s p)"
    using p by (auto dest: inj_onD)
  have r: "ready (procs s p)" "state (procs s p) \<noteq> PROC_ZOMBIE" using inv p by (auto simp: sched_inv_def)
  from wakeup_ok [OF inv r(2,1) d] obtain t where "wakeup_proc sc p s = Some t" "sched_inv rq ready t"
    "state (procs t p) = PROC_RUNNABLE" "current t = current s"
    "\<forall>q. q \<noteq> p \<longrightarrow> state (procs t q) = state (procs s q) \<and> wait_state (procs t q) = wait_state (procs s q)"
    "\<forall>l. \<not> run_link l \<longrightarrow> nxt (klinks t) l = nxt (klinks s) l \<and> prv (klinks t) l = prv (klinks s) l" by blast
  then show ?thesis using wakeup_skel by blast
qed

lemma reparent_loop_ok:
  "sched_inv rq ready s \<Longrightarrow> current s = c \<Longrightarrow> initproc s = i \<Longrightarrow> c \<noteq> i \<Longrightarrow>
   state (procs s i) \<notin> {PROC_UNINIT, PROC_ZOMBIE} \<Longrightarrow> i \<noteq> idleproc s \<Longrightarrow>
   cptr (procs s c) = (case cs of [] \<Rightarrow> None | d # _ \<Rightarrow> Some d) \<Longrightarrow> olinks s cs \<Longrightarrow> distinct cs \<Longrightarrow>
   c \<notin> set cs \<Longrightarrow> i \<notin> set cs \<Longrightarrow> kids s i ds \<Longrightarrow> set cs \<inter> set ds = {} \<Longrightarrow>
   \<exists>t. reparent_loop sc s = Some t \<and> sched_inv rq ready t \<and> current t = c \<and> idleproc t = idleproc s \<and>
     cptr (procs t c) = None \<and> kids t i (rev cs @ ds) \<and>
     (\<forall>q. q \<noteq> i \<longrightarrow> state (procs t q) = state (procs s q) \<and> wait_state (procs t q) = wait_state (procs s q)) \<and>
     (\<forall>q. exit_code (procs t q) = exit_code (procs s q)) \<and>
     state (procs t i) \<in> {state (procs s i), PROC_RUNNABLE} \<and>
     ((\<exists>z \<in> set cs. state (procs s z) = PROC_ZOMBIE) \<longrightarrow> wait_state (procs s i) = WT_CHILD \<longrightarrow> state (procs t i) = PROC_RUNNABLE)"
proof (induction cs arbitrary: s ds)
  case Nil
  then have "reparent_loop sc s = Some s" by (subst reparent_loop.simps) simp
  then show ?case using Nil by simp
next
  case (Cons p cs)
  let ?m = "reparent_move p s"
  have p: "p \<noteq> c" "p \<noteq> i" "p \<notin> set cs" "p \<notin> set ds" using Cons.prems(9-11,13) by auto
  have np: "cptr (procs s i) \<noteq> Some p" using Cons.prems(12) p(4) by (auto simp: kids_def split: list.splits)
  note f = reparent_move_fields [of s, unfolded Cons.prems(2,3), OF Cons.prems(4) p(1,2) np]
  note sm = reparent_move_same [of p s] reparent_move_frame [of p s, unfolded Cons.prems(2,3)]
  have m: "sched_inv rq ready ?m" by (rule reparent_move_inv [OF Cons.prems(1)])
  have k: "kids ?m i (p # ds)"
    using reparent_move_kids [of s ds p] Cons.prems(2,3,4,12) p by simp
  have o: "cptr (procs ?m c) = (case cs of [] \<Rightarrow> None | d # _ \<Rightarrow> Some d)" "olinks ?m cs"
  proof -
    show "cptr (procs ?m c) = (case cs of [] \<Rightarrow> None | d # _ \<Rightarrow> Some d)" using f(1) [of c] Cons.prems(4,8) by simp
    have "olinks ?m cs = olinks s cs"
    proof (rule olinks_cong)
      fix x assume "x \<in> set cs"
      then have "x \<noteq> p" using p(3) by auto
      then show "optr (procs ?m x) = optr (procs s x)" using f(3) by simp
    qed
    then show "olinks ?m cs" using Cons.prems(8) by simp
  qed
  obtain u where u: "(if state (procs ?m p) = PROC_ZOMBIE \<and> wait_state (procs ?m i) = WT_CHILD
      then wakeup_proc sc i ?m else Some ?m) = Some u" "sched_inv rq ready u" "skel_same ?m u" "current u = c"
    "\<forall>q. q \<noteq> i \<longrightarrow> state (procs u q) = state (procs s q) \<and> wait_state (procs u q) = wait_state (procs s q)"
    "state (procs u i) \<in> {state (procs s i), PROC_RUNNABLE}"
    "state (procs s p) = PROC_ZOMBIE \<longrightarrow> wait_state (procs s i) = WT_CHILD \<longrightarrow> state (procs u i) = PROC_RUNNABLE"
    "state (procs u i) = PROC_RUNNABLE \<or> wait_state (procs u i) = wait_state (procs s i)"
  proof (cases "state (procs ?m p) = PROC_ZOMBIE \<and> wait_state (procs ?m i) = WT_CHILD")
    case True
    have "state (procs ?m i) \<notin> {PROC_UNINIT, PROC_ZOMBIE}" "i \<noteq> idleproc ?m" using Cons.prems(5,6) by (simp_all add: sm)
    from wake_waiter [OF m this] obtain t where "wakeup_proc sc i ?m = Some t" "sched_inv rq ready t" "skel_same ?m t"
      "current t = c" "state (procs t i) = PROC_RUNNABLE"
      "\<forall>q. q \<noteq> i \<longrightarrow> state (procs t q) = state (procs s q) \<and> wait_state (procs t q) = wait_state (procs s q)"
      unfolding sm by blast
    then show ?thesis using that [of t] True by simp
  next
    case False
    then show ?thesis using that [of ?m] m by (auto simp: sm)
  qed
  note ss = skel_same_sels [OF u(3)]
  have "\<exists>t. reparent_loop sc u = Some t \<and> sched_inv rq ready t \<and> current t = c \<and> idleproc t = idleproc u \<and>
     cptr (procs t c) = None \<and> kids t i (rev cs @ p # ds) \<and>
     (\<forall>q. q \<noteq> i \<longrightarrow> state (procs t q) = state (procs u q) \<and> wait_state (procs t q) = wait_state (procs u q)) \<and>
     (\<forall>q. exit_code (procs t q) = exit_code (procs u q)) \<and>
     state (procs t i) \<in> {state (procs u i), PROC_RUNNABLE} \<and>
     ((\<exists>z \<in> set cs. state (procs u z) = PROC_ZOMBIE) \<longrightarrow> wait_state (procs u i) = WT_CHILD \<longrightarrow> state (procs t i) = PROC_RUNNABLE)"
  proof (rule Cons.IH)
    show "sched_inv rq ready u" "current u = c" by (fact u)+
    show "initproc u = i" "i \<noteq> idleproc u" using Cons.prems(3,6) by (simp_all add: ss sm)
    show "state (procs u i) \<notin> {PROC_UNINIT, PROC_ZOMBIE}" using u(6) Cons.prems(5) by auto
    show "cptr (procs u c) = (case cs of [] \<Rightarrow> None | d # _ \<Rightarrow> Some d)" using o(1) by (simp add: ss)
    show "olinks u cs" using o(2) olinks_cong [of cs u ?m] by (simp add: ss)
    show "kids u i (p # ds)" using k kids_skel [OF u(3)] by simp
  qed (use Cons.prems p in auto)
  then obtain t where t: "reparent_loop sc u = Some t" "sched_inv rq ready t" "current t = c" "idleproc t = idleproc u"
     "cptr (procs t c) = None" "kids t i (rev cs @ p # ds)"
     "\<forall>q. q \<noteq> i \<longrightarrow> state (procs t q) = state (procs u q) \<and> wait_state (procs t q) = wait_state (procs u q)"
     "\<forall>q. exit_code (procs t q) = exit_code (procs u q)"
     "state (procs t i) \<in> {state (procs u i), PROC_RUNNABLE}"
     "(\<exists>z \<in> set cs. state (procs u z) = PROC_ZOMBIE) \<longrightarrow> wait_state (procs u i) = WT_CHILD \<longrightarrow> state (procs t i) = PROC_RUNNABLE"
    by blast
  have "reparent_loop sc s = Some t"
    using Cons.prems(2,7) u(1) t(1) by (subst reparent_loop.simps) (simp only: Let_def sm option.case list.case simp_thms bind.bind_lunit)
  moreover have "(\<exists>z \<in> set (p # cs). state (procs s z) = PROC_ZOMBIE) \<longrightarrow> wait_state (procs s i) = WT_CHILD \<longrightarrow> state (procs t i) = PROC_RUNNABLE"
  proof (intro impI)
    assume z: "\<exists>z \<in> set (p # cs). state (procs s z) = PROC_ZOMBIE" and w: "wait_state (procs s i) = WT_CHILD"
    show "state (procs t i) = PROC_RUNNABLE"
    proof (cases "state (procs u i) = PROC_RUNNABLE")
      case True
      then show ?thesis using t(9) by simp
    next
      case False
      then have "state (procs s p) \<noteq> PROC_ZOMBIE" "wait_state (procs u i) = WT_CHILD" using u(7,8) w by auto
      moreover have "\<forall>z \<in> set cs. state (procs u z) = state (procs s z)" using u(5) Cons.prems(11) by auto
      ultimately show ?thesis using t(10) z by auto
    qed
  qed
  ultimately show ?case using t(2-9) u(5,6) by (intro exI [of _ t]) (auto simp: ss sm)
qed

lemma zombie_inv:
  assumes "sched_inv rq ready s" "current s \<noteq> idleproc s"
  shows "sched_inv rq ready (upd_proc (current s) (\<lambda>x. x\<lparr>state := PROC_ZOMBIE, exit_code := e\<rparr>) s)"
proof -
  let ?t = "upd_proc (current s) (\<lambda>x. x\<lparr>state := PROC_ZOMBIE, exit_code := e\<rparr>) s"
  have r: "ready (procs ?t q) = ready (procs s q)" for q
    using ready_state [where x = "procs s q" and st = PROC_ZOMBIE and w = "wait_state (procs s q)"]
      ready_family(2) [where x = "procs s q\<lparr>state := PROC_ZOMBIE\<rparr>" and e = e] by (cases "q = current s") simp_all
  have "{p. state (procs ?t p) = PROC_RUNNABLE \<and> p \<noteq> current s \<and> p \<noteq> idleproc s} =
      {p. state (procs s p) = PROC_RUNNABLE \<and> p \<noteq> current s \<and> p \<noteq> idleproc s}" by auto
  moreover have "rq_same s ?t" by (rule rq_same_upd) simp
  ultimately have "rq ?t {p. state (procs ?t p) = PROC_RUNNABLE \<and> p \<noteq> current ?t \<and> p \<noteq> idleproc ?t}"
    using assms(1) same [of s ?t] by (simp add: sched_inv_def)
  moreover have "state (procs ?t p) \<noteq> PROC_UNINIT \<longleftrightarrow> state (procs s p) \<noteq> PROC_UNINIT" for p
    using assms(1) by (simp add: sched_inv_def)
  moreover have "pid (procs ?t p) = pid (procs s p)" for p by simp
  ultimately show ?thesis using assms unfolding sched_inv_def r by simp
qed

lemma exit_notify_ok:
  assumes inv: "sched_inv rq ready s" and c: "current s = c" "initproc s = i" "c \<noteq> i" "c \<noteq> idleproc s"
    and par: "parent (procs s c) = Some par" "par \<noteq> c"
      "wait_state (procs s par) = WT_CHILD \<longrightarrow> state (procs s par) \<notin> {PROC_UNINIT, PROC_ZOMBIE} \<and> par \<noteq> idleproc s"
    and i: "state (procs s i) \<notin> {PROC_UNINIT, PROC_ZOMBIE}" "i \<noteq> idleproc s"
    and k: "kids s c cs" "kids s i ds" "i \<notin> set cs"
  shows "\<exists>t. exit_notify sc e s = Some t \<and> sched_inv rq ready t \<and> current t = c \<and> idleproc t = idleproc s \<and>
    state (procs t c) = PROC_ZOMBIE \<and> exit_code (procs t c) = e \<and> cptr (procs t c) = None \<and> kids t i (rev cs @ ds) \<and>
    (wait_state (procs s par) = WT_CHILD \<longrightarrow> state (procs t par) = PROC_RUNNABLE) \<and>
    ((\<exists>z \<in> set cs. state (procs s z) = PROC_ZOMBIE) \<longrightarrow> wait_state (procs s i) = WT_CHILD \<longrightarrow> state (procs t i) = PROC_RUNNABLE) \<and>
    (\<forall>q. q \<notin> {c, par, i} \<longrightarrow> state (procs t q) = state (procs s q))"
proof -
  let ?z = "upd_proc c (\<lambda>x. x\<lparr>state := PROC_ZOMBIE, exit_code := e\<rparr>) s"
  have z: "sched_inv rq ready ?z" using zombie_inv [OF inv, of e] c by simp
  have fz: "cptr (procs ?z q) = cptr (procs s q)" "yptr (procs ?z q) = yptr (procs s q)"
    "optr (procs ?z q) = optr (procs s q)" "parent (procs ?z q) = parent (procs s q)" for q by simp_all
  obtain u where u: "(if wait_state (procs ?z par) = WT_CHILD then wakeup_proc sc par ?z else Some ?z) = Some u"
    "sched_inv rq ready u" "skel_same ?z u" "current u = c"
    "\<forall>q. q \<noteq> par \<longrightarrow> state (procs u q) = state (procs ?z q) \<and> wait_state (procs u q) = wait_state (procs ?z q)"
    "state (procs u par) \<in> {state (procs s par), PROC_RUNNABLE}"
    "wait_state (procs s par) = WT_CHILD \<longrightarrow> state (procs u par) = PROC_RUNNABLE"
    "state (procs u par) = PROC_RUNNABLE \<or> wait_state (procs u par) = wait_state (procs s par)"
  proof (cases "wait_state (procs s par) = WT_CHILD")
    case True
    then have w: "state (procs ?z par) \<notin> {PROC_UNINIT, PROC_ZOMBIE}" "par \<noteq> idleproc ?z" using par by simp_all
    from wake_waiter [OF z w] obtain t where "wakeup_proc sc par ?z = Some t" "sched_inv rq ready t" "skel_same ?z t"
      "current t = current ?z" "state (procs t par) = PROC_RUNNABLE"
      "\<forall>q. q \<noteq> par \<longrightarrow> state (procs t q) = state (procs ?z q) \<and> wait_state (procs t q) = wait_state (procs ?z q)" by blast
    then show ?thesis using that [of t] True par(2) c(1) by simp
  next
    case False
    then show ?thesis using that [of ?z] z par(2) c(1) by simp
  qed
  note ss = skel_same_sels [OF u(3)]
  have kz: "kids ?z p xs = kids s p xs" for p xs
    by (rule kids_cong) simp_all
  have ui: "state (procs u i) \<in> {state (procs s i), PROC_RUNNABLE}"
    "state (procs u i) = PROC_RUNNABLE \<or> wait_state (procs u i) = wait_state (procs s i)"
  proof -
    show "state (procs u i) \<in> {state (procs s i), PROC_RUNNABLE}" using u(5,6) c(3) by (cases "i = par") auto
    show "state (procs u i) = PROC_RUNNABLE \<or> wait_state (procs u i) = wait_state (procs s i)"
      using u(5,8) c(3) by (cases "i = par") auto
  qed
  have cs: "cptr (procs s c) = (case cs of [] \<Rightarrow> None | d # _ \<Rightarrow> Some d)" "siblings s None cs" "distinct cs" "c \<notin> set cs"
    "\<forall>x \<in> set cs. parent (procs s x) = Some c" using k(1) by (simp_all add: kids_def)
  have dj: "set cs \<inter> set ds = {}" using cs(5) k(2) c(3) by (auto simp: kids_def)
  have ku: "kids u i ds" using k(2) kids_skel [OF u(3)] kz by simp
  have ou: "olinks u cs" using siblings_olinks [OF cs(2)] olinks_cong [of cs u s] by (simp add: ss)
  have hu: "cptr (procs u c) = (case cs of [] \<Rightarrow> None | d # _ \<Rightarrow> Some d)" using cs(1) by (simp add: ss)
  have nu: "initproc u = i" "i \<noteq> idleproc u" "state (procs u i) \<notin> {PROC_UNINIT, PROC_ZOMBIE}"
    using c i ui(1) by (auto simp: ss)
  from reparent_loop_ok [OF u(2,4) nu(1) c(3) nu(3,2) hu ou cs(3,4) k(3) ku dj]
  obtain t where t: "reparent_loop sc u = Some t" "sched_inv rq ready t" "current t = c" "idleproc t = idleproc u"
     "cptr (procs t c) = None" "kids t i (rev cs @ ds)"
     "\<forall>q. q \<noteq> i \<longrightarrow> state (procs t q) = state (procs u q) \<and> wait_state (procs t q) = wait_state (procs u q)"
     "\<forall>q. exit_code (procs t q) = exit_code (procs u q)"
     "state (procs t i) \<in> {state (procs u i), PROC_RUNNABLE}"
     "(\<exists>z \<in> set cs. state (procs u z) = PROC_ZOMBIE) \<longrightarrow> wait_state (procs u i) = WT_CHILD \<longrightarrow> state (procs t i) = PROC_RUNNABLE"
    by blast
  have run: "exit_notify sc e s = Some t"
  proof -
    have p: "parent (procs ?z c) = Some par" using par(1) by simp
    show ?thesis
      unfolding exit_notify_def Let_def c(1) upd_proc_simps(2) p bind.bind_lunit u(1) by (rule t(1))
  qed
  have zc: "state (procs t c) = PROC_ZOMBIE" "exit_code (procs t c) = e"
    using t(7,8) u(5) par(2) c(3) by (auto simp: ss)
  have wp: "wait_state (procs s par) = WT_CHILD \<longrightarrow> state (procs t par) = PROC_RUNNABLE"
    using u(7) t(7,9) by (cases "par = i") auto
  have wi: "state (procs t i) = PROC_RUNNABLE"
    if zs: "\<exists>z \<in> set cs. state (procs s z) = PROC_ZOMBIE" and w: "wait_state (procs s i) = WT_CHILD"
  proof (cases "state (procs u i) = PROC_RUNNABLE")
    case True
    then show ?thesis using t(9) by simp
  next
    case False
    obtain z where z: "z \<in> set cs" "state (procs s z) = PROC_ZOMBIE" using zs by blast
    have "z \<noteq> par \<or> wait_state (procs s par) \<noteq> WT_CHILD" using z(2) par(3) by auto
    moreover have "wait_state (procs s par) \<noteq> WT_CHILD \<longrightarrow> u = ?z" using u(1) par(2) by (auto split: if_splits)
    moreover have "state (procs ?z z) = PROC_ZOMBIE" using z(2) by simp
    ultimately have "state (procs u z) = PROC_ZOMBIE" using u(5) by (cases "z = par") auto
    then show ?thesis using t(10) z(1) False ui(2) w by auto
  qed
  have "\<forall>q. q \<notin> {c, par, i} \<longrightarrow> state (procs t q) = state (procs s q)" using t(7) u(5) by simp
  then show ?thesis using run t(2-6) zc wp wi by (intro exI [of _ t]) (simp add: ss)
qed

end

interpretation stride_exit: exit_policy stride_sched_class stride_rq "\<lambda>x. lab6_priority x \<noteq> 0"
  by unfold_locales (simp_all add: unlinked_def)

interpretation rr_exit: exit_policy RR_sched_class rr_rq "\<lambda>_. True"
  by unfold_locales (simp_all add: unlinked_def)

end
