(* ===== verification/LifeClaims.thy ===== *)
theory LifeClaims
  imports LifeProps SchedProps VmmProps
begin

section \<open>Ending a process and waiting for it\<close>

subsection \<open>Taking a process off its hash list\<close>

lemma list_del_elsewhere:
  assumes "dlist k hh (as @ x # bs)" "set (hh # as @ x # bs) \<inter> set (hd' # xs) = {}"
  shows "dlist (list_del x k) hd' xs = dlist k hd' xs"
proof (rule dlist_frame)
  have p: "prv k x \<in> set (hh # as)" using dlist_prv [OF assms(1)] last_in_set [of "hh # as"] by simp
  have n: "nxt k x \<in> set (hh # bs)" using dlist_nxt [OF assms(1)] by (auto split: list.split)
  fix y assume y: "y \<in> set (hd' # xs)"
  then have "y \<noteq> prv k x" "y \<noteq> nxt k x" using assms(2) p n by auto
  then show "nxt (list_del x k) y = nxt k y" "prv (list_del x k) y = prv k y"
    by (simp_all add: list_del_def raw_list_del_def)
qed

lemma unhash_proc_ok:
  assumes h: "hash_ok s P hs" and p: "p \<in> P"
  shows "hash_ok (unhash_proc p s) (P - {p}) (\<lambda>i. removeAll p (hs i))"
    "dlist (klinks s) ProcList (map ListLink ps) \<Longrightarrow> dlist (klinks (unhash_proc p s)) ProcList (map ListLink ps)"
proof -
  have dl: "dlist (klinks s) (HashList i) (map HashLink (hs i))" for i using h by (simp add: hash_ok_def)
  have mem: "q \<in> set (hs i) \<longleftrightarrow> q \<in> P \<and> pid_hashfn (pid (procs s q)) = Some i" for q i using h by (simp add: hash_ok_def)
  obtain i where i: "pid_hashfn (pid (procs s p)) = Some i" using pid_hashfn_total by blast
  then have "p \<in> set (hs i)" using mem p by simp
  then obtain as bs where sp: "hs i = as @ p # bs" by (meson split_list)
  have dis: "distinct (hs i)" using dlist_distinct [OF dl [of i]] by (simp add: distinct_map)
  then have rm: "removeAll p (hs i) = as @ bs" using sp by simp
  have d: "dlist (klinks s) (HashList i) (map HashLink as @ HashLink p # map HashLink bs)" using dl [of i] sp by simp
  have "dlist (klinks (unhash_proc p s)) (HashList j) (map HashLink (removeAll p (hs j)))" for j
  proof (cases "j = i")
    case True
    then show ?thesis using dlist_del [OF d] rm by (simp add: unhash_proc_def)
  next
    case False
    have nj: "p \<notin> set (hs j)" using mem i False by simp
    have "set (hs i) \<inter> set (hs j) = {}" using mem False by auto
    then have "set (HashList i # map HashLink as @ HashLink p # map HashLink bs) \<inter> set (HashList j # map HashLink (hs j)) = {}"
      using False sp by auto
    from list_del_elsewhere [OF d this] show ?thesis using dl [of j] nj by (simp add: unhash_proc_def removeAll_id)
  qed
  moreover have "procs (unhash_proc p s) = procs s" by (simp add: unhash_proc_def)
  ultimately show "hash_ok (unhash_proc p s) (P - {p}) (\<lambda>i. removeAll p (hs i))"
    using mem by (auto simp: hash_ok_def)
  assume "dlist (klinks s) ProcList (map ListLink ps)"
  then show "dlist (klinks (unhash_proc p s)) ProcList (map ListLink ps)"
    using list_del_elsewhere [OF d, of ProcList "map ListLink ps"] by (auto simp: unhash_proc_def)
qed

lemma remove_links_hash:
  assumes "hash_ok s P hs" "dlist (klinks s) ProcList (map ListLink (xs @ p # ys))"
    and t: "klinks t = list_del (ListLink p) (klinks s)" "\<And>q. pid (procs t q) = pid (procs s q)"
  shows "hash_ok t P hs"
proof -
  have d: "dlist (klinks s) ProcList (map ListLink xs @ ListLink p # map ListLink ys)" using assms(2) by simp
  have "dlist (klinks t) (HashList j) (map HashLink (hs j)) = dlist (klinks s) (HashList j) (map HashLink (hs j))" for j
    unfolding t(1) by (rule list_del_elsewhere [OF d]) auto
  then show ?thesis using assms(1) t(2) by (simp add: hash_ok_def)
qed

subsection \<open>The search for a child\<close>

lemma child_loop_eq:
  "olinks s cs \<Longrightarrow> child_loop (case cs of [] \<Rightarrow> None | c # _ \<Rightarrow> Some c) b s =
     Some (b \<or> cs \<noteq> [], List.find (\<lambda>p. state (procs s p) = PROC_ZOMBIE) cs)"
proof (induction cs arbitrary: b)
  case Nil
  show ?case by (subst child_loop.simps) simp
next
  case (Cons c cs)
  then have o: "optr (procs s c) = (case cs of [] \<Rightarrow> None | d # _ \<Rightarrow> Some d)" "olinks s cs" by simp_all
  show ?case using Cons.IH [OF o(2), of True] by (subst child_loop.simps) (simp add: o(1))
qed

text \<open>The children of the current process that a call with argument \<open>i\<close> waits for.\<close>

definition waited :: "kst \<Rightarrow> nat list \<Rightarrow> int \<Rightarrow> nat set" where
  "waited s cs i = {p \<in> set cs. i = 0 \<or> pid (procs s p) = i}"

lemma wait_search_ok:
  assumes h: "hash_ok s P hs" and k: "kids s (current s) cs" "set cs \<subseteq> P"
    and P: "\<And>p. p \<in> P \<Longrightarrow> parent (procs s p) = Some (current s) \<Longrightarrow> p \<in> set cs"
      "inj_on (\<lambda>p. pid (procs s p)) P" "\<And>p. p \<in> P \<Longrightarrow> 0 < pid (procs s p) \<and> pid (procs s p) < MAX_PID"
  shows "\<exists>z. wait_search i s = Some (waited s cs i \<noteq> {}, z) \<and>
    (case z of None \<Rightarrow> \<forall>p \<in> waited s cs i. state (procs s p) \<noteq> PROC_ZOMBIE
     | Some p \<Rightarrow> p \<in> waited s cs i \<and> state (procs s p) = PROC_ZOMBIE)"
proof (cases "i = 0")
  case True
  have "olinks s cs" "cptr (procs s (current s)) = (case cs of [] \<Rightarrow> None | c # _ \<Rightarrow> Some c)"
    using k(1) siblings_olinks [of s None cs] by (auto simp: kids_def)
  then have w: "wait_search i s = Some (cs \<noteq> [], List.find (\<lambda>p. state (procs s p) = PROC_ZOMBIE) cs)"
    using child_loop_eq [of s cs False] True by (simp add: wait_search_def)
  have "waited s cs i = set cs" using True by (auto simp: waited_def)
  then show ?thesis using w by (auto simp: find_None_iff find_Some_iff split: option.splits)
next
  case False
  note par = k(1) [unfolded kids_def]
  show ?thesis
  proof (cases "0 < i \<and> i < MAX_PID")
    case True
    with find_proc_eq [OF h, of i] obtain r where r: "find_proc i s = Some r"
      "case r of None \<Rightarrow> \<forall>p \<in> P. pid (procs s p) \<noteq> i | Some p \<Rightarrow> p \<in> P \<and> pid (procs s p) = i" by blast
    show ?thesis
    proof (cases r)
      case None
      then have "waited s cs i = {}" using r(2) k(2) False by (auto simp: waited_def)
      then show ?thesis using r(1) None False by (simp add: wait_search_def)
    next
      case (Some p)
      then have p: "p \<in> P" "pid (procs s p) = i" using r(2) by simp_all
      show ?thesis
      proof (cases "parent (procs s p) = Some (current s)")
        case True
        then have "waited s cs i = {p}" using P(1,2) p k(2) False by (auto simp: waited_def dest: inj_onD)
        then show ?thesis using r(1) Some False True by (simp add: wait_search_def)
      next
        case notchild: False
        then have "waited s cs i = {}" using P(2) p k(2) False par by (auto simp: waited_def dest: inj_onD)
        then show ?thesis using r(1) Some False notchild by (simp add: wait_search_def)
      qed
    qed
  next
    case out: False
    then have "find_proc i s = Some None" by (auto simp: find_proc_def)
    moreover have "waited s cs i = {}" using P(3) k(2) False out by (auto simp: waited_def)
    ultimately show ?thesis using False by (simp add: wait_search_def)
  qed
qed


subsection \<open>Collecting a zombie\<close>

lemma unlinked_sels:
  "pid (unlinked x) = pid x" "kstack (unlinked x) = kstack x" "state (unlinked x) = state x"
  "wait_state (unlinked x) = wait_state x" "lab6_stride (unlinked x) = lab6_stride x"
  "lab6_priority (unlinked x) = lab6_priority x" "on_rq (unlinked x) = on_rq x" "exit_code (unlinked x) = exit_code x"
  by (simp_all add: unlinked_def)

lemma unlinked_eq:
  assumes "unlinked x = unlinked y"
  shows "pid x = pid y" "kstack x = kstack y" "state x = state y" "wait_state x = wait_state y"
    "lab6_stride x = lab6_stride y" "lab6_priority x = lab6_priority y" "on_rq x = on_rq y" "exit_code x = exit_code y"
  using arg_cong [OF assms, of pid] arg_cong [OF assms, of kstack] arg_cong [OF assms, of state]
    arg_cong [OF assms, of wait_state] arg_cong [OF assms, of lab6_stride] arg_cong [OF assms, of lab6_priority]
    arg_cong [OF assms, of on_rq] arg_cong [OF assms, of exit_code]
  by (simp_all only: unlinked_sels)

lemma put_kstack_ok:
  assumes "kva2page (kstack (procs (ks k) p)) (vmst k) = Some pg" "pmm_inv (phys (vmst k))" "free_ok pg KSTACKPAGE (phys (vmst k))"
  shows "\<exists>u. put_kstack p k = Some u \<and> ks u = ks k \<and> pheap u = pheap k \<and> fsys u = fsys k \<and> tfs u = tfs k \<and>
    pmm_inv (phys (vmst u)) \<and> free_set (phys (vmst u)) = free_set (phys (vmst k)) \<union> {pg..<pg + KSTACKPAGE} \<and>
    ram (vmst u) = ram (vmst k)"
proof -
  obtain t where "default_free_pages pg KSTACKPAGE (phys (vmst k)) = Some t" "pmm_inv t"
    "free_set t = free_set (phys (vmst k)) \<union> {pg..<pg + KSTACKPAGE}" using ff.free_returns [OF assms(2,3)] by blast
  then show ?thesis using assms(1) by (simp add: put_kstack_def with_vm0_def free_pages_def)
qed

text \<open>\<open>do_wait\<close> on a zombie child, from the label \<open>found\<close>: the exit code has been stored; the child
  leaves its hash list, the process list and the children of its parent, wherever it stands in
  them, the two pages of its kernel stack are free again and its structure goes back to the
  allocator. The other processes stay in their lists in order.\<close>

theorem wait_found_collects:
  assumes st: "(if code_store \<noteq> 0 then store_word sm code_store 4 (word_of_int (exit_code (procs (ks k) p))) k else Some k) = Some k1"
      "ks k1 = ks k"
    and p: "p \<noteq> idleproc (ks k)" "p \<noteq> initproc (ks k)" "p \<in> P"
    and h: "hash_ok (ks k) P hs"
    and fam: "kids (ks k) par (as @ p # bs)" "dlist (klinks (ks k)) ProcList (map ListLink (xs @ p # ys))"
    and stk: "kva2page (kstack (procs (ks k) p)) (vmst k1) = Some pg" "pmm_inv (phys (vmst k1))" "free_ok pg KSTACKPAGE (phys (vmst k1))"
  shows "\<exists>u. wait_found sm code_store p k = Some (0, u) \<and> kids (ks u) par (as @ bs) \<and>
    dlist (klinks (ks u)) ProcList (map ListLink (xs @ ys)) \<and> hash_ok (ks u) (P - {p}) (\<lambda>i. removeAll p (hs i)) \<and>
    nr_process (ks u) = nr_process (ks k) - 1 \<and> pheap u = p # pheap k1 \<and> pmm_inv (phys (vmst u)) \<and>
    free_set (phys (vmst u)) = free_set (phys (vmst k1)) \<union> {pg..<pg + KSTACKPAGE}"
proof -
  let ?s = "unhash_proc p (ks k)"
  note uh = unhash_proc_ok [OF h p(3)]
  have ps: "procs ?s = procs (ks k)" "nr_process ?s = nr_process (ks k)" by (simp_all add: unhash_proc_def)
  have ksd: "kids ?s par (as @ p # bs)" using fam(1) kids_cong [of ?s "ks k"] ps by simp
  from remove_links_ok [OF ksd uh(2) [OF fam(2)]] obtain t where t: "remove_links p ?s = Some t" "kids t par (as @ bs)"
    "dlist (klinks t) ProcList (map ListLink (xs @ ys))" "nr_process t = nr_process (ks k) - 1"
    "klinks t = list_del (ListLink p) (klinks ?s)" "links_only ?s t" using ps(2) by auto
  have un: "unlinked (procs t q) = unlinked (procs (ks k) q)" for q using t(6) ps(1) by (simp add: links_only_def)
  have ht: "hash_ok t (P - {p}) (\<lambda>i. removeAll p (hs i))"
    by (rule remove_links_hash [OF uh(1) uh(2) [OF fam(2)] t(5)]) (simp add: unlinked_eq [OF un] ps)
  let ?k = "k1\<lparr>ks := t\<rparr>"
  have "kva2page (kstack (procs (ks ?k) p)) (vmst ?k) = Some pg" using stk(1) by (simp add: unlinked_eq [OF un])
  from put_kstack_ok [OF this] stk(2,3) obtain u where u: "put_kstack p ?k = Some u" "ks u = t" "pheap u = pheap k1"
    "pmm_inv (phys (vmst u))" "free_set (phys (vmst u)) = free_set (phys (vmst k1)) \<union> {pg..<pg + KSTACKPAGE}" by auto
  have "wait_found sm code_store p k = Some (0, kfree_proc p u)"
    unfolding wait_found_def with_ks_def st(1) bind.bind_lunit st(2) t(1) u(1) using p(1,2) by simp
  then show ?thesis using t(2-4) ht u by (simp add: kfree_proc_def)
qed


text \<open>Process 2 runs, its child 3 is a zombie, its parent, the init process 1, waits for a child; process 0 is the idle one.\<close>

definition ex_life_procs :: "nat \<Rightarrow> proc_struct" where
  "ex_life_procs = (\<lambda>p. SchedProps.ex_proc PROC_UNINIT (- 1))(
     0 := SchedProps.ex_proc PROC_RUNNABLE 0,
     1 := (SchedProps.ex_proc PROC_SLEEPING 1)\<lparr>parent := Some 0, wait_state := WT_CHILD, cptr := Some 2\<rparr>,
     2 := (SchedProps.ex_proc PROC_RUNNABLE 2)\<lparr>parent := Some 1, cptr := Some 3\<rparr>,
     3 := (SchedProps.ex_proc PROC_ZOMBIE 3)\<lparr>parent := Some 2, kstack := 0xFFFFFFFFC0205000, exit_code := 7\<rparr>)"

definition ex_life0 :: kst where
  "ex_life0 = ex_kst\<lparr>procs := ex_life_procs, current := 2,
     klinks := \<lparr>nxt = (\<lambda>l. l)(ProcList := ListLink 3, ListLink 3 := ListLink 2, ListLink 2 := ListLink 1, ListLink 1 := ProcList,
         HashList 632 := HashLink 1, HashLink 1 := HashList 632, HashList 241 := HashLink 2, HashLink 2 := HashList 241,
         HashList 874 := HashLink 3, HashLink 3 := HashList 874),
       prv = (\<lambda>l. l)(ProcList := ListLink 1, ListLink 3 := ProcList, ListLink 2 := ListLink 3, ListLink 1 := ListLink 2,
         HashList 632 := HashLink 1, HashLink 1 := HashList 632, HashList 241 := HashLink 2, HashLink 2 := HashList 241,
         HashList 874 := HashLink 3, HashLink 3 := HashList 874)\<rparr>\<rparr>"

definition ex_life :: kst where
  "ex_life = stride_init ex_life0"

lemma ex_life_sels:
  "procs ex_life = ex_life_procs" "current ex_life = 2" "idleproc ex_life = 0" "initproc ex_life = 1" "nr_process ex_life = 3"
  "klinks ex_life = list_init RunList (klinks ex_life0)"
  by (simp_all add: ex_life_def stride_init_def ex_life0_def ex_kst_def)

lemma ex_life_procs_sels:
  "state (ex_life_procs p) = (if p = 0 \<or> p = 2 then PROC_RUNNABLE else if p = 1 then PROC_SLEEPING
     else if p = 3 then PROC_ZOMBIE else PROC_UNINIT)"
  "pid (ex_life_procs p) = (if p \<le> 3 then int p else -1)" "lab6_priority (ex_life_procs p) = 1"
  "parent (ex_life_procs p) = (if p = 1 then Some 0 else if p = 2 then Some 1 else if p = 3 then Some 2 else None)"
  "cptr (ex_life_procs p) = (if p = 1 then Some 2 else if p = 2 then Some 3 else None)"
  "yptr (ex_life_procs p) = None" "optr (ex_life_procs p) = None"
  "wait_state (ex_life_procs (Suc 0)) = WT_CHILD" "kstack (ex_life_procs 3) = 0xFFFFFFFFC0205000" "exit_code (ex_life_procs 3) = 7"
  by (auto simp: ex_life_procs_def SchedProps.ex_proc_def)

lemma ex_life_inv: "sched_inv stride_rq (\<lambda>x. lab6_priority x \<noteq> 0) ex_life"
proof -
  have "stride_rq (sc_init stride_sched_class ex_life0) {}"
    by (rule stride.init) (simp add: ex_life0_def list_empty_def)
  then have "stride_rq ex_life {}" by (simp add: stride_sched_class_def ex_life_def)
  moreover have "{p. state (procs ex_life p) = PROC_RUNNABLE \<and> p \<noteq> current ex_life \<and> p \<noteq> idleproc ex_life} = {}"
    by (auto simp: ex_life_sels ex_life_procs_sels split: if_splits)
  ultimately have "stride_rq ex_life {p. state (procs ex_life p) = PROC_RUNNABLE \<and> p \<noteq> current ex_life \<and> p \<noteq> idleproc ex_life}"
    by (simp only:)
  moreover have "inj_on (\<lambda>p. pid (procs ex_life p)) {p. state (procs ex_life p) \<noteq> PROC_UNINIT}"
    by (auto simp: ex_life_sels ex_life_procs_sels inj_on_def split: if_splits)
  ultimately show ?thesis unfolding sched_inv_def by (simp add: ex_life_sels ex_life_procs_sels)
qed

lemma ex_life_kids: "kids ex_life 1 [2]" "kids ex_life 2 [3]"
  by (simp_all add: kids_def ex_life_sels ex_life_procs_sels)

lemma ex_life_list: "dlist (klinks ex_life) ProcList (map ListLink [3, 2, 1])"
  by (simp add: ex_life_sels ex_life0_def list_init_def dlist_def)

definition ex_life_hash :: "nat \<Rightarrow> nat list" where
  "ex_life_hash h = (if h = 632 then [1] else if h = 241 then [2] else if h = 874 then [3] else [])"

lemma ex_life_hashed: "hash_ok ex_life {1, 2, 3} ex_life_hash"
proof -
  have h: "pid_hashfn 1 = Some 632" "pid_hashfn 2 = Some 241" "pid_hashfn 3 = Some 874"
    by (simp_all add: pid_hashfn_def hash32_def HASH_SHIFT_def GOLDEN_RATIO_PRIME_32_def)
  have "dlist (klinks ex_life) (HashList i) (map HashLink (ex_life_hash i))" for i
    by (simp add: ex_life_hash_def ex_life_sels ex_life0_def list_init_def dlist_def)
  then show ?thesis by (auto simp: hash_ok_def h ex_life_hash_def ex_life_sels ex_life_procs_sels split: if_splits)
qed

definition ex_kern :: kern where
  "ex_kern = \<lparr>ks = ex_life, vmst = ex_mm\<lparr>nbase := 0x80200, npage := 0x88000\<rparr>, fsys = undefined, tfs = undefined,
     boot_pgdir = 0, pheap = [4, 5], kbufs = [], sstatus = 0, ticks = 0, forkret = 0, kernel_thread_entry = 0,
     elf_at = 0, ph_at = 0, stat_at = 0, name_at = 0\<rparr>"

theorem wait_found_collects_witness:
  "\<exists>u. wait_found swap_manager_fifo 0 3 ex_kern = Some (0, u) \<and> kids (ks u) 2 ([] @ []) \<and>
    dlist (klinks (ks u)) ProcList (map ListLink ([] @ [2, 1])) \<and>
    hash_ok (ks u) ({1, 2, 3} - {3}) (\<lambda>i. removeAll 3 (ex_life_hash i)) \<and>
    nr_process (ks u) = nr_process (ks ex_kern) - 1 \<and> pheap u = 3 # pheap ex_kern \<and> pmm_inv (phys (vmst u)) \<and>
    free_set (phys (vmst u)) = free_set (phys (vmst ex_kern)) \<union> {5..<5 + KSTACKPAGE}"
proof (rule wait_found_collects)
  have ph: "phys (vmst ex_kern) = ex_pmm" by (simp add: ex_kern_def ex_mm_def ex_vm_def)
  show "kids (ks ex_kern) 2 ([] @ 3 # [])" "hash_ok (ks ex_kern) {1, 2, 3} ex_life_hash"
    "dlist (klinks (ks ex_kern)) ProcList (map ListLink ([] @ 3 # [2, 1]))"
    using ex_life_kids ex_life_list ex_life_hashed by (simp_all add: ex_kern_def)
  show "kva2page (kstack (procs (ks ex_kern) 3)) (vmst ex_kern) = Some 5"
    by (simp add: ex_kern_def ex_life_sels ex_life_procs_sels kva2page_def PADDR_def pa2page_def PPN_def KERNBASE_def
      va_pa_offset_def drop_bit_eq_div)
  show "pmm_inv (phys (vmst ex_kern))" using ex_pmm_inv ph by simp
  show "free_ok 5 KSTACKPAGE (phys (vmst ex_kern))"
    unfolding ph free_ok_def free_set_wf [OF ex_pmm_wf] KSTACKPAGE_def
    by (auto simp: ex_pmm_def flag_defs intro: bexI [of _ 8])
qed (simp_all add: ex_kern_def ex_life_sels)


subsection \<open>Waiting\<close>

lemma sleep_inv:
  assumes "sched_inv stride_rq (\<lambda>x. lab6_priority x \<noteq> 0) s" "current s \<noteq> idleproc s"
  shows "sched_inv stride_rq (\<lambda>x. lab6_priority x \<noteq> 0) (upd_proc (current s) (\<lambda>x. x\<lparr>state := PROC_SLEEPING, wait_state := w\<rparr>) s)"
proof -
  let ?t = "upd_proc (current s) (\<lambda>x. x\<lparr>state := PROC_SLEEPING, wait_state := w\<rparr>) s"
  have "{p. state (procs ?t p) = PROC_RUNNABLE \<and> p \<noteq> current s \<and> p \<noteq> idleproc s} =
      {p. state (procs s p) = PROC_RUNNABLE \<and> p \<noteq> current s \<and> p \<noteq> idleproc s}" by auto
  moreover have "rq_same s ?t" by (rule rq_same_upd) simp
  ultimately have "stride_rq ?t {p. state (procs ?t p) = PROC_RUNNABLE \<and> p \<noteq> current ?t \<and> p \<noteq> idleproc ?t}"
    using assms(1) stride.same [of s ?t] by (simp add: sched_inv_def)
  moreover have "lab6_priority (procs ?t p) = lab6_priority (procs s p)" "pid (procs ?t p) = pid (procs s p)"
    "state (procs ?t p) \<noteq> PROC_UNINIT \<longleftrightarrow> state (procs s p) \<noteq> PROC_UNINIT" for p
    using assms(1) by (simp_all add: sched_inv_def)
  ultimately show ?thesis using assms unfolding sched_inv_def by simp
qed

text \<open>What it takes to collect the zombie \<open>z\<close>: it is not one of the first two processes, its exit code can be
  stored, which leads to \<open>k1\<close> and touches no process, and the page manager can take the pages of its stack, from \<open>pg\<close> on.\<close>

definition collectable :: "swap_manager \<Rightarrow> 64 word \<Rightarrow> nat \<Rightarrow> kern \<Rightarrow> kern \<Rightarrow> nat \<Rightarrow> bool" where
  "collectable sm st z k k1 pg \<longleftrightarrow> z \<noteq> idleproc (ks k) \<and> z \<noteq> initproc (ks k) \<and>
     (if st \<noteq> 0 then store_word sm st 4 (word_of_int (exit_code (procs (ks k) z))) k else Some k) = Some k1 \<and> ks k1 = ks k \<and>
     kva2page (kstack (procs (ks k) z)) (vmst k1) = Some pg \<and> pmm_inv (phys (vmst k1)) \<and> free_ok pg KSTACKPAGE (phys (vmst k1))"

text \<open>The collected zombie is gone: from the children of its parent, the process list, its hash list and the count; its
  structure is free memory again, and so are the pages of its stack.\<close>

definition collected :: "nat \<Rightarrow> nat \<Rightarrow> nat list \<Rightarrow> nat list \<Rightarrow> nat set \<Rightarrow> (nat \<Rightarrow> nat list) \<Rightarrow> kern \<Rightarrow> kern \<Rightarrow> nat \<Rightarrow> kern \<Rightarrow> bool" where
  "collected z par cs ls P hs k k1 pg u \<longleftrightarrow> kids (ks u) par (remove1 z cs) \<and>
     dlist (klinks (ks u)) ProcList (map ListLink (remove1 z ls)) \<and>
     hash_ok (ks u) (P - {z}) (\<lambda>i. removeAll z (hs i)) \<and> nr_process (ks u) = nr_process (ks k) - 1 \<and>
     pheap u = z # pheap k1 \<and> pmm_inv (phys (vmst u)) \<and>
     free_set (phys (vmst u)) = free_set (phys (vmst k1)) \<union> {pg..<pg + KSTACKPAGE}"

lemma wait_found_collected:
  assumes c: "collectable sm st z k k1 pg" and h: "hash_ok (ks k) P hs" "z \<in> P"
    and fam: "kids (ks k) par cs" "z \<in> set cs" "dlist (klinks (ks k)) ProcList (map ListLink ls)" "z \<in> set ls"
  shows "\<exists>u. wait_found sm st z k = Some (0, u) \<and> collected z par cs ls P hs k k1 pg u"
proof -
  obtain as bs where cs: "cs = as @ z # bs" "z \<notin> set as" using fam(2) by (metis split_list_first)
  obtain xs ys where ls: "ls = xs @ z # ys" "z \<notin> set xs" using fam(4) by (metis split_list_first)
  from c have st: "(if st \<noteq> 0 then store_word sm st 4 (word_of_int (exit_code (procs (ks k) z))) k else Some k) = Some k1" "ks k1 = ks k"
    and p: "z \<noteq> idleproc (ks k)" "z \<noteq> initproc (ks k)"
    and stk: "kva2page (kstack (procs (ks k) z)) (vmst k1) = Some pg" "pmm_inv (phys (vmst k1))" "free_ok pg KSTACKPAGE (phys (vmst k1))"
    unfolding collectable_def by blast+
  have "remove1 z cs = as @ bs" "remove1 z ls = xs @ ys" using cs ls by (simp_all add: remove1_append)
  then show ?thesis
    using wait_found_collects [OF st p h(2) h(1) fam(1) [unfolded cs(1)] fam(3) [unfolded ls(1)] stk]
    unfolding collected_def by simp
qed

text \<open>C10: One round of \<open>do_wait\<close>, for a child with the identifier \<open>i\<close> or, with \<open>i = 0\<close>, for any: when no child
  is meant the call returns \<open>- E_BAD_PROC\<close> and changes nothing. When one of the children meant is a
  zombie, the call returns 0 and such a zombie is gone: it has left the children of the caller, the process list, its hash
  list and the count of processes, the others keep their order, and its structure and the two pages of its kernel stack are free. Otherwise
  the caller sleeps in the state \<open>WT_CHILD\<close>, another process runs, and the family and the run queue stay well-formed.\<close>

theorem wait_round_outcomes:
  assumes h: "hash_ok (ks k) P hs" and fam: "kids (ks k) (current (ks k)) cs" "set cs \<subseteq> P"
    and P: "\<And>p. p \<in> P \<Longrightarrow> parent (procs (ks k) p) = Some (current (ks k)) \<Longrightarrow> p \<in> set cs"
      "inj_on (\<lambda>p. pid (procs (ks k) p)) P" "\<And>p. p \<in> P \<Longrightarrow> 0 < pid (procs (ks k) p) \<and> pid (procs (ks k) p) < MAX_PID"
    and inv: "sched_inv stride_rq (\<lambda>x. lab6_priority x \<noteq> 0) (ks k)" "current (ks k) \<noteq> idleproc (ks k)"
    and ls: "dlist (klinks (ks k)) ProcList (map ListLink ls)" "set cs \<subseteq> set ls"
    and col: "\<And>z. z \<in> waited (ks k) cs i \<Longrightarrow> state (procs (ks k) z) = PROC_ZOMBIE \<Longrightarrow> \<exists>k1 pg. collectable sm st z k k1 pg"
  shows "(waited (ks k) cs i = {} \<longrightarrow> wait_round stride_sched_class sm i st k = Some (Returned (- E_BAD_PROC), k)) \<and>
    ((\<exists>p \<in> waited (ks k) cs i. state (procs (ks k) p) = PROC_ZOMBIE) \<longrightarrow>
      (\<exists>z \<in> waited (ks k) cs i. state (procs (ks k) z) = PROC_ZOMBIE \<and>
         (\<exists>k1 pg u. collectable sm st z k k1 pg \<and> wait_round stride_sched_class sm i st k = Some (Returned 0, u) \<and>
            collected z (current (ks k)) cs ls P hs k k1 pg u))) \<and>
    (waited (ks k) cs i \<noteq> {} \<and> (\<forall>p \<in> waited (ks k) cs i. state (procs (ks k) p) \<noteq> PROC_ZOMBIE) \<longrightarrow>
      (\<exists>u. wait_round stride_sched_class sm i st k = Some (InWait i st, u) \<and> current (ks u) \<noteq> current (ks k) \<and>
         state (procs (ks u) (current (ks k))) = PROC_SLEEPING \<and> wait_state (procs (ks u) (current (ks k))) = WT_CHILD \<and>
         kids (ks u) (current (ks k)) cs \<and> sched_inv stride_rq (\<lambda>x. lab6_priority x \<noteq> 0) (ks u)))"
proof -
  let ?W = "waited (ks k) cs i"
  obtain z where z: "wait_search i (ks k) = Some (?W \<noteq> {}, z)"
    "case z of None \<Rightarrow> \<forall>p \<in> ?W. state (procs (ks k) p) \<noteq> PROC_ZOMBIE
     | Some p \<Rightarrow> p \<in> ?W \<and> state (procs (ks k) p) = PROC_ZOMBIE"
    using wait_search_ok [OF h fam P] by blast
  show ?thesis
  proof (cases z)
    case (Some p)
    then have p: "p \<in> ?W" "state (procs (ks k) p) = PROC_ZOMBIE" using z(2) by simp_all
    then have "p \<in> set cs" by (simp add: waited_def split: if_splits)
    then have m: "p \<in> P" "p \<in> set ls" using fam(2) ls(2) by blast+
    obtain k1 pg where c: "collectable sm st p k k1 pg" using col [OF p] by blast
    obtain u where u: "wait_found sm st p k = Some (0, u)" "collected p (current (ks k)) cs ls P hs k k1 pg u"
      using wait_found_collected [OF c h m(1) fam(1) \<open>p \<in> set cs\<close> ls(1) m(2)] by blast
    have "wait_round stride_sched_class sm i st k = Some (Returned 0, u)" using z(1) Some u(1) by (simp add: wait_round_def)
    then show ?thesis using p c u(2) by blast
  next
    case None
    let ?s = "upd_proc (current (ks k)) (\<lambda>x. x\<lparr>state := PROC_SLEEPING, wait_state := WT_CHILD\<rparr>) (ks k)"
    have si: "sched_inv stride_rq (\<lambda>x. lab6_priority x \<noteq> 0) ?s" by (rule sleep_inv [OF inv])
    from stride.schedule_ok [OF si] obtain t where t: "schedule stride_sched_class ?s = Some t"
      "sched_inv stride_rq (\<lambda>x. lab6_priority x \<noteq> 0) t" "state (procs t (current t)) = PROC_RUNNABLE"
      "\<forall>p. state (procs t p) = state (procs ?s p)" "\<forall>p. wait_state (procs t p) = wait_state (procs ?s p)" by blast
    have sk: "skel_same (ks k) t"
    proof (rule skel_same_trans)
      show "skel_same (ks k) ?s" by (rule skel_same_upd) (simp add: skel_def masked_def)
      show "skel_same ?s t" by (rule stride_frame.schedule_skel [OF t(1)])
    qed
    have sl: "state (procs t (current (ks k))) = PROC_SLEEPING" "wait_state (procs t (current (ks k))) = WT_CHILD"
      using t(4,5) by simp_all
    then have cur: "current t \<noteq> current (ks k)" using t(3) by auto
    have run: "wait_round stride_sched_class sm i st k =
        (if ?W \<noteq> {} then Some (InWait i st, k\<lparr>ks := t\<rparr>) else Some (Returned (- E_BAD_PROC), k))"
      using z(1) None t(1) by (simp add: wait_round_def upd_cur_def upd_ks_def with_ks_def)
    have nz: "\<forall>p \<in> ?W. state (procs (ks k) p) \<noteq> PROC_ZOMBIE" using z(2) None by simp
    have kd: "kids t (current (ks k)) cs" using kids_skel [OF sk] fam(1) by simp
    show ?thesis
    proof (cases "?W = {}")
      case True
      then show ?thesis using run by simp
    next
      case False
      then have "wait_round stride_sched_class sm i st k = Some (InWait i st, k\<lparr>ks := t\<rparr>)" using run by simp
      then have "\<exists>u. wait_round stride_sched_class sm i st k = Some (InWait i st, u) \<and> current (ks u) \<noteq> current (ks k) \<and>
         state (procs (ks u) (current (ks k))) = PROC_SLEEPING \<and> wait_state (procs (ks u) (current (ks k))) = WT_CHILD \<and>
         kids (ks u) (current (ks k)) cs \<and> sched_inv stride_rq (\<lambda>x. lab6_priority x \<noteq> 0) (ks u)"
        using cur sl kd t(2) by (intro exI [of _ "k\<lparr>ks := t\<rparr>"]) simp
      then show ?thesis using False nz by blast
    qed
  qed
qed

lemma ex_life_family:
  "kids (ks ex_kern) (current (ks ex_kern)) [3]"
  "p \<in> {1, 2, 3} \<Longrightarrow> parent (procs (ks ex_kern) p) = Some (current (ks ex_kern)) \<Longrightarrow> p \<in> set [3]"
  "inj_on (\<lambda>p. pid (procs (ks ex_kern) p)) {1, 2, 3}"
  "p \<in> {1, 2, 3} \<Longrightarrow> 0 < pid (procs (ks ex_kern) p) \<and> pid (procs (ks ex_kern) p) < MAX_PID"
  "current (ks ex_kern) \<noteq> idleproc (ks ex_kern)"
proof -
  have e: "ks ex_kern = ex_life" by (simp add: ex_kern_def)
  show "kids (ks ex_kern) (current (ks ex_kern)) [3]" using ex_life_kids by (simp add: e ex_life_sels)
  show "p \<in> {1, 2, 3} \<Longrightarrow> parent (procs (ks ex_kern) p) = Some (current (ks ex_kern)) \<Longrightarrow> p \<in> set [3]"
    by (elim insertE) (simp_all add: e ex_life_sels ex_life_procs_sels)
  show "inj_on (\<lambda>p. pid (procs (ks ex_kern) p)) {1, 2, 3}"
    by (simp add: inj_on_def e ex_life_sels ex_life_procs_sels)
  show "p \<in> {1, 2, 3} \<Longrightarrow> 0 < pid (procs (ks ex_kern) p) \<and> pid (procs (ks ex_kern) p) < MAX_PID"
    by (elim insertE) (simp_all add: e ex_life_sels ex_life_procs_sels MAX_PID_val)
  show "current (ks ex_kern) \<noteq> idleproc (ks ex_kern)" by (simp add: e ex_life_sels)
qed

lemma ex_collectable: "collectable swap_manager_fifo 0 3 ex_kern ex_kern 5"
proof -
  have ph: "phys (vmst ex_kern) = ex_pmm" by (simp add: ex_kern_def ex_mm_def ex_vm_def)
  have "kva2page (kstack (procs (ks ex_kern) 3)) (vmst ex_kern) = Some 5"
    by (simp add: ex_kern_def ex_life_sels ex_life_procs_sels kva2page_def PADDR_def pa2page_def PPN_def KERNBASE_def
      va_pa_offset_def drop_bit_eq_div)
  moreover have "free_ok 5 KSTACKPAGE (phys (vmst ex_kern))"
    unfolding ph free_ok_def free_set_wf [OF ex_pmm_wf] KSTACKPAGE_def
    by (auto simp: ex_pmm_def flag_defs intro: bexI [of _ 8])
  moreover have "3 \<noteq> idleproc (ks ex_kern)" "3 \<noteq> initproc (ks ex_kern)" by (simp_all add: ex_kern_def ex_life_sels)
  ultimately show ?thesis using ex_pmm_inv ph by (simp add: collectable_def)
qed

text \<open>Process 2 waits: a child with the identifier 9 does not exist, and for any child it collects the zombie 3.\<close>

theorem wait_round_outcomes_witness:
  "wait_round stride_sched_class swap_manager_fifo 9 0 ex_kern = Some (Returned (- E_BAD_PROC), ex_kern) \<and>
   (\<exists>k1 pg u. wait_round stride_sched_class swap_manager_fifo 0 0 ex_kern = Some (Returned 0, u) \<and>
      collected 3 2 [3] [3, 2, 1] {1, 2, 3} ex_life_hash ex_kern k1 pg u)"
proof -
  have e: "ks ex_kern = ex_life" by (simp add: ex_kern_def)
  have c: "current (ks ex_kern) = 2" by (simp add: e ex_life_sels)
  have z: "pid (procs ex_life 3) = 3" "state (procs ex_life 3) = PROC_ZOMBIE" by (simp_all add: ex_life_sels ex_life_procs_sels)
  then have w: "waited (ks ex_kern) [3] 9 = {}" "waited (ks ex_kern) [3] 0 = {3}" by (simp_all add: waited_def e)
  have h: "hash_ok (ks ex_kern) {1, 2, 3} ex_life_hash" unfolding e by (rule ex_life_hashed)
  have i: "sched_inv stride_rq (\<lambda>x. lab6_priority x \<noteq> 0) (ks ex_kern)" unfolding e by (rule ex_life_inv)
  have l: "dlist (klinks (ks ex_kern)) ProcList (map ListLink [3, 2, 1])" unfolding e by (rule ex_life_list)
  have s: "set [3] \<subseteq> {1, 2, 3 :: nat}" "set [3] \<subseteq> set [3, 2, 1 :: nat]" by simp_all
  note o = wait_round_outcomes [OF h ex_life_family(1) s(1) ex_life_family(2,3,4) i ex_life_family(5) l s(2),
      where sm = swap_manager_fifo and st = 0]
  have none: "wait_round stride_sched_class swap_manager_fifo 9 0 ex_kern = Some (Returned (- E_BAD_PROC), ex_kern)"
    using o [of 9] w(1) by blast
  have "\<exists>p \<in> waited (ks ex_kern) [3] 0. state (procs (ks ex_kern) p) = PROC_ZOMBIE" using w(2) z(2) by (simp add: e)
  moreover have "\<exists>k1 pg. collectable swap_manager_fifo 0 p ex_kern k1 pg" if "p \<in> waited (ks ex_kern) [3] 0" for p
    using ex_collectable that w(2) by auto
  ultimately have "\<exists>p \<in> waited (ks ex_kern) [3] 0. \<exists>k1 pg u. wait_round stride_sched_class swap_manager_fifo 0 0 ex_kern = Some (Returned 0, u) \<and>
      collected p (current (ks ex_kern)) [3] [3, 2, 1] {1, 2, 3} ex_life_hash ex_kern k1 pg u"
    using o [of 0] by blast
  then show ?thesis using none unfolding w(2) c by blast
qed

subsection \<open>Exiting\<close>

text \<open>C9: The end of \<open>do_exit\<close>, from the change to \<open>PROC_ZOMBIE\<close> to \<open>schedule\<close>: it returns to the scheduler, which
  runs another process; the dead process is a zombie with its exit code and has no children left;
  they are now the youngest children of the init process, before those it had, in well-formed sibling
  lists; a parent that waits for a child is awake, and so is an init process that waits for a
  child and inherits a zombie.\<close>

theorem exit_hands_over:
  assumes inv: "sched_inv stride_rq (\<lambda>x. lab6_priority x \<noteq> 0) s"
    and c: "current s = c" "initproc s = i" "c \<noteq> i" "c \<noteq> idleproc s"
    and par: "parent (procs s c) = Some par" "par \<noteq> c"
      "wait_state (procs s par) = WT_CHILD \<longrightarrow> state (procs s par) \<notin> {PROC_UNINIT, PROC_ZOMBIE} \<and> par \<noteq> idleproc s"
    and i: "state (procs s i) \<notin> {PROC_UNINIT, PROC_ZOMBIE}" "i \<noteq> idleproc s"
    and k: "kids s c cs" "kids s i ds" "i \<notin> set cs"
  shows "\<exists>t. do { u \<leftarrow> exit_notify stride_sched_class e s; schedule stride_sched_class u } = Some t \<and> current t \<noteq> c \<and>
    state (procs t c) = PROC_ZOMBIE \<and> exit_code (procs t c) = e \<and> cptr (procs t c) = None \<and> kids t i (rev cs @ ds) \<and>
    (wait_state (procs s par) = WT_CHILD \<longrightarrow> state (procs t par) = PROC_RUNNABLE) \<and>
    ((\<exists>z \<in> set cs. state (procs s z) = PROC_ZOMBIE) \<longrightarrow> wait_state (procs s i) = WT_CHILD \<longrightarrow> state (procs t i) = PROC_RUNNABLE) \<and>
    (\<forall>q. q \<notin> {c, par, i} \<longrightarrow> state (procs t q) = state (procs s q)) \<and>
    sched_inv stride_rq (\<lambda>x. lab6_priority x \<noteq> 0) t"
proof -
  obtain u where u: "exit_notify stride_sched_class e s = Some u" "sched_inv stride_rq (\<lambda>x. lab6_priority x \<noteq> 0) u"
    "state (procs u c) = PROC_ZOMBIE" "exit_code (procs u c) = e" "cptr (procs u c) = None" "kids u i (rev cs @ ds)"
    "wait_state (procs s par) = WT_CHILD \<longrightarrow> state (procs u par) = PROC_RUNNABLE"
    "(\<exists>z \<in> set cs. state (procs s z) = PROC_ZOMBIE) \<longrightarrow> wait_state (procs s i) = WT_CHILD \<longrightarrow> state (procs u i) = PROC_RUNNABLE"
    "\<forall>q. q \<notin> {c, par, i} \<longrightarrow> state (procs u q) = state (procs s q)"
    using stride_exit.exit_notify_ok [OF assms, of e] by blast
  from stride.schedule_ok [OF u(2)] obtain t where t: "schedule stride_sched_class u = Some t"
    "sched_inv stride_rq (\<lambda>x. lab6_priority x \<noteq> 0) t" "state (procs t (current t)) = PROC_RUNNABLE"
    "\<forall>p. state (procs t p) = state (procs u p)" by blast
  note sk = stride_frame.schedule_skel [OF t(1)]
  have "current t \<noteq> c" using t(3,4) u(3) by auto
  then show ?thesis
    using u t kids_skel [OF sk] by (intro exI [of _ t]) (simp add: skel_same_sels [OF sk])
qed

theorem exit_hands_over_witness:
  "\<exists>t. do { u \<leftarrow> exit_notify stride_sched_class 7 ex_life; schedule stride_sched_class u } = Some t \<and>
    kids t 1 [3, 2] \<and> state (procs t 1) = PROC_RUNNABLE"
proof -
  have "parent (procs ex_life 2) = Some 1" "state (procs ex_life 1) = PROC_SLEEPING" "wait_state (procs ex_life 1) = WT_CHILD"
    by (simp_all add: ex_life_sels ex_life_procs_sels)
  with exit_hands_over [OF ex_life_inv, of 2 1 1 "[3]" "[2]" 7] ex_life_kids
  show ?thesis by (auto simp: ex_life_sels)
qed

end
