(* ===== verification/Kmalloc.thy ===== *)
theory Kmalloc
  imports Kern
begin

unbundle bit_operations_syntax

section \<open>The SLOB allocator (kern/mm/kmalloc.c)\<close>

text \<open>
  The memory the allocator writes is a function from the address of an 8-byte cell to its value;
  a \<open>slob_block\<close> at \<open>a\<close> has \<open>units\<close> in the cell \<open>a\<close> and \<open>next\<close> in the cell \<open>a + 8\<close>, a
  \<open>bigblock\<close> has \<open>order\<close>, \<open>pages\<close> and \<open>next\<close> in the cells \<open>a\<close>, \<open>a + 8\<close> and \<open>a + 16\<close>, so
  that the two structures and the memory handed out overlap as they do in the program. Addresses are
  natural numbers: kernel memory ends below \<open>2 ^ 64\<close> and no block runs over its end. The pages come
  from a source with a state of its own, the operations \<open>get\<close> and \<open>put\<close> are arguments.
  \<open>None\<close> is an assertion that fails or a search that does not end.
\<close>

subsection \<open>Data\<close>

record 'p kmem =
  cell :: "nat \<Rightarrow> nat"
  slobfree :: nat
  bigblocks :: nat
  psrc :: 'p

type_synonym 'p page_get = "nat \<Rightarrow> 'p \<Rightarrow> (nat \<times> 'p) option"
type_synonym 'p page_put = "nat \<Rightarrow> nat \<Rightarrow> 'p \<Rightarrow> 'p option"

definition SLOB_UNIT :: nat where "SLOB_UNIT = 16"
definition PAGE_SIZE :: nat where "PAGE_SIZE = 4096"
definition BIGBLOCK_SIZE :: nat where "BIGBLOCK_SIZE = 24"

definition SLOB_UNITS :: "nat \<Rightarrow> nat" where
  "SLOB_UNITS sz = (sz + SLOB_UNIT - 1) div SLOB_UNIT"

definition ALIGN :: "nat \<Rightarrow> nat \<Rightarrow> nat" where
  "ALIGN addr sz = unat ((of_nat addr + of_nat sz - 1 :: 64 word) AND NOT (of_nat sz - 1))"

abbreviation sl_units :: "nat \<Rightarrow> 'p kmem \<Rightarrow> nat" where "sl_units a s \<equiv> cell s a"
abbreviation sl_next :: "nat \<Rightarrow> 'p kmem \<Rightarrow> nat" where "sl_next a s \<equiv> cell s (a + 8)"

definition wr :: "nat \<Rightarrow> nat \<Rightarrow> 'p kmem \<Rightarrow> 'p kmem" where
  "wr a v s = s\<lparr>cell := (cell s)(a := v)\<rparr>"

definition set_units :: "nat \<Rightarrow> nat \<Rightarrow> 'p kmem \<Rightarrow> 'p kmem" where "set_units a v s = wr a v s"
definition set_next :: "nat \<Rightarrow> nat \<Rightarrow> 'p kmem \<Rightarrow> 'p kmem" where "set_next a v s = wr (a + 8) v s"

subsection \<open>Freeing a block\<close>

text \<open>The condition on which the search for the reinsertion point stops at \<open>cur\<close>.\<close>

definition reinsert_at :: "nat \<Rightarrow> nat \<Rightarrow> 'p kmem \<Rightarrow> bool" where
  "reinsert_at b cur s \<longleftrightarrow>
     (b > cur \<and> b < sl_next cur s) \<or> (cur \<ge> sl_next cur s \<and> (b > cur \<or> b < sl_next cur s))"

partial_function (option) reinsert_loop :: "nat \<Rightarrow> nat \<Rightarrow> 'p kmem \<Rightarrow> nat option" where
  "reinsert_loop b cur s =
     (if reinsert_at b cur s then Some cur else reinsert_loop b (sl_next cur s) s)"

declare reinsert_loop.simps [code]

text \<open>The merge with the block after \<open>cur\<close> and the merge with \<open>cur\<close>.\<close>

definition slob_link :: "nat \<Rightarrow> nat \<Rightarrow> 'p kmem \<Rightarrow> 'p kmem" where
  "slob_link b cur s =
     (let s = (if b + SLOB_UNIT * sl_units b s = sl_next cur s
               then let s = set_units b (sl_units b s + sl_units (sl_next cur s) s) s
                    in set_next b (sl_next (sl_next cur s) s) s
               else set_next b (sl_next cur s) s);
          s = (if cur + SLOB_UNIT * sl_units cur s = b
               then let s = set_units cur (sl_units cur s + sl_units b s) s
                    in set_next cur (sl_next b s) s
               else set_next cur b s)
      in s\<lparr>slobfree := cur\<rparr>)"

definition slob_free :: "nat \<Rightarrow> nat \<Rightarrow> 'p kmem \<Rightarrow> 'p kmem option" where
  "slob_free block sz s =
     (if block = 0 then Some s
      else do {
        let s = (if sz \<noteq> 0 then set_units block (SLOB_UNITS sz) s else s);
        cur \<leftarrow> reinsert_loop block (slobfree s) s;
        Some (slob_link block cur s)
      })"

subsection \<open>Taking a block\<close>

text \<open>What happens once the room is found at \<open>cur\<close> behind \<open>prev\<close>, for blocks without alignment.\<close>

definition slob_take :: "nat \<Rightarrow> nat \<Rightarrow> nat \<Rightarrow> 'p kmem \<Rightarrow> nat \<times> 'p kmem" where
  "slob_take units prev cur s =
     (let s = (if sl_units cur s = units then set_next prev (sl_next cur s) s
               else let s = set_next prev (cur + SLOB_UNIT * units) s;
                        s = set_units (sl_next prev s) (sl_units cur s - units) s;
                        s = set_next (sl_next prev s) (sl_next cur s) s
                    in set_units cur units s)
      in (cur, s\<lparr>slobfree := prev\<rparr>))"

text \<open>The head of a block is cut off to align the rest; \<open>delta\<close> is in units.\<close>

definition slob_cut :: "nat \<Rightarrow> nat \<Rightarrow> nat \<Rightarrow> 'p kmem \<Rightarrow> 'p kmem" where
  "slob_cut aligned delta cur s =
     (let s = set_units aligned (sl_units cur s - delta) s;
          s = set_next aligned (sl_next cur s) s;
          s = set_next cur aligned s
      in set_units cur delta s)"

partial_function (option) slob_loop ::
    "'p page_get \<Rightarrow> nat \<Rightarrow> nat \<Rightarrow> nat \<Rightarrow> nat \<Rightarrow> nat \<Rightarrow> 'p kmem \<Rightarrow> (nat \<times> 'p kmem) option" where
  "slob_loop get sz units align prev cur s =
     (let aligned = (if align \<noteq> 0 then ALIGN cur align else 0);
          delta = (if align \<noteq> 0 then (aligned - cur) div SLOB_UNIT else 0)
      in if sl_units cur s \<ge> units + delta
         then if delta \<noteq> 0
              then Some (slob_take units cur aligned (slob_cut aligned delta cur s))
              else Some (slob_take units prev cur s)
         else if cur = slobfree s
         then if sz = PAGE_SIZE then Some (0, s)
              else do {
                (page, p) \<leftarrow> get 0 (psrc s);
                let s = s\<lparr>psrc := p\<rparr>;
                if page = 0 then Some (0, s)
                else do {
                  s \<leftarrow> slob_free page PAGE_SIZE s;
                  slob_loop get sz units align (slobfree s) (sl_next (slobfree s) s) s
                }
              }
         else slob_loop get sz units align cur (sl_next cur s) s)"

declare slob_loop.simps [code]

definition slob_alloc :: "'p page_get \<Rightarrow> nat \<Rightarrow> nat \<Rightarrow> 'p kmem \<Rightarrow> (nat \<times> 'p kmem) option" where
  "slob_alloc get sz align s = do {
     assert_c (sz + SLOB_UNIT < PAGE_SIZE);
     slob_loop get sz (SLOB_UNITS sz) align (slobfree s) (sl_next (slobfree s) s) s
   }"

subsection \<open>kmalloc, kfree and ksize\<close>

function find_order :: "nat \<Rightarrow> nat" where
  "find_order sz = (if sz > 4096 then find_order (sz div 2) + 1 else 0)"
  by auto
termination by (relation "measure id") auto

declare find_order.simps [simp del]

definition bb_order :: "nat \<Rightarrow> 'p kmem \<Rightarrow> nat" where "bb_order b s = cell s b"
definition bb_pages :: "nat \<Rightarrow> 'p kmem \<Rightarrow> nat" where "bb_pages b s = cell s (b + 8)"
definition bb_next :: "nat \<Rightarrow> 'p kmem \<Rightarrow> nat" where "bb_next b s = cell s (b + 16)"

definition kmalloc :: "'p page_get \<Rightarrow> nat \<Rightarrow> 'p kmem \<Rightarrow> (nat \<times> 'p kmem) option" where
  "kmalloc get sz s =
     (if sz < PAGE_SIZE - SLOB_UNIT then do {
        (m, s) \<leftarrow> slob_alloc get (sz + SLOB_UNIT) 0 s;
        Some (if m \<noteq> 0 then m + SLOB_UNIT else 0, s)
      } else do {
        (bb, s) \<leftarrow> slob_alloc get BIGBLOCK_SIZE 0 s;
        if bb = 0 then Some (0, s)
        else do {
          let s = wr bb (find_order sz) s;
          (page, p) \<leftarrow> get (bb_order bb s) (psrc s);
          let s = wr (bb + 8) page (s\<lparr>psrc := p\<rparr>);
          if page \<noteq> 0 then
            (let s = wr (bb + 16) (bigblocks s) s in Some (bb_pages bb s, s\<lparr>bigblocks := bb\<rparr>))
          else do { s \<leftarrow> slob_free bb BIGBLOCK_SIZE s; Some (0, s) }
        }
      })"

text \<open>The search in the list of big blocks: \<open>last\<close> is the cell that points to \<open>bb\<close>, none for the
  variable \<open>bigblocks\<close>. The result is that cell and the block, if one has these pages.\<close>

partial_function (option) bigblock_find ::
    "nat \<Rightarrow> nat option \<Rightarrow> nat \<Rightarrow> 'p kmem \<Rightarrow> (nat option \<times> nat) option option" where
  "bigblock_find block lst bb s =
     (if bb = 0 then Some None
      else if bb_pages bb s = block then Some (Some (lst, bb))
      else bigblock_find block (Some (bb + 16)) (bb_next bb s) s)"

declare bigblock_find.simps [code]

definition bigblock_unlink :: "nat option \<Rightarrow> nat \<Rightarrow> 'p kmem \<Rightarrow> 'p kmem" where
  "bigblock_unlink lst bb s =
     (case lst of None \<Rightarrow> s\<lparr>bigblocks := bb_next bb s\<rparr> | Some c \<Rightarrow> wr c (bb_next bb s) s)"

definition kfree :: "'p page_put \<Rightarrow> nat \<Rightarrow> 'p kmem \<Rightarrow> 'p kmem option" where
  "kfree put block s =
     (if block = 0 then Some s
      else do {
        r \<leftarrow> (if block mod PAGE_SIZE = 0 then bigblock_find block None (bigblocks s) s else Some None);
        case r of
          Some (lst, bb) \<Rightarrow> do {
            let s = bigblock_unlink lst bb s;
            p \<leftarrow> put block (bb_order bb s) (psrc s);
            slob_free bb BIGBLOCK_SIZE (s\<lparr>psrc := p\<rparr>)
          }
        | None \<Rightarrow> slob_free (block - SLOB_UNIT) 0 s
      })"

definition ksize :: "nat \<Rightarrow> 'p kmem \<Rightarrow> nat option" where
  "ksize block s =
     (if block = 0 then Some 0
      else do {
        r \<leftarrow> (if block mod PAGE_SIZE = 0 then bigblock_find block None (bigblocks s) s else Some None);
        Some (case r of
            Some (_, bb) \<Rightarrow> PAGE_SIZE * 2 ^ bb_order bb s
          | None \<Rightarrow> sl_units (block - SLOB_UNIT) s * SLOB_UNIT)
      })"

subsection \<open>The pages of the kernel\<close>

definition slob_get_free_pages :: "swap_manager \<Rightarrow> vm page_get" where
  "slob_get_free_pages sm order v = do {
     (page, v) \<leftarrow> alloc_pages sm (2 ^ order) v;
     case page of
       None \<Rightarrow> Some (0, v)
     | Some p \<Rightarrow> do { kva \<leftarrow> page2kva p v; Some (unat kva, v) }
   }"

definition slob_free_pages :: "vm page_put" where
  "slob_free_pages kva order v = do {
     page \<leftarrow> kva2page (of_nat kva) v;
     free_pages page (2 ^ order) v
   }"

text \<open>The allocator before the first call: the arena alone, one unit that is never handed out.\<close>

definition slob_start :: "nat \<Rightarrow> 'p \<Rightarrow> 'p kmem" where
  "slob_start arena p = \<lparr>cell = (\<lambda>_. 0)(arena := 1, arena + 8 := arena), slobfree = arena, bigblocks = 0, psrc = p\<rparr>"

end
