(* ===== verification/KmallocProps.thy ===== *)
theory KmallocProps
  imports Kmalloc
begin

section \<open>Correctness of the SLOB allocator\<close>

text \<open>
  The free list is a ring of blocks in the order of their addresses, up to the place where it is
  entered. The lemmas on rings and on lists of disjoint blocks come first; then each operation is
  followed on the ring that starts behind \<open>slobfree\<close>.
\<close>

subsection \<open>Rings of addresses\<close>

fun path :: "(nat \<Rightarrow> nat) \<Rightarrow> nat \<Rightarrow> nat list \<Rightarrow> bool" where
  "path nx x [] \<longleftrightarrow> True"
| "path nx x (y # ys) \<longleftrightarrow> nx x = y \<and> path nx y ys"

abbreviation ring :: "(nat \<Rightarrow> nat) \<Rightarrow> nat list \<Rightarrow> bool" where
  "ring nx zs \<equiv> path nx (last zs) zs"

lemma path_append [simp]:
  "path nx x (xs @ ys) \<longleftrightarrow> path nx x xs \<and> path nx (last (x # xs)) ys"
  by (induction xs arbitrary: x) auto

lemma path_cong:
  "path nx x ys \<Longrightarrow> (\<And>y. y \<in> set (butlast (x # ys)) \<Longrightarrow> nx' y = nx y) \<Longrightarrow> path nx' x ys"
  by (induction ys arbitrary: x) (auto split: if_splits)

lemma path_from_last:
  assumes "distinct cs" "cs \<noteq> []" "path nx a cs" "nx' p = hd cs"
    "\<And>x. x \<in> set cs \<Longrightarrow> x \<noteq> last cs \<Longrightarrow> nx' x = nx x"
  shows "path nx' p cs"
proof -
  obtain c cs' where cs: "cs = c # cs'" using assms(2) by (cases cs) auto
  have "distinct (butlast cs @ [last cs])" using assms(1,2) by simp
  then have "y \<in> set cs \<and> y \<noteq> last cs" if "y \<in> set (butlast cs)" for y
    using that by (auto dest: in_set_butlastD)
  then have "\<And>y. y \<in> set (butlast (c # cs')) \<Longrightarrow> nx' y = nx y" using assms(5) unfolding cs by blast
  moreover have "path nx c cs'" using assms(3) unfolding cs by simp
  ultimately have "path nx' c cs'" using path_cong by blast
  then show ?thesis using assms(4) cs by simp
qed

lemma ring_rotate: "ring nx (xs @ ys) \<Longrightarrow> ring nx (ys @ xs)"
  by (cases xs; cases ys) auto

lemma ring_hd: "ring nx (a # cs) \<Longrightarrow> nx (last (a # cs)) = a"
  by simp

subsection \<open>Disjoint blocks in the order of their addresses\<close>

definition blocks_ok :: "(nat \<Rightarrow> nat) \<Rightarrow> nat list \<Rightarrow> bool" where
  "blocks_ok u zs \<longleftrightarrow> sorted_wrt (\<lambda>a b. a + 16 * u a \<le> b) zs \<and> (\<forall>a \<in> set zs. 0 < u a)"

definition ring_ok :: "(nat \<Rightarrow> nat) \<Rightarrow> nat list \<Rightarrow> bool" where
  "ring_ok u zs \<longleftrightarrow> (\<exists>p q. zs = p @ q \<and> blocks_ok u (q @ p))"

definition bytes :: "(nat \<Rightarrow> nat) \<Rightarrow> nat list \<Rightarrow> nat set" where
  "bytes u zs = (\<Union>a \<in> set zs. {a..<a + 16 * u a})"

lemma blocks_ok_append:
  "blocks_ok u (xs @ ys) \<longleftrightarrow> blocks_ok u xs \<and> blocks_ok u ys \<and> (\<forall>x \<in> set xs. \<forall>y \<in> set ys. x + 16 * u x \<le> y)"
  by (auto simp: blocks_ok_def sorted_wrt_append)

lemma blocks_ok_Cons:
  "blocks_ok u (x # ys) \<longleftrightarrow> 0 < u x \<and> blocks_ok u ys \<and> (\<forall>y \<in> set ys. x + 16 * u x \<le> y)"
  by (auto simp: blocks_ok_def)

lemma blocks_ok_Nil [simp]: "blocks_ok u []" by (simp add: blocks_ok_def)

lemmas blocks_simps = blocks_ok_append blocks_ok_Cons

lemma blocks_ok_cong: "blocks_ok u zs \<Longrightarrow> (\<And>a. a \<in> set zs \<Longrightarrow> v a = u a) \<Longrightarrow> blocks_ok v zs"
  by (induction zs) (auto simp: blocks_ok_Cons)

lemma ring_okI: "blocks_ok u (q @ p) \<Longrightarrow> ring_ok u (p @ q)"
  by (auto simp: ring_ok_def)

lemma ring_okI0: "blocks_ok u zs \<Longrightarrow> ring_ok u zs"
  using ring_okI [of u zs "[]"] by simp

lemma ring_ok_cong: "ring_ok u zs \<Longrightarrow> (\<And>a. a \<in> set zs \<Longrightarrow> v a = u a) \<Longrightarrow> ring_ok v zs"
  unfolding ring_ok_def by (metis blocks_ok_cong set_append Un_commute)

lemma ring_ok_rotate:
  assumes "ring_ok u (xs @ ys)"
  shows "ring_ok u (ys @ xs)"
proof -
  from assms obtain p q where "xs @ ys = p @ q" "blocks_ok u (q @ p)" by (auto simp: ring_ok_def)
  then consider us where "xs = p @ us" "us @ ys = q" | us where "xs @ us = p" "ys = us @ q"
    by (auto simp: append_eq_append_conv2)
  then show ?thesis
  proof cases
    case 1
    then show ?thesis using \<open>blocks_ok u (q @ p)\<close> ring_okI [of u us "ys @ p"] by auto
  next
    case 2
    then show ?thesis using \<open>blocks_ok u (q @ p)\<close> ring_okI [of u "q @ xs" us] by auto
  qed
qed

lemma ring_ok_Cons_cases:
  assumes "ring_ok u (a # cs)"
  obtains q p where "cs = p @ q" "blocks_ok u (q @ a # p)"
proof -
  from assms obtain p q where *: "a # cs = p @ q" "blocks_ok u (q @ p)" by (auto simp: ring_ok_def)
  show ?thesis
  proof (cases p)
    case Nil
    then show ?thesis using * that [of cs "[]"] by simp
  next
    case (Cons x p')
    then show ?thesis using * that [of p' q] by simp
  qed
qed

lemma ring_ok_pos: "ring_ok u zs \<Longrightarrow> a \<in> set zs \<Longrightarrow> 0 < u a"
  by (auto simp: ring_ok_def blocks_ok_def)

lemma blocks_ok_apart:
  "blocks_ok u zs \<Longrightarrow> a \<in> set zs \<Longrightarrow> b \<in> set zs \<Longrightarrow> a \<noteq> b \<Longrightarrow> a + 16 * u a \<le> b \<or> b + 16 * u b \<le> a"
  by (induction zs) (auto simp: blocks_ok_Cons)

lemma ring_ok_apart:
  "ring_ok u zs \<Longrightarrow> a \<in> set zs \<Longrightarrow> b \<in> set zs \<Longrightarrow> a \<noteq> b \<Longrightarrow> a + 16 * u a \<le> b \<or> b + 16 * u b \<le> a"
  unfolding ring_ok_def using blocks_ok_apart by (metis set_append Un_commute)

lemma blocks_ok_distinct: "blocks_ok u zs \<Longrightarrow> distinct zs"
  by (induction zs) (fastforce simp: blocks_ok_Cons)+

lemma ring_ok_distinct: "ring_ok u zs \<Longrightarrow> distinct zs"
  by (auto simp: ring_ok_def dest!: blocks_ok_distinct)

lemma ring_ok_remove: "ring_ok u (a # cs) \<Longrightarrow> ring_ok u cs"
  by (erule ring_ok_Cons_cases) (auto simp: blocks_simps intro!: ring_okI)

lemma ring_ok_shrink:
  assumes "ring_ok u (a # cs)" "a \<le> a'" "a' + 16 * v a' \<le> a + 16 * u a" "0 < v a'" "\<And>c. c \<in> set cs \<Longrightarrow> v c = u c"
  shows "ring_ok v (a' # cs)"
proof -
  from assms(1) obtain q p where *: "cs = p @ q" "blocks_ok u (q @ a # p)" by (rule ring_ok_Cons_cases)
  have "blocks_ok v q" "blocks_ok v p"
    using *(2) assms(5) unfolding *(1) by (auto simp: blocks_simps intro: blocks_ok_cong)
  then have "blocks_ok v (q @ a' # p)" using * assms by (fastforce simp: blocks_simps)
  then show ?thesis using *(1) ring_okI [of v q "a' # p"] by simp
qed

lemma ring_ok_merge:
  assumes "ring_ok u (x # y # cs)" "x + 16 * u x = y"
  shows "ring_ok (u(x := u x + u y)) (x # cs)"
proof -
  let ?u = "u(x := u x + u y)"
  have d: "distinct (x # y # cs)" using ring_ok_distinct assms(1) by blast
  from assms(1) obtain q p where *: "y # cs = p @ q" "blocks_ok u (q @ x # p)" by (rule ring_ok_Cons_cases)
  have "0 < u y" using ring_ok_pos [OF assms(1)] by simp
  have "p \<noteq> []"
  proof
    assume "p = []"
    then have "y + 16 * u y \<le> x" using * by (cases q) (auto simp: blocks_simps)
    then show False using assms(2) \<open>0 < u y\<close> by simp
  qed
  then obtain p' where p: "p = y # p'" "cs = p' @ q" using *(1) by (cases p) auto
  have "blocks_ok ?u q" "blocks_ok ?u p'"
    using *(2) d unfolding p by (auto simp: blocks_simps intro: blocks_ok_cong)
  moreover have "\<forall>z \<in> set p'. x + 16 * (u x + u y) \<le> z" using *(2) assms(2) unfolding p by (auto simp: blocks_simps)
  ultimately have "blocks_ok ?u (q @ x # p')" using *(2) d unfolding p by (auto simp: blocks_simps)
  then show ?thesis using ring_okI [of ?u q "x # p'"] p(2) by simp
qed

lemma ring_ok_touch_next:
  assumes "ring_ok u (b # x # xs)" "y \<in> set (x # xs)" "b + 16 * u b = y"
  shows "y = x"
proof -
  from assms(1) obtain q p where *: "x # xs = p @ q" "blocks_ok u (q @ b # p)" by (rule ring_ok_Cons_cases)
  have pos: "0 < u b" "0 < u x" using ring_ok_pos [OF assms(1)] by auto
  have "y \<notin> set q" using *(2) assms(3) pos by (fastforce simp: blocks_simps)
  then have "y \<in> set p" using assms(2) *(1) by (metis Un_iff set_append)
  then obtain p' where p: "p = x # p'" using *(1) by (cases p) auto
  have "y \<in> set p' \<Longrightarrow> x + 16 * u x \<le> y" "b + 16 * u b \<le> x" using *(2) p by (auto simp: blocks_simps)
  then show ?thesis using \<open>y \<in> set p\<close> p assms(3) pos(2) by fastforce
qed

lemma bytes_simps [simp]:
  "bytes u [] = {}" "bytes u (a # zs) = {a..<a + 16 * u a} \<union> bytes u zs"
  "bytes u (xs @ ys) = bytes u xs \<union> bytes u ys"
  by (auto simp: bytes_def)

lemma bytes_cong: "(\<And>a. a \<in> set zs \<Longrightarrow> v a = u a) \<Longrightarrow> bytes v zs = bytes u zs"
  by (simp add: bytes_def)

lemma bytes_header: "a \<in> set zs \<Longrightarrow> 0 < u a \<Longrightarrow> a \<in> bytes u zs \<and> a + 8 \<in> bytes u zs"
  by (auto simp: bytes_def intro!: bexI [of _ a])

lemma bytes_apart:
  "ring_ok u (a # cs) \<Longrightarrow> {a..<a + 16 * u a} \<inter> bytes u cs = {}"
  using ring_ok_apart [of u "a # cs" a] ring_ok_distinct [of u "a # cs"] by (fastforce simp: bytes_def)

subsection \<open>The invariant of the free list\<close>

text \<open>
  \<open>zs\<close> is the ring of the free blocks, entered behind \<open>slobfree\<close>: no block touches the next one, so
  that every free stretch of memory is one block, and the arena keeps its one unit.
\<close>

definition slob_wf :: "nat \<Rightarrow> 'p kmem \<Rightarrow> nat list \<Rightarrow> bool" where
  "slob_wf ar s zs \<longleftrightarrow> zs \<noteq> [] \<and> last zs = slobfree s \<and> ring (\<lambda>a. sl_next a s) zs \<and> ring_ok (cell s) zs \<and>
     (\<forall>a \<in> set zs. \<forall>b \<in> set zs. a + 16 * sl_units a s \<noteq> b) \<and> 0 \<notin> set zs \<and> ar \<in> set zs \<and> sl_units ar s = 1"

lemmas slob_wfI = slob_wf_def [THEN iffD2, OF conjI, OF _ conjI, OF _ _ conjI, OF _ _ _ conjI, OF _ _ _ _ conjI,
  OF _ _ _ _ _ conjI, OF _ _ _ _ _ _ conjI]

abbreviation slob_bytes :: "'p kmem \<Rightarrow> nat list \<Rightarrow> nat set" where
  "slob_bytes s zs \<equiv> bytes (cell s) zs"

lemma wr_sels [simp]:
  "slobfree (wr a v s) = slobfree s" "bigblocks (wr a v s) = bigblocks s" "psrc (wr a v s) = psrc s"
  "cell (wr a v s) = (cell s)(a := v)"
  by (simp_all add: wr_def)

lemma ring_header_apart:
  assumes "ring_ok u zs" "a \<in> set zs" "c \<in> set zs"
  shows "a \<noteq> c + 8" "a \<noteq> c \<Longrightarrow> a + 8 \<noteq> c + 8"
  using ring_ok_apart [OF assms] ring_ok_pos [OF assms(1,2)] ring_ok_pos [OF assms(1,3)] by fastforce+

lemma slob_loop_fit:
  assumes "path (\<lambda>a. sl_next a s) prev (as @ [a])" "slobfree s \<notin> set as"
    "\<forall>c \<in> set as. sl_units c s < units" "units \<le> sl_units a s"
  shows "slob_loop get sz units 0 prev (sl_next prev s) s = Some (slob_take units (last (prev # as)) a s)"
  using assms
proof (induction as arbitrary: prev)
  case Nil
  then show ?case by (subst slob_loop.simps) simp
next
  case (Cons c as)
  then have "sl_next prev s = c" "c \<noteq> slobfree s" "\<not> units \<le> sl_units c s" by auto
  moreover have "slob_loop get sz units 0 c (sl_next c s) s = Some (slob_take units (last (c # as)) a s)"
    by (rule Cons.IH) (use Cons.prems in auto)
  ultimately show ?case by (subst slob_loop.simps) simp
qed

lemma slob_loop_end:
  assumes "path (\<lambda>a. sl_next a s) prev zs" "zs \<noteq> []" "last zs = slobfree s" "distinct zs" "\<forall>c \<in> set zs. sl_units c s < units"
  shows "slob_loop get sz units 0 prev (sl_next prev s) s =
     (if sz = PAGE_SIZE then Some (0, s)
      else do {
        (page, p) \<leftarrow> get 0 (psrc s);
        let s = s\<lparr>psrc := p\<rparr>;
        if page = 0 then Some (0, s)
        else do {
          s \<leftarrow> slob_free page PAGE_SIZE s;
          slob_loop get sz units 0 (slobfree s) (sl_next (slobfree s) s) s
        }
      })"
  using assms
proof (induction zs arbitrary: prev)
  case (Cons c zs)
  show ?case
  proof (cases zs)
    case Nil
    then show ?thesis using Cons.prems by (subst slob_loop.simps) (simp add: Let_def)
  next
    case (Cons d ds)
    then have ne: "zs \<noteq> []" by simp
    have prems: "path (\<lambda>a. sl_next a s) c zs" "zs \<noteq> []" "last zs = slobfree s" "distinct zs"
      "\<forall>c \<in> set zs. sl_units c s < units" using Cons.prems ne by simp_all
    have "c \<notin> set zs" "last zs \<in> set zs" using Cons.prems(4) ne by simp_all
    then have c: "c \<noteq> slobfree s" "sl_next prev s = c" "\<not> units \<le> sl_units c s"
      using Cons.prems(1,5) prems(3) by auto
    have "slob_loop get sz units 0 prev (sl_next prev s) s = slob_loop get sz units 0 c (sl_next c s) s"
      using c by (subst slob_loop.simps) simp
    then show ?thesis using Cons.IH [OF prems] by (simp only:)
  qed
qed simp

text \<open>The arena is never handed out for a request of two units or more, so the ring does not run empty.\<close>

lemma slob_take_ok:
  assumes wf: "slob_wf ar s (as @ a # bs)" and fit: "units \<le> sl_units a s" "2 \<le> units"
  obtains t where "slob_take units (last (slobfree s # as)) a s = (a, t)" "psrc t = psrc s" "bigblocks t = bigblocks s"
    "\<exists>ys. slob_wf ar t ys \<and> slob_bytes t ys = slob_bytes s (as @ a # bs) - {a..<a + 16 * units}"
    "sl_units a t = units" "{a..<a + 16 * units} \<subseteq> slob_bytes s (as @ a # bs)"
    "\<forall>x. x \<notin> slob_bytes s (as @ a # bs) \<longrightarrow> cell t x = cell s x"
proof -
  let ?zs = "as @ a # bs"
  define cs where "cs = bs @ as"
  let ?u = "cell s" and ?nx = "\<lambda>a. sl_next a s"
  define prev where "prev = last (slobfree s # as)"
  from wf have "ring ?nx ?zs" "ring_ok ?u ?zs" unfolding slob_wf_def by blast+
  then have rg: "ring ?nx (a # cs)" and ro: "ring_ok ?u (a # cs)"
    using ring_rotate [of ?nx as "a # bs"] ring_ok_rotate [of ?u as "a # bs"] by (simp_all only: append_Cons cs_def)
  have st: "set ?zs = set (a # cs)" "slob_bytes s ?zs = slob_bytes s (a # cs)" by (auto simp: cs_def)
  from wf have nt: "\<forall>x \<in> set (a # cs). \<forall>y \<in> set (a # cs). x + 16 * ?u x \<noteq> y" "0 \<notin> set (a # cs)"
    "ar \<in> set (a # cs)" "?u ar = 1" "last ?zs = slobfree s" unfolding st(1) [symmetric] using wf unfolding slob_wf_def by blast+
  have ne: "cs \<noteq> []" and ar: "ar \<in> set cs" using nt(3,4) fit by auto
  have prev: "prev = last cs" using nt(5) ne by (cases as rule: rev_cases) (auto simp: prev_def cs_def split: if_splits)
  then have pin: "prev \<in> set cs" using ne last_in_set by metis
  note d = ring_ok_distinct [OF ro]
  have ap: "\<And>c. c \<in> set cs \<Longrightarrow> a + 16 * ?u a \<le> c \<or> c + 16 * ?u c \<le> a" using ring_ok_apart [OF ro] d by auto
  have pos: "\<And>c. c \<in> set cs \<Longrightarrow> 0 < ?u c" using ring_ok_pos [OF ro] by auto
  have rga: "?nx prev = a" "path ?nx a cs" using rg ne prev by auto
  obtain c cs' where cc: "cs = c # cs'" using ne by (cases cs) auto
  show ?thesis
  proof (cases "?u a = units")
    case True
    define t where "t = (set_next prev (?nx a) s)\<lparr>slobfree := prev\<rparr>"
    have run: "slob_take units prev a s = (a, t)" using True by (simp add: slob_take_def t_def)
    have tc: "cell t = ?u(prev + 8 := ?nx a)" by (simp add: t_def set_next_def)
    have out: "prev + 8 \<noteq> x" if "x \<in> set (a # cs)" for x
      using ring_header_apart [OF ro that, of prev] pin by auto
    have same: "\<And>x. x \<in> set cs \<Longrightarrow> cell t x = ?u x" using out by (auto simp: tc)
    have "path (\<lambda>x. cell t (x + 8)) prev cs"
      by (rule path_from_last [OF _ ne rga(2)]) (use d ne rga(2) cc prev in \<open>auto simp: tc\<close>)
    moreover have "ring_ok (cell t) cs" using ring_ok_cong [OF ring_ok_remove [OF ro] same] .
    ultimately have "slob_wf ar t cs"
      using ne prev same nt ar by (intro slob_wfI) (auto simp: t_def set_next_def)
    moreover have "slob_bytes t cs = slob_bytes s ?zs - {a..<a + 16 * units}"
      using bytes_cong [OF same, of cs] bytes_apart [OF ro] True unfolding st(2) by auto
    ultimately have "\<exists>ys. slob_wf ar t ys \<and> slob_bytes t ys = slob_bytes s ?zs - {a..<a + 16 * units}" by blast
    moreover have "cell t a = units" using out [of a] True by (simp add: tc)
    moreover have "x \<notin> slob_bytes s ?zs \<Longrightarrow> cell t x = ?u x" for x
      using bytes_header [of prev "a # cs" ?u] pin pos unfolding st(2) tc by (cases "x = prev + 8") auto
    moreover have "{a..<a + 16 * units} \<subseteq> slob_bytes s ?zs" using True by auto
    moreover have "psrc t = psrc s" "bigblocks t = bigblocks s" by (simp_all add: t_def set_next_def)
    ultimately show ?thesis using that [OF run [unfolded prev_def]] by blast
  next
    case False
    define r where "r = a + 16 * units"
    define t where "t = snd (slob_take units prev a s)"
    have lt: "units < ?u a" using False fit by simp
    have apr: "r + 16 * (?u a - units) = a + 16 * ?u a" using lt by (simp add: r_def)
    have rc: "r \<notin> set (a # cs)" "r + 8 \<notin> set (a # cs)" "\<And>x. x \<in> set cs \<Longrightarrow> r \<noteq> x + 8 \<and> r + 8 \<noteq> x + 8"
      using ap pos lt fit by (fastforce simp: r_def)+
    have out: "\<And>x. x \<in> set (a # cs) \<Longrightarrow> prev + 8 \<noteq> x"
      using ring_header_apart [OF ro _, of _ prev] pin by auto
    have pr: "prev \<noteq> a" using pin d by auto
    have run: "slob_take units prev a s = (a, t)" by (simp add: t_def slob_take_def)
    have tc: "cell t = ?u(prev + 8 := r, r := ?u a - units, r + 8 := ?nx a, a := units)"
      using False out [of a] rc(3) [OF pin] pr lt fit
      by (simp add: t_def slob_take_def set_next_def set_units_def SLOB_UNIT_def r_def Let_def)
    have tf: "slobfree t = prev" "psrc t = psrc s" "bigblocks t = bigblocks s"
      using False by (simp_all add: t_def slob_take_def set_next_def set_units_def Let_def)
    have same: "\<And>x. x \<in> set cs \<Longrightarrow> cell t x = ?u x" using out rc d by (auto simp: tc)
    have ur: "cell t r = ?u a - units" using rc lt fit by (simp add: tc r_def)
    have "ring_ok (cell t) (r # cs)"
      by (rule ring_ok_shrink [OF ro]) (use same ur apr lt in \<open>auto simp: r_def\<close>)
    moreover have "path (\<lambda>x. cell t (x + 8)) prev (r # cs)"
    proof -
      have "prev + 8 \<noteq> a" "prev + 8 \<noteq> r" using out [of a] rc(3) [OF pin] by auto
      moreover have "a \<noteq> x + 8" if "x \<in> set cs" for x
        using ring_header_apart(1) [OF ro, of a x] that by simp
      moreover have "?nx a = hd cs" using rga(2) cc by simp
      ultimately have "path (\<lambda>x. cell t (x + 8)) r cs"
        using d rc prev by (intro path_from_last [OF _ ne rga(2)]) (auto simp: tc)
      then show ?thesis using \<open>prev + 8 \<noteq> r\<close> \<open>prev + 8 \<noteq> a\<close> rc(3) [OF pin] by (simp add: tc)
    qed
    moreover have "\<forall>x \<in> set (r # cs). \<forall>y \<in> set (r # cs). x + 16 * cell t x \<noteq> y"
    proof -
      have "x + 16 * ?u x \<noteq> r" if "x \<in> set cs" for x
        using ap [OF that] lt fit by (auto simp: r_def)
      moreover have "a + 16 * ?u a \<notin> set (a # cs)" using nt(1) by auto
      moreover have "a + 16 * ?u a \<noteq> r" using lt by (simp add: r_def)
      ultimately show ?thesis using nt(1) same ur apr by auto
    qed
    ultimately have "slob_wf ar t (r # cs)"
      using ne prev same nt ar tf by (intro slob_wfI) (auto simp: r_def)
    moreover have "slob_bytes t (r # cs) = slob_bytes s ?zs - {a..<a + 16 * units}"
      using bytes_cong [OF same, of cs] bytes_apart [OF ro] ur apr lt unfolding st(2) disjoint_iff
      by (auto simp: r_def)
    ultimately have "\<exists>ys. slob_wf ar t ys \<and> slob_bytes t ys = slob_bytes s ?zs - {a..<a + 16 * units}" by blast
    moreover have "cell t a = units" by (simp add: tc)
    moreover have "x \<notin> slob_bytes s ?zs \<Longrightarrow> cell t x = ?u x" for x
      using bytes_header [of prev "a # cs" ?u] pin pos lt fit unfolding st(2) tc
      by (cases "x = prev + 8") (auto simp: r_def)
    moreover have "{a..<a + 16 * units} \<subseteq> slob_bytes s ?zs" using lt by auto
    ultimately show ?thesis using that [OF run [unfolded prev_def]] tf by blast
  qed
qed

subsection \<open>Giving a block back\<close>

lemma reinsert_loop_finds:
  assumes "path (\<lambda>a. sl_next a s) cur ys" "\<exists>c \<in> set (cur # ys). reinsert_at b c s"
  shows "\<exists>c \<in> set (cur # ys). reinsert_loop b cur s = Some c \<and> reinsert_at b c s"
  using assms
proof (induction ys arbitrary: cur)
  case Nil
  then show ?case by (subst reinsert_loop.simps) simp
next
  case (Cons y ys)
  show ?case
  proof (cases "reinsert_at b cur s")
    case True
    then show ?thesis by (subst reinsert_loop.simps) simp
  next
    case False
    then have "\<exists>c \<in> set (y # ys). reinsert_loop b y s = Some c \<and> reinsert_at b c s"
      using Cons.IH [of y] Cons.prems by auto
    moreover have "reinsert_loop b cur s = reinsert_loop b y s"
      using False Cons.prems by (subst reinsert_loop.simps) simp
    ultimately show ?thesis by auto
  qed
qed

text \<open>Around a sorted ring there is a place for every address outside it.\<close>

lemma ring_place:
  assumes "sorted_wrt (<) L" "L \<noteq> []" "ring nx L" "b \<notin> set L"
  shows "\<exists>c \<in> set L. (c < b \<and> b < nx c) \<or> (nx c \<le> c \<and> (c < b \<or> b < nx c))"
proof -
  define l1 where "l1 = takeWhile (\<lambda>x. x < b) L"
  define l2 where "l2 = dropWhile (\<lambda>x. x < b) L"
  have L: "L = l1 @ l2" by (simp add: l1_def l2_def)
  have l1: "\<forall>x \<in> set l1. x < b" by (auto simp: l1_def dest: set_takeWhileD)
  have l2: "b < hd l2" if "l2 \<noteq> []"
    using hd_dropWhile [of "\<lambda>x. x < b" L] that assms(4) hd_in_set [OF that] unfolding L
    by (metis Un_iff l2_def linorder_neqE_nat set_append L)
  have hl: "nx (last L) = hd L" using assms(2,3) by (cases L) auto
  have le: "hd L \<le> last L" using assms(1,2) by (cases L) (auto simp: less_imp_le)
  show ?thesis
  proof (cases "l1 = [] \<or> l2 = []")
    case True
    then have "last L < b \<or> b < nx (last L)" using l1 l2 L assms(2) hl by (metis append_Nil append_Nil2 last_in_set)
    then show ?thesis using hl le assms(2) by (intro bexI [of _ "last L"]) auto
  next
    case False
    then have "nx (last l1) = hd l2" using assms(3) unfolding L by (cases l2) auto
    then show ?thesis using False l1 l2 unfolding L by (intro bexI [of _ "last l1"]) auto
  qed
qed

lemma blocks_ok_sorted: "blocks_ok u zs \<Longrightarrow> sorted_wrt (<) zs"
  by (induction zs) (fastforce simp: blocks_ok_Cons)+

text \<open>Where the search stops, the block fits into the order of the ring.\<close>

lemma ring_ok_insert:
  assumes ro: "ring_ok u (R @ [c])" and nb: "0 < u b" "{b..<b + 16 * u b} \<inter> bytes u (R @ [c]) = {}"
    and at: "(c < b \<and> b < hd (R @ [c])) \<or> (hd (R @ [c]) \<le> c \<and> (c < b \<or> b < hd (R @ [c])))"
  shows "ring_ok u (b # R @ [c])"
proof -
  let ?L = "R @ [c]"
  have ap: "x + 16 * u x \<le> b" if "x < b" "x \<in> set ?L" for x
  proof (rule ccontr)
    assume "\<not> x + 16 * u x \<le> b"
    then have "b \<in> bytes u ?L" using that unfolding bytes_def by (intro UN_I [of x]) simp_all
    moreover have "b \<in> {b..<b + 16 * u b}" using nb(1) by simp
    ultimately show False using nb(2) by blast
  qed
  have ap2: "b + 16 * u b \<le> x" if "b < x" "x \<in> set ?L" for x
  proof (rule ccontr)
    assume "\<not> b + 16 * u b \<le> x"
    moreover have "x \<in> bytes u ?L" using that ring_ok_pos [OF ro that(2)] by (auto simp: bytes_def)
    moreover have "x \<in> {b..<b + 16 * u b}" using that \<open>\<not> b + 16 * u b \<le> x\<close> by simp
    ultimately show False using nb(2) by blast
  qed
  have sorted: "ring_ok u (b # ?L)" if bl: "blocks_ok u ?L"
  proof -
    have "hd ?L \<le> c" "\<forall>x \<in> set ?L. x \<le> c \<and> hd ?L \<le> x"
      using blocks_ok_sorted [OF bl] by (cases R; fastforce simp: sorted_wrt_append)+
    then consider "\<forall>x \<in> set ?L. x < b" | "\<forall>x \<in> set ?L. b < x" using at by fastforce
    then show ?thesis
    proof cases
      case 1
      then have "blocks_ok u (?L @ [b])" using bl ap nb(1) by (auto simp: blocks_simps)
      then show ?thesis using ring_okI [of u ?L "[b]"] by simp
    next
      case 2
      then have "blocks_ok u (b # ?L)" using bl ap2 nb(1) by (auto simp: blocks_simps)
      then show ?thesis by (rule ring_okI0)
    qed
  qed
  from ro obtain p q where pq: "?L = p @ q" "blocks_ok u (q @ p)" by (auto simp: ring_ok_def)
  show ?thesis
  proof (cases "p = [] \<or> q = []")
    case True
    then show ?thesis using sorted pq by auto
  next
    case False
    then have c: "last q = c" "c \<in> set q" and h: "hd ?L = hd p" "hd p \<in> set p"
      using pq(1) by (metis last_append last_snoc, metis False last_append last_in_set last_snoc,
          metis hd_append2, simp)
    have so: "sorted_wrt (<) (q @ p)" using pq(2) by (rule blocks_ok_sorted)
    then have "c < hd p" using c h by (auto simp: sorted_wrt_append)
    then have b: "c < b" "b < hd p" using at h by auto
    have "\<forall>x \<in> set q. x \<le> c"
    proof -
      have "q = butlast q @ [c]" using c False by (metis append_butlast_last_id)
      then show ?thesis using so by (metis (no_types, lifting) in_set_conv_decomp le_eq_less_or_eq set_ConsD
            set_append sorted_wrt_append Un_iff empty_iff list.set(1))
    qed
    then have "\<forall>x \<in> set q. x < b" using b by auto
    moreover have "\<forall>x \<in> set p. b < x" using so b by (cases p) (auto simp: sorted_wrt_append)
    ultimately have "blocks_ok u (q @ b # p)"
      using pq ap ap2 nb(1) by (auto simp: blocks_simps)
    then show ?thesis using ring_okI [of u q "b # p"] pq(1) by simp
  qed
qed

text \<open>
  In between the two merges of \<open>slob_link\<close>: the ring goes from \<open>b\<close> to \<open>c\<close>, and only \<open>c\<close> may touch
  the next block, which is \<open>b\<close>.
\<close>

definition half_linked :: "nat \<Rightarrow> nat \<Rightarrow> nat \<Rightarrow> 'p kmem \<Rightarrow> nat list \<Rightarrow> bool" where
  "half_linked ar b c s R \<longleftrightarrow> path (\<lambda>a. sl_next a s) b (R @ [c]) \<and> ring_ok (cell s) (b # R @ [c]) \<and>
     (\<forall>x \<in> set (b # R @ [c]). \<forall>y \<in> set (b # R @ [c]). x + 16 * sl_units x s = y \<longrightarrow> x = c \<and> y = b) \<and>
     0 \<notin> set (b # R @ [c]) \<and> ar \<in> set (R @ [c]) \<and> sl_units ar s = 1"

lemma ring_ok_touch_prev:
  assumes ro: "ring_ok u (b # R @ [c])" and x: "x \<in> set (R @ [c])" "x + 16 * u x = b"
  shows "x = c"
proof (rule ccontr)
  assume "x \<noteq> c"
  then obtain r1 y r2 where R: "R @ [c] = r1 @ x # y # r2"
    using x(1) by (metis split_list append_Cons append_Nil last_snoc list.exhaust last.simps)
  have "ring_ok u ((b # r1) @ x # y # r2)" using ro unfolding R by simp
  then have "ring_ok u (x # y # r2 @ b # r1)" using ring_ok_rotate [of u "b # r1"] by fastforce
  then have "b = y" using ring_ok_touch_next [of u x y "r2 @ b # r1" b] x(2) by auto
  moreover have "distinct (b # r1 @ x # y # r2)" using ring_ok_distinct [OF ro] unfolding R by simp
  ultimately show False by simp
qed

lemma join_next:
  assumes rg: "ring (\<lambda>a. sl_next a s) (R @ [c])" and ro: "ring_ok (cell s) (b # R @ [c])"
    and nt: "\<forall>x \<in> set (R @ [c]). \<forall>y \<in> set (R @ [c]). x + 16 * sl_units x s \<noteq> y"
    and z: "0 \<notin> set (b # R @ [c])" and ar: "ar \<in> set (R @ [c])" "sl_units ar s = 1" "b + 16 * sl_units b s \<noteq> ar"
    and n: "n = sl_next c s"
    and t: "t = (if b + SLOB_UNIT * sl_units b s = n
               then set_next b (sl_next n s) (set_units b (sl_units b s + sl_units n s) s) else set_next b n s)"
  shows "\<exists>R'. half_linked ar b c t R' \<and> slob_bytes t (b # R' @ [c]) = slob_bytes s (b # R @ [c])"
proof -
  let ?u = "cell s"
  note d = ring_ok_distinct [OF ro]
  have out: "x \<noteq> b + 8" if "x \<in> set (b # R @ [c])" for x using ring_header_apart(1) [OF ro that, of b] by auto
  have out8: "x + 8 \<noteq> b" if "x \<in> set (b # R @ [c])" for x using ring_header_apart(1) [OF ro _ that, of b] by auto
  have hd: "n = hd (R @ [c])" using rg n by (cases R) auto
  have bx: "x + 16 * ?u x = b \<Longrightarrow> x \<in> set (R @ [c]) \<Longrightarrow> x = c" for x
    using ring_ok_touch_prev [OF ro] by blast
  have bn: "b + 16 * ?u b \<in> set (R @ [c]) \<Longrightarrow> b + 16 * ?u b = n"
    using ring_ok_touch_next [of ?u b n "tl (R @ [c])" "b + 16 * ?u b"] ro hd by (cases R) auto
  have pos: "0 < ?u b" using ring_ok_pos [OF ro] by simp
  have ch: "path (\<lambda>a. sl_next a s) n (tl (R @ [c]))" using rg hd by (cases R) auto
  show ?thesis
  proof (cases "b + 16 * ?u b = n")
    case False
    then have tc: "cell t = ?u(b + 8 := n)" by (simp add: t set_next_def SLOB_UNIT_def)
    have same: "cell t x = ?u x" if "x \<in> set (b # R @ [c])" for x using out that by (simp add: tc)
    have "path (\<lambda>a. cell t (a + 8)) n (tl (R @ [c]))"
      using d hd by (intro path_cong [OF ch]) (cases R; auto simp: tc dest: in_set_butlastD split: if_splits)
    then have "path (\<lambda>a. cell t (a + 8)) b (R @ [c])" using hd by (cases R) (auto simp: tc)
    moreover have "x = c \<and> y = b" if "x \<in> set (b # R @ [c])" "y \<in> set (b # R @ [c])" "x + 16 * cell t x = y" for x y
    proof -
      have "x + 16 * ?u x = y" using same [OF that(1)] that(3) by simp
      then show ?thesis using that(1,2) nt bx bn False pos by fastforce
    qed
    moreover have "cell t ar = 1" using same [of ar] ar(1,2) by simp
    moreover have "ring_ok (cell t) (b # R @ [c])" using ring_ok_cong [OF ro same] .
    ultimately have "half_linked ar b c t R" using z ar(1) unfolding half_linked_def by blast
    then show ?thesis using bytes_cong [of "b # R @ [c]" "cell t" ?u] same by blast
  next
    case True
    then have "n \<noteq> ar" using ar(3) by simp
    have "R \<noteq> []"
    proof
      assume "R = []"
      then show False using hd ar \<open>n \<noteq> ar\<close> by simp
    qed
    then obtain R' where R: "R = n # R'" using hd by (cases R) auto
    have tc: "cell t = ?u(b := ?u b + ?u n, b + 8 := sl_next n s)"
      using True out8 [of n] R by (simp add: t set_next_def set_units_def SLOB_UNIT_def)
    have same: "cell t x = ?u x" if "x \<in> set (R' @ [c])" for x using out that d by (auto simp: tc R)
    have tb: "cell t b = ?u b + ?u n" by (simp add: tc)
    have "ring_ok (?u(b := ?u b + ?u n)) (b # R' @ [c])" using ring_ok_merge [of ?u b n] ro True by (simp add: R)
    then have "ring_ok (cell t) (b # R' @ [c])" by (rule ring_ok_cong) (use same tb d in \<open>auto simp: R\<close>)
    moreover have "path (\<lambda>a. cell t (a + 8)) b (R' @ [c])"
    proof -
      have cn: "path (\<lambda>a. sl_next a s) n (R' @ [c])" using ch R by simp
      then have "sl_next n s = hd (R' @ [c])" by (cases R') simp_all
      then have "cell t (b + 8) = hd (R' @ [c])" by (simp add: tc)
      moreover have "cell t (x + 8) = sl_next x s" if "x \<in> set (R' @ [c])" for x
        using that d out8 [of x] by (auto simp: tc R)
      moreover have "distinct (R' @ [c])" using d by (simp add: R)
      ultimately show ?thesis using path_from_last [OF _ _ cn, of "\<lambda>a. cell t (a + 8)"] by blast
    qed
    moreover have "x = c \<and> y = b" if "x \<in> set (b # R' @ [c])" "y \<in> set (b # R' @ [c])" "x + 16 * cell t x = y" for x y
    proof (cases "x = b")
      case xb: True
      then have "n + 16 * ?u n = y" using that(3) tb True by simp
      then have "y = b" using nt that(2) by (auto simp: R)
      then show ?thesis using xb that(3) tb pos by simp
    next
      case False
      then have x: "x \<in> set (R' @ [c])" using that(1) by simp
      then have e: "x + 16 * ?u x = y" using that(3) same by simp
      have xin: "x \<in> set (R @ [c])" using x by (auto simp: R)
      then have "y \<notin> set (R @ [c])" using nt e by blast
      then have "y = b" using that(2) by (auto simp: R)
      then show ?thesis using bx [of x] e xin by blast
    qed
    moreover have "ar \<in> set (R' @ [c])" using ar(1) \<open>n \<noteq> ar\<close> R by auto
    moreover from this have "cell t ar = 1" using same ar(2) by metis
    moreover have "0 \<notin> set (b # R' @ [c])" using z by (simp add: R)
    ultimately have "half_linked ar b c t R'" unfolding half_linked_def by blast
    moreover have "slob_bytes t (b # R' @ [c]) = slob_bytes s (b # R @ [c])"
      using bytes_cong [of "R' @ [c]" "cell t" ?u] same tb True by (auto simp: R)
    ultimately show ?thesis by blast
  qed
qed

lemma join_prev:
  assumes h: "half_linked ar b c s R" and ar: "b \<noteq> ar" "ar + 16 \<noteq> b"
    and t: "t = (if c + SLOB_UNIT * sl_units c s = b
               then set_next c (sl_next b s) (set_units c (sl_units c s + sl_units b s) s)
               else set_next c b s)"
  shows "\<exists>zs. slob_wf ar (t\<lparr>slobfree := c\<rparr>) zs \<and> slob_bytes t zs = slob_bytes s (b # R @ [c])"
proof -
  let ?u = "cell s"
  from h have ch: "path (\<lambda>a. sl_next a s) b (R @ [c])" and ro: "ring_ok ?u (b # R @ [c])"
    and nt: "\<And>x y. x \<in> set (b # R @ [c]) \<Longrightarrow> y \<in> set (b # R @ [c]) \<Longrightarrow> x + 16 * ?u x = y \<Longrightarrow> x = c \<and> y = b"
    and z: "0 \<notin> set (b # R @ [c])" and a: "ar \<in> set (R @ [c])" "?u ar = 1" unfolding half_linked_def by blast+
  note d = ring_ok_distinct [OF ro]
  have out: "x \<noteq> c + 8" if "x \<in> set (b # R @ [c])" for x using ring_header_apart(1) [OF ro that, of c] by auto
  have out8: "x + 8 \<noteq> c" if "x \<in> set (b # R @ [c])" for x using ring_header_apart(1) [OF ro _ that, of c] by auto
  show ?thesis
  proof (cases "c + 16 * ?u c = b")
    case False
    then have tc: "cell t = ?u(c + 8 := b)" by (simp add: t set_next_def SLOB_UNIT_def)
    have same: "cell t x = ?u x" if "x \<in> set (b # R @ [c])" for x using out that by (simp add: tc)
    have "ring (\<lambda>x. cell t (x + 8)) (b # R @ [c])"
    proof -
      have "cell t (x + 8) = sl_next x s" if "x \<in> set (b # R)" for x using that d by (auto simp: tc)
      then have "path (\<lambda>x. cell t (x + 8)) b (R @ [c])"
        by (intro path_cong [OF ch]) (auto simp: butlast_append dest: in_set_butlastD)
      then show ?thesis by (simp add: tc)
    qed
    moreover have "\<forall>x \<in> set (b # R @ [c]). \<forall>y \<in> set (b # R @ [c]). x + 16 * cell t x \<noteq> y"
      using same nt False by metis
    moreover have "cell t ar = 1" using same [of ar] a by simp
    moreover have "ring_ok (cell t) (b # R @ [c])" using ring_ok_cong [OF ro same] .
    ultimately have "slob_wf ar (t\<lparr>slobfree := c\<rparr>) (b # R @ [c])"
      using z a(1) by (intro slob_wfI) simp_all
    then show ?thesis using bytes_cong [of "b # R @ [c]" "cell t" ?u] same by blast
  next
    case True
    then have "c \<noteq> ar" using ar(2) a(2) by auto
    have tc: "cell t = ?u(c := ?u c + ?u b, c + 8 := sl_next b s)"
      using True out8 [of b] by (simp add: t set_next_def set_units_def SLOB_UNIT_def)
    have same: "cell t x = ?u x" if "x \<in> set (b # R)" for x using out [of x] that d by (auto simp: tc)
    have uc: "cell t c = ?u c + ?u b" by (simp add: tc)
    have "ring_ok ?u (c # b # R)" using ring_ok_rotate [of ?u "b # R" "[c]"] ro by simp
    then have "ring_ok (?u(c := ?u c + ?u b)) (c # R)" using True by (rule ring_ok_merge)
    then have "ring_ok (?u(c := ?u c + ?u b)) (R @ [c])" using ring_ok_rotate [of _ "[c]" R] by simp
    then have "ring_ok (cell t) (R @ [c])" by (rule ring_ok_cong) (use same uc d in auto)
    moreover have "ring (\<lambda>x. cell t (x + 8)) (R @ [c])"
    proof -
      have "sl_next b s = hd (R @ [c])" using ch by (cases R) simp_all
      then have "cell t (c + 8) = hd (R @ [c])" by (simp add: tc)
      moreover have "cell t (x + 8) = sl_next x s" if "x \<in> set (R @ [c])" "x \<noteq> last (R @ [c])" for x
        using that out8 [of x] by (auto simp: tc)
      moreover have "distinct (R @ [c])" using d by simp
      ultimately show ?thesis using path_from_last [OF _ _ ch, of "\<lambda>x. cell t (x + 8)" c]
        unfolding last_snoc by blast
    qed
    moreover have "x + 16 * cell t x \<noteq> y" if "x \<in> set (R @ [c])" "y \<in> set (R @ [c])" for x y
    proof (cases "x = c")
      case xc: True
      have "b \<noteq> c" using d by simp
      then have "b + 16 * ?u b \<noteq> y" using nt [of b y] that(2) by (meson list.set_intros)
      moreover have "c + 16 * (?u c + ?u b) = (c + 16 * ?u c) + 16 * ?u b" by simp
      then have "c + 16 * (?u c + ?u b) = b + 16 * ?u b" by (simp only: True)
      ultimately show ?thesis unfolding xc uc by simp
    next
      case False
      then have "x + 16 * ?u x \<noteq> y" using nt [of x y] that by auto
      then show ?thesis using False that same by simp
    qed
    moreover have "cell t ar = 1" using same [of ar] a \<open>c \<noteq> ar\<close> by auto
    ultimately have "slob_wf ar (t\<lparr>slobfree := c\<rparr>) (R @ [c])"
      using z a(1) by (intro slob_wfI) simp_all
    moreover have "slob_bytes t (R @ [c]) = slob_bytes s (b # R @ [c])"
      using bytes_cong [of R "cell t" ?u] same uc True by auto
    ultimately show ?thesis by blast
  qed
qed

lemma slob_link_ok:
  assumes wf: "slob_wf ar s (as @ c # bs)" and b: "b \<noteq> 0" "0 < sl_units b s"
    "{b..<b + 16 * sl_units b s} \<inter> slob_bytes s (as @ c # bs) = {}"
    and ar: "ar + 16 \<noteq> b" "b + 16 * sl_units b s \<noteq> ar" and at: "reinsert_at b c s"
  shows "\<exists>zs. slob_wf ar (slob_link b c s) zs \<and>
     slob_bytes (slob_link b c s) zs = slob_bytes s (as @ c # bs) \<union> {b..<b + 16 * sl_units b s}"
proof -
  let ?R = "bs @ as" and ?n = "sl_next c s"
  let ?s1 = "if b + SLOB_UNIT * sl_units b s = ?n
     then set_next b (sl_next ?n s) (set_units b (sl_units b s + sl_units ?n s) s) else set_next b ?n s"
  let ?s2 = "if c + SLOB_UNIT * sl_units c ?s1 = b
     then set_next c (sl_next b ?s1) (set_units c (sl_units c ?s1 + sl_units b ?s1) ?s1) else set_next c b ?s1"
  have eq: "set (as @ c # bs) = set (?R @ [c])" "slob_bytes s (as @ c # bs) = slob_bytes s (?R @ [c])" by auto
  have "as @ c # bs = (as @ [c]) @ bs" by simp
  with wf have "ring (\<lambda>a. sl_next a s) ((as @ [c]) @ bs)" "ring_ok (cell s) ((as @ [c]) @ bs)"
    unfolding slob_wf_def by metis+
  then have rg: "ring (\<lambda>a. sl_next a s) (?R @ [c])" and ro: "ring_ok (cell s) (?R @ [c])"
    using ring_rotate [of _ "as @ [c]" bs] ring_ok_rotate [of _ "as @ [c]" bs] by (simp_all only: append_assoc)
  from wf have nt: "\<forall>x \<in> set (?R @ [c]). \<forall>y \<in> set (?R @ [c]). x + 16 * sl_units x s \<noteq> y" "0 \<notin> set (?R @ [c])"
    "ar \<in> set (?R @ [c])" "sl_units ar s = 1" unfolding slob_wf_def eq(1) by blast+
  have bl: "b \<in> {b..<b + 16 * sl_units b s}" "b + 8 \<in> {b..<b + 16 * sl_units b s}" using b(2) by auto
  have nb: "b \<notin> slob_bytes s (?R @ [c])" using bl(1) b(3) unfolding eq(2) by blast
  have bh: "b \<noteq> x \<and> b \<noteq> x + 8" if "x \<in> set (?R @ [c])" for x
    using bytes_header [OF that, of "cell s"] ring_ok_pos [OF ro that] nb by blast
  have n: "?n = hd (?R @ [c])" using rg by (cases ?R) auto
  then have nin: "?n \<in> set (?R @ [c])" by (metis hd_in_set snoc_eq_iff_butlast)
  have ro': "ring_ok (cell s) (b # ?R @ [c])"
    using ring_ok_insert [OF ro, of b] b at n unfolding eq(2) reinsert_at_def by simp
  have z: "0 \<notin> set (b # ?R @ [c])" using nt(2) b(1) by simp
  obtain R' where R': "half_linked ar b c ?s1 R'" "slob_bytes ?s1 (b # R' @ [c]) = slob_bytes s (b # ?R @ [c])"
    using join_next [OF rg ro' nt(1) z nt(3,4) ar(2) refl refl] by blast
  have "b \<noteq> ar" using bh nt(3) by blast
  obtain zs where zs: "slob_wf ar (?s2\<lparr>slobfree := c\<rparr>) zs" "slob_bytes ?s2 zs = slob_bytes ?s1 (b # R' @ [c])"
    using join_prev [OF R'(1) \<open>b \<noteq> ar\<close> ar(1) refl] by blast
  have "c \<noteq> b + 8" using ring_header_apart(1) [OF ro', of c b] by simp
  moreover have "b \<noteq> ?n" "b \<noteq> ?n + 8" "b \<noteq> c + 8" using bh [OF nin] bh [of c] by auto
  ultimately have run: "slob_link b c s = ?s2\<lparr>slobfree := c\<rparr>"
    by (simp add: slob_link_def Let_def set_units_def set_next_def)
  then show ?thesis using zs R'(2) unfolding run eq(2) by auto
qed

lemma slob_link_frame:
  "psrc (slob_link b c s) = psrc s" "bigblocks (slob_link b c s) = bigblocks s"
  "x \<notin> {b, b + 8, c, c + 8} \<Longrightarrow> cell (slob_link b c s) x = cell s x"
  by (simp_all add: slob_link_def set_units_def set_next_def Let_def)

lemma slob_wf_frame:
  assumes "slob_wf ar s zs" "\<And>x. x \<in> slob_bytes s zs \<Longrightarrow> cell t x = cell s x" "slobfree t = slobfree s"
  shows "slob_wf ar t zs \<and> slob_bytes t zs = slob_bytes s zs"
proof -
  have ro: "ring_ok (cell s) zs" using assms(1) by (simp add: slob_wf_def)
  have hd: "cell t x = cell s x" "cell t (x + 8) = cell s (x + 8)" if "x \<in> set zs" for x
    using assms(2) bytes_header [OF that, of "cell s"] ring_ok_pos [OF ro that] by simp_all
  have wf: "zs \<noteq> []" "last zs = slobfree s" "ring (\<lambda>a. sl_next a s) zs"
    "\<forall>a \<in> set zs. \<forall>b \<in> set zs. a + 16 * sl_units a s \<noteq> b" "0 \<notin> set zs" "ar \<in> set zs" "sl_units ar s = 1"
    using assms(1) unfolding slob_wf_def by blast+
  have "ring (\<lambda>a. sl_next a t) zs"
    by (rule path_cong [OF wf(3)]) (use hd wf(1) in \<open>auto dest: in_set_butlastD split: if_splits\<close>)
  then show ?thesis
    using wf hd ring_ok_cong [OF ro, of "cell t"] bytes_cong [of zs "cell t"] assms(3)
    by (intro conjI slob_wfI) simp_all
qed

lemma slob_free_ok:
  assumes wf: "slob_wf ar s zs" and b: "b \<noteq> 0" "n = (if sz = 0 then sl_units b s else SLOB_UNITS sz)" "0 < n"
    "{b..<b + 16 * n} \<inter> slob_bytes s zs = {}" and ar: "ar + 16 \<noteq> b" "b + 16 * n \<noteq> ar"
  shows "\<exists>t ys. slob_free b sz s = Some t \<and> slob_wf ar t ys \<and> slob_bytes t ys = slob_bytes s zs \<union> {b..<b + 16 * n} \<and>
     psrc t = psrc s \<and> bigblocks t = bigblocks s \<and>
     (\<forall>x. x \<notin> slob_bytes s zs \<union> {b..<b + 16 * n} \<longrightarrow> cell t x = cell s x)"
proof -
  define u where "u = (if sz \<noteq> 0 then set_units b (SLOB_UNITS sz) s else s)"
  have u: "cell u = (cell s)(b := n)" "slobfree u = slobfree s" "psrc u = psrc s" "bigblocks u = bigblocks s"
    using b(2) by (simp_all add: u_def set_units_def)
  have bin: "b \<in> {b..<b + 16 * n}" "b + 8 \<in> {b..<b + 16 * n}" using b(3) by simp_all
  then have nb: "b \<notin> slob_bytes s zs" using b(4) by blast
  have "slob_wf ar u zs \<and> slob_bytes u zs = slob_bytes s zs"
    by (rule slob_wf_frame [OF wf]) (use nb u in auto)
  then have wu: "slob_wf ar u zs" and bu: "slob_bytes u zs = slob_bytes s zs" by blast+
  then have zs: "zs \<noteq> []" "last zs = slobfree u" "ring (\<lambda>a. sl_next a u) zs" "ring_ok (cell u) zs"
    unfolding slob_wf_def by blast+
  have "\<exists>c \<in> set zs. reinsert_at b c u"
  proof -
    from zs(4) obtain p q where pq: "zs = p @ q" "blocks_ok (cell u) (q @ p)" by (auto simp: ring_ok_def)
    have "b \<notin> set zs"
    proof
      assume "b \<in> set zs"
      then have "b \<in> slob_bytes u zs" using bytes_header [of b zs "cell u"] ring_ok_pos [OF zs(4)] by simp
      then show False using nb unfolding bu by simp
    qed
    moreover have "ring (\<lambda>a. sl_next a u) (q @ p)" using ring_rotate zs(3) pq(1) by blast
    ultimately show ?thesis
      using ring_place [OF blocks_ok_sorted [OF pq(2)], of "\<lambda>a. sl_next a u" b] pq(1) zs(1)
      unfolding reinsert_at_def by auto
  qed
  then have "\<exists>c \<in> set (slobfree u # zs). reinsert_at b c u" by auto
  moreover have "path (\<lambda>a. sl_next a u) (slobfree u) zs" using zs(3) unfolding zs(2) .
  ultimately obtain c where c: "c \<in> set (slobfree u # zs)" "reinsert_loop b (slobfree u) u = Some c" "reinsert_at b c u"
    using reinsert_loop_finds [of u "slobfree u" zs b] by blast
  have "slobfree u \<in> set zs" using zs(1,2) by (metis last_in_set)
  then have "c \<in> set zs" using c(1) by auto
  then obtain as bs where sp: "zs = as @ c # bs" by (metis split_list)
  have ub: "sl_units b u = n" by (simp add: u(1))
  have "{b..<b + 16 * sl_units b u} \<inter> slob_bytes u zs = {}" "0 < sl_units b u" "b + 16 * sl_units b u \<noteq> ar"
    unfolding ub bu using b(3,4) ar(2) by blast+
  then obtain ys where ys: "slob_wf ar (slob_link b c u) ys"
    "slob_bytes (slob_link b c u) ys = slob_bytes u zs \<union> {b..<b + 16 * sl_units b u}"
    using slob_link_ok [OF wu [unfolded sp] b(1) _ _ ar(1) _ c(3)] unfolding sp by blast
  have run: "slob_free b sz s = Some (slob_link b c u)"
    using b(1) c(2) u(2) unfolding slob_free_def u_def by (auto simp: Let_def)
  have ch: "c \<in> slob_bytes s zs" "c + 8 \<in> slob_bytes s zs"
    using bytes_header [OF \<open>c \<in> set zs\<close>, of "cell u"] ring_ok_pos [OF zs(4) \<open>c \<in> set zs\<close>] unfolding bu by blast+
  have "cell (slob_link b c u) x = cell s x" if "x \<notin> slob_bytes s zs \<union> {b..<b + 16 * n}" for x
  proof -
    have "x \<notin> {b, b + 8, c, c + 8}" using that ch bin by blast
    then show ?thesis using slob_link_frame(3) [of x b c u] u(1) by simp
  qed
  moreover have "slob_bytes (slob_link b c u) ys = slob_bytes s zs \<union> {b..<b + 16 * n}" using ys(2) unfolding bu ub .
  moreover have "psrc (slob_link b c u) = psrc s" "bigblocks (slob_link b c u) = bigblocks s"
    by (simp_all add: slob_link_frame u)
  ultimately show ?thesis using run ys(1) by blast
qed

end
