(* ===== verification/KmallocClaims.thy ===== *)
theory KmallocClaims
  imports KmallocProps PageTableProps
begin

section \<open>kmalloc over a source of pages\<close>

text \<open>
  What the allocator asks of the pages below it is the locale \<open>page_source\<close>: a request yields an aligned
  run of free pages or nothing, and the pages that are free are known. The theorems on \<open>slob_alloc\<close>
  and \<open>kmalloc\<close> are proved in the locale; the interpretation at the end is the page allocator of the kernel.
\<close>

lemma bytes_one_block:
  assumes wf: "slob_wf ar s zs" and "{a..<a + k} \<subseteq> slob_bytes s zs" "0 < k"
  shows "\<exists>z \<in> set zs. z \<le> a \<and> a + k \<le> z + 16 * sl_units z s"
proof -
  have ro: "ring_ok (cell s) zs" and nt: "\<And>x y. x \<in> set zs \<Longrightarrow> y \<in> set zs \<Longrightarrow> x + 16 * sl_units x s \<noteq> y"
    using wf unfolding slob_wf_def by blast+
  have "a \<in> slob_bytes s zs" using assms(2,3) by auto
  then obtain z where z: "z \<in> set zs" "z \<le> a" "a < z + 16 * sl_units z s" by (auto simp: bytes_def)
  have "a + k \<le> z + 16 * sl_units z s"
  proof (rule ccontr)
    assume "\<not> ?thesis"
    then have "z + 16 * sl_units z s \<in> slob_bytes s zs" using assms(2) z by auto
    then obtain y where y: "y \<in> set zs" "y \<le> z + 16 * sl_units z s" "z + 16 * sl_units z s < y + 16 * sl_units y s"
      by (auto simp: bytes_def)
    then have "y \<noteq> z" "y \<noteq> z + 16 * sl_units z s" using nt z(1) by auto
    then show False using ring_ok_apart [OF ro y(1) z(1)] y ring_ok_pos [OF ro z(1)] by auto
  qed
  then show ?thesis using z by blast
qed

lemma free_not_at_arena:
  assumes wf: "slob_wf ar s zs" and a: "{a..<a + k} \<subseteq> slob_bytes s zs" "16 < k"
  shows "ar + 16 \<noteq> a" "a + k \<noteq> ar" "a \<noteq> 0"
proof -
  have ro: "ring_ok (cell s) zs" and nt: "\<And>x y. x \<in> set zs \<Longrightarrow> y \<in> set zs \<Longrightarrow> x + 16 * sl_units x s \<noteq> y"
    and ar: "ar \<in> set zs" "sl_units ar s = 1" and z0: "0 \<notin> set zs" using wf unfolding slob_wf_def by blast+
  obtain z where z: "z \<in> set zs" "z \<le> a" "a + k \<le> z + 16 * sl_units z s"
    using bytes_one_block [OF wf a(1)] a(2) by auto
  have "z \<noteq> ar" using z a(2) ar(2) by auto
  then have d: "ar + 16 \<le> z \<or> z + 16 * sl_units z s \<le> ar" using ring_ok_apart [OF ro ar(1) z(1)] ar(2) by auto
  have "ar + 16 \<noteq> z" "z + 16 * sl_units z s \<noteq> ar" using nt [OF ar(1) z(1)] nt [OF z(1) ar(1)] ar(2) by auto
  then show "ar + 16 \<noteq> a" "a + k \<noteq> ar" using d z a(2) by auto
  show "a \<noteq> 0" using z z0 by (metis le_zero_eq)
qed

definition run_of :: "nat \<Rightarrow> nat \<Rightarrow> nat set" where
  "run_of a k = {a..<a + PAGE_SIZE * 2 ^ k}"

text \<open>The invariant of the allocator over a source of pages with the invariant \<open>ok\<close> and the free
  memory \<open>avail\<close>, and the free memory of both.\<close>

definition heap_ok :: "('p \<Rightarrow> bool) \<Rightarrow> ('p \<Rightarrow> nat set) \<Rightarrow> nat \<Rightarrow> 'p kmem \<Rightarrow> nat list \<Rightarrow> bool" where
  "heap_ok ok avail ar s zs \<longleftrightarrow> slob_wf ar s zs \<and> ok (psrc s) \<and> slob_bytes s zs \<inter> avail (psrc s) = {} \<and>
     (\<forall>x \<in> avail (psrc s). ar + 16 < x)"

definition room :: "('p \<Rightarrow> nat set) \<Rightarrow> 'p kmem \<Rightarrow> nat list \<Rightarrow> nat set" where
  "room avail s zs = slob_bytes s zs \<union> avail (psrc s)"

text \<open>What an allocation of \<open>n\<close> units achieves: it takes a block of that size out of the free memory and
  writes to nothing else.\<close>

definition taken ::
    "('p \<Rightarrow> bool) \<Rightarrow> ('p \<Rightarrow> nat set) \<Rightarrow> nat \<Rightarrow> nat \<Rightarrow> 'p kmem \<Rightarrow> nat list \<Rightarrow> nat \<Rightarrow> 'p kmem \<Rightarrow> nat list \<Rightarrow> bool" where
  "taken ok avail ar n s zs a t ys \<longleftrightarrow> heap_ok ok avail ar t ys \<and> bigblocks t = bigblocks s \<and>
     (\<forall>x. x \<notin> room avail s zs \<longrightarrow> cell t x = cell s x) \<and>
     (if a = 0 then room avail t ys = room avail s zs
      else sl_units a t = n \<and> {a..<a + 16 * n} \<subseteq> room avail s zs \<and>
        room avail t ys = room avail s zs - {a..<a + 16 * n} \<and> ar + 16 \<noteq> a \<and> a + 16 * n \<noteq> ar)"

text \<open>What an allocation of whole pages achieves: a run of pages leaves the free memory, together with a
  block of 32 bytes for its descriptor, which becomes the head of the list of big blocks.\<close>

definition big_taken ::
    "('p \<Rightarrow> bool) \<Rightarrow> ('p \<Rightarrow> nat set) \<Rightarrow> nat \<Rightarrow> nat \<Rightarrow> 'p kmem \<Rightarrow> nat list \<Rightarrow> nat \<Rightarrow> 'p kmem \<Rightarrow> nat list \<Rightarrow> bool" where
  "big_taken ok avail ar order s zs p t ys \<longleftrightarrow> heap_ok ok avail ar t ys \<and>
     (\<forall>x. x \<notin> room avail s zs \<longrightarrow> cell t x = cell s x) \<and>
     (if p = 0 then room avail t ys = room avail s zs \<and> bigblocks t = bigblocks s
      else \<exists>bb. bigblocks t = bb \<and> bb \<noteq> 0 \<and> bb_next bb t = bigblocks s \<and> bb_pages bb t = p \<and> bb_order bb t = order \<and>
        p mod PAGE_SIZE = 0 \<and> (\<forall>x \<in> run_of p order. ar + 16 < x) \<and> {bb..<bb + 32} \<inter> run_of p order = {} \<and>
        {bb..<bb + 32} \<union> run_of p order \<subseteq> room avail s zs \<and>
        room avail t ys = room avail s zs - ({bb..<bb + 32} \<union> run_of p order) \<and> ar + 16 \<noteq> bb \<and> bb + 32 \<noteq> ar)"

text \<open>The list of big blocks lies outside the free memory, and so do its pages.\<close>

fun big_path :: "'p kmem \<Rightarrow> nat \<Rightarrow> nat list \<Rightarrow> bool" where
  "big_path s b [] \<longleftrightarrow> b = 0"
| "big_path s b (x # xs) \<longleftrightarrow> b = x \<and> b \<noteq> 0 \<and> big_path s (bb_next b s) xs"

definition bigs_ok :: "'p kmem \<Rightarrow> nat set \<Rightarrow> nat list \<Rightarrow> bool" where
  "bigs_ok s F bbs \<longleftrightarrow> big_path s (bigblocks s) bbs \<and>
     (\<forall>b \<in> set bbs. b + 8 \<notin> F \<and> b + 16 \<notin> F \<and> bb_pages b s \<notin> F)"

lemma big_path_frame:
  "big_path s b bbs \<Longrightarrow> (\<And>x. x \<in> set bbs \<Longrightarrow> cell t (x + 16) = cell s (x + 16)) \<Longrightarrow> big_path t b bbs"
  by (induction bbs arbitrary: b) (auto simp: bb_next_def)

lemma bigblock_find_none:
  "big_path s b bbs \<Longrightarrow> (\<And>x. x \<in> set bbs \<Longrightarrow> bb_pages x s \<noteq> p) \<Longrightarrow> bigblock_find p l b s = Some None"
proof (induction bbs arbitrary: b l)
  case Nil
  then show ?case by (subst bigblock_find.simps) simp
next
  case (Cons x xs)
  then have "bigblock_find p (Some (x + 16)) (bb_next x s) s = Some None" by (intro Cons.IH) auto
  then show ?case using Cons.prems by (subst bigblock_find.simps) simp
qed

definition usable :: "nat \<Rightarrow> nat" where
  "usable sz = (if sz < PAGE_SIZE - SLOB_UNIT then sz else PAGE_SIZE * 2 ^ find_order sz)"

locale page_source =
  fixes get :: "'p page_get" and put :: "'p page_put"
    and ok :: "'p \<Rightarrow> bool" and avail :: "'p \<Rightarrow> nat set" and lent :: "nat \<Rightarrow> nat \<Rightarrow> 'p \<Rightarrow> bool"
  assumes get_ok: "ok p \<Longrightarrow> \<exists>a q. get k p = Some (a, q) \<and> ok q \<and>
      (if a = 0 then avail q = avail p
       else a mod PAGE_SIZE = 0 \<and> run_of a k \<subseteq> avail p \<and> avail q = avail p - run_of a k)"
    and put_ok: "ok p \<Longrightarrow> lent a k p \<Longrightarrow> \<exists>q. put a k p = Some q \<and> ok q \<and> avail q = avail p \<union> run_of a k"
begin

abbreviation heap :: "nat \<Rightarrow> 'p kmem \<Rightarrow> nat list \<Rightarrow> bool" where "heap \<equiv> heap_ok ok avail"
abbreviation free :: "'p kmem \<Rightarrow> nat list \<Rightarrow> nat set" where "free \<equiv> room avail"

lemma take_fit:
  assumes h: "heap ar s zs" and fit: "\<exists>z \<in> set zs. n \<le> sl_units z s" "2 \<le> n"
  shows "\<exists>a t. slob_loop get sz n 0 (slobfree s) (sl_next (slobfree s) s) s = Some (a, t) \<and> a \<noteq> 0 \<and> (\<exists>ys. taken ok avail ar n s zs a t ys)"
proof -
  from h have wf: "slob_wf ar s zs" and src: "ok (psrc s)" "slob_bytes s zs \<inter> avail (psrc s) = {}"
    "\<forall>x \<in> avail (psrc s). ar + 16 < x" unfolding heap_ok_def by blast+
  then have zs: "zs \<noteq> []" "last zs = slobfree s" "ring (\<lambda>a. sl_next a s) zs" "ring_ok (cell s) zs"
    unfolding slob_wf_def by blast+
  from split_list_first_prop [OF fit(1)] obtain as a bs where
    sp: "zs = as @ a # bs" "n \<le> sl_units a s" "\<forall>y \<in> set as. \<not> n \<le> sl_units y s" by blast
  have "slobfree s \<in> set (a # bs)" using zs(1,2) sp(1) by (metis last_appendR last_in_set list.distinct(1))
  then have nin: "slobfree s \<notin> set as" using ring_ok_distinct [OF zs(4)] sp(1) by auto
  have ch: "path (\<lambda>a. sl_next a s) (slobfree s) (as @ [a])" using zs(2,3) sp(1) by auto
  have run: "slob_loop get sz n 0 (slobfree s) (sl_next (slobfree s) s) s = Some (slob_take n (last (slobfree s # as)) a s)"
    by (rule slob_loop_fit [OF ch nin]) (use sp in auto)
  obtain t ys where t: "slob_take n (last (slobfree s # as)) a s = (a, t)" "psrc t = psrc s" "bigblocks t = bigblocks s"
    "slob_wf ar t ys" "slob_bytes t ys = slob_bytes s zs - {a..<a + 16 * n}" "sl_units a t = n"
    "{a..<a + 16 * n} \<subseteq> slob_bytes s zs" "\<forall>x. x \<notin> slob_bytes s zs \<longrightarrow> cell t x = cell s x"
    using slob_take_ok [OF wf [unfolded sp(1)] sp(2) fit(2)] unfolding sp(1) by metis
  note far = free_not_at_arena [OF wf t(7)]
  have k: "16 < 16 * n" using fit(2) by simp
  have "heap ar t ys" using t(2,4,5) src unfolding heap_ok_def by auto
  moreover have "free t ys = free s zs - {a..<a + 16 * n}" using t(2,5,7) src(2) unfolding room_def by auto
  ultimately have "taken ok avail ar n s zs a t ys"
    using t far [OF k] unfolding taken_def room_def by auto
  then show ?thesis using run t(1) far(3) [OF k] by auto
qed

lemma slob_alloc_ok:
  assumes h: "heap ar s zs" and sz: "16 < sz" "sz + 16 < PAGE_SIZE"
  shows "\<exists>a t. slob_alloc get sz 0 s = Some (a, t) \<and> (\<exists>ys. taken ok avail ar (SLOB_UNITS sz) s zs a t ys)"
proof -
  let ?n = "SLOB_UNITS sz"
  have n: "2 \<le> ?n" "?n < 256" using sz by (auto simp: SLOB_UNITS_def SLOB_UNIT_def PAGE_SIZE_def)
  have start: "slob_alloc get sz 0 s = slob_loop get sz ?n 0 (slobfree s) (sl_next (slobfree s) s) s"
    using sz by (simp add: slob_alloc_def SLOB_UNIT_def)
  show ?thesis
  proof (cases "\<exists>z \<in> set zs. ?n \<le> sl_units z s")
    case True
    then show ?thesis using take_fit [OF h _ n(1)] start by metis
  next
    case False
    from h have wf: "slob_wf ar s zs" and src: "ok (psrc s)" "slob_bytes s zs \<inter> avail (psrc s) = {}"
      "\<forall>x \<in> avail (psrc s). ar + 16 < x" unfolding heap_ok_def by blast+
    then have zs: "zs \<noteq> []" "last zs = slobfree s" "ring (\<lambda>a. sl_next a s) zs" "ring_ok (cell s) zs"
      unfolding slob_wf_def by blast+
    have ch: "path (\<lambda>a. sl_next a s) (slobfree s) zs" using zs(3) unfolding zs(2) .
    obtain page q where q: "get 0 (psrc s) = Some (page, q)" "ok q"
      "if page = 0 then avail q = avail (psrc s)
       else run_of page 0 \<subseteq> avail (psrc s) \<and> avail q = avail (psrc s) - run_of page 0"
      using get_ok [OF src(1), of 0] by (auto split: if_splits)
    let ?s = "s\<lparr>psrc := q\<rparr>"
    have run: "slob_alloc get sz 0 s = (if page = 0 then Some (0, ?s)
        else do { s \<leftarrow> slob_free page PAGE_SIZE ?s; slob_loop get sz ?n 0 (slobfree s) (sl_next (slobfree s) s) s })"
      unfolding start using slob_loop_end [OF ch zs(1,2) ring_ok_distinct [OF zs(4)], of ?n get sz] False q(1) sz(2)
      by (simp add: not_le)
    have ws: "slob_wf ar ?s zs" "slob_bytes ?s zs = slob_bytes s zs" using slob_wf_frame [OF wf, of ?s] by simp_all
    show ?thesis
    proof (cases "page = 0")
      case True
      then have "heap ar ?s zs" "free ?s zs = free s zs"
        using q ws src by (simp_all add: heap_ok_def room_def)
      then have "taken ok avail ar ?n s zs 0 ?s zs" unfolding taken_def by simp
      then show ?thesis using run True by auto
    next
      case False
      define P where "P = {page..<page + 16 * 256}"
      have P: "run_of page 0 = P" by (simp add: run_of_def P_def PAGE_SIZE_def)
      have pq: "P \<subseteq> avail (psrc s)" "avail q = avail (psrc s) - P" using q(3) False P by simp_all
      have pin: "page \<in> P" "page + 4095 \<in> P" by (simp_all add: P_def)
      then have far: "ar + 16 \<noteq> page" "page + 16 * 256 \<noteq> ar" using src(3) pq(1) by fastforce+
      have e1: "256 = (if PAGE_SIZE = 0 then sl_units page ?s else SLOB_UNITS PAGE_SIZE)" and e2: "(0::nat) < 256"
        by (simp_all add: PAGE_SIZE_def SLOB_UNITS_def SLOB_UNIT_def)
      have e3: "{page..<page + 16 * 256} \<inter> slob_bytes ?s zs = {}" using src(2) pq(1) unfolding ws(2) P_def by blast
      obtain u ys where u0: "slob_free page PAGE_SIZE ?s = Some u" "slob_wf ar u ys"
        "slob_bytes u ys = slob_bytes ?s zs \<union> {page..<page + 16 * 256}" "psrc u = psrc ?s" "bigblocks u = bigblocks ?s"
        "\<forall>x. x \<notin> slob_bytes ?s zs \<union> {page..<page + 16 * 256} \<longrightarrow> cell u x = cell ?s x"
        using slob_free_ok [OF ws(1) False e1 e2 e3 far] by blast
      then have u: "slob_free page PAGE_SIZE ?s = Some u" "slob_wf ar u ys"
        "slob_bytes u ys = slob_bytes s zs \<union> P" "psrc u = q" "bigblocks u = bigblocks s"
        "\<forall>x. x \<notin> slob_bytes s zs \<union> P \<longrightarrow> cell u x = cell s x"
        unfolding ws(2) P_def by simp_all
      have hu: "heap ar u ys" "free u ys = free s zs"
        using u(2-4) q(2) pq src unfolding heap_ok_def room_def by auto
      have "P \<subseteq> slob_bytes u ys" using u(3) by blast
      then obtain z where z: "z \<in> set ys" "z \<le> page" "page + 16 * 256 \<le> z + 16 * sl_units z u"
        using bytes_one_block [OF u(2), of page "16 * 256"] unfolding P_def by auto
      then have "?n \<le> sl_units z u" using n(2) by simp
      then have "\<exists>z \<in> set ys. ?n \<le> sl_units z u" using z(1) by blast
      from take_fit [OF hu(1) this n(1), of sz] obtain a t vs where
        t: "slob_loop get sz ?n 0 (slobfree u) (sl_next (slobfree u) u) u = Some (a, t)" "a \<noteq> 0" "taken ok avail ar ?n u ys a t vs"
        by blast
      have "cell u x = cell s x" if "x \<notin> free s zs" for x
        using that u(6) pq(1) unfolding room_def by blast
      then have "taken ok avail ar ?n s zs a t vs" using t(3) u(5) hu(2) unfolding taken_def by metis
      moreover have "slob_alloc get sz 0 s = Some (a, t)" using run False u(1) t(1) by simp
      ultimately show ?thesis by blast
    qed
  qed
qed

lemma kmalloc_small_ok:
  assumes h: "heap ar s zs" and sz: "0 < sz" "sz + 32 < PAGE_SIZE"
  shows "\<exists>a t ys. kmalloc get sz s = Some (if a = 0 then 0 else a + 16, t) \<and>
    taken ok avail ar (SLOB_UNITS (sz + 16)) s zs a t ys"
proof -
  obtain a t ys where "slob_alloc get (sz + 16) 0 s = Some (a, t)" "taken ok avail ar (SLOB_UNITS (sz + 16)) s zs a t ys"
    using slob_alloc_ok [OF h, of "sz + 16"] sz by auto
  moreover have "sz < PAGE_SIZE - SLOB_UNIT" using sz(2) by (simp add: SLOB_UNIT_def)
  ultimately show ?thesis by (intro exI [of _ a] exI [of _ t] exI [of _ ys]) (simp add: kmalloc_def SLOB_UNIT_def)
qed

lemma kfree_small_ok:
  assumes h: "heap ar s zs" and p: "p = a + 16" "0 < a" "0 < sl_units a s" "{a..<a + 16 * sl_units a s} \<inter> free s zs = {}"
    and ar: "ar + 16 \<noteq> a" "a + 16 * sl_units a s \<noteq> ar" and bg: "bigs_ok s F bbs" "p \<in> F"
  shows "\<exists>t ys. kfree put p s = Some t \<and> heap ar t ys \<and> free t ys = free s zs \<union> {a..<a + 16 * sl_units a s} \<and>
    bigblocks t = bigblocks s"
proof -
  let ?A = "{a..<a + 16 * sl_units a s}"
  from h have wf: "slob_wf ar s zs" and src: "ok (psrc s)" "slob_bytes s zs \<inter> avail (psrc s) = {}"
    "\<forall>x \<in> avail (psrc s). ar + 16 < x" unfolding heap_ok_def by blast+
  have "bb_pages b s \<noteq> p" if "b \<in> set bbs" for b using bg that unfolding bigs_ok_def by auto
  then have "bigblock_find p None (bigblocks s) s = Some None"
    using bigblock_find_none [of s _ bbs] bg(1) unfolding bigs_ok_def by blast
  then have run: "kfree put p s = slob_free a 0 s" using p(1) by (simp add: kfree_def SLOB_UNIT_def)
  have d: "?A \<inter> slob_bytes s zs = {}" "?A \<inter> avail (psrc s) = {}" using p(4) unfolding room_def by blast+
  have a0: "a \<noteq> 0" "sl_units a s = (if (0::nat) = 0 then sl_units a s else SLOB_UNITS 0)" using p(2) by simp_all
  obtain t ys where t: "slob_free a 0 s = Some t" "slob_wf ar t ys" "slob_bytes t ys = slob_bytes s zs \<union> ?A"
    "psrc t = psrc s" "bigblocks t = bigblocks s"
    using slob_free_ok [OF wf a0 p(3) d(1) ar] by blast
  have "slob_bytes t ys \<inter> avail (psrc t) = {}" unfolding t(3,4) using src(2) d(2) by blast
  then have "heap ar t ys" using t(2) src(1,3) unfolding heap_ok_def t(4) by blast
  moreover have "free t ys = free s zs \<union> ?A" unfolding room_def t(3,4) by blast
  ultimately show ?thesis using t(1,5) unfolding run by blast
qed

text \<open>A request for a page or more: the descriptor comes from \<open>slob_alloc\<close>, the pages from the source.\<close>

lemma kmalloc_big_ok:
  assumes h: "heap ar s zs" and sz: "PAGE_SIZE \<le> sz + 16"
  shows "\<exists>p t ys. kmalloc get sz s = Some (p, t) \<and> big_taken ok avail ar (find_order sz) s zs p t ys"
proof -
  let ?k = "find_order sz"
  have n: "SLOB_UNITS 24 = 2" by (simp add: SLOB_UNITS_def SLOB_UNIT_def)
  obtain bb t ys where a: "slob_alloc get 24 0 s = Some (bb, t)" "taken ok avail ar 2 s zs bb t ys"
    using slob_alloc_ok [OF h, of 24] unfolding n by (auto simp: PAGE_SIZE_def)
  have big: "\<not> sz < PAGE_SIZE - SLOB_UNIT" using sz by (simp add: SLOB_UNIT_def)
  show ?thesis
  proof (cases "bb = 0")
    case True
    then have "kmalloc get sz s = Some (0, t)" using a(1) big by (simp add: kmalloc_def BIGBLOCK_SIZE_def)
    moreover have "big_taken ok avail ar ?k s zs 0 t ys" using a(2) True by (simp add: big_taken_def taken_def)
    ultimately show ?thesis by blast
  next
    case False
    let ?B = "{bb..<bb + 32}"
    from a(2) False have tk: "heap ar t ys" "bigblocks t = bigblocks s" "\<forall>x. x \<notin> free s zs \<longrightarrow> cell t x = cell s x"
      "?B \<subseteq> free s zs" "free t ys = free s zs - ?B" "ar + 16 \<noteq> bb" "bb + 32 \<noteq> ar" unfolding taken_def by auto
    from tk(1) have hp: "slob_wf ar t ys" "ok (psrc t)" "slob_bytes t ys \<inter> avail (psrc t) = {}"
      "\<forall>x \<in> avail (psrc t). ar + 16 < x" unfolding heap_ok_def by blast+
    obtain p q where q: "get ?k (psrc t) = Some (p, q)" "ok q" "if p = 0 then avail q = avail (psrc t)
       else p mod PAGE_SIZE = 0 \<and> run_of p ?k \<subseteq> avail (psrc t) \<and> avail q = avail (psrc t) - run_of p ?k"
      using get_ok [OF hp(2), of ?k] by blast
    let ?u = "t\<lparr>psrc := q, cell := (cell t)(bb := ?k, bb + 8 := p)\<rparr>"
    let ?v = "t\<lparr>cell := (cell t)(bb := ?k, bb + 8 := p, bb + 16 := bigblocks t), bigblocks := bb, psrc := q\<rparr>"
    have in_B: "bb \<in> ?B" "bb + 8 \<in> ?B" "bb + 16 \<in> ?B" by simp_all
    have nB: "?B \<inter> slob_bytes t ys = {}" using tk(5) unfolding room_def by blast
    have nB': "bb \<notin> slob_bytes t ys" "bb + 8 \<notin> slob_bytes t ys" "bb + 16 \<notin> slob_bytes t ys" using nB in_B by blast+
    have cu: "cell ?u x = cell t x" and cv: "cell ?v x = cell t x" if "x \<in> slob_bytes t ys" for x
      using that nB' by (auto simp: fun_upd_def)
    have wu: "slob_wf ar ?u ys" "slob_bytes ?u ys = slob_bytes t ys" "slob_wf ar ?v ys" "slob_bytes ?v ys = slob_bytes t ys"
      using slob_wf_frame [OF hp(1), of ?u, OF cu] slob_wf_frame [OF hp(1), of ?v, OF cv] by simp_all
    have out: "bb \<in> free s zs" "bb + 8 \<in> free s zs" "bb + 16 \<in> free s zs" using tk(4) in_B by blast+
    have run: "kmalloc get sz s = (if p \<noteq> 0 then Some (p, ?v)
        else do { s \<leftarrow> slob_free bb BIGBLOCK_SIZE ?u; Some (0, s) })"
      using a(1) big False q(1) by (simp add: kmalloc_def BIGBLOCK_SIZE_def wr_def bb_order_def bb_pages_def fun_upd_twist)
    show ?thesis
    proof (cases "p = 0")
      case True
      have e: "2 = (if BIGBLOCK_SIZE = 0 then sl_units bb ?u else SLOB_UNITS BIGBLOCK_SIZE)" by (simp add: BIGBLOCK_SIZE_def n)
      obtain v vs where v: "slob_free bb BIGBLOCK_SIZE ?u = Some v" "slob_wf ar v vs" "slob_bytes v vs = slob_bytes t ys \<union> ?B"
        "psrc v = q" "bigblocks v = bigblocks t" "\<forall>x. x \<notin> slob_bytes t ys \<union> ?B \<longrightarrow> cell v x = cell ?u x"
        using slob_free_ok [OF wu(1) False e] nB tk(6,7) unfolding wu(2) by auto
      have av: "avail q = avail (psrc t)" using q(3) True by simp
      have "?B \<inter> avail (psrc t) = {}" using tk(5) unfolding room_def by blast
      then have "heap ar v vs" using v(2) q(2) hp(3,4) unfolding heap_ok_def v(3,4) av by blast
      moreover have "free v vs = free t ys \<union> ?B" unfolding room_def v(3,4) av by blast
      then have "free v vs = free s zs" using tk(4,5) by blast
      moreover have "cell v x = cell s x" if "x \<notin> free s zs" for x
      proof -
        have "x \<notin> slob_bytes t ys \<union> ?B" "x \<noteq> bb" "x \<noteq> bb + 8" using that tk(4,5) out unfolding room_def by blast+
        then show ?thesis using v(6) tk(3) that by simp
      qed
      ultimately have "big_taken ok avail ar ?k s zs 0 v vs" using v(5) tk(2) by (simp add: big_taken_def)
      then show ?thesis using run True v(1) by auto
    next
      case False
      then have pq: "p mod PAGE_SIZE = 0" "run_of p ?k \<subseteq> avail (psrc t)" "avail q = avail (psrc t) - run_of p ?k" using q(3) by auto
      have "heap ar ?v ys" using wu(3,4) q(2) hp(3,4) pq(3) unfolding heap_ok_def by auto
      moreover have "free ?v ys = free s zs - (?B \<union> run_of p ?k)"
        using tk(5) pq(2,3) hp(3) wu(4) unfolding room_def by auto
      moreover have "\<forall>x \<in> run_of p ?k. ar + 16 < x" using hp(4) pq(2) by blast
      moreover have "?B \<inter> run_of p ?k = {}" "?B \<union> run_of p ?k \<subseteq> free s zs" using tk(4,5) pq(2) unfolding room_def by blast+
      moreover have "cell ?v x = cell s x" if "x \<notin> free s zs" for x using that tk(3) out by auto
      ultimately have "big_taken ok avail ar ?k s zs p ?v ys"
        using False \<open>bb \<noteq> 0\<close> tk(2,6,7) pq(1) by (simp add: big_taken_def bb_next_def bb_pages_def bb_order_def)
      then show ?thesis using run False by auto
    qed
  qed
qed

lemma kmalloc_panics: "PAGE_SIZE \<le> sz + 32 \<Longrightarrow> sz + 16 < PAGE_SIZE \<Longrightarrow> kmalloc get sz s = None"
  by (simp add: kmalloc_def slob_alloc_def SLOB_UNIT_def PAGE_SIZE_def)

text \<open>The descriptor is found at the head of the list, and run and descriptor go back.\<close>

lemma kmalloc_kfree_big:
  assumes h: "heap ar s zs" and sz: "PAGE_SIZE \<le> sz + 16"
    and m: "kmalloc get sz s = Some (p, t)" "p \<noteq> 0" "lent p (find_order sz) (psrc t)"
    and u: "u = t\<lparr>cell := c\<rparr>" "\<And>x. x \<notin> run_of p (find_order sz) \<Longrightarrow> c x = cell t x"
  shows "\<exists>v ys. kfree put p u = Some v \<and> heap ar v ys \<and> free v ys = free s zs \<and> bigblocks v = bigblocks s"
proof -
  let ?k = "find_order sz"
  obtain ys where "big_taken ok avail ar ?k s zs p t ys" using kmalloc_big_ok [OF h sz] m(1) by auto
  then obtain bb where tk: "heap ar t ys" "bigblocks t = bb" "bb \<noteq> 0" "bb_next bb t = bigblocks s" "bb_pages bb t = p"
    "bb_order bb t = ?k" "p mod PAGE_SIZE = 0" "{bb..<bb + 32} \<inter> run_of p ?k = {}" "{bb..<bb + 32} \<union> run_of p ?k \<subseteq> free s zs"
    "free t ys = free s zs - ({bb..<bb + 32} \<union> run_of p ?k)" "ar + 16 \<noteq> bb" "bb + 32 \<noteq> ar"
    "\<forall>x \<in> run_of p ?k. ar + 16 < x"
    using m(2) unfolding big_taken_def by auto
  let ?B = "{bb..<bb + 32}"
  from tk(1) have hp: "slob_wf ar t ys" "ok (psrc t)" "slob_bytes t ys \<inter> avail (psrc t) = {}"
    "\<forall>x \<in> avail (psrc t). ar + 16 < x" unfolding heap_ok_def by blast+
  have "bb \<in> ?B" "bb + 8 \<in> ?B" "bb + 16 \<in> ?B" by simp_all
  then have same: "c bb = cell t bb" "c (bb + 8) = cell t (bb + 8)" "c (bb + 16) = cell t (bb + 16)" using u(2) tk(8) by blast+
  obtain q where q: "put p ?k (psrc t) = Some q" "ok q" "avail q = avail (psrc t) \<union> run_of p ?k"
    using put_ok [OF hp(2) m(3)] by blast
  let ?w = "t\<lparr>cell := c, bigblocks := bigblocks s, psrc := q\<rparr>"
  have sb: "slob_bytes t ys \<inter> (?B \<union> run_of p ?k) = {}" using tk(10) unfolding room_def by blast
  then have "c x = cell t x" if "x \<in> slob_bytes t ys" for x using u(2) that by blast
  then have w: "slob_wf ar ?w ys" "slob_bytes ?w ys = slob_bytes t ys" using slob_wf_frame [OF hp(1), of ?w] by auto
  have n: "2 = (if BIGBLOCK_SIZE = 0 then sl_units bb ?w else SLOB_UNITS BIGBLOCK_SIZE)"
    by (simp add: BIGBLOCK_SIZE_def SLOB_UNITS_def SLOB_UNIT_def)
  obtain v vs where v: "slob_free bb BIGBLOCK_SIZE ?w = Some v" "slob_wf ar v vs" "slob_bytes v vs = slob_bytes t ys \<union> ?B"
    "psrc v = q" "bigblocks v = bigblocks s"
    using slob_free_ok [OF w(1) tk(3) n] sb tk(11,12) unfolding w(2) by auto
  have "bigblock_find p None (bigblocks u) u = Some (Some (None, bb))"
    using tk(2,3,5) same u(1) by (subst bigblock_find.simps) (simp add: bb_pages_def)
  then have run: "kfree put p u = Some v"
    using m(2) tk(4,6,7) same u(1) q(1) v(1)
    by (simp add: kfree_def bigblock_unlink_def bb_next_def bb_order_def)
  have "?B \<inter> avail (psrc t) = {}" "slob_bytes t ys \<inter> avail q = {}" "\<forall>x \<in> avail q. ar + 16 < x"
  proof -
    show "?B \<inter> avail (psrc t) = {}" using tk(10) unfolding room_def by blast
    show "slob_bytes t ys \<inter> avail q = {}" using sb hp(3) unfolding q(3) by blast
    show "\<forall>x \<in> avail q. ar + 16 < x" using hp(4) tk(13) unfolding q(3) by blast
  qed
  then have "heap ar v vs" using v(2) q(2) tk(8) unfolding heap_ok_def v(3,4) q(3) by blast
  moreover have "free v vs = free t ys \<union> (?B \<union> run_of p ?k)" unfolding room_def v(3,4) q(3) by blast
  then have "free v vs = free s zs" using tk(9,10) by blast
  ultimately show ?thesis using run v(5) by blast
qed

text \<open>A program that writes only to the memory it was given can give it back.\<close>

lemma kmalloc_kfree_small:
  assumes h: "heap ar s zs" and sz: "0 < sz" "sz + 32 < PAGE_SIZE" and bg: "bigs_ok s (free s zs) bbs"
    and m: "kmalloc get sz s = Some (p, t)" "p \<noteq> 0"
    and u: "u = t\<lparr>cell := c\<rparr>" "\<And>x. x < p \<or> p + sz \<le> x \<Longrightarrow> c x = cell t x"
  shows "\<exists>v ys. kfree put p u = Some v \<and> heap ar v ys \<and> free v ys = free s zs \<and> bigblocks v = bigblocks s"
proof -
  let ?n = "SLOB_UNITS (sz + 16)"
  obtain a ys where a: "p = a + 16" "0 < a" "taken ok avail ar ?n s zs a t ys"
    using kmalloc_small_ok [OF h sz] m by (auto split: if_splits)
  have n: "sz + 16 \<le> 16 * ?n" "0 < ?n" by (auto simp: SLOB_UNITS_def SLOB_UNIT_def)
  from a have tk: "heap ar t ys" "bigblocks t = bigblocks s" "\<And>x. x \<notin> free s zs \<Longrightarrow> cell t x = cell s x"
    "sl_units a t = ?n" "{a..<a + 16 * ?n} \<subseteq> free s zs" "free t ys = free s zs - {a..<a + 16 * ?n}"
    "ar + 16 \<noteq> a" "a + 16 * ?n \<noteq> ar" unfolding taken_def by auto
  have same: "cell u x = cell t x" if "x \<notin> {a..<a + 16 * ?n} \<or> x = a" for x
    using u a(1) n(1) that by auto
  have nb: "{a..<a + 16 * ?n} \<inter> free t ys = {}" using tk(6) by blast
  then have sb: "cell u x = cell t x" if "x \<in> slob_bytes t ys" for x
    using same that unfolding room_def by blast
  from tk(1) have hp: "slob_wf ar t ys" "ok (psrc t)" "slob_bytes t ys \<inter> avail (psrc t) = {}"
    "\<forall>x \<in> avail (psrc t). ar + 16 < x" unfolding heap_ok_def by blast+
  have ut: "slobfree u = slobfree t" "psrc u = psrc t" "bigblocks u = bigblocks s" using u(1) tk(2) by simp_all
  have fu: "slob_wf ar u ys" "slob_bytes u ys = slob_bytes t ys" using slob_wf_frame [OF hp(1) sb ut(1)] by blast+
  then have hu: "heap ar u ys" "free u ys = free t ys" using hp ut(2) by (simp_all add: heap_ok_def room_def)
  have ua: "sl_units a u = ?n" using same [of a] tk(4) by simp
  have out: "cell u x = cell s x" if "x \<notin> free s zs" for x
  proof -
    have "x \<notin> {a..<a + 16 * ?n}" using tk(5) that by blast
    then show ?thesis using same tk(3) [OF that] by simp
  qed
  have "bigs_ok u (free s zs) bbs"
    using bg out unfolding bigs_ok_def ut(3)
    by (auto simp: bb_pages_def intro: big_path_frame)
  moreover have "p \<in> free s zs" using tk(5) a(1) n sz(1) by auto
  ultimately obtain v vs where v: "kfree put p u = Some v" "heap ar v vs" "free v vs = free u ys \<union> {a..<a + 16 * ?n}"
    "bigblocks v = bigblocks u"
    using kfree_small_ok [OF hu(1) a(1,2)] nb tk(7,8) n(2) unfolding ua hu(2) by blast
  have "free v vs = free s zs" using v(3) hu(2) tk(5,6) by blast
  then show ?thesis using v(1,2,4) ut(3) by auto
qed

text \<open>Both kinds of requests together; \<open>usable\<close> is the memory a block gives to the program.\<close>

lemma kmalloc_outcomes:
  assumes h: "heap ar s zs" and sz: "0 < sz"
  shows "if sz + 32 < PAGE_SIZE
    then \<exists>a t ys. kmalloc get sz s = Some (if a = 0 then 0 else a + 16, t) \<and> taken ok avail ar (SLOB_UNITS (sz + 16)) s zs a t ys
    else if sz + 16 < PAGE_SIZE then kmalloc get sz s = None
    else \<exists>p t ys. kmalloc get sz s = Some (p, t) \<and> big_taken ok avail ar (find_order sz) s zs p t ys"
  using kmalloc_small_ok [OF h sz] kmalloc_big_ok [OF h] kmalloc_panics by simp

lemma kmalloc_kfree:
  assumes h: "heap ar s zs" and sz: "0 < sz" and bg: "bigs_ok s (free s zs) bbs"
    and m: "kmalloc get sz s = Some (p, t)" "p \<noteq> 0" "PAGE_SIZE \<le> sz + 16 \<longrightarrow> lent p (find_order sz) (psrc t)"
    and u: "u = t\<lparr>cell := c\<rparr>" "\<And>x. x < p \<or> p + usable sz \<le> x \<Longrightarrow> c x = cell t x"
  shows "\<exists>v ys. kfree put p u = Some v \<and> heap ar v ys \<and> free v ys = free s zs \<and> bigblocks v = bigblocks s"
proof (cases "PAGE_SIZE \<le> sz + 16")
  case True
  then have "usable sz = PAGE_SIZE * 2 ^ find_order sz" by (simp add: usable_def SLOB_UNIT_def PAGE_SIZE_def)
  then have "c x = cell t x" if "x \<notin> run_of p (find_order sz)" for x using u(2) [of x] that by (auto simp: run_of_def)
  then show ?thesis using kmalloc_kfree_big [OF h True m(1,2) _ u(1)] m(3) True by blast
next
  case False
  then have "sz + 32 < PAGE_SIZE" using kmalloc_panics [of sz s] m(1) by fastforce
  moreover have "usable sz = sz" using False by (simp add: usable_def SLOB_UNIT_def PAGE_SIZE_def)
  ultimately show ?thesis using kmalloc_kfree_small [OF h sz _ bg m(1,2) u(1)] u(2) by simp
qed

end

subsection \<open>The page allocator of the kernel as the source\<close>

text \<open>\<open>slob_get_free_pages\<close> and \<open>slob_free_pages\<close> before swapping is switched on. A page can be given
  back on the terms of the first-fit manager and when it lies in the mapped kernel memory.\<close>

definition page_kva :: "vm \<Rightarrow> nat \<Rightarrow> nat" where
  "page_kva v p = 0xFFFFFFFF40000000 + PAGE_SIZE * (p + nbase v)"

definition kpages_ok :: "nat \<Rightarrow> nat \<Rightarrow> vm \<Rightarrow> bool" where
  "kpages_ok nb np v \<longleftrightarrow> pmm_inv (phys v) \<and> \<not> swap_init_ok v \<and> nbase v = nb \<and> npage v = np \<and> np \<le> 0xC0000 \<and>
     (\<forall>p \<in> free_set (phys v). p + nb < np)"

definition kavail :: "vm \<Rightarrow> nat set" where
  "kavail v = (\<Union>p \<in> free_set (phys v). {page_kva v p..<page_kva v p + PAGE_SIZE})"

definition klent :: "nat \<Rightarrow> nat \<Rightarrow> vm \<Rightarrow> bool" where
  "klent a k v \<longleftrightarrow> (\<exists>p. a = page_kva v p \<and> 0x80200 \<le> p + nbase v \<and> free_ok p (2 ^ k) (phys v) \<and>
     p + 2 ^ k + nbase v \<le> npage v)"

lemma unat_small: "m < 2 ^ 64 \<Longrightarrow> unat (of_nat m :: 64 word) = m"
  by (simp add: unat_of_nat)

lemma kva_word:
  assumes "m < 0xC0000"
  shows "unat (push_bit 12 (of_nat m :: 64 word) + va_pa_offset) = 0xFFFFFFFF40000000 + PAGE_SIZE * m"
    "(of_nat (0xFFFFFFFF40000000 + PAGE_SIZE * m) :: 64 word) - va_pa_offset = push_bit 12 (of_nat m)"
    "unat (PPN (push_bit 12 (of_nat m :: 64 word))) = m"
    "0x80200 \<le> m \<Longrightarrow> KERNBASE \<le> (of_nat (0xFFFFFFFF40000000 + PAGE_SIZE * m) :: 64 word)"
proof -
  have e: "push_bit 12 (of_nat m :: 64 word) = of_nat (PAGE_SIZE * m)"
    by (simp add: push_bit_eq_mult PAGE_SIZE_def mult.commute)
  have sum: "push_bit 12 (of_nat m :: 64 word) + va_pa_offset = of_nat (0xFFFFFFFF40000000 + PAGE_SIZE * m)"
    unfolding e va_pa_offset_def by simp
  have lt: "0xFFFFFFFF40000000 + PAGE_SIZE * m < 2 ^ 64" using assms by (simp add: PAGE_SIZE_def)
  then show "unat (push_bit 12 (of_nat m :: 64 word) + va_pa_offset) = 0xFFFFFFFF40000000 + PAGE_SIZE * m"
    unfolding sum by (intro unat_small) simp
  show "(of_nat (0xFFFFFFFF40000000 + PAGE_SIZE * m) :: 64 word) - va_pa_offset = push_bit 12 (of_nat m)"
    unfolding sum [symmetric] by simp
  have "unat (of_nat (PAGE_SIZE * m) :: 64 word) = PAGE_SIZE * m" using lt by (intro unat_small) simp
  then show "unat (PPN (push_bit 12 (of_nat m :: 64 word))) = m"
    unfolding e PPN_def unat_drop_bit_eq by (simp add: drop_bit_eq_div PAGE_SIZE_def del: of_nat_mult)
  show "0x80200 \<le> m \<Longrightarrow> KERNBASE \<le> (of_nat (0xFFFFFFFF40000000 + PAGE_SIZE * m) :: 64 word)"
  proof -
    assume "0x80200 \<le> m"
    then have "unat KERNBASE \<le> 0xFFFFFFFF40000000 + PAGE_SIZE * m" by (simp add: KERNBASE_def PAGE_SIZE_def)
    then show ?thesis using lt by (simp add: word_le_nat_alt unat_small del: of_nat_add of_nat_mult)
  qed
qed

lemma run_of_pages: "run_of (page_kva v p) k = (\<Union>i \<in> {p..<p + 2 ^ k}. {page_kva v i..<page_kva v i + PAGE_SIZE})"
proof -
  have "x \<in> run_of (page_kva v p) k \<longleftrightarrow> (\<exists>i \<in> {p..<p + 2 ^ k}. page_kva v i \<le> x \<and> x < page_kva v i + PAGE_SIZE)" for x
  proof
    assume x: "x \<in> run_of (page_kva v p) k"
    let ?i = "p + (x - page_kva v p) div PAGE_SIZE"
    have "(x - page_kva v p) div PAGE_SIZE < 2 ^ k"
      using x by (auto simp: run_of_def PAGE_SIZE_def intro: less_mult_imp_div_less)
    moreover have "page_kva v ?i = page_kva v p + PAGE_SIZE * ((x - page_kva v p) div PAGE_SIZE)"
      by (simp add: page_kva_def algebra_simps)
    moreover have le: "page_kva v p \<le> x" using x by (simp add: run_of_def)
    have "x - page_kva v p < PAGE_SIZE * ((x - page_kva v p) div PAGE_SIZE) + PAGE_SIZE"
      using dividend_less_times_div [of PAGE_SIZE "x - page_kva v p"] by (simp add: PAGE_SIZE_def)
    moreover have "page_kva v p + PAGE_SIZE * ((x - page_kva v p) div PAGE_SIZE) \<le> x"
      using le times_div_less_eq_dividend [of PAGE_SIZE "x - page_kva v p"] by linarith
    ultimately show "\<exists>i \<in> {p..<p + 2 ^ k}. page_kva v i \<le> x \<and> x < page_kva v i + PAGE_SIZE"
      using le by (intro bexI [of _ ?i]) auto
  next
    assume "\<exists>i \<in> {p..<p + 2 ^ k}. page_kva v i \<le> x \<and> x < page_kva v i + PAGE_SIZE"
    then obtain i where i: "p \<le> i" "i < p + 2 ^ k" "page_kva v i \<le> x" "x < page_kva v i + PAGE_SIZE" by auto
    define d where "d = i - p"
    have id: "i = p + d" using i(1) by (simp add: d_def)
    have "d < 2 ^ k" using i(2) id by simp
    moreover have "page_kva v i = page_kva v p + PAGE_SIZE * d" unfolding id page_kva_def by (simp add: algebra_simps)
    ultimately have "d < 2 ^ k" "page_kva v p + PAGE_SIZE * d \<le> x" "x < page_kva v p + PAGE_SIZE * d + PAGE_SIZE"
      using i(3,4) by simp_all
    moreover have "PAGE_SIZE * d + PAGE_SIZE \<le> PAGE_SIZE * 2 ^ k"
      using \<open>d < 2 ^ k\<close> by (metis Suc_leI add.commute mult_Suc_right mult_le_mono2)
    ultimately show "x \<in> run_of (page_kva v p) k" by (auto simp: run_of_def)
  qed
  then show ?thesis unfolding UNION_eq atLeastLessThan_iff by (intro set_eqI) simp
qed

lemma kavail_run:
  assumes "nbase u = nbase v"
  shows "free_set (phys u) = free_set (phys v) - {p..<p + 2 ^ k} \<Longrightarrow> kavail u = kavail v - run_of (page_kva v p) k"
    "free_set (phys u) = free_set (phys v) \<union> {p..<p + 2 ^ k} \<Longrightarrow> kavail u = kavail v \<union> run_of (page_kva v p) k"
    "{p..<p + 2 ^ k} \<subseteq> free_set (phys v) \<Longrightarrow> run_of (page_kva v p) k \<subseteq> kavail v"
proof -
  have e: "page_kva u = page_kva v" using assms by (simp add: page_kva_def fun_eq_iff)
  have one: "i = j" if "page_kva v i \<le> x" "x < page_kva v i + PAGE_SIZE" "page_kva v j \<le> x" "x < page_kva v j + PAGE_SIZE" for i j x
    using that by (auto simp: page_kva_def PAGE_SIZE_def)
  show "kavail u = kavail v - run_of (page_kva v p) k" if "free_set (phys u) = free_set (phys v) - {p..<p + 2 ^ k}"
  proof (rule set_eqI)
    fix x
    let ?in = "\<lambda>i. x \<in> {page_kva v i..<page_kva v i + PAGE_SIZE}"
    have "x \<in> kavail u \<longleftrightarrow> (\<exists>i. i \<in> free_set (phys v) \<and> i \<notin> {p..<p + 2 ^ k} \<and> ?in i)"
      unfolding kavail_def e that by blast
    also have "... \<longleftrightarrow> (\<exists>i. i \<in> free_set (phys v) \<and> ?in i) \<and> \<not> (\<exists>i. i \<in> {p..<p + 2 ^ k} \<and> ?in i)"
      using one [of _ x] by (metis atLeastLessThan_iff)
    also have "... \<longleftrightarrow> x \<in> kavail v - run_of (page_kva v p) k"
      unfolding kavail_def run_of_pages by blast
    finally show "x \<in> kavail u \<longleftrightarrow> x \<in> kavail v - run_of (page_kva v p) k" .
  qed
  show "free_set (phys u) = free_set (phys v) \<union> {p..<p + 2 ^ k} \<Longrightarrow> kavail u = kavail v \<union> run_of (page_kva v p) k"
    unfolding kavail_def e run_of_pages by simp
  show "{p..<p + 2 ^ k} \<subseteq> free_set (phys v) \<Longrightarrow> run_of (page_kva v p) k \<subseteq> kavail v"
    unfolding kavail_def run_of_pages by blast
qed

lemma kernel_get_ok:
  assumes ok: "kpages_ok nb np v"
  shows "\<exists>a u. slob_get_free_pages sm k v = Some (a, u) \<and> kpages_ok nb np u \<and>
      (if a = 0 then kavail u = kavail v
       else a mod PAGE_SIZE = 0 \<and> run_of a k \<subseteq> kavail v \<and> kavail u = kavail v - run_of a k)"
proof -
  from ok have o: "pmm_inv (phys v)" "\<not> swap_init_ok v" "nbase v = nb" "npage v = np" "np \<le> 0xC0000"
    "\<forall>p \<in> free_set (phys v). p + nb < np" unfolding kpages_ok_def by blast+
  obtain r t where r: "default_alloc_pages (2 ^ k) (phys v) = Some (r, t)" "pmm_inv t" "alloc_outcome (2 ^ k) (phys v) r t"
    using default_alloc_ok [OF o(1), of "2 ^ k"] by auto
  let ?u = "v\<lparr>phys := t\<rparr>"
  have al: "alloc_pages sm (2 ^ k) v = Some (r, ?u)" using r(1) o(2) by (subst alloc_pages.simps) simp
  show ?thesis
  proof (cases r)
    case None
    then have "t = phys v" using r(3) by (simp add: alloc_outcome_def)
    then show ?thesis using al None ok by (simp add: slob_get_free_pages_def)
  next
    case (Some p)
    then have p: "{p..<p + 2 ^ k} \<subseteq> free_set (phys v)" "free_set t = free_set (phys v) - {p..<p + 2 ^ k}"
      using r(3) by (simp_all add: alloc_outcome_def)
    have "p \<in> {p..<p + 2 ^ k}" by simp
    then have m: "p + nb < np" using o(6) p(1) by blast
    then have w: "page2kva p ?u = Some (push_bit 12 (of_nat (p + nbase v)) + va_pa_offset)"
      using kva_word(3) [of "p + nb"] o(3-5) by (simp add: page2kva_def KADDR_def page2pa_def page2ppn_def)
    have "unat (push_bit 12 (of_nat (p + nbase v) :: 64 word) + va_pa_offset) = page_kva v p"
      using kva_word(1) [of "p + nbase v"] m o(3,5) by (simp add: page_kva_def)
    then have run: "slob_get_free_pages sm k v = Some (page_kva v p, ?u)"
      using al Some w by (simp add: slob_get_free_pages_def)
    have "page_kva v p \<noteq> 0" "page_kva v p mod PAGE_SIZE = 0" by (simp_all add: page_kva_def PAGE_SIZE_def)
    moreover have "kpages_ok nb np ?u" using o r(2) p(2) by (simp add: kpages_ok_def)
    moreover have "run_of (page_kva v p) k \<subseteq> kavail v" "kavail ?u = kavail v - run_of (page_kva v p) k"
      using kavail_run(1) [of ?u v p k] kavail_run(3) [of v v p k] p by simp_all
    ultimately show ?thesis using run by simp
  qed
qed

lemma kernel_put_ok:
  assumes ok: "kpages_ok nb np v" and l: "klent a k v"
  shows "\<exists>u. slob_free_pages a k v = Some u \<and> kpages_ok nb np u \<and> kavail u = kavail v \<union> run_of a k"
proof -
  from ok have o: "pmm_inv (phys v)" "\<not> swap_init_ok v" "nbase v = nb" "npage v = np" "np \<le> 0xC0000"
    "\<forall>p \<in> free_set (phys v). p + nb < np" unfolding kpages_ok_def by blast+
  from l obtain p where p: "a = page_kva v p" "0x80200 \<le> p + nbase v" "free_ok p (2 ^ k) (phys v)" "p + 2 ^ k + nbase v \<le> npage v"
    unfolding klent_def by blast
  obtain t where t: "default_free_pages p (2 ^ k) (phys v) = Some t" "pmm_inv t" "free_set t = free_set (phys v) \<union> {p..<p + 2 ^ k}"
    using default_free_ok [OF o(1) p(3)] by blast
  have "(1::nat) \<le> 2 ^ k" by simp
  then have m: "p + nbase v < npage v" using p(4) by linarith
  then have m': "p + nbase v < 0xC0000" using o(4,5) by simp
  have "kva2page (of_nat a) v = Some p"
    using kva_word(2,3,4) [OF m'] p(1,2) m unfolding page_kva_def
    by (simp add: kva2page_def PADDR_def pa2page_def del: of_nat_add of_nat_mult)
  then have run: "slob_free_pages a k v = Some (v\<lparr>phys := t\<rparr>)" using t(1) by (simp add: slob_free_pages_def free_pages_def)
  have "i + nb < np" if "i \<in> {p..<p + 2 ^ k}" for i using that p(4) o(3,4) by auto
  then have "kpages_ok nb np (v\<lparr>phys := t\<rparr>)" using o t(2,3) by (auto simp: kpages_ok_def)
  moreover have "kavail (v\<lparr>phys := t\<rparr>) = kavail v \<union> run_of a k"
    using kavail_run(2) [of "v\<lparr>phys := t\<rparr>" v p k] t(3) p(1) by simp
  ultimately show ?thesis using run by blast
qed

interpretation kpages: page_source "slob_get_free_pages sm" slob_free_pages "kpages_ok nb np" kavail klent
  for sm nb np
  by unfold_locales (rule kernel_get_ok, assumption, rule kernel_put_ok, assumption+)

subsection \<open>The properties over the pages of the kernel\<close>

text \<open>C1: \<open>kmalloc\<close> of 1 to \<open>2 ^ 31 - 1\<close> bytes, while swapping is not yet enabled, on a well-formed heap. Up to 4063
  bytes it returns: without room and without a page null, and the free memory is as before; otherwise a
  block of the size with its header, which leaves the free memory of the allocator or of the pages. From 4064 to 4079 bytes the
  kernel panics. From 4080 bytes it returns: null, and the free memory and the list of big blocks are as before, or
  a run of \<open>2 ^ find_order sz\<close> pages, which leaves the free memory together with a descriptor that becomes the head of the list
  of big blocks. It writes to nothing outside the free memory, and the free list stays a ring
  of blocks in the order of their addresses no two of which touch.\<close>

theorem kmalloc_takes_block:
  assumes "heap_ok (kpages_ok nb np) kavail ar s zs" "0 < sz" "sz < 2 ^ 31"
  shows "if sz + 32 < PAGE_SIZE
    then \<exists>a t ys. kmalloc (slob_get_free_pages sm) sz s = Some (if a = 0 then 0 else a + 16, t) \<and>
      taken (kpages_ok nb np) kavail ar (SLOB_UNITS (sz + 16)) s zs a t ys
    else if sz + 16 < PAGE_SIZE then kmalloc (slob_get_free_pages sm) sz s = None
    else \<exists>p t ys. kmalloc (slob_get_free_pages sm) sz s = Some (p, t) \<and>
      big_taken (kpages_ok nb np) kavail ar (find_order sz) s zs p t ys"
  by (rule kpages.kmalloc_outcomes [OF assms(1,2)])

text \<open>A heap with one block of ten units behind the arena, over the pages of a small machine.\<close>

definition ex_kvm :: vm where "ex_kvm = ex_vm\<lparr>nbase := 0x80200, npage := 0x8020A\<rparr>"

definition ex_arena :: nat where "ex_arena = 0xFFFFFFFFC0001000"
definition ex_block :: nat where "ex_block = 0xFFFFFFFFC0005000"

definition ex_slob :: "vm kmem" where
  "ex_slob = \<lparr>cell = (\<lambda>_. 0)(ex_arena := 1, ex_arena + 8 := ex_block, ex_block := 10, ex_block + 8 := ex_arena),
     slobfree = ex_arena, bigblocks = 0, psrc = ex_kvm\<rparr>"

lemma ex_slob_heap: "heap_ok (kpages_ok 0x80200 0x8020A) kavail ex_arena ex_slob [ex_block, ex_arena]"
proof -
  have "blocks_ok (cell ex_slob) ([ex_arena] @ [ex_block])"
    by (simp add: blocks_ok_def ex_slob_def ex_arena_def ex_block_def)
  then have "ring_ok (cell ex_slob) ([ex_block] @ [ex_arena])" by (rule ring_okI)
  then have w: "slob_wf ex_arena ex_slob [ex_block, ex_arena]"
    by (intro slob_wfI) (simp_all add: ex_slob_def ex_arena_def ex_block_def)
  have k: "kpages_ok 0x80200 0x8020A ex_kvm"
    using ex_pmm_inv ex_vm_free by (simp add: kpages_ok_def ex_kvm_def ex_vm_def)
  have av: "kavail ex_kvm = (\<Union>p \<in> {2, 3, 4, 8, 9}. {page_kva ex_kvm p..<page_kva ex_kvm p + PAGE_SIZE})"
    unfolding kavail_def using ex_vm_free by (simp add: ex_kvm_def)
  have kv: "page_kva ex_kvm p = 0xFFFFFFFFC0200000 + 4096 * p" for p
    by (simp add: page_kva_def ex_kvm_def PAGE_SIZE_def)
  have "slob_bytes ex_slob [ex_block, ex_arena] = {ex_block..<ex_block + 160} \<union> {ex_arena..<ex_arena + 16}"
    by (simp add: ex_slob_def ex_arena_def ex_block_def)
  then have "slob_bytes ex_slob [ex_block, ex_arena] \<inter> kavail ex_kvm = {}"
    unfolding av kv by (auto simp: ex_arena_def ex_block_def PAGE_SIZE_def)
  moreover have "\<forall>x \<in> kavail ex_kvm. ex_arena + 16 < x" unfolding av kv by (auto simp: ex_arena_def)
  moreover have "psrc ex_slob = ex_kvm" by (simp add: ex_slob_def)
  ultimately show ?thesis using w k by (simp add: heap_ok_def)
qed

theorem kmalloc_takes_block_witness:
  "(\<exists>a t ys. kmalloc (slob_get_free_pages swap_manager_fifo) 100 ex_slob = Some (if a = 0 then 0 else a + 16, t) \<and>
      taken (kpages_ok 0x80200 0x8020A) kavail ex_arena (SLOB_UNITS (100 + 16)) ex_slob [ex_block, ex_arena] a t ys) \<and>
   kmalloc (slob_get_free_pages swap_manager_fifo) 4070 ex_slob = None \<and>
   (\<exists>p t ys. kmalloc (slob_get_free_pages swap_manager_fifo) 5000 ex_slob = Some (p, t) \<and>
      big_taken (kpages_ok 0x80200 0x8020A) kavail ex_arena (find_order 5000) ex_slob [ex_block, ex_arena] p t ys)"
  using kmalloc_takes_block [OF ex_slob_heap, of 100 swap_manager_fifo]
    kmalloc_takes_block [OF ex_slob_heap, of 4070 swap_manager_fifo]
    kmalloc_takes_block [OF ex_slob_heap, of 5000 swap_manager_fifo]
  by (simp add: PAGE_SIZE_def)

text \<open>C8: A block that \<open>kmalloc\<close> returned for 1 to \<open>2 ^ 31 - 1\<close> bytes, while swapping is not yet enabled, can be given
  back: whatever the program wrote to the bytes of the block, \<open>kfree\<close> returns, and the free memory and the list of big blocks
  are again what they were before \<open>kmalloc\<close>. For a block of whole pages the page manager must be
  able to take the pages back (\<open>klent\<close>: no page is free, or one above them is).\<close>

theorem kmalloc_kfree_restores:
  assumes "heap_ok (kpages_ok nb np) kavail ar s zs" "0 < sz" "sz < 2 ^ 31" "bigs_ok s (room kavail s zs) bbs"
    and "kmalloc (slob_get_free_pages sm) sz s = Some (p, t)" "p \<noteq> 0"
    and "PAGE_SIZE \<le> sz + 16 \<longrightarrow> klent p (find_order sz) (psrc t)"
    and "u = t\<lparr>cell := c\<rparr>" "\<And>x. x < p \<or> p + usable sz \<le> x \<Longrightarrow> c x = cell t x"
  shows "\<exists>v ys. kfree slob_free_pages p u = Some v \<and> heap_ok (kpages_ok nb np) kavail ar v ys \<and>
    room kavail v ys = room kavail s zs \<and> bigblocks v = bigblocks s"
  by (rule kpages.kmalloc_kfree [OF assms(1,2,4-9)])

text \<open>Both kinds of blocks in the small machine: a block of 100 bytes, and one of 5000 bytes, which are the pages 2 and 3.\<close>

lemma ex_kmalloc_small:
  "kmalloc (slob_get_free_pages sm) 100 ex_slob = Some (ex_block + 16, snd (slob_take 8 ex_arena ex_block ex_slob))"
proof -
  have s: "sl_next ex_arena ex_slob = ex_block" "sl_units ex_block ex_slob = 10" "slobfree ex_slob = ex_arena"
    by (simp_all add: ex_slob_def ex_arena_def ex_block_def)
  have n: "SLOB_UNITS 116 = 8" by (simp add: SLOB_UNITS_def SLOB_UNIT_def)
  show ?thesis
    by (simp add: kmalloc_def slob_alloc_def slob_loop.simps [of _ _ _ _ ex_arena ex_block] s n PAGE_SIZE_def SLOB_UNIT_def
        slob_take_def Let_def) (simp add: ex_block_def)
qed

lemma find_order_5000: "find_order 5000 = 1"
  by (simp add: find_order.simps [of 5000] find_order.simps [of 2500])

lemma ex_alloc_two:
  obtains t where "default_alloc_pages 2 ex_pmm = Some (Some 2, t)" "nr_free t = 3" "free_set t = {4, 8, 9}"
    "\<And>i. \<not> PageReserved (pages t i)"
proof -
  let ?t = "take_block 2 2 ex_pmm"
  have run: "default_alloc_pages 2 ex_pmm = Some (Some 2, ?t)"
    by (simp add: default_alloc_pages_def first_fit.simps [of FreeHead] ex_pmm_def list_next_def)
  obtain "pmm_inv ?t" "alloc_outcome 2 ex_pmm (Some 2) ?t" using default_alloc_ok [OF ex_pmm_inv, of 2] run by auto
  then have "free_set ?t = free_set ex_pmm - {2..<2 + 2}" "nr_free ?t = 3" by (simp_all add: alloc_outcome_def ex_pmm_def)
  moreover have "free_set ex_pmm = {2, 3, 4, 8, 9}" using ex_vm_free by (simp add: ex_vm_def)
  moreover have "\<not> PageReserved (pages ?t i)" for i
    by (simp add: take_block_def Let_def ex_pmm_def upd_page_def flag_defs bit_unset_bit_iff bit_set_bit_iff)
  ultimately show ?thesis using run by (intro that [of ?t]) auto
qed

lemma ex_get_pages:
  obtains t where "slob_get_free_pages sm 1 ex_kvm = Some (0xFFFFFFFFC0202000, t)" "klent 0xFFFFFFFFC0202000 1 t"
proof -
  obtain t where t: "default_alloc_pages 2 ex_pmm = Some (Some 2, t)" "nr_free t = 3" "free_set t = {4, 8, 9}"
    "\<And>i. \<not> PageReserved (pages t i)" by (rule ex_alloc_two) blast
  let ?v = "ex_kvm\<lparr>phys := t\<rparr>"
  have "alloc_pages sm 2 ex_kvm = Some (Some 2, ?v)"
    using t(1) by (subst alloc_pages.simps) (simp add: ex_kvm_def ex_vm_def)
  moreover have "page2kva 2 ?v = Some 0xFFFFFFFFC0202000"
    by (simp add: page2kva_def KADDR_def page2pa_def page2ppn_def ex_kvm_def PPN_def va_pa_offset_def ex_vm_def push_bit_eq_mult
        drop_bit_eq_div)
  ultimately have "slob_get_free_pages sm 1 ex_kvm = Some (0xFFFFFFFFC0202000, ?v)" by (simp add: slob_get_free_pages_def)
  moreover have "free_ok 2 2 t" using t(2-4) by (auto simp: free_ok_def)
  then have "klent 0xFFFFFFFFC0202000 1 ?v"
    by (auto simp: klent_def page_kva_def ex_kvm_def ex_vm_def PAGE_SIZE_def intro!: exI [of _ 2])
  ultimately show ?thesis by (rule that)
qed

lemma ex_kmalloc_big:
  "\<exists>t. kmalloc (slob_get_free_pages sm) 5000 ex_slob = Some (0xFFFFFFFFC0202000, t) \<and> klent 0xFFFFFFFFC0202000 1 (psrc t)"
proof -
  obtain t where t: "slob_get_free_pages sm 1 ex_kvm = Some (0xFFFFFFFFC0202000, t)" "klent 0xFFFFFFFFC0202000 1 t"
    by (rule ex_get_pages) blast
  have s: "sl_next ex_arena ex_slob = ex_block" "sl_units ex_block ex_slob = 10" "slobfree ex_slob = ex_arena" "ex_block \<noteq> 0"
    by (simp_all add: ex_slob_def ex_arena_def ex_block_def)
  have n: "SLOB_UNITS 24 = 2" by (simp add: SLOB_UNITS_def SLOB_UNIT_def)
  let ?u = "snd (slob_take 2 ex_arena ex_block ex_slob)"
  have a: "slob_alloc (slob_get_free_pages sm) 24 0 ex_slob = Some (ex_block, ?u)"
    by (simp add: slob_alloc_def slob_loop.simps [of _ _ _ _ ex_arena ex_block] s n PAGE_SIZE_def SLOB_UNIT_def
        slob_take_def Let_def)
  have q: "psrc ?u = ex_kvm" by (simp add: slob_take_def Let_def set_next_def set_units_def wr_def ex_slob_def)
  show ?thesis
    using t s(4) by (simp add: kmalloc_def BIGBLOCK_SIZE_def a q PAGE_SIZE_def bb_order_def bb_pages_def wr_def find_order_5000
        SLOB_UNIT_def)
qed

theorem kmalloc_kfree_restores_witness:
  "(\<exists>p t v ys. kmalloc (slob_get_free_pages swap_manager_fifo) 100 ex_slob = Some (p, t) \<and> p \<noteq> 0 \<and>
      kfree slob_free_pages p (t\<lparr>cell := (cell t)(p := 7)\<rparr>) = Some v \<and>
      heap_ok (kpages_ok 0x80200 0x8020A) kavail ex_arena v ys \<and>
      room kavail v ys = room kavail ex_slob [ex_block, ex_arena] \<and> bigblocks v = bigblocks ex_slob) \<and>
   (\<exists>p t v ys. kmalloc (slob_get_free_pages swap_manager_fifo) 5000 ex_slob = Some (p, t) \<and> p \<noteq> 0 \<and>
      kfree slob_free_pages p (t\<lparr>cell := (cell t)(p := 7)\<rparr>) = Some v \<and>
      heap_ok (kpages_ok 0x80200 0x8020A) kavail ex_arena v ys \<and>
      room kavail v ys = room kavail ex_slob [ex_block, ex_arena] \<and> bigblocks v = bigblocks ex_slob)"
proof -
  have b: "bigs_ok ex_slob (room kavail ex_slob [ex_block, ex_arena]) []" by (simp add: bigs_ok_def ex_slob_def)
  have r: "\<exists>p t v ys. kmalloc (slob_get_free_pages swap_manager_fifo) sz ex_slob = Some (p, t) \<and> p \<noteq> 0 \<and>
      kfree slob_free_pages p (t\<lparr>cell := (cell t)(p := 7)\<rparr>) = Some v \<and>
      heap_ok (kpages_ok 0x80200 0x8020A) kavail ex_arena v ys \<and>
      room kavail v ys = room kavail ex_slob [ex_block, ex_arena] \<and> bigblocks v = bigblocks ex_slob"
    if z: "sz = 100 \<or> sz = 5000" for sz
  proof -
    obtain p t where m: "kmalloc (slob_get_free_pages swap_manager_fifo) sz ex_slob = Some (p, t)" "p \<noteq> 0"
      "PAGE_SIZE \<le> sz + 16 \<longrightarrow> klent p (find_order sz) (psrc t)"
      using z ex_kmalloc_small [of swap_manager_fifo] ex_kmalloc_big [of swap_manager_fifo]
      by (auto simp: find_order_5000 PAGE_SIZE_def)
    have "0 < usable sz" using z by (auto simp: usable_def PAGE_SIZE_def)
    then have c: "((cell t)(p := 7)) x = cell t x" if "x < p \<or> p + usable sz \<le> x" for x using that by auto
    have "0 < sz" "sz < 2 ^ 31" using z by auto
    then show ?thesis using kmalloc_kfree_restores [OF ex_slob_heap _ _ b m refl c] m(1,2) by blast
  qed
  show ?thesis using r [of 100] r [of 5000] by simp
qed

text \<open>
  The order of a big block is found by halving the size, which rounds down: the run of pages may be shorter
  than the request, by less than \<open>2 ^ order\<close> bytes.
\<close>

lemma find_order_bound: "sz < (PAGE_SIZE + 1) * 2 ^ find_order sz"
proof (induction sz rule: find_order.induct)
  case (1 sz)
  show ?case
  proof (cases "4096 < sz")
    case True
    then have "sz div 2 < (PAGE_SIZE + 1) * 2 ^ find_order (sz div 2)" using 1 by simp
    moreover have "find_order sz = find_order (sz div 2) + 1" using True by (subst find_order.simps) simp
    ultimately show ?thesis by simp
  next
    case False
    then show ?thesis by (subst find_order.simps) (simp add: PAGE_SIZE_def)
  qed
qed

lemma find_order_short: "PAGE_SIZE * 2 ^ find_order 8193 < 8193"
  by (simp add: find_order.simps [of 8193] find_order.simps [of 4096] PAGE_SIZE_def)

end
