(* ===== verification/Monitor.thy ===== *)
theory Monitor
  imports Philosophers
begin

section \<open>Monitors (kern/sync/monitor.c) and the philosophers that use one\<close>

text \<open>
  A monitor has the semaphore \<open>mutex\<close> for entering, the semaphore \<open>next\<close> on which a thread that has
  signalled sleeps until the thread it woke leaves, the number of those, and a condition variable per
  philosopher, a semaphore with the number of its waiters. Semaphores are value and queue as in
  Philosophers; each statement of \<open>cond_signal\<close>, \<open>cond_wait\<close> and of the routines is a step of its thread, and
  the test of a philosopher and the assignment that follows it are separate steps, so that the exclusion of
  neighbours rests on the monitor.
\<close>

subsection \<open>State\<close>

text \<open>Where the test of a philosopher returns to in the routine that called it.\<close>

datatype ret = FromTake | FromLeft | FromRight

text \<open>
  Where a thread is. \<open>SetEat j r\<close>: the test of \<open>j\<close> succeeded; \<open>Signal\<close>, \<open>SignalUp\<close>, \<open>SignalDown\<close> and
  \<open>SignalEnd\<close>: in \<open>cond_signal\<close> of \<open>j\<close>; \<open>WaitUp\<close>, \<open>WaitDown\<close> and \<open>WaitEnd\<close>: in \<open>cond_wait\<close> of its own
  variable. A thread that sleeps on a semaphore is where it resumes.
\<close>

datatype mpc = Thinking | SetHungry | TestSelf | SetEat nat ret | Signal nat ret | SignalUp nat ret
  | SignalDown ret | SignalEnd ret | TestWait | WaitUp | WaitDown | WaitEnd | LeaveTake | AtTable
  | SetThinking | TestLeft | TestRight | LeavePut | Finished

record mon =
  mpcs :: "nat \<Rightarrow> mpc"
  rounds :: "nat \<Rightarrow> nat"
  state_condvar :: "nat \<Rightarrow> phi_state"
  mutex_sem :: sema
  next_sem :: sema
  next_count :: int
  cv_sem :: "nat \<Rightarrow> sema"
  cv_count :: "nat \<Rightarrow> int"

definition at_pc :: "nat \<Rightarrow> mpc \<Rightarrow> mon \<Rightarrow> mon" where
  "at_pc i c s = s\<lparr>mpcs := (mpcs s)(i := c)\<rparr>"

definition set_state :: "nat \<Rightarrow> phi_state \<Rightarrow> mon \<Rightarrow> mon" where
  "set_state i v s = s\<lparr>state_condvar := (state_condvar s)(i := v)\<rparr>"

fun return_pc :: "ret \<Rightarrow> mpc" where
  "return_pc FromTake = TestWait"
| "return_pc FromLeft = TestRight"
| "return_pc FromRight = LeavePut"

subsection \<open>The monitor\<close>

text \<open>\<open>monitor_init\<close> for the philosophers of \<open>check_sync\<close>.\<close>

definition monitor_init :: "mon \<Rightarrow> mon" where
  "monitor_init s = s\<lparr>next_count := 0, mutex_sem := \<lparr>val = 1, que = []\<rparr>, next_sem := \<lparr>val = 0, que = []\<rparr>,
     cv_count := (\<lambda>_. 0), cv_sem := (\<lambda>_. \<lparr>val = 0, que = []\<rparr>)\<rparr>"

text \<open>Leaving the monitor: to a thread that has signalled, if there is one, otherwise to the entrance.\<close>

definition monitor_leave :: "mon \<Rightarrow> mon" where
  "monitor_leave s =
     (if next_count s > 0 then s\<lparr>next_sem := sem_up (next_sem s)\<rparr> else s\<lparr>mutex_sem := sem_up (mutex_sem s)\<rparr>)"

text \<open>The steps of \<open>cond_signal (&cv[j])\<close> by the thread \<open>i\<close>.\<close>

definition cond_signal :: "nat \<Rightarrow> mon \<Rightarrow> mon" where
  "cond_signal i s =
     (case mpcs s i of
        Signal j r \<Rightarrow>
          if cv_count s j > 0 then at_pc i (SignalUp j r) (s\<lparr>next_count := next_count s + 1\<rparr>)
          else at_pc i (return_pc r) s
      | SignalUp j r \<Rightarrow> at_pc i (SignalDown r) (s\<lparr>cv_sem := (cv_sem s)(j := sem_up (cv_sem s j))\<rparr>)
      | SignalDown r \<Rightarrow> at_pc i (SignalEnd r) (s\<lparr>next_sem := sem_down i (next_sem s)\<rparr>)
      | SignalEnd r \<Rightarrow> at_pc i (return_pc r) (s\<lparr>next_count := next_count s - 1\<rparr>)
      | _ \<Rightarrow> s)"

text \<open>The steps of \<open>cond_wait (&cv[i])\<close> by the thread \<open>i\<close> after \<open>count\<close> is raised.\<close>

definition cond_wait :: "nat \<Rightarrow> mon \<Rightarrow> mon" where
  "cond_wait i s =
     (case mpcs s i of
        WaitUp \<Rightarrow> at_pc i WaitDown (monitor_leave s)
      | WaitDown \<Rightarrow> at_pc i WaitEnd (s\<lparr>cv_sem := (cv_sem s)(i := sem_down i (cv_sem s i))\<rparr>)
      | _ \<Rightarrow> at_pc i LeaveTake (s\<lparr>cv_count := (cv_count s)(i := cv_count s i - 1)\<rparr>))"

subsection \<open>The philosophers\<close>

text \<open>\<open>phi_test_condvar(j)\<close> by the thread \<open>i\<close>: the condition is a step, the assignment the next.\<close>

definition phi_test_condvar :: "nat \<Rightarrow> nat \<Rightarrow> ret \<Rightarrow> mon \<Rightarrow> mon" where
  "phi_test_condvar i j r s =
     (if state_condvar s j = HUNGRY \<and> state_condvar s (LEFT j) \<noteq> EATING \<and> state_condvar s (RIGHT j) \<noteq> EATING
      then at_pc i (SetEat j r) s else at_pc i (return_pc r) s)"

definition phi_set_eating :: "nat \<Rightarrow> nat \<Rightarrow> ret \<Rightarrow> mon \<Rightarrow> mon" where
  "phi_set_eating i j r s = at_pc i (Signal j r) (set_state j EATING s)"

definition phi_take_forks_condvar :: "nat \<Rightarrow> mon \<Rightarrow> mon" where
  "phi_take_forks_condvar i s =
     (case mpcs s i of
        Thinking \<Rightarrow> at_pc i SetHungry (s\<lparr>mutex_sem := sem_down i (mutex_sem s)\<rparr>)
      | SetHungry \<Rightarrow> at_pc i TestSelf (set_state i HUNGRY s)
      | TestSelf \<Rightarrow> phi_test_condvar i i FromTake s
      | TestWait \<Rightarrow>
          if state_condvar s i = HUNGRY then at_pc i WaitUp (s\<lparr>cv_count := (cv_count s)(i := cv_count s i + 1)\<rparr>)
          else at_pc i LeaveTake s
      | _ \<Rightarrow> at_pc i AtTable (monitor_leave s))"

definition philosopher_round :: "nat \<Rightarrow> mon \<Rightarrow> mon" where
  "philosopher_round i s =
     at_pc i (if rounds s i < TIMES then Thinking else Finished) (s\<lparr>rounds := (rounds s)(i := rounds s i + 1)\<rparr>)"

definition phi_put_forks_condvar :: "nat \<Rightarrow> mon \<Rightarrow> mon" where
  "phi_put_forks_condvar i s =
     (case mpcs s i of
        AtTable \<Rightarrow> at_pc i SetThinking (s\<lparr>mutex_sem := sem_down i (mutex_sem s)\<rparr>)
      | SetThinking \<Rightarrow> at_pc i TestLeft (set_state i THINKING s)
      | TestLeft \<Rightarrow> phi_test_condvar i (LEFT i) FromLeft s
      | TestRight \<Rightarrow> phi_test_condvar i (RIGHT i) FromRight s
      | _ \<Rightarrow> philosopher_round i (monitor_leave s))"

definition philosopher_using_condvar :: "nat \<Rightarrow> mon \<Rightarrow> mon" where
  "philosopher_using_condvar i s =
     (case mpcs s i of
        SetEat j r \<Rightarrow> phi_set_eating i j r s
      | Signal j r \<Rightarrow> cond_signal i s
      | SignalUp j r \<Rightarrow> cond_signal i s
      | SignalDown r \<Rightarrow> cond_signal i s
      | SignalEnd r \<Rightarrow> cond_signal i s
      | WaitUp \<Rightarrow> cond_wait i s
      | WaitDown \<Rightarrow> cond_wait i s
      | WaitEnd \<Rightarrow> cond_wait i s
      | Thinking \<Rightarrow> phi_take_forks_condvar i s
      | SetHungry \<Rightarrow> phi_take_forks_condvar i s
      | TestSelf \<Rightarrow> phi_take_forks_condvar i s
      | TestWait \<Rightarrow> phi_take_forks_condvar i s
      | LeaveTake \<Rightarrow> phi_take_forks_condvar i s
      | _ \<Rightarrow> phi_put_forks_condvar i s)"

definition sleeps :: "mon \<Rightarrow> nat \<Rightarrow> bool" where
  "sleeps s i \<longleftrightarrow> i \<in> set (que (mutex_sem s)) \<or> i \<in> set (que (next_sem s)) \<or> i \<in> set (que (cv_sem s i))"

inductive mon_step :: "mon \<Rightarrow> mon \<Rightarrow> bool" where
  "i < N \<Longrightarrow> \<not> sleeps s i \<Longrightarrow> mpcs s i \<noteq> Finished \<Longrightarrow> mon_step s (philosopher_using_condvar i s)"

text \<open>\<open>check_sync\<close>: the monitor as initialised, every thread at its first round.\<close>

definition mon_start :: mon where
  "mon_start = monitor_init \<lparr>mpcs = (\<lambda>_. Thinking), rounds = (\<lambda>_. 1), state_condvar = (\<lambda>_. THINKING),
     mutex_sem = \<lparr>val = 0, que = []\<rparr>, next_sem = \<lparr>val = 0, que = []\<rparr>, next_count = 0,
     cv_sem = (\<lambda>_. \<lparr>val = 0, que = []\<rparr>), cv_count = (\<lambda>_. 0)\<rparr>"

inductive mon_reachable :: "mon \<Rightarrow> bool" where
  start: "mon_reachable mon_start"
| step: "mon_reachable s \<Longrightarrow> mon_step s t \<Longrightarrow> mon_reachable t"

end
