(* ===== verification/MonitorProps.thy ===== *)
theory MonitorProps
  imports Monitor
begin

section \<open>One thread in the monitor, no two neighbours at the table\<close>

text \<open>
  A semaphore that is up, and a thread that is inside and awake, are each a token. \<open>up\<close> and \<open>down\<close> only
  pass the token on, so there is always exactly one; with it the states of the philosophers are changed by
  one thread at a time.
\<close>

subsection \<open>The semaphores as a family\<close>

datatype sid = Entrance | Next | Cond nat

fun sem_of :: "mon \<Rightarrow> sid \<Rightarrow> sema" where
  "sem_of s Entrance = mutex_sem s"
| "sem_of s Next = next_sem s"
| "sem_of s (Cond j) = cv_sem s j"

fun upd_sem :: "sid \<Rightarrow> (sema \<Rightarrow> sema) \<Rightarrow> mon \<Rightarrow> mon" where
  "upd_sem Entrance f s = s\<lparr>mutex_sem := f (mutex_sem s)\<rparr>"
| "upd_sem Next f s = s\<lparr>next_sem := f (next_sem s)\<rparr>"
| "upd_sem (Cond j) f s = s\<lparr>cv_sem := (cv_sem s)(j := f (cv_sem s j))\<rparr>"

definition sids :: "sid set" where "sids = {Entrance, Next} \<union> Cond ` {..<N}"

lemma sids_simps [simp]: "Entrance \<in> sids" "Next \<in> sids" "Cond j \<in> sids \<longleftrightarrow> j < N" "finite sids"
  by (auto simp: sids_def)

text \<open>Where the threads are that may sleep on a semaphore.\<close>

fun queued_pc :: "sid \<Rightarrow> nat \<Rightarrow> mpc \<Rightarrow> bool" where
  "queued_pc Entrance i c \<longleftrightarrow> c = SetHungry \<or> c = SetThinking"
| "queued_pc Next i c \<longleftrightarrow> (\<exists>r. c = SignalEnd r)"
| "queued_pc (Cond j) i c \<longleftrightarrow> i = j \<and> c = WaitEnd"

fun inside :: "mpc \<Rightarrow> bool" where
  "inside Thinking = False"
| "inside (SignalDown r) = False"
| "inside WaitDown = False"
| "inside AtTable = False"
| "inside Finished = False"
| "inside _ = True"

definition queues_ok :: "mon \<Rightarrow> bool" where
  "queues_ok s \<longleftrightarrow> (\<forall>d \<in> sids. distinct (que (sem_of s d)) \<and>
     (\<forall>k \<in> set (que (sem_of s d)). k < N \<and> queued_pc d k (mpcs s k)))"

definition active :: "mon \<Rightarrow> nat \<Rightarrow> bool" where
  "active s i \<longleftrightarrow> i < N \<and> inside (mpcs s i) \<and> \<not> sleeps s i"

definition tokens :: "mon \<Rightarrow> nat" where
  "tokens s = (\<Sum>d \<in> sids. val (sem_of s d)) + card {i. active s i}"

lemma queued_inside: "queued_pc d k c \<Longrightarrow> inside c"
  by (cases d) auto

lemma queued_one: "queued_pc d k c \<Longrightarrow> queued_pc e k c \<Longrightarrow> d = e"
  by (cases d; cases e) auto

lemma sem_of_upd [simp]: "sem_of (upd_sem d f s) e = (if e = d then f (sem_of s d) else sem_of s e)"
  by (cases d; cases e) auto

lemma upd_sem_sels [simp]:
  "mpcs (upd_sem d f s) = mpcs s" "state_condvar (upd_sem d f s) = state_condvar s" "next_count (upd_sem d f s) = next_count s"
  "cv_count (upd_sem d f s) = cv_count s" "rounds (upd_sem d f s) = rounds s"
  by (cases d; simp)+

lemma sem_of_at_pc [simp]: "sem_of (at_pc i c s) d = sem_of s d"
  by (cases d) (simp_all add: at_pc_def)

lemma at_pc_sels [simp]:
  "mpcs (at_pc i c s) = (mpcs s)(i := c)" "state_condvar (at_pc i c s) = state_condvar s"
  "next_count (at_pc i c s) = next_count s" "cv_count (at_pc i c s) = cv_count s"
  by (simp_all add: at_pc_def)

lemma sleeps_sems:
  assumes "queues_ok s" "i < N"
  shows "sleeps s i \<longleftrightarrow> (\<exists>d \<in> sids. i \<in> set (que (sem_of s d)))"
proof
  show "sleeps s i \<Longrightarrow> \<exists>d \<in> sids. i \<in> set (que (sem_of s d))"
    using assms(2) unfolding sleeps_def sids_def by auto
  assume "\<exists>d \<in> sids. i \<in> set (que (sem_of s d))"
  then obtain d where d: "d \<in> sids" "i \<in> set (que (sem_of s d))" by blast
  then have "queued_pc d i (mpcs s i)" using assms(1) unfolding queues_ok_def by blast
  then show "sleeps s i" using d by (cases d) (auto simp: sleeps_def)
qed

lemma finite_active [simp]: "finite {i. active s i}"
  by (rule finite_subset [of _ "{..<N}"]) (auto simp: active_def)

lemma sum_sems:
  assumes "d \<in> sids" "sem_of t d = q" "\<And>e. e \<in> sids \<Longrightarrow> e \<noteq> d \<Longrightarrow> sem_of t e = sem_of s e"
  shows "(\<Sum>e \<in> sids. val (sem_of t e)) + val (sem_of s d) = (\<Sum>e \<in> sids. val (sem_of s e)) + val q"
proof -
  have "(\<Sum>e \<in> sids - {d}. val (sem_of t e)) = (\<Sum>e \<in> sids - {d}. val (sem_of s e))"
    by (rule sum.cong) (use assms(3) in auto)
  then show ?thesis using assms(1,2) by (simp add: sum.remove [of sids d])
qed

subsection \<open>The token\<close>

text \<open>A thread inside that goes on inside and leaves the semaphores alone.\<close>

lemma token_stays:
  assumes q: "queues_ok s" and a: "active s i" "inside c"
    and t: "mpcs t = (mpcs s)(i := c)" "\<And>d. sem_of t d = sem_of s d"
  shows "queues_ok t \<and> tokens t = tokens s"
proof -
  have nq: "i \<notin> set (que (sem_of s d))" if "d \<in> sids" for d
    using a(1) sleeps_sems [OF q, of i] that by (auto simp: active_def)
  then have qt: "queues_ok t" using q unfolding queues_ok_def t by auto
  have "active t k \<longleftrightarrow> active s k" for k
    using a sleeps_sems [OF q, of k] sleeps_sems [OF qt, of k] by (auto simp: active_def t)
  then show ?thesis using qt by (simp add: tokens_def t)
qed

lemma token_down:
  assumes q: "queues_ok s" and i: "i < N" "\<not> inside (mpcs s i)" and d: "d \<in> sids" "queued_pc d i c"
    and t: "mpcs t = (mpcs s)(i := c)" "\<And>e. e \<in> sids \<Longrightarrow> sem_of t e = (if e = d then sem_down i (sem_of s d) else sem_of s e)"
  shows "queues_ok t \<and> tokens t = tokens s"
proof -
  have nq: "i \<notin> set (que (sem_of s e))" if "e \<in> sids" for e
  proof
    assume "i \<in> set (que (sem_of s e))"
    then have "queued_pc e i (mpcs s i)" using q that unfolding queues_ok_def by blast
    then show False using queued_inside i(2) by blast
  qed
  have qt: "queues_ok t"
    using q nq i(1) d unfolding queues_ok_def by (auto simp: t sem_down_def)
  have ins: "inside c" using d(2) by (rule queued_inside)
  have ac: "active t k \<longleftrightarrow> (if k = i then val (sem_of s d) > 0 else active s k)" for k
  proof (cases "k < N")
    case True
    have "(\<exists>e \<in> sids. k \<in> set (que (sem_of t e))) \<longleftrightarrow>
        (\<exists>e \<in> sids. k \<in> set (que (sem_of s e)) \<or> e = d \<and> k = i \<and> val (sem_of s d) = 0)"
      by (rule bex_cong) (auto simp: t sem_down_def)
    then have "sleeps t k \<longleftrightarrow> (if k = i then val (sem_of s d) = 0 else sleeps s k)"
      using nq d(1) unfolding sleeps_sems [OF qt True] sleeps_sems [OF q True] by auto
    then show ?thesis using True ins by (auto simp: active_def t)
  qed (use i(1) in \<open>auto simp: active_def\<close>)
  have ni: "\<not> active s i" using i(2) by (simp add: active_def)
  have sm: "(\<Sum>e \<in> sids. val (sem_of t e)) + val (sem_of s d) =
      (\<Sum>e \<in> sids. val (sem_of s e)) + val (sem_down i (sem_of s d))"
    by (rule sum_sems [OF d(1)]) (use d(1) in \<open>simp_all add: t\<close>)
  show ?thesis
  proof (cases "val (sem_of s d) > 0")
    case True
    then have "{k. active t k} = insert i {k. active s k}" using ac by auto
    then have "card {k. active t k} = card {k. active s k} + 1" using ni by simp
    then show ?thesis using qt sm True by (simp add: tokens_def sem_down_def)
  next
    case False
    then have "{k. active t k} = {k. active s k}" using ac ni by auto
    then show ?thesis using qt sm False by (simp add: tokens_def sem_down_def)
  qed
qed

lemma token_up:
  assumes q: "queues_ok s" and i: "active s i" "\<not> inside c" and d: "d \<in> sids"
    and t: "mpcs t = (mpcs s)(i := c)" "\<And>e. e \<in> sids \<Longrightarrow> sem_of t e = (if e = d then sem_up (sem_of s d) else sem_of s e)"
  shows "queues_ok t \<and> tokens t = tokens s"
proof -
  have iN: "i < N" using i(1) by (simp add: active_def)
  have nq: "i \<notin> set (que (sem_of s e))" if "e \<in> sids" for e
    using i(1) sleeps_sems [OF q iN] that by (auto simp: active_def)
  have sub: "set (que (sem_of t e)) \<subseteq> set (que (sem_of s e))" "distinct (que (sem_of t e))" if "e \<in> sids" for e
    using q that d unfolding queues_ok_def by (auto simp: t sem_up_def split: list.splits dest: bspec [of _ _ d])
  have qt: "queues_ok t"
    using q nq sub unfolding queues_ok_def t(1) by (metis fun_upd_other subsetD)
  have sm: "(\<Sum>e \<in> sids. val (sem_of t e)) + val (sem_of s d) = (\<Sum>e \<in> sids. val (sem_of s e)) + val (sem_up (sem_of s d))"
    by (rule sum_sems [OF d]) (use d in \<open>simp_all add: t\<close>)
  have less: "card ({k. active s k} - {i}) + 1 = card {k. active s k}"
    using card_Suc_Diff1 [of "{k. active s k}" i] i(1) by simp
  show ?thesis
  proof (cases "que (sem_of s d)")
    case Nil
    have "que (sem_of t e) = que (sem_of s e)" if "e \<in> sids" for e using that Nil by (simp add: t sem_up_def)
    then have "sleeps t k \<longleftrightarrow> sleeps s k" if "k < N" for k
      unfolding sleeps_sems [OF qt that] sleeps_sems [OF q that] by simp
    then have e: "{k. active t k} = {k. active s k} - {i}" using i(2) by (auto simp: active_def t)
    have "val (sem_up (sem_of s d)) = val (sem_of s d) + 1" using Nil by (simp add: sem_up_def)
    then have "tokens t = tokens s" using sm less unfolding tokens_def e by linarith
    then show ?thesis using qt by blast
  next
    case (Cons w ws)
    then have w: "w < N" "queued_pc d w (mpcs s w)" "w \<notin> set ws" "w \<noteq> i"
      using q d nq [OF d] unfolding queues_ok_def by (auto dest: bspec [of _ _ d])
    have other: "w \<in> set (que (sem_of s e)) \<Longrightarrow> e \<in> sids \<Longrightarrow> e = d" for e
      using q queued_one w(2) unfolding queues_ok_def by blast
    have "k \<in> set (que (sem_of t e)) \<longleftrightarrow> k \<in> set (que (sem_of s e)) \<and> k \<noteq> w" if "e \<in> sids" for k e
    proof (cases "e = d")
      case True
      then show ?thesis using that Cons w(3) by (auto simp: t sem_up_def)
    next
      case False
      then have "w \<notin> set (que (sem_of s e))" using other that by blast
      then show ?thesis using that False by (auto simp: t)
    qed
    then have "(\<exists>e \<in> sids. k \<in> set (que (sem_of t e))) \<longleftrightarrow> (\<exists>e \<in> sids. k \<in> set (que (sem_of s e)) \<and> k \<noteq> w)" for k
      by (intro bex_cong) simp_all
    then have "sleeps t k \<longleftrightarrow> sleeps s k \<and> k \<noteq> w" if "k < N" for k
      unfolding sleeps_sems [OF qt that] sleeps_sems [OF q that] by simp
    moreover have "sleeps s w" unfolding sleeps_sems [OF q w(1)] using Cons d by (intro bexI [of _ d]) simp_all
    ultimately have "{k. active t k} = insert w ({k. active s k} - {i})" "w \<notin> {k. active s k}"
      using i(2) w queued_inside [OF w(2)] by (auto simp: active_def t)
    then have e: "{k. active t k} = insert w ({k. active s k} - {i})" and nw: "w \<notin> {k. active s k} - {i}" by auto
    have "card {k. active t k} = card ({k. active s k} - {i}) + 1" unfolding e using nw by simp
    moreover have "val (sem_up (sem_of s d)) = val (sem_of s d)" using Cons by (simp add: sem_up_def)
    ultimately have "tokens t = tokens s" using sm less unfolding tokens_def by linarith
    then show ?thesis using qt by blast
  qed
qed

lemma one_token:
  assumes "tokens s = 1" "active s i"
  shows "active s k \<Longrightarrow> k = i" "d \<in> sids \<Longrightarrow> val (sem_of s d) = 0"
proof -
  have "card {k. active s k} \<noteq> 0" using assms(2) by auto
  then have c: "card {k. active s k} = 1" "(\<Sum>d \<in> sids. val (sem_of s d)) = 0"
    using assms(1) unfolding tokens_def by linarith+
  then show "active s k \<Longrightarrow> k = i" using assms(2) by (metis card_1_singletonE mem_Collect_eq singletonD)
  show "d \<in> sids \<Longrightarrow> val (sem_of s d) = 0" using c(2) by simp
qed

subsection \<open>The invariant\<close>

text \<open>What the place of a thread says of the states of the philosophers; \<open>zzz\<close> says that it sleeps on its
  own condition variable.\<close>

fun place_ok :: "(nat \<Rightarrow> phi_state) \<Rightarrow> nat \<Rightarrow> bool \<Rightarrow> mpc \<Rightarrow> bool" where
  "place_ok st i zzz (SetEat j r) \<longleftrightarrow> j < N \<and> st j = HUNGRY \<and> st (LEFT j) \<noteq> EATING \<and> st (RIGHT j) \<noteq> EATING \<and>
     (if r = FromTake then j = i else st i = THINKING)"
| "place_ok st i zzz (Signal j r) \<longleftrightarrow> j < N \<and> st j = EATING \<and> (if r = FromTake then j = i else st i = THINKING)"
| "place_ok st i zzz (SignalUp j r) \<longleftrightarrow> j < N \<and> st j = EATING \<and> (if r = FromTake then j = i else st i = THINKING)"
| "place_ok st i zzz (SignalDown r) \<longleftrightarrow> st i = (if r = FromTake then EATING else THINKING)"
| "place_ok st i zzz (SignalEnd r) \<longleftrightarrow> st i = (if r = FromTake then EATING else THINKING)"
| "place_ok st i zzz TestSelf \<longleftrightarrow> st i = HUNGRY"
| "place_ok st i zzz TestWait \<longleftrightarrow> st i \<noteq> THINKING"
| "place_ok st i zzz WaitUp \<longleftrightarrow> st i \<noteq> THINKING"
| "place_ok st i zzz WaitDown \<longleftrightarrow> st i \<noteq> THINKING"
| "place_ok st i zzz WaitEnd \<longleftrightarrow> (if zzz then st i \<noteq> THINKING else st i = EATING)"
| "place_ok st i zzz LeaveTake \<longleftrightarrow> st i = EATING"
| "place_ok st i zzz AtTable \<longleftrightarrow> st i = EATING"
| "place_ok st i zzz SetThinking \<longleftrightarrow> st i = EATING"
| "place_ok st i zzz c \<longleftrightarrow> st i = THINKING"

definition places_ok :: "mon \<Rightarrow> bool" where
  "places_ok s \<longleftrightarrow> (\<forall>k < N. place_ok (state_condvar s) k (k \<in> set (que (cv_sem s k))) (mpcs s k)) \<and>
     (\<forall>j < N. val (cv_sem s j) > 0 \<longrightarrow> state_condvar s j = EATING) \<and>
     (\<forall>j < N. \<not> (state_condvar s j = EATING \<and> state_condvar s (RIGHT j) = EATING))"

definition mon_inv :: "mon \<Rightarrow> bool" where
  "mon_inv s \<longleftrightarrow> queues_ok s \<and> tokens s = 1 \<and> places_ok s"

text \<open>A thread that is not active is not concerned by another philosopher's state, and of its own it
  bears the change from hungry to eating.\<close>

lemma place_ok_outside:
  assumes "place_ok st k z c" "\<not> inside c \<or> (\<exists>d. queued_pc d k c \<and> (d = Cond k \<longrightarrow> z))"
    "v k = st k \<or> st k = HUNGRY \<and> v k = EATING"
  shows "place_ok v k z c"
proof (cases c)
  case (SignalEnd r)
  then show ?thesis using assms by auto
next
  case WaitEnd
  then have "z" using assms(2) by (auto elim: queued_pc.elims)
  then show ?thesis using assms WaitEnd by auto
next
  case (SignalDown r)
  then show ?thesis using assms by (auto split: if_splits)
qed (use assms in \<open>auto elim: queued_pc.elims\<close>)

lemma inactive_cases:
  assumes q: "queues_ok s" and k: "k < N" "\<not> active s k"
  shows "\<not> inside (mpcs s k) \<or> (\<exists>d. queued_pc d k (mpcs s k) \<and> (d = Cond k \<longrightarrow> k \<in> set (que (cv_sem s k))))"
proof (cases "inside (mpcs s k)")
  case True
  then have "sleeps s k" using k by (simp add: active_def)
  then obtain d where d: "d \<in> sids" "k \<in> set (que (sem_of s d))" using sleeps_sems [OF q k(1)] by blast
  then have "queued_pc d k (mpcs s k)" using q unfolding queues_ok_def by blast
  then show ?thesis using d(2) by (intro disjI2 exI [of _ d]) auto
qed simp

text \<open>A step of an active thread: the others are inactive, all semaphores were down.\<close>

lemma places_active:
  assumes q: "queues_ok s" and o: "tokens s = 1" and p: "places_ok s" and i: "active s i"
    and st: "\<And>k. k \<noteq> i \<Longrightarrow> st k = state_condvar s k \<or> state_condvar s k = HUNGRY \<and> st k = EATING"
    and ex: "\<And>j. j < N \<Longrightarrow> \<not> (st j = EATING \<and> st (RIGHT j) = EATING)"
    and me: "place_ok st i False c"
    and t: "mpcs t = (mpcs s)(i := c)" "state_condvar t = st"
      "\<And>k. k < N \<Longrightarrow> cv_sem t k = cv_sem s k \<or> cv_sem t k = sem_up (cv_sem s k) \<and> st k = EATING"
  shows "places_ok t"
proof -
  have iN: "i < N" using i by (simp add: active_def)
  have nq: "i \<notin> set (que (cv_sem s i))" using i by (auto simp: active_def sleeps_def)
  have qs: "que (cv_sem s k) \<in> {[], [k]}" if "k < N" for k
  proof -
    have "Cond k \<in> sids" using that by simp
    then have "distinct (que (cv_sem s k))" "set (que (cv_sem s k)) \<subseteq> {k}" using q unfolding queues_ok_def by fastforce+
    then show ?thesis by (cases "que (cv_sem s k)"; cases "tl (que (cv_sem s k))") auto
  qed
  have v0: "val (cv_sem s k) = 0" if "k < N" for k using one_token(2) [OF o i, of "Cond k"] that by simp
  have "place_ok st k (k \<in> set (que (cv_sem t k))) (mpcs t k)" if kN: "k < N" for k
  proof (cases "k = i")
    case True
    have "i \<notin> set (que (cv_sem t i))" using t(3) [OF iN] nq qs [OF iN] by (auto simp: sem_up_def)
    then show ?thesis using True me t(1) by simp
  next
    case False
    then have na: "\<not> active s k" using one_token(1) [OF o i] by blast
    have pk: "place_ok (state_condvar s) k (k \<in> set (que (cv_sem s k))) (mpcs s k)" using p kN by (simp add: places_ok_def)
    have old: "place_ok st k (k \<in> set (que (cv_sem s k))) (mpcs s k)"
      using place_ok_outside [of "state_condvar s" k _ _ st, OF pk inactive_cases [OF q kN na] st [OF False]] .
    from t(3) [OF kN] show ?thesis
    proof
      assume "cv_sem t k = cv_sem s k"
      then show ?thesis using old False t(1) by simp
    next
      assume u: "cv_sem t k = sem_up (cv_sem s k) \<and> st k = EATING"
      then have "k \<notin> set (que (cv_sem t k))" using qs [OF kN] by (auto simp: sem_up_def)
      moreover have "mpcs s k = WaitEnd" if "k \<in> set (que (cv_sem s k))"
        using q that kN unfolding queues_ok_def by (auto dest: bspec [of _ _ "Cond k"])
      ultimately show ?thesis using old False t(1) u by (cases "k \<in> set (que (cv_sem s k))") auto
    qed
  qed
  moreover have "st k = EATING" if "k < N" "val (cv_sem t k) > 0" for k
    using t(3) [OF that(1)] v0 [OF that(1)] that(2) by (metis less_irrefl)
  ultimately show ?thesis using ex unfolding places_ok_def t(2) by blast
qed

lemma places_down:
  assumes p: "places_ok s" and i: "i < N"
    and t: "mpcs t = (mpcs s)(i := c)" "state_condvar t = state_condvar s" "\<And>k. k \<noteq> i \<Longrightarrow> cv_sem t k = cv_sem s k"
      "val (cv_sem t i) \<le> val (cv_sem s i)"
    and me: "place_ok (state_condvar s) i (i \<in> set (que (cv_sem t i))) c"
  shows "places_ok t"
proof -
  have "place_ok (state_condvar t) k (k \<in> set (que (cv_sem t k))) (mpcs t k)" if "k < N" for k
    using p me that t by (cases "k = i") (simp_all add: places_ok_def)
  moreover have "state_condvar t k = EATING" if "k < N" "val (cv_sem t k) > 0" for k
  proof -
    have "val (cv_sem s k) > 0" using that(2) t(3,4) by (cases "k = i") auto
    then show ?thesis using p that(1) t(2) by (simp add: places_ok_def)
  qed
  ultimately show ?thesis using p unfolding places_ok_def t(2) by blast
qed

lemma sem_of_updates [simp]:
  "sem_of (s\<lparr>mutex_sem := q\<rparr>) d = (if d = Entrance then q else sem_of s d)"
  "sem_of (s\<lparr>next_sem := q\<rparr>) d = (if d = Next then q else sem_of s d)"
  "sem_of (s\<lparr>cv_sem := (cv_sem s)(j := q)\<rparr>) d = (if d = Cond j then q else sem_of s d)"
  "sem_of (s\<lparr>next_count := n\<rparr>) d = sem_of s d" "sem_of (s\<lparr>cv_count := f\<rparr>) d = sem_of s d"
  "sem_of (s\<lparr>rounds := g\<rparr>) d = sem_of s d" "sem_of (set_state j v s) d = sem_of s d"
  by (cases d; simp add: set_state_def)+

lemma set_state_sels [simp]:
  "mpcs (set_state j v s) = mpcs s" "state_condvar (set_state j v s) = (state_condvar s)(j := v)"
  "cv_sem (set_state j v s) = cv_sem s"
  by (simp_all add: set_state_def)

lemma cv_sem_at_pc [simp]: "cv_sem (at_pc i c s) = cv_sem s"
  by (simp add: at_pc_def)

lemma leave_cases:
  obtains d where "d \<in> {Entrance, Next}" "\<And>e. sem_of (monitor_leave s) e = (if e = d then sem_up (sem_of s d) else sem_of s e)"
proof (cases "next_count s > 0")
  case True
  then show thesis by (intro that [of Next]) (auto simp: monitor_leave_def)
next
  case False
  then show thesis by (intro that [of Entrance]) (auto simp: monitor_leave_def)
qed

lemma leave_sels [simp]:
  "mpcs (monitor_leave s) = mpcs s" "state_condvar (monitor_leave s) = state_condvar s" "cv_sem (monitor_leave s) = cv_sem s"
  "rounds (monitor_leave s) = rounds s"
  by (simp_all add: monitor_leave_def)

text \<open>The four kinds of steps: inside, with or without a change of a state; out of the monitor; to a wait
  for a signal; into a semaphore.\<close>

lemma step_inside:
  assumes inv: "mon_inv s" and i: "active s i" "inside c" and me: "place_ok st i False c"
    and st: "\<And>k. k \<noteq> i \<Longrightarrow> st k = state_condvar s k \<or> state_condvar s k = HUNGRY \<and> st k = EATING"
    and ex: "\<And>j. j < N \<Longrightarrow> \<not> (st j = EATING \<and> st (RIGHT j) = EATING)"
    and t: "mpcs t = (mpcs s)(i := c)" "state_condvar t = st" "\<And>d. sem_of t d = sem_of s d"
  shows "mon_inv t"
proof -
  from inv have q: "queues_ok s" "tokens s = 1" "places_ok s" by (simp_all add: mon_inv_def)
  have "cv_sem t k = cv_sem s k" for k using t(3) [of "Cond k"] by simp
  then have "places_ok t" using places_active [OF q i(1) st ex me t(1,2)] by blast
  then show ?thesis using token_stays [OF q(1) i t(1,3)] q(2) by (simp add: mon_inv_def)
qed

lemma mon_inv_ex: "mon_inv s \<Longrightarrow> j < N \<Longrightarrow> \<not> (state_condvar s j = EATING \<and> state_condvar s (RIGHT j) = EATING)"
  by (simp add: mon_inv_def places_ok_def)

lemma step_up:
  assumes inv: "mon_inv s" and i: "active s i" "\<not> inside c" and me: "place_ok (state_condvar s) i False c"
    and d: "d \<in> sids" "\<And>k. d = Cond k \<Longrightarrow> state_condvar s k = EATING"
    and t: "mpcs t = (mpcs s)(i := c)" "state_condvar t = state_condvar s"
      "\<And>e. sem_of t e = (if e = d then sem_up (sem_of s d) else sem_of s e)"
  shows "mon_inv t"
proof -
  from inv have q: "queues_ok s" "tokens s = 1" "places_ok s" by (simp_all add: mon_inv_def)
  have "cv_sem t k = cv_sem s k \<or> cv_sem t k = sem_up (cv_sem s k) \<and> state_condvar s k = EATING" for k
    using t(3) [of "Cond k"] d(2) [of k] by (cases "d = Cond k") auto
  then have "places_ok t" using places_active [OF q i(1) _ mon_inv_ex [OF inv] me t(1,2)] by blast
  moreover have "queues_ok t \<and> tokens t = tokens s" using token_up [OF q(1) i d(1) t(1)] t(3) by blast
  ultimately show ?thesis using q(2) by (simp add: mon_inv_def)
qed

lemma step_exit:
  assumes "mon_inv s" "active s i" "\<not> inside c" "place_ok (state_condvar s) i False c"
    "mpcs t = (mpcs s)(i := c)" "state_condvar t = state_condvar s" "\<And>e. sem_of t e = sem_of (monitor_leave s) e"
  shows "mon_inv t"
proof -
  obtain d where "d \<in> {Entrance, Next}" "\<And>e. sem_of (monitor_leave s) e = (if e = d then sem_up (sem_of s d) else sem_of s e)"
    using leave_cases by blast
  then show ?thesis using assms by (intro step_up [OF assms(1-4), of d]) auto
qed

lemma step_down:
  assumes inv: "mon_inv s" and i: "i < N" "\<not> inside (mpcs s i)" and d: "d \<in> sids" "queued_pc d i c"
    and me: "\<And>z. z \<or> d \<noteq> Cond i \<or> val (cv_sem s i) > 0 \<Longrightarrow> place_ok (state_condvar s) i z c"
    and t: "mpcs t = (mpcs s)(i := c)" "state_condvar t = state_condvar s"
      "\<And>e. sem_of t e = (if e = d then sem_down i (sem_of s d) else sem_of s e)"
  shows "mon_inv t"
proof -
  from inv have q: "queues_ok s" "tokens s = 1" "places_ok s" by (simp_all add: mon_inv_def)
  have dk: "d \<noteq> Cond k" if "k \<noteq> i" for k using d(2) that by auto
  have cv: "cv_sem t k = cv_sem s k" if "k \<noteq> i" for k using t(3) [of "Cond k"] dk [OF that] by simp
  have ci: "cv_sem t i = (if d = Cond i then sem_down i (cv_sem s i) else cv_sem s i)" using t(3) [of "Cond i"] by simp
  have "places_ok t"
  proof (rule places_down [OF q(3) i(1) t(1,2) cv])
    show "val (cv_sem t i) \<le> val (cv_sem s i)" by (simp add: ci sem_down_def)
    show "place_ok (state_condvar s) i (i \<in> set (que (cv_sem t i))) c"
      by (rule me) (auto simp: ci sem_down_def)
  qed
  moreover have "queues_ok t \<and> tokens t = tokens s" using token_down [OF q(1) i d t(1)] t(3) by blast
  ultimately show ?thesis using q(2) by (simp add: mon_inv_def)
qed

lemmas step_defs = philosopher_using_condvar_def phi_take_forks_condvar_def phi_put_forks_condvar_def
  phi_test_condvar_def phi_set_eating_def cond_signal_def cond_wait_def philosopher_round_def

lemma place_return:
  "st i = (if r = FromTake then EATING else THINKING) \<Longrightarrow> place_ok st i False (return_pc r)"
  by (cases r) simp_all

lemma inside_return [simp]: "inside (return_pc r)"
  by (cases r) simp_all

lemma LEFT_ne: "i < N \<Longrightarrow> LEFT i < N \<and> RIGHT i < N \<and> LEFT i \<noteq> i \<and> RIGHT i \<noteq> i"
  using LEFT_RIGHT by blast

text \<open>The test of \<open>j\<close> by an active thread.\<close>

lemma step_test:
  assumes inv: "mon_inv s" and i: "active s i" and j: "j < N"
    and r: "if r = FromTake then j = i \<and> state_condvar s i \<noteq> THINKING else state_condvar s i = THINKING"
  shows "mon_inv (phi_test_condvar i j r s)"
proof (cases "state_condvar s j = HUNGRY \<and> state_condvar s (LEFT j) \<noteq> EATING \<and> state_condvar s (RIGHT j) \<noteq> EATING")
  case True
  then have "place_ok (state_condvar s) i False (SetEat j r)" using j r by (auto split: if_splits)
  then show ?thesis
    using True by (intro step_inside [OF inv i]) (auto simp: phi_test_condvar_def dest: mon_inv_ex [OF inv])
next
  case False
  have "place_ok (state_condvar s) i False (return_pc r)" using r by (cases r) (auto split: if_splits)
  then show ?thesis
    using False by (intro step_inside [OF inv i]) (auto simp: phi_test_condvar_def dest: mon_inv_ex [OF inv])
qed

lemma step_eat:
  assumes inv: "mon_inv s" and i: "active s i" and c: "mpcs s i = SetEat j r"
  shows "mon_inv (phi_set_eating i j r s)"
proof -
  have iN: "i < N" using i by (simp add: active_def)
  from inv have "place_ok (state_condvar s) i (i \<in> set (que (cv_sem s i))) (SetEat j r)"
    using iN c by (auto simp: mon_inv_def places_ok_def)
  then have p: "j < N" "state_condvar s j = HUNGRY" "state_condvar s (LEFT j) \<noteq> EATING" "state_condvar s (RIGHT j) \<noteq> EATING"
    "if r = FromTake then j = i else state_condvar s i = THINKING" by auto
  let ?st = "(state_condvar s)(j := EATING)"
  have "\<not> (?st k = EATING \<and> ?st (RIGHT k) = EATING)" if "k < N" for k
    using mon_inv_ex [OF inv that] p LEFT_ne [OF p(1)] LEFT_eq [OF p(1) that] by (auto split: if_splits)
  moreover have "place_ok ?st i False (Signal j r)" using p by (auto split: if_splits)
  ultimately show ?thesis
    using p(2,5) by (intro step_inside [OF inv i]) (auto simp: phi_set_eating_def split: if_splits)
qed

lemma step_own:
  assumes inv: "mon_inv s" and i: "active s i" "inside c" and v: "v \<noteq> EATING"
    and me: "place_ok ((state_condvar s)(i := v)) i False c" and t: "t = at_pc i c (set_state i v s)"
  shows "mon_inv t"
proof (rule step_inside [OF inv i me])
  fix k assume "k < N"
  then show "\<not> (((state_condvar s)(i := v)) k = EATING \<and> ((state_condvar s)(i := v)) (RIGHT k) = EATING)"
    using mon_inv_ex [OF inv, of k] v by auto
qed (simp_all add: t)

lemma mon_inv_step:
  assumes inv: "mon_inv s" and i: "i < N" "\<not> sleeps s i" "mpcs s i \<noteq> Finished"
  shows "mon_inv (philosopher_using_condvar i s)"
proof -
  have nz: "i \<notin> set (que (cv_sem s i))" using i(2) by (simp add: sleeps_def)
  have pl: "place_ok (state_condvar s) i False (mpcs s i)"
    using inv i(1) nz by (auto simp: mon_inv_def places_ok_def)
  have ac: "inside (mpcs s i) \<Longrightarrow> active s i" using i by (simp add: active_def)
  note ex = mon_inv_ex [OF inv]
  show ?thesis
  proof (cases "mpcs s i")
    case Thinking
    then show ?thesis
      using pl by (intro step_down [OF inv i(1), of Entrance SetHungry]) (auto simp: step_defs)
  next
    case SetHungry
    then show ?thesis
      using pl ac by (intro step_own [OF inv, of i TestSelf HUNGRY]) (auto simp: step_defs)
  next
    case TestSelf
    then show ?thesis
      using pl ac step_test [OF inv, of i i FromTake] i(1) by (simp add: step_defs(1,2))
  next
    case (SetEat j r)
    then show ?thesis using step_eat [OF inv, of i j r] ac by (simp add: step_defs(1))
  next
    case (Signal j r)
    then have "place_ok (state_condvar s) i False (return_pc r)" using pl by (cases r) auto
    then show ?thesis
      using Signal pl ac ex by (intro step_inside [OF inv, of i "if cv_count s j > 0 then SignalUp j r else return_pc r"])
        (auto simp: step_defs)
  next
    case (SignalUp j r)
    then show ?thesis
      using pl ac by (intro step_up [OF inv, of i "SignalDown r" "Cond j"]) (auto simp: step_defs)
  next
    case (SignalDown r)
    then show ?thesis
      using pl by (intro step_down [OF inv i(1), of Next "SignalEnd r"]) (auto simp: step_defs)
  next
    case (SignalEnd r)
    then show ?thesis
      using pl ac ex place_return by (intro step_inside [OF inv, of i "return_pc r"]) (auto simp: step_defs)
  next
    case TestWait
    then have "state_condvar s i = HUNGRY \<or> state_condvar s i = EATING" using pl by (cases "state_condvar s i") auto
    then show ?thesis
      using TestWait ac ex by (intro step_inside [OF inv, of i "if state_condvar s i = HUNGRY then WaitUp else LeaveTake"])
        (auto simp: step_defs)
  next
    case WaitUp
    then show ?thesis using pl ac by (intro step_exit [OF inv, of i WaitDown]) (auto simp: step_defs)
  next
    case WaitDown
    have "val (cv_sem s i) > 0 \<Longrightarrow> state_condvar s i = EATING" using inv i(1) by (simp add: mon_inv_def places_ok_def)
    then show ?thesis
      using WaitDown pl i(1) by (intro step_down [OF inv i(1), of "Cond i" WaitEnd]) (auto simp: step_defs)
  next
    case WaitEnd
    then show ?thesis
      using pl ac ex by (intro step_inside [OF inv, of i LeaveTake]) (auto simp: step_defs)
  next
    case LeaveTake
    then show ?thesis using pl ac by (intro step_exit [OF inv, of i AtTable]) (auto simp: step_defs)
  next
    case AtTable
    then show ?thesis
      using pl by (intro step_down [OF inv i(1), of Entrance SetThinking]) (auto simp: step_defs)
  next
    case SetThinking
    then show ?thesis
      using ac by (intro step_own [OF inv, of i TestLeft THINKING]) (auto simp: step_defs)
  next
    case TestLeft
    then show ?thesis
      using pl ac step_test [OF inv, of i "LEFT i" FromLeft] LEFT_ne [OF i(1)] by (simp add: step_defs(1,3))
  next
    case TestRight
    then show ?thesis
      using pl ac step_test [OF inv, of i "RIGHT i" FromRight] LEFT_ne [OF i(1)] by (simp add: step_defs(1,3))
  next
    case LeavePut
    then show ?thesis
      using pl ac by (intro step_exit [OF inv, of i "if rounds s i < TIMES then Thinking else Finished"])
        (auto simp: step_defs)
  qed (use i(3) in simp)
qed

lemma mon_inv_start: "mon_inv mon_start"
proof -
  have s: "mpcs mon_start i = Thinking" "state_condvar mon_start i = THINKING" "cv_sem mon_start i = \<lparr>val = 0, que = []\<rparr>"
    "mutex_sem mon_start = \<lparr>val = 1, que = []\<rparr>" "next_sem mon_start = \<lparr>val = 0, que = []\<rparr>" for i
    by (simp_all add: mon_start_def monitor_init_def)
  have v: "val (sem_of mon_start d) = (if d = Entrance then 1 else 0)" "que (sem_of mon_start d) = []" for d
    by (cases d; simp add: s)+
  have "{i. active mon_start i} = {}" by (simp add: active_def s)
  then have "tokens mon_start = 1" by (simp add: tokens_def v)
  then show ?thesis by (simp add: mon_inv_def queues_ok_def places_ok_def v s)
qed

lemma mon_inv_reachable: "mon_reachable s \<Longrightarrow> mon_inv s"
proof (induction rule: mon_reachable.induct)
  case start
  then show ?case by (rule mon_inv_start)
next
  case (step s t)
  then show ?case by (auto elim!: mon_step.cases intro: mon_inv_step)
qed

text \<open>C5: The monitor of \<open>check_sync.c\<close>: in every reachable state at most one thread is awake between entering
  and leaving the monitor, whatever signals and waits it makes; no two neighbours are in the state \<open>EATING\<close>;
  and a philosopher that has left \<open>phi_take_forks_condvar\<close> to eat is in that state.\<close>

theorem monitor_excludes:
  assumes "mon_reachable s" "i < N" "j < N"
  shows "(active s i \<and> active s j \<longrightarrow> i = j) \<and> \<not> (state_condvar s i = EATING \<and> state_condvar s (RIGHT i) = EATING) \<and>
    (mpcs s i = AtTable \<longrightarrow> state_condvar s i = EATING)"
proof -
  have inv: "mon_inv s" using assms(1) by (rule mon_inv_reachable)
  then have "active s i \<and> active s j \<longrightarrow> i = j" using one_token(1) [of s j i] by (auto simp: mon_inv_def)
  moreover have "mpcs s i = AtTable \<longrightarrow> state_condvar s i = EATING"
    using inv assms(2) by (auto simp: mon_inv_def places_ok_def)
  ultimately show ?thesis using mon_inv_ex [OF inv assms(2)] by blast
qed

theorem monitor_excludes_witness:
  "\<exists>s. mon_step mon_start s \<and> active s 2 \<and> (active s 2 \<and> active s 3 \<longrightarrow> 2 = (3::nat)) \<and>
    \<not> (state_condvar s 2 = EATING \<and> state_condvar s (RIGHT 2) = EATING)"
proof -
  let ?s = "philosopher_using_condvar 2 mon_start"
  have st: "mon_step mon_start ?s"
    by (rule mon_step.intros) (simp_all add: N_def sleeps_def mon_start_def monitor_init_def)
  then have "mon_reachable ?s" using mon_reachable.intros by blast
  from monitor_excludes [OF this, of 2 3] have
    "(active ?s 2 \<and> active ?s 3 \<longrightarrow> 2 = (3::nat)) \<and> \<not> (state_condvar ?s 2 = EATING \<and> state_condvar ?s (RIGHT 2) = EATING)"
    by (simp add: N_def)
  moreover have "active ?s 2"
    by (simp add: active_def N_def sleeps_def step_defs mon_start_def monitor_init_def sem_down_def at_pc_def)
  ultimately show ?thesis using st by blast
qed

end
