(* ===== verification/SwapProps.thy ===== *)
theory SwapProps
  imports PageTableProps
begin

section \<open>Page replacement and swapping\<close>

text \<open>
  What the swapping code asks of a manager is the locale \<open>swap_policy\<close>: it keeps the swappable pages
  of an address space, takes in a new one and gives one up. FIFO and the clock are interpretations; what
  \<open>swap_out\<close>, \<open>alloc_pages\<close> and \<open>swap_in\<close> do is proved once, in the locale.
\<close>

subsection \<open>The contract of a manager\<close>

text \<open>A manager changes its list, the visited flags and its hand, nothing else.\<close>

definition policy_step :: "vm \<Rightarrow> vm \<Rightarrow> bool" where
  "policy_step s t \<longleftrightarrow> t = s\<lparr>pra_links := pra_links t, visited := visited t, curr_ptr := curr_ptr t\<rparr>"

lemma policy_step_sels:
  assumes "policy_step s t"
  shows "phys t = phys s" "ram t = ram s" "nbase t = nbase s" "npage t = npage s" "pra_vaddr t = pra_vaddr s"
    "mms t = mms s" "disk t = disk s" "max_swap_offset t = max_swap_offset s" "swap_init_ok t = swap_init_ok s"
    "check_mm_struct t = check_mm_struct s" "pgfault_num t = pgfault_num s"
proof -
  obtain l v c where t: "t = s\<lparr>pra_links := l, visited := v, curr_ptr := c\<rparr>"
    using assms unfolding policy_step_def by blast
  show "phys t = phys s" "ram t = ram s" "nbase t = nbase s" "npage t = npage s" "pra_vaddr t = pra_vaddr s"
    "mms t = mms s" "disk t = disk s" "max_swap_offset t = max_swap_offset s" "swap_init_ok t = swap_init_ok s"
    "check_mm_struct t = check_mm_struct s" "pgfault_num t = pgfault_num s" by (subst t; simp)+
qed

locale swap_policy =
  fixes sm :: swap_manager and pageq :: "vm \<Rightarrow> nat \<Rightarrow> nat list \<Rightarrow> bool" and victim :: "vm \<Rightarrow> nat list \<Rightarrow> nat"
  assumes init_ok: "pageq (sm_init_mm sm mm s) mm []"
    and map_ok: "pageq s mm xs \<Longrightarrow> p \<notin> set xs \<Longrightarrow>
      \<exists>t. map_swappable sm mm a p s = Some t \<and> pageq t mm (xs @ [p]) \<and> policy_step s t"
    and victim_ok: "pageq s mm xs \<Longrightarrow> xs \<noteq> [] \<Longrightarrow>
      \<exists>t. swap_out_victim sm mm False s = Some (Some (victim s xs), t) \<and> victim s xs \<in> set xs \<and>
        pageq t mm (remove1 (victim s xs) xs) \<and> policy_step s t"
    and pageq_frame: "pageq s mm xs \<Longrightarrow> pra_links t = pra_links s \<Longrightarrow> curr_ptr t = curr_ptr s \<Longrightarrow> mms t = mms s \<Longrightarrow> pageq t mm xs"

subsection \<open>First in, first out\<close>

definition fifo_queue :: "vm \<Rightarrow> nat \<Rightarrow> nat list \<Rightarrow> bool" where
  "fifo_queue s mm xs \<longleftrightarrow> sm_priv (mms s mm) = Some PraHead \<and> dlist (pra_links s) PraHead (map PraLink xs)"

lemma upd_pra_sels [simp]:
  "mms (upd_pra f s) = mms s" "visited (upd_pra f s) = visited s" "pra_links (upd_pra f s) = f (pra_links s)"
  "curr_ptr (upd_pra f s) = curr_ptr s" "pra_links (upd_mm mm g s) = pra_links s" "curr_ptr (upd_mm mm g s) = curr_ptr s"
  "mms (upd_mm mm g s) = (mms s)(mm := g (mms s mm))"
  by (simp_all add: upd_pra_def upd_mm_def)

lemma policy_step_upd: "policy_step s (upd_pra f s)" "policy_step s (s\<lparr>visited := v\<rparr>)" "policy_step s (s\<lparr>curr_ptr := c\<rparr>)"
  by (simp_all add: policy_step_def upd_pra_def)

lemma policy_step_trans: "policy_step s t \<Longrightarrow> policy_step t u \<Longrightarrow> policy_step s u"
proof -
  assume a: "policy_step s t" "policy_step t u"
  then obtain l v c l' v' c' where "t = s\<lparr>pra_links := l, visited := v, curr_ptr := c\<rparr>"
    "u = t\<lparr>pra_links := l', visited := v', curr_ptr := c'\<rparr>" unfolding policy_step_def by blast
  then show ?thesis by (simp add: policy_step_def)
qed

lemma fifo_victim:
  assumes "fifo_queue s mm (p # xs)"
  shows "\<exists>t. fifo_swap_out_victim mm False s = Some (Some p, t) \<and> fifo_queue t mm xs \<and> policy_step s t"
proof -
  have d: "dlist (pra_links s) PraHead ([] @ PraLink p # map PraLink xs)" and h: "sm_priv (mms s mm) = Some PraHead"
    using assms by (simp_all add: fifo_queue_def)
  have "list_next PraHead (pra_links s) = PraLink p" using dlist_nxt_head [OF d] by (simp add: list_next_def)
  moreover have "dlist (list_del (PraLink p) (pra_links s)) PraHead (map PraLink xs)" using dlist_del [OF d] by simp
  ultimately show ?thesis
    using h policy_step_upd(1) by (simp add: fifo_swap_out_victim_def fifo_queue_def)
qed

interpretation fifo: swap_policy swap_manager_fifo fifo_queue "\<lambda>_. hd"
proof
  fix mm s
  show "fifo_queue (sm_init_mm swap_manager_fifo mm s) mm []"
    by (simp add: swap_manager_fifo_def fifo_init_mm_def fifo_queue_def dlist_init)
next
  fix s mm xs p a
  assume "fifo_queue s mm xs" "p \<notin> set xs"
  then show "\<exists>t. map_swappable swap_manager_fifo mm a p s = Some t \<and> fifo_queue t mm (xs @ [p]) \<and> policy_step s t"
    using dlist_add_before_head [of "pra_links s" PraHead "map PraLink xs" "PraLink p"] policy_step_upd(1)
    by (auto simp: swap_manager_fifo_def fifo_map_swappable_def fifo_queue_def)
next
  fix s mm and xs :: "nat list"
  assume q: "fifo_queue s mm xs" and "xs \<noteq> []"
  then obtain p ys where "xs = p # ys" by (cases xs) auto
  then show "\<exists>t. swap_out_victim swap_manager_fifo mm False s = Some (Some (hd xs), t) \<and> hd xs \<in> set xs \<and>
      fifo_queue t mm (remove1 (hd xs) xs) \<and> policy_step s t"
    using fifo_victim [of s mm p ys] q by (auto simp: swap_manager_fifo_def)
qed (simp add: fifo_queue_def)

subsection \<open>The clock\<close>

text \<open>The hand may point at a page that is no longer on the list, but then its link still leads to the page
  behind it, or to the head.\<close>

definition clock_queue :: "vm \<Rightarrow> nat \<Rightarrow> nat list \<Rightarrow> bool" where
  "clock_queue s mm xs \<longleftrightarrow> fifo_queue s mm xs \<and>
     nxt (pra_links s) (curr_ptr s) \<in> insert PraHead (PraLink ` set xs)"

text \<open>The pages in the order in which the hand meets them.\<close>

definition from_hand :: "vm \<Rightarrow> nat list \<Rightarrow> nat list" where
  "from_hand s xs =
     (case nxt (pra_links s) (curr_ptr s) of
        PraHead \<Rightarrow> xs
      | PraLink p \<Rightarrow> dropWhile (\<lambda>x. x \<noteq> p) xs @ takeWhile (\<lambda>x. x \<noteq> p) xs)"

text \<open>The choice: the first page that was not visited since the hand passed it, and if all were, the first.\<close>

definition clock_choice :: "(nat \<Rightarrow> bool) \<Rightarrow> nat list \<Rightarrow> nat" where
  "clock_choice v zs = (case find (\<lambda>p. \<not> v p) zs of Some p \<Rightarrow> p | None \<Rightarrow> hd zs)"

definition clock_passed :: "(nat \<Rightarrow> bool) \<Rightarrow> nat list \<Rightarrow> nat set" where
  "clock_passed v zs = set (takeWhile v zs)"

text \<open>The step of the hand over the head of the list.\<close>

definition hand_next :: "vm \<Rightarrow> pra" where
  "hand_next s = (let c = nxt (pra_links s) (curr_ptr s) in if c = PraHead then nxt (pra_links s) c else c)"

fun hand_path :: "pra links \<Rightarrow> pra \<Rightarrow> nat list \<Rightarrow> bool" where
  "hand_path h c [] \<longleftrightarrow> True"
| "hand_path h c (p # ps) \<longleftrightarrow>
     (if nxt h c = PraHead then nxt h PraHead else nxt h c) = PraLink p \<and> hand_path h (PraLink p) ps"

lemma clock_scan_step:
  assumes "hand_path (pra_links s) (curr_ptr s) [p]"
  shows "clock_scan PraHead s = (if visited s p
     then clock_scan PraHead (s\<lparr>curr_ptr := PraLink p, visited := (visited s)(p := False)\<rparr>)
     else Some (Some p, upd_pra (list_del (PraLink p)) (s\<lparr>curr_ptr := PraLink p\<rparr>)))"
  using assms by (subst clock_scan.simps) (auto simp: list_next_def Let_def split: if_splits)

lemma clock_scan_path:
  assumes "hand_path (pra_links s) (curr_ptr s) (as @ [p])" "\<forall>a \<in> set as. visited s a" "\<not> visited s p \<or> p \<in> set as" "distinct as"
  shows "\<exists>v. clock_scan PraHead s = Some (Some p, s\<lparr>pra_links := list_del (PraLink p) (pra_links s), visited := v,
      curr_ptr := PraLink p\<rparr>) \<and> (\<forall>x. v x = (visited s x \<and> x \<notin> set as))"
  using assms
proof (induction as arbitrary: s)
  case Nil
  then show ?case using clock_scan_step [of s p] by (intro exI [of _ "visited s"]) (simp add: upd_pra_def)
next
  case (Cons a as)
  let ?s = "s\<lparr>curr_ptr := PraLink a, visited := (visited s)(a := False)\<rparr>"
  have "\<exists>v. clock_scan PraHead ?s = Some (Some p, ?s\<lparr>pra_links := list_del (PraLink p) (pra_links ?s), visited := v,
      curr_ptr := PraLink p\<rparr>) \<and> (\<forall>x. v x = (visited ?s x \<and> x \<notin> set as))"
    by (rule Cons.IH) (use Cons.prems in auto)
  then obtain v where v: "clock_scan PraHead ?s = Some (Some p, s\<lparr>pra_links := list_del (PraLink p) (pra_links s),
      visited := v, curr_ptr := PraLink p\<rparr>)" "\<forall>x. v x = (visited ?s x \<and> x \<notin> set as)" by auto
  have "clock_scan PraHead s = clock_scan PraHead ?s" using clock_scan_step [of s a] Cons.prems by simp
  then have "clock_scan PraHead s = Some (Some p, s\<lparr>pra_links := list_del (PraLink p) (pra_links s), visited := v,
      curr_ptr := PraLink p\<rparr>)" using v(1) by simp
  moreover have "\<forall>x. v x = (visited s x \<and> x \<notin> set (a # as))" using v(2) by auto
  ultimately show ?case by blast
qed

lemma hand_path_append:
  "hand_path h c (ps @ qs) \<longleftrightarrow> hand_path h c ps \<and> hand_path h (last (c # map PraLink ps)) qs"
  by (induction ps arbitrary: c) auto

lemma hand_path_on:
  "dlist h PraHead (map PraLink (us @ a # vs)) \<Longrightarrow> hand_path h (PraLink a) vs"
proof (induction vs arbitrary: us a)
  case (Cons v vs)
  then have "dlist h PraHead (map PraLink us @ PraLink a # PraLink v # map PraLink vs)" by simp
  then have "nxt h (PraLink a) = PraLink v" using dlist_nxt by fastforce
  moreover have "hand_path h (PraLink v) vs" using Cons.IH [of "us @ [a]" v] Cons.prems by simp
  ultimately show ?case by simp
qed simp

lemma hand_path_start:
  assumes "dlist h PraHead (map PraLink xs)" "nxt h c = PraHead"
  shows "hand_path h c xs"
proof (cases xs)
  case (Cons x ys)
  then have "nxt h PraHead = PraLink x" using dlist_nxt_head [OF assms(1)] by simp
  then show ?thesis using Cons assms hand_path_on [of h "[]" x ys] by simp
qed simp

lemma dlist_nxt_end:
  assumes "dlist h PraHead (map PraLink xs)" "xs \<noteq> []"
  shows "nxt h (PraLink (last xs)) = PraHead"
  using dlist_nxt_last [of h PraHead "map PraLink xs" "[]"] assms by (simp add: last_map)

lemma from_hand_path:
  assumes q: "clock_queue s mm xs" and ne: "xs \<noteq> []"
  shows "hand_path (pra_links s) (curr_ptr s) (from_hand s xs @ [hd (from_hand s xs)])"
    "set (from_hand s xs) = set xs" "distinct (from_hand s xs)" "from_hand s xs \<noteq> []"
proof -
  let ?h = "pra_links s"
  have d: "dlist ?h PraHead (map PraLink xs)" and c: "nxt ?h (curr_ptr s) \<in> insert PraHead (PraLink ` set xs)"
    using q by (simp_all add: clock_queue_def fifo_queue_def)
  have dx: "distinct xs" using dlist_distinct [OF d] by (simp add: distinct_map)
  consider "nxt ?h (curr_ptr s) = PraHead" | p us vs where "nxt ?h (curr_ptr s) = PraLink p" "xs = us @ p # vs" "p \<notin> set us"
    using c by (auto dest: split_list_first)
  then have "hand_path ?h (curr_ptr s) (from_hand s xs @ [hd (from_hand s xs)]) \<and> set (from_hand s xs) = set xs \<and>
      distinct (from_hand s xs) \<and> from_hand s xs \<noteq> []"
  proof cases
    case 1
    have "hand_path ?h (PraLink (last xs)) xs" by (rule hand_path_start [OF d dlist_nxt_end [OF d ne]])
    then have "hand_path ?h (PraLink (last xs)) [hd xs]" using ne by (cases xs) auto
    then show ?thesis
      using 1 ne dx hand_path_start [OF d 1] by (simp add: from_hand_def hand_path_append last_map)
  next
    case 2
    have "\<And>x. x \<in> set us \<Longrightarrow> x \<noteq> p" using 2(3) by auto
    then have "dropWhile (\<lambda>x. x \<noteq> p) xs = p # vs" "takeWhile (\<lambda>x. x \<noteq> p) xs = us"
      unfolding 2(2) by (simp_all add: dropWhile_append2 takeWhile_append2)
    then have f: "from_hand s xs = p # vs @ us" using 2(1) by (simp add: from_hand_def)
    have v: "hand_path ?h (PraLink p) vs" using hand_path_on [of ?h us p vs] d 2(2) by simp
    have "hand_path ?h (PraLink (last xs)) (us @ p # vs)"
      using hand_path_start [OF d dlist_nxt_end [OF d ne]] 2(2) by simp
    then have "hand_path ?h (PraLink (last xs)) (us @ [p])" by (simp add: hand_path_append)
    moreover have "last (PraLink p # map PraLink vs) = PraLink (last xs)" using 2(2) by (simp add: last_map)
    ultimately have "hand_path ?h (PraLink p) (vs @ us @ [p])" using v by (simp add: hand_path_append del: last.simps)
    then show ?thesis using 2 dx unfolding f by auto
  qed
  then show "hand_path ?h (curr_ptr s) (from_hand s xs @ [hd (from_hand s xs)])"
    "set (from_hand s xs) = set xs" "distinct (from_hand s xs)" "from_hand s xs \<noteq> []" by blast+
qed

lemma find_split: "\<not> P z \<Longrightarrow> \<forall>y \<in> set as. P y \<Longrightarrow> find (\<lambda>p. \<not> P p) (as @ z # bs) = Some z"
  by (induction as) auto

lemma clock_victim:
  assumes q: "clock_queue s mm xs" and ne: "xs \<noteq> []"
  shows "\<exists>t. clock_swap_out_victim mm False s = Some (Some (clock_choice (visited s) (from_hand s xs)), t) \<and>
    clock_choice (visited s) (from_hand s xs) \<in> set xs \<and>
    clock_queue t mm (remove1 (clock_choice (visited s) (from_hand s xs)) xs) \<and>
    (\<forall>x. visited t x = (visited s x \<and> x \<notin> clock_passed (visited s) (from_hand s xs))) \<and> policy_step s t"
proof -
  let ?zs = "from_hand s xs" and ?h = "pra_links s"
  note path = from_hand_path [OF q ne]
  let ?p = "clock_choice (visited s) ?zs"
  obtain as where as: "hand_path ?h (curr_ptr s) (as @ [?p])" "\<forall>a \<in> set as. visited s a" "\<not> visited s ?p \<or> ?p \<in> set as"
    "distinct as" "set as = clock_passed (visited s) ?zs" "?p \<in> set ?zs"
  proof (cases "\<exists>z \<in> set ?zs. \<not> visited s z")
    case True
    from split_list_first_prop [OF this] obtain as z bs where
      z: "?zs = as @ z # bs" "\<not> visited s z" "\<forall>y \<in> set as. \<not> \<not> visited s y" by blast
    then have "find (\<lambda>p. \<not> visited s p) ?zs = Some z" using find_split by simp
    then have ch: "?p = z" by (simp add: clock_choice_def)
    have tk: "takeWhile (visited s) ?zs = as" using z by (simp add: takeWhile_append2)
    show thesis
      by (rule that [of as]) (use path z ch tk in \<open>auto simp: clock_passed_def hand_path_append\<close>)
  next
    case False
    then have "find (\<lambda>p. \<not> visited s p) ?zs = None" by (simp add: find_None_iff)
    then have ch: "?p = hd ?zs" by (simp add: clock_choice_def)
    have tk: "takeWhile (visited s) ?zs = ?zs" using False by (simp add: takeWhile_eq_all_conv)
    have "hd ?zs \<in> set xs" using hd_in_set [OF path(4)] path(2) by simp
    then show thesis
      by (intro that [of ?zs]) (use path False ch in \<open>simp_all add: clock_passed_def tk\<close>)
  qed
  from clock_scan_path [OF as(1-4)] obtain v where
    v: "clock_scan PraHead s = Some (Some ?p, s\<lparr>pra_links := list_del (PraLink ?p) ?h, visited := v, curr_ptr := PraLink ?p\<rparr>)"
      "\<forall>x. v x = (visited s x \<and> x \<notin> set as)" by blast
  let ?t = "s\<lparr>pra_links := list_del (PraLink ?p) ?h, visited := v, curr_ptr := PraLink ?p\<rparr>"
  have d: "dlist ?h PraHead (map PraLink xs)" and h: "sm_priv (mms s mm) = Some PraHead"
    using q by (simp_all add: clock_queue_def fifo_queue_def)
  obtain us vs where xs: "xs = us @ ?p # vs" "?p \<notin> set us" using as(6) path(2) by (metis split_list_first)
  then have rm: "remove1 ?p xs = us @ vs" by (metis remove1_split)
  have dd: "dlist ?h PraHead (map PraLink us @ PraLink ?p # map PraLink vs)" using d xs(1) by (metis list.simps(9) map_append)
  have "fifo_queue ?t mm (us @ vs)" using dlist_del [OF dd] h by (simp add: fifo_queue_def)
  moreover have "nxt (pra_links ?t) (PraLink ?p) \<in> insert PraHead (PraLink ` set (us @ vs))"
  proof -
    have n: "nxt ?h (PraLink ?p) = (case map PraLink vs of [] \<Rightarrow> PraHead | b # _ \<Rightarrow> b)" using dlist_nxt [OF dd] .
    have "prv ?h (PraLink ?p) = last (PraHead # map PraLink us)" using dlist_prv [OF dd] .
    then have "prv ?h (PraLink ?p) \<noteq> PraLink ?p" using xs(2) by (cases us rule: rev_cases) auto
    then have "nxt (pra_links ?t) (PraLink ?p) = nxt ?h (PraLink ?p)" by (simp add: list_del_def raw_list_del_def)
    then show ?thesis using n by (cases vs) auto
  qed
  ultimately have "clock_queue ?t mm (remove1 ?p xs)" unfolding rm clock_queue_def by simp
  moreover have "clock_swap_out_victim mm False s = Some (Some ?p, ?t)" using h v(1) by (simp add: clock_swap_out_victim_def)
  moreover have "policy_step s ?t" by (simp add: policy_step_def)
  ultimately show ?thesis using v(2) as(5,6) path(2) by (intro exI [of _ ?t]) simp
qed

interpretation clock: swap_policy swap_manager_clock clock_queue "\<lambda>s xs. clock_choice (visited s) (from_hand s xs)"
proof
  fix mm s
  show "clock_queue (sm_init_mm swap_manager_clock mm s) mm []"
    by (simp add: swap_manager_clock_def clock_init_mm_def clock_queue_def fifo_queue_def dlist_init upd_mm_def)
      (simp add: list_init_def upd_pra_def)
next
  fix s mm xs p a
  assume q: "clock_queue s mm xs" and p: "p \<notin> set xs"
  let ?h = "pra_links s"
  have d: "dlist ?h PraHead (map PraLink xs)" and h: "sm_priv (mms s mm) = Some PraHead"
    and c: "nxt ?h (curr_ptr s) \<in> insert PraHead (PraLink ` set xs)"
    using q by (simp_all add: clock_queue_def fifo_queue_def)
  let ?h' = "list_add_before PraHead (PraLink p) ?h"
  have "dlist ?h' PraHead (map PraLink (xs @ [p]))"
    using dlist_add_before_head [OF d, of "PraLink p"] p by auto
  moreover have "nxt ?h' (curr_ptr s) \<in> insert PraHead (PraLink ` set (xs @ [p]))"
    using c by (auto simp: list_add_before_def raw_list_add_def)
  ultimately show "\<exists>t. map_swappable swap_manager_clock mm a p s = Some t \<and> clock_queue t mm (xs @ [p]) \<and> policy_step s t"
    using h by (auto simp: swap_manager_clock_def clock_map_swappable_def clock_queue_def fifo_queue_def
        policy_step_def upd_pra_def)
next
  fix s mm and xs :: "nat list"
  assume "clock_queue s mm xs" "xs \<noteq> []"
  from clock_victim [OF this] show "\<exists>t. swap_out_victim swap_manager_clock mm False s =
        Some (Some (clock_choice (visited s) (from_hand s xs)), t) \<and> clock_choice (visited s) (from_hand s xs) \<in> set xs \<and>
      clock_queue t mm (remove1 (clock_choice (visited s) (from_hand s xs)) xs) \<and> policy_step s t"
    by (auto simp: swap_manager_clock_def)
qed (simp add: clock_queue_def fifo_queue_def)

subsection \<open>Swapping out\<close>

text \<open>
  The swappable pages of the address space \<open>mm\<close> with the page directory \<open>pd\<close>: each is mapped at its
  \<open>pra_vaddr\<close>, lies in the swap area, is not reserved, and is none of the tables.
\<close>

definition slot_of :: "64 word \<Rightarrow> nat" where
  "slot_of v = unat (v div PGSIZE) + 1"

definition swappable :: "vm \<Rightarrow> nat \<Rightarrow> nat \<Rightarrow> bool" where
  "swappable s pd p \<longleftrightarrow> translate s pd (pra_vaddr s p) \<noteq> None \<and>
     unat (pra_vaddr s p) < 2 ^ 40 \<and> slot_of (pra_vaddr s p) < max_swap_offset s \<and> sectors_ok (slot_of (pra_vaddr s p)) \<and>
     \<not> PageReserved (pages (phys s) p) \<and> p < npage s - nbase s \<and>
     (\<forall>is. length is \<le> 2 \<longrightarrow> walk s pd is \<noteq> Some p)"

lemma swap_entry_slot:
  assumes "unat v < 2 ^ 40"
  shows "unat (drop_bit 8 (swap_entry_of v)) = slot_of v" "\<not> valid (swap_entry_of v)"
proof -
  let ?w = "v div PGSIZE + 1"
  have u: "unat (v div PGSIZE) = unat v div 4096" by (simp add: unat_div)
  then have lt: "unat (v div PGSIZE) < 2 ^ 28" using assms by simp
  then have w: "unat ?w = slot_of v" by (subst unat_add_lem [THEN iffD1]) (simp_all add: slot_of_def)
  have nb: "\<not> bit ?w n" if "29 \<le> n" for n
  proof (rule not_bit_of_unat)
    have "(2::nat) ^ 29 \<le> 2 ^ n" using that by (intro power_increasing) auto
    then show "unat ?w < 2 ^ n" using w lt by (simp add: slot_of_def)
  qed
  have "drop_bit 8 (push_bit 8 ?w) = ?w"
  proof (rule bit_word_eqI)
    fix n :: nat assume "n < LENGTH(64)"
    then show "bit (drop_bit 8 (push_bit 8 ?w)) n = bit ?w n"
      using nb [of n] by (cases "n < 56") (auto simp: bit_simps)
  qed
  then show "unat (drop_bit 8 (swap_entry_of v)) = slot_of v" using w by (simp add: swap_entry_of_def)
  have "swap_entry_of v AND PTE_V = 0"
    by (rule bit_word_eqI) (auto simp: swap_entry_of_def bit_simps PTE_V_def bit_1_iff)
  then show "\<not> valid (swap_entry_of v)" by (simp add: valid_def)
qed

lemma get_pte_existing_walk:
  assumes "walk s pd [PDX1 la, PDX0 la] = Some q"
  shows "get_pte_existing pd la s = Some (Some (q, PTX la))"
proof -
  obtain r where r: "child s pd (PDX1 la) = Some r" "child s r (PDX0 la) = Some q"
    using assms by (auto split: option.splits)
  then show ?thesis
    by (auto simp: get_pte_existing_def get_pte_def read_word_def child_def valid_def Let_def split: if_splits)
qed

lemma swap_out_once:
  assumes "swap_out_victim sm mm False s = Some (Some p, u)" "pgdir (mms u mm) = Some pd"
    "get_pte_existing pd (pra_vaddr u p) u = Some (Some loc)" "read_word loc u AND PTE_V \<noteq> 0"
    "swapfs_write (swap_entry_of (pra_vaddr u p)) p u = Some (0, d)"
    "free_pages p 1 (write_word loc (swap_entry_of (pra_vaddr u p)) d) = Some t"
  shows "swap_out sm (Some mm) 1 False s = Some (1, t)"
  using assms by (simp add: swap_out_def Let_def)

lemma pt_ok_free:
  assumes "pt_ok s pd" "ram t = ram s" "nbase t = nbase s" "npage t = npage s"
    and "\<And>is q. length is \<le> 2 \<Longrightarrow> walk s pd is = Some q \<Longrightarrow> q \<notin> free_page_set t"
  shows "pt_ok t pd"
  using assms(1,5) unfolding pt_ok_def walk_frame [OF assms(2-4)] assms(2) by blast

lemma alloc_last_page:
  assumes ok: "vm_ok u" and one: "free_page_set u = {p}"
  shows "\<exists>f. alloc_page sm u = Some (Some p, u\<lparr>phys := f\<rparr>) \<and> vm_ok (u\<lparr>phys := f\<rparr>) \<and> free_set f = {}"
proof -
  have "free_page_set u \<noteq> {} \<or> \<not> swap_init_ok u" using one by simp
  from alloc_page_ok [OF ok this, of sm] obtain r f where
    "alloc_page sm u = Some (r, u\<lparr>phys := f\<rparr>)" "vm_ok (u\<lparr>phys := f\<rparr>)"
    "case r of None \<Rightarrow> free_page_set u = {} \<and> f = phys u
     | Some p \<Rightarrow> p \<in> free_page_set u \<and> free_set f = free_page_set u - {p}" by blast
  then show ?thesis using one by (cases r) auto
qed

lemma swap_in_loads:
  assumes ok: "vm_ok u" "free_page_set u \<noteq> {}" and mm: "pgdir (mms u mm) = Some pd"
    and en: "entry u pd v = swap_entry_of v" "walk u pd [PDX1 v, PDX0 v] \<noteq> None"
    and v: "unat v < 2 ^ 40" "slot_of v < max_swap_offset u" "sectors_ok (slot_of v)"
  shows "\<exists>q t. swap_in sm mm v u = Some (q, t) \<and> q \<in> free_page_set u \<and> free_page_set t = free_page_set u - {q} \<and>
    ram t = (ram u)(q := disk u (slot_of v))"
proof -
  obtain r f where f: "alloc_page sm u = Some (r, u\<lparr>phys := f\<rparr>)"
    "case r of None \<Rightarrow> free_page_set u = {} \<and> f = phys u | Some p \<Rightarrow> p \<in> free_page_set u \<and> free_set f = free_page_set u - {p}"
    using alloc_page_ok [OF ok(1), of sm] ok(2) by auto
  then obtain q where q: "r = Some q" "q \<in> free_page_set u" "free_set f = free_page_set u - {q}"
    using ok(2) by (cases r) auto
  let ?u = "u\<lparr>phys := f\<rparr>"
  have "walk ?u pd [PDX1 v, PDX0 v] = walk u pd [PDX1 v, PDX0 v]" by (rule walk_frame(1)) simp_all
  then obtain l where l: "walk ?u pd [PDX1 v, PDX0 v] = Some l" using en(2) by fastforce
  have "ram ?u l (PTX v) = swap_entry_of v"
    using en(1) l walk_frame(1) [of ?u u] by (simp add: entry_def del: walk.simps)
  then have "read_word (l, PTX v) ?u = swap_entry_of v" by (simp add: read_word_def)
  then have "swap_in sm mm v u = Some (q, ?u\<lparr>ram := (ram u)(q := disk u (slot_of v))\<rparr>)"
    using f(1) q(1) mm get_pte_existing_walk [OF l] swap_entry_slot(1) [OF v(1)] v(2,3)
    by (simp add: swap_in_def swapfs_read_def swap_offset_def slot_of_def Let_def)
  then show ?thesis using q by auto
qed

text \<open>Between two states the entry of the address \<open>v\<close> and the slot it names stayed the same; memory may have changed.\<close>

definition keeps_slot :: "nat \<Rightarrow> 64 word \<Rightarrow> vm \<Rightarrow> vm \<Rightarrow> bool" where
  "keeps_slot pd v u w \<longleftrightarrow> entry w pd v = entry u pd v \<and> disk w (slot_of v) = disk u (slot_of v) \<and>
     max_swap_offset w = max_swap_offset u"

text \<open>The content of a free page does not matter to the tables.\<close>

lemma entry_free_page:
  assumes "pt_ok u pd" "p \<in> free_page_set u"
  shows "entry (u\<lparr>ram := (ram u)(p := f)\<rparr>) pd v = entry u pd v"
proof -
  let ?w = "u\<lparr>ram := (ram u)(p := f)\<rparr>"
  have c: "child ?w q i = child u q i" if "q \<noteq> p" for q i using that by (simp add: child_def pa2page_def)
  have n: "q \<noteq> p" if "length is \<le> 2" "walk u pd is = Some q" for "is" q using assms that unfolding pt_ok_def by blast
  have "pd \<noteq> p" using n [of "[]"] by simp
  moreover have "q \<noteq> p" if "child u pd i = Some q" for i q using n [of "[i]"] that by simp
  moreover have "q \<noteq> p" if "child u pd i = Some r" "child u r j = Some q" for i j q r using n [of "[i, j]"] that by simp
  ultimately show ?thesis by (auto simp: entry_def c split: option.split)
qed

context swap_policy begin

lemma swap_out_one:
  assumes ok: "vm_ok s" "pt_ok s pd" and mm: "pgdir (mms s mm) = Some pd" and q: "pageq s mm xs" "xs \<noteq> []"
    and sw: "\<forall>p \<in> set xs. swappable s pd p" and e: "free_page_set s = {}"
  shows "\<exists>p t. p = victim s xs \<and> swap_out sm (Some mm) 1 False s = Some (1, t) \<and> p \<in> set xs \<and> pageq t mm (remove1 p xs) \<and>
    free_page_set t = {p} \<and> vm_ok t \<and> pt_ok t pd \<and> same_rest s t \<and> nbase t = nbase s \<and> npage t = npage s \<and>
    (\<forall>a. translate t pd a = (if same_page (pra_vaddr s p) a then None else translate s pd a)) \<and>
    entry t pd (pra_vaddr s p) = swap_entry_of (pra_vaddr s p) \<and>
    disk t = (disk s)(slot_of (pra_vaddr s p) := ram s p) \<and> max_swap_offset t = max_swap_offset s"
proof -
  define p where "p = victim s xs"
  then obtain u where u: "swap_out_victim sm mm False s = Some (Some p, u)" "p \<in> set xs" "pageq u mm (remove1 p xs)"
    "policy_step s u" using victim_ok [OF q] by blast
  note us = policy_step_sels [OF u(4)]
  let ?v = "pra_vaddr s p" and ?w = "swap_entry_of (pra_vaddr s p)"
  have p: "translate s pd ?v \<noteq> None" "unat ?v < 2 ^ 40" "slot_of ?v < max_swap_offset s" "sectors_ok (slot_of ?v)"
    "\<not> PageReserved (pages (phys s) p)" "p < npage s - nbase s" "\<And>is. length is \<le> 2 \<Longrightarrow> walk s pd is \<noteq> Some p"
    using sw u(2) unfolding swappable_def by blast+
  obtain l where l: "walk s pd [PDX1 ?v, PDX0 ?v] = Some l" "valid (ram s l (PTX ?v))"
    using p(1) by (auto simp: translate_def simp del: walk.simps split: option.splits if_splits)
  have wk: "walk u = walk s" "entry u = entry s" "translate u = translate s"
    using walk_frame [of u s] us by (simp_all add: fun_eq_iff)
  note se = swap_entry_slot [OF p(2)]
  let ?d = "u\<lparr>disk := (disk u)(slot_of ?v := ram s p)\<rparr>"
  let ?z = "write_word (l, PTX ?v) ?w ?d"
  have fr: "free_ok p 1 (phys u)"
    using e p(5) us pmm_inv_card [of "phys s"] ok(1) by (simp add: free_ok_def vm_ok_def)
  obtain f where f: "default_free_pages p 1 (phys u) = Some f" "pmm_inv f" "free_set f = {p}"
    using default_free_ok [OF _ fr] ok(1) us e by (auto simp: vm_ok_def)
  let ?t = "?z\<lparr>phys := f\<rparr>"
  have "phys ?z = phys u" by (simp add: write_word_def)
  then have fp: "free_pages p 1 ?z = Some ?t" using f(1) by (simp add: free_pages_def)
  have v: "pra_vaddr u p = ?v" using us by simp
  have g1: "pgdir (mms u mm) = Some pd" using mm us by simp
  have g2: "get_pte_existing pd (pra_vaddr u p) u = Some (Some (l, PTX ?v))"
    using get_pte_existing_walk [of u] l(1) wk(1) unfolding v by (simp del: walk.simps)
  have g3: "read_word (l, PTX ?v) u AND PTE_V \<noteq> 0" using l(2) us by (simp add: read_word_def valid_def)
  have g4: "swapfs_write (swap_entry_of (pra_vaddr u p)) p u = Some (0, ?d)"
    using se(1) p(3,4) us unfolding v by (simp add: swapfs_write_def swap_offset_def slot_of_def Let_def)
  have g5: "free_pages p 1 (write_word (l, PTX ?v) (swap_entry_of (pra_vaddr u p)) ?d) = Some ?t"
    unfolding v by (rule fp)
  have run: "swap_out sm (Some mm) 1 False s = Some (1, ?t)"
    by (rule swap_out_once [OF u(1) g1 g2 g3 g4 g5])
  have ptd: "pt_ok ?d pd" by (rule pt_ok_shrink [OF ok(2)]) (simp_all add: us)
  have wd: "walk ?d pd [PDX1 ?v, PDX0 ?v] = Some l" "translate ?d pd a = translate s pd a" for a
    using l(1) walk_frame [of ?d s] us by (simp_all del: walk.simps)
  have wz: "pt_ok ?z pd" "translate ?z pd a = (if same_page ?v a then None else translate s pd a)" for a
    using write_leaf [OF ptd wd(1), of ?w] se(2) wd(2) by simp_all
  have wl: "length is \<le> 2 \<Longrightarrow> walk ?z pd is = walk s pd is" for "is"
    using walk_write_leaf [OF ptd wd(1)] walk_frame(1) [of ?d s] us by simp
  have rt: "ram ?t = ram ?z" "nbase ?t = nbase ?z" "npage ?t = npage ?z" by (simp_all add: write_word_def)
  note wt = walk_frame [OF rt]
  have en: "entry ?t pd ?v = ?w"
  proof -
    have "walk ?z pd [PDX1 ?v, PDX0 ?v] = Some l" using wl [of "[PDX1 ?v, PDX0 ?v]"] l(1) by simp
    then show ?thesis unfolding wt(2) by (simp add: entry_def write_word_def del: walk.simps)
  qed
  have "q \<notin> free_page_set ?t" if "length is \<le> 2" "walk ?z pd is = Some q" for "is" q
    using that p(7) [OF that(1)] wl [OF that(1)] f(3) by auto
  then have "pt_ok ?t pd" by (rule pt_ok_free [OF wz(1) rt])
  moreover have "vm_ok ?t" using ok(1) f(2,3) p(6) us by (simp add: vm_ok_def write_word_def)
  moreover have "pageq ?t mm (remove1 p xs)" by (rule pageq_frame [OF u(3)]) (simp_all add: write_word_def)
  moreover have "same_rest s ?t" by (simp add: same_rest_def write_word_def us)
  moreover have "disk ?t = (disk s)(slot_of ?v := ram s p)" "max_swap_offset ?t = max_swap_offset s" "nbase ?t = nbase s"
    "npage ?t = npage s" using us by (simp_all add: write_word_def)
  moreover have "\<forall>a. translate ?t pd a = (if same_page ?v a then None else translate s pd a)"
    using wz(2) wt(3) by simp
  ultimately show ?thesis using run u(2) f(3) en p_def by (intro exI [of _ p] exI [of _ ?t]) simp
qed

text \<open>What was swapped out comes back, in whatever page is free by then.\<close>

lemma swap_out_in:
  assumes ok: "vm_ok s" "pt_ok s pd" and mm: "pgdir (mms s mm) = Some pd" and q: "pageq s mm xs" "xs \<noteq> []"
    and sw: "\<forall>p \<in> set xs. swappable s pd p" and e: "free_page_set s = {}"
  shows "\<exists>u. swap_out sm (Some mm) 1 False s = Some (1, u) \<and> free_page_set u = {victim s xs} \<and> vm_ok u \<and> pt_ok u pd \<and>
    pgdir (mms u mm) = Some pd \<and> translate u pd (pra_vaddr s (victim s xs)) = None \<and>
    (\<forall>w. vm_ok w \<and> free_page_set w \<noteq> {} \<and> pgdir (mms w mm) = Some pd \<and> keeps_slot pd (pra_vaddr s (victim s xs)) u w \<longrightarrow>
      (\<exists>q t. swap_in sm mm (pra_vaddr s (victim s xs)) w = Some (q, t) \<and> q \<in> free_page_set w \<and>
        ram t = (ram w)(q := ram s (victim s xs)) \<and> free_page_set t = free_page_set w - {q}))"
proof -
  let ?p = "victim s xs" and ?v = "pra_vaddr s (victim s xs)"
  obtain u where u: "swap_out sm (Some mm) 1 False s = Some (1, u)" "?p \<in> set xs" "free_page_set u = {?p}" "vm_ok u" "pt_ok u pd"
    "same_rest s u" "\<forall>a. translate u pd a = (if same_page ?v a then None else translate s pd a)"
    "entry u pd ?v = swap_entry_of ?v" "disk u = (disk s)(slot_of ?v := ram s ?p)" "max_swap_offset u = max_swap_offset s"
    using swap_out_one [OF ok mm q sw e] by blast
  have p: "unat ?v < 2 ^ 40" "slot_of ?v < max_swap_offset u" "sectors_ok (slot_of ?v)"
    using sw u(2,10) unfolding swappable_def by auto
  have n0: "swap_entry_of ?v \<noteq> 0" using swap_entry_slot(1) [OF p(1)] by (auto simp: slot_of_def)
  have again: "\<exists>q t. swap_in sm mm ?v w = Some (q, t) \<and> q \<in> free_page_set w \<and>
      ram t = (ram w)(q := ram s ?p) \<and> free_page_set t = free_page_set w - {q}"
    if w: "vm_ok w" "free_page_set w \<noteq> {}" "pgdir (mms w mm) = Some pd" "keeps_slot pd ?v u w" for w
  proof -
    from w(4) u(8,9) have k: "entry w pd ?v = swap_entry_of ?v" "disk w (slot_of ?v) = ram s ?p" "max_swap_offset w = max_swap_offset u"
      by (simp_all add: keeps_slot_def)
    have "walk w pd [PDX1 ?v, PDX0 ?v] \<noteq> None"
      using k(1) n0 by (cases "walk w pd [PDX1 ?v, PDX0 ?v]") (simp_all add: entry_def del: walk.simps)
    then show ?thesis using swap_in_loads [OF w(1-3) k(1) _ p(1) _ p(3), of sm] p(2) unfolding k(2,3) by auto
  qed
  have "pgdir (mms u mm) = Some pd" using mm u(6) by (simp add: same_rest_def)
  moreover have "translate u pd ?v = None" using u(7) by (simp add: same_page_def)
  ultimately show ?thesis using u(1,3,4,5) again by blast
qed

text \<open>Without a free page \<open>alloc_pages\<close> hands out the page that was swapped out for it.\<close>

lemma alloc_page_swaps:
  assumes ok: "vm_ok s" "pt_ok s pd" "swap_init_ok s" "check_mm_struct s = Some mm"
    and mm: "pgdir (mms s mm) = Some pd" and q: "pageq s mm xs" "xs \<noteq> []"
    and sw: "\<forall>p \<in> set xs. swappable s pd p" and e: "free_page_set s = {}"
  shows "\<exists>p t. p = victim s xs \<and> alloc_page sm s = Some (Some p, t) \<and> p \<in> set xs \<and> pageq t mm (remove1 p xs) \<and>
    free_page_set t = {} \<and> vm_ok t \<and> pt_ok t pd \<and> same_rest s t \<and>
    (\<forall>a. translate t pd a = (if same_page (pra_vaddr s p) a then None else translate s pd a)) \<and>
    entry t pd (pra_vaddr s p) = swap_entry_of (pra_vaddr s p) \<and>
    disk t = (disk s)(slot_of (pra_vaddr s p) := ram s p)"
proof -
  define p where "p = victim s xs"
  obtain u where u: "swap_out sm (Some mm) 1 False s = Some (1, u)" "p \<in> set xs" "pageq u mm (remove1 p xs)"
    "free_page_set u = {p}" "vm_ok u" "pt_ok u pd" "same_rest s u"
    "\<forall>a. translate u pd a = (if same_page (pra_vaddr s p) a then None else translate s pd a)"
    "entry u pd (pra_vaddr s p) = swap_entry_of (pra_vaddr s p)" "disk u = (disk s)(slot_of (pra_vaddr s p) := ram s p)"
    using swap_out_one [OF ok(1,2) mm q sw e] unfolding p_def by blast
  obtain r t where r: "default_alloc_pages 1 (phys s) = Some (r, t)" "alloc_outcome 1 (phys s) r t"
    using default_alloc_ok [of "phys s" 1] ok(1) by (auto simp: vm_ok_def)
  have rn: "r = None" "t = phys s" using r(2) e by (cases r; auto simp: alloc_outcome_def)+
  have "alloc_pages sm 1 s = do { (_, s) \<leftarrow> swap_out sm (check_mm_struct s) 1 False s; alloc_pages sm 1 s }"
    by (subst alloc_pages.simps) (simp add: r(1) [simplified] rn ok(3))
  then have one: "alloc_page sm s = alloc_page sm u"
    unfolding ok(4) u(1) by (simp add: alloc_page_def)
  obtain f where f: "alloc_page sm u = Some (Some p, u\<lparr>phys := f\<rparr>)" "vm_ok (u\<lparr>phys := f\<rparr>)" "free_set f = {}"
    using alloc_last_page [OF u(5,4)] by blast
  let ?t = "u\<lparr>phys := f\<rparr>"
  note wt = walk_frame [of ?t u, simplified]
  have "pt_ok ?t pd" by (rule pt_ok_shrink [OF u(6)]) (simp_all add: f(3))
  moreover have "pageq ?t mm (remove1 p xs)" by (rule pageq_frame [OF u(3)]) simp_all
  moreover have "same_rest s ?t" using u(7) by (simp add: same_rest_def)
  moreover have "\<forall>a. translate ?t pd a = (if same_page (pra_vaddr s p) a then None else translate s pd a)"
    using u(8) unfolding wt(3) by simp
  moreover have "entry ?t pd (pra_vaddr s p) = swap_entry_of (pra_vaddr s p)" using u(9) unfolding wt(2) by simp
  ultimately show ?thesis unfolding one f(1) using f(2,3) u(2,10) p_def
    by (intro exI [of _ p] exI [of _ ?t]) simp
qed

end

subsection \<open>The properties\<close>

text \<open>C38: The clock (\<open>swap_clock.c\<close>): \<open>_clock_swap_out_victim\<close> on a list that is not empty returns, also when
  the hand points at a page that has left the list. The victim is the first page from the hand on that was
  not visited, or the first of all when every page was; exactly the pages the hand passes lose their
  visited flag; the victim alone leaves the list; nothing else changes.\<close>

theorem clock_second_chance:
  assumes "clock_queue s mm xs" "xs \<noteq> []"
  shows "\<exists>t. clock_swap_out_victim mm False s = Some (Some (clock_choice (visited s) (from_hand s xs)), t) \<and>
    clock_choice (visited s) (from_hand s xs) \<in> set xs \<and>
    clock_queue t mm (remove1 (clock_choice (visited s) (from_hand s xs)) xs) \<and>
    (\<forall>x. visited t x = (visited s x \<and> x \<notin> clock_passed (visited s) (from_hand s xs))) \<and> policy_step s t"
  by (rule clock_victim [OF assms])

definition ex_clock :: vm where
  "ex_clock = ex_vm\<lparr>mms := (\<lambda>_. \<lparr>mmap_cache = None, pgdir = Some 0, map_count = 0, sm_priv = Some PraHead, m_count = 1,
       mm_sem = 1, locked_by = 0\<rparr>),
     pra_links := \<lparr>nxt = (\<lambda>x. x)(PraHead := PraLink 5, PraLink 5 := PraLink 6, PraLink 6 := PraLink 7, PraLink 7 := PraHead),
       prv = (\<lambda>x. x)(PraHead := PraLink 7, PraLink 7 := PraLink 6, PraLink 6 := PraLink 5, PraLink 5 := PraHead)\<rparr>,
     curr_ptr := PraLink 5, visited := (\<lambda>p. p = 6)\<rparr>"

theorem clock_second_chance_witness:
  "\<exists>t. clock_swap_out_victim 1 False ex_clock = Some (Some 7, t) \<and> clock_queue t 1 [5, 6] \<and> \<not> visited t 6"
proof -
  have q: "clock_queue ex_clock 1 [5, 6, 7]"
    by (simp add: clock_queue_def fifo_queue_def ex_clock_def dlist_def)
  have f: "from_hand ex_clock [5, 6, 7] = [6, 7, 5]" by (simp add: from_hand_def ex_clock_def)
  have c: "clock_choice (visited ex_clock) [6, 7, 5] = 7" "clock_passed (visited ex_clock) [6, 7, 5] = {6}"
    by (simp_all add: clock_choice_def clock_passed_def ex_clock_def)
  have "visited ex_clock 6" by (simp add: ex_clock_def)
  then show ?thesis using clock_second_chance [OF q] unfolding f c by auto
qed

text \<open>A machine without a free page: the directory in page 0, its tables in pages 1 and 2, and page 5 mapped at
  address \<open>0x1000\<close> of address space 1, alone in the queue.\<close>

definition ex_swap :: vm where
  "ex_swap = ex_vm\<lparr>phys := \<lparr>pages = (\<lambda>i. \<lparr>pg_ref = 0, pg_flags = 0, pg_property = 0\<rparr>),
       free_list = \<lparr>nxt = (\<lambda>l. l), prv = (\<lambda>l. l)\<rparr>, nr_free = 0\<rparr>,
     ram := (\<lambda>_ _. 0)(0 := (\<lambda>_. 0)(0 := 0x20000401), 1 := (\<lambda>_. 0)(0 := 0x20000801),
       2 := (\<lambda>_. 0)(1 := 0x20001401)),
     mms := (\<lambda>_. \<lparr>mmap_cache = None, pgdir = Some 0, map_count = 0, sm_priv = Some PraHead, m_count = 1,
       mm_sem = 1, locked_by = 0\<rparr>),
     pra_links := \<lparr>nxt = (\<lambda>x. x)(PraHead := PraLink 5, PraLink 5 := PraHead),
       prv = (\<lambda>x. x)(PraHead := PraLink 5, PraLink 5 := PraHead)\<rparr>,
     pra_vaddr := (\<lambda>_. 0x1000), swap_init_ok := True, check_mm_struct := Some 1\<rparr>"

lemma ex_swap_child:
  "child ex_swap q i = (if q = 0 \<and> i = 0 then Some 1 else if q = 1 \<and> i = 0 then Some 2
     else if q = 2 \<and> i = 1 then Some 5 else None)"
  by (simp add: child_def ex_swap_def ex_vm_def valid_def PTE_V_def pa2page_def PTE_ADDR_def PPN_def)

lemma ex_swap_walk:
  assumes "length is \<le> 2"
  shows "walk ex_swap 0 is = (if is = [] then Some 0 else if is = [0] then Some 1 else if is = [0, 0] then Some 2 else None)"
proof -
  consider "is = []" | i where "is = [i]" | i j where "is = [i, j]"
    using assms by (cases "is" rule: remdups_adj.cases) auto
  then show ?thesis by cases (auto simp: ex_swap_child)
qed

lemma ex_swap_free: "free_page_set ex_swap = {}"
  by (simp add: free_set_def ex_swap_def PageProperty_def)

lemma ex_swap_valid: "valid (ram ex_swap q i) \<longleftrightarrow> child ex_swap q i \<noteq> None"
  unfolding ex_swap_child by (simp add: ex_swap_def ex_vm_def valid_def PTE_V_def)

lemma ex_swap_ok: "vm_ok ex_swap" "pt_ok ex_swap 0" "fifo_queue ex_swap 1 [5]" "swappable ex_swap 0 5"
proof -
  have "pmm_wf (phys ex_swap) []"
    by (simp add: pmm_wf_def ex_swap_def dlist_def PageProperty_def)
  then show "vm_ok ex_swap"
    using ex_swap_free by (auto simp: vm_ok_def pmm_inv_def) (simp_all add: ex_swap_def ex_vm_def)
  show pt: "pt_ok ex_swap 0" unfolding pt_ok_def ex_swap_free ex_swap_valid
    by (simp add: ex_swap_walk del: walk.simps) 
  show "fifo_queue ex_swap 1 [5]" by (simp add: fifo_queue_def ex_swap_def dlist_def)
  have "translate ex_swap 0 0x1000 \<noteq> None"
    using ex_swap_valid [of 2 1] ex_swap_walk [of "[0, 0]"]
    by (simp add: translate_def ex_swap_child PDX1_def PDX0_def PTX_def del: walk.simps)
  moreover have "pra_vaddr ex_swap 5 = 0x1000" "max_swap_offset ex_swap = 8" "\<not> PageReserved (pages (phys ex_swap) 5)"
    "npage ex_swap - nbase ex_swap = 10"
    by (simp_all add: ex_swap_def ex_vm_def PageReserved_def)
  ultimately show "swappable ex_swap 0 5" unfolding swappable_def
    by (simp add: ex_swap_walk slot_of_def sectors_ok_def del: walk.simps)
qed

text \<open>C36: With no page free, swapping on and swappable pages in the current address space, \<open>alloc_page\<close> under
  the FIFO manager succeeds: it hands out the page that came in first, which no address maps any longer; its
  content is in the swap slot of its address, the entry there names the slot, every other translation
  and every other slot is as it was, and the page leaves the list.\<close>

theorem alloc_page_swaps_oldest:
  assumes "vm_ok s" "pt_ok s pd" "swap_init_ok s" "check_mm_struct s = Some mm" "pgdir (mms s mm) = Some pd"
    and "fifo_queue s mm (p # ps)" "\<forall>x \<in> set (p # ps). swappable s pd x" "free_page_set s = {}"
  shows "\<exists>t. alloc_page swap_manager_fifo s = Some (Some p, t) \<and> fifo_queue t mm ps \<and> vm_ok t \<and> pt_ok t pd \<and>
    (\<forall>a. translate t pd a = (if same_page (pra_vaddr s p) a then None else translate s pd a)) \<and>
    entry t pd (pra_vaddr s p) = swap_entry_of (pra_vaddr s p) \<and>
    disk t = (disk s)(slot_of (pra_vaddr s p) := ram s p)"
proof -
  have q: "p # ps \<noteq> []" by simp
  from fifo.alloc_page_swaps [OF assms(1-5) assms(6) q assms(7,8)] show ?thesis by auto
qed

theorem alloc_page_swaps_oldest_witness:
  "\<exists>t. alloc_page swap_manager_fifo ex_swap = Some (Some 5, t) \<and> fifo_queue t 1 [] \<and>
     entry t 0 0x1000 = swap_entry_of 0x1000 \<and> translate t 0 0x1FFF = None"
proof -
  have f: "swap_init_ok ex_swap" "check_mm_struct ex_swap = Some 1" "pgdir (mms ex_swap 1) = Some 0"
    "pra_vaddr ex_swap 5 = 0x1000" by (simp_all add: ex_swap_def)
  have sw: "\<forall>x \<in> set [5]. swappable ex_swap 0 x" using ex_swap_ok(4) by simp
  have "same_page 0x1000 0x1FFF" by (simp add: same_page_def PDX1_def PDX0_def PTX_def)
  then show ?thesis
    using alloc_page_swaps_oldest [OF ex_swap_ok(1,2) f(1-3) ex_swap_ok(3) sw ex_swap_free] unfolding f(4) by auto
qed

text \<open>C7: Swapping out and in again (\<open>swap_out\<close>, \<open>swap_in\<close>, FIFO). When no page is free, swapping out one page frees
  the oldest page of the queue and makes its address unmapped. Whatever happens afterwards to the memory, the freed
  page included, as long as the entry of the address and its swap slot are left alone and some page is free, swapping in at that
  address fills one of the free pages with what the page held when it was swapped out, and changes no other page.\<close>

theorem swap_out_in_roundtrip:
  assumes "vm_ok s" "pt_ok s pd" "pgdir (mms s mm) = Some pd" "fifo_queue s mm (p # ps)"
    and "\<forall>x \<in> set (p # ps). swappable s pd x" "free_page_set s = {}"
  shows "\<exists>u. swap_out swap_manager_fifo (Some mm) 1 False s = Some (1, u) \<and> free_page_set u = {p} \<and> vm_ok u \<and> pt_ok u pd \<and>
    pgdir (mms u mm) = Some pd \<and> translate u pd (pra_vaddr s p) = None \<and>
    (\<forall>w. vm_ok w \<and> free_page_set w \<noteq> {} \<and> pgdir (mms w mm) = Some pd \<and> keeps_slot pd (pra_vaddr s p) u w \<longrightarrow>
      (\<exists>q t. swap_in swap_manager_fifo mm (pra_vaddr s p) w = Some (q, t) \<and> q \<in> free_page_set w \<and>
        ram t = (ram w)(q := ram s p) \<and> free_page_set t = free_page_set w - {q}))"
proof -
  have q: "p # ps \<noteq> []" by simp
  from fifo.swap_out_in [OF assms(1-4) q assms(5,6)] show ?thesis by simp
qed

text \<open>The freed page is overwritten before it is filled again.\<close>

theorem swap_out_in_roundtrip_witness:
  "\<exists>u t. swap_out swap_manager_fifo (Some 1) 1 False ex_swap = Some (1, u) \<and> translate u 0 0x1000 = None \<and>
     swap_in swap_manager_fifo 1 0x1000 (u\<lparr>ram := (ram u)(5 := (\<lambda>_. 0xDEAD))\<rparr>) = Some (5, t) \<and> ram t 5 = ram ex_swap 5"
proof -
  have f: "pgdir (mms ex_swap 1) = Some 0" "pra_vaddr ex_swap 5 = 0x1000" by (simp_all add: ex_swap_def)
  have sw: "\<forall>x \<in> set [5]. swappable ex_swap 0 x" using ex_swap_ok(4) by simp
  obtain u where u: "swap_out swap_manager_fifo (Some 1) 1 False ex_swap = Some (1, u)" "free_page_set u = {5}" "vm_ok u"
    "pt_ok u 0" "pgdir (mms u 1) = Some 0" "translate u 0 0x1000 = None"
    "\<forall>w. vm_ok w \<and> free_page_set w \<noteq> {} \<and> pgdir (mms w 1) = Some 0 \<and> keeps_slot 0 0x1000 u w \<longrightarrow>
      (\<exists>q t. swap_in swap_manager_fifo 1 0x1000 w = Some (q, t) \<and> q \<in> free_page_set w \<and>
        ram t = (ram w)(q := ram ex_swap 5) \<and> free_page_set t = free_page_set w - {q})"
    using swap_out_in_roundtrip [OF ex_swap_ok(1,2) f(1) ex_swap_ok(3) sw ex_swap_free] unfolding f(2) by (elim exE conjE)
  let ?w = "u\<lparr>ram := (ram u)(5 := (\<lambda>_. 0xDEAD))\<rparr>"
  have "vm_ok ?w" using u(3) by (simp add: vm_ok_def)
  moreover have "keeps_slot 0 0x1000 u ?w" using entry_free_page [OF u(4), of 5] u(2) by (simp add: keeps_slot_def)
  ultimately obtain q t where "swap_in swap_manager_fifo 1 0x1000 ?w = Some (q, t)" "q = 5" "ram t = (ram ?w)(q := ram ex_swap 5)"
    using u(7) [rule_format, of ?w] u(2,5) by auto
  then show ?thesis using u(1,6) by (intro exI [of _ u] exI [of _ t]) simp
qed

end
