(* ===== verification/Mksfs.thy ===== *)
theory Mksfs
  imports SfsIo
begin

section \<open>The tool that builds a file system image (tools/mksfs.c)\<close>

text \<open>
  \<open>mksfs\<close> runs on the host: it copies a directory tree into an image that the kernel mounts. A host
  file is its inode number with its content; a directory lists its entries in the order of \<open>readdir\<close>;
  \<open>read\<close> on a regular file yields the next 4096 bytes, or what is left. \<open>malloc\<close> yields fresh objects:
  a \<open>cache_block\<close> or \<open>cache_inode\<close> is its number. The hash tables are lists, newest first. \<open>None\<close> is an exit
  through \<open>bug\<close> or a failed assertion. The names of the directories entered (\<open>subpath\<close>) serve messages only.
\<close>

subsection \<open>Data\<close>

datatype host = HFile "64 word" "byte list" | HDir "64 word" hdir | HLink "64 word" "byte list" | HOther
  and hdir = DirEnd | DirEntry string host hdir

record minode = sfs_disk_inode +
  di_db_indirect :: "32 word"

record cache_block =
  cb_ino :: "32 word"
  cb_cache :: "32 word list"

record cache_inode =
  ci_inode :: minode
  ci_real :: "64 word"
  ci_ino :: "32 word"
  ci_nblks :: "32 word"
  ci_l1 :: "nat option"
  ci_l2 :: "nat option"

text \<open>\<open>m_entry\<close> is the name in the static variable \<open>__entry\<close> of \<open>add_entry\<close>; \<open>m_img\<close> is the image file.\<close>

record mksfs =
  m_super :: sfs_super
  m_path :: "string list"
  m_ninos :: "32 word"
  m_next :: "32 word"
  m_root :: nat
  m_inodes :: "nat \<Rightarrow> nat list"
  m_blocks :: "nat \<Rightarrow> nat list"
  m_ci :: "nat \<Rightarrow> cache_inode"
  m_nci :: nat
  m_cb :: "nat \<Rightarrow> cache_block"
  m_ncb :: nat
  m_entry :: "byte list"
  m_img :: "nat \<Rightarrow> byte"

definition SFS_MAX_NBLKS :: nat where "SFS_MAX_NBLKS = 1024 * 512"
definition HASH_SHIFT :: nat where "HASH_SHIFT = 10"
definition HASH_LIST_SIZE :: nat where "HASH_LIST_SIZE = 2 ^ HASH_SHIFT"
definition SFS_L0_NBLKS :: nat where "SFS_L0_NBLKS = SFS_NDIRECT"
definition SFS_L1_NBLKS :: nat where "SFS_L1_NBLKS = SFS_BLK_NENTRY + SFS_L0_NBLKS"
definition SFS_L2_NBLKS :: nat where "SFS_L2_NBLKS = SFS_BLK_NENTRY * SFS_BLK_NENTRY + SFS_L1_NBLKS"
definition SFS_LN_NBLKS :: nat where "SFS_LN_NBLKS = SFS_MAX_FILE_SIZE div SFS_BLKSIZE"

definition mk_hash32 :: "32 word \<Rightarrow> nat" where
  "mk_hash32 v = unat (drop_bit (32 - HASH_SHIFT) (v * 0x9e370001))"

definition mk_hash64 :: "64 word \<Rightarrow> nat" where
  "mk_hash64 v = mk_hash32 (ucast v)"

definition name_bytes :: "string \<Rightarrow> byte list" where
  "name_bytes s = map of_char s"

text \<open>\<open>strcpy\<close> into a buffer that is longer than the string.\<close>

definition strcpy_into :: "string \<Rightarrow> byte list \<Rightarrow> byte list" where
  "strcpy_into s buf = name_bytes s @ [0] @ drop (length s + 1) buf"

definition minode_bytes :: "minode \<Rightarrow> byte list" where
  "minode_bytes i = din_bytes (sfs_disk_inode.truncate i) @ le32 (di_db_indirect i)"

definition upd_ci :: "nat \<Rightarrow> (cache_inode \<Rightarrow> cache_inode) \<Rightarrow> mksfs \<Rightarrow> mksfs" where
  "upd_ci c g s = s\<lparr>m_ci := (m_ci s)(c := g (m_ci s c))\<rparr>"

definition upd_minode :: "nat \<Rightarrow> (minode \<Rightarrow> minode) \<Rightarrow> mksfs \<Rightarrow> mksfs" where
  "upd_minode c g s = upd_ci c (\<lambda>x. x\<lparr>ci_inode := g (ci_inode x)\<rparr>) s"

definition upd_cb :: "nat \<Rightarrow> (32 word list \<Rightarrow> 32 word list) \<Rightarrow> mksfs \<Rightarrow> mksfs" where
  "upd_cb b g s = s\<lparr>m_cb := (m_cb s)(b := (m_cb s b)\<lparr>cb_cache := g (cb_cache (m_cb s b))\<rparr>)\<rparr>"

subsection \<open>Block numbers and caches\<close>

definition sfs_alloc_ino :: "mksfs \<Rightarrow> (32 word \<times> mksfs) option" where
  "sfs_alloc_ino s =
     (if m_next s < m_ninos s
      then Some (m_next s, s\<lparr>m_super := (m_super s)\<lparr>unused_blocks := unused_blocks (m_super s) - 1\<rparr>, m_next := m_next s + 1\<rparr>)
      else None)"

text \<open>The block is entered under the hash of the argument, which is 0 when a number is allocated.\<close>

definition alloc_cache_block :: "32 word \<Rightarrow> mksfs \<Rightarrow> (nat \<times> mksfs) option" where
  "alloc_cache_block i s = do {
     (j, s) \<leftarrow> (if i \<noteq> 0 then Some (i, s) else sfs_alloc_ino s);
     let cb = m_ncb s;
     let s = s\<lparr>m_ncb := cb + 1, m_cb := (m_cb s)(cb := \<lparr>cb_ino = j, cb_cache = replicate SFS_BLK_NENTRY 0\<rparr>)\<rparr>;
     let h = mk_hash32 i;
     Some (cb, s\<lparr>m_blocks := (m_blocks s)(h := cb # m_blocks s h)\<rparr>)
   }"

definition search_cache_block :: "32 word \<Rightarrow> mksfs \<Rightarrow> nat option" where
  "search_cache_block i s = List.find (\<lambda>cb. cb_ino (m_cb s cb) = i) (m_blocks s (mk_hash32 i))"

definition new_inode :: "16 word \<Rightarrow> minode" where
  "new_inode type = \<lparr>di_size = 0, di_type = type, di_nlinks = 0, di_blocks = 0, di_direct = replicate SFS_NDIRECT 0,
     di_indirect = 0, di_db_indirect = 0\<rparr>"

definition alloc_cache_inode :: "64 word \<Rightarrow> 32 word \<Rightarrow> 16 word \<Rightarrow> mksfs \<Rightarrow> (nat \<times> mksfs) option" where
  "alloc_cache_inode rl i type s = do {
     (j, s) \<leftarrow> (if i \<noteq> 0 then Some (i, s) else sfs_alloc_ino s);
     let ci = m_nci s;
     let s = s\<lparr>m_nci := ci + 1, m_ci := (m_ci s)(ci :=
       \<lparr>ci_inode = new_inode type, ci_real = rl, ci_ino = j, ci_nblks = 0, ci_l1 = None, ci_l2 = None\<rparr>)\<rparr>;
     let h = mk_hash64 rl;
     Some (ci, s\<lparr>m_inodes := (m_inodes s)(h := ci # m_inodes s h)\<rparr>)
   }"

definition search_cache_inode :: "64 word \<Rightarrow> mksfs \<Rightarrow> nat option" where
  "search_cache_inode rl s = List.find (\<lambda>ci. ci_real (m_ci s ci) = rl) (m_inodes s (mk_hash64 rl))"

text \<open>\<open>imgsize\<close> is the \<open>st_size\<close> of the image file, \<open>img\<close> its content, \<open>junk\<close> what \<open>malloc\<close> left in \<open>super.info\<close>.\<close>

definition create_sfs :: "nat \<Rightarrow> (nat \<Rightarrow> byte) \<Rightarrow> byte list \<Rightarrow> mksfs option" where
  "create_sfs imgsize img junk = do {
     let ninos = of_nat (imgsize div SFS_BLKSIZE);
     let ninos = (if unat ninos > SFS_MAX_NBLKS then of_nat SFS_MAX_NBLKS else ninos);
     let next_ino = SFS_BLKN_FREEMAP + (ninos + of_nat SFS_BLKBITS - 1) div of_nat SFS_BLKBITS;
     assert_c (next_ino < ninos);
     let s = \<lparr>m_super = \<lparr>magic = SFS_MAGIC, blocks = ninos, unused_blocks = ninos - next_ino,
                info = strcpy_into ''simple file system'' junk\<rparr>,
              m_path = [], m_ninos = ninos, m_next = next_ino, m_root = 0, m_inodes = (\<lambda>_. []), m_blocks = (\<lambda>_. []),
              m_ci = (\<lambda>_. undefined), m_nci = 0, m_cb = (\<lambda>_. undefined), m_ncb = 0,
              m_entry = replicate (SFS_MAX_FNAME_LEN + 1) 0, m_img = img\<rparr>;
     (root, s) \<leftarrow> alloc_cache_inode 0 SFS_BLKN_ROOT SFS_TYPE_DIR s;
     Some (s\<lparr>m_root := root\<rparr>)
   }"

definition subpath_push :: "string \<Rightarrow> mksfs \<Rightarrow> mksfs" where
  "subpath_push subname s = s\<lparr>m_path := m_path s @ [subname]\<rparr>"

definition subpath_pop :: "mksfs \<Rightarrow> mksfs option" where
  "subpath_pop s = do { assert_c (m_path s \<noteq> []); Some (s\<lparr>m_path := butlast (m_path s)\<rparr>) }"

subsection \<open>Writing\<close>

definition write_block :: "byte list \<Rightarrow> 32 word \<Rightarrow> mksfs \<Rightarrow> mksfs option" where
  "write_block data i s = do {
     assert_c (length data \<le> SFS_BLKSIZE \<and> i < m_ninos s);
     let data = data @ replicate (SFS_BLKSIZE - length data) 0;
     Some (s\<lparr>m_img := put_bytes (unat i * SFS_BLKSIZE) data (m_img s)\<rparr>)
   }"

definition flush_cache_block :: "nat \<Rightarrow> mksfs \<Rightarrow> mksfs option" where
  "flush_cache_block cb s = write_block (concat (map le32 (cb_cache (m_cb s cb)))) (cb_ino (m_cb s cb)) s"

definition flush_cache_inode :: "nat \<Rightarrow> mksfs \<Rightarrow> mksfs option" where
  "flush_cache_inode ci s = write_block (minode_bytes (ci_inode (m_ci s ci))) (ci_ino (m_ci s ci)) s"

fun set_map_bits :: "nat list \<Rightarrow> 32 word list \<Rightarrow> 32 word list" where
  "set_map_bits [] data = data"
| "set_map_bits (j # js) data = set_map_bits js (data[j div 32 := (data ! (j div 32)) OR push_bit (j mod 32) 1])"

text \<open>The free map block that starts with the bit of block \<open>i\<close>.\<close>

definition freemap_block :: "32 word \<Rightarrow> mksfs \<Rightarrow> 32 word list" where
  "freemap_block i s =
     (if i + of_nat SFS_BLKBITS > m_next s then
        let start = (if i < m_next s then m_next s - i else 0);
            stop = (if i + of_nat SFS_BLKBITS > m_ninos s then m_ninos s - i else of_nat SFS_BLKBITS)
        in set_map_bits [unat start..<unat stop] (replicate SFS_BLK_NENTRY 0)
      else replicate SFS_BLK_NENTRY 0)"

partial_function (option) freemap_loop :: "32 word \<Rightarrow> 32 word \<Rightarrow> mksfs \<Rightarrow> mksfs option" where
  "freemap_loop i blk s =
     (if i < m_ninos s then do {
        s \<leftarrow> write_block (concat (map le32 (freemap_block i s))) blk s;
        freemap_loop (i + of_nat SFS_BLKBITS) (blk + 1) s
      } else Some s)"

declare freemap_loop.simps [code]

fun flush_blocks :: "nat list \<Rightarrow> mksfs \<Rightarrow> mksfs option" where
  "flush_blocks [] s = Some s"
| "flush_blocks (cb # cbs) s = do { s \<leftarrow> flush_cache_block cb s; flush_blocks cbs s }"

fun flush_inodes :: "nat list \<Rightarrow> mksfs \<Rightarrow> mksfs option" where
  "flush_inodes [] s = Some s"
| "flush_inodes (ci # cis) s = do { s \<leftarrow> flush_cache_inode ci s; flush_inodes cis s }"

fun flush_loop :: "nat list \<Rightarrow> mksfs \<Rightarrow> mksfs option" where
  "flush_loop [] s = Some s"
| "flush_loop (i # is) s = do {
     s \<leftarrow> flush_blocks (m_blocks s i) s;
     s \<leftarrow> flush_inodes (m_inodes s i) s;
     flush_loop is s
   }"

definition close_sfs :: "mksfs \<Rightarrow> mksfs option" where
  "close_sfs s = do {
     s \<leftarrow> freemap_loop 0 SFS_BLKN_FREEMAP s;
     s \<leftarrow> write_block (super_bytes (m_super s)) SFS_BLKN_SUPER s;
     flush_loop [0..<HASH_LIST_SIZE] s
   }"

subsection \<open>Files and directories\<close>

text \<open>The result: the values behind the two pointers after the call.\<close>

definition update_cache :: "nat option \<Rightarrow> 32 word \<Rightarrow> mksfs \<Rightarrow> (nat \<times> 32 word \<times> mksfs) option" where
  "update_cache cbp i s =
     (if i = 0 then do { (cb, s) \<leftarrow> alloc_cache_block 0 s; Some (cb, cb_ino (m_cb s cb), s) }
      else case cbp of
        Some cb \<Rightarrow>
          if cb_ino (m_cb s cb) = i then Some (cb, i, s)
          else do { cb \<leftarrow> search_cache_block i s; assert_c (cb_ino (m_cb s cb) = i); Some (cb, i, s) }
      | None \<Rightarrow> do { cb \<leftarrow> search_cache_block i s; assert_c (cb_ino (m_cb s cb) = i); Some (cb, i, s) })"

definition append_l1 :: "nat \<Rightarrow> nat \<Rightarrow> 32 word \<Rightarrow> mksfs \<Rightarrow> mksfs option" where
  "append_l1 file nblks i s = do {
     (l1, ind, s) \<leftarrow> update_cache (ci_l1 (m_ci s file)) (di_indirect (ci_inode (m_ci s file))) s;
     let s = upd_ci file (\<lambda>x. x\<lparr>ci_l1 := Some l1\<rparr>) (upd_minode file (\<lambda>d. d\<lparr>di_indirect := ind\<rparr>) s);
     Some (upd_cb l1 (\<lambda>data. data[nblks := i]) s)
   }"

definition append_l2 :: "nat \<Rightarrow> nat \<Rightarrow> 32 word \<Rightarrow> mksfs \<Rightarrow> mksfs option" where
  "append_l2 file nblks i s = do {
     (l2, ind, s) \<leftarrow> update_cache (ci_l2 (m_ci s file)) (di_db_indirect (ci_inode (m_ci s file))) s;
     let s = upd_ci file (\<lambda>x. x\<lparr>ci_l2 := Some l2\<rparr>) (upd_minode file (\<lambda>d. d\<lparr>di_db_indirect := ind\<rparr>) s);
     (l1, ind, s) \<leftarrow> update_cache (ci_l1 (m_ci s file)) (cb_cache (m_cb s l2) ! (nblks div SFS_BLK_NENTRY)) s;
     let s = upd_ci file (\<lambda>x. x\<lparr>ci_l1 := Some l1\<rparr>) (upd_cb l2 (\<lambda>data. data[nblks div SFS_BLK_NENTRY := ind]) s);
     Some (upd_cb l1 (\<lambda>data. data[nblks mod SFS_BLK_NENTRY := i]) s)
   }"

definition append_block :: "nat \<Rightarrow> nat \<Rightarrow> 32 word \<Rightarrow> mksfs \<Rightarrow> mksfs option" where
  "append_block file len i s = do {
     assert_c (len \<le> SFS_BLKSIZE);
     let nblks = unat (ci_nblks (m_ci s file));
     assert_c (nblks < SFS_LN_NBLKS);
     s \<leftarrow> (if nblks < SFS_L0_NBLKS then Some (upd_minode file (\<lambda>d. d\<lparr>di_direct := (di_direct d)[nblks := i]\<rparr>) s)
       else if nblks < SFS_L1_NBLKS then append_l1 file (nblks - SFS_L0_NBLKS) i s
       else if nblks < SFS_L2_NBLKS then append_l2 file (nblks - SFS_L1_NBLKS) i s
       else Some s);
     Some (upd_ci file (\<lambda>x. x\<lparr>ci_nblks := ci_nblks x + 1\<rparr>)
       (upd_minode file (\<lambda>d. d\<lparr>di_size := di_size d + of_nat len, di_blocks := di_blocks d + 1\<rparr>) s))
   }"

text \<open>The entry is written with the length of its name field, four bytes less than its own.\<close>

definition add_entry :: "nat \<Rightarrow> nat \<Rightarrow> string \<Rightarrow> mksfs \<Rightarrow> mksfs option" where
  "add_entry cur file name s = do {
     assert_c (di_type (ci_inode (m_ci s cur)) = SFS_TYPE_DIR \<and> length name \<le> SFS_MAX_FNAME_LEN);
     let i = ci_ino (m_ci s file);
     let s = s\<lparr>m_entry := strcpy_into name (m_entry s)\<rparr>;
     (entry_ino, s) \<leftarrow> sfs_alloc_ino s;
     s \<leftarrow> write_block (take (SFS_MAX_FNAME_LEN + 1) (le32 i @ m_entry s)) entry_ino s;
     s \<leftarrow> append_block cur (SFS_MAX_FNAME_LEN + 1) entry_ino s;
     Some (upd_minode file (\<lambda>d. d\<lparr>di_nlinks := di_nlinks d + 1\<rparr>) s)
   }"

function open_file_loop :: "nat \<Rightarrow> byte list \<Rightarrow> nat \<Rightarrow> mksfs \<Rightarrow> mksfs option" where
  "open_file_loop file data prev s =
     (if data = [] then Some s
      else do {
        let buffer = take SFS_BLKSIZE data;
        assert_c (prev = SFS_BLKSIZE);
        (i, s) \<leftarrow> sfs_alloc_ino s;
        s \<leftarrow> write_block buffer i s;
        s \<leftarrow> append_block file (length buffer) i s;
        open_file_loop file (drop SFS_BLKSIZE data) (length buffer) s
      })"
  by pat_completeness auto
termination by (relation "measure (\<lambda>(_, data, _, _). length data)") (auto simp: SFS_BLKSIZE_def)

declare open_file_loop.simps [simp del]

definition open_file :: "nat \<Rightarrow> byte list \<Rightarrow> mksfs \<Rightarrow> mksfs option" where
  "open_file file data s = open_file_loop file data SFS_BLKSIZE s"

definition open_link :: "nat \<Rightarrow> byte list \<Rightarrow> mksfs \<Rightarrow> mksfs option" where
  "open_link file target s = do {
     (i, s) \<leftarrow> sfs_alloc_ino s;
     assert_c (length target < SFS_BLKSIZE);
     s \<leftarrow> write_block target i s;
     append_block file (length target) i s
   }"

definition add_file :: "nat \<Rightarrow> string \<Rightarrow> 64 word \<Rightarrow> byte list \<Rightarrow> mksfs \<Rightarrow> mksfs option" where
  "add_file cur filename rl data s = do {
     (file, s) \<leftarrow> (case search_cache_inode rl s of
         Some file \<Rightarrow> Some (file, s)
       | None \<Rightarrow> do {
           (file, s) \<leftarrow> alloc_cache_inode rl 0 SFS_TYPE_FILE s;
           s \<leftarrow> open_file file data s;
           Some (file, s)
         });
     add_entry cur file filename s
   }"

definition add_link :: "nat \<Rightarrow> string \<Rightarrow> 64 word \<Rightarrow> byte list \<Rightarrow> mksfs \<Rightarrow> mksfs option" where
  "add_link cur filename rl target s = do {
     (file, s) \<leftarrow> alloc_cache_inode rl 0 SFS_TYPE_LINK s;
     s \<leftarrow> open_link file target s;
     add_entry cur file filename s
   }"

definition hidden :: "string \<Rightarrow> bool" where
  "hidden name \<longleftrightarrow> name = ''.'' \<or> name = ''..'' \<or> take 1 name = ''.''"

text \<open>\<open>add_dir\<close> up to its call of \<open>open_dir\<close>, and after it.\<close>

definition add_dir_begin :: "string \<Rightarrow> 64 word \<Rightarrow> mksfs \<Rightarrow> (nat \<times> mksfs) option" where
  "add_dir_begin dirname rl s = do {
     assert_c (search_cache_inode rl s = None);
     (cur, s) \<leftarrow> alloc_cache_inode rl 0 SFS_TYPE_DIR s;
     Some (cur, subpath_push dirname s)
   }"

definition add_dir_end :: "nat \<Rightarrow> string \<Rightarrow> nat \<Rightarrow> mksfs \<Rightarrow> mksfs option" where
  "add_dir_end par dirname cur s = do {
     s \<leftarrow> subpath_pop s;
     add_entry par cur dirname s
   }"

text \<open>\<open>open_dir\<close>, its loop over the entries, and what it does with one.\<close>

fun open_dir :: "hdir \<Rightarrow> nat \<Rightarrow> nat \<Rightarrow> mksfs \<Rightarrow> mksfs option"
  and open_entries :: "hdir \<Rightarrow> nat \<Rightarrow> mksfs \<Rightarrow> mksfs option"
  and open_entry :: "host \<Rightarrow> string \<Rightarrow> nat \<Rightarrow> mksfs \<Rightarrow> mksfs option" where
  "open_dir d cur par s = do {
     s \<leftarrow> add_entry cur cur ''.'' s;
     s \<leftarrow> add_entry cur par ''..'' s;
     open_entries d cur s
   }"
| "open_entries DirEnd cur s = Some s"
| "open_entries (DirEntry name h d) cur s =
     (if hidden name then open_entries d cur s
      else do {
        assert_c (length name \<le> SFS_MAX_FNAME_LEN);
        s \<leftarrow> open_entry h name cur s;
        open_entries d cur s
      })"
| "open_entry (HLink rl target) name cur s = add_link cur name rl target s"
| "open_entry (HDir rl d) name cur s = do {
     (dir, s) \<leftarrow> add_dir_begin name rl s;
     s \<leftarrow> open_dir d dir cur s;
     add_dir_end cur name dir s
   }"
| "open_entry (HFile rl data) name cur s = add_file cur name rl data s"
| "open_entry HOther name cur s = Some s"

text \<open>\<open>open_img\<close> checks the name of the image file; \<open>imgname\<close> is a path.\<close>

definition open_img :: "string \<Rightarrow> nat \<Rightarrow> (nat \<Rightarrow> byte) \<Rightarrow> byte list \<Rightarrow> mksfs option" where
  "open_img imgname imgsize img junk = do {
     assert_c (length imgname > 4 \<and> drop (length imgname - 4) imgname = ''.img'');
     create_sfs imgsize img junk
   }"

definition create_img :: "mksfs \<Rightarrow> hdir \<Rightarrow> mksfs option" where
  "create_img s home = do {
     s \<leftarrow> open_dir home (m_root s) (m_root s) s;
     close_sfs s
   }"

definition mksfs_main :: "string \<Rightarrow> nat \<Rightarrow> (nat \<Rightarrow> byte) \<Rightarrow> byte list \<Rightarrow> hdir \<Rightarrow> mksfs option" where
  "mksfs_main imgname imgsize img junk home = do {
     s \<leftarrow> open_img imgname imgsize img junk;
     create_img s home
   }"

end
