(* ===== verification/MksfsProps.thy ===== *)
theory MksfsProps
  imports Mksfs SfsProps
begin

section \<open>What the image builder keeps\<close>

text \<open>
  \<open>mk_inv\<close>: the super block counts the blocks exactly; every block number handed out lies behind the
  free map and below \<open>m_next\<close>; inodes and index blocks have their sizes. Every operation keeps it. The
  image that \<open>close_sfs\<close> writes then holds the super block in block 0 and a free map whose bits are
  exactly the numbers not handed out.
\<close>

definition map_end :: "mksfs \<Rightarrow> nat" where
  "map_end s = 2 + ROUNDUP_DIV (unat (m_ninos s)) SFS_BLKBITS"

definition ino_ok :: "mksfs \<Rightarrow> 32 word \<Rightarrow> bool" where
  "ino_ok s i \<longleftrightarrow> map_end s \<le> unat i \<and> i < m_next s"

definition mk_super_ok :: "mksfs \<Rightarrow> bool" where
  "mk_super_ok s \<longleftrightarrow> magic (m_super s) = SFS_MAGIC \<and> blocks (m_super s) = m_ninos s \<and>
     unused_blocks (m_super s) = m_ninos s - m_next s \<and> length (info (m_super s)) = SFS_MAX_INFO_LEN + 1 \<and>
     unat (m_ninos s) \<le> SFS_MAX_NBLKS \<and> map_end s \<le> unat (m_next s) \<and> m_next s \<le> m_ninos s"

definition mk_inv :: "mksfs \<Rightarrow> bool" where
  "mk_inv s \<longleftrightarrow> mk_super_ok s \<and>
     (\<forall>h. \<forall>c \<in> set (m_inodes s h). (ci_ino (m_ci s c) = SFS_BLKN_ROOT \<or> ino_ok s (ci_ino (m_ci s c))) \<and>
        length (di_direct (ci_inode (m_ci s c))) = SFS_NDIRECT) \<and>
     (\<forall>h. \<forall>b \<in> set (m_blocks s h). ino_ok s (cb_ino (m_cb s b)) \<and> length (cb_cache (m_cb s b)) = SFS_BLK_NENTRY)"

text \<open>A step of the tool: the invariant and the size stay.\<close>

definition mk_step :: "mksfs \<Rightarrow> mksfs \<Rightarrow> bool" where
  "mk_step s t \<longleftrightarrow> (mk_inv s \<longrightarrow> mk_inv t \<and> m_ninos t = m_ninos s)"

lemma mk_step_refl [simp]: "mk_step s s"
  by (simp add: mk_step_def)

lemma mk_step_trans [trans]: "mk_step s t \<Longrightarrow> mk_step t u \<Longrightarrow> mk_step s u"
  by (simp add: mk_step_def)

subsection \<open>Updates\<close>

lemma mk_step_upd_ci:
  assumes "\<And>x. ci_ino (g x) = ci_ino x" "\<And>x. length (di_direct (ci_inode (g x))) = length (di_direct (ci_inode x))"
  shows "mk_step s (upd_ci c g s)"
  unfolding mk_step_def mk_inv_def mk_super_ok_def map_end_def ino_ok_def upd_ci_def using assms by simp

lemma mk_step_upd_minode:
  assumes "\<And>x. length (di_direct (g x)) = length (di_direct x)"
  shows "mk_step s (upd_minode c g s)"
  unfolding upd_minode_def by (rule mk_step_upd_ci) (simp_all add: assms)

lemma mk_step_upd_cb:
  assumes "\<And>x. length (g x) = length x"
  shows "mk_step s (upd_cb b g s)"
  unfolding mk_step_def mk_inv_def mk_super_ok_def map_end_def ino_ok_def upd_cb_def using assms by simp

lemma mk_step_frame:
  "mk_step s (s\<lparr>m_img := x\<rparr>)" "mk_step s (s\<lparr>m_entry := e\<rparr>)" "mk_step s (s\<lparr>m_path := p\<rparr>)"
  by (simp_all add: mk_step_def mk_inv_def mk_super_ok_def map_end_def ino_ok_def)

lemma alloc_ino_step:
  assumes "sfs_alloc_ino s = Some (i, t)"
  shows "mk_step s t" "mk_inv s \<Longrightarrow> ino_ok t i"
proof -
  have t: "i = m_next s" "m_next s < m_ninos s"
    "t = s\<lparr>m_super := (m_super s)\<lparr>unused_blocks := unused_blocks (m_super s) - 1\<rparr>, m_next := m_next s + 1\<rparr>"
    using assms by (auto simp: sfs_alloc_ino_def split: if_splits)
  have u: "unat (m_next s + 1) = unat (m_next s) + 1"
    using t(2) unsigned_less [of "m_ninos s", where ?'a = nat] by (simp add: unat_word_ariths word_less_nat_alt)
  have le: "m_next s + 1 \<le> m_ninos s" using t(2) u by (simp add: word_less_nat_alt word_le_nat_alt)
  have lt: "j < m_next s + 1" if "j < m_next s" for j
    using that u by (simp add: word_less_nat_alt)
  show "mk_step s t" unfolding t(3) mk_step_def mk_inv_def mk_super_ok_def map_end_def ino_ok_def
    using le u lt by auto
  show "mk_inv s \<Longrightarrow> ino_ok t i" unfolding t(1,3) mk_inv_def mk_super_ok_def map_end_def ino_ok_def
    using u by (simp add: word_less_nat_alt)
qed

lemma alloc_cache_block_step:
  assumes "alloc_cache_block 0 s = Some (b, t)"
  shows "mk_step s t"
proof -
  obtain i u where u: "sfs_alloc_ino s = Some (i, u)"
    "t = u\<lparr>m_ncb := m_ncb u + 1, m_cb := (m_cb u)(m_ncb u := \<lparr>cb_ino = i, cb_cache = replicate SFS_BLK_NENTRY 0\<rparr>),
       m_blocks := (m_blocks u)(mk_hash32 0 := m_ncb u # m_blocks u (mk_hash32 0))\<rparr>"
    using assms by (auto simp: alloc_cache_block_def bind_eq_Some_conv Let_def)
  have "mk_inv t \<and> m_ninos t = m_ninos u" if "mk_inv u" "ino_ok u i"
    using that unfolding u(2) mk_inv_def mk_super_ok_def map_end_def ino_ok_def by auto
  then show ?thesis using alloc_ino_step [OF u(1)] by (simp add: mk_step_def)
qed

lemma alloc_cache_inode_step:
  assumes "alloc_cache_inode r j ty s = Some (c, t)" "j = 0 \<or> j = SFS_BLKN_ROOT"
  shows "mk_step s t"
proof -
  define u where "u = (if j \<noteq> 0 then s else snd (the (sfs_alloc_ino s)))"
  obtain i where u: "mk_step s u" "mk_inv s \<Longrightarrow> i = SFS_BLKN_ROOT \<or> ino_ok u i"
    "t = u\<lparr>m_nci := m_nci u + 1, m_ci := (m_ci u)(m_nci u :=
       \<lparr>ci_inode = new_inode ty, ci_real = r, ci_ino = i, ci_nblks = 0, ci_l1 = None, ci_l2 = None\<rparr>),
       m_inodes := (m_inodes u)(mk_hash64 r := m_nci u # m_inodes u (mk_hash64 r))\<rparr>"
  proof (cases "j = 0")
    case True
    then obtain i where "sfs_alloc_ino s = Some (i, u)" "t = u\<lparr>m_nci := m_nci u + 1, m_ci := (m_ci u)(m_nci u :=
       \<lparr>ci_inode = new_inode ty, ci_real = r, ci_ino = i, ci_nblks = 0, ci_l1 = None, ci_l2 = None\<rparr>),
       m_inodes := (m_inodes u)(mk_hash64 r := m_nci u # m_inodes u (mk_hash64 r))\<rparr>"
      using assms(1) by (auto simp: alloc_cache_inode_def bind_eq_Some_conv Let_def u_def)
    then show ?thesis using alloc_ino_step that by metis
  next
    case False
    then show ?thesis using assms by (intro that [of SFS_BLKN_ROOT]) (auto simp: alloc_cache_inode_def Let_def u_def)
  qed
  have "mk_inv t \<and> m_ninos t = m_ninos u" if "mk_inv u" "i = SFS_BLKN_ROOT \<or> ino_ok u i"
    using that unfolding u(3) mk_inv_def mk_super_ok_def map_end_def ino_ok_def by (auto simp: new_inode_def)
  then show ?thesis using u(1,2) by (auto simp: mk_step_def)
qed

lemma write_block_step: "write_block data i s = Some t \<Longrightarrow> mk_step s t"
  by (auto simp: write_block_def Let_def intro: mk_step_frame)

lemma update_cache_step:
  assumes "update_cache cbp i s = Some (cb, j, t)"
  shows "mk_step s t"
  using assms by (auto simp: update_cache_def bind_eq_Some_conv split: if_splits option.splits dest: alloc_cache_block_step)

subsection \<open>Files, entries, directories\<close>

lemma append_l1_step:
  assumes "append_l1 fl k i s = Some t"
  shows "mk_step s t"
proof -
  obtain l ind u where u: "update_cache (ci_l1 (m_ci s fl)) (di_indirect (ci_inode (m_ci s fl))) s = Some (l, ind, u)"
    "t = upd_cb l (\<lambda>d. d[k := i]) (upd_ci fl (\<lambda>x. x\<lparr>ci_l1 := Some l\<rparr>) (upd_minode fl (\<lambda>d. d\<lparr>di_indirect := ind\<rparr>) u))"
    using assms by (auto simp: append_l1_def bind_eq_Some_conv Let_def)
  note update_cache_step [OF u(1)]
  also have "mk_step u (upd_minode fl (\<lambda>d. d\<lparr>di_indirect := ind\<rparr>) u)" by (rule mk_step_upd_minode) simp
  also have "mk_step \<dots> (upd_ci fl (\<lambda>x. x\<lparr>ci_l1 := Some l\<rparr>) \<dots>)" by (rule mk_step_upd_ci) simp_all
  also have "mk_step \<dots> t" unfolding u(2) by (rule mk_step_upd_cb) simp
  finally show ?thesis .
qed

lemma append_l2_step:
  assumes "append_l2 fl k i s = Some t"
  shows "mk_step s t"
proof -
  obtain l ind u v l' ind' w where
    u: "update_cache (ci_l2 (m_ci s fl)) (di_db_indirect (ci_inode (m_ci s fl))) s = Some (l, ind, u)"
    and v: "v = upd_ci fl (\<lambda>x. x\<lparr>ci_l2 := Some l\<rparr>) (upd_minode fl (\<lambda>d. d\<lparr>di_db_indirect := ind\<rparr>) u)"
    and w: "update_cache (ci_l1 (m_ci v fl)) (cb_cache (m_cb v l) ! (k div SFS_BLK_NENTRY)) v = Some (l', ind', w)"
    and t: "t = upd_cb l' (\<lambda>d. d[k mod SFS_BLK_NENTRY := i]) (upd_ci fl (\<lambda>x. x\<lparr>ci_l1 := Some l'\<rparr>)
        (upd_cb l (\<lambda>d. d[k div SFS_BLK_NENTRY := ind']) w))"
    using assms unfolding append_l2_def Let_def bind_eq_Some_conv by (auto simp: bind_eq_Some_conv)
  note update_cache_step [OF u]
  also have "mk_step u (upd_minode fl (\<lambda>d. d\<lparr>di_db_indirect := ind\<rparr>) u)" by (rule mk_step_upd_minode) simp
  also have "mk_step \<dots> v" unfolding v by (rule mk_step_upd_ci) simp_all
  also note update_cache_step [OF w]
  also have "mk_step w (upd_cb l (\<lambda>d. d[k div SFS_BLK_NENTRY := ind']) w)" by (rule mk_step_upd_cb) simp
  also have "mk_step \<dots> (upd_ci fl (\<lambda>x. x\<lparr>ci_l1 := Some l'\<rparr>) \<dots>)" by (rule mk_step_upd_ci) simp_all
  also have "mk_step \<dots> t" unfolding t by (rule mk_step_upd_cb) simp
  finally show ?thesis .
qed

lemma append_block_step:
  assumes "append_block fl n i s = Some t"
  shows "mk_step s t"
proof -
  let ?k = "unat (ci_nblks (m_ci s fl))"
  let ?d = "upd_minode fl (\<lambda>d. d\<lparr>di_direct := (di_direct d)[?k := i]\<rparr>) s"
  obtain u where u: "(if ?k < SFS_L0_NBLKS then Some ?d else if ?k < SFS_L1_NBLKS then append_l1 fl (?k - SFS_L0_NBLKS) i s
      else if ?k < SFS_L2_NBLKS then append_l2 fl (?k - SFS_L1_NBLKS) i s else Some s) = Some u"
    and t: "t = upd_ci fl (\<lambda>x. x\<lparr>ci_nblks := ci_nblks x + 1\<rparr>)
      (upd_minode fl (\<lambda>d. d\<lparr>di_size := di_size d + of_nat n, di_blocks := di_blocks d + 1\<rparr>) u)"
    using assms unfolding append_block_def Let_def bind_eq_Some_conv by blast
  have "mk_step s ?d" by (rule mk_step_upd_minode) simp
  then have "mk_step s u" using u by (auto split: if_splits dest: append_l1_step append_l2_step)
  also have "mk_step u (upd_minode fl (\<lambda>d. d\<lparr>di_size := di_size d + of_nat n, di_blocks := di_blocks d + 1\<rparr>) u)"
    by (rule mk_step_upd_minode) simp
  also have "mk_step \<dots> t" unfolding t by (rule mk_step_upd_ci) simp_all
  finally show ?thesis .
qed

lemma add_entry_step:
  assumes "add_entry cur fl name s = Some t"
  shows "mk_step s t"
proof -
  let ?e = "s\<lparr>m_entry := strcpy_into name (m_entry s)\<rparr>"
  obtain i u v w where u: "sfs_alloc_ino ?e = Some (i, u)"
    and v: "write_block (take (SFS_MAX_FNAME_LEN + 1) (le32 (ci_ino (m_ci s fl)) @ m_entry u)) i u = Some v"
    and w: "append_block cur (SFS_MAX_FNAME_LEN + 1) i v = Some w"
    and t: "t = upd_minode fl (\<lambda>d. d\<lparr>di_nlinks := di_nlinks d + 1\<rparr>) w"
    using assms unfolding add_entry_def Let_def bind_eq_Some_conv by (auto simp: bind_eq_Some_conv)
  have "mk_step s ?e" by (rule mk_step_frame)
  also note alloc_ino_step(1) [OF u]
  also note write_block_step [OF v]
  also note append_block_step [OF w]
  also have "mk_step w t" unfolding t by (rule mk_step_upd_minode) simp
  finally show ?thesis .
qed

lemma open_file_step: "open_file_loop fl data prev s = Some t \<Longrightarrow> mk_step s t"
proof (induction fl data prev s arbitrary: t rule: open_file_loop.induct)
  case (1 fl data prev s)
  show ?case
  proof (cases "data = []")
    case False
    then obtain i u v w where u: "sfs_alloc_ino s = Some (i, u)" "write_block (take SFS_BLKSIZE data) i u = Some v"
      "append_block fl (length (take SFS_BLKSIZE data)) i v = Some w" "prev = SFS_BLKSIZE"
      and w: "open_file_loop fl (drop SFS_BLKSIZE data) (length (take SFS_BLKSIZE data)) w = Some t"
      using "1.prems" by (subst (asm) open_file_loop.simps) (auto simp: bind_eq_Some_conv Let_def)
    note alloc_ino_step(1) [OF u(1)]
    also note write_block_step [OF u(2)]
    also note append_block_step [OF u(3)]
    also have "mk_step w t" by (rule "1.IH" [OF False _ _ u(1) _ u(2,3) w]) (use u(4) in simp_all)
    finally show ?thesis .
  qed (use "1.prems" in \<open>simp add: open_file_loop.simps\<close>)
qed

lemma add_file_step:
  assumes "add_file cur name r data s = Some t"
  shows "mk_step s t"
proof -
  have "\<exists>fl u. mk_step s u \<and> add_entry cur fl name u = Some t"
  proof (cases "search_cache_inode r s")
    case None
    then obtain fl u v where "alloc_cache_inode r 0 SFS_TYPE_FILE s = Some (fl, u)" "open_file_loop fl data SFS_BLKSIZE u = Some v"
      "add_entry cur fl name v = Some t"
      using assms unfolding add_file_def open_file_def by (auto simp: bind_eq_Some_conv)
    then show ?thesis using alloc_cache_inode_step open_file_step mk_step_trans by blast
  next
    case (Some fl)
    then have "add_entry cur fl name s = Some t" using assms by (simp add: add_file_def)
    then show ?thesis using mk_step_refl by blast
  qed
  then show ?thesis using add_entry_step mk_step_trans by blast
qed

lemma add_link_step:
  assumes "add_link cur name r target s = Some t"
  shows "mk_step s t"
proof -
  obtain fl u i v w x where u: "alloc_cache_inode r 0 SFS_TYPE_LINK s = Some (fl, u)" "sfs_alloc_ino u = Some (i, v)"
    "write_block target i v = Some w" "append_block fl (length target) i w = Some x" "add_entry cur fl name x = Some t"
    using assms unfolding add_link_def open_link_def by (auto simp: bind_eq_Some_conv)
  have "mk_step s u" by (rule alloc_cache_inode_step [OF u(1)]) simp
  also note alloc_ino_step(1) [OF u(2)]
  also note write_block_step [OF u(3)]
  also note append_block_step [OF u(4)]
  also note add_entry_step [OF u(5)]
  finally show ?thesis .
qed

lemma open_dir_step:
  "open_dir d cur par s = Some t \<Longrightarrow> mk_step s t"
  "open_entries e cur s = Some t \<Longrightarrow> mk_step s t"
  "open_entry h name cur s = Some t \<Longrightarrow> mk_step s t"
proof (induction d cur par s and e cur s and h name cur s arbitrary: t and t and t rule: open_dir_open_entries_open_entry.induct)
  case (1 d cur par s)
  then obtain u v where u: "add_entry cur cur ''.'' s = Some u" "add_entry cur par ''..'' u = Some v" "open_entries d cur v = Some t"
    by (auto simp: bind_eq_Some_conv)
  note add_entry_step [OF u(1)]
  also note add_entry_step [OF u(2)]
  also note "1.IH" [OF u]
  finally show ?case .
next
  case (3 name h d cur s)
  show ?case
  proof (cases "hidden name")
    case False
    then obtain u where u: "open_entry h name cur s = Some u" "open_entries d cur u = Some t" "length name \<le> SFS_MAX_FNAME_LEN"
      using "3.prems" by (auto simp: bind_eq_Some_conv)
    then have "mk_step s u" "mk_step u t" using "3.IH"(2,3) [OF False] by auto
    then show ?thesis by (rule mk_step_trans)
  qed (use 3 in simp)
next
  case (5 r d name cur s)
  then obtain dir u v w where u: "search_cache_inode r s = None" "alloc_cache_inode r 0 SFS_TYPE_DIR s = Some (dir, u)"
    "open_dir d dir cur (subpath_push name u) = Some v" "subpath_pop v = Some w" "add_entry cur dir name w = Some t"
    by (auto simp: bind_eq_Some_conv add_dir_begin_def add_dir_end_def)
  have "mk_step s u" by (rule alloc_cache_inode_step [OF u(2)]) simp
  also have "mk_step u (subpath_push name u)" unfolding subpath_push_def by (rule mk_step_frame)
  also have "mk_step \<dots> v" by (rule "5.IH") (use u in \<open>auto simp: add_dir_begin_def\<close>)
  also have "mk_step v w" using u(4) by (auto simp: subpath_pop_def intro: mk_step_frame)
  also note add_entry_step [OF u(5)]
  finally show ?case .
qed (auto dest: add_link_step add_file_step)

lemma strcpy_into_length: "length s < length buf \<Longrightarrow> length (strcpy_into s buf) = length buf"
  by (simp add: strcpy_into_def name_bytes_def)

text \<open>The first number handed out lies behind the free map: the code's 32-bit division rounds up.\<close>

lemma unat_numeral_small: "unat (32767 :: 32 word) = 32767"
  by simp

lemma map_end_word:
  assumes "unat (n :: 32 word) \<le> SFS_MAX_NBLKS"
  shows "unat (SFS_BLKN_FREEMAP + (n + of_nat SFS_BLKBITS - 1) div of_nat SFS_BLKBITS) = 2 + ROUNDUP_DIV (unat n) SFS_BLKBITS"
proof -
  have b: "(of_nat SFS_BLKBITS :: 32 word) = 32768" by (simp add: SFS_BLKBITS_def SFS_BLKSIZE_def)
  have n: "unat n \<le> 524288" using assms unfolding SFS_MAX_NBLKS_def by simp
  have "unat (n + 32767) = unat n + unat (32767 :: 32 word)"
    by (rule unat_add_lem [THEN iffD1]) (use n in simp)
  then have "unat (n + 32767) = unat n + 32767" by (simp only: unat_numeral_small)
  moreover have "n + 32768 - 1 = n + 32767" by simp
  ultimately have "unat (n + 32768 - 1) = unat n + 32767" by metis
  then have "unat ((n + 32768 - 1) div 32768) = (unat n + 32767) div 32768" by (simp add: unat_div)
  moreover have k: "(unat n + 32767) div 32768 \<le> 16" using n by simp
  ultimately have q: "unat ((n + 32768 - 1) div 32768) \<le> 16" "unat ((n + 32768 - 1) div 32768) = ROUNDUP_DIV (unat n) SFS_BLKBITS"
    by (simp_all add: ROUNDUP_DIV_def SFS_BLKBITS_def SFS_BLKSIZE_def)
  have "unat ((2 :: 32 word) + (n + 32768 - 1) div 32768) = unat (2 :: 32 word) + unat ((n + 32768 - 1) div 32768)"
    by (rule unat_add_lem [THEN iffD1]) (use q(1) in simp)
  then show ?thesis unfolding b SFS_BLKN_FREEMAP_def q(2) by simp
qed

lemma mk_inv_create:
  assumes "create_sfs n img junk = Some s" "length junk = SFS_MAX_INFO_LEN + 1"
  shows "mk_inv s"
proof -
  define ninos :: "32 word" where "ninos = (if unat (of_nat (n div SFS_BLKSIZE) :: 32 word) > SFS_MAX_NBLKS
    then of_nat SFS_MAX_NBLKS else of_nat (n div SFS_BLKSIZE))"
  define next_ino where "next_ino = SFS_BLKN_FREEMAP + (ninos + of_nat SFS_BLKBITS - 1) div of_nat SFS_BLKBITS"
  define u where "u = \<lparr>m_super = \<lparr>magic = SFS_MAGIC, blocks = ninos, unused_blocks = ninos - next_ino,
        info = strcpy_into ''simple file system'' junk\<rparr>, m_path = [], m_ninos = ninos, m_next = next_ino, m_root = 0,
        m_inodes = (\<lambda>_. []), m_blocks = (\<lambda>_. []), m_ci = (\<lambda>_. undefined), m_nci = 0, m_cb = (\<lambda>_. undefined), m_ncb = 0,
        m_entry = replicate (SFS_MAX_FNAME_LEN + 1) 0, m_img = img\<rparr>"
  have e: "create_sfs n img junk = do {
      assert_c (next_ino < ninos);
      (root, s) \<leftarrow> alloc_cache_inode 0 SFS_BLKN_ROOT SFS_TYPE_DIR u;
      Some (s\<lparr>m_root := root\<rparr>) }"
    unfolding create_sfs_def Let_def u_def ninos_def next_ino_def ..
  then obtain root t where lt: "next_ino < ninos" and
    t: "alloc_cache_inode 0 SFS_BLKN_ROOT SFS_TYPE_DIR u = Some (root, t)" "s = t\<lparr>m_root := root\<rparr>"
    using assms(1) unfolding e by (auto simp: bind_eq_Some_conv)
  have le: "unat ninos \<le> SFS_MAX_NBLKS"
    by (simp add: ninos_def SFS_MAX_NBLKS_def)
  have i: "length (strcpy_into ''simple file system'' junk) = SFS_MAX_INFO_LEN + 1"
    using assms(2) by (simp add: strcpy_into_length SFS_MAX_INFO_LEN_def)
  have "mk_inv u" unfolding u_def mk_inv_def mk_super_ok_def map_end_def
    using lt le i map_end_word [OF le] by (simp add: next_ino_def [symmetric])
  then have "mk_inv t" using alloc_cache_inode_step [OF t(1)] by (simp add: mk_step_def)
  then show ?thesis unfolding t(2) by (simp add: mk_inv_def mk_super_ok_def map_end_def ino_ok_def)
qed

subsection \<open>The image that is written\<close>

definition img_blk :: "(nat \<Rightarrow> byte) \<Rightarrow> nat \<Rightarrow> byte list" where
  "img_blk img b = map img [b * SFS_BLKSIZE..<(b + 1) * SFS_BLKSIZE]"

definition padded :: "byte list \<Rightarrow> byte list" where
  "padded data = data @ replicate (SFS_BLKSIZE - length data) 0"

lemma img_blk_put:
  assumes "length data = SFS_BLKSIZE"
  shows "img_blk (put_bytes (i * SFS_BLKSIZE) data img) b = (if b = i then data else img_blk img b)"
proof (rule nth_equalityI)
  show "length (img_blk (put_bytes (i * SFS_BLKSIZE) data img) b) = length (if b = i then data else img_blk img b)"
    using assms by (simp add: img_blk_def)
next
  fix k assume "k < length (img_blk (put_bytes (i * SFS_BLKSIZE) data img) b)"
  then have k: "k < 4096" by (simp add: img_blk_def SFS_BLKSIZE_def)
  have "i * 4096 \<le> b * 4096 + k \<and> b * 4096 + k < i * 4096 + 4096 \<longleftrightarrow> b = i" using k by auto
  then show "img_blk (put_bytes (i * SFS_BLKSIZE) data img) b ! k = (if b = i then data else img_blk img b) ! k"
    using assms k by (simp add: img_blk_def put_bytes_at SFS_BLKSIZE_def del: upt_Suc)
qed

text \<open>A state in which only the image differs, and the blocks that differ.\<close>

definition wrote :: "(nat \<Rightarrow> byte list option) \<Rightarrow> mksfs \<Rightarrow> mksfs \<Rightarrow> bool" where
  "wrote w s t \<longleftrightarrow> t = s\<lparr>m_img := m_img t\<rparr> \<and>
     (\<forall>b. img_blk (m_img t) b = (case w b of None \<Rightarrow> img_blk (m_img s) b | Some data \<Rightarrow> data))"

lemma wrote_sels:
  assumes "wrote w s t"
  shows "m_super t = m_super s" "m_ninos t = m_ninos s" "m_next t = m_next s" "m_inodes t = m_inodes s"
    "m_blocks t = m_blocks s" "m_ci t = m_ci s" "m_cb t = m_cb s" "mk_inv t = mk_inv s" "freemap_block i t = freemap_block i s"
proof -
  obtain x where x: "t = s\<lparr>m_img := x\<rparr>" using assms unfolding wrote_def by blast
  show "m_super t = m_super s" "m_ninos t = m_ninos s" "m_next t = m_next s" "m_inodes t = m_inodes s"
    "m_blocks t = m_blocks s" "m_ci t = m_ci s" "m_cb t = m_cb s" "freemap_block i t = freemap_block i s"
    by (simp_all add: x freemap_block_def)
  show "mk_inv t = mk_inv s" by (simp add: x mk_inv_def mk_super_ok_def map_end_def ino_ok_def)
qed

lemma wrote_trans: "wrote v s t \<Longrightarrow> wrote w t u \<Longrightarrow> wrote (v ++ w) s u"
proof -
  assume a: "wrote v s t" "wrote w t u"
  obtain x y where "t = s\<lparr>m_img := x\<rparr>" "u = t\<lparr>m_img := y\<rparr>" using a unfolding wrote_def by blast
  then have "u = s\<lparr>m_img := m_img u\<rparr>" by simp
  then show ?thesis using a unfolding wrote_def by (auto simp: map_add_def split: option.split)
qed

lemma wrote_refl: "wrote Map.empty s s"
  by (simp add: wrote_def)

lemma write_block_wrote:
  assumes "length data \<le> SFS_BLKSIZE" "i < m_ninos s"
  shows "\<exists>t. write_block data i s = Some t \<and> wrote [unat i \<mapsto> padded data] s t"
proof -
  have "length (padded data) = SFS_BLKSIZE" using assms(1) by (simp add: padded_def)
  then have "wrote [unat i \<mapsto> padded data] s (s\<lparr>m_img := put_bytes (unat i * SFS_BLKSIZE) (padded data) (m_img s)\<rparr>)"
    by (simp add: wrote_def img_blk_put)
  then show ?thesis using assms by (simp add: write_block_def padded_def)
qed

lemma length_words: "length (concat (map le32 ws)) = 4 * length ws"
  by (induction ws) simp_all

lemma length_set_map_bits [simp]: "length (set_map_bits js ws) = length ws"
  by (induction js ws rule: set_map_bits.induct) simp_all

lemma length_freemap_block [simp]: "length (freemap_block i s) = SFS_BLK_NENTRY"
  by (simp add: freemap_block_def Let_def)

lemma set_map_bits_bit:
  assumes "\<forall>j \<in> set js. j < 32 * length ws" "k < length ws" "b < 32"
  shows "bit (set_map_bits js ws ! k) b \<longleftrightarrow> bit (ws ! k) b \<or> 32 * k + b \<in> set js"
  using assms
proof (induction js ws rule: set_map_bits.induct)
  case (2 j js ws)
  have j: "j div 32 < length ws" using "2.prems"(1) by auto
  have "j div 32 = k \<and> b = j mod 32 \<longleftrightarrow> j = 32 * k + b" using "2.prems"(3) by auto
  then have "bit ((ws[j div 32 := (ws ! (j div 32)) OR push_bit (j mod 32) 1]) ! k) b \<longleftrightarrow> bit (ws ! k) b \<or> 32 * k + b = j"
    using j "2.prems"(2,3) by (cases "j div 32 = k") (auto simp: bit_or_iff bit_push_bit_iff bit_1_iff simp del: push_bit_of_1)
  then show ?case using 2 by auto
qed simp

lemma freemap_block_bit:
  assumes inv: "mk_inv s" and i: "unat i = k * SFS_BLKBITS" "i < m_ninos s" and wb: "w < SFS_BLK_NENTRY" "b < 32"
  shows "bit (freemap_block i s ! w) b \<longleftrightarrow>
    unat (m_next s) \<le> unat i + 32 * w + b \<and> unat i + 32 * w + b < unat (m_ninos s)"
proof -
  have n: "unat (m_ninos s) \<le> 524288" "unat (m_next s) \<le> unat (m_ninos s)"
    using inv by (simp_all add: mk_inv_def mk_super_ok_def SFS_MAX_NBLKS_def word_le_nat_alt)
  have B: "(of_nat SFS_BLKBITS :: 32 word) = 32768" "SFS_BLK_NENTRY = 1024" "SFS_BLKBITS = 32768"
    by (simp_all add: SFS_BLKBITS_def SFS_BLKSIZE_def SFS_BLK_NENTRY_def)
  have il: "unat i < unat (m_ninos s)" using i(2) by (simp add: word_less_nat_alt)
  have ib: "unat (i + 32768) = unat i + unat (32768 :: 32 word)"
    by (rule unat_add_lem [THEN iffD1]) (use il n in simp)
  have ib: "unat (i + 32768) = unat i + 32768" using ib by simp
  have p: "32 * w + b < 32768" using wb unfolding B by linarith
  define start where "start = (if i < m_next s then m_next s - i else 0)"
  define stop where "stop = (if i + 32768 > m_ninos s then m_ninos s - i else 32768)"
  have s1: "unat start = unat (m_next s) - unat i"
    using unat_sub [of i "m_next s"] by (auto simp: start_def word_less_nat_alt word_le_nat_alt)
  have s2: "unat stop = (if unat i + 32768 > unat (m_ninos s) then unat (m_ninos s) - unat i else 32768)"
    using unat_sub [of i "m_ninos s"] i(2) ib by (auto simp: stop_def word_less_nat_alt word_le_nat_alt)
  show ?thesis
  proof (cases "i + 32768 > m_next s")
    case True
    have e: "freemap_block i s = set_map_bits [unat start..<unat stop] (replicate 1024 0)"
      using True unfolding freemap_block_def B(1,2) Let_def start_def stop_def by (simp only: if_True)
    have sl: "\<forall>j \<in> set [unat start..<unat stop]. j < 32 * length (replicate 1024 (0 :: 32 word))"
      using s2 by (auto split: if_splits)
    have "bit (set_map_bits [unat start..<unat stop] (replicate 1024 0) ! w) b \<longleftrightarrow> 32 * w + b \<in> set [unat start..<unat stop]"
      using set_map_bits_bit [OF sl, of w b] wb unfolding B by simp
    also have "\<dots> \<longleftrightarrow> unat (m_next s) \<le> unat i + 32 * w + b \<and> unat i + 32 * w + b < unat (m_ninos s)"
      using s1 s2 p il by auto
    finally show ?thesis unfolding e .
  next
    case False
    then have "unat i + 32768 \<le> unat (m_next s)" using ib by (simp add: word_less_nat_alt)
    then have "\<not> (unat (m_next s) \<le> unat i + 32 * w + b)" using p by linarith
    then show ?thesis using False wb unfolding freemap_block_def B Let_def by simp
  qed
qed

lemma unat_of_small: "n < 2 ^ 32 \<Longrightarrow> unat (of_nat n :: 32 word) = n"
  by (simp add: unat_of_nat take_bit_nat_eq_self)

text \<open>The loop over the blocks of the free map ends and writes all of them.\<close>

definition nmaps :: "mksfs \<Rightarrow> nat" where
  "nmaps s = ROUNDUP_DIV (unat (m_ninos s)) SFS_BLKBITS"

lemma less_ceiling: "k * 32768 < n \<longleftrightarrow> k < (n + 32768 - 1) div (32768 :: nat)"
proof -
  have "k < (n + 32768 - 1) div 32768 \<longleftrightarrow> Suc k * 32768 \<le> n + 32768 - 1"
    unfolding Suc_le_eq [symmetric] by (rule less_eq_div_iff_mult_less_eq) simp
  also have "\<dots> \<longleftrightarrow> k * 32768 < n" unfolding mult_Suc by linarith
  finally show ?thesis by (rule sym)
qed

lemma nmaps_less: "k * SFS_BLKBITS < unat (m_ninos s) \<longleftrightarrow> k < nmaps s"
proof -
  have "SFS_BLKBITS = 32768" by (simp add: SFS_BLKBITS_def SFS_BLKSIZE_def)
  then show ?thesis unfolding nmaps_def ROUNDUP_DIV_def using less_ceiling [of k "unat (m_ninos s)"] by (simp only:)
qed

definition map_bytes :: "nat \<Rightarrow> mksfs \<Rightarrow> byte list" where
  "map_bytes k s = concat (map le32 (freemap_block (of_nat (k * SFS_BLKBITS)) s))"

lemma freemap_loop_ok:
  assumes "mk_inv s" "k \<le> nmaps s"
  shows "\<exists>t. freemap_loop (of_nat (k * SFS_BLKBITS)) (of_nat (2 + k)) s = Some t \<and>
    wrote (\<lambda>b. if 2 + k \<le> b \<and> b < 2 + nmaps s then Some (map_bytes (b - 2) s) else None) s t"
  using assms
proof (induction "nmaps s - k" arbitrary: k s)
  case 0
  then have k: "k = nmaps s" by simp
  have n: "unat (m_ninos s) \<le> 524288" using "0.prems"(1) by (simp add: mk_inv_def mk_super_ok_def SFS_MAX_NBLKS_def)
  have "nmaps s \<le> 16" using n by (simp add: nmaps_def ROUNDUP_DIV_def SFS_BLKBITS_def SFS_BLKSIZE_def)
  then have "unat (of_nat (k * SFS_BLKBITS) :: 32 word) = k * SFS_BLKBITS"
    using k by (simp add: unat_of_nat SFS_BLKBITS_def SFS_BLKSIZE_def del: of_nat_mult)
  moreover have "\<not> k * SFS_BLKBITS < unat (m_ninos s)" using nmaps_less [of k s] k by simp
  ultimately have "freemap_loop (of_nat (k * SFS_BLKBITS)) (of_nat (2 + k)) s = Some s"
    by (subst freemap_loop.simps) (simp add: word_less_nat_alt del: of_nat_mult of_nat_add)
  moreover have "(\<lambda>b. if 2 + k \<le> b \<and> b < 2 + nmaps s then Some (map_bytes (b - 2) s) else None) = Map.empty"
    using k by auto
  ultimately show ?case using wrote_refl by (simp del: of_nat_mult of_nat_add)
next
  case (Suc d)
  let ?i = "of_nat (k * SFS_BLKBITS) :: 32 word" and ?b = "of_nat (2 + k) :: 32 word"
  have k: "k < nmaps s" using Suc.hyps(2) by simp
  have n: "unat (m_ninos s) \<le> 524288" "map_end s \<le> unat (m_ninos s)" using Suc.prems(1)
    by (auto simp: mk_inv_def mk_super_ok_def SFS_MAX_NBLKS_def word_le_nat_alt)
  have lt: "k * SFS_BLKBITS < unat (m_ninos s)" using nmaps_less [of k s] k by blast
  then have i: "unat ?i = k * SFS_BLKBITS" using n(1) by (simp add: unat_of_nat del: of_nat_mult)
  have "2 + k < unat (m_ninos s)" using k n(2) by (simp add: map_end_def nmaps_def)
  then have b: "unat ?b = 2 + k" "?b < m_ninos s" using n(1) unat_of_small [of "2 + k"]
    by (simp_all only: word_less_nat_alt) simp_all
  have l: "length (map_bytes k s) = SFS_BLKSIZE" by (simp add: map_bytes_def length_words SFS_BLK_NENTRY_def SFS_BLKSIZE_def)
  then obtain u where u: "write_block (map_bytes k s) ?b s = Some u" "wrote [2 + k \<mapsto> map_bytes k s] s u"
    using write_block_wrote [OF _ b(2), of "map_bytes k s"] unfolding b(1) by (auto simp: padded_def)
  note us = wrote_sels [OF u(2)]
  have same: "nmaps u = nmaps s" "map_bytes j u = map_bytes j s" for j
    using us by (simp_all add: nmaps_def map_bytes_def)
  have "d = nmaps u - (k + 1)" "mk_inv u" "k + 1 \<le> nmaps u" using Suc.hyps(2) Suc.prems(1) us k same by simp_all
  from Suc.hyps(1) [OF this] obtain t where
    t: "freemap_loop (of_nat ((k + 1) * SFS_BLKBITS)) (of_nat (2 + (k + 1))) u = Some t"
      "wrote (\<lambda>b. if 2 + (k + 1) \<le> b \<and> b < 2 + nmaps s then Some (map_bytes (b - 2) s) else None) u t"
    unfolding same by blast
  have e: "?i + of_nat SFS_BLKBITS = of_nat ((k + 1) * SFS_BLKBITS)" "?b + 1 = of_nat (2 + (k + 1))"
    by (simp_all add: algebra_simps)
  have "?i < m_ninos s" using lt i by (simp add: word_less_nat_alt)
  then have run: "freemap_loop ?i ?b s = Some t"
    using u(1) t(1) unfolding map_bytes_def by (subst freemap_loop.simps) (simp only: e if_True Option.bind.simps)
  have "[2 + k \<mapsto> map_bytes k s] ++ (\<lambda>b. if 2 + (k + 1) \<le> b \<and> b < 2 + nmaps s then Some (map_bytes (b - 2) s) else None) =
      (\<lambda>b. if 2 + k \<le> b \<and> b < 2 + nmaps s then Some (map_bytes (b - 2) s) else None)"
    using k by (auto simp: fun_eq_iff map_add_def)
  then show ?case using run wrote_trans [OF u(2) t(2)] by auto
qed

text \<open>Flushing writes only behind the free map and to the block of the root.\<close>

definition data_blocks :: "mksfs \<Rightarrow> nat set" where
  "data_blocks s = insert 1 {map_end s..<unat (m_next s)}"

definition flushed :: "mksfs \<Rightarrow> mksfs \<Rightarrow> bool" where
  "flushed s t \<longleftrightarrow> (\<exists>w. wrote w s t \<and> dom w \<subseteq> data_blocks s)"

lemma data_blocks_wrote: "wrote w s t \<Longrightarrow> data_blocks t = data_blocks s"
  by (simp add: data_blocks_def map_end_def wrote_sels)

lemma flushed_trans: "flushed s t \<Longrightarrow> flushed t u \<Longrightarrow> flushed s u"
proof -
  assume "flushed s t" "flushed t u"
  then obtain v w where w: "wrote v s t" "dom v \<subseteq> data_blocks s" "wrote w t u" "dom w \<subseteq> data_blocks t"
    unfolding flushed_def by blast
  then have "dom (v ++ w) \<subseteq> data_blocks s" using data_blocks_wrote [OF w(1)] by auto
  then show ?thesis using wrote_trans [OF w(1,3)] unfolding flushed_def by blast
qed

lemma flushed_refl: "flushed s s"
  unfolding flushed_def using wrote_refl by fastforce

lemma flushed_sels:
  assumes "flushed s t"
  shows "m_inodes t = m_inodes s" "m_blocks t = m_blocks s" "mk_inv t = mk_inv s"
proof -
  obtain w where w: "wrote w s t" using assms unfolding flushed_def by blast
  show "m_inodes t = m_inodes s" "m_blocks t = m_blocks s" "mk_inv t = mk_inv s"
    by (rule wrote_sels [OF w])+
qed

lemma flush_one:
  assumes inv: "mk_inv s" and i: "i = SFS_BLKN_ROOT \<or> ino_ok s i" and l: "length data \<le> SFS_BLKSIZE"
  shows "\<exists>t. write_block data i s = Some t \<and> flushed s t"
proof -
  have n: "m_next s \<le> m_ninos s" "2 \<le> unat (m_next s)" using inv by (auto simp: mk_inv_def mk_super_ok_def map_end_def)
  have "i < m_ninos s" "unat i \<in> data_blocks s"
    using i n by (auto simp: SFS_BLKN_ROOT_def ino_ok_def data_blocks_def word_less_nat_alt word_le_nat_alt)
  moreover obtain t where "write_block data i s = Some t" "wrote [unat i \<mapsto> padded data] s t"
    using write_block_wrote [OF l] calculation(1) by blast
  ultimately show ?thesis unfolding flushed_def by (intro exI [of _ t] conjI exI [of _ "[unat i \<mapsto> padded data]"]) auto
qed

lemma flush_blocks_ok: "mk_inv s \<Longrightarrow> set bs \<subseteq> set (m_blocks s h) \<Longrightarrow> \<exists>t. flush_blocks bs s = Some t \<and> flushed s t"
proof (induction bs arbitrary: s)
  case Nil
  then show ?case using flushed_refl by simp
next
  case (Cons b bs)
  then have "ino_ok s (cb_ino (m_cb s b))" "length (cb_cache (m_cb s b)) = SFS_BLK_NENTRY"
    by (auto simp: mk_inv_def)
  then obtain t where t: "flush_cache_block b s = Some t" "flushed s t"
    using flush_one [OF Cons.prems(1), of "cb_ino (m_cb s b)" "concat (map le32 (cb_cache (m_cb s b)))"]
    unfolding flush_cache_block_def by (auto simp: length_words SFS_BLK_NENTRY_def SFS_BLKSIZE_def)
  moreover have "mk_inv t" "set bs \<subseteq> set (m_blocks t h)" using Cons.prems flushed_sels [OF t(2)] by auto
  then obtain u where "flush_blocks bs t = Some u" "flushed t u" using Cons.IH by blast
  ultimately show ?case using flushed_trans by auto
qed

lemma flush_inodes_ok: "mk_inv s \<Longrightarrow> set cs \<subseteq> set (m_inodes s h) \<Longrightarrow> \<exists>t. flush_inodes cs s = Some t \<and> flushed s t"
proof (induction cs arbitrary: s)
  case Nil
  then show ?case using flushed_refl by simp
next
  case (Cons c cs)
  then have c: "ci_ino (m_ci s c) = SFS_BLKN_ROOT \<or> ino_ok s (ci_ino (m_ci s c))"
    "length (di_direct (ci_inode (m_ci s c))) = SFS_NDIRECT" by (auto simp: mk_inv_def)
  have "length (minode_bytes (ci_inode (m_ci s c))) \<le> SFS_BLKSIZE"
    using c(2) by (simp add: minode_bytes_def din_bytes_def length_words sfs_disk_inode.defs SFS_NDIRECT_def SFS_BLKSIZE_def)
  then obtain t where t: "flush_cache_inode c s = Some t" "flushed s t"
    using flush_one [OF Cons.prems(1) c(1)] unfolding flush_cache_inode_def by blast
  moreover have "mk_inv t" "set cs \<subseteq> set (m_inodes t h)" using Cons.prems flushed_sels [OF t(2)] by auto
  then obtain u where "flush_inodes cs t = Some u" "flushed t u" using Cons.IH by blast
  ultimately show ?case using flushed_trans by auto
qed

lemma flush_loop_ok: "mk_inv s \<Longrightarrow> \<exists>t. flush_loop hs s = Some t \<and> flushed s t"
proof (induction hs arbitrary: s)
  case Nil
  then show ?case using flushed_refl by simp
next
  case (Cons h hs)
  obtain t where t: "flush_blocks (m_blocks s h) s = Some t" "flushed s t"
    using flush_blocks_ok [OF Cons.prems, of "m_blocks s h" h] by blast
  have "mk_inv t" using flushed_sels(3) [OF t(2)] Cons.prems by simp
  then obtain u where u: "flush_inodes (m_inodes t h) t = Some u" "flushed t u"
    using flush_inodes_ok [of t "m_inodes t h" h] by blast
  have "mk_inv u" using flushed_sels(3) [OF u(2)] \<open>mk_inv t\<close> by simp
  then obtain v where v: "flush_loop hs u = Some v" "flushed u v" using Cons.IH by blast
  have "flush_loop (h # hs) s = Some v" using t(1) u(1) v(1) by simp
  then show ?case using flushed_trans [OF flushed_trans [OF t(2) u(2)] v(2)] by blast
qed

text \<open>\<open>close_sfs\<close> ends, and the image has the free map and the super block.\<close>

definition img_free :: "(nat \<Rightarrow> byte) \<Rightarrow> nat \<Rightarrow> bool" where
  "img_free img i \<longleftrightarrow>
     bit (un32 (drop (4 * (i mod SFS_BLKBITS div 32)) (img_blk img (2 + i div SFS_BLKBITS)))) (i mod 32)"

lemma un32_word:
  assumes "k < length ws"
  shows "un32 (drop (4 * k) (concat (map le32 ws))) = ws ! k"
  using assms
proof (induction ws arbitrary: k)
  case (Cons w ws)
  then show ?case by (cases k) simp_all
qed simp

lemma close_sfs_ok:
  assumes "mk_inv s"
  shows "\<exists>t. close_sfs s = Some t \<and> m_ninos t = m_ninos s \<and> m_next t = m_next s \<and>
    img_blk (m_img t) 0 = padded (super_bytes (m_super s)) \<and>
    (\<forall>k < nmaps s. img_blk (m_img t) (2 + k) = map_bytes k s)"
proof -
  obtain t where t: "freemap_loop 0 SFS_BLKN_FREEMAP s = Some t"
    "wrote (\<lambda>b. if 2 \<le> b \<and> b < 2 + nmaps s then Some (map_bytes (b - 2) s) else None) s t"
    using freemap_loop_ok [OF assms, of 0] by (auto simp: SFS_BLKN_FREEMAP_def)
  note ts = wrote_sels [OF t(2)]
  have it: "mk_inv t" using assms ts by simp
  have "length (super_bytes (m_super t)) \<le> SFS_BLKSIZE" "SFS_BLKN_SUPER < m_ninos t"
    using it by (auto simp: super_bytes_def mk_inv_def mk_super_ok_def map_end_def SFS_MAX_INFO_LEN_def SFS_BLKSIZE_def
        SFS_BLKN_SUPER_def word_less_nat_alt word_le_nat_alt)
  then obtain u where u: "write_block (super_bytes (m_super t)) SFS_BLKN_SUPER t = Some u"
    "wrote [0 \<mapsto> padded (super_bytes (m_super s))] t u"
    using write_block_wrote ts(1) by (fastforce simp: SFS_BLKN_SUPER_def)
  have iu: "mk_inv u" using it wrote_sels(8) [OF u(2)] by simp
  obtain v where v: "flush_loop [0..<HASH_LIST_SIZE] u = Some v" "flushed u v" using flush_loop_ok [OF iu] by blast
  obtain w where w: "wrote w u v" "dom w \<subseteq> data_blocks u" using v(2) unfolding flushed_def by blast
  note all = wrote_trans [OF wrote_trans [OF t(2) u(2)] w(1)]
  have d: "data_blocks u = data_blocks s" using data_blocks_wrote t(2) u(2) by blast
  have "w b = None" if "b = 0 \<or> 2 \<le> b \<and> b < 2 + nmaps s" for b
    using that w(2) [unfolded d] unfolding data_blocks_def map_end_def nmaps_def [symmetric] by auto
  then have "img_blk (m_img v) 0 = padded (super_bytes (m_super s))"
    "\<forall>k < nmaps s. img_blk (m_img v) (2 + k) = map_bytes k s"
    using all unfolding wrote_def by (simp_all add: map_add_def)
  moreover have "close_sfs s = Some v" using t(1) u(1) v(1) by (simp add: close_sfs_def)
  ultimately show ?thesis using wrote_sels(2,3) [OF all] by blast
qed

lemma img_free_eq:
  assumes inv: "mk_inv s" and img: "\<forall>k < nmaps s. img_blk img (2 + k) = map_bytes k s" and i: "i < nmaps s * SFS_BLKBITS"
  shows "img_free img i \<longleftrightarrow> unat (m_next s) \<le> i \<and> i < unat (m_ninos s)"
proof -
  define k where "k = i div SFS_BLKBITS"
  define j where "j = i mod SFS_BLKBITS"
  have B: "SFS_BLKBITS = 32768" "SFS_BLK_NENTRY = 1024" by (simp_all add: SFS_BLKBITS_def SFS_BLKSIZE_def SFS_BLK_NENTRY_def)
  have k: "k < nmaps s" using i by (simp add: k_def B less_mult_imp_div_less)
  have ij: "i = k * 32768 + j" "j < 32768" by (simp_all add: k_def j_def B)
  have lt: "k * SFS_BLKBITS < unat (m_ninos s)" using nmaps_less [of k s] k by blast
  have n: "unat (m_ninos s) \<le> 524288" using inv by (simp add: mk_inv_def mk_super_ok_def SFS_MAX_NBLKS_def)
  have u: "unat (of_nat (k * SFS_BLKBITS) :: 32 word) = k * SFS_BLKBITS" using lt n by (intro unat_of_small) simp
  have w: "j div 32 < SFS_BLK_NENTRY" "i mod 32 < 32" using ij(2) B by auto
  have m: "i mod 32 = j mod 32" "32 * (j div 32) + j mod 32 = j"
    using mod_mult_self3 [of "k * 1024" 32 j] by (simp_all add: ij(1) mult.commute)
  have "img_free img i \<longleftrightarrow> bit (freemap_block (of_nat (k * SFS_BLKBITS)) s ! (j div 32)) (j mod 32)"
    using img k w(1) unfolding img_free_def k_def [symmetric] j_def [symmetric] m(1)
    by (simp add: map_bytes_def un32_word del: of_nat_mult)
  also have "\<dots> \<longleftrightarrow> unat (m_next s) \<le> i \<and> i < unat (m_ninos s)"
    using freemap_block_bit [OF inv u _ w(1), of "j mod 32"] lt u ij m(2) B
    by (simp add: word_less_nat_alt add.assoc del: of_nat_mult)
  finally show ?thesis .
qed

end
