(* ===== verification/SfsMount.thy ===== *)
theory SfsMount
  imports MksfsProps
begin

section \<open>Mounting a consistent image\<close>

text \<open>
  \<open>sfs_do_mount\<close> on a disk whose super block and free map agree: the mount succeeds and establishes the
  invariants \<open>fs_ok\<close> and \<open>map_ok\<close> that the operations of the file system keep. The images of \<open>mksfs\<close> are
  of this kind.
\<close>

subsection \<open>States that agree on the disk\<close>

definition quiet :: "kvst \<Rightarrow> kvst \<Rightarrow> bool" where
  "quiet s t \<longleftrightarrow> devs (low t) = devs (low s) \<and> ide_devices (low t) = ide_devices (low s) \<and>
     disk0_buffer (low t) = disk0_buffer (low s) \<and> disk0_sem (low t) = disk0_sem (low s) \<and>
     (\<forall>x. kbuf s x \<noteq> None \<longrightarrow> kbuf t x \<noteq> None)"

lemma quietD:
  assumes "quiet s t"
  shows "disk_blk t b = disk_blk s b" "disk_ok s d \<Longrightarrow> disk_ok t d" "mapped (kbuf s) a n \<Longrightarrow> mapped (kbuf t) a n"
    "devs (low t) = devs (low s)" "disk0_buffer (low t) = disk0_buffer (low s)" "disk0_sem (low t) = disk0_sem (low s)"
  using assms by (simp_all add: quiet_def disk_blk_def disk_ok_def mapped_def)

lemma quiet_trans: "quiet s t \<Longrightarrow> quiet t u \<Longrightarrow> quiet s u"
  by (simp add: quiet_def)

lemma quiet_set_kbuf: "(\<And>x. kbuf s x \<noteq> None \<Longrightarrow> m x \<noteq> None) \<Longrightarrow> quiet s (set_kbuf m s)"
  by (simp add: quiet_def)

lemma quiet_upd: "quiet s (upd_sfs f g s)" "quiet s (upd_slinks h s)" "quiet s (s\<lparr>vheap := v\<rparr>)" "quiet s (vfree a s)"
  by (simp_all add: quiet_def upd_sfs_def upd_slinks_def upd_low_def vfree_def)

lemma overlay_some: "m x \<noteq> None \<Longrightarrow> overlay a bs m x \<noteq> None"
  by (simp add: overlay_def)

lemma through_some: "kbuf s x \<noteq> None \<Longrightarrow> through s bs x \<noteq> None"
  by (simp add: through_def overlay_some)

subsection \<open>Reading the super block and the free map\<close>

lemma init_read_eq:
  assumes "disk_ok s (devs (low s) dev)" "disk0_sem (low s) > 0" "unat b < d_blocks (devs (low s) dev)"
    "mapped (kbuf s) buf SFS_BLKSIZE"
  shows "sfs_init_read dev b buf s =
    Some (0, set_kbuf (overlay buf (disk_blk s (unat b)) (through s (disk_blk s (unat b)))) s)"
proof -
  obtain iob' where "disk0_io (devs (low s) dev) (iobuf_init buf SFS_BLKSIZE (ucast (b * of_nat SFS_BLKSIZE))) False s = Some (0, iob',
    set_kbuf (overlay buf (disk_blk s (unat b)) (through s (disk_blk s (unat b)))) s)"
    using disk0_io_read [OF assms(1,3,2,4)] by (auto simp: through_def)
  then show ?thesis using assms(1) by (simp add: sfs_init_read_def Let_def dop_io_def disk_ok_def)
qed

lemma overlay_out: "apart a (length bs) x 1 \<Longrightarrow> overlay a bs m x = m x"
  by (auto simp: overlay_def apart_def)

lemma init_freemap_loop_ok:
  assumes "disk_ok s (devs (low s) dev)" "disk0_sem (low s) > 0" "unat b + n \<le> d_blocks (devs (low s) dev)"
    "mapped (kbuf s) data (n * SFS_BLKSIZE)" "apart (disk0_buffer (low s)) SFS_BLKSIZE data (n * SFS_BLKSIZE)"
  shows "\<exists>m. sfs_init_freemap_loop dev data b n s = Some (0, set_kbuf m s) \<and>
    (\<forall>k < n. rd_bytes (data + k * SFS_BLKSIZE) SFS_BLKSIZE m = Some (disk_blk s (unat b + k))) \<and>
    (\<forall>x. apart (disk0_buffer (low s)) SFS_BLKSIZE x 1 \<longrightarrow> apart data (n * SFS_BLKSIZE) x 1 \<longrightarrow> m x = kbuf s x) \<and>
    (\<forall>x. kbuf s x \<noteq> None \<longrightarrow> m x \<noteq> None)"
  using assms
proof (induction n arbitrary: b data s)
  case 0
  then show ?case by (intro exI [of _ "kbuf s"]) (simp add: set_kbuf_def)
next
  case (Suc n)
  let ?d = "devs (low s) dev" and ?D = "disk_blk s (unat b)"
  define m1 where "m1 = overlay data ?D (through s ?D)"
  define t where "t = set_kbuf m1 s"
  have b: "unat b < d_blocks ?d" using Suc.prems(3) by simp
  have mp: "mapped (kbuf s) data SFS_BLKSIZE" by (rule mapped_le [OF Suc.prems(4)]) simp
  have r: "sfs_init_read dev b data s = Some (0, t)"
    unfolding t_def m1_def by (rule init_read_eq [OF Suc.prems(1,2) b mp])
  have q: "quiet s t" unfolding t_def m1_def by (rule quiet_set_kbuf) (intro overlay_some through_some)
  have b1: "unat (b + 1) = unat b + 1"
  proof (rule block_word(3))
    show "unat b < 0x100000" using b Suc.prems(1) by (simp add: disk_ok_def)
  qed
  have ap: "apart (disk0_buffer (low s)) SFS_BLKSIZE data SFS_BLKSIZE"
    "apart (disk0_buffer (low s)) SFS_BLKSIZE (data + SFS_BLKSIZE) (n * SFS_BLKSIZE)"
    using Suc.prems(5) by (auto simp: apart_def)
  have "mapped (kbuf s) (data + SFS_BLKSIZE) (n * SFS_BLKSIZE)" by (rule mapped_sub [OF Suc.prems(4)]) simp
  moreover have tt: "set_kbuf m t = set_kbuf m s" "kbuf t = m1" for m by (simp_all add: t_def)
  moreover note qd = quietD(1,4-6) [OF q] quietD(2,3) [OF q]
  ultimately have "\<exists>m. sfs_init_freemap_loop dev (data + SFS_BLKSIZE) (b + 1) n t = Some (0, set_kbuf m t) \<and>
    (\<forall>k < n. rd_bytes (data + SFS_BLKSIZE + k * SFS_BLKSIZE) SFS_BLKSIZE m = Some (disk_blk t (unat (b + 1) + k))) \<and>
    (\<forall>x. apart (disk0_buffer (low t)) SFS_BLKSIZE x 1 \<longrightarrow> apart (data + SFS_BLKSIZE) (n * SFS_BLKSIZE) x 1 \<longrightarrow> m x = kbuf t x) \<and>
    (\<forall>x. kbuf t x \<noteq> None \<longrightarrow> m x \<noteq> None)"
    using Suc.prems(1-3) ap(2) b1 by (intro Suc.IH) (simp_all add: qd)
  then obtain m where m: "sfs_init_freemap_loop dev (data + SFS_BLKSIZE) (b + 1) n t = Some (0, set_kbuf m s)"
    "\<And>k. k < n \<Longrightarrow> rd_bytes (data + SFS_BLKSIZE + k * SFS_BLKSIZE) SFS_BLKSIZE m = Some (disk_blk s (unat b + 1 + k))"
    "\<And>x. apart (disk0_buffer (low s)) SFS_BLKSIZE x 1 \<Longrightarrow> apart (data + SFS_BLKSIZE) (n * SFS_BLKSIZE) x 1 \<Longrightarrow> m x = m1 x"
    "\<And>x. m1 x \<noteq> None \<Longrightarrow> m x \<noteq> None"
    unfolding qd(1-4) b1 tt by blast
  have out: "m1 x = kbuf s x" if "apart (disk0_buffer (low s)) SFS_BLKSIZE x 1" "apart data SFS_BLKSIZE x 1" for x
    using that by (simp add: m1_def through_def overlay_out)
  have "rd_bytes data SFS_BLKSIZE m = rd_bytes data SFS_BLKSIZE m1"
    by (rule rd_bytes_cong, rule m(3)) (use ap in \<open>auto simp: apart_def\<close>)
  then have first: "rd_bytes data SFS_BLKSIZE m = Some ?D" by (simp add: m1_def)
  have "rd_bytes (data + k * SFS_BLKSIZE) SFS_BLKSIZE m = Some (disk_blk s (unat b + k))" if "k < Suc n" for k
    using that m(2) [of "k - 1"] first by (cases k) (simp_all add: add.assoc)
  moreover have "m x = kbuf s x" if "apart (disk0_buffer (low s)) SFS_BLKSIZE x 1" "apart data (Suc n * SFS_BLKSIZE) x 1" for x
  proof -
    have "apart (data + SFS_BLKSIZE) (n * SFS_BLKSIZE) x 1" "apart data SFS_BLKSIZE x 1" using that(2) by (auto simp: apart_def)
    then show ?thesis using m(3) out that(1) by simp
  qed
  moreover have "m x \<noteq> None" if "kbuf s x \<noteq> None" for x
    by (rule m(4), unfold m1_def) (intro overlay_some through_some that)
  moreover have "sfs_init_freemap_loop dev data b (Suc n) s = Some (0, set_kbuf m s)" using r m(1) by simp
  ultimately show ?case by blast
qed

text \<open>Counting the free bits.\<close>

lemma count_free_eq:
  assumes "bm_ok b m" "\<forall>i \<in> set is. i < unat (nbits b)"
  shows "count_free b is m = Some (of_nat (length (filter (free_bit b m) is)))"
  using assms(2)
proof (induction "is")
  case (Cons i "is")
  have lt: "i < unat (nbits b)" using Cons.prems by simp
  then have "unat (of_nat i :: 32 word) = i" using unsigned_less [of "nbits b", where ?'a = nat] by (intro unat_of_small) simp
  then have "bitmap_test b (of_nat i) m = Some (free_bit b m i)"
    using bitmap_test_eq [OF assms(1), of "of_nat i"] lt by (simp add: word_less_nat_alt)
  then show ?case using Cons by simp
qed simp

lemma hash_init_links: "\<exists>g. hash_init f hs s = upd_slinks g s"
proof (induction hs arbitrary: s)
  case Nil
  show ?case by (rule exI [of _ id]) (simp add: upd_slinks_def upd_low_def)
next
  case (Cons h hs)
  obtain g where "hash_init f hs (upd_slinks (list_init (SfsHash f h)) s) = upd_slinks g (upd_slinks (list_init (SfsHash f h)) s)"
    using Cons by blast
  then show ?case by (intro exI [of _ "g \<circ> list_init (SfsHash f h)"]) (simp add: upd_slinks_def upd_low_def)
qed

subsection \<open>The free map in memory\<close>

lemma bitmap_create_ok:
  assumes nb: "unat nb = 32 * w" "0 < w" and h: "vheap s = b # a # rest" and m: "mapped (kbuf s) a (4 * w)"
  shows "bitmap_create nb s = Some (Some \<lparr>nbits = nb, nwords = of_nat w, bits_at = a, bm_at = b\<rparr>,
    set_kbuf (overlay a (replicate (4 * w) 0xFF) (kbuf s)) (s\<lparr>vheap := rest\<rparr>))"
proof -
  have w: "ROUNDUP_DIV (unat nb) WORD_BITS = w" "w * WORD_BITS = unat nb" "nb \<noteq> 0" "unat nb + WORD_BITS > unat nb"
    using nb by (auto simp: ROUNDUP_DIV_def WORD_BITS_def)
  show ?thesis
    unfolding bitmap_create_def Let_def w(1,2)
    using w(3,4) h memset_overlay [OF m] by (simp add: vmalloc_def set_kbuf_def)
qed

lemma rd_bytes_sub:
  assumes "rd_bytes a n m = Some bs" "i + k \<le> n"
  shows "rd_bytes (a + i) k m = Some (take k (drop i bs))"
  using assms by (simp add: rd_bytes_Some add.assoc)

lemma un32_take [simp]: "un32 (take 4 bs) = un32 bs"
  by (simp add: un32_def numeral_eq_Suc split: list.split)

definition img_super :: "(nat \<Rightarrow> byte) \<Rightarrow> sfs_super" where
  "img_super img = super_of_bytes (take SUPER_SIZE (img_blk img 0))"

definition img_maps :: "(nat \<Rightarrow> byte) \<Rightarrow> nat" where
  "img_maps img = ROUNDUP_DIV (unat (blocks (img_super img))) SFS_BLKBITS"

definition img_free_set :: "(nat \<Rightarrow> byte) \<Rightarrow> nat set" where
  "img_free_set img = {i. i < img_maps img * SFS_BLKBITS \<and> img_free img i}"

text \<open>The image is consistent: what \<open>sfs_do_mount\<close> checks, and that block 0 is not free.\<close>

definition img_ok :: "(nat \<Rightarrow> byte) \<Rightarrow> bool" where
  "img_ok img \<longleftrightarrow> magic (img_super img) = SFS_MAGIC \<and> 0 < unat (blocks (img_super img)) \<and>
     unat (blocks (img_super img)) \<le> SFS_MAX_NBLKS \<and>
     (\<forall>i \<in> img_free_set img. 0 < i \<and> i < unat (blocks (img_super img))) \<and>
     unat (unused_blocks (img_super img)) = card (img_free_set img)"

definition disk_img :: "kvst \<Rightarrow> nat \<Rightarrow> byte" where
  "disk_img s = ide_data (ide_devices (low s) DISK0_DEV_NO)"

lemma disk_blk_img: "disk_blk s b = img_blk (disk_img s) b"
  by (simp add: disk_blk_def img_blk_def disk_img_def)

lemma img_maps_bounds:
  assumes "img_ok img"
  shows "0 < img_maps img" "img_maps img \<le> 16" "unat (blocks (img_super img)) \<le> img_maps img * 32768"
    "unat (sfs_freemap_bits (img_super img)) = img_maps img * 32768" "unat (sfs_freemap_blocks (img_super img)) = img_maps img"
proof -
  let ?n = "unat (blocks (img_super img))"
  have B: "SFS_BLKBITS = 32768" by (simp add: SFS_BLKBITS_def SFS_BLKSIZE_def)
  have n: "0 < ?n" "?n \<le> 524288" using assms by (simp_all add: img_ok_def SFS_MAX_NBLKS_def)
  have e: "ROUNDUP_DIV ?n 32768 = img_maps img" by (simp add: img_maps_def B)
  have d: "img_maps img = (?n + 32767) div 32768" by (simp add: img_maps_def ROUNDUP_DIV_def B)
  have q: "1 \<le> (?n + 32767) div 32768" "(?n + 32767) div 32768 \<le> 16" "?n \<le> (?n + 32767) div 32768 * 32768"
    using n by simp_all
  show m: "0 < img_maps img" "img_maps img \<le> 16" "?n \<le> img_maps img * 32768" using q unfolding d by simp_all
  show "unat (sfs_freemap_bits (img_super img)) = img_maps img * 32768"
    unfolding sfs_freemap_bits_def B e using m(2) by (intro unat_of_small) simp
  show "unat (sfs_freemap_blocks (img_super img)) = img_maps img"
    unfolding sfs_freemap_blocks_def B e using m(2) by (intro unat_of_small) simp
qed

text \<open>The bits in memory are those of the image once the blocks of the map are read.\<close>

lemma free_bit_img:
  assumes rd: "\<forall>k < n. rd_bytes (a + k * SFS_BLKSIZE) SFS_BLKSIZE m = Some (img_blk img (2 + k))"
    and i: "i < n * 32768" and b: "bits_at bm = a"
  shows "free_bit bm m i \<longleftrightarrow> img_free img i"
proof -
  have B: "SFS_BLKBITS = 32768" "SFS_BLKSIZE = 4096" by (simp_all add: SFS_BLKBITS_def SFS_BLKSIZE_def)
  let ?k = "i div 32768" and ?j = "i mod 32768"
  have k: "?k < n" using i by (simp add: less_mult_imp_div_less)
  have j: "4 * (?j div 32) + 4 \<le> 4096"
  proof -
    have "?j div 32 < 1024" by (simp add: less_mult_imp_div_less)
    then show ?thesis by linarith
  qed
  have "i div 32 = ?k * 1024 + ?j div 32"
  proof -
    have "?j = 32 * (i div 32 mod 1024) + i mod 32" "?k = i div 32 div 1024"
      using mod_mult2_eq [of i 32 1024] div_mult2_eq [of i 32 1024] by simp_all
    then show ?thesis by simp
  qed
  then have e: "a + 4 * (i div 32) = a + ?k * 4096 + 4 * (?j div 32)" by simp
  have "rd_bytes (a + ?k * 4096) 4096 m = Some (img_blk img (2 + ?k))" using rd k unfolding B by blast
  then have "ld32 (a + 4 * (i div 32)) m = Some (un32 (drop (4 * (?j div 32)) (img_blk img (2 + ?k))))"
    unfolding ld32_def e using rd_bytes_sub [OF _ j] by simp
  then show ?thesis by (simp add: free_bit_def b img_free_def B)
qed

subsection \<open>The mount\<close>

lemma upd_sfs_sels [simp]:
  "fs_of (upd_sfs f g s) f = g (fs_of s f)" "kbuf (upd_sfs f g s) = kbuf s" "vheap (upd_sfs f g s) = vheap s"
  "devs (low (upd_sfs f g s)) = devs (low s)" "disk0_sem (low (upd_sfs f g s)) = disk0_sem (low s)"
  "disk0_buffer (low (upd_sfs f g s)) = disk0_buffer (low s)" "disk_img (upd_sfs f g s) = disk_img s"
  "fs_of (upd_slinks h s) k = fs_of s k" "kbuf (upd_slinks h s) = kbuf s" "vheap (upd_slinks h s) = vheap s"
  "devs (low (upd_slinks h s)) = devs (low s)" "disk0_sem (low (upd_slinks h s)) = disk0_sem (low s)"
  "disk0_buffer (low (upd_slinks h s)) = disk0_buffer (low s)" "disk_img (upd_slinks h s) = disk_img s"
  "disk_img (set_kbuf m s) = disk_img s" "vheap (set_kbuf m s) = vheap s" "disk_img (s\<lparr>vheap := v\<rparr>) = disk_img s"
  by (simp_all add: upd_sfs_def upd_slinks_def upd_low_def disk_img_def set_kbuf_def)

lemma disk_ok_upd [simp]:
  "disk_ok (upd_sfs f g s) d = disk_ok s d" "disk_ok (upd_slinks h s) d = disk_ok s d" "disk_ok (s\<lparr>vheap := v\<rparr>) d = disk_ok s d"
  by (simp_all add: disk_ok_def upd_sfs_def upd_slinks_def upd_low_def)

lemma mount_maps_ok:
  assumes d: "disk_ok s (devs (low s) dev)" "disk0_sem (low s) > 0" "img_ok (disk_img s)"
    "unat (blocks (img_super (disk_img s))) < d_blocks (devs (low s) dev) + 1" "2 + img_maps (disk_img s) \<le> d_blocks (devs (low s) dev)"
    and f: "fs_of s f = x\<lparr>super := (img_super (disk_img s))\<lparr>info := nm\<rparr>, sfs_dev := dev, sfs_buffer := buf\<rparr>"
    and h: "vheap s = h # b # a # rest"
    and m: "mapped (kbuf s) buf SFS_BLKSIZE" "mapped (kbuf s) a (img_maps (disk_img s) * SFS_BLKSIZE)"
    and ap: "apart (disk0_buffer (low s)) SFS_BLKSIZE buf SFS_BLKSIZE"
      "apart (disk0_buffer (low s)) SFS_BLKSIZE a (img_maps (disk_img s) * SFS_BLKSIZE)"
      "apart buf SFS_BLKSIZE a (img_maps (disk_img s) * SFS_BLKSIZE)"
  shows "\<exists>t. sfs_do_mount_maps dev f s = Some (0, t) \<and> fs_ok t f \<and> map_ok t f \<and>
    free_blocks t f = img_free_set (disk_img s) \<and> super (fs_of t f) = super (fs_of s f) \<and> disk_img t = disk_img s \<and>
    \<not> super_dirty (fs_of t f) \<and> fs_ops_of t f = SFS_FS"
proof -
  let ?img = "disk_img s" and ?n = "img_maps (disk_img s)"
  let ?sp = "super (fs_of s f)"
  have B: "SFS_BLKBITS = 32768" "SFS_BLKSIZE = 4096" by (simp_all add: SFS_BLKBITS_def SFS_BLKSIZE_def)
  note n = img_maps_bounds [OF d(3)]
  have sp: "sfs_freemap_bits ?sp = sfs_freemap_bits (img_super ?img)" "sfs_freemap_blocks ?sp = sfs_freemap_blocks (img_super ?img)"
    "blocks ?sp = blocks (img_super ?img)" "unused_blocks ?sp = unused_blocks (img_super ?img)"
    unfolding f by (simp_all add: sfs_freemap_bits_def sfs_freemap_blocks_def)
  define nb where "nb = sfs_freemap_bits ?sp"
  have nb: "unat nb = 32 * (?n * 1024)" "0 < ?n * 1024" using n(1,4) unfolding nb_def sp by simp_all
  obtain g where g: "hash_init f [0..<2 ^ SFS_HLIST_SHIFT] (upd_sfs f (\<lambda>a. a\<lparr>hash_at := h\<rparr>) (s\<lparr>vheap := b # a # rest\<rparr>)) =
      upd_slinks g (upd_sfs f (\<lambda>a. a\<lparr>hash_at := h\<rparr>) (s\<lparr>vheap := b # a # rest\<rparr>))"
    using hash_init_links by blast
  define s1 where "s1 = upd_slinks g (upd_sfs f (\<lambda>a. a\<lparr>hash_at := h\<rparr>) (s\<lparr>vheap := b # a # rest\<rparr>))"
  define bm where "bm = \<lparr>nbits = nb, nwords = of_nat (?n * 1024), bits_at = a, bm_at = b\<rparr>"
  define s2 where "s2 = upd_sfs f (\<lambda>a. a\<lparr>freemap := bm\<rparr>)
    (set_kbuf (overlay a (replicate (4 * (?n * 1024)) 0xFF) (kbuf s)) (s1\<lparr>vheap := rest\<rparr>))"
  have s1: "super (fs_of s1 f) = ?sp" "kbuf s1 = kbuf s" "vheap s1 = b # a # rest" by (simp_all add: s1_def)
  have cr: "bitmap_create nb s1 = Some (Some bm, set_kbuf (overlay a (replicate (4 * (?n * 1024)) 0xFF) (kbuf s1)) (s1\<lparr>vheap := rest\<rparr>))"
    unfolding bm_def by (rule bitmap_create_ok [OF nb s1(3)]) (use m(2) in \<open>simp add: s1(2) B mult.commute\<close>)
  have s2: "super (fs_of s2 f) = ?sp" "devs (low s2) = devs (low s)" "disk0_sem (low s2) = disk0_sem (low s)"
    "disk0_buffer (low s2) = disk0_buffer (low s)" "disk_img s2 = ?img" "freemap (fs_of s2 f) = bm"
    "sfs_dev (fs_of s2 f) = dev" "sfs_buffer (fs_of s2 f) = buf"
    by (simp_all add: s2_def s1_def f)
  have q: "quiet s s2" by (simp add: quiet_def s2_def s1_def overlay_def upd_sfs_def upd_slinks_def upd_low_def set_kbuf_def)
  have un: "unat (of_nat (?n * 1024) :: 32 word) = ?n * 1024" using n(2) by (intro unat_of_small) simp
  have gd: "bitmap_getdata bm = (a, ?n * SFS_BLKSIZE)" unfolding bitmap_getdata_def bm_def B by (simp add: un del: of_nat_mult)
  have p: "disk_ok s2 (devs (low s2) dev)" "disk0_sem (low s2) > 0" "unat SFS_BLKN_FREEMAP + ?n \<le> d_blocks (devs (low s2) dev)"
    "mapped (kbuf s2) a (?n * SFS_BLKSIZE)" "apart (disk0_buffer (low s2)) SFS_BLKSIZE a (?n * SFS_BLKSIZE)"
    using d(1,2,5) m(2) ap(2) unfolding s2 by (auto simp: SFS_BLKN_FREEMAP_def intro: quietD(2,3) [OF q])
  obtain m2 where m2: "sfs_init_freemap_loop dev a SFS_BLKN_FREEMAP ?n s2 = Some (0, set_kbuf m2 s2)"
    "\<forall>k < ?n. rd_bytes (a + k * SFS_BLKSIZE) SFS_BLKSIZE m2 = Some (disk_blk s2 (unat SFS_BLKN_FREEMAP + k))"
    "\<forall>x. kbuf s2 x \<noteq> None \<longrightarrow> m2 x \<noteq> None"
    using init_freemap_loop_ok [OF p] by blast
  have rd: "\<forall>k < ?n. rd_bytes (a + k * SFS_BLKSIZE) SFS_BLKSIZE m2 = Some (img_blk ?img (2 + k))"
    using m2(2) by (simp add: disk_blk_img s2(5) SFS_BLKN_FREEMAP_def)
  have fm: "sfs_init_freemap dev bm SFS_BLKN_FREEMAP (sfs_freemap_blocks ?sp) s2 = Some (0, set_kbuf m2 s2)"
    using m2(1) n(5) by (simp add: sfs_init_freemap_def gd sp)
  have mp: "mapped m2 x k" if "mapped (kbuf s) x k" for x k
    using m2(3) quietD(3) [OF q that] by (simp add: mapped_def)
  have bm: "bm_ok bm m2" "nbits bm = nb" "bits_at bm = a" "unat (nwords bm) = ?n * 1024"
    using mp [OF m(2)] nb(1) un by (simp_all add: bm_ok_def bm_def B mult.commute del: of_nat_mult)
  have fb: "free_bit bm m2 i = img_free ?img i" if "i < unat nb" for i
    using free_bit_img [OF rd _ bm(3)] that nb(1) by simp
  have fs: "{i. i < unat nb \<and> free_bit bm m2 i} = img_free_set ?img"
    using fb nb(1) by (auto simp: img_free_set_def B)
  have "length (filter (free_bit bm m2) [0..<unat nb]) = card (img_free_set ?img)"
    unfolding fs [symmetric] by (subst distinct_card [symmetric]) (auto intro: arg_cong [where f = card])
  moreover have "(of_nat (card (img_free_set ?img)) :: 32 word) = of_nat (unat (unused_blocks (img_super ?img)))"
    using d(3) by (simp only: img_ok_def)
  then have "(of_nat (card (img_free_set ?img)) :: 32 word) = unused_blocks (img_super ?img)" by simp
  ultimately have cf: "count_free bm [0..<unat nb] m2 = Some (unused_blocks ?sp)"
    using count_free_eq [OF bm(1), of "[0..<unat nb]"] by (simp add: bm(2) sp(4))
  define t where "t = (upd_slinks (list_init (InodeList f)) (upd_sfs f (\<lambda>a. a\<lparr>super_dirty := False, fs_sem := 1, io_sem := 1,
    mutex_sem := 1\<rparr>) (set_kbuf m2 s2)))\<lparr>fs_ops_of := (fs_ops_of s2)(f := SFS_FS)\<rparr>"
  have run: "sfs_do_mount_maps dev f s = Some (0, t)"
  proof -
    have v: "vmalloc s = (Some h, s\<lparr>vheap := b # a # rest\<rparr>)" using h by (simp add: vmalloc_def)
    have hi: "hash_init f [0..<2 ^ SFS_HLIST_SHIFT] (upd_sfs f (\<lambda>a. a\<lparr>hash_at := h\<rparr>) (s\<lparr>vheap := b # a # rest\<rparr>)) = s1"
      by (simp only: g s1_def)
    have k: "kbuf (set_kbuf m2 s2) = m2" "super (fs_of (set_kbuf m2 s2) f) = ?sp" by (simp_all add: s2(1))
    have o: "fs_ops_of (upd_slinks l (upd_sfs f j (set_kbuf m2 s2))) = fs_ops_of s2" for l j
      by (simp add: upd_slinks_def upd_sfs_def upd_low_def set_kbuf_def)
    have z: "((0 :: int) \<noteq> 0) = False" "assert_c (x = x) = Some ()" for x :: "32 word" by simp_all
    show ?thesis
      unfolding sfs_do_mount_maps_def v
      by (simp only: Let_def prod.case option.case hi s1(1) nb_def [symmetric] cr [unfolded s1(2)] Option.bind.simps
          s2_def [symmetric] s2(1) fm k cf z if_False o t_def)
  qed
  have t: "fs_of t f = (fs_of s2 f)\<lparr>super_dirty := False, fs_sem := 1, io_sem := 1, mutex_sem := 1\<rparr>" "kbuf t = m2"
    "devs (low t) = devs (low s)" "disk0_sem (low t) = disk0_sem (low s)" "disk0_buffer (low t) = disk0_buffer (low s)"
    "disk_img t = ?img" "fs_ops_of t f = SFS_FS" "ide_devices (low t) = ide_devices (low s)"
    by (simp_all add: t_def s2_def s1_def upd_sfs_def upd_slinks_def upd_low_def set_kbuf_def disk_img_def)
  have ts: "super (fs_of t f) = ?sp" "freemap (fs_of t f) = bm" "sfs_dev (fs_of t f) = dev" "sfs_buffer (fs_of t f) = buf"
    "io_sem (fs_of t f) = 1" "\<not> super_dirty (fs_of t f)" unfolding t(1) by (simp_all add: s2)
  have "disk_ok t (devs (low s) dev)" using d(1) mp unfolding disk_ok_def t(2-8) by simp
  then have "fs_ok t f" unfolding fs_ok_def blk_ok_def ts t(2-8) sp(3) using d(2,4) mp [OF m(1)] ap(1) by simp
  moreover have fr: "free_blocks t f = img_free_set ?img" unfolding free_blocks_def ts t(2-8) bm(2) fs ..
  moreover have "map_ok t f" unfolding map_ok_def Let_def fr unfolding ts t(2-8) bm(2-4) sp(3,4)
    using bm(1) ap(2,3) n(3) nb(1) d(3) by (simp add: B img_ok_def mult.commute)
  ultimately show ?thesis using run ts(1,6) t(6,7) by blast
qed

lemma do_mount_ok:
  assumes d: "disk_ok s (devs (low s) dev)" "disk0_sem (low s) > 0" "d_blocksize (devs (low s) dev) = SFS_BLKSIZE"
    and img: "img_ok (disk_img s)" "unat (blocks (img_super (disk_img s))) \<le> d_blocks (devs (low s) dev)"
      "2 + img_maps (disk_img s) \<le> d_blocks (devs (low s) dev)"
    and h: "vheap s = f # buf # h # b # a # rest"
    and m: "mapped (kbuf s) buf SFS_BLKSIZE" "mapped (kbuf s) a (img_maps (disk_img s) * SFS_BLKSIZE)"
    and ap: "apart (disk0_buffer (low s)) SFS_BLKSIZE buf SFS_BLKSIZE"
      "apart (disk0_buffer (low s)) SFS_BLKSIZE a (img_maps (disk_img s) * SFS_BLKSIZE)"
      "apart buf SFS_BLKSIZE a (img_maps (disk_img s) * SFS_BLKSIZE)"
  shows "\<exists>t. sfs_do_mount dev s = Some (0, Some f, t) \<and> fs_ok t f \<and> map_ok t f \<and>
    free_blocks t f = img_free_set (disk_img s) \<and> blocks (super (fs_of t f)) = blocks (img_super (disk_img s)) \<and>
    disk_img t = disk_img s \<and> \<not> super_dirty (fs_of t f) \<and> fs_ops_of t f = SFS_FS"
proof -
  let ?img = "disk_img s" and ?sp = "img_super (disk_img s)" and ?D = "disk_blk s 0"
  define s1 where "s1 = upd_sfs f (\<lambda>a. a\<lparr>sfs_buffer := buf\<rparr>)
    (upd_sfs f (\<lambda>a. a\<lparr>sfs_dev := dev\<rparr>) (s\<lparr>vheap := buf # h # b # a # rest\<rparr>)\<lparr>vheap := h # b # a # rest\<rparr>)"
  define m1 where "m1 = overlay buf ?D (through s1 ?D)"
  have s1: "disk_blk s1 k = disk_blk s k" "devs (low s1) = devs (low s)" "disk0_sem (low s1) = disk0_sem (low s)"
    "disk_ok s1 dd = disk_ok s dd" "kbuf s1 = kbuf s" "vheap s1 = h # b # a # rest" for k dd
    by (simp_all add: s1_def disk_blk_img)
  have rd: "sfs_init_read dev SFS_BLKN_SUPER buf s1 = Some (0, set_kbuf m1 s1)"
    using init_read_eq [of s1 dev SFS_BLKN_SUPER buf] d(1,2) img(3) m(1) unfolding s1 m1_def by (simp add: SFS_BLKN_SUPER_def)
  have z: "SUPER_SIZE \<le> SFS_BLKSIZE" "12 + SFS_MAX_INFO_LEN < SFS_BLKSIZE"
    by (simp_all add: SUPER_SIZE_def SFS_MAX_INFO_LEN_def SFS_BLKSIZE_def)
  have bs: "rd_bytes buf SUPER_SIZE m1 = Some (take SUPER_SIZE ?D)"
    using rd_overlay_in [of 0 SUPER_SIZE ?D buf "through s1 ?D"] z(1) by (simp add: m1_def)
  have "m1 (buf + 12 + SFS_MAX_INFO_LEN) \<noteq> None" using z(2) by (simp add: m1_def overlay_def)
  then obtain m2 where m2: "wr (buf + 12 + SFS_MAX_INFO_LEN) 0 m1 = Some m2" "m2 = m1(buf + 12 + SFS_MAX_INFO_LEN \<mapsto> 0)"
    by (simp add: wr_Some)
  define s2 where "s2 = upd_sfs f (\<lambda>a. a\<lparr>super := ?sp\<lparr>info := (info ?sp)[SFS_MAX_INFO_LEN := 0]\<rparr>\<rparr>) (set_kbuf m2 s1)"
  have q: "quiet s s2" unfolding quiet_def s2_def s1_def m2(2) m1_def
    by (simp add: overlay_def through_def upd_sfs_def upd_low_def set_kbuf_def)
  have s2: "disk_img s2 = ?img" "vheap s2 = h # b # a # rest"
    "fs_of s2 f = (fs_of s2 f)\<lparr>super := ?sp\<lparr>info := (info ?sp)[SFS_MAX_INFO_LEN := 0]\<rparr>, sfs_dev := dev, sfs_buffer := buf\<rparr>"
    by (simp_all add: s2_def s1_def)
  note qs = quietD(4-6) [OF q] 
  have mt: "\<exists>t. sfs_do_mount_maps dev f s2 = Some (0, t) \<and> fs_ok t f \<and> map_ok t f \<and>
    free_blocks t f = img_free_set ?img \<and> super (fs_of t f) = super (fs_of s2 f) \<and> disk_img t = ?img \<and>
    \<not> super_dirty (fs_of t f) \<and> fs_ops_of t f = SFS_FS"
    using mount_maps_ok [where s = s2 and dev = dev and f = f and x = "fs_of s2 f" and nm = "(info ?sp)[SFS_MAX_INFO_LEN := 0]"
      and buf = buf and h = h and b = b and a = a and rest = rest] d(1,2) img m ap s2
    unfolding s2(1) qs by (simp add: quietD [OF q])
  then obtain t where t: "sfs_do_mount_maps dev f s2 = Some (0, t)" "fs_ok t f" "map_ok t f"
    "free_blocks t f = img_free_set ?img" "super (fs_of t f) = super (fs_of s2 f)" "disk_img t = ?img"
    "\<not> super_dirty (fs_of t f)" "fs_ops_of t f = SFS_FS" by blast
  have v: "vmalloc s = (Some f, s\<lparr>vheap := buf # h # b # a # rest\<rparr>)" using h by (simp add: vmalloc_def)
  have v': "vmalloc (upd_sfs f (\<lambda>a. a\<lparr>sfs_dev := dev\<rparr>) (s\<lparr>vheap := buf # h # b # a # rest\<rparr>)) =
      (Some buf, upd_sfs f (\<lambda>a. a\<lparr>sfs_dev := dev\<rparr>) (s\<lparr>vheap := buf # h # b # a # rest\<rparr>)\<lparr>vheap := h # b # a # rest\<rparr>)"
    by (simp add: vmalloc_def)
  have sp: "super_of_bytes (take SUPER_SIZE ?D) = ?sp" by (simp add: img_super_def disk_blk_img)
  have ok: "magic ?sp = SFS_MAGIC" "\<not> d_blocks (devs (low s) dev) < unat (blocks ?sp)" using img by (simp_all add: img_ok_def)
  have mp: "set_kbuf m2 (set_kbuf m1 s1) = set_kbuf m2 s1" "kbuf (set_kbuf m1 s1) = m1" by simp_all
  have "sfs_do_mount dev s = Some (0, Some f, t)"
    unfolding sfs_do_mount_def Let_def v v' s1_def [symmetric] rd
    using d(3) rd bs m2(1) ok s1(2) t(1) by (simp add: v v' s1_def [symmetric] rd sp mp s2_def [symmetric])
  moreover have "blocks (super (fs_of t f)) = blocks ?sp" unfolding t(5) by (subst s2(3)) simp
  ultimately show ?thesis using t by blast
qed

end
