(* ===== verification/MksfsClaims.thy ===== *)
theory MksfsClaims
  imports SfsMount SfsClaims
begin

section \<open>What the image builder promises the kernel\<close>

subsection \<open>The finished image is consistent\<close>

lemma super_roundtrip: "super_of_bytes (super_bytes sp) = sp"
  by (simp add: super_of_bytes_def super_bytes_def)

lemma length_super_bytes: "length (info sp) = SFS_MAX_INFO_LEN + 1 \<Longrightarrow> length (super_bytes sp) = SUPER_SIZE"
  by (simp add: super_bytes_def SUPER_SIZE_def SFS_MAX_INFO_LEN_def)

lemma closed_img_ok:
  assumes inv: "mk_inv s" and t: "close_sfs s = Some t"
  shows "img_ok (m_img t)" "m_ninos t = m_ninos s" "m_next t = m_next s" "blocks (img_super (m_img t)) = m_ninos s"
    "img_free_set (m_img t) = {unat (m_next s)..<unat (m_ninos s)}" "2 + img_maps (m_img t) \<le> unat (m_ninos s)"
proof -
  have c: "m_ninos t = m_ninos s" "m_next t = m_next s" "img_blk (m_img t) 0 = padded (super_bytes (m_super s))"
    "\<forall>k < nmaps s. img_blk (m_img t) (2 + k) = map_bytes k s"
    using close_sfs_ok [OF inv] t by auto
  have i: "magic (m_super s) = SFS_MAGIC" "blocks (m_super s) = m_ninos s" "unused_blocks (m_super s) = m_ninos s - m_next s"
    "length (info (m_super s)) = SFS_MAX_INFO_LEN + 1" "unat (m_ninos s) \<le> SFS_MAX_NBLKS" "map_end s \<le> unat (m_next s)"
    "m_next s \<le> m_ninos s" using inv by (simp_all add: mk_inv_def mk_super_ok_def)
  have sp: "img_super (m_img t) = m_super s"
    unfolding img_super_def c(3) padded_def using length_super_bytes [OF i(4)] by (simp add: super_roundtrip)
  have m: "img_maps (m_img t) = nmaps s" by (simp add: img_maps_def sp i(2) nmaps_def)
  have le: "unat (m_next s) \<le> unat (m_ninos s)" "2 + nmaps s \<le> unat (m_next s)"
    using i(6,7) by (simp_all add: word_le_nat_alt map_end_def nmaps_def)
  have ub: "unat (m_ninos s) \<le> nmaps s * SFS_BLKBITS"
    using nmaps_less [of "nmaps s" s] by simp
  show f: "img_free_set (m_img t) = {unat (m_next s)..<unat (m_ninos s)}"
    unfolding img_free_set_def m using img_free_eq [OF inv c(4)] ub by auto
  have "unat (m_ninos s - m_next s) = unat (m_ninos s) - unat (m_next s)" by (rule unat_sub [OF i(7)])
  then show "img_ok (m_img t)" unfolding img_ok_def sp f using i le by auto
  show "m_ninos t = m_ninos s" "m_next t = m_next s" "blocks (img_super (m_img t)) = m_ninos s" by (simp_all add: c sp i)
  show "2 + img_maps (m_img t) \<le> unat (m_ninos s)" unfolding m using le by simp
qed

lemma mksfs_main_closed:
  assumes "mksfs_main name n img junk home = Some t" "length junk = SFS_MAX_INFO_LEN + 1"
  shows "\<exists>s. mk_inv s \<and> close_sfs s = Some t"
proof -
  obtain u s where u: "create_sfs n img junk = Some u" "open_dir home (m_root u) (m_root u) u = Some s" "close_sfs s = Some t"
    using assms(1) unfolding mksfs_main_def open_img_def create_img_def by (auto simp: bind_eq_Some_conv)
  have "mk_inv s" using open_dir_step(1) [OF u(2)] mk_inv_create [OF u(1) assms(2)] by (simp add: mk_step_def)
  then show ?thesis using u(3) by blast
qed

subsection \<open>Directory entries\<close>

lemma update_cache_img: "update_cache c j s = Some (b, i, t) \<Longrightarrow> m_img t = m_img s"
  by (auto simp: update_cache_def alloc_cache_block_def sfs_alloc_ino_def bind_eq_Some_conv Let_def split: if_splits option.splits)

lemma upd_img [simp]: "m_img (upd_ci c g s) = m_img s" "m_img (upd_minode c h s) = m_img s" "m_img (upd_cb b k s) = m_img s"
  by (simp_all add: upd_ci_def upd_minode_def upd_cb_def)

lemma append_l_img: "append_l1 fl k i s = Some t \<Longrightarrow> m_img t = m_img s" "append_l2 fl k i s = Some t \<Longrightarrow> m_img t = m_img s"
  by (auto simp: append_l1_def append_l2_def bind_eq_Some_conv Let_def dest!: update_cache_img)

lemma append_block_img: "append_block fl n i s = Some t \<Longrightarrow> m_img t = m_img s"
  by (auto simp: append_block_def bind_eq_Some_conv Let_def split: if_splits dest!: append_l_img)

lemma of_char_byte: "char_of (unat (of_char c :: byte)) = c" "(of_char c :: byte) = 0 \<longleftrightarrow> c = CHR 0x00"
proof -
  have u: "unat (of_char c :: byte) = of_char c"
  proof -
    have "(of_char c :: nat) < 256" by (rule nat_of_char_less_256)
    then have "unat (of_nat (of_char c) :: byte) = of_char c" by (simp add: unat_of_nat take_bit_nat_eq_self)
    then show ?thesis unfolding of_nat_of_char .
  qed
  then show "char_of (unat (of_char c :: byte)) = c" by simp
  have "(of_char c :: byte) = 0 \<longleftrightarrow> (of_char c :: nat) = 0" unfolding u [symmetric] by (rule unsigned_eq_0_iff [symmetric])
  also have "\<dots> \<longleftrightarrow> c = CHR 0x00"
  proof
    assume "(of_char c :: nat) = 0"
    then have "char_of (0 :: nat) = c" by (metis char_of_char)
    then show "c = CHR 0x00" by (auto simp: char_of_def)
  qed simp
  finally show "(of_char c :: byte) = 0 \<longleftrightarrow> c = CHR 0x00" .
qed

lemma cstring_name:
  assumes "\<forall>c \<in> set name. c \<noteq> CHR 0x00"
  shows "cstring (name_bytes name @ 0 # bs) = name"
proof -
  have "takeWhile (\<lambda>b. b \<noteq> 0) (name_bytes name @ 0 # bs) = name_bytes name"
  proof -
    have "\<And>b. b \<in> set (name_bytes name) \<Longrightarrow> b \<noteq> 0" using assms unfolding name_bytes_def set_map image_iff by (metis of_char_byte(2))
    then show ?thesis by (simp add: takeWhile_append2)
  qed
  moreover have "map (\<lambda>b. char_of (unat b)) (name_bytes name) = name"
    unfolding name_bytes_def map_map by (rule map_idI) (simp only: comp_def of_char_byte(1))
  ultimately show ?thesis by (simp add: cstring_def)
qed

lemma strcpy_take:
  assumes "length name < length buf" "k < length buf"
  shows "\<exists>bs. take k (strcpy_into name buf) @ replicate (length buf - k) 0 = name_bytes (take k name) @ 0 # bs"
proof (cases "length name < k")
  case True
  then have "take k (strcpy_into name buf) = name_bytes name @ 0 # take (k - length name - 1) (drop (length name + 1) buf)"
    by (simp add: strcpy_into_def name_bytes_def take_Cons')
  then show ?thesis using True by simp
next
  case False
  then have "take k (strcpy_into name buf) = name_bytes (take k name)"
    by (simp add: strcpy_into_def name_bytes_def take_map)
  moreover obtain j where "length buf - k = Suc j" using assms(2) by (cases "length buf - k") auto
  ultimately show ?thesis by simp
qed

lemma add_entry_eq:
  assumes "add_entry cur fl name s = Some t"
  shows "length name \<le> SFS_MAX_FNAME_LEN" "m_next s < m_ninos s"
    "m_img t = put_bytes (unat (m_next s) * SFS_BLKSIZE)
       (padded (take (SFS_MAX_FNAME_LEN + 1) (le32 (ci_ino (m_ci s fl)) @ strcpy_into name (m_entry s)))) (m_img s)"
proof -
  let ?e = "s\<lparr>m_entry := strcpy_into name (m_entry s)\<rparr>"
  obtain i u v w where u: "sfs_alloc_ino ?e = Some (i, u)"
    and v: "write_block (take (SFS_MAX_FNAME_LEN + 1) (le32 (ci_ino (m_ci s fl)) @ m_entry u)) i u = Some v"
    and w: "append_block cur (SFS_MAX_FNAME_LEN + 1) i v = Some w" "length name \<le> SFS_MAX_FNAME_LEN"
    and t: "t = upd_minode fl (\<lambda>d. d\<lparr>di_nlinks := di_nlinks d + 1\<rparr>) w"
    using assms unfolding add_entry_def Let_def bind_eq_Some_conv by (auto simp: bind_eq_Some_conv)
  have i: "i = m_next s" "m_next s < m_ninos s" "m_entry u = strcpy_into name (m_entry s)" "m_img u = m_img s"
    using u by (auto simp: sfs_alloc_ino_def split: if_splits)
  show "length name \<le> SFS_MAX_FNAME_LEN" "m_next s < m_ninos s" by (rule w(2) i(2))+
  have "m_img t = m_img v" unfolding t using append_block_img [OF w(1)] by simp
  then show "m_img t = put_bytes (unat (m_next s) * SFS_BLKSIZE)
       (padded (take (SFS_MAX_FNAME_LEN + 1) (le32 (ci_ino (m_ci s fl)) @ strcpy_into name (m_entry s)))) (m_img s)"
    using v by (auto simp: write_block_def Let_def i padded_def)
qed

subsection \<open>Examples\<close>

text \<open>The tool at the start, on an image of eight blocks.\<close>

definition ex_mk :: mksfs where
  "ex_mk = \<lparr>m_super = \<lparr>magic = SFS_MAGIC, blocks = 8, unused_blocks = 5,
       info = strcpy_into ''simple file system'' (replicate 32 0)\<rparr>,
     m_path = [], m_ninos = 8, m_next = 3, m_root = 0, m_inodes = (\<lambda>_. [])(0 := [0]), m_blocks = (\<lambda>_. []),
     m_ci = (\<lambda>_. undefined)(0 := \<lparr>ci_inode = new_inode SFS_TYPE_DIR, ci_real = 0, ci_ino = 1, ci_nblks = 0,
       ci_l1 = None, ci_l2 = None\<rparr>), m_nci = 1, m_cb = (\<lambda>_. undefined), m_ncb = 0,
     m_entry = replicate (SFS_MAX_FNAME_LEN + 1) 0, m_img = (\<lambda>_. 0)\<rparr>"

lemma ex_mk_create: "create_sfs 32768 (\<lambda>_. 0) (replicate 32 0) = Some ex_mk"
  by (simp add: create_sfs_def SFS_BLKSIZE_def SFS_MAX_NBLKS_def SFS_BLKBITS_def SFS_BLKN_FREEMAP_def alloc_cache_inode_def
      SFS_BLKN_ROOT_def mk_hash64_def mk_hash32_def ex_mk_def Let_def)

lemma add_entry_ex:
  assumes "di_type (ci_inode (m_ci s cur)) = SFS_TYPE_DIR" "length name \<le> 255" "m_next s < m_ninos s" "ci_nblks (m_ci s cur) < 12"
  shows "\<exists>t. add_entry cur cur name s = Some t \<and> m_next t = m_next s + 1 \<and> m_ninos t = m_ninos s \<and> m_root t = m_root s \<and>
    di_type (ci_inode (m_ci t cur)) = SFS_TYPE_DIR \<and> ci_nblks (m_ci t cur) = ci_nblks (m_ci s cur) + 1"
  using assms
  by (simp add: add_entry_def sfs_alloc_ino_def write_block_def append_block_def Let_def SFS_MAX_FNAME_LEN_def FS_MAX_FNAME_LEN_def
      SFS_BLKSIZE_def SFS_LN_NBLKS_def SFS_MAX_FILE_SIZE_def SFS_L0_NBLKS_def SFS_NDIRECT_def upd_minode_def upd_ci_def word_less_nat_alt
      del: put_bytes.simps)

lemma ex_mk_run: "\<exists>k. mksfs_main ''sfs.img'' 32768 (\<lambda>_. 0) (replicate 32 0) DirEnd = Some k \<and> m_next k = 5 \<and> m_ninos k = 8"
proof -
  have r: "m_root ex_mk = 0" "m_next ex_mk = 3" "m_ninos ex_mk = 8" "di_type (ci_inode (m_ci ex_mk 0)) = SFS_TYPE_DIR"
    "ci_nblks (m_ci ex_mk 0) = 0" by (simp_all add: ex_mk_def new_inode_def)
  obtain u where u: "add_entry 0 0 ''.'' ex_mk = Some u" "m_next u = 4" "m_ninos u = 8" "m_root u = 0"
    "di_type (ci_inode (m_ci u 0)) = SFS_TYPE_DIR" "ci_nblks (m_ci u 0) = 1"
    using add_entry_ex [of ex_mk 0 "''.''"] r by auto
  obtain v where v: "add_entry 0 0 ''..'' u = Some v" "m_next v = 5" "m_ninos v = 8"
    using add_entry_ex [of u 0 "''..''"] u by auto
  have o: "open_dir DirEnd 0 0 ex_mk = Some v" using u(1) v(1) by simp
  have "mk_inv ex_mk" by (rule mk_inv_create [OF ex_mk_create]) (simp add: SFS_MAX_INFO_LEN_def)
  then have "mk_inv v" using open_dir_step(1) [OF o] by (simp add: mk_step_def)
  then obtain k where "close_sfs v = Some k" "m_ninos k = 8" "m_next k = 5" using close_sfs_ok [of v] v(2,3) by auto
  then show ?thesis using o by (simp add: mksfs_main_def open_img_def create_img_def ex_mk_create r(1) del: open_dir.simps)
qed

text \<open>A kernel with that image on its disk.\<close>

definition ex_mount :: "(nat \<Rightarrow> byte) \<Rightarrow> kvst" where
  "ex_mount img = ex_vst\<lparr>vheap := [100, 8192, 101, 102, 12288], low := ex_low\<lparr>
     devs := (\<lambda>_. \<lparr>d_blocks = 8, d_blocksize = 4096, d_fun = Disk0Fun\<rparr>),
     ide_devices := (\<lambda>_. \<lparr>ide_valid = True, ide_size = 64, ide_data = img\<rparr>)\<rparr>\<rparr>"

subsection \<open>The properties\<close>

text \<open>C2: The tool and the kernel agree (\<open>mksfs.c\<close>, \<open>sfs_fs.c\<close>): if \<open>mksfs\<close> finishes on a directory tree, a kernel
  whose disk holds the image mounts it, whatever the tree: no check of \<open>sfs_do_mount\<close> fails. The mounted file system
  satisfies the invariants of the block layer, and its free blocks are exactly those the tool did not hand out.\<close>

theorem mksfs_image_mounts:
  assumes tool: "mksfs_main name n img junk home = Some k" "length junk = SFS_MAX_INFO_LEN + 1"
    and disk: "disk_img s = m_img k" "disk_ok s (devs (low s) dev)" "disk0_sem (low s) > 0"
      "d_blocksize (devs (low s) dev) = SFS_BLKSIZE" "unat (m_ninos k) \<le> d_blocks (devs (low s) dev)"
    and heap: "vheap s = f # buf # h # b # a # rest" "mapped (kbuf s) buf SFS_BLKSIZE"
      "mapped (kbuf s) a (img_maps (m_img k) * SFS_BLKSIZE)"
    and ap: "apart (disk0_buffer (low s)) SFS_BLKSIZE buf SFS_BLKSIZE"
      "apart (disk0_buffer (low s)) SFS_BLKSIZE a (img_maps (m_img k) * SFS_BLKSIZE)"
      "apart buf SFS_BLKSIZE a (img_maps (m_img k) * SFS_BLKSIZE)"
  shows "\<exists>t. sfs_do_mount dev s = Some (0, Some f, t) \<and> fs_ok t f \<and> map_ok t f \<and>
    free_blocks t f = {unat (m_next k)..<unat (m_ninos k)} \<and> blocks (super (fs_of t f)) = m_ninos k \<and> disk_img t = m_img k"
proof -
  obtain z where z: "mk_inv z" "close_sfs z = Some k" using mksfs_main_closed [OF tool] by blast
  note c = closed_img_ok [OF z]
  have "\<exists>t. sfs_do_mount dev s = Some (0, Some f, t) \<and> fs_ok t f \<and> map_ok t f \<and>
    free_blocks t f = img_free_set (disk_img s) \<and> blocks (super (fs_of t f)) = blocks (img_super (disk_img s)) \<and>
    disk_img t = disk_img s \<and> \<not> super_dirty (fs_of t f) \<and> fs_ops_of t f = SFS_FS"
    by (rule do_mount_ok [where h = h and b = b and rest = rest and buf = buf and a = a])
      (use disk heap ap c in \<open>simp_all add: disk(1)\<close>)
  then show ?thesis using c(2-5) disk(1) by auto
qed

theorem mksfs_image_mounts_witness:
  "\<exists>k t. mksfs_main ''sfs.img'' 32768 (\<lambda>_. 0) (replicate 32 0) DirEnd = Some k \<and>
     sfs_do_mount 0 (ex_mount (m_img k)) = Some (0, Some 100, t) \<and> free_blocks t 100 = {5, 6, 7} \<and> map_ok t 100"
proof -
  obtain k where k: "mksfs_main ''sfs.img'' 32768 (\<lambda>_. 0) (replicate 32 0) DirEnd = Some k" "m_next k = 5" "m_ninos k = 8"
    using ex_mk_run by blast
  let ?s = "ex_mount (m_img k)"
  have j: "length (replicate 32 (0 :: byte)) = SFS_MAX_INFO_LEN + 1" by (simp add: SFS_MAX_INFO_LEN_def)
  have d: "disk_img ?s = m_img k" "disk_ok ?s (devs (low ?s) 0)" "disk0_sem (low ?s) > 0"
    "d_blocksize (devs (low ?s) 0) = SFS_BLKSIZE" "unat (m_ninos k) \<le> d_blocks (devs (low ?s) 0)"
    "vheap ?s = 100 # 8192 # 101 # 102 # 12288 # []"
    "mapped (kbuf ?s) x y" "disk0_buffer (low ?s) = 4096" for x y
    by (simp_all add: ex_mount_def disk_img_def disk_ok_def ex_low_def SFS_BLKSIZE_def k(3))
  have "apart 4096 SFS_BLKSIZE 8192 SFS_BLKSIZE" "apart 4096 SFS_BLKSIZE 12288 n" "apart 8192 SFS_BLKSIZE 12288 n" for n
    by (simp_all add: apart_def SFS_BLKSIZE_def)
  moreover have "{unat (5 :: 32 word)..<unat (8 :: 32 word)} = {5, 6, 7}" by auto
  ultimately show ?thesis
    using mksfs_image_mounts [OF k(1) j d(1-6) d(7) d(7), unfolded d(8) k(2,3)] k(1) by auto
qed

text \<open>C37: Directory entries (\<open>add_entry\<close>): the block the tool writes for an entry, read by the kernel as an
  entry, has the number of the file and its name up to 252 characters: the tool writes the entry with the length of
  its name field, so longer names, which both sides allow up to 255, lose their end. No other block changes.\<close>

theorem mksfs_entry_name:
  assumes "add_entry cur fl name s = Some t" "length (m_entry s) = SFS_MAX_FNAME_LEN + 1" "\<forall>c \<in> set name. c \<noteq> CHR 0x00"
  shows "ent_ino (entry_of_bytes (take ENTRY_SIZE (img_blk (m_img t) (unat (m_next s))))) = ci_ino (m_ci s fl) \<and>
    cstring (ent_name (entry_of_bytes (take ENTRY_SIZE (img_blk (m_img t) (unat (m_next s)))))) = take 252 name \<and>
    (\<forall>b. b \<noteq> unat (m_next s) \<longrightarrow> img_blk (m_img t) b = img_blk (m_img s) b)"
proof -
  note e = add_entry_eq [OF assms(1)]
  let ?w = "le32 (ci_ino (m_ci s fl))" and ?n = "strcpy_into name (m_entry s)"
  let ?d = "take (SFS_MAX_FNAME_LEN + 1) (?w @ ?n)"
  have c: "SFS_MAX_FNAME_LEN = 255" "ENTRY_SIZE = 260" "SFS_BLKSIZE = 4096"
    by (simp_all add: SFS_MAX_FNAME_LEN_def FS_MAX_FNAME_LEN_def ENTRY_SIZE_def SFS_BLKSIZE_def)
  have l: "length name < length (m_entry s)" "length (m_entry s) = 256" using e(1) assms(2) c by simp_all
  have ln: "length ?n = 256" using strcpy_into_length [OF l(1)] l(2) by simp
  have d: "?d = ?w @ take 252 ?n" by (simp add: c)
  have "length (padded ?d) = SFS_BLKSIZE" by (simp add: d padded_def ln c)
  note b = img_blk_put [OF this, of "unat (m_next s)" "m_img s", folded e(3)]
  have "take ENTRY_SIZE (padded ?d) = ?w @ (take 252 ?n @ replicate (256 - 252) 0)" by (simp add: d padded_def ln c)
  moreover obtain bs where "take 252 ?n @ replicate (256 - 252) 0 = name_bytes (take 252 name) @ 0 # bs"
    using strcpy_take [OF l(1), of 252] l(2) by auto
  ultimately have bl: "take ENTRY_SIZE (img_blk (m_img t) (unat (m_next s))) = ?w @ name_bytes (take 252 name) @ 0 # bs"
    using b [of "unat (m_next s)"] by simp
  have "\<forall>c \<in> set (take 252 name). c \<noteq> CHR 0x00" using assms(3) in_set_takeD by fastforce
  then show ?thesis unfolding bl using b by (simp add: entry_of_bytes_def cstring_name)
qed

theorem mksfs_entry_name_witness:
  "\<exists>t. add_entry 0 0 ''a'' ex_mk = Some t \<and>
     cstring (ent_name (entry_of_bytes (take ENTRY_SIZE (img_blk (m_img t) 3)))) = ''a''"
proof -
  have r: "m_next ex_mk = 3" "m_ninos ex_mk = 8" "di_type (ci_inode (m_ci ex_mk 0)) = SFS_TYPE_DIR"
    "ci_nblks (m_ci ex_mk 0) = 0" "length (m_entry ex_mk) = SFS_MAX_FNAME_LEN + 1" by (simp_all add: ex_mk_def new_inode_def)
  obtain t where t: "add_entry 0 0 ''a'' ex_mk = Some t" using add_entry_ex [of ex_mk 0 "''a''"] r by auto
  have n: "\<forall>c \<in> set ''a''. c \<noteq> CHR 0x00" by simp
  show ?thesis using mksfs_entry_name [OF t r(5) n] t r(1) by auto
qed

end
