(* ===== verification/Console.thy ===== *)
theory Console
  imports PrintFmt
begin

section \<open>The console, line input and the kernel monitor\<close>

text \<open>
  kern/driver/console.c, kern/libs/stdio.c, kern/libs/readline.c, kern/debug/kmonitor.c. The firmware is the
  environment: \<open>serial\<close> are the values that \<open>sbi_console_getchar\<close> yields, one per call, a negative one when no
  character waits, which it yields for ever at the end; \<open>screen\<close> is what \<open>sbi_console_putchar\<close> was given. The
  buffers are functions; \<open>None\<close> is an access outside of one, or a call that does not return.
\<close>

subsection \<open>State\<close>

definition CONSBUFSIZE :: nat where "CONSBUFSIZE = 512"
definition RL_BUFSIZE :: nat where "RL_BUFSIZE = 1024"

record cons =
  cbuf :: "nat \<Rightarrow> byte"
  crpos :: "32 word"
  cwpos :: "32 word"
  serial :: "int list"
  screen :: "byte list"
  rlbuf :: "nat \<Rightarrow> byte"

definition sbi_console_getchar :: "cons \<Rightarrow> int \<times> cons" where
  "sbi_console_getchar s = (case serial s of [] \<Rightarrow> (- 1, s) | c # cs \<Rightarrow> (c, s\<lparr>serial := cs\<rparr>))"

definition sbi_console_putchar :: "int \<Rightarrow> cons \<Rightarrow> cons" where
  "sbi_console_putchar c s = s\<lparr>screen := screen s @ [word_of_int c]\<rparr>"

subsection \<open>Device interrupts (console.c)\<close>

definition cons_store :: "int \<Rightarrow> cons \<Rightarrow> cons option" where
  "cons_store c s = do {
     assert_c (unat (cwpos s) < CONSBUFSIZE);
     let s = s\<lparr>cbuf := (cbuf s)(unat (cwpos s) := word_of_int c), cwpos := cwpos s + 1\<rparr>;
     Some (if unat (cwpos s) = CONSBUFSIZE then s\<lparr>cwpos := 0\<rparr> else s)
   }"

partial_function (option) cons_intr :: "(cons \<Rightarrow> int \<times> cons) \<Rightarrow> cons \<Rightarrow> cons option" where
  "cons_intr proc s =
     (let (c, s) = proc s
      in if c = - 1 then Some s
         else do {
           s \<leftarrow> (if c \<noteq> 0 then cons_store c s else Some s);
           cons_intr proc s
         })"

declare cons_intr.simps [code]

definition serial_proc_data :: "cons \<Rightarrow> int \<times> cons" where
  "serial_proc_data s =
     (let (c, s) = sbi_console_getchar s
      in if c < 0 then (- 1, s) else if c = 127 then (8, s) else (c, s))"

definition serial_intr :: "cons \<Rightarrow> cons option" where
  "serial_intr s = cons_intr serial_proc_data s"

definition kbd_intr :: "cons \<Rightarrow> cons option" where
  "kbd_intr s = serial_intr s"

definition serial_putc :: "int \<Rightarrow> cons \<Rightarrow> cons" where
  "serial_putc c s =
     (if c \<noteq> 8 then sbi_console_putchar c s
      else sbi_console_putchar 8 (sbi_console_putchar 32 (sbi_console_putchar 8 s)))"

definition cons_init :: "cons \<Rightarrow> cons" where
  "cons_init s = snd (sbi_console_getchar s)"

definition cons_putc :: "int \<Rightarrow> cons \<Rightarrow> cons" where
  "cons_putc c s = serial_putc c s"

definition cons_getc :: "cons \<Rightarrow> (int \<times> cons) option" where
  "cons_getc s = do {
     s \<leftarrow> serial_intr s;
     if crpos s \<noteq> cwpos s then do {
       assert_c (unat (crpos s) < CONSBUFSIZE);
       let c = uint (cbuf s (unat (crpos s)));
       let s = s\<lparr>crpos := crpos s + 1\<rparr>;
       Some (c, if unat (crpos s) = CONSBUFSIZE then s\<lparr>crpos := 0\<rparr> else s)
     } else Some (0, s)
   }"

subsection \<open>Characters and lines (stdio.c, readline.c)\<close>

text \<open>The count that \<open>cputch\<close> increases is passed through.\<close>

definition cputch :: "int \<Rightarrow> int \<Rightarrow> cons \<Rightarrow> int \<times> cons" where
  "cputch c n s = (n + 1, cons_putc c s)"

fun put_all :: "string \<Rightarrow> int \<Rightarrow> cons \<Rightarrow> int \<times> cons" where
  "put_all [] n s = (n, s)"
| "put_all (c # cs) n s = (let (n, s) = cputch (of_char c) n s in put_all cs n s)"

definition vcprintf :: "string \<Rightarrow> varg list \<Rightarrow> cons \<Rightarrow> (int \<times> cons) option" where
  "vcprintf fmt ap s = do { out \<leftarrow> vprintfmt fmt ap; Some (put_all out 0 s) }"

definition cprintf :: "string \<Rightarrow> varg list \<Rightarrow> cons \<Rightarrow> (int \<times> cons) option" where
  "cprintf fmt ap s = vcprintf fmt ap s"

definition cputchar :: "int \<Rightarrow> cons \<Rightarrow> cons" where
  "cputchar c s = cons_putc c s"

partial_function (option) cputs_loop :: "cmem \<Rightarrow> nat \<Rightarrow> int \<Rightarrow> cons \<Rightarrow> (int \<times> cons) option" where
  "cputs_loop m str n s = do {
     b \<leftarrow> m str;
     if b \<noteq> 0 then (let (n, s) = cputch (uint b) n s in cputs_loop m (str + 1) n s)
     else Some (n, s)
   }"

declare cputs_loop.simps [code]

definition cputs :: "cmem \<Rightarrow> nat \<Rightarrow> cons \<Rightarrow> (int \<times> cons) option" where
  "cputs m str s = do {
     (n, s) \<leftarrow> cputs_loop m str 0 s;
     Some (cputch 10 n s)
   }"

partial_function (option) getchar :: "cons \<Rightarrow> (int \<times> cons) option" where
  "getchar s = do { (c, s) \<leftarrow> cons_getc s; if c = 0 then getchar s else Some (c, s) }"

declare getchar.simps [code]

text \<open>\<open>True\<close> is the return of \<open>buf\<close>, \<open>False\<close> that of \<open>NULL\<close>.\<close>

partial_function (option) readline_loop :: "nat \<Rightarrow> cons \<Rightarrow> (bool \<times> cons) option" where
  "readline_loop i s = do {
     (c, s) \<leftarrow> getchar s;
     if c < 0 then Some (False, s)
     else if c \<ge> 32 \<and> i < RL_BUFSIZE - 1 then
       readline_loop (i + 1) ((cputchar c s)\<lparr>rlbuf := (rlbuf s)(i := word_of_int c)\<rparr>)
     else if c = 8 \<and> i > 0 then readline_loop (i - 1) (cputchar c s)
     else if c = 10 \<or> c = 13 then Some (True, (cputchar c s)\<lparr>rlbuf := (rlbuf s)(i := 0)\<rparr>)
     else readline_loop i s
   }"

declare readline_loop.simps [code]

definition readline :: "string option \<Rightarrow> cons \<Rightarrow> (bool \<times> cons) option" where
  "readline prompt s = do {
     s \<leftarrow> (case prompt of None \<Rightarrow> Some s
           | Some p \<Rightarrow> do { (_, s) \<leftarrow> cprintf ''%s'' [VStr (Some p)] s; Some s });
     readline_loop 0 s
   }"

subsection \<open>The command interpreter (kmonitor.c)\<close>

definition MAXARGS :: nat where "MAXARGS = 16"

text \<open>\<open>strchr\<close> on the literal: the terminator is not found.\<close>

definition WHITESPACE :: "byte list" where "WHITESPACE = [32, 9, 10, 13]"

definition is_ws :: "byte \<Rightarrow> bool" where
  "is_ws b \<longleftrightarrow> b \<in> set WHITESPACE"

partial_function (option) parse_skip :: "nat \<Rightarrow> cmem \<Rightarrow> (nat \<times> cmem) option" where
  "parse_skip buf m = do {
     b \<leftarrow> m buf;
     if b \<noteq> 0 \<and> is_ws b then do { m \<leftarrow> wr buf 0 m; parse_skip (buf + 1) m } else Some (buf, m)
   }"

partial_function (option) parse_word :: "nat \<Rightarrow> cmem \<Rightarrow> nat option" where
  "parse_word buf m = do {
     b \<leftarrow> m buf;
     if b \<noteq> 0 \<and> \<not> is_ws b then parse_word (buf + 1) m else Some buf
   }"

text \<open>\<open>argv\<close> has \<open>MAXARGS\<close> elements: storing beyond them is an access outside the array.\<close>

definition too_many_args :: "cons \<Rightarrow> cons option" where
  "too_many_args s = do {
     (_, s) \<leftarrow> cprintf (''Too many arguments (max %d).'' @ [CHR 0x0A]) [VInt (of_nat MAXARGS)] s;
     Some s
   }"

partial_function (option) parse_loop :: "nat \<Rightarrow> nat list \<Rightarrow> cmem \<Rightarrow> cons \<Rightarrow> (nat list \<times> cmem \<times> cons) option" where
  "parse_loop buf argv m s = do {
     (buf, m) \<leftarrow> parse_skip buf m;
     b \<leftarrow> m buf;
     if b = 0 then Some (argv, m, s)
     else do {
       s \<leftarrow> (if length argv = MAXARGS - 1 then too_many_args s else Some s);
       assert_c (length argv < MAXARGS);
       e \<leftarrow> parse_word buf m;
       parse_loop e (argv @ [buf]) m s
     }
   }"

declare parse_skip.simps [code] parse_word.simps [code] parse_loop.simps [code]

definition parse :: "nat \<Rightarrow> cmem \<Rightarrow> cons \<Rightarrow> (nat list \<times> cmem \<times> cons) option" where
  "parse buf m s = parse_loop buf [] m s"

text \<open>
  The commands: the addresses of the name and the description and a function of the arguments that may print. The
  string that \<open>cprintf\<close> prints is read from the memory.
\<close>

record command =
  cmd_name :: nat
  cmd_desc :: nat
  cmd_func :: "nat list \<Rightarrow> cmem \<Rightarrow> cons \<Rightarrow> (int \<times> cons) option"

partial_function (option) string_at :: "cmem \<Rightarrow> nat \<Rightarrow> string option" where
  "string_at m a = do {
     b \<leftarrow> m a;
     if b = 0 then Some [] else do { cs \<leftarrow> string_at m (a + 1); Some (char_of (unat b) # cs) }
   }"

declare string_at.simps [code]

fun runcmd_loop :: "command list \<Rightarrow> nat list \<Rightarrow> cmem \<Rightarrow> cons \<Rightarrow> (int \<times> cons) option" where
  "runcmd_loop [] argv m s = do {
     name \<leftarrow> string_at m (hd argv);
     (_, s) \<leftarrow> cprintf (''Unknown command '' @ [CHR 0x27] @ ''%s'' @ [CHR 0x27, CHR 0x0A]) [VStr (Some name)] s;
     Some (0, s)
   }"
| "runcmd_loop (c # cs) argv m s = do {
     r \<leftarrow> strcmp m (cmd_name c) (hd argv);
     if r = 0 then cmd_func c (tl argv) m s else runcmd_loop cs argv m s
   }"

definition runcmd :: "command list \<Rightarrow> nat \<Rightarrow> cmem \<Rightarrow> cons \<Rightarrow> (int \<times> cmem \<times> cons) option" where
  "runcmd commands buf m s = do {
     (argv, m, s) \<leftarrow> parse buf m s;
     if argv = [] then Some (0, m, s)
     else do { (r, s) \<leftarrow> runcmd_loop commands argv m s; Some (r, m, s) }
   }"

end
