(* ===== verification/ConsoleProps.thy ===== *)
theory ConsoleProps
  imports Console
begin

section \<open>Console: the ring is a queue, lines are edited, commands are split\<close>

text \<open>
  The abstract state of the input buffer is the list of the characters that wait in it. What the serial port
  delivers up to the first empty poll is appended character by character; a full ring (511 characters) becomes an
  empty one, since the indices are then equal. \<open>readline\<close> is compared with an editor on lists, and \<open>parse\<close>
  with the split of a string into words.
\<close>

subsection \<open>The ring\<close>

definition ring_ok :: "cons \<Rightarrow> bool" where
  "ring_ok s \<longleftrightarrow> unat (crpos s) < CONSBUFSIZE \<and> unat (cwpos s) < CONSBUFSIZE"

definition ring_len :: "nat \<Rightarrow> nat \<Rightarrow> nat" where
  "ring_len r w = (if r \<le> w then w - r else w + 512 - r)"

definition ring :: "cons \<Rightarrow> byte list" where
  "ring s = map (\<lambda>i. cbuf s ((unat (crpos s) + i) mod 512)) [0..<ring_len (unat (crpos s)) (unat (cwpos s))]"

definition push :: "byte \<Rightarrow> byte list \<Rightarrow> byte list" where
  "push b q = (if length q = 511 then [] else q @ [b])"

lemma unat_succ_small: "unat w < 512 \<Longrightarrow> unat (w + 1 :: 32 word) = unat w + 1"
  by (subst unat_add_lem [THEN iffD1]) auto

definition nxt :: "nat \<Rightarrow> nat" where "nxt p = (if p + 1 = 512 then 0 else p + 1)"

lemma ring_len_push:
  assumes "r < 512" "w < 512"
  shows "ring_len r (nxt w) = (if ring_len r w = 511 then 0 else ring_len r w + 1)"
  using assms by (auto simp: ring_len_def nxt_def)

lemma ring_slot: "r < 512 \<Longrightarrow> w < 512 \<Longrightarrow> (r + ring_len r w) mod 512 = w"
  by (auto simp: ring_len_def)

lemma ring_other:
  assumes "r < 512" "w < 512" "i < ring_len r w"
  shows "(r + i) mod 512 \<noteq> w"
proof (cases "r + i < 512")
  case True
  then show ?thesis using assms by (auto simp: ring_len_def split: if_splits)
next
  case False
  then have "(r + i) mod 512 = r + i - 512"
    using assms by (subst mod_if) (auto simp: ring_len_def split: if_splits)
  then show ?thesis using assms False by (auto simp: ring_len_def split: if_splits)
qed

lemma cons_store_push:
  assumes "ring_ok s"
  shows "\<exists>f w. cons_store c s = Some (s\<lparr>cbuf := f, cwpos := w\<rparr>) \<and> ring_ok (s\<lparr>cbuf := f, cwpos := w\<rparr>) \<and>
    ring (s\<lparr>cbuf := f, cwpos := w\<rparr>) = push (word_of_int c) (ring s)"
proof -
  let ?r = "unat (crpos s)" and ?p = "unat (cwpos s)"
  let ?f = "(cbuf s)(?p := word_of_int c :: byte)"
  define w where "w = (if ?p + 1 = 512 then 0 else cwpos s + 1)"
  have b: "?r < 512" "?p < 512" using assms by (simp_all add: ring_ok_def CONSBUFSIZE_def)
  then have uw: "unat w = nxt ?p" by (simp add: w_def nxt_def unat_succ_small)
  have st: "cons_store c s = Some (s\<lparr>cbuf := ?f, cwpos := w\<rparr>)"
    using b by (simp add: cons_store_def CONSBUFSIZE_def w_def unat_succ_small Let_def)
  have "nxt ?p < 512" using b by (auto simp: nxt_def)
  then have ok: "ring_ok (s\<lparr>cbuf := ?f, cwpos := w\<rparr>)" using b uw by (simp add: ring_ok_def CONSBUFSIZE_def)
  have "ring (s\<lparr>cbuf := ?f, cwpos := w\<rparr>) = push (word_of_int c) (ring s)"
  proof (cases "ring_len ?r ?p = 511")
    case True
    then have "ring_len ?r (nxt ?p) = 0" using ring_len_push [OF b] by simp
    then show ?thesis using True uw by (simp add: ring_def push_def)
  next
    case False
    then have "ring_len ?r (nxt ?p) = ring_len ?r ?p + 1" using ring_len_push [OF b] by simp
    then show ?thesis using False uw ring_slot [OF b] ring_other [OF b]
      by (auto simp: ring_def push_def)
  qed
  with st ok show ?thesis by blast
qed

text \<open>What one poll of the serial port takes: the values before the first negative one, which goes too.\<close>

definition burst :: "int list \<Rightarrow> byte list" where
  "burst cs = map (\<lambda>c. word_of_int (if c = 127 then 8 else c)) (filter (\<lambda>c. c \<noteq> 0) (takeWhile (\<lambda>c. 0 \<le> c) cs))"

definition later :: "int list \<Rightarrow> int list" where
  "later cs = drop 1 (dropWhile (\<lambda>c. 0 \<le> c) cs)"

lemma burst_simps [simp]:
  "burst [] = []" "c < 0 \<Longrightarrow> burst (c # cs) = []" "burst (0 # cs) = burst cs"
  "0 < c \<Longrightarrow> burst (c # cs) = word_of_int (if c = 127 then 8 else c) # burst cs"
  by (simp_all add: burst_def)

lemma later_simps [simp]:
  "later [] = []" "c < 0 \<Longrightarrow> later (c # cs) = cs" "0 \<le> c \<Longrightarrow> later (c # cs) = later cs"
  by (simp_all add: later_def)

lemma cons_intr_serial:
  assumes "ring_ok s"
  shows "\<exists>f w. cons_intr serial_proc_data s = Some (s\<lparr>cbuf := f, cwpos := w, serial := later (serial s)\<rparr>) \<and>
    ring_ok (s\<lparr>cbuf := f, cwpos := w\<rparr>) \<and> ring (s\<lparr>cbuf := f, cwpos := w\<rparr>) = fold push (burst (serial s)) (ring s)"
  using assms
proof (induction "serial s" arbitrary: s)
  case Nil
  from Nil.hyps have "cons_intr serial_proc_data s = Some s"
    by (subst cons_intr.simps) (simp add: serial_proc_data_def sbi_console_getchar_def flip: Nil.hyps)
  then show ?case using Nil by (intro exI [of _ "cbuf s"] exI [of _ "cwpos s"]) (simp flip: Nil.hyps)
next
  case (Cons c cs)
  note s = Cons.hyps(2) [symmetric]
  let ?s1 = "s\<lparr>serial := cs\<rparr>"
  have r1: "ring_ok (t\<lparr>serial := cs\<rparr>) = ring_ok t" "ring (t\<lparr>serial := cs\<rparr>) = ring t" for t
    by (simp_all add: ring_ok_def ring_def)
  consider "c < 0" | "c = 0" | "0 < c" by linarith
  then show ?case
  proof cases
    case 1
    then have "cons_intr serial_proc_data s = Some ?s1"
      by (subst cons_intr.simps) (simp add: serial_proc_data_def sbi_console_getchar_def s)
    then show ?thesis using 1 Cons.prems s
      by (intro exI [of _ "cbuf s"] exI [of _ "cwpos s"]) simp
  next
    case 2
    then have e: "cons_intr serial_proc_data s = cons_intr serial_proc_data ?s1"
      by (subst cons_intr.simps) (simp add: serial_proc_data_def sbi_console_getchar_def s)
    from Cons.hyps(1) [of ?s1] Cons.prems obtain f w where
      "cons_intr serial_proc_data ?s1 = Some (s\<lparr>cbuf := f, cwpos := w, serial := later cs\<rparr>)"
      "ring_ok (?s1\<lparr>cbuf := f, cwpos := w\<rparr>)" "ring (?s1\<lparr>cbuf := f, cwpos := w\<rparr>) = fold push (burst cs) (ring s)"
      by (auto simp: r1)
    then show ?thesis using 2 s e
      by (intro exI [of _ f] exI [of _ w]) (simp add: ring_ok_def ring_def)
  next
    case 3
    define k where "k = (if c = 127 then 8 else c)"
    from cons_store_push [of ?s1 k] Cons.prems obtain f w where st:
      "cons_store k ?s1 = Some (?s1\<lparr>cbuf := f, cwpos := w\<rparr>)" "ring_ok (?s1\<lparr>cbuf := f, cwpos := w\<rparr>)"
      "ring (?s1\<lparr>cbuf := f, cwpos := w\<rparr>) = push (word_of_int k) (ring s)" by (auto simp: r1)
    let ?s2 = "?s1\<lparr>cbuf := f, cwpos := w\<rparr>"
    have e: "cons_intr serial_proc_data s = cons_intr serial_proc_data ?s2"
      using 3 st(1) by (subst cons_intr.simps) (auto simp: serial_proc_data_def sbi_console_getchar_def s k_def)
    from Cons.hyps(1) [of ?s2] st(2) obtain f' w' where
      "cons_intr serial_proc_data ?s2 = Some (s\<lparr>cbuf := f', cwpos := w', serial := later cs\<rparr>)"
      "ring_ok (?s2\<lparr>cbuf := f', cwpos := w'\<rparr>)" "ring (?s2\<lparr>cbuf := f', cwpos := w'\<rparr>) = fold push (burst cs) (ring ?s2)"
      by auto
    then show ?thesis using 3 s e st(3)
      by (intro exI [of _ f'] exI [of _ w']) (simp add: ring_ok_def ring_def k_def)
  qed
qed

text \<open>The characters that wait for \<open>cons_getc\<close>: the ring after the next poll.\<close>

definition typed :: "cons \<Rightarrow> byte list" where
  "typed s = fold push (burst (serial s)) (ring s)"

lemma ring_pop:
  assumes "ring_ok s" "crpos s \<noteq> cwpos s"
  defines "r \<equiv> (if unat (crpos s) + 1 = 512 then 0 else crpos s + 1)"
  shows "ring_ok (s\<lparr>crpos := r\<rparr>)" "ring s = cbuf s (unat (crpos s)) # ring (s\<lparr>crpos := r\<rparr>)"
proof -
  let ?r = "unat (crpos s)" and ?w = "unat (cwpos s)"
  have b: "?r < 512" "?w < 512" "?r \<noteq> ?w"
    using assms(1,2) by (simp_all add: ring_ok_def CONSBUFSIZE_def word_unat_eq_iff)
  have ur: "unat r = nxt ?r" using b by (simp add: r_def nxt_def unat_succ_small)
  then show "ring_ok (s\<lparr>crpos := r\<rparr>)" using b by (simp add: ring_ok_def CONSBUFSIZE_def nxt_def)
  have n: "ring_len ?r ?w = Suc (ring_len (nxt ?r) ?w)"
    using b by (auto simp: ring_len_def nxt_def)
  have m: "Suc (?r + i) mod 512 = (nxt ?r + i) mod 512" for i
    using b by (auto simp: nxt_def)
  show "ring s = cbuf s ?r # ring (s\<lparr>crpos := r\<rparr>)"
    unfolding ring_def using b ur n by (simp add: map_upt_Suc m del: upt_Suc)
qed

lemma ring_empty: "ring_ok s \<Longrightarrow> ring s = [] \<longleftrightarrow> crpos s = cwpos s"
  by (auto simp: ring_def ring_len_def ring_ok_def CONSBUFSIZE_def word_unat_eq_iff split: if_splits)

lemma cons_getc_spec:
  assumes "ring_ok s"
  shows "\<exists>f w r. cons_getc s = Some (case typed s of [] \<Rightarrow> 0 | b # _ \<Rightarrow> uint b,
      s\<lparr>cbuf := f, cwpos := w, crpos := r, serial := later (serial s)\<rparr>) \<and>
    ring_ok (s\<lparr>cbuf := f, cwpos := w, crpos := r\<rparr>) \<and>
    ring (s\<lparr>cbuf := f, cwpos := w, crpos := r\<rparr>) = tl (typed s)"
proof -
  from cons_intr_serial [OF assms] obtain f w where i:
    "cons_intr serial_proc_data s = Some (s\<lparr>cbuf := f, cwpos := w, serial := later (serial s)\<rparr>)"
    "ring_ok (s\<lparr>cbuf := f, cwpos := w\<rparr>)" "ring (s\<lparr>cbuf := f, cwpos := w\<rparr>) = typed s"
    unfolding typed_def by blast
  let ?s = "s\<lparr>cbuf := f, cwpos := w\<rparr>"
  show ?thesis
  proof (cases "crpos s = w")
    case True
    then have "typed s = []" using ring_empty [OF i(2)] i(3) by simp
    then show ?thesis using True i
      by (intro exI [of _ f] exI [of _ w] exI [of _ "crpos s"]) (simp add: cons_getc_def serial_intr_def ring_ok_def ring_def ring_len_def)
  next
    case False
    define r where "r = (if unat (crpos s) + 1 = 512 then 0 else crpos s + 1)"
    have b: "unat (crpos s) < 512" using assms by (simp add: ring_ok_def CONSBUFSIZE_def)
    have r: "(if unat (crpos ?s) + 1 = 512 then 0 else crpos ?s + 1) = r" by (simp add: r_def)
    have p: "ring_ok (?s\<lparr>crpos := r\<rparr>)" "typed s = f (unat (crpos s)) # ring (?s\<lparr>crpos := r\<rparr>)"
      using ring_pop [OF i(2)] False i(3) unfolding r by simp_all
    have "cons_getc s = Some (uint (f (unat (crpos s))),
        s\<lparr>cbuf := f, cwpos := w, crpos := r, serial := later (serial s)\<rparr>)"
      using False i(1) b by (auto simp: cons_getc_def serial_intr_def CONSBUFSIZE_def unat_succ_small r_def)
    with p show ?thesis by (intro exI [of _ f] exI [of _ w] exI [of _ r]) simp
  qed
qed

lemma cons_getc_dequeues_aux:
  assumes "ring_ok s"
  shows "\<exists>s'. cons_getc s = Some (case typed s of [] \<Rightarrow> 0 | b # _ \<Rightarrow> uint b, s') \<and> ring s' = tl (typed s) \<and>
    ring_ok s' \<and> serial s' = later (serial s) \<and> screen s' = screen s \<and> rlbuf s' = rlbuf s"
proof -
  from cons_getc_spec [OF assms] obtain f w r where
    g: "cons_getc s = Some (case typed s of [] \<Rightarrow> 0 | b # _ \<Rightarrow> uint b,
      s\<lparr>cbuf := f, cwpos := w, crpos := r, serial := later (serial s)\<rparr>)"
    "ring_ok (s\<lparr>cbuf := f, cwpos := w, crpos := r\<rparr>)"
    "ring (s\<lparr>cbuf := f, cwpos := w, crpos := r\<rparr>) = tl (typed s)" by blast
  show ?thesis
    by (rule exI [of _ "s\<lparr>cbuf := f, cwpos := w, crpos := r, serial := later (serial s)\<rparr>"])
      (use g in \<open>simp add: ring_ok_def ring_def\<close>)
qed

text \<open>C15: \<open>cons_getc\<close> is the dequeue of the queue of typed characters: it polls the serial port, returns the oldest
  character that waits, 0 when none does, and leaves the others in their order; characters are lost only when
  the ring overflows. Positions stay inside the buffer.\<close>

theorem cons_getc_dequeues:
  assumes "ring_ok s"
  shows "\<exists>s'. cons_getc s = Some (case typed s of [] \<Rightarrow> 0 | b # _ \<Rightarrow> uint b, s') \<and> ring s' = tl (typed s) \<and>
    ring_ok s' \<and> serial s' = later (serial s) \<and> screen s' = screen s \<and> rlbuf s' = rlbuf s"
  by (rule cons_getc_dequeues_aux [OF assms])

definition ex_console :: cons where
  "ex_console = \<lparr>cbuf = (\<lambda>_. 0), crpos = 510, cwpos = 510, serial = [97, 127, 0, 98, 10, - 1, 99], screen = [],
     rlbuf = (\<lambda>_. 0)\<rparr>"

theorem cons_getc_dequeues_witness:
  "\<exists>s'. cons_getc ex_console = Some (97, s') \<and> ring s' = [8, 98, 10] \<and> serial s' = [99] \<and> ring_ok s'"
proof -
  have ok: "ring_ok ex_console" by (simp add: ring_ok_def CONSBUFSIZE_def ex_console_def)
  have "typed ex_console = [97, 8, 98, 10]"
    by (simp add: typed_def burst_def ring_def ring_len_def push_def ex_console_def)
  with cons_getc_dequeues [OF ok] show ?thesis by (auto simp: later_def ex_console_def)
qed

text \<open>A burst that overflows: with the ring empty, 512 characters cancel out.\<close>

lemma fold_push_fits: "length q + length cs \<le> 511 \<Longrightarrow> fold push cs q = q @ cs"
  by (induction cs arbitrary: q) (simp_all add: push_def)

lemma fold_push_overflow: "length cs = 511 - length q \<Longrightarrow> length q \<le> 511 \<Longrightarrow> fold push (cs @ [c]) q = []"
  using fold_push_fits [of q cs] by (simp add: push_def)

subsection \<open>Line editing\<close>

text \<open>The reference: what the line becomes and what is echoed, character by character.\<close>

fun edit :: "byte list \<Rightarrow> byte list \<Rightarrow> byte list \<times> byte list" where
  "edit acc [] = (acc, [])"
| "edit acc (c # cs) =
     (if 32 \<le> c \<and> length acc < 1023 then (let (l, e) = edit (acc @ [c]) cs in (l, c # e))
      else if c = 8 \<and> acc \<noteq> [] then (let (l, e) = edit (butlast acc) cs in (l, [8, 32, 8] @ e))
      else edit acc cs)"

definition line_of :: "cons \<Rightarrow> nat \<Rightarrow> byte list" where
  "line_of s n = map (rlbuf s) [0..<n]"

lemma later_all: "\<forall>c \<in> set cs. 0 \<le> c \<Longrightarrow> later cs = []"
  by (simp add: later_def dropWhile_eq_Nil_conv [THEN iffD2])

lemma uint_ge_32: "(32 \<le> uint b) = (32 \<le> b)" for b :: byte
  by (simp add: word_le_def)

lemma uint_eq_nums: "(uint b = 8) = (b = 8)" "(uint b = 10) = (b = 10)" "(uint b = 13) = (b = 13)" "(uint b = 0) = (b = 0)"
  for b :: byte
  by (simp_all add: word_uint_eq_iff)

lemma cputchar_screen: "cputchar (uint b) s = s\<lparr>screen := screen s @ (if b = 8 then [8, 32, 8] else [b])\<rparr>"
  by (simp add: cputchar_def cons_putc_def serial_putc_def sbi_console_putchar_def uint_eq_nums)

text \<open>A character that waits is what \<open>getchar\<close> takes; a zero is skipped.\<close>

definition took :: "cons \<Rightarrow> cons \<Rightarrow> bool" where
  "took s s' \<longleftrightarrow> ring_ok s' \<and> serial s' = [] \<and> typed s' = tl (typed s) \<and> screen s' = screen s \<and> rlbuf s' = rlbuf s"

lemma getchar_takes:
  assumes "ring_ok s" "later (serial s) = []" "typed s = b # q"
  shows "\<exists>s'. took s s' \<and> getchar s = (if b = 0 then getchar s' else Some (uint b, s'))"
proof -
  obtain s' where "cons_getc s = Some (uint b, s')" "took s s'"
    using cons_getc_dequeues_aux [OF assms(1)] assms(2,3) by (auto simp: took_def typed_def [of s' for s'])
  then show ?thesis by (intro exI [of _ s']) (subst getchar.simps, simp add: uint_eq_nums)
qed

lemma readline_loop_edits:
  assumes "ring_ok s" "later (serial s) = []" "typed s = xs @ e # ys" "e = 10 \<or> e = 13" "10 \<notin> set xs" "13 \<notin> set xs"
    and "edit (line_of s i) xs = (l, out)" "i \<le> 1023"
  shows "\<exists>s'. readline_loop i s = Some (True, s') \<and> line_of s' (length l) = l \<and> rlbuf s' (length l) = 0 \<and>
    screen s' = screen s @ out @ [e] \<and> typed s' = ys \<and> ring_ok s'"
  using assms
proof (induction xs arbitrary: s i out)
  case Nil
  from getchar_takes [of s e ys] Nil obtain s' where t: "took s s'" "getchar s = Some (uint e, s')" by auto
  let ?s = "(cputchar (uint e) s')\<lparr>rlbuf := (rlbuf s')(i := 0)\<rparr>"
  have "readline_loop i s = Some (True, ?s)"
    using t(2) Nil.prems(4) by (subst readline_loop.simps) (auto simp: uint_eq_nums)
  moreover have "l = line_of s i" "out = []" using Nil.prems(7) by simp_all
  moreover have "length (line_of s i) = i" by (simp add: line_of_def)
  ultimately show ?case using t(1) Nil.prems(3,4)
    by (intro exI [of _ ?s])
      (auto simp: line_of_def took_def cputchar_screen typed_def ring_ok_def ring_def)
next
  case (Cons c xs)
  from getchar_takes [of s c "xs @ e # ys"] Cons.prems obtain s' where t: "took s s'"
    "getchar s = (if c = 0 then getchar s' else Some (uint c, s'))" by auto
  have ln: "length (line_of s i) = i" by (simp add: line_of_def)
  have s': "ring_ok s'" "later (serial s') = []" "typed s' = xs @ e # ys" "line_of s' j = line_of s j"
    "screen s' = screen s" "rlbuf s' = rlbuf s" for j
    using t(1) Cons.prems(3) by (simp_all add: took_def line_of_def)
  have eqs: "ring_ok (s'\<lparr>screen := a, rlbuf := f\<rparr>) = ring_ok s'" "typed (s'\<lparr>screen := a, rlbuf := f\<rparr>) = typed s'"
    "ring_ok (s'\<lparr>screen := a\<rparr>) = ring_ok s'" "typed (s'\<lparr>screen := a\<rparr>) = typed s'" for a f
    by (simp_all add: ring_ok_def typed_def ring_def)
  have c: "c \<noteq> 10" "c \<noteq> 13" using Cons.prems(5,6) by auto
  consider "c = 0" | "c \<noteq> 0" "32 \<le> c \<and> i < 1023" | "c = 8" "i > 0" | "c \<noteq> 0" "\<not> (32 \<le> c \<and> i < 1023)" "\<not> (c = 8 \<and> i > 0)"
    by auto
  then show ?case
  proof cases
    case 1
    then have "readline_loop i s = readline_loop i s'"
      using t(2) by (subst readline_loop.simps, subst readline_loop.simps [of i s']) simp
    moreover have "edit (line_of s' i) xs = (l, out)" using Cons.prems(7) 1 by (simp add: s'(4))
    ultimately show ?thesis using Cons.IH [of s' i out] s' Cons.prems by auto
  next
    case 2
    let ?t = "(cputchar (uint c) s')\<lparr>rlbuf := (rlbuf s')(i := c)\<rparr>"
    have nb: "c \<noteq> 8" using 2 by auto
    have "readline_loop i s = readline_loop (i + 1) ?t"
      using t(2) 2 by (subst readline_loop.simps) (simp add: uint_ge_32 RL_BUFSIZE_def)
    moreover obtain o' where "edit (line_of s i @ [c]) xs = (l, o')" "out = c # o'"
      using Cons.prems(7) 2 ln by (auto split: prod.splits)
    moreover have "line_of ?t (i + 1) = line_of s i @ [c]"
      by (simp add: line_of_def s'(6) cputchar_screen)
    ultimately show ?thesis using Cons.IH [of ?t "i + 1" o'] s' Cons.prems 2 nb
      by (simp add: cputchar_screen eqs)
  next
    case 3
    let ?t = "s'\<lparr>screen := screen s' @ [8, 32, 8]\<rparr>"
    have cp: "cputchar (uint c) s' = ?t" using 3 unfolding cputchar_screen by simp
    have "readline_loop i s = readline_loop (i - 1) ?t"
      using t(2) 3 unfolding cp [symmetric] by (subst readline_loop.simps) (simp add: uint_ge_32 RL_BUFSIZE_def)
    moreover obtain o' where "edit (butlast (line_of s i)) xs = (l, o')" "out = [8, 32, 8] @ o'"
      using Cons.prems(7) 3 ln by (cases "line_of s i = []") (auto split: prod.splits)
    moreover have "line_of ?t (i - 1) = butlast (line_of s i)"
      using s'(6) 3 unfolding line_of_def by (cases i) simp_all
    ultimately show ?thesis using Cons.IH [of ?t "i - 1" o'] s' Cons.prems 3
      by (simp add: eqs)
  next
    case 4
    have "readline_loop i s = readline_loop i s'"
      using t(2) 4 c by (subst readline_loop.simps) (auto simp: uint_ge_32 RL_BUFSIZE_def uint_eq_nums)
    moreover have "edit (line_of s' i) xs = (l, out)" using Cons.prems(7) 4 ln by (auto simp: s'(4))
    ultimately show ?thesis using Cons.IH [of s' i out] s' Cons.prems by auto
  qed
qed

lemma print_chars_plain: "print_chars False (- 1) w p = (p, w - int (length p))"
  by (induction p arbitrary: w) simp_all

lemma vprintfmt_string: "vprintfmt ''%s'' [VStr (Some p)] = Some p"
  by (simp add: convert_def pf0_def print_string_def print_chars_plain)

definition shown :: "byte \<Rightarrow> byte list" where
  "shown b = (if b = 8 then [8, 32, 8] else [b])"

lemma of_char_console: "word_of_int (of_char c) = (of_char c :: byte)" "(of_char c = (8 :: int)) = (of_char c = (8 :: byte))"
proof -
  show w: "word_of_int (of_char c) = (of_char c :: byte)" by (metis of_int_of_char)
  have "unat (of_nat (of_char c) :: byte) = of_char c"
    using nat_of_char_less_256 [of c] by (simp add: unat_of_nat take_bit_nat_eq_self del: of_nat_of_char)
  then have "uint (of_char c :: byte) = int (of_char c)" by (metis of_nat_of_char uint_nat)
  then show "(of_char c = (8 :: int)) = (of_char c = (8 :: byte))"
    using uint_eq_nums(1) [of "of_char c"] by (simp add: of_nat_of_char)
qed

lemma put_all_screen:
  "put_all cs n s = (n + int (length cs), s\<lparr>screen := screen s @ concat (map shown (bytes_of cs))\<rparr>)"
  by (induction cs arbitrary: n s)
    (simp_all add: cputch_def cons_putc_def serial_putc_def sbi_console_putchar_def of_char_console shown_def bytes_of_def)

text \<open>C16: when what waits in the console holds a line end, \<open>readline\<close> returns the line that the reference editor
  makes of the characters before it, terminated by a zero, after printing the prompt and echoing as the editor
  does; the characters behind the line end wait for the next call.\<close>

theorem readline_edits:
  assumes "ring_ok s" "\<forall>c \<in> set (serial s). 0 \<le> c" "typed s = xs @ e # ys" "e = 10 \<or> e = 13" "10 \<notin> set xs" "13 \<notin> set xs"
    and "edit [] xs = (l, out)"
  shows "\<exists>s'. readline (Some p) s = Some (True, s') \<and> line_of s' (length l) = l \<and> rlbuf s' (length l) = 0 \<and>
    screen s' = screen s @ concat (map shown (bytes_of p)) @ out @ [e] \<and> typed s' = ys \<and> ring_ok s'"
proof -
  let ?t = "s\<lparr>screen := screen s @ concat (map shown (bytes_of p))\<rparr>"
  have "readline (Some p) s = readline_loop 0 ?t"
    by (simp add: readline_def cprintf_def vcprintf_def vprintfmt_string put_all_screen del: vprintfmt.simps)
  moreover have "ring_ok ?t" "typed ?t = typed s" "later (serial ?t) = []" "line_of ?t 0 = []"
    using assms(1) later_all [OF assms(2)] by (simp_all add: ring_ok_def typed_def ring_def line_of_def)
  ultimately show ?thesis
    using readline_loop_edits [of ?t xs e ys 0 l out] assms by auto
qed

theorem readline_edits_witness:
  "\<exists>s'. readline (Some ''K> '') (ex_console\<lparr>serial := [97, 127, 98, 10, 99]\<rparr>) = Some (True, s') \<and>
     line_of s' 1 = [98] \<and> rlbuf s' 1 = 0 \<and> screen s' = [75, 62, 32, 97, 8, 32, 8, 98, 10] \<and> typed s' = [99]"
proof -
  let ?s = "ex_console\<lparr>serial := [97, 127, 98, 10, 99]\<rparr>"
  have ok: "ring_ok ?s" "\<forall>c \<in> set (serial ?s). 0 \<le> c" by (simp_all add: ring_ok_def CONSBUFSIZE_def ex_console_def)
  have ty: "typed ?s = [97, 8, 98] @ 10 # [99]"
    by (simp add: typed_def burst_def ring_def ring_len_def push_def ex_console_def)
  have ed: "edit [] [97, 8, 98] = ([98], [97, 8, 32, 8, 98])" by simp
  from readline_edits [OF ok ty _ _ _ ed, of "''K> ''"] show ?thesis
    by (auto simp: bytes_of_def shown_def ex_console_def)
qed

subsection \<open>Positions and results have their types\<close>

lemma cons_getc_typed:
  assumes "ring_ok s" "cons_getc s = Some (c, s')"
  shows "ring_ok s' \<and> 0 \<le> c \<and> c < 256"
proof -
  have u: "0 \<le> uint b \<and> uint b < 256" for b :: byte using uint_bounded [of b] by simp
  show ?thesis using cons_getc_dequeues_aux [OF assms(1)] assms(2) u by (auto split: list.splits)
qed

lemma getchar_typed:
  assumes "getchar s = Some r" "ring_ok s"
  shows "ring_ok (snd r) \<and> 0 < fst r \<and> fst r < 256"
proof -
  have "ring_ok s \<longrightarrow> ring_ok (snd r) \<and> 0 < fst r \<and> fst r < 256"
  proof (rule getchar.raw_induct [of "\<lambda>s r. ring_ok s \<longrightarrow> ring_ok (snd r) \<and> 0 < fst r \<and> fst r < 256", OF _ assms(1)])
    fix gc s r
    assume ih: "\<And>s r. gc s = Some r \<Longrightarrow> ring_ok s \<longrightarrow> ring_ok (snd r) \<and> 0 < fst r \<and> fst r < 256"
      and r: "Option.bind (cons_getc s) (\<lambda>(c, s). if c = 0 then gc s else Some (c, s)) = Some r"
    show "ring_ok s \<longrightarrow> ring_ok (snd r) \<and> 0 < fst r \<and> fst r < 256"
    proof
      assume ok: "ring_ok s"
      obtain c s' where g: "cons_getc s = Some (c, s')" using cons_getc_dequeues_aux [OF ok] by auto
      note t = cons_getc_typed [OF ok g]
      show "ring_ok (snd r) \<and> 0 < fst r \<and> fst r < 256"
      proof (cases "c = 0")
        case True
        then show ?thesis using ih [of s' r] r g t by simp
      next
        case False
        then show ?thesis using r g t by auto
      qed
    qed
  qed
  then show ?thesis using assms(2) by blast
qed

subsection \<open>Splitting a command into words\<close>

function words_of :: "byte list \<Rightarrow> byte list list" where
  "words_of [] = []"
| "words_of (b # bs) =
     (if is_ws b then words_of bs
      else (b # takeWhile (\<lambda>c. \<not> is_ws c) bs) # words_of (dropWhile (\<lambda>c. \<not> is_ws c) bs))"
  by pat_completeness auto
termination
  by (relation "measure length") (auto simp: length_dropWhile_le le_imp_less_Suc)

lemma parse_skip_blanks:
  assumes "cstr m a xs"
  shows "\<exists>m'. parse_skip a m = Some (a + length (takeWhile is_ws xs), m') \<and>
    cstr m' (a + length (takeWhile is_ws xs)) (dropWhile is_ws xs) \<and>
    (\<forall>b. b < a \<longrightarrow> m' b = m b) \<and> (takeWhile is_ws xs \<noteq> [] \<longrightarrow> m' a = Some 0)"
  using assms
proof (induction xs arbitrary: a m)
  case Nil
  then show ?case by (intro exI [of _ m]) (simp add: parse_skip.simps [of a])
next
  case (Cons x xs)
  show ?case
  proof (cases "is_ws x")
    case True
    let ?m = "m(a \<mapsto> 0)"
    have c: "cstr ?m (a + 1) xs" using Cons.prems by (subst cstr_cong [where m = m]) auto
    have e: "parse_skip a m = parse_skip (a + 1) ?m"
      using Cons.prems True by (subst parse_skip.simps) (simp add: wr_Some)
    from Cons.IH [OF c] obtain m' where
      "parse_skip (a + 1) ?m = Some (a + 1 + length (takeWhile is_ws xs), m')"
      "cstr m' (a + 1 + length (takeWhile is_ws xs)) (dropWhile is_ws xs)" "\<forall>b. b < a + 1 \<longrightarrow> m' b = ?m b" by blast
    then show ?thesis using e True by (intro exI [of _ m']) auto
  next
    case False
    then show ?thesis using Cons.prems by (intro exI [of _ m]) (simp add: parse_skip.simps [of a])
  qed
qed

lemma parse_word_end:
  "cstr m a xs \<Longrightarrow> parse_word a m = Some (a + length (takeWhile (\<lambda>c. \<not> is_ws c) xs))"
  by (induction xs arbitrary: a) (simp_all add: parse_word.simps [of _ m])

lemma words_of_skip: "words_of (dropWhile is_ws xs) = words_of xs"
  by (induction xs) simp_all

lemma cstr_append: "cstr m a (xs @ ys) \<longleftrightarrow> 0 \<notin> set xs \<and> (\<forall>i < length xs. m (a + i) = Some (xs ! i)) \<and> cstr m (a + length xs) ys"
proof (induction xs arbitrary: a)
  case (Cons x xs)
  have "(\<forall>i < length (x # xs). m (a + i) = Some ((x # xs) ! i)) \<longleftrightarrow>
      m a = Some x \<and> (\<forall>i < length xs. m (a + 1 + i) = Some (xs ! i))"
    by (auto simp: less_Suc_eq_0_disj)
  then show ?case using Cons.IH [of "a + 1"] by auto
qed simp

lemma too_many_args_returns: "\<exists>s'. too_many_args s = Some s'"
proof -
  have "\<exists>out. vprintfmt (''Too many arguments (max %d).'' @ [CHR 0x0A]) [VInt (of_nat MAXARGS)] = Some out"
    by (simp add: MAXARGS_def convert_def pf0_def number_def printnum.simps digit_char_def)
  then show ?thesis by (auto simp: too_many_args_def cprintf_def vcprintf_def put_all_screen simp del: vprintfmt.simps)
qed

lemma parse_loop_words:
  assumes "cstr m a xs" "length argv + length (words_of xs) \<le> MAXARGS"
  shows "\<exists>ps m' s'. parse_loop a argv m s = Some (argv @ ps, m', s') \<and> list_all2 (cstr m') ps (words_of xs) \<and>
    (\<forall>b. b < a \<longrightarrow> m' b = m b) \<and> (xs = [] \<or> is_ws (hd xs) \<longrightarrow> m' a = Some 0)"
  using assms
proof (induction "length xs" arbitrary: xs a argv s m rule: less_induct)
  case less
  define k where "k = length (takeWhile is_ws xs)"
  from parse_skip_blanks [OF less.prems(1)] obtain m1 where sk: "parse_skip a m = Some (a + k, m1)"
    "cstr m1 (a + k) (dropWhile is_ws xs)" "\<forall>b. b < a \<longrightarrow> m1 b = m b" "k \<noteq> 0 \<longrightarrow> m1 a = Some 0"
    by (auto simp: k_def)
  show ?case
  proof (cases "dropWhile is_ws xs")
    case Nil
    then have "words_of xs = []" by (metis words_of.simps(1) words_of_skip)
    moreover have "m1 (a + k) = Some 0" using sk(2) Nil by simp
    ultimately show ?thesis using sk
      by (intro exI [of _ "[]"] exI [of _ m1] exI [of _ s]) (auto simp: parse_loop.simps [of a])
  next
    case (Cons x rest)
    let ?nw = "\<lambda>c. \<not> is_ws c"
    have x: "\<not> is_ws x" using Cons by (metis hd_dropWhile list.sel(1) list.distinct(1))
    define wd where "wd = x # takeWhile ?nw rest"
    define ys where "ys = dropWhile ?nw rest"
    have spl: "dropWhile is_ws xs = wd @ ys" using Cons by (simp add: wd_def ys_def)
    have ws: "words_of xs = wd # words_of ys"
      using words_of_skip [of xs] x by (simp add: Cons wd_def ys_def)
    have m1: "m1 (a + k) = Some x" "x \<noteq> 0" using sk(2) Cons by auto
    let ?e = "a + k + length wd"
    have pw: "parse_word (a + k) m1 = Some ?e" using parse_word_end [OF sk(2)] Cons x by (simp add: wd_def)
    have cy: "cstr m1 ?e ys" "0 \<notin> set wd" "\<forall>i < length wd. m1 (a + k + i) = Some (wd ! i)"
      using sk(2) unfolding spl cstr_append by auto
    have la: "length argv < MAXARGS" using less.prems(2) ws by simp
    obtain s1 where s1: "(if length argv = MAXARGS - 1 then too_many_args s else Some s) = Some s1"
      using too_many_args_returns [of s] by (cases "length argv = MAXARGS - 1") auto
    have e: "parse_loop a argv m s = parse_loop ?e (argv @ [a + k]) m1 s1"
      using sk(1) m1 la pw s1 by (subst parse_loop.simps) simp
    have sh: "length ys < length xs"
      using length_dropWhile_le [of is_ws xs] spl by (simp add: wd_def)
    have fit: "length (argv @ [a + k]) + length (words_of ys) \<le> MAXARGS" using less.prems(2) ws by simp
    obtain ps m' s' where r: "parse_loop ?e (argv @ [a + k]) m1 s1 = Some ((argv @ [a + k]) @ ps, m', s')"
      "list_all2 (cstr m') ps (words_of ys)" "\<forall>b. b < ?e \<longrightarrow> m' b = m1 b" "ys = [] \<or> is_ws (hd ys) \<longrightarrow> m' ?e = Some 0"
      using less.hyps [OF sh cy(1) fit, of s1] by blast
    have "ys = [] \<or> is_ws (hd ys)" unfolding ys_def by (metis hd_dropWhile)
    then have z: "m' ?e = Some 0" using r(4) by blast
    have "cstr m' (a + k) wd" using cy(2,3) r(3) z by (simp add: cstr_iff)
    moreover have "m' a = Some 0" if "xs = [] \<or> is_ws (hd xs)"
    proof -
      have "k \<noteq> 0" using that Cons by (cases xs) (auto simp: k_def)
      then show ?thesis using sk(4) r(3) by (simp add: wd_def)
    qed
    ultimately show ?thesis using e r ws sk(3)
      by (intro exI [of _ "(a + k) # ps"] exI [of _ m'] exI [of _ s']) (auto simp: wd_def)
  qed
qed

lemma parse_loop_overflow:
  assumes "cstr m a xs" "length argv + length (words_of xs) > MAXARGS" "length argv \<le> MAXARGS"
  shows "parse_loop a argv m s = None"
  using assms
proof (induction "length xs" arbitrary: xs a argv s m rule: less_induct)
  case less
  define k where "k = length (takeWhile is_ws xs)"
  from parse_skip_blanks [OF less.prems(1)] obtain m1 where sk: "parse_skip a m = Some (a + k, m1)"
    "cstr m1 (a + k) (dropWhile is_ws xs)" by (auto simp: k_def)
  obtain x rest where c: "dropWhile is_ws xs = x # rest"
    using less.prems(2,3) words_of_skip [of xs] by (cases "dropWhile is_ws xs") auto
  have x: "\<not> is_ws x" using c by (metis hd_dropWhile list.sel(1) list.distinct(1))
  define wd where "wd = x # takeWhile (\<lambda>c. \<not> is_ws c) rest"
  define ys where "ys = dropWhile (\<lambda>c. \<not> is_ws c) rest"
  have spl: "dropWhile is_ws xs = wd @ ys" using c by (simp add: wd_def ys_def)
  have ws: "words_of xs = wd # words_of ys" using words_of_skip [of xs] x by (simp add: c wd_def ys_def)
  have m1: "m1 (a + k) = Some x" "x \<noteq> 0" using sk(2) c by auto
  have pw: "parse_word (a + k) m1 = Some (a + k + length wd)" using parse_word_end [OF sk(2)] c x by (simp add: wd_def)
  have cy: "cstr m1 (a + k + length wd) ys" using sk(2) unfolding spl cstr_append by auto
  show ?case
  proof (cases "length argv < MAXARGS")
    case True
    have "length ys < length xs" using length_dropWhile_le [of is_ws xs] spl by (simp add: wd_def)
    from less.hyps [OF this cy, of "argv @ [a + k]"] True less.prems(2) ws
    show ?thesis using sk(1) m1 pw too_many_args_returns [of s] by (subst parse_loop.simps) auto
  next
    case False
    then show ?thesis using sk(1) m1 by (subst parse_loop.simps) simp
  qed
qed

text \<open>C39: on a string of at most 16 words \<open>parse\<close> returns one pointer for each word, in their order, and the string
  at each is that word; with more words it writes behind the array of the arguments.\<close>

theorem parse_splits_words:
  assumes "cstr m a xs"
  shows "(length (words_of xs) \<le> 16 \<and> (\<exists>argv m' s'. parse a m s = Some (argv, m', s') \<and> list_all2 (cstr m') argv (words_of xs))) \<or>
    (length (words_of xs) > 16 \<and> parse a m s = None)"
proof (cases "length (words_of xs) \<le> 16")
  case True
  with parse_loop_words [OF assms, of "[]" s] show ?thesis by (auto simp: parse_def MAXARGS_def)
next
  case False
  with parse_loop_overflow [OF assms, of "[]" s] show ?thesis by (auto simp: parse_def MAXARGS_def)
qed

definition ex_cmd :: cmem where
  "ex_cmd = [5 \<mapsto> 32, 6 \<mapsto> 104, 7 \<mapsto> 105, 8 \<mapsto> 9, 9 \<mapsto> 120, 10 \<mapsto> 0]"

theorem parse_splits_words_witness:
  "\<exists>argv m' s'. parse 5 ex_cmd ex_console = Some (argv, m', s') \<and> list_all2 (cstr m') argv [[104, 105], [120]]"
proof -
  have c: "cstr ex_cmd 5 [32, 104, 105, 9, 120]" by (simp add: ex_cmd_def)
  have "words_of [32, 104, 105, 9, 120] = [[104, 105], [120]]" by (simp add: is_ws_def WHITESPACE_def)
  with parse_splits_words [OF c] show ?thesis by simp
qed

end
