(* ===== verification/Shell.thy ===== *)
theory Shell
  imports ConsoleProps Vfs
begin

section \<open>The shell (user/sh.c) and the user library it is built on\<close>

text \<open>
  A user program sees the kernel through its system calls. They are values of \<open>ucall\<close>; the kernel is the argument
  \<open>os\<close>, which answers a call from the calls made so far, so that a theorem for every \<open>os\<close> holds whatever the kernel
  does. \<open>fork\<close> returns once, with what \<open>os\<close> answers: a run of the model is the run of one process. The result of a
  program is the value it exits with; after a successful \<open>exec\<close> the model goes on as the code would if the call
  returned. The input line lies at \<open>SH_BUFFER\<close>, names are passed to the kernel as strings.
\<close>

subsection \<open>System calls (user/libs)\<close>

datatype ucall =
    UPutc int
  | UOpen string "32 word"
  | UClose int
  | URead int nat
  | UWrite int string
  | UDup int int
  | UFork
  | UWait int
  | UExec string "string list"
  | UExit int

record answer =
  ans_ret :: int
  ans_bytes :: "byte list"
  ans_code :: int

type_synonym os = "(ucall \<times> int) list \<Rightarrow> ucall \<Rightarrow> answer"

record ush =
  umem :: cmem
  shcwd :: string
  ucalls :: "(ucall \<times> int) list"

definition usyscall :: "os \<Rightarrow> ucall \<Rightarrow> ush \<Rightarrow> answer \<times> ush" where
  "usyscall os c s = (let a = os (ucalls s) c in (a, s\<lparr>ucalls := ucalls s @ [(c, ans_ret a)]\<rparr>))"

definition ucall_ret :: "os \<Rightarrow> ucall \<Rightarrow> ush \<Rightarrow> int \<times> ush" where
  "ucall_ret os c s = (let (a, s) = usyscall os c s in (ans_ret a, s))"

definition u_open :: "os \<Rightarrow> string \<Rightarrow> 32 word \<Rightarrow> ush \<Rightarrow> int \<times> ush" where
  "u_open os path open_flags s = ucall_ret os (UOpen path open_flags) s"

definition u_close :: "os \<Rightarrow> int \<Rightarrow> ush \<Rightarrow> int \<times> ush" where
  "u_close os d s = ucall_ret os (UClose d) s"

definition u_read :: "os \<Rightarrow> int \<Rightarrow> nat \<Rightarrow> ush \<Rightarrow> answer \<times> ush" where
  "u_read os d len s = usyscall os (URead d len) s"

definition u_write :: "os \<Rightarrow> int \<Rightarrow> string \<Rightarrow> ush \<Rightarrow> int \<times> ush" where
  "u_write os d bs s = ucall_ret os (UWrite d bs) s"

definition u_dup2 :: "os \<Rightarrow> int \<Rightarrow> int \<Rightarrow> ush \<Rightarrow> int \<times> ush" where
  "u_dup2 os fd1 fd2 s = ucall_ret os (UDup fd1 fd2) s"

definition u_fork :: "os \<Rightarrow> ush \<Rightarrow> int \<times> ush" where
  "u_fork os s = ucall_ret os UFork s"

text \<open>The exit code of the child is what the kernel stores; it stores none where \<open>waitpid\<close> is given \<open>NULL\<close>.\<close>

definition u_waitpid :: "os \<Rightarrow> int \<Rightarrow> ush \<Rightarrow> answer \<times> ush" where
  "u_waitpid os child s = usyscall os (UWait child) s"

definition u_exec :: "os \<Rightarrow> string \<Rightarrow> string list \<Rightarrow> ush \<Rightarrow> int \<times> ush" where
  "u_exec os nm argv s = ucall_ret os (UExec nm argv) s"

subsection \<open>Output (user/libs/stdio.c)\<close>

definition u_cputch :: "os \<Rightarrow> char \<Rightarrow> int \<Rightarrow> ush \<Rightarrow> int \<times> ush" where
  "u_cputch os c n s = (let (_, s) = ucall_ret os (UPutc (of_char c)) s in (n + 1, s))"

fun u_cputs_loop :: "os \<Rightarrow> string \<Rightarrow> int \<Rightarrow> ush \<Rightarrow> int \<times> ush" where
  "u_cputs_loop os [] n s = (n, s)"
| "u_cputs_loop os (c # cs) n s = (let (n, s) = u_cputch os c n s in u_cputs_loop os cs n s)"

definition u_cputs :: "os \<Rightarrow> string \<Rightarrow> ush \<Rightarrow> int \<times> ush" where
  "u_cputs os str s = (let (n, s) = u_cputs_loop os str 0 s in u_cputch os (CHR 0x0A) n s)"

definition fputch :: "os \<Rightarrow> int \<Rightarrow> char \<Rightarrow> int \<Rightarrow> ush \<Rightarrow> int \<times> ush" where
  "fputch os d c n s = (let (_, s) = u_write os d [c] s in (n + 1, s))"

fun fput_all :: "os \<Rightarrow> int \<Rightarrow> string \<Rightarrow> int \<Rightarrow> ush \<Rightarrow> int \<times> ush" where
  "fput_all os d [] n s = (n, s)"
| "fput_all os d (c # cs) n s = (let (n, s) = fputch os d c n s in fput_all os d cs n s)"

definition vfprintf :: "os \<Rightarrow> int \<Rightarrow> string \<Rightarrow> varg list \<Rightarrow> ush \<Rightarrow> (int \<times> ush) option" where
  "vfprintf os d fmt ap s = do { out \<leftarrow> vprintfmt fmt ap; Some (fput_all os d out 0 s) }"

definition fprintf :: "os \<Rightarrow> int \<Rightarrow> string \<Rightarrow> varg list \<Rightarrow> ush \<Rightarrow> (int \<times> ush) option" where
  "fprintf os d fmt ap s = vfprintf os d fmt ap s"

definition sh_printf :: "os \<Rightarrow> string \<Rightarrow> varg list \<Rightarrow> ush \<Rightarrow> ush option" where
  "sh_printf os fmt ap s = do { (_, s) \<leftarrow> fprintf os 1 fmt ap s; Some s }"

definition sh_putc :: "os \<Rightarrow> byte \<Rightarrow> ush \<Rightarrow> ush option" where
  "sh_putc os c s = sh_printf os ''%c'' [VInt (ucast c)] s"

subsection \<open>Tokens\<close>

definition SH_BUFSIZE :: nat where "SH_BUFSIZE = 4096"
definition SYMBOLS :: "byte list" where "SYMBOLS = [60, 124, 62, 38, 59]"
definition EXEC_MAX_ARG_NUM :: nat where "EXEC_MAX_ARG_NUM = 32"

definition is_sym :: "byte \<Rightarrow> bool" where
  "is_sym b \<longleftrightarrow> b \<in> set SYMBOLS"

text \<open>\<open>strchr\<close> does not find the terminator. The blanks are those of the kernel monitor.\<close>

partial_function (option) gettoken_skip :: "nat \<Rightarrow> cmem \<Rightarrow> (nat \<times> cmem) option" where
  "gettoken_skip s m = do {
     b \<leftarrow> m s;
     if b \<noteq> 0 \<and> is_ws b then do { m \<leftarrow> wr s 0 m; gettoken_skip (s + 1) m } else Some (s, m)
   }"

partial_function (option) gettoken_word :: "bool \<Rightarrow> nat \<Rightarrow> cmem \<Rightarrow> (nat \<times> cmem) option" where
  "gettoken_word flag s m = do {
     b \<leftarrow> m s;
     if b \<noteq> 0 \<and> (flag \<or> \<not> (is_ws b \<or> is_sym b)) then
       if b = 34 then do { m \<leftarrow> wr s 32 m; gettoken_word (\<not> flag) (s + 1) m }
       else gettoken_word flag (s + 1) m
     else Some (s, m)
   }"

declare gettoken_skip.simps [code] gettoken_word.simps [code]

definition rest_ptr :: "nat \<Rightarrow> cmem \<Rightarrow> nat option option" where
  "rest_ptr s m = do { b \<leftarrow> m s; Some (if b \<noteq> 0 then Some s else None) }"

definition gettoken :: "nat option \<Rightarrow> nat \<Rightarrow> cmem \<Rightarrow> (byte \<times> nat option \<times> nat \<times> cmem) option" where
  "gettoken p1 p2 m = (case p1 of
     None \<Rightarrow> Some (0, p1, p2, m)
   | Some s \<Rightarrow> do {
       (s, m) \<leftarrow> gettoken_skip s m;
       b \<leftarrow> m s;
       if b = 0 then Some (0, p1, p2, m)
       else if is_sym b then do {
         m \<leftarrow> wr s 0 m;
         p1 \<leftarrow> rest_ptr (s + 1) m;
         Some (b, p1, s, m)
       } else do {
         (e, m) \<leftarrow> gettoken_word False s m;
         p1 \<leftarrow> rest_ptr e m;
         Some (119, p1, s, m)
       }
     })"

subsection \<open>Lines\<close>

definition SH_BUFFER :: nat where "SH_BUFFER = 4096"

definition set_buffer :: "nat \<Rightarrow> byte \<Rightarrow> ush \<Rightarrow> ush option" where
  "set_buffer i b s = do { assert_c (i < SH_BUFSIZE); m \<leftarrow> wr (SH_BUFFER + i) b (umem s); Some (s\<lparr>umem := m\<rparr>) }"

partial_function (option) sh_readline_loop :: "os \<Rightarrow> nat \<Rightarrow> ush \<Rightarrow> (nat option \<times> ush) option" where
  "sh_readline_loop os i s = (let (a, s) = u_read os 0 1 s in
     if ans_ret a < 0 then Some (None, s)
     else if ans_ret a = 0 then
       if i > 0 then do { s \<leftarrow> set_buffer i 0 s; Some (Some SH_BUFFER, s) } else Some (None, s)
     else do {
       assert_c (ans_bytes a \<noteq> []);
       let c = hd (ans_bytes a);
       if c = 3 then Some (None, s)
       else if c \<ge> 32 \<and> i < SH_BUFSIZE - 1 then do {
         s \<leftarrow> sh_putc os c s;
         s \<leftarrow> set_buffer i c s;
         sh_readline_loop os (i + 1) s
       }
       else if c = 8 \<and> i > 0 then do { s \<leftarrow> sh_putc os c s; sh_readline_loop os (i - 1) s }
       else if c = 10 \<or> c = 13 then do {
         s \<leftarrow> sh_putc os c s;
         s \<leftarrow> set_buffer i 0 s;
         Some (Some SH_BUFFER, s)
       }
       else sh_readline_loop os i s
     })"

declare sh_readline_loop.simps [code]

definition sh_readline :: "os \<Rightarrow> string option \<Rightarrow> ush \<Rightarrow> (nat option \<times> ush) option" where
  "sh_readline os prompt s = do {
     s \<leftarrow> (case prompt of None \<Rightarrow> Some s | Some p \<Rightarrow> sh_printf os ''%s'' [VStr (Some p)] s);
     sh_readline_loop os 0 s
   }"

definition usage :: "os \<Rightarrow> ush \<Rightarrow> ush option" where
  "usage os s = sh_printf os (''usage: sh [command-file]'' @ [CHR 0x0A]) [] s"

subsection \<open>Commands\<close>

definition reopen :: "os \<Rightarrow> int \<Rightarrow> string \<Rightarrow> 32 word \<Rightarrow> ush \<Rightarrow> int \<times> ush" where
  "reopen os fd2 filename open_flags s =
     (let (_, s) = u_close os fd2 s;
          (ret, s) = u_open os filename open_flags s;
          (ret, s) = (if ret \<ge> 0 \<and> ret \<noteq> fd2 then
              (let (_, s) = u_close os fd2 s;
                   fd1 = ret;
                   (ret, s) = u_dup2 os fd1 fd2 s;
                   (_, s) = u_close os fd1 s
               in (ret, s))
            else (ret, s))
      in (if ret < 0 then ret else 0, s))"

definition testfile :: "os \<Rightarrow> string \<Rightarrow> ush \<Rightarrow> int \<times> ush" where
  "testfile os nm s =
     (let (ret, s) = u_open os nm O_RDONLY s
      in if ret < 0 then (ret, s) else (let (_, s) = u_close os ret s in (0, s)))"

fun strings_at :: "cmem \<Rightarrow> nat list \<Rightarrow> string list option" where
  "strings_at m [] = Some []"
| "strings_at m (a # as) = do { x \<leftarrow> string_at m a; xs \<leftarrow> strings_at m as; Some (x # xs) }"

definition runit :: "os \<Rightarrow> nat list \<Rightarrow> ush \<Rightarrow> (int \<times> ush) option" where
  "runit os argv s =
     (if argv = [] then Some (0, s)
      else do {
        arg0 \<leftarrow> string_at (umem s) (hd argv);
        if arg0 = ''cd'' then
          if length argv \<noteq> 2 then Some (- 1, s)
          else do { dir \<leftarrow> string_at (umem s) (argv ! 1); Some (0, s\<lparr>shcwd := dir\<rparr>) }
        else do {
          let (ret, s) = testfile os arg0 s;
          if ret \<noteq> 0 \<and> ret \<noteq> - E_NOENT then Some (ret, s)
          else do {
            nm \<leftarrow> (if ret \<noteq> 0 then do { (out, _) \<leftarrow> snprintf False SH_BUFSIZE ''/%s'' [VStr (Some arg0)]; Some (butlast out) }
                  else Some arg0);
            args \<leftarrow> strings_at (umem s) (tl argv);
            Some (u_exec os nm (nm # args) s)
          }
        }
      })"

text \<open>
  \<open>again\<close> is the call with no argument and the rest of the line. The array \<open>p\<close> is never written, since the call of
  \<open>pipe\<close> is commented out: reading it in the branch of \<open>|\<close> is undefined.
\<close>

definition pipe_branch :: "os \<Rightarrow> ush \<Rightarrow> (int \<times> ush) option" where
  "pipe_branch os s =
     (let (ret, s) = u_fork os s
      in if ret < 0 then Some (ret, s) else None)"

partial_function (option) sh_runcmd_loop :: "os \<Rightarrow> nat option \<Rightarrow> nat \<Rightarrow> nat list \<Rightarrow> ush \<Rightarrow> (int \<times> ush) option" where
  "sh_runcmd_loop os cmd t argv s = do {
     (token, cmd, t, m) \<leftarrow> gettoken cmd t (umem s);
     let s = s\<lparr>umem := m\<rparr>;
     if token = 119 then
       if length argv = EXEC_MAX_ARG_NUM then do {
         s \<leftarrow> sh_printf os (''sh error: too many arguments'' @ [CHR 0x0A]) [] s;
         Some (- 1, s)
       } else sh_runcmd_loop os cmd t (argv @ [t]) s
     else if token = 60 then do {
       (token, cmd, t, m) \<leftarrow> gettoken cmd t (umem s);
       let s = s\<lparr>umem := m\<rparr>;
       if token \<noteq> 119 then do {
         s \<leftarrow> sh_printf os (''sh error: syntax error: < not followed by word'' @ [CHR 0x0A]) [] s;
         Some (- 1, s)
       } else do {
         nm \<leftarrow> string_at (umem s) t;
         let (ret, s) = reopen os 0 nm O_RDONLY s;
         if ret \<noteq> 0 then Some (ret, s) else sh_runcmd_loop os cmd t argv s
       }
     }
     else if token = 62 then do {
       (token, cmd, t, m) \<leftarrow> gettoken cmd t (umem s);
       let s = s\<lparr>umem := m\<rparr>;
       if token \<noteq> 119 then do {
         s \<leftarrow> sh_printf os (''sh error: syntax error: > not followed by word'' @ [CHR 0x0A]) [] s;
         Some (- 1, s)
       } else do {
         nm \<leftarrow> string_at (umem s) t;
         let (ret, s) = reopen os 1 nm (O_RDWR OR O_TRUNC OR O_CREAT) s;
         if ret \<noteq> 0 then Some (ret, s) else sh_runcmd_loop os cmd t argv s
       }
     }
     else if token = 124 then pipe_branch os s
     else if token = 0 then runit os argv s
     else if token = 59 then do {
       let (ret, s) = u_fork os s;
       if ret = 0 then runit os argv s
       else if ret < 0 then Some (ret, s)
       else do {
         let (_, s) = u_waitpid os ret s;
         sh_runcmd_loop os cmd t [] s
       }
     }
     else do {
       s \<leftarrow> sh_printf os (''sh error: bad return %d from gettoken'' @ [CHR 0x0A]) [VInt (ucast token)] s;
       Some (- 1, s)
     }
   }"

declare sh_runcmd_loop.simps [code]

definition sh_runcmd :: "os \<Rightarrow> nat \<Rightarrow> ush \<Rightarrow> (int \<times> ush) option" where
  "sh_runcmd os cmd s = sh_runcmd_loop os (Some cmd) 0 [] s"

subsection \<open>The program\<close>

text \<open>The result of \<open>main\<close>, or the argument of \<open>exit\<close> in a child.\<close>

partial_function (option) sh_loop :: "os \<Rightarrow> bool \<Rightarrow> ush \<Rightarrow> (int \<times> ush) option" where
  "sh_loop os interactive s = do {
     (buffer, s) \<leftarrow> sh_readline os (if interactive then Some ''$ '' else None) s;
     case buffer of None \<Rightarrow> Some (0, s)
     | Some buffer \<Rightarrow> do {
         let s = s\<lparr>shcwd := []\<rparr>;
         let (child, s) = u_fork os s;
         if child = 0 then do {
           (ret, s) \<leftarrow> sh_runcmd os buffer s;
           let (_, s) = ucall_ret os (UExit ret) s;
           Some (ret, s)
         } else do {
           assert_c (child \<ge> 0);
           let (a, s) = u_waitpid os child s;
           if ans_ret a = 0 then do {
             let ret = (if ans_code a = 0 \<and> shcwd s \<noteq> [] then 0 else ans_code a);
             s \<leftarrow> (if ret \<noteq> 0 then sh_printf os (''error: %d - %e'' @ [CHR 0x0A]) [VInt (word_of_int ret), VInt (word_of_int ret)] s
                  else Some s);
             sh_loop os interactive s
           } else sh_loop os interactive s
         }
       }
   }"

declare sh_loop.simps [code]

definition sh_main :: "os \<Rightarrow> string list \<Rightarrow> ush \<Rightarrow> (int \<times> ush) option" where
  "sh_main os argv s = do {
     let (_, s) = u_cputs os ''user sh is running!!!'' s;
     if length argv = 2 then do {
       let (ret, s) = reopen os 0 (argv ! 1) O_RDONLY s;
       if ret \<noteq> 0 then Some (ret, s) else sh_loop os False s
     }
     else if length argv > 2 then do { s \<leftarrow> usage os s; Some (- 1, s) }
     else sh_loop os True s
   }"

subsection \<open>Start of a program (user/libs/umain.c)\<close>

text \<open>\<open>ret\<close> is read without having been set when the descriptor is already the wanted one.\<close>

definition initfd :: "os \<Rightarrow> int \<Rightarrow> string \<Rightarrow> 32 word \<Rightarrow> ush \<Rightarrow> (int \<times> ush) option" where
  "initfd os fd2 path open_flags s =
     (let (fd1, s) = u_open os path open_flags s
      in if fd1 < 0 then Some (fd1, s)
         else if fd1 \<noteq> fd2 then
           (let (_, s) = u_close os fd2 s;
                (ret, s) = u_dup2 os fd1 fd2 s;
                (_, s) = u_close os fd1 s
            in Some (ret, s))
         else None)"

end
