(* ===== verification/ShellProps.thy ===== *)
theory ShellProps
  imports Shell
begin

section \<open>Shell: tokens, simple commands, redirections\<close>

text \<open>
  \<open>gettoken\<close> is compared with the split of a list: the token, its text and what follows. A command of words only
  ends in one \<open>exec\<close> with exactly the words as arguments; the name behind a redirection is not terminated when it
  is used.
\<close>

subsection \<open>Tokens\<close>

definition in_word :: "byte \<Rightarrow> bool" where
  "in_word b \<longleftrightarrow> \<not> (is_ws b \<or> is_sym b)"

definition next_token :: "byte list \<Rightarrow> byte \<times> byte list \<times> byte list" where
  "next_token xs = (case dropWhile is_ws xs of
     [] \<Rightarrow> (0, [], [])
   | x # r \<Rightarrow> if is_sym x then (x, [], r) else (119, takeWhile in_word (x # r), dropWhile in_word (x # r)))"

lemma is_sym_not: "is_sym x \<Longrightarrow> x \<noteq> 119 \<and> x \<noteq> 0 \<and> \<not> is_ws x"
  by (auto simp: is_sym_def SYMBOLS_def is_ws_def WHITESPACE_def)

lemma gettoken_skip_parse: "cstr m a xs \<Longrightarrow> gettoken_skip a m = parse_skip a m"
proof (induction xs arbitrary: a m)
  case Nil
  then show ?case by (simp add: gettoken_skip.simps [of a] parse_skip.simps [of a])
next
  case (Cons x xs)
  have "cstr (m(a \<mapsto> 0)) (a + 1) xs" using Cons.prems by (subst cstr_cong [where m = m]) auto
  from Cons.IH [OF this] have ih: "gettoken_skip (Suc a) (m(a \<mapsto> 0)) = parse_skip (Suc a) (m(a \<mapsto> 0))"
    unfolding Suc_eq_plus1 .
  show ?case
    by (subst gettoken_skip.simps, subst parse_skip.simps) (use Cons.prems in \<open>simp add: wr_Some ih\<close>)
qed

lemma gettoken_word_end:
  "cstr m a xs \<Longrightarrow> 34 \<notin> set xs \<Longrightarrow> gettoken_word False a m = Some (a + length (takeWhile in_word xs), m)"
  by (induction xs arbitrary: a) (auto simp: gettoken_word.simps [of _ _ m] in_word_def)

lemma rest_ptr_cstr: "cstr m a xs \<Longrightarrow> rest_ptr a m = Some (if xs = [] then None else Some a)"
  by (cases xs) (auto simp: rest_ptr_def)

lemma set_dropWhileD': "x \<in> set (dropWhile P xs) \<Longrightarrow> x \<in> set xs"
  by (meson set_dropWhileD)

lemma gettoken_end:
  assumes "cstr m a xs" "dropWhile is_ws xs = []"
  shows "\<exists>m1. gettoken (Some a) t m = Some (0, Some a, t, m1) \<and> (\<forall>b < a. m1 b = m b) \<and> m1 a = Some 0"
proof -
  from parse_skip_blanks [OF assms(1)] assms(2) gettoken_skip_parse [OF assms(1)] obtain m1 where
    sk: "gettoken_skip a m = Some (a + length (takeWhile is_ws xs), m1)" "m1 (a + length (takeWhile is_ws xs)) = Some 0"
    "\<forall>b < a. m1 b = m b" "takeWhile is_ws xs \<noteq> [] \<longrightarrow> m1 a = Some 0" by auto
  then have "m1 a = Some 0" by (cases "takeWhile is_ws xs") auto
  with sk show ?thesis by (intro exI [of _ m1]) (simp add: gettoken_def)
qed

lemma gettoken_sym:
  assumes "cstr m a xs" "dropWhile is_ws xs = x # r" "is_sym x"
  shows "\<exists>m1 p. gettoken (Some a) t m = Some (x, if r = [] then None else Some (p + 1), p, m1) \<and> cstr m1 (p + 1) r \<and>
    (\<forall>b < a. m1 b = m b)"
proof -
  define p where "p = a + length (takeWhile is_ws xs)"
  from parse_skip_blanks [OF assms(1)] assms(2) gettoken_skip_parse [OF assms(1)] obtain m1 where
    sk: "gettoken_skip a m = Some (p, m1)" "cstr m1 p (x # r)" "\<forall>b < a. m1 b = m b" by (auto simp: p_def)
  let ?m = "m1(p \<mapsto> 0)"
  have c: "cstr ?m (p + 1) r" using sk(2) by (subst cstr_cong [where m = m1]) auto
  have "gettoken (Some a) t m = Some (x, if r = [] then None else Some (p + 1), p, ?m)"
    using sk assms(3) is_sym_not [OF assms(3)] rest_ptr_cstr [OF c] by (simp add: gettoken_def wr_Some)
  moreover have "\<forall>b < a. ?m b = m b" using sk(3) by (simp add: p_def)
  ultimately show ?thesis using c by blast
qed

lemma gettoken_word_at:
  assumes "cstr m a xs" "dropWhile is_ws xs = x # r" "\<not> is_sym x" "34 \<notin> set xs"
  defines "w \<equiv> takeWhile in_word (x # r)" and "ys \<equiv> dropWhile in_word (x # r)"
  shows "\<exists>m1 p. gettoken (Some a) t m = Some (119, if ys = [] then None else Some (p + length w), p, m1) \<and>
    a \<le> p \<and> cstr m1 p (w @ ys) \<and> (\<forall>b < a. m1 b = m b) \<and> (is_ws (hd xs) \<longrightarrow> m1 a = Some 0 \<and> a < p)"
proof -
  define p where "p = a + length (takeWhile is_ws xs)"
  from parse_skip_blanks [OF assms(1)] assms(2) gettoken_skip_parse [OF assms(1)] obtain m1 where
    sk: "gettoken_skip a m = Some (p, m1)" "cstr m1 p (x # r)" "\<forall>b < a. m1 b = m b"
    "takeWhile is_ws xs \<noteq> [] \<longrightarrow> m1 a = Some 0" by (auto simp: p_def)
  have q: "34 \<notin> set (x # r)" using assms(2,4) set_dropWhileD' [of 34 is_ws xs] by auto
  have wy: "w @ ys = x # r" by (simp add: w_def ys_def)
  have e: "cstr m1 (p + length w) ys" using sk(2) unfolding wy [symmetric] cstr_append by blast
  have g: "gettoken (Some a) t m = Some (119, if ys = [] then None else Some (p + length w), p, m1)"
    using sk assms(3) gettoken_word_end [OF sk(2) q, folded w_def] rest_ptr_cstr [OF e] by (simp add: gettoken_def)
  have "is_ws (hd xs) \<longrightarrow> takeWhile is_ws xs \<noteq> []" using assms(2) by (cases xs) auto
  then show ?thesis using g sk wy by (intro exI [of _ m1] exI [of _ p]) (auto simp: p_def)
qed

text \<open>On a line without quotes \<open>gettoken\<close> returns the token of the reference split, and a pointer to what follows
  or \<open>NULL\<close> at the end; but the word it points to is not cut off: what lies there is the word and the whole rest of
  the line.\<close>

theorem gettoken_splits:
  assumes "cstr m a xs" "34 \<notin> set xs" "next_token xs = (tok, w, rest)"
  shows "\<exists>p1 p m'. gettoken (Some a) t m = Some (tok, p1, p, m') \<and>
    (tok \<noteq> 0 \<longrightarrow> (case p1 of None \<Rightarrow> rest = [] | Some e \<Rightarrow> rest \<noteq> [] \<and> cstr m' e rest)) \<and>
    (tok = 119 \<longrightarrow> cstr m' p (w @ rest)) \<and> (\<forall>b < a. m' b = m b)"
proof (cases "dropWhile is_ws xs")
  case Nil
  then have "tok = 0" using assms(3) unfolding next_token_def Nil by simp
  with gettoken_end [OF assms(1) Nil, of t] show ?thesis by auto
next
  case (Cons x r)
  show ?thesis
  proof (cases "is_sym x")
    case True
    from gettoken_sym [OF assms(1) Cons True, of t] obtain m1 p where
      g: "gettoken (Some a) t m = Some (x, if r = [] then None else Some (p + 1), p, m1)" "cstr m1 (p + 1) r"
      "\<forall>b < a. m1 b = m b" by blast
    have "tok = x" "rest = r" using assms(3) Cons True by (simp_all add: next_token_def)
    then show ?thesis using g is_sym_not [OF True]
      by (intro exI [of _ "if r = [] then None else Some (p + 1)"] exI [of _ p] exI [of _ m1]) simp
  next
    case False
    then have nt: "tok = 119" "w = takeWhile in_word (x # r)" "rest = dropWhile in_word (x # r)"
      using assms(3) Cons by (simp_all add: next_token_def)
    from gettoken_word_at [OF assms(1) Cons False assms(2), of t, folded nt(2,3)] obtain m1 p where
      g: "gettoken (Some a) t m = Some (119, if rest = [] then None else Some (p + length w), p, m1)"
      "cstr m1 p (w @ rest)" "\<forall>b < a. m1 b = m b" by blast
    have "cstr m1 (p + length w) rest" using g(2) unfolding cstr_append by blast
    then show ?thesis using g nt(1)
      by (intro exI [of _ "if rest = [] then None else Some (p + length w)"] exI [of _ p] exI [of _ m1]) simp
  qed
qed

subsection \<open>Strings\<close>

definition str_of :: "byte list \<Rightarrow> string" where
  "str_of xs = map (\<lambda>b. char_of (unat b)) xs"

lemma string_at_cstr: "cstr m a xs \<Longrightarrow> string_at m a = Some (str_of xs)"
  by (induction xs arbitrary: a) (simp_all add: string_at.simps [of m] str_of_def)

lemma strings_at_cstr: "list_all2 (cstr m) ps xss \<Longrightarrow> strings_at m ps = Some (map str_of xss)"
  by (induction rule: list_all2_induct) (simp_all add: string_at_cstr)

subsection \<open>Simple commands\<close>

definition plain :: "byte list \<Rightarrow> bool" where
  "plain xs \<longleftrightarrow> 34 \<notin> set xs \<and> (\<forall>b \<in> set xs. \<not> is_sym b)"

lemma plain_in_word: "plain xs \<Longrightarrow> set ys \<subseteq> set xs \<Longrightarrow>
    takeWhile in_word ys = takeWhile (\<lambda>c. \<not> is_ws c) ys \<and> dropWhile in_word ys = dropWhile (\<lambda>c. \<not> is_ws c) ys"
  by (auto simp: plain_def in_word_def intro!: takeWhile_cong dropWhile_cong)

lemma runcmd_loop_words:
  assumes "cstr (umem s) a xs" "plain xs" "length argv + length (words_of xs) \<le> EXEC_MAX_ARG_NUM"
  shows "\<exists>ps m'. sh_runcmd_loop os (if xs = [] then None else Some a) t argv s = runit os (argv @ ps) (s\<lparr>umem := m'\<rparr>) \<and>
    list_all2 (cstr m') ps (words_of xs) \<and> (\<forall>b < a. m' b = umem s b) \<and> (xs = [] \<or> is_ws (hd xs) \<longrightarrow> m' a = Some 0)"
  using assms
proof (induction "length xs" arbitrary: xs a t argv s rule: less_induct)
  case less
  show ?case
  proof (cases "dropWhile is_ws xs")
    case Nil
    then have w: "words_of xs = []" by (metis words_of.simps(1) words_of_skip)
    from gettoken_end [OF less.prems(1) Nil, of t] obtain m1 where
      g: "gettoken (Some a) t (umem s) = Some (0, Some a, t, m1)" "\<forall>b < a. m1 b = umem s b" "m1 a = Some 0" by blast
    show ?thesis
    proof (cases "xs = []")
      case True
      then show ?thesis using w less.prems(1)
        by (intro exI [of _ "[]"] exI [of _ "umem s"]) (simp add: sh_runcmd_loop.simps [of os None] gettoken_def)
    next
      case False
      then show ?thesis using w g
        by (intro exI [of _ "[]"] exI [of _ m1]) (simp add: sh_runcmd_loop.simps [of os "Some a"])
    qed
  next
    case (Cons x r)
    have x: "\<not> is_ws x" using Cons by (metis hd_dropWhile list.sel(1) list.distinct(1))
    have sub: "set (x # r) \<subseteq> set xs" using set_dropWhileD' [of _ is_ws xs] Cons by auto
    then have sx: "\<not> is_sym x" "34 \<notin> set xs" using less.prems(2) by (auto simp: plain_def)
    define wd where "wd = takeWhile in_word (x # r)"
    define ys where "ys = dropWhile in_word (x # r)"
    from gettoken_word_at [OF less.prems(1) Cons sx, of t, folded wd_def ys_def] obtain m1 p where
      g: "gettoken (Some a) t (umem s) = Some (119, if ys = [] then None else Some (p + length wd), p, m1)" "a \<le> p"
      "cstr m1 p (wd @ ys)" "\<forall>b < a. m1 b = umem s b" "is_ws (hd xs) \<longrightarrow> m1 a = Some 0 \<and> a < p" by blast
    have wne: "wd \<noteq> []" using x sx(1) by (simp add: wd_def in_word_def)
    have ws: "words_of xs = wd # words_of ys"
      using words_of_skip [of xs] x plain_in_word [OF less.prems(2) sub] by (simp add: Cons wd_def ys_def)
    let ?s = "s\<lparr>umem := m1\<rparr>" and ?e = "p + length wd"
    have cy: "cstr (umem ?s) ?e ys" "0 \<notin> set wd" "\<forall>i < length wd. m1 (p + i) = Some (wd ! i)"
      using g(3) unfolding cstr_append by auto
    have nx: "xs \<noteq> []" using Cons by auto
    have e: "sh_runcmd_loop os (Some a) t argv s =
        sh_runcmd_loop os (if ys = [] then None else Some ?e) p (argv @ [p]) ?s"
      using g(1) less.prems(3) ws by (subst sh_runcmd_loop.simps) simp
    have "length ys \<le> length r" using x sx(1) length_dropWhile_le [of in_word r] by (simp add: ys_def in_word_def)
    then have sh: "length ys < length xs" using length_dropWhile_le [of is_ws xs] Cons by simp
    have py: "plain ys" using less.prems(2) sub set_dropWhileD' [of _ in_word "x # r"]
      by (auto simp: plain_def ys_def simp del: dropWhile.simps)
    have fit: "length (argv @ [p]) + length (words_of ys) \<le> EXEC_MAX_ARG_NUM" using less.prems(3) ws by simp
    obtain ps m' where r: "sh_runcmd_loop os (if ys = [] then None else Some ?e) p (argv @ [p]) ?s =
        runit os ((argv @ [p]) @ ps) (?s\<lparr>umem := m'\<rparr>)" "list_all2 (cstr m') ps (words_of ys)"
      "\<forall>b < ?e. m' b = umem ?s b" "ys = [] \<or> is_ws (hd ys) \<longrightarrow> m' ?e = Some 0"
      using less.hyps [OF sh cy(1) py fit, of p] by blast
    have "ys = [] \<or> is_ws (hd ys)"
      using plain_in_word [OF less.prems(2) sub] unfolding ys_def by (metis hd_dropWhile)
    then have "m' ?e = Some 0" using r(4) by blast
    then have cw: "cstr m' p wd" using cy(2,3) r(3) by (simp add: cstr_iff)
    have "a < ?e" using wne g(2) by (cases wd) auto
    then show ?thesis using e r g(2,4,5) ws cw nx
      by (intro exI [of _ "p # ps"] exI [of _ m']) auto
  qed
qed

text \<open>C19: a line of one to 32 words without quotes and symbols is run as the program that its first word names, with
  exactly the words of the line as arguments: the shell tests whether the file opens and closes it, falls back to
  the root directory when there is no such file, and gives the error of any other failure.\<close>

theorem shell_runs_words:
  fixes k :: os
  assumes "cstr (umem s) a xs" "plain xs" "words_of xs = w # ws" "length ws < 32" "str_of w \<noteq> ''cd''"
  defines "got \<equiv> ans_ret (k (ucalls s) (UOpen (str_of w) O_RDONLY))"
  shows "\<exists>r c s'. sh_runcmd k a s = Some (r, s') \<and>
    ucalls s' = ucalls s @ (UOpen (str_of w) O_RDONLY, got) #
      (if 0 \<le> got then [(UClose got, c), (UExec (str_of w) (map str_of (w # ws)), r)]
       else if got = - E_NOENT then
         [(UExec (take 4095 (CHR ''/'' # str_of w)) (take 4095 (CHR ''/'' # str_of w) # map str_of ws), r)]
       else []) \<and>
    (got < 0 \<and> got \<noteq> - E_NOENT \<longrightarrow> r = got)"
proof -
  have "xs \<noteq> []" using assms(3) by auto
  with runcmd_loop_words [OF assms(1,2), of "[]" k 0] assms(3,4) obtain ps m' where
    l: "sh_runcmd k a s = runit k ps (s\<lparr>umem := m'\<rparr>)" "list_all2 (cstr m') ps (w # ws)"
    by (auto simp: sh_runcmd_def EXEC_MAX_ARG_NUM_def)
  then obtain q qs where q: "ps = q # qs" "cstr m' q w" "list_all2 (cstr m') qs ws"
    by (auto simp: list_all2_Cons2)
  have st: "string_at m' q = Some (str_of w)" "strings_at m' qs = Some (map str_of ws)"
    using string_at_cstr [OF q(2)] strings_at_cstr [OF q(3)] by auto
  have pr: "vprintfmt ''/%s'' [VStr (Some (str_of w))] = Some (CHR ''/'' # str_of w)"
    using vprintfmt_string [of "str_of w"] by (subst vprintfmt.simps) (simp del: vprintfmt.simps(2))
  then have sn: "snprintf False SH_BUFSIZE ''/%s'' [VStr (Some (str_of w))] =
      Some (take 4095 (CHR ''/'' # str_of w) @ [CHR 0x00], int (length (CHR ''/'' # str_of w)))"
    by (simp add: snprintf_def vsnprintf_def sprintputch_fold SH_BUFSIZE_def del: vprintfmt.simps)
  note defs = testfile_def u_open_def u_close_def u_exec_def ucall_ret_def usyscall_def Let_def
  consider "0 \<le> got" | "got = - E_NOENT" | "got < 0" "got \<noteq> - E_NOENT" by linarith
  then show ?thesis
  proof cases
    case 1
    then show ?thesis using assms(5) st
      by (simp add: l(1) q(1) runit_def defs got_def [symmetric])
  next
    case 2
    then have "got < 0" "got \<noteq> 0" by (simp_all add: E_NOENT_def)
    then show ?thesis using assms(5) st 2 sn
      by (simp add: l(1) q(1) runit_def defs got_def [symmetric] del: take_Suc_Cons)
  next
    case 3
    then show ?thesis using assms(5) st
      by (simp add: l(1) q(1) runit_def defs got_def [symmetric])
  qed
qed

definition ex_os :: os where
  "ex_os h c = \<lparr>ans_ret = (case c of UOpen n _ \<Rightarrow> if n = ''ls'' then - 16 else - 1 | _ \<Rightarrow> 0), ans_bytes = [], ans_code = 0\<rparr>"

definition ex_ush :: "byte list \<Rightarrow> ush" where
  "ex_ush xs = \<lparr>umem = (\<lambda>a. if 4096 \<le> a \<and> a \<le> 4096 + length xs then Some ((xs @ [0]) ! (a - 4096)) else None),
     shcwd = [], ucalls = []\<rparr>"

lemma ex_ush_cstr: "0 \<notin> set xs \<Longrightarrow> cstr (umem (ex_ush xs)) 4096 xs"
  by (simp add: cstr_iff ex_ush_def nth_append)

theorem shell_runs_words_witness:
  "\<exists>r s'. sh_runcmd ex_os 4096 (ex_ush [108, 115, 32, 45, 97]) = Some (r, s') \<and>
     ucalls s' = [(UOpen ''ls'' O_RDONLY, - 16), (UExec ''/ls'' [''/ls'', ''-a''], r)]"
proof -
  let ?xs = "[108, 115, 32, 45, 97] :: byte list"
  have c: "cstr (umem (ex_ush ?xs)) 4096 ?xs" by (rule ex_ush_cstr) simp
  have p: "plain ?xs" by (simp add: plain_def is_sym_def SYMBOLS_def)
  have w: "words_of ?xs = [108, 115] # [[45, 97]]" by (simp add: is_ws_def WHITESPACE_def)
  have n: "str_of [108, 115] = ''ls''" "str_of [45, 97] = ''-a''" by code_simp+
  have a: "ans_ret (ex_os h (UOpen ''ls'' O_RDONLY)) = - 16" for h by (simp add: ex_os_def)
  have u: "ucalls (ex_ush ?xs) = []" by (simp add: ex_ush_def)
  show ?thesis
    using shell_runs_words [OF c p w, of ex_os] by (simp add: n a u E_NOENT_def)
qed

subsection \<open>Redirections\<close>

lemma take_drop_stop:
  "\<not> P x \<Longrightarrow> takeWhile P (xs @ x # ys) = takeWhile P xs \<and> dropWhile P (xs @ x # ys) = dropWhile P xs @ x # ys"
  by (induction xs) auto

lemma dropWhile_into: "dropWhile P xs \<noteq> [] \<Longrightarrow> dropWhile P (xs @ ys) = dropWhile P xs @ ys"
  by (induction xs) auto

lemma runcmd_loop_prefix:
  assumes "cstr (umem s) a (xs @ x # ys)" "plain xs" "is_sym x" "34 \<notin> set (x # ys)"
    and "length argv + length (words_of xs) \<le> EXEC_MAX_ARG_NUM"
  shows "\<exists>ps e p m' bs. sh_runcmd_loop os (Some a) t argv s = sh_runcmd_loop os (Some e) p (argv @ ps) (s\<lparr>umem := m'\<rparr>) \<and>
    length ps = length (words_of xs) \<and> cstr m' e (bs @ x # ys) \<and> dropWhile is_ws bs = []"
  using assms(1,2,5)
proof (induction "length xs" arbitrary: xs a t argv s rule: less_induct)
  case less
  show ?case
  proof (cases "dropWhile is_ws xs")
    case Nil
    then have w: "words_of xs = []" by (metis words_of.simps(1) words_of_skip)
    show ?thesis using Nil w less.prems(1)
      by (intro exI [of _ "[]"] exI [of _ a] exI [of _ t] exI [of _ "umem s"] exI [of _ xs]) simp
  next
    case (Cons c r)
    have c: "\<not> is_ws c" using Cons by (metis hd_dropWhile list.sel(1) list.distinct(1))
    have sub: "set (c # r) \<subseteq> set xs" using set_dropWhileD' [of _ is_ws xs] Cons by auto
    then have sx: "\<not> is_sym c" "34 \<notin> set (xs @ x # ys)" using less.prems(2) assms(4) by (auto simp: plain_def)
    have dw: "dropWhile is_ws (xs @ x # ys) = c # (r @ x # ys)"
      using dropWhile_into [of is_ws xs "x # ys"] Cons by simp
    have nw: "\<not> in_word x" using assms(3) by (simp add: in_word_def)
    define wd where "wd = takeWhile in_word (c # r)"
    define zs where "zs = dropWhile in_word (c # r)"
    have td: "takeWhile in_word (c # (r @ x # ys)) = wd" "dropWhile in_word (c # (r @ x # ys)) = zs @ x # ys"
      using take_drop_stop [of in_word x "c # r" ys, OF nw] by (simp_all only: wd_def zs_def append_Cons)
    from gettoken_word_at [OF less.prems(1) dw sx, of t, unfolded td] obtain m1 p where
      g: "gettoken (Some a) t (umem s) = Some (119, Some (p + length wd), p, m1)" "cstr m1 p (wd @ zs @ x # ys)" by auto
    let ?s = "s\<lparr>umem := m1\<rparr>" and ?e = "p + length wd"
    have cy: "cstr (umem ?s) ?e (zs @ x # ys)" using g(2) unfolding cstr_append by simp
    have ws: "words_of xs = wd # words_of zs"
      using words_of_skip [of xs] c plain_in_word [OF less.prems(2) sub] by (simp add: Cons wd_def zs_def)
    have e: "sh_runcmd_loop os (Some a) t argv s = sh_runcmd_loop os (Some ?e) p (argv @ [p]) ?s"
      using g(1) less.prems(3) ws by (subst sh_runcmd_loop.simps) simp
    have "length zs \<le> length r" using c sx(1) length_dropWhile_le [of in_word r] by (simp add: zs_def in_word_def)
    then have sh: "length zs < length xs" using length_dropWhile_le [of is_ws xs] Cons by simp
    have py: "plain zs" using less.prems(2) sub set_dropWhileD' [of _ in_word "c # r"]
      by (auto simp: plain_def zs_def simp del: dropWhile.simps)
    have fit: "length (argv @ [p]) + length (words_of zs) \<le> EXEC_MAX_ARG_NUM" using less.prems(3) ws by simp
    obtain ps e' p' m' bs where r: "sh_runcmd_loop os (Some ?e) p (argv @ [p]) ?s =
        sh_runcmd_loop os (Some e') p' ((argv @ [p]) @ ps) (?s\<lparr>umem := m'\<rparr>)" "length ps = length (words_of zs)"
      "cstr m' e' (bs @ x # ys)" "dropWhile is_ws bs = []"
      using less.hyps [OF sh cy py fit, of p] by blast
    then show ?thesis using e ws
      by (intro exI [of _ "p # ps"] exI [of _ e'] exI [of _ p'] exI [of _ m'] exI [of _ bs]) simp
  qed
qed

definition redirection :: "byte \<Rightarrow> int \<Rightarrow> 32 word \<Rightarrow> bool" where
  "redirection x d fl \<longleftrightarrow> x = 60 \<and> d = 0 \<and> fl = O_RDONLY \<or> x = 62 \<and> d = 1 \<and> fl = (O_RDWR OR O_TRUNC OR O_CREAT)"

lemma reopen_calls:
  fixes k :: os
  defines "c0 d s \<equiv> ans_ret (k (ucalls s) (UClose d))"
  defines "got d nm fl s \<equiv> ans_ret (k (ucalls s @ [(UClose d, c0 d s)]) (UOpen nm fl))"
  shows "\<exists>c1 c2 r s'. reopen k d nm fl s = ((if got d nm fl s < 0 then got d nm fl s
      else if got d nm fl s \<noteq> d \<and> r < 0 then r else 0), s') \<and> umem s' = umem s \<and>
    ucalls s' = ucalls s @ (UClose d, c0 d s) # (UOpen nm fl, got d nm fl s) #
      (if 0 \<le> got d nm fl s \<and> got d nm fl s \<noteq> d
       then [(UClose d, c1), (UDup (got d nm fl s) d, r), (UClose (got d nm fl s), c2)] else [])"
proof -
  note defs = reopen_def u_close_def u_open_def u_dup2_def ucall_ret_def usyscall_def Let_def
  consider "got d nm fl s < 0" | "got d nm fl s = d" "0 \<le> got d nm fl s" | "0 \<le> got d nm fl s" "got d nm fl s \<noteq> d" by linarith
  then show ?thesis by cases (simp_all add: defs c0_def [symmetric] got_def [symmetric])
qed

text \<open>C40: on a line without quotes, behind any number of up to 32 plain words, the name that a redirection opens is not the
  word behind the sign but that word and the whole rest of the line, since \<open>gettoken\<close> cuts a word off only when the next
  token is read. The calls are those of \<open>reopen\<close> for descriptor 0 (\<open><\<close>, reading) or 1 (\<open>>\<close>, writing, truncating,
  creating); an error ends the command with that error, otherwise the shell goes on with the rest of the line, which it
  reads a second time.\<close>

theorem shell_redirection_takes_rest:
  fixes k :: os
  assumes "cstr (umem s) a (xs @ x # ys)" "plain xs" "length (words_of xs) \<le> 32" "redirection x d fl"
    and "34 \<notin> set ys" "next_token ys = (119, f, rest)"
  defines "c0 \<equiv> ans_ret (k (ucalls s) (UClose d))"
  defines "got \<equiv> ans_ret (k (ucalls s @ [(UClose d, c0)]) (UOpen (str_of (f @ rest)) fl))"
  shows "\<exists>c1 c2 r p t argv s'. sh_runcmd k a s =
      (if got < 0 then Some (got, s') else if got \<noteq> d \<and> r < 0 then Some (r, s') else sh_runcmd_loop k p t argv s') \<and>
    ucalls s' = ucalls s @ (UClose d, c0) # (UOpen (str_of (f @ rest)) fl, got) #
      (if 0 \<le> got \<and> got \<noteq> d then [(UClose d, c1), (UDup got d, r), (UClose got, c2)] else []) \<and>
    length argv = length (words_of xs) \<and>
    (case p of None \<Rightarrow> rest = [] | Some e \<Rightarrow> rest \<noteq> [] \<and> cstr (umem s') e rest)"
proof -
  from assms(4) have sy: "is_sym x" "x \<noteq> 34" by (auto simp: redirection_def is_sym_def SYMBOLS_def)
  have q: "34 \<notin> set (x # ys)" using assms(5) sy(2) by simp
  obtain ps e p m1 bs where l: "sh_runcmd k a s = sh_runcmd_loop k (Some e) p ps (s\<lparr>umem := m1\<rparr>)"
    "length ps = length (words_of xs)" "cstr m1 e (bs @ x # ys)" "dropWhile is_ws bs = []"
    using runcmd_loop_prefix [OF assms(1,2) sy(1) q, of "[]" k 0] assms(3) by (auto simp: sh_runcmd_def EXEC_MAX_ARG_NUM_def)
  have "dropWhile is_ws (bs @ x # ys) = x # ys"
    using l(4) is_sym_not [OF sy(1)] by (simp add: dropWhile_eq_Nil_conv dropWhile_append)
  from gettoken_sym [OF l(3) this sy(1), of p] obtain m2 e2 where
    g: "gettoken (Some e) p m1 = Some (x, if ys = [] then None else Some (e2 + 1), e2, m2)" "cstr m2 (e2 + 1) ys" by blast
  have ne: "ys \<noteq> []" using assms(6) by (auto simp: next_token_def)
  from gettoken_splits [OF g(2) assms(5,6), of e2] obtain p3 t m3 where
    h: "gettoken (Some (e2 + 1)) e2 m2 = Some (119, p3, t, m3)" "cstr m3 t (f @ rest)"
      "case p3 of None \<Rightarrow> rest = [] | Some e \<Rightarrow> rest \<noteq> [] \<and> cstr m3 e rest" by auto
  let ?s = "s\<lparr>umem := m3\<rparr>"
  have us: "ucalls ?s = ucalls s" "umem ?s = m3" by simp_all
  obtain c1 c2 r s' where ro: "reopen k d (str_of (f @ rest)) fl ?s =
      ((if got < 0 then got else if got \<noteq> d \<and> r < 0 then r else 0), s')" "umem s' = m3"
    "ucalls s' = ucalls s @ (UClose d, c0) # (UOpen (str_of (f @ rest)) fl, got) #
      (if 0 \<le> got \<and> got \<noteq> d then [(UClose d, c1), (UDup got d, r), (UClose got, c2)] else [])"
    using reopen_calls [of k d "str_of (f @ rest)" fl ?s, unfolded us, folded c0_def, folded got_def] by (elim exE conjE)
  have "sh_runcmd k a s = (let (ret, s) = reopen k d (str_of (f @ rest)) fl ?s in
      if ret \<noteq> 0 then Some (ret, s) else sh_runcmd_loop k p3 t ps s)"
    using assms(4) g(1) h(1) ne string_at_cstr [OF h(2)] unfolding l(1)
    by (subst sh_runcmd_loop.simps) (auto simp: redirection_def)
  then have run: "sh_runcmd k a s =
      (if got < 0 then Some (got, s') else if got \<noteq> d \<and> r < 0 then Some (r, s') else sh_runcmd_loop k p3 t ps s')"
    unfolding ro(1) by auto
  show ?thesis
    by (rule exI [of _ c1], rule exI [of _ c2], rule exI [of _ r], rule exI [of _ p3], rule exI [of _ t], rule exI [of _ ps],
        rule exI [of _ s']) (use run ro(2,3) l(2) h(3) in \<open>cases p3; simp\<close>)
qed

text \<open>The line \<open>a > b c\<close> on a kernel where opening a file gives descriptor 3, and where it fails.\<close>

definition ex_open_os :: "int \<Rightarrow> os" where
  "ex_open_os v h c = \<lparr>ans_ret = (case c of UOpen _ _ \<Rightarrow> v | _ \<Rightarrow> 0), ans_bytes = [], ans_code = 0\<rparr>"

theorem shell_redirection_takes_rest_witness:
  "(\<exists>c1 c2 r p t argv s'. sh_runcmd (ex_open_os 3) 4096 (ex_ush [97, 32, 62, 32, 98, 32, 99]) =
      (if r < 0 then Some (r, s') else sh_runcmd_loop (ex_open_os 3) p t argv s') \<and>
    ucalls s' = [(UClose 1, 0), (UOpen ''b c'' (O_RDWR OR O_TRUNC OR O_CREAT), 3), (UClose 1, c1), (UDup 3 1, r), (UClose 3, c2)]) \<and>
   (\<exists>s'. sh_runcmd (ex_open_os (- 1)) 4096 (ex_ush [97, 32, 62, 32, 98, 32, 99]) = Some (- 1, s') \<and>
    ucalls s' = [(UClose 1, 0), (UOpen ''b c'' (O_RDWR OR O_TRUNC OR O_CREAT), - 1)])"
proof -
  let ?u = "ex_ush [97, 32, 62, 32, 98, 32, 99]"
  have c: "cstr (umem ?u) 4096 ([97, 32] @ 62 # [32, 98, 32, 99])" using ex_ush_cstr [of "[97, 32, 62, 32, 98, 32, 99]"] by simp
  have p: "plain [97, 32]" by (simp add: plain_def is_sym_def SYMBOLS_def)
  have w: "length (words_of [97, 32]) \<le> 32" by (simp add: is_ws_def WHITESPACE_def)
  have d: "redirection 62 1 (O_RDWR OR O_TRUNC OR O_CREAT)" by (simp add: redirection_def)
  have n: "next_token [32, 98, 32, 99] = (119, [98], [32, 99])"
    by (simp add: next_token_def is_ws_def WHITESPACE_def is_sym_def SYMBOLS_def in_word_def)
  have o: "str_of ([98] @ [32, 99]) = ''b c''" by code_simp
  have a: "ans_ret (ex_open_os v h (UOpen nm fl)) = v" "ans_ret (ex_open_os v h (UClose i)) = 0" for v h nm fl i
    by (simp_all add: ex_open_os_def)
  have u: "ucalls ?u = []" by (simp add: ex_ush_def)
  have q: "34 \<notin> set [32, 98, 32, 99 :: byte]" by simp
  note th = shell_redirection_takes_rest [OF c p w d q n, unfolded o u append_Nil]
  from th [of "ex_open_os 3", unfolded a] obtain c1 c2 r p t argv s' where
    one: "sh_runcmd (ex_open_os 3) 4096 ?u = (if r < 0 then Some (r, s') else sh_runcmd_loop (ex_open_os 3) p t argv s')"
    "ucalls s' = [(UClose 1, 0), (UOpen ''b c'' (O_RDWR OR O_TRUNC OR O_CREAT), 3), (UClose 1, c1), (UDup 3 1, r), (UClose 3, c2)]"
    by (elim exE conjE) simp
  from th [of "ex_open_os (- 1)", unfolded a] have "\<exists>s'. sh_runcmd (ex_open_os (- 1)) 4096 ?u = Some (- 1, s') \<and>
    ucalls s' = [(UClose 1, 0), (UOpen ''b c'' (O_RDWR OR O_TRUNC OR O_CREAT), - 1)]" by (elim exE conjE) simp
  then show ?thesis using one by blast
qed

end
