(* ===== verification/PmmCheck.thy ===== *)
theory PmmCheck
  imports Pmm
begin

section \<open>The self test of the page allocator (kern/mm/default_pmm.c)\<close>

text \<open>
  \<open>pmm_init\<close> runs \<open>default_check\<close> before any page is in use and before swapping is possible, so \<open>alloc_pages\<close> and
  \<open>free_pages\<close> are those of the manager. A failed \<open>assert\<close> is \<open>None\<close>. \<open>nb\<close> and \<open>np\<close> are \<open>nbase\<close> and \<open>npage\<close>.
\<close>

subsection \<open>The routines\<close>

text \<open>Saving and restoring \<open>free_list\<close>, the head of the list.\<close>

definition free_list_head :: "pmm \<Rightarrow> pnode \<times> pnode" where
  "free_list_head s = (nxt (free_list s) FreeHead, prv (free_list s) FreeHead)"

definition set_free_list_head :: "pnode \<times> pnode \<Rightarrow> pmm \<Rightarrow> pmm" where
  "set_free_list_head l s = s\<lparr>free_list := (free_list s)\<lparr>nxt := (nxt (free_list s))(FreeHead := fst l),
     prv := (prv (free_list s))(FreeHead := snd l)\<rparr>\<rparr>"

definition empty_free_list :: "pmm \<Rightarrow> pmm option" where
  "empty_free_list s = do {
     let s = s\<lparr>free_list := list_init FreeHead (free_list s)\<rparr>;
     assert_c (list_empty FreeHead (free_list s));
     Some s
   }"

definition alloc_must :: "nat \<Rightarrow> pmm \<Rightarrow> (nat \<times> pmm) option" where
  "alloc_must n s = do {
     (p, s) \<leftarrow> default_alloc_pages n s;
     p \<leftarrow> p;
     Some (p, s)
   }"

definition alloc_must_not :: "nat \<Rightarrow> pmm \<Rightarrow> pmm option" where
  "alloc_must_not n s = do { (p, s) \<leftarrow> default_alloc_pages n s; assert_c (p = None); Some s }"

definition basic_check :: "nat \<Rightarrow> nat \<Rightarrow> pmm \<Rightarrow> pmm option" where
  "basic_check nb np s = do {
     (p0, s) \<leftarrow> alloc_must 1 s;
     (p1, s) \<leftarrow> alloc_must 1 s;
     (p2, s) \<leftarrow> alloc_must 1 s;
     assert_c (p0 \<noteq> p1 \<and> p0 \<noteq> p2 \<and> p1 \<noteq> p2);
     assert_c (pg_ref (pages s p0) = 0 \<and> pg_ref (pages s p1) = 0 \<and> pg_ref (pages s p2) = 0);
     assert_c ((p0 + nb) * 4096 < np * 4096);
     assert_c ((p1 + nb) * 4096 < np * 4096);
     assert_c ((p2 + nb) * 4096 < np * 4096);
     let free_list_store = free_list_head s;
     s \<leftarrow> empty_free_list s;
     let nr_free_store = nr_free s;
     let s = s\<lparr>nr_free := 0\<rparr>;
     s \<leftarrow> alloc_must_not 1 s;
     s \<leftarrow> default_free_pages p0 1 s;
     s \<leftarrow> default_free_pages p1 1 s;
     s \<leftarrow> default_free_pages p2 1 s;
     assert_c (nr_free s = 3);
     (p0, s) \<leftarrow> alloc_must 1 s;
     (p1, s) \<leftarrow> alloc_must 1 s;
     (p2, s) \<leftarrow> alloc_must 1 s;
     s \<leftarrow> alloc_must_not 1 s;
     s \<leftarrow> default_free_pages p0 1 s;
     assert_c (\<not> list_empty FreeHead (free_list s));
     (p, s) \<leftarrow> alloc_must 1 s;
     assert_c (p = p0);
     s \<leftarrow> alloc_must_not 1 s;
     assert_c (nr_free s = 0);
     let s = (set_free_list_head free_list_store s)\<lparr>nr_free := nr_free_store\<rparr>;
     s \<leftarrow> default_free_pages p 1 s;
     s \<leftarrow> default_free_pages p1 1 s;
     default_free_pages p2 1 s
   }"

text \<open>The walk that counts the blocks and sums their sizes; \<open>flags\<close> says whether it tests \<open>PageProperty\<close>.\<close>

partial_function (option) count_blocks :: "bool \<Rightarrow> pnode \<Rightarrow> int \<Rightarrow> int \<Rightarrow> int \<Rightarrow> pmm \<Rightarrow> (int \<times> int) option" where
  "count_blocks flags le d cnt tot s =
     (let le = list_next le (free_list s) in
      if le = FreeHead then Some (cnt, tot)
      else do {
        p \<leftarrow> le2page le;
        assert_c (flags \<longrightarrow> PageProperty (pages s p));
        count_blocks flags le d (cnt + d) (tot + d * int (pg_property (pages s p))) s
      })"

declare count_blocks.simps [code]

definition default_check :: "nat \<Rightarrow> nat \<Rightarrow> pmm \<Rightarrow> pmm option" where
  "default_check nb np s = do {
     (cnt, tot) \<leftarrow> count_blocks True FreeHead 1 0 0 s;
     assert_c (tot = int (default_nr_free_pages s));
     s \<leftarrow> basic_check nb np s;
     (p0, s) \<leftarrow> alloc_must 5 s;
     assert_c (\<not> PageProperty (pages s p0));
     let free_list_store = free_list_head s;
     s \<leftarrow> empty_free_list s;
     s \<leftarrow> alloc_must_not 1 s;
     let nr_free_store = nr_free s;
     let s = s\<lparr>nr_free := 0\<rparr>;
     s \<leftarrow> default_free_pages (p0 + 2) 3 s;
     s \<leftarrow> alloc_must_not 4 s;
     assert_c (PageProperty (pages s (p0 + 2)) \<and> pg_property (pages s (p0 + 2)) = 3);
     (p1, s) \<leftarrow> alloc_must 3 s;
     s \<leftarrow> alloc_must_not 1 s;
     assert_c (p0 + 2 = p1);
     let p2 = p0 + 1;
     s \<leftarrow> default_free_pages p0 1 s;
     s \<leftarrow> default_free_pages p1 3 s;
     assert_c (PageProperty (pages s p0) \<and> pg_property (pages s p0) = 1);
     assert_c (PageProperty (pages s p1) \<and> pg_property (pages s p1) = 3);
     (p0, s) \<leftarrow> alloc_must 1 s;
     assert_c (p0 = p2 - 1);
     s \<leftarrow> default_free_pages p0 1 s;
     (p0, s) \<leftarrow> alloc_must 2 s;
     assert_c (p0 = p2 + 1);
     s \<leftarrow> default_free_pages p0 2 s;
     s \<leftarrow> default_free_pages p2 1 s;
     (p0, s) \<leftarrow> alloc_must 5 s;
     s \<leftarrow> alloc_must_not 1 s;
     assert_c (nr_free s = 0);
     let s = s\<lparr>nr_free := nr_free_store\<rparr>;
     let s = set_free_list_head free_list_store s;
     s \<leftarrow> default_free_pages p0 5 s;
     (cnt, tot) \<leftarrow> count_blocks False FreeHead (- 1) cnt tot s;
     assert_c (cnt = 0);
     assert_c (tot = 0);
     Some s
   }"

subsection \<open>Symbolic run\<close>

lemma free_loop_numeral: "free_loop p (numeral k) pg = do {
     assert_c (\<not> PageReserved (pg p) \<and> \<not> PageProperty (pg p));
     free_loop (Suc p) (pred_numeral k) (pg(p := set_page_ref ((pg p)\<lparr>pg_flags := 0\<rparr>) 0)) }"
  by (simp add: numeral_eq_Suc)

lemmas run_defs = alloc_must_def alloc_must_not_def default_alloc_pages_def take_block_def default_free_pages_def
  insert_free_def merge_prev_def merge_next_def empty_free_list_def free_list_head_def set_free_list_head_def
  list_init_def list_add_def list_add_after_def list_add_before_def raw_list_add_def list_del_def raw_list_del_def
  list_empty_def list_next_def list_prev_def upd_page_def

text \<open>The state after \<open>page_init\<close>: one free block.\<close>

definition one_block :: "nat \<Rightarrow> nat \<Rightarrow> pmm \<Rightarrow> bool" where
  "one_block b n s \<longleftrightarrow>
     nxt (free_list s) FreeHead = PLink b \<and> prv (free_list s) FreeHead = PLink b \<and>
     nxt (free_list s) (PLink b) = FreeHead \<and> prv (free_list s) (PLink b) = FreeHead \<and>
     pg_property (pages s b) = n \<and> nr_free s = n \<and> (\<forall>i. PageProperty (pages s i) \<longleftrightarrow> i = b) \<and>
     (\<forall>i. b \<le> i \<and> i < b + n \<longrightarrow> \<not> PageReserved (pages s i) \<and> pg_ref (pages s i) = 0)"

lemma basic_check_run:
  assumes "one_block b (m + 6) s" "b + 5 + nb < np"
  shows "\<exists>s'. basic_check nb np s = Some s' \<and> one_block b (m + 6) s'"
proof -
  obtain pg nx pv where s: "s = \<lparr>pages = pg, free_list = \<lparr>nxt = nx, prv = pv\<rparr>, nr_free = m + 6\<rparr>"
    using assms(1) by (cases s, case_tac free_list) (auto simp: one_block_def)
  have f: "nx FreeHead = PLink b" "pv FreeHead = PLink b" "nx (PLink b) = FreeHead" "pv (PLink b) = FreeHead"
    "pg_property (pg b) = m + 6" "\<And>i. PageProperty (pg i) \<longleftrightarrow> i = b"
    and r: "\<And>i. b \<le> i \<Longrightarrow> i < b + (m + 6) \<Longrightarrow> \<not> PageReserved (pg i) \<and> pg_ref (pg i) = 0"
    using assms(1) by (auto simp: s one_block_def)
  have r': "\<not> PageReserved (pg b)" "\<not> PageReserved (pg (Suc b))" "\<not> PageReserved (pg (Suc (Suc b)))"
    "pg_ref (pg b) = 0" "pg_ref (pg (Suc b)) = 0" "pg_ref (pg (Suc (Suc b))) = 0"
    using r [of b] r [of "Suc b"] r [of "Suc (Suc b)"] by auto
  have r0: "\<And>i. b \<le> i \<Longrightarrow> i < b + (m + 6) \<Longrightarrow> \<not> PageReserved (pg i)" "\<And>i. b \<le> i \<Longrightarrow> i < b + (m + 6) \<Longrightarrow> pg_ref (pg i) = 0"
    using r by auto
  show ?thesis unfolding s basic_check_def
    using f r' assms(2)
    by (simp add: run_defs Let_def first_fit.simps insert_loop.simps free_loop_numeral)
      (auto simp: one_block_def r0)
qed

lemma default_check_run:
  assumes "one_block b (m + 6) s" "b + 5 + nb < np"
  shows "\<exists>s'. default_check nb np s = Some s' \<and> one_block b (m + 6) s'"
proof -
  obtain t where t: "basic_check nb np s = Some t" "one_block b (m + 6) t"
    using basic_check_run [OF assms] by blast
  obtain pg nx pv where s: "t = \<lparr>pages = pg, free_list = \<lparr>nxt = nx, prv = pv\<rparr>, nr_free = m + 6\<rparr>"
    using t(2) by (cases t, case_tac free_list) (auto simp: one_block_def)
  have f: "nx FreeHead = PLink b" "pv FreeHead = PLink b" "nx (PLink b) = FreeHead" "pv (PLink b) = FreeHead"
    "pg_property (pg b) = m + 6" "\<And>i. PageProperty (pg i) \<longleftrightarrow> i = b"
    and r: "\<And>i. b \<le> i \<Longrightarrow> i < b + (m + 6) \<Longrightarrow> \<not> PageReserved (pg i) \<and> pg_ref (pg i) = 0"
    using t(2) by (auto simp: s one_block_def)
  have r0: "\<And>i. b \<le> i \<Longrightarrow> i < b + (m + 6) \<Longrightarrow> \<not> PageReserved (pg i)" "\<And>i. b \<le> i \<Longrightarrow> i < b + (m + 6) \<Longrightarrow> pg_ref (pg i) = 0"
    using r by auto
  have r': "\<not> PageReserved (pg b)" "\<not> PageReserved (pg (Suc b))" "\<not> PageReserved (pg (Suc (Suc b)))"
    "\<not> PageReserved (pg (Suc (Suc (Suc b))))" "\<not> PageReserved (pg (Suc (Suc (Suc (Suc b)))))"
    using r0(1) [of b] r0(1) [of "Suc b"] r0(1) [of "Suc (Suc b)"] r0(1) [of "Suc (Suc (Suc b))"] r0(1) [of "Suc (Suc (Suc (Suc b)))"]
    by auto
  have c: "count_blocks True FreeHead 1 0 0 s = Some (1, int m + 6)"
    using assms(1) by (simp add: count_blocks.simps one_block_def list_next_def)
  have nr: "default_nr_free_pages s = m + 6" using assms(1) by (simp add: default_nr_free_pages_def one_block_def)
  show ?thesis unfolding default_check_def c nr
    using f r' assms(2)
    apply (simp add: t(1) s run_defs Let_def first_fit.simps insert_loop.simps free_loop_numeral count_blocks.simps)
    apply (auto simp: one_block_def r0)
    done
qed

end
