(* ===== verification/PmmInit.thy ===== *)
theory PmmInit
  imports PmmCheck Kern
begin

section \<open>Physical memory at boot (kern/mm/pmm.c)\<close>

text \<open>
  \<open>page_init\<close> finds out where the page descriptors lie, reserves all pages and gives the memory behind the
  descriptors to the page allocator; \<open>check_alloc_page\<close> runs the self test of the allocator on it. \<open>kend\<close> is the
  linker's symbol \<open>end\<close>. The messages are not modelled. \<open>pmm_init\<close> goes on with \<open>switch_kernel_memorylayout\<close> and
  two self tests of the page tables, which are not modelled.
\<close>

definition KERNEL_BEGIN_PADDR :: "64 word" where "KERNEL_BEGIN_PADDR = 0x80200000"
definition PHYSICAL_MEMORY_END :: "64 word" where "PHYSICAL_MEMORY_END = 0x88000000"
definition DRAM_BASE :: nat where "DRAM_BASE = 0x80000000"
definition sizeof_Page :: "64 word" where "sizeof_Page = 72"

definition init_pmm_manager :: "vm \<Rightarrow> vm" where
  "init_pmm_manager s = s\<lparr>phys := default_init (phys s)\<rparr>"

definition init_memmap :: "nat \<Rightarrow> nat \<Rightarrow> vm \<Rightarrow> vm option" where
  "init_memmap base n s = do { p \<leftarrow> default_init_memmap base n (phys s); Some (s\<lparr>phys := p\<rparr>) }"

fun reserve_loop :: "nat \<Rightarrow> nat \<Rightarrow> pmm \<Rightarrow> pmm" where
  "reserve_loop i 0 s = s"
| "reserve_loop i (Suc k) s = reserve_loop (Suc i) k (upd_page i SetPageReserved s)"

definition page_init :: "64 word \<Rightarrow> vm \<Rightarrow> vm option" where
  "page_init kend s = do {
     let mem_begin = KERNEL_BEGIN_PADDR;
     let mem_end = PHYSICAL_MEMORY_END;
     let maxpa = mem_end;
     let maxpa = (if maxpa > KERNTOP then KERNTOP else maxpa);
     let s = s\<lparr>npage := unat (maxpa div PGSIZE)\<rparr>;
     let pages = ROUNDUP kend PGSIZE;
     let s = s\<lparr>phys := reserve_loop 0 (npage s - nbase s) (phys s)\<rparr>;
     freemem \<leftarrow> PADDR (pages + sizeof_Page * of_nat (npage s - nbase s));
     let mem_begin = ROUNDUP freemem PGSIZE;
     let mem_end = ROUNDDOWN mem_end PGSIZE;
     if freemem < mem_end then do {
       page \<leftarrow> pa2page mem_begin s;
       init_memmap page (unat ((mem_end - mem_begin) div PGSIZE)) s
     } else Some s
   }"

definition check_alloc_page :: "vm \<Rightarrow> vm option" where
  "check_alloc_page s = do { p \<leftarrow> default_check (nbase s) (npage s) (phys s); Some (s\<lparr>phys := p\<rparr>) }"

subsection \<open>The allocator after \<open>page_init\<close>\<close>

lemma reserve_loop_eq:
  "pages (reserve_loop i k s) = (\<lambda>j. if i \<le> j \<and> j < i + k then SetPageReserved (pages s j) else pages s j) \<and>
   free_list (reserve_loop i k s) = free_list s \<and> nr_free (reserve_loop i k s) = nr_free s"
  by (induction i k s rule: reserve_loop.induct) (auto simp: fun_eq_iff SetPageReserved_def)

lemma reserved_flags [simp]: "PageReserved (SetPageReserved p)" "PageProperty (SetPageReserved p) = PageProperty p"
  by (simp_all add: flag_defs bit_set_bit_iff)

lemma memmap_one_block:
  assumes "0 < n" "\<forall>i. \<not> PageProperty (pages s i)" "\<forall>i \<in> {b..<b + n}. PageReserved (pages s i)"
    and "nxt (free_list s) FreeHead = FreeHead" "prv (free_list s) FreeHead = FreeHead" "nr_free s = 0"
  shows "\<exists>t. default_init_memmap b n s = Some t \<and> one_block b n t"
  using assms
  by (auto simp: default_init_memmap_def memmap_loop_eq Let_def insert_free_def list_empty_def list_add_def
      list_add_after_def raw_list_add_def one_block_def upd_page_def)

lemma one_block_inv:
  assumes "one_block b n s" "0 < n" "n < 2 ^ 32"
  shows "pmm_inv s \<and> free_set s = {b..<b + n}"
proof -
  have "dlist (free_list s) FreeHead (map PLink [b])" using assms(1) by (simp add: dlist_def one_block_def)
  then have w: "pmm_wf s [b]" using assms by (auto simp: pmm_wf_def sorted_blocks_def one_block_def)
  then show ?thesis using free_set_wf [OF w] assms(1) by (auto simp: pmm_inv_def one_block_def)
qed

text \<open>The addresses as numbers.\<close>

lemma unat_ROUNDUP: "unat a + 4095 < 2 ^ 64 \<Longrightarrow> unat (ROUNDUP a PGSIZE) = (unat a + 4095) div 4096 * 4096"
proof -
  assume a: "unat a + 4095 < 2 ^ 64"
  have u: "unat (a + 4095) = unat a + 4095" using a by (subst unat_add_lem [THEN iffD1]) auto
  have "(a + 4095) mod 4096 \<le> a + 4095" by (simp add: word_le_nat_alt unat_mod)
  then have "unat ((a + 4095) - (a + 4095) mod 4096) = unat (a + 4095) - unat ((a + 4095) mod 4096)"
    by (simp add: unat_sub)
  also have "\<dots> = (unat a + 4095) div 4096 * 4096" by (simp add: u unat_mod minus_mod_eq_div_mult)
  finally show ?thesis by (simp add: ROUNDUP_def ROUNDDOWN_def add_diff_eq [symmetric])
qed

text \<open>The pages from \<open>DRAM_BASE\<close> to the kernel's start (512), the kernel, and the descriptors: 32768 of them take 576 pages.\<close>

definition first_free :: "64 word \<Rightarrow> nat" where
  "first_free kend = (unat kend - unat KERNBASE + 4095) div 4096 + 576 + 512"

lemma page_init_one_block:
  assumes "KERNBASE \<le> kend" "first_free kend + 6 \<le> 32768" "nbase s = DRAM_BASE div 4096"
    and "\<forall>i. \<not> PageProperty (pages (phys s) i)"
  shows "\<exists>t. page_init kend (init_pmm_manager s) = Some t \<and> one_block (first_free kend) (32768 - first_free kend) (phys t) \<and>
    npage t = 557056 \<and> nbase t = nbase s"
proof -
  define q where "q = (unat kend - unat KERNBASE + 4095) div 4096"
  have q: "first_free kend = q + 1088" "q \<le> 31674" using assms(2) by (simp_all add: q_def first_free_def)
  have kb: "unat KERNBASE = 18446744072637906944" by (simp add: KERNBASE_def)
  have ge: "18446744072637906944 \<le> unat kend" using assms(1) by (simp add: word_le_nat_alt kb)
  define d where "d = unat kend - 18446744072637906944"
  have kd: "unat kend = 18446744072637906944 + d" using ge by (simp add: d_def)
  have qd: "q = (d + 4095) div 4096" by (simp add: q_def kb d_def)
  have d: "d + 4095 < 4096 * 31675" using q(2) unfolding qd by (simp add: less_eq_div_iff_mult_less_eq not_le [symmetric])
  have "(d + 4095 + 4503599627108864 * 4096) div 4096 = (d + 4095) div 4096 + 4503599627108864" by (subst div_mult_self1) simp_all
  then have "(unat kend + 4095) div 4096 = q + 4503599627108864" unfolding qd kd by (simp add: add.commute)
  then have R: "unat (ROUNDUP kend PGSIZE) = 18446744072637906944 + 4096 * q"
    using kd d by (subst unat_ROUNDUP) auto
  let ?S = "ROUNDUP kend PGSIZE + 2359296"
  have S: "unat ?S = 18446744072640266240 + 4096 * q" using R q(2) by (subst unat_add_lem [THEN iffD1]) auto
  have "va_pa_offset \<le> ?S" "KERNBASE \<le> ?S" using S by (simp_all add: word_le_nat_alt va_pa_offset_def KERNBASE_def)
  then have P: "PADDR ?S = Some (?S - va_pa_offset)" and F: "unat (?S - va_pa_offset) = unat ?S - unat va_pa_offset"
    by (simp add: PADDR_def, simp only: unat_sub)
  have uo: "unat va_pa_offset = 18446744070488326144" by (simp add: va_pa_offset_def)
  define f where "f = ?S - va_pa_offset"
  have uf: "unat f = 2151940096 + 4096 * q" unfolding f_def F S uo by simp
  have "(unat f + 4095) div 4096 = 525376 + q" unfolding uf by simp
  then have rf: "ROUNDUP f PGSIZE = f"
    using uf q(2) by (subst word_unat_eq_iff, subst unat_ROUNDUP) auto
  let ?s = "init_pmm_manager s"
  let ?p = "reserve_loop 0 32768 (phys ?s)"
  have nf: "f < 0x88000000" using uf q(2) by (simp add: word_less_nat_alt)
  have PF: "unat (PPN f) = 525376 + q" unfolding PPN_def unat_drop_bit_eq uf by (simp add: drop_bit_eq_div)
  have e: "unat ((0x88000000 - f) div PGSIZE) = 31680 - q"
  proof -
    have "unat (0x88000000 - f) = (31680 - q) * 4096"
      using nf uf q(2) by (subst unat_sub) (auto simp: word_le_nat_alt)
    then show ?thesis by (simp add: unat_div)
  qed
  have rd: "ROUNDDOWN 0x88000000 PGSIZE = 0x88000000" by (simp add: ROUNDDOWN_def)
  have np: "unat ((0x88000000 :: 64 word) div PGSIZE) = 557056" by (simp add: unat_div)
  have ps: "pages (phys ?s) = pages (phys s)" "nxt (free_list (phys ?s)) FreeHead = FreeHead"
    "prv (free_list (phys ?s)) FreeHead = FreeHead" "nr_free (phys ?s) = 0"
    by (simp_all add: init_pmm_manager_def default_init_def list_init_def)
  note re = reserve_loop_eq [of 0 32768 "phys ?s"]
  have pp: "\<not> PageProperty (pages ?p i)" for i using assms(4) by (simp add: re ps)
  obtain t where t: "default_init_memmap (q + 1088) (31680 - q) ?p = Some t" "one_block (q + 1088) (31680 - q) t"
    using memmap_one_block [of "31680 - q" ?p "q + 1088"] pp q(2) by (auto simp: re ps)
  have "\<not> PHYSICAL_MEMORY_END > KERNTOP"
    by (simp add: PHYSICAL_MEMORY_END_def KERNTOP_def KERNBASE_def KMEMSIZE_def)
  then have "page_init kend ?s = Some (?s\<lparr>npage := 557056, phys := t\<rparr>)"
    using assms(3) P nf PF e rd np t(1) [unfolded add.commute [of q 1088]] q(2) unfolding page_init_def Let_def
    by (simp add: PHYSICAL_MEMORY_END_def init_pmm_manager_def DRAM_BASE_def sizeof_Page_def f_def [symmetric] rf
        pa2page_def init_memmap_def)
  then show ?thesis using t(2) q(1) by (simp add: init_pmm_manager_def)
qed

text \<open>C12: booting the physical memory succeeds: with the kernel's end at least six pages below what the descriptors leave,
  \<open>page_init\<close> puts exactly the pages behind the descriptors into the allocator, and the kernel's own test of the
  allocator, which frees blocks in every order and asserts what it gets back, passes all its assertions and gives
  back the pages it took.\<close>

theorem boot_memory_ready:
  assumes "KERNBASE \<le> kend" "first_free kend + 6 \<le> 32768" "nbase s = DRAM_BASE div 4096"
    and "\<forall>i. \<not> PageProperty (pages (phys s) i)"
  shows "\<exists>t. Option.bind (page_init kend (init_pmm_manager s)) check_alloc_page = Some t \<and> pmm_inv (phys t) \<and>
    free_set (phys t) = {first_free kend..<32768} \<and> npage t = 557056"
proof -
  let ?b = "first_free kend" and ?n = "32768 - first_free kend"
  obtain u where u: "page_init kend (init_pmm_manager s) = Some u" "one_block ?b ?n (phys u)" "npage u = 557056" "nbase u = nbase s"
    using page_init_one_block [OF assms] by blast
  define m where "m = 32768 - first_free kend - 6"
  have n: "?n = m + 6" using assms(2) by (simp add: m_def)
  obtain p where p: "default_check (nbase u) (npage u) (phys u) = Some p" "one_block ?b (m + 6) p"
    using default_check_run [of ?b m "phys u" "nbase u" "npage u"] u n assms(2,3) by (auto simp: DRAM_BASE_def)
  have "pmm_inv p \<and> free_set p = {?b..<?b + (m + 6)}"
    by (rule one_block_inv [OF p(2)]) (use assms(2) in \<open>simp_all add: m_def\<close>)
  moreover have "?b + (m + 6) = 32768" using assms(2) by (simp add: m_def)
  ultimately show ?thesis using u p(1) by (simp add: check_alloc_page_def)
qed

definition ex_boot :: vm where
  "ex_boot = \<lparr>phys = ex_reserved, ram = (\<lambda>_ _. 0), nbase = 0x80000, npage = 0, pra_vaddr = (\<lambda>_. 0),
     visited = (\<lambda>_. False), pra_links = \<lparr>nxt = (\<lambda>l. l), prv = (\<lambda>l. l)\<rparr>, curr_ptr = PraHead,
     mms = (\<lambda>_. \<lparr>mmap_cache = None, pgdir = None, map_count = 0, sm_priv = None, m_count = 0, mm_sem = 0, locked_by = 0\<rparr>),
     vmas = (\<lambda>_. \<lparr>vm_mm = 0, vm_start = 0, vm_end = 0, vm_flags = 0\<rparr>), vlinks = \<lparr>nxt = (\<lambda>l. l), prv = (\<lambda>l. l)\<rparr>,
     heap = [], swap_init_ok = False, disk = (\<lambda>_ _. 0), max_swap_offset = 0, check_mm_struct = None, pgfault_num = 0\<rparr>"

theorem boot_memory_ready_witness:
  "\<exists>t. Option.bind (page_init 0xFFFFFFFFC0400123 (init_pmm_manager ex_boot)) check_alloc_page = Some t \<and>
     pmm_inv (phys t) \<and> free_set (phys t) = {1601..<32768} \<and> npage t = 557056"
proof -
  have f: "first_free 0xFFFFFFFFC0400123 = 1601" by (simp add: first_free_def KERNBASE_def)
  have k: "KERNBASE \<le> 0xFFFFFFFFC0400123" by (simp add: KERNBASE_def)
  have b: "nbase ex_boot = DRAM_BASE div 4096" by (simp add: ex_boot_def DRAM_BASE_def)
  have p: "\<forall>i. \<not> PageProperty (pages (phys ex_boot) i)" by (simp add: ex_boot_def ex_reserved_def flag_defs)
  show ?thesis using boot_memory_ready [OF k _ b p] unfolding f by simp
qed

end
