(* ===== verification/ForkClaims.thy ===== *)
theory ForkClaims
  imports LifeClaims
begin

section \<open>Entering a new process\<close>

text \<open>
  The last part of \<open>do_fork\<close> that can be seen by others: the child gets its identifier, is put on its hash list and
  the process list, becomes the youngest child of its parent and is woken up.
\<close>

lemma list_add_frame:
  assumes "dlist k hh xs" "y \<notin> set (hh # x # xs)"
  shows "nxt (list_add hh x k) y = nxt k y" "prv (list_add hh x k) y = prv k y"
proof -
  have "nxt k hh \<in> set (hh # xs)" using dlist_nxt_head [OF assms(1)] by (auto split: list.split)
  then have "y \<noteq> nxt k hh" "y \<noteq> hh" "y \<noteq> x" using assms(2) by auto
  then show "nxt (list_add hh x k) y = nxt k y" "prv (list_add hh x k) y = prv k y"
    by (simp_all add: list_add_def list_add_after_def raw_list_add_def)
qed

lemma list_add_elsewhere:
  assumes "dlist k hh xs" "set (hh # x # xs) \<inter> set (hd' # ys) = {}"
  shows "dlist (list_add hh x k) hd' ys = dlist k hd' ys"
  by (rule dlist_frame) (use list_add_frame [OF assms(1)] assms(2) in blast)+

lemma hash_proc_ok:
  assumes h: "hash_ok s P hs" and p: "p \<notin> P" and i: "pid_hashfn (pid (procs s p)) = Some i"
  shows "hash_proc p s = Some (upd_links (list_add (HashList i) (HashLink p)) s)"
    "hash_ok (upd_links (list_add (HashList i) (HashLink p)) s) (insert p P) (hs(i := p # hs i))"
    "dlist (klinks (upd_links (list_add (HashList i) (HashLink p)) s)) ProcList (map ListLink ps) =
      dlist (klinks s) ProcList (map ListLink ps)"
proof -
  let ?t = "upd_links (list_add (HashList i) (HashLink p)) s"
  have dl: "dlist (klinks s) (HashList j) (map HashLink (hs j))" for j using h by (simp add: hash_ok_def)
  have mem: "q \<in> set (hs j) \<longleftrightarrow> q \<in> P \<and> pid_hashfn (pid (procs s q)) = Some j" for q j using h by (simp add: hash_ok_def)
  show "hash_proc p s = Some ?t" using i by (simp add: hash_proc_def)
  show "dlist (klinks ?t) ProcList (map ListLink ps) = dlist (klinks s) ProcList (map ListLink ps)"
    using list_add_elsewhere [OF dl [of i], of "HashLink p" ProcList "map ListLink ps"] by auto
  have "dlist (klinks ?t) (HashList j) (map HashLink ((hs(i := p # hs i)) j))" for j
  proof (cases "j = i")
    case True
    then show ?thesis using dlist_add_head [OF dl [of i], of "HashLink p"] mem p by auto
  next
    case False
    have "set (HashList i # HashLink p # map HashLink (hs i)) \<inter> set (HashList j # map HashLink (hs j)) = {}"
      using False mem p by auto
    from list_add_elsewhere [OF dl [of i] this] show ?thesis using dl [of j] False by simp
  qed
  then show "hash_ok ?t (insert p P) (hs(i := p # hs i))" using mem i by (auto simp: hash_ok_def)
qed

text \<open>The state before the wake-up: still the invariant of the scheduler, since no process state has changed.\<close>

lemma dlist_same_links:
  assumes "\<forall>l \<in> set (hh # xs). nxt (klinks t) l = nxt (klinks s) l \<and> prv (klinks t) l = prv (klinks s) l"
  shows "dlist (klinks t) hh xs = dlist (klinks s) hh xs"
  by (rule dlist_frame) (use assms in auto)

context exit_policy
begin

lemma wakeup_new:
  assumes "sched_inv rq ready s" "state (procs s p) = PROC_UNINIT" "ready (procs s p)"
    and "\<forall>q. state (procs s q) \<noteq> PROC_UNINIT \<longrightarrow> pid (procs s q) \<noteq> pid (procs s p)"
  shows "\<exists>t. wakeup_proc sc p s = Some t \<and> sched_inv rq ready t \<and> state (procs t p) = PROC_RUNNABLE \<and> skel_same s t \<and>
    (\<forall>q. q \<noteq> p \<longrightarrow> state (procs t q) = state (procs s q)) \<and> last_pid t = last_pid s \<and> next_safe t = next_safe s \<and>
    (\<forall>l. \<not> run_link l \<longrightarrow> nxt (klinks t) l = nxt (klinks s) l \<and> prv (klinks t) l = prv (klinks s) l)"
proof -
  let ?s = "upd_proc p (\<lambda>x. x\<lparr>state := PROC_RUNNABLE, wait_state := 0\<rparr>) s"
  let ?Q = "{q. state (procs s q) = PROC_RUNNABLE \<and> q \<noteq> current s \<and> q \<noteq> idleproc s}"
  have c: "p \<noteq> current s" using assms(1,2) by (auto simp: sched_inv_def)
  from wakeup_ok [OF assms(1) _ assms(3)] assms(2,4) obtain t where t: "wakeup_proc sc p s = Some t" "sched_inv rq ready t"
    "state (procs t p) = PROC_RUNNABLE" "\<forall>q. q \<noteq> p \<longrightarrow> state (procs t q) = state (procs s q)"
    "\<forall>l. \<not> run_link l \<longrightarrow> nxt (klinks t) l = nxt (klinks s) l \<and> prv (klinks t) l = prv (klinks s) l" by auto
  have q: "rq ?s ?Q" by (rule same [of s]) (use assms(1) in \<open>auto simp: sched_inv_def intro: rq_same_upd\<close>)
  have "p \<notin> ?Q" "ready (procs ?s p)" using assms(2,3) by (simp_all add: ready_state)
  then obtain u where u: "enqueue sc p ?s = Some u" "sched_keeps ?s u" using enq [OF q] by blast
  have "wakeup_proc sc p s = sched_class_enqueue sc p ?s" using assms(2) c by (simp add: wakeup_proc_def Let_def)
  moreover have "p \<noteq> idleproc s" using assms(1,2) by (auto simp: sched_inv_def)
  ultimately have "t = u" using t(1) u(1) by (simp add: sched_class_enqueue_def)
  then show ?thesis using t u(2) wakeup_skel [OF t(1)] by (intro exI [of _ t]) (simp add: sched_keeps_def)
qed

lemma fork_enter_ok:
  assumes inv: "sched_inv rq ready (ks k)" and pids: "pid_inv (ks k) ps" "int (length ps) < MAX_PID - 1"
    and live: "\<forall>q. state (procs (ks k) q) \<noteq> PROC_UNINIT \<longrightarrow> q \<in> set ps \<or> pid (procs (ks k) q) = 0"
    and h: "hash_ok (ks k) P hs" "p \<notin> P"
    and p: "state (procs (ks k) p) = PROC_UNINIT" "ready (procs (ks k) p)" "p \<notin> set ps" "\<And>x i. ready (x\<lparr>pid := i\<rparr>) = ready x"
    and fam: "parent (procs (ks k) p) = Some par" "p \<noteq> par" "p \<notin> set cs" "kids (ks k) par cs"
  shows "\<exists>u i h. fork_enter sc p k = Some u \<and> pid (procs (ks u) p) = i \<and> 1 \<le> i \<and> i < MAX_PID \<and>
    (\<forall>q. q \<noteq> p \<longrightarrow> state (procs (ks u) q) \<noteq> PROC_UNINIT \<longrightarrow> pid (procs (ks u) q) \<noteq> i) \<and>
    state (procs (ks u) p) = PROC_RUNNABLE \<and> (\<forall>q. q \<noteq> p \<longrightarrow> state (procs (ks u) q) = state (procs (ks k) q)) \<and>
    kids (ks u) par (p # cs) \<and> pid_inv (ks u) (p # ps) \<and>
    pid_hashfn i = Some h \<and> hash_ok (ks u) (insert p P) (hs(h := p # hs h)) \<and>
    nr_process (ks u) = nr_process (ks k) + 1 \<and> sched_inv rq ready (ks u)"
proof -
  define s where "s = ks k"
  obtain i safe where g: "get_pid s = Some (i, s\<lparr>last_pid := i, next_safe := safe\<rparr>)" "1 \<le> i" "i < MAX_PID"
    "\<forall>q \<in> set ps. pid (procs s q) \<noteq> i" "safe \<le> MAX_PID" "gap s ps (i + 1) safe"
    using get_pid_ok [OF pids] by (auto simp: s_def)
  obtain hx where hx: "pid_hashfn i = Some hx" using pid_hashfn_total by blast
  define s1 where "s1 = upd_proc p (\<lambda>x. x\<lparr>pid := i\<rparr>) (s\<lparr>last_pid := i, next_safe := safe\<rparr>)"
  have k1: "klinks s1 = klinks s" "nr_process s1 = nr_process s" "last_pid s1 = i" "next_safe s1 = safe"
    and p1: "procs s1 q = (if q = p then (procs s p)\<lparr>pid := i\<rparr> else procs s q)" for q by (simp_all add: s1_def)
  have "hash_ok s1 P hs" using h by (auto simp: hash_ok_def k1 p1 s_def)
  from hash_proc_ok [OF this h(2), of hx] hx obtain s2 where s2: "hash_proc p s1 = Some s2"
    "s2 = upd_links (list_add (HashList hx) (HashLink p)) s1" "hash_ok s2 (insert p P) (hs(hx := p # hs hx))"
    "dlist (klinks s2) ProcList (map ListLink ps) = dlist (klinks s) ProcList (map ListLink ps)"
    by (auto simp: p1 k1)
  have p2: "procs s2 = procs s1" "nr_process s2 = nr_process s" "last_pid s2 = i" "next_safe s2 = safe"
    by (simp_all add: s2(2) k1)
  have kd: "kids s2 par cs" using fam(4) kids_cong [of s2 s par cs] by (simp add: p2 p1 s_def)
  have par: "parent (procs s2 p) = Some par" using fam(1) by (simp add: p2 p1 s_def)
  have pl: "dlist (klinks s2) ProcList (map ListLink ps)" using s2(4) pids(1) by (simp add: pid_inv_def s_def)
  from set_links_ok [OF kd par fam(3,2) pl p(3)] obtain t where t: "set_links p s2 = Some t" "kids t par (p # cs)"
    "dlist (klinks t) ProcList (map ListLink (p # ps))" "nr_process t = nr_process s + 1"
    "klinks t = list_add ProcList (ListLink p) (klinks s2)" "links_only s2 t" using p2 by auto
  have un: "unlinked (procs t q) = unlinked (procs s1 q)" for q using t(6) by (simp add: links_only_def p2)
  note ue = unlinked_eq [OF un]
  have ht: "hash_ok t (insert p P) (hs(hx := p # hs hx))"
  proof -
    have "dlist (klinks t) (HashList j) (map HashLink xs) = dlist (klinks s2) (HashList j) (map HashLink xs)" for j xs
      unfolding t(5) by (rule list_add_elsewhere [OF pl]) auto
    then show ?thesis using s2(3) by (simp add: hash_ok_def ue p2)
  qed
  have run: "nxt (klinks t) l = nxt (klinks s) l \<and> prv (klinks t) l = prv (klinks s) l" if "run_link l" for l
  proof -
    have d: "dlist (klinks s1) (HashList hx) (map HashLink (hs hx))" using \<open>hash_ok s1 P hs\<close> by (simp add: hash_ok_def)
    have "nxt (klinks s2) l = nxt (klinks s) l \<and> prv (klinks s2) l = prv (klinks s) l"
      using list_add_frame [OF d, of l "HashLink p"] that by (cases l) (auto simp: s2(2) k1)
    then show ?thesis unfolding t(5) using list_add_frame [OF pl, of l "ListLink p"] that by (cases l) auto
  qed
  have lo: "current t = current s" "idleproc t = idleproc s" "proc_num t = proc_num s" "run_pool t = run_pool s"
    "pool t = pool s" "last_pid t = i" "next_safe t = safe"
    using t(6) by (simp_all add: links_only_def s2(2) s1_def)
  have stt: "state (procs t q) = state (procs s q)" for q by (simp add: ue p1)
  have same_t: "rq_same s t" using run by (simp add: rq_same_def lo ue p1)
  have rd: "ready (procs t q) = ready (procs s q)" for q
    using arg_cong [OF un, of ready q] by (simp add: ready_family(1) p1 p(4) split: if_splits)
  have "inj_on (\<lambda>q. pid (procs t q)) {q. state (procs t q) \<noteq> PROC_UNINIT}"
    using inv p(1) unfolding sched_inv_def stt ue p1 by (auto simp: inj_on_def s_def)
  then have it: "sched_inv rq ready t"
    using inv same [OF same_t] unfolding sched_inv_def stt rd lo by (simp add: s_def)
  have fresh: "\<forall>q. state (procs t q) \<noteq> PROC_UNINIT \<longrightarrow> pid (procs t q) \<noteq> pid (procs t p)"
    using live g(2,4) p(1) unfolding stt ue p1 by (auto simp: s_def)
  from wakeup_new [OF it _ _ fresh] p(1,2) obtain u where u: "wakeup_proc sc p t = Some u" "sched_inv rq ready u"
    "state (procs u p) = PROC_RUNNABLE" "skel_same t u" "\<forall>q. q \<noteq> p \<longrightarrow> state (procs u q) = state (procs t q)"
    "last_pid u = i" "next_safe u = safe"
    "\<forall>l. \<not> run_link l \<longrightarrow> nxt (klinks u) l = nxt (klinks t) l \<and> prv (klinks u) l = prv (klinks t) l"
    unfolding stt rd lo(6,7) by (auto simp: s_def)
  note us = skel_same_sels [OF u(4)]
  have du: "dlist (klinks u) (HashList j) (map HashLink xs) = dlist (klinks t) (HashList j) (map HashLink xs)"
    "dlist (klinks u) ProcList (map ListLink xs) = dlist (klinks t) ProcList (map ListLink xs)" for j xs
    by (rule dlist_same_links; use u(8) in auto)+
  have hu: "hash_ok u (insert p P) (hs(hx := p # hs hx))" using ht by (simp add: hash_ok_def du us)
  have pu: "pid (procs u p) = i" "\<forall>q. q \<noteq> p \<longrightarrow> pid (procs u q) = pid (procs s q)" by (simp_all add: us ue p1)
  have "\<forall>q \<in> set ps. pid (procs u q) = pid (procs s q)" using pu(2) p(3) by metis
  then have "gap u (p # ps) (i + 1) safe" using g(6) pu(1) by (simp add: gap_def)
  moreover have "dlist (klinks u) ProcList (map ListLink (p # ps))" using t(3) du(2) by blast
  ultimately have iu: "pid_inv u (p # ps)" using g(2,5) u(6,7) by (simp add: pid_inv_def)
  have "fork_enter sc p k = Some (k\<lparr>ks := u\<rparr>)"
    using g(1) s2(1) t(1) u(1) by (simp add: fork_enter_def s_def [symmetric] s1_def)
  moreover have "\<forall>q. q \<noteq> p \<longrightarrow> state (procs u q) \<noteq> PROC_UNINIT \<longrightarrow> pid (procs u q) \<noteq> i"
    using fresh u(5) pu(1) unfolding us(6) by metis
  ultimately show ?thesis
    using g(2,3) pu u(2,3,5) t(2,4) kids_skel [OF u(4)] iu hx hu
    by (intro exI [of _ "k\<lparr>ks := u\<rparr>"] exI [of _ i] exI [of _ hx]) (simp add: us stt s_def)
qed

end

text \<open>C4: entering a new process returns: the child has an identifier between 1 and \<open>MAX_PID\<close> that no live process has, it is
  runnable and on the run queue, the youngest child of its parent, first in the process list and in the hash list of
  its identifier, where \<open>find_proc\<close> finds it; no other process changes its state, and the invariants of the
  identifiers, the lists and the scheduler hold again.\<close>

theorem fork_enters_child:
  assumes "sched_inv stride_rq (\<lambda>x. lab6_priority x \<noteq> 0) (ks k)" "pid_inv (ks k) ps" "int (length ps) < MAX_PID - 1"
    and "\<forall>q. state (procs (ks k) q) \<noteq> PROC_UNINIT \<longrightarrow> q \<in> set ps \<or> pid (procs (ks k) q) = 0"
    and "hash_ok (ks k) P hs" "p \<notin> P" "state (procs (ks k) p) = PROC_UNINIT" "lab6_priority (procs (ks k) p) \<noteq> 0" "p \<notin> set ps"
    and "parent (procs (ks k) p) = Some par" "p \<noteq> par" "p \<notin> set cs" "kids (ks k) par cs" "P \<subseteq> {q. state (procs (ks k) q) \<noteq> PROC_UNINIT}"
  shows "\<exists>u i h. fork_enter stride_sched_class p k = Some u \<and> pid (procs (ks u) p) = i \<and> 1 \<le> i \<and> i < MAX_PID \<and>
    (\<forall>q. q \<noteq> p \<longrightarrow> state (procs (ks u) q) \<noteq> PROC_UNINIT \<longrightarrow> pid (procs (ks u) q) \<noteq> i) \<and>
    state (procs (ks u) p) = PROC_RUNNABLE \<and> (\<forall>q. q \<noteq> p \<longrightarrow> state (procs (ks u) q) = state (procs (ks k) q)) \<and>
    kids (ks u) par (p # cs) \<and> pid_inv (ks u) (p # ps) \<and> hash_ok (ks u) (insert p P) (hs(h := p # hs h)) \<and>
    find_proc i (ks u) = Some (Some p) \<and> nr_process (ks u) = nr_process (ks k) + 1 \<and>
    sched_inv stride_rq (\<lambda>x. lab6_priority x \<noteq> 0) (ks u)"
proof -
  obtain u i h where u: "fork_enter stride_sched_class p k = Some u" "pid (procs (ks u) p) = i" "1 \<le> i" "i < MAX_PID"
    "\<forall>q. q \<noteq> p \<longrightarrow> state (procs (ks u) q) \<noteq> PROC_UNINIT \<longrightarrow> pid (procs (ks u) q) \<noteq> i"
    "state (procs (ks u) p) = PROC_RUNNABLE" "\<forall>q. q \<noteq> p \<longrightarrow> state (procs (ks u) q) = state (procs (ks k) q)"
    "kids (ks u) par (p # cs)" "pid_inv (ks u) (p # ps)" "hash_ok (ks u) (insert p P) (hs(h := p # hs h))"
    "nr_process (ks u) = nr_process (ks k) + 1" "sched_inv stride_rq (\<lambda>x. lab6_priority x \<noteq> 0) (ks u)"
    using stride_exit.fork_enter_ok [OF assms(1-9) _ assms(10-13)] by auto
  from find_proc_eq [OF u(10), of i] u(3,4) obtain r where r: "find_proc i (ks u) = Some r"
    "case r of None \<Rightarrow> \<forall>q \<in> insert p P. pid (procs (ks u) q) \<noteq> i | Some q \<Rightarrow> q \<in> insert p P \<and> pid (procs (ks u) q) = i" by auto
  have "r = Some p"
  proof (cases r)
    case None
    then show ?thesis using r(2) u(2) by simp
  next
    case (Some q)
    then show ?thesis using r(2) u(5,7) assms(14) by (cases "q = p") auto
  qed
  with u r(1) show ?thesis by (intro exI [of _ u] exI [of _ i] exI [of _ h]) simp
qed

definition ex_fork :: kern where
  "ex_fork = ex_kern\<lparr>ks := (upd_proc 4 (\<lambda>x. x\<lparr>parent := Some 2\<rparr>) ex_life)\<lparr>last_pid := 3, next_safe := 8192\<rparr>\<rparr>"

lemma ex_fork_sels:
  "procs (ks ex_fork) q = (if q = 4 then (ex_life_procs 4)\<lparr>parent := Some 2\<rparr> else ex_life_procs q)"
  "klinks (ks ex_fork) = klinks ex_life" "current (ks ex_fork) = 2" "idleproc (ks ex_fork) = 0"
  "last_pid (ks ex_fork) = 3" "next_safe (ks ex_fork) = 8192"
  by (simp_all add: ex_fork_def ex_life_sels)

lemma ex_fork_inv: "sched_inv stride_rq (\<lambda>x. lab6_priority x \<noteq> 0) (ks ex_fork)"
proof -
  have "rq_same ex_life (ks ex_fork)" by (simp add: rq_same_def ex_fork_def)
  note q = stride.same [OF this]
  have st: "state (procs (ks ex_fork) p) = state (procs ex_life p)" "pid (procs (ks ex_fork) p) = pid (procs ex_life p)"
    "lab6_priority (procs (ks ex_fork) p) = lab6_priority (procs ex_life p)" for p by (simp_all add: ex_fork_sels ex_life_sels)
  have c: "current (ks ex_fork) = current ex_life" "idleproc (ks ex_fork) = idleproc ex_life" by (simp_all add: ex_fork_sels ex_life_sels)
  show ?thesis using ex_life_inv q unfolding sched_inv_def st c by blast
qed

theorem fork_enters_child_witness:
  "\<exists>u i. fork_enter stride_sched_class 4 ex_fork = Some u \<and> pid (procs (ks u) 4) = i \<and> 1 \<le> i \<and> kids (ks u) 2 [4, 3] \<and>
    find_proc i (ks u) = Some (Some 4)"
proof -
  have pids: "pid_inv (ks ex_fork) [3, 2, 1]"
    using ex_life_list by (simp add: pid_inv_def ex_fork_sels gap_def ex_life_procs_sels MAX_PID_val)
  have live: "\<forall>q. state (procs (ks ex_fork) q) \<noteq> PROC_UNINIT \<longrightarrow> q \<in> set [3, 2, 1] \<or> pid (procs (ks ex_fork) q) = 0"
    by (auto simp: ex_fork_sels ex_life_procs_sels)
  have h: "hash_ok (ks ex_fork) {1, 2, 3} ex_life_hash"
    using ex_life_hashed by (auto simp: hash_ok_def ex_fork_sels ex_life_sels)
  have kd: "kids (ks ex_fork) 2 [3]" using ex_life_kids(2) by (simp add: kids_def ex_fork_sels ex_life_sels)
  have s: "state (procs (ks ex_fork) 4) = PROC_UNINIT" "lab6_priority (procs (ks ex_fork) 4) \<noteq> 0"
    "parent (procs (ks ex_fork) 4) = Some 2" by (simp_all add: ex_fork_sels ex_life_procs_sels)
  have lv: "{1, 2, 3} \<subseteq> {q. state (procs (ks ex_fork) q) \<noteq> PROC_UNINIT}"
    by (auto simp: ex_fork_sels ex_life_procs_sels)
  show ?thesis
    using fork_enters_child [OF ex_fork_inv pids _ live h _ s(1,2) _ s(3) _ _ kd lv] by (auto simp: MAX_PID_val)
qed

end
