(* ===== verification/Exec.thy ===== *)
theory Exec
  imports Lifecycle
begin

section \<open>Executing a program (kern/process/proc.c, libs/elf.h)\<close>

text \<open>
  \<open>do_execve\<close> and \<open>load_icode\<close>. The headers are read into the local variables \<open>__elf\<close> and
  \<open>__ph\<close> and their fields are taken from there, so that a read that fails (the code ignores what
  \<open>load_icode_read\<close> returns) leaves what the stack held.
\<close>

definition ELF_MAGIC :: "64 word" where "ELF_MAGIC = 0x464C457F"
definition ELF_PT_LOAD :: "64 word" where "ELF_PT_LOAD = 1"
definition ELF_PF_X :: "64 word" where "ELF_PF_X = 1"
definition ELF_PF_W :: "64 word" where "ELF_PF_W = 2"
definition ELF_PF_R :: "64 word" where "ELF_PF_R = 4"
definition EXEC_MAX_ARG_NUM :: int where "EXEC_MAX_ARG_NUM = 32"
definition EXEC_MAX_ARG_LEN :: nat where "EXEC_MAX_ARG_LEN = 4095"

text \<open>The fields of \<open>struct elfhdr\<close> and \<open>struct proghdr\<close> that the loader reads.\<close>

record elfhdr =
  e_magic :: "64 word"
  e_entry :: "64 word"
  e_phoff :: "64 word"
  e_phnum :: nat

record proghdr =
  p_type :: "64 word"
  p_flags :: "64 word"
  p_offset :: "64 word"
  p_va :: "64 word"
  p_filesz :: "64 word"
  p_memsz :: "64 word"

definition ELFHDR_SIZE :: "64 word" where "ELFHDR_SIZE = 64"
definition PROGHDR_SIZE :: "64 word" where "PROGHDR_SIZE = 56"

definition elfhdr_at :: "swap_manager \<Rightarrow> 64 word \<Rightarrow> kern \<Rightarrow> (elfhdr \<times> kern) option" where
  "elfhdr_at sm a k = do {
     (mg, k) \<leftarrow> load_word sm a 4 k;
     (en, k) \<leftarrow> load_word sm (a + 24) 8 k;
     (ph, k) \<leftarrow> load_word sm (a + 32) 8 k;
     (pn, k) \<leftarrow> load_word sm (a + 56) 2 k;
     Some (\<lparr>e_magic = mg, e_entry = en, e_phoff = ph, e_phnum = unat pn\<rparr>, k)
   }"

definition proghdr_at :: "swap_manager \<Rightarrow> 64 word \<Rightarrow> kern \<Rightarrow> (proghdr \<times> kern) option" where
  "proghdr_at sm a k = do {
     (ty, k) \<leftarrow> load_word sm a 4 k;
     (fl, k) \<leftarrow> load_word sm (a + 4) 4 k;
     (off, k) \<leftarrow> load_word sm (a + 8) 8 k;
     (va, k) \<leftarrow> load_word sm (a + 16) 8 k;
     (fs, k) \<leftarrow> load_word sm (a + 32) 8 k;
     (ms, k) \<leftarrow> load_word sm (a + 40) 8 k;
     Some (\<lparr>p_type = ty, p_flags = fl, p_offset = off, p_va = va, p_filesz = fs, p_memsz = ms\<rparr>, k)
   }"

subsection \<open>Reading the file\<close>

definition load_icode_read :: "swap_manager \<Rightarrow> int \<Rightarrow> 64 word \<Rightarrow> 64 word \<Rightarrow> 64 word \<Rightarrow> kern \<Rightarrow> (int \<times> kern) option" where
  "load_icode_read sm fd' buf len offset k = do {
     (ret, k) \<leftarrow> sysfile_seek fd' offset LSEEK_SET k;
     if ret \<noteq> 0 then Some (ret, k)
     else do {
       (ret, k) \<leftarrow> sysfile_read sm fd' buf len k;
       Some (if word_of_int ret \<noteq> len then if ret < 0 then ret else -1 else 0, k)
     }
   }"

subsection \<open>Segments\<close>

definition segment_flags :: "64 word \<Rightarrow> 32 word" where
  "segment_flags f =
     (if f AND ELF_PF_X \<noteq> 0 then VM_EXEC else 0) OR (if f AND ELF_PF_W \<noteq> 0 then VM_WRITE else 0) OR
     (if f AND ELF_PF_R \<noteq> 0 then VM_READ else 0)"

definition segment_perm :: "32 word \<Rightarrow> 64 word" where
  "segment_perm v =
     PTE_U OR PTE_V OR (if v AND VM_READ \<noteq> 0 then PTE_R else 0) OR
     (if v AND VM_WRITE \<noteq> 0 then PTE_W OR PTE_R else 0) OR (if v AND VM_EXEC \<noteq> 0 then PTE_X else 0)"

text \<open>The size of the piece of \<open>[start, end)\<close> that lies on the page that ends at \<open>la\<close>.\<close>

definition piece :: "64 word \<Rightarrow> 64 word \<Rightarrow> 64 word \<Rightarrow> 64 word" where
  "piece off e la = (let size = PGSIZE - off in if e < la then size - (la - e) else size)"

text \<open>The pages with file contents: \<open>ret\<close>, the last page, \<open>start\<close>, \<open>la\<close>.\<close>

partial_function (option) text_loop ::
    "swap_manager \<Rightarrow> int \<Rightarrow> nat \<Rightarrow> 64 word \<Rightarrow> nat option \<Rightarrow> 64 word \<Rightarrow> 64 word \<Rightarrow> 64 word \<Rightarrow> 64 word \<Rightarrow> kern \<Rightarrow>
     (bool \<times> nat option \<times> 64 word \<times> 64 word \<times> kern) option" where
  "text_loop sm fd' pd perm page start e la from k =
     (if start < e then do {
        (r, k) \<leftarrow> with_vm (pgdir_alloc_page sm pd la perm) k;
        case r of
          None \<Rightarrow> Some (False, None, start, la, k)
        | Some pg \<Rightarrow> do {
            let off = start - la;
            let la = la + PGSIZE;
            let size = piece off e la;
            kva \<leftarrow> page2kva pg (vmst k);
            (_, k) \<leftarrow> load_icode_read sm fd' (kva + off) size from k;
            text_loop sm fd' pd perm (Some pg) (start + size) e la (from + size) k
          }
      } else Some (True, page, start, la, k))"

text \<open>The rest of the last page, cleared; \<open>None\<close> for \<open>start\<close> when the segment ends there.\<close>

definition bss_first ::
    "swap_manager \<Rightarrow> nat option \<Rightarrow> 64 word \<Rightarrow> 64 word \<Rightarrow> 64 word \<Rightarrow> kern \<Rightarrow> (64 word option \<times> kern) option" where
  "bss_first sm page start e la k =
     (if start < la then
        (if start = e then Some (None, k)
         else do {
           let off = start + PGSIZE - la;
           let size = piece off e la;
           pg \<leftarrow> page;
           kva \<leftarrow> page2kva pg (vmst k);
           k \<leftarrow> fill_bytes sm (kva + off) 0 (unat size) k;
           let start = start + size;
           assert_c ((e < la \<and> start = e) \<or> (e \<ge> la \<and> start = la));
           Some (Some start, k)
         })
      else Some (Some start, k))"

partial_function (option) bss_loop ::
    "swap_manager \<Rightarrow> nat \<Rightarrow> 64 word \<Rightarrow> 64 word \<Rightarrow> 64 word \<Rightarrow> 64 word \<Rightarrow> kern \<Rightarrow> (bool \<times> kern) option" where
  "bss_loop sm pd perm start e la k =
     (if start < e then do {
        (r, k) \<leftarrow> with_vm (pgdir_alloc_page sm pd la perm) k;
        case r of
          None \<Rightarrow> Some (False, k)
        | Some pg \<Rightarrow> do {
            let off = start - la;
            let la = la + PGSIZE;
            let size = piece off e la;
            kva \<leftarrow> page2kva pg (vmst k);
            k \<leftarrow> fill_bytes sm (kva + off) 0 (unat size) k;
            bss_loop sm pd perm (start + size) e la k
          }
      } else Some (True, k))"

declare text_loop.simps [code] bss_loop.simps [code]

text \<open>One turn of the loop over the program headers; the result is \<open>ret\<close>.\<close>

definition load_segment :: "swap_manager \<Rightarrow> int \<Rightarrow> nat \<Rightarrow> nat \<Rightarrow> 64 word \<Rightarrow> kern \<Rightarrow> (int \<times> kern) option" where
  "load_segment sm fd' mm pd ph_off k = do {
     (_, k) \<leftarrow> load_icode_read sm fd' (ph_at k) PROGHDR_SIZE ph_off k;
     (ph, k) \<leftarrow> proghdr_at sm (ph_at k) k;
     if p_type ph \<noteq> ELF_PT_LOAD then Some (0, k)
     else if p_filesz ph > p_memsz ph then Some (- E_INVAL_ELF, k)
     else do {
       let vm_flags = segment_flags (p_flags ph);
       let perm = segment_perm vm_flags;
       (ret, k) \<leftarrow> with_vm (\<lambda>s. do { (r, _, s) \<leftarrow> mm_map (Some mm) (p_va ph) (p_memsz ph) vm_flags s; Some (r, s) }) k;
       if ret \<noteq> 0 then Some (ret, k)
       else do {
         let start = p_va ph;
         (ok, page, start, la, k) \<leftarrow>
           text_loop sm fd' pd perm None start (p_va ph + p_filesz ph) (ROUNDDOWN start PGSIZE) (p_offset ph) k;
         if \<not> ok then Some (- E_NO_MEM, k)
         else do {
           let e = p_va ph + p_memsz ph;
           (r, k) \<leftarrow> bss_first sm page start e la k;
           case r of
             None \<Rightarrow> Some (0, k)
           | Some start \<Rightarrow> do {
               (ok, k) \<leftarrow> bss_loop sm pd perm start e la k;
               Some (if ok then 0 else - E_NO_MEM, k)
             }
         }
       }
     }
   }"

fun load_segments :: "swap_manager \<Rightarrow> int \<Rightarrow> nat \<Rightarrow> nat \<Rightarrow> 64 word \<Rightarrow> nat list \<Rightarrow> kern \<Rightarrow> (int \<times> kern) option" where
  "load_segments sm fd' mm pd phoff [] k = Some (0, k)"
| "load_segments sm fd' mm pd phoff (i # is) k = do {
     (ret, k) \<leftarrow> load_segment sm fd' mm pd (phoff + PROGHDR_SIZE * of_nat i) k;
     if ret \<noteq> 0 then Some (ret, k) else load_segments sm fd' mm pd phoff is k
   }"

subsection \<open>The user stack\<close>

text \<open>The four pages below \<open>USTACKTOP\<close>.\<close>

fun stack_pages :: "swap_manager \<Rightarrow> nat \<Rightarrow> 64 word list \<Rightarrow> kern \<Rightarrow> kern option" where
  "stack_pages sm pd [] k = Some k"
| "stack_pages sm pd (i # is) k = do {
     (r, k) \<leftarrow> with_vm (pgdir_alloc_page sm pd (USTACKTOP - i * PGSIZE) PTE_USER) k;
     assert_c (r \<noteq> None);
     stack_pages sm pd is k
   }"

text \<open>\<open>argv_size\<close> has 32 bits.\<close>

fun argv_bytes :: "swap_manager \<Rightarrow> 64 word list \<Rightarrow> 32 word \<Rightarrow> kern \<Rightarrow> (32 word \<times> kern) option" where
  "argv_bytes sm [] n k = Some (n, k)"
| "argv_bytes sm (a # as) n k = do {
     (l, k) \<leftarrow> strnlen_at sm a (EXEC_MAX_ARG_LEN + 1) k;
     argv_bytes sm as (n + of_nat l + 1) k
   }"

text \<open>\<open>strcpy\<close> from a kernel buffer to the user stack, then the pointer into \<open>uargv\<close>.\<close>

partial_function (option) strcpy_at :: "swap_manager \<Rightarrow> 64 word \<Rightarrow> 64 word \<Rightarrow> kern \<Rightarrow> kern option" where
  "strcpy_at sm dst src k = do {
     (b, k) \<leftarrow> load8 sm src k;
     k \<leftarrow> store8 sm dst b k;
     if b = 0 then Some k else strcpy_at sm (dst + 1) (src + 1) k
   }"

declare strcpy_at.simps [code]

fun put_args :: "swap_manager \<Rightarrow> 64 word \<Rightarrow> 64 word \<Rightarrow> 64 word list \<Rightarrow> 32 word \<Rightarrow> kern \<Rightarrow> kern option" where
  "put_args sm stacktop uargv [] n k = Some k"
| "put_args sm stacktop uargv (a # as) n k = do {
     let dst = stacktop + ucast n;
     k \<leftarrow> strcpy_at sm dst a k;
     k \<leftarrow> store_word sm uargv 8 dst k;
     (l, k) \<leftarrow> strnlen_at sm a (EXEC_MAX_ARG_LEN + 1) k;
     put_args sm stacktop (uargv + 8) as (n + of_nat l + 1) k
   }"

definition user_frame :: "64 word \<Rightarrow> 64 word \<Rightarrow> trapframe \<Rightarrow> trapframe" where
  "user_frame sp' epc tf =
     \<lparr>gpr = (\<lambda>_. 0)(SP := sp'), tf_status = tf_status tf AND NOT (SSTATUS_SPP OR SSTATUS_SPIE),
      tf_epc = epc, tf_tval = 0, tf_cause = 0\<rparr>"

text \<open>Steps (4) to (7) of \<open>load_icode\<close>, after the file has been closed.\<close>

definition setup_user :: "swap_manager \<Rightarrow> nat \<Rightarrow> nat \<Rightarrow> 64 word \<Rightarrow> 64 word list \<Rightarrow> kern \<Rightarrow> kern option" where
  "setup_user sm mm pd entry kargv k = do {
     k \<leftarrow> stack_pages sm pd [1, 2, 3, 4] k;
     let k = k\<lparr>vmst := snd (mm_count_inc mm (vmst k))\<rparr>;
     cr3 \<leftarrow> pgdir_pa pd k;
     let k = lcr3 cr3 (upd_cur (\<lambda>x. x\<lparr>proc_mm := Some mm, proc_cr3 := cr3\<rparr>) k);
     (size, k) \<leftarrow> argv_bytes sm kargv 0 k;
     let argc = of_nat (length kargv);
     let stacktop = USTACKTOP - (ucast size div 8 + 1) * 8;
     let uargv = stacktop - argc * 8;
     k \<leftarrow> put_args sm stacktop uargv kargv 0 k;
     let stacktop = uargv - 4;
     k \<leftarrow> store_word sm stacktop 4 argc k;
     a \<leftarrow> proc_tf (cur_proc k);
     Some (k\<lparr>tfs := (tfs k)(a := user_frame stacktop entry (tfs k a))\<rparr>)
   }"

definition load_icode :: "swap_manager \<Rightarrow> int \<Rightarrow> 64 word list \<Rightarrow> kern \<Rightarrow> (int \<times> kern) option" where
  "load_icode sm fd' kargv k = do {
     assert_c (cur_mm k = None);
     case mm_create sm (vmst k) of
       (None, s) \<Rightarrow> Some (- E_NO_MEM, k\<lparr>vmst := s\<rparr>)
     | (Some mm, s) \<Rightarrow> do {
         (r, k) \<leftarrow> setup_pgdir sm mm (k\<lparr>vmst := s\<rparr>);
         if r \<noteq> 0 then do { k \<leftarrow> with_vm0 (mm_destroy mm) k; Some (- E_NO_MEM, k) }
         else do {
           (_, k) \<leftarrow> load_icode_read sm fd' (elf_at k) ELFHDR_SIZE 0 k;
           (elf, k) \<leftarrow> elfhdr_at sm (elf_at k) k;
           if e_magic elf \<noteq> ELF_MAGIC then do {
             k \<leftarrow> put_pgdir mm k;
             k \<leftarrow> with_vm0 (mm_destroy mm) k;
             Some (- E_INVAL_ELF, k)
           }
           else do {
             pd \<leftarrow> pgdir (mms (vmst k) mm);
             (ret, k) \<leftarrow> load_segments sm fd' mm pd (e_phoff elf) [0..<e_phnum elf] k;
             if ret \<noteq> 0 then do { k \<leftarrow> drop_mm mm k; Some (ret, k) }
             else do {
               (_, k) \<leftarrow> sysfile_close fd' k;
               (ret, k) \<leftarrow> with_vm (\<lambda>s. do {
                   (r, _, s) \<leftarrow> mm_map (Some mm) (USTACKTOP - USTACKSIZE) USTACKSIZE (VM_READ OR VM_WRITE OR VM_STACK) s;
                   Some (r, s) }) k;
               if ret \<noteq> 0 then do { k \<leftarrow> drop_mm mm k; Some (ret, k) }
               else do { k \<leftarrow> setup_user sm mm pd (e_entry elf) kargv k; Some (0, k) }
             }
           }
         }
       }
   }"

subsection \<open>Arguments\<close>

definition put_kargv :: "64 word list \<Rightarrow> kern \<Rightarrow> kern" where
  "put_kargv kargv k = foldr kfree_buf kargv k"

fun copy_kargv_loop ::
    "swap_manager \<Rightarrow> nat option \<Rightarrow> nat \<Rightarrow> 64 word \<Rightarrow> 64 word list \<Rightarrow> kern \<Rightarrow> (int \<times> 64 word list \<times> kern) option" where
  "copy_kargv_loop sm mm 0 argv kargv k = Some (0, kargv, k)"
| "copy_kargv_loop sm mm (Suc n) argv kargv k =
     (case kmalloc_buf k of
        (None, k) \<Rightarrow> Some (- E_NO_MEM, [], put_kargv kargv k)
      | (Some buffer, k) \<Rightarrow> do {
          (a, k) \<leftarrow> load_word sm argv 8 k;
          (ok, k) \<leftarrow> copy_string sm mm buffer a (of_nat (EXEC_MAX_ARG_LEN + 1)) k;
          if \<not> ok then Some (- E_INVAL, [], put_kargv kargv (kfree_buf buffer k))
          else copy_kargv_loop sm mm n (argv + 8) (kargv @ [buffer]) k
        })"

definition copy_kargv ::
    "swap_manager \<Rightarrow> nat option \<Rightarrow> nat \<Rightarrow> 64 word \<Rightarrow> kern \<Rightarrow> (int \<times> 64 word list \<times> kern) option" where
  "copy_kargv sm mm argc argv k = do {
     (ok, k) \<leftarrow> mem_check mm argv (8 * of_nat argc) False k;
     if \<not> ok then Some (- E_INVAL, [], k) else copy_kargv_loop sm mm argc argv [] k
   }"

subsection \<open>\<open>do_execve\<close>\<close>

text \<open>From the label \<open>execve_exit\<close>: the process ends.\<close>

definition execve_exit :: "sched_class \<Rightarrow> int \<Rightarrow> 64 word list \<Rightarrow> kern \<Rightarrow> (call_result \<times> kern) option" where
  "execve_exit sc ret kargv k = do { k \<leftarrow> do_exit sc ret (put_kargv kargv k); Some (Exited, k) }"

definition exec_name :: "swap_manager \<Rightarrow> nat option \<Rightarrow> 64 word \<Rightarrow> kern \<Rightarrow> (string option \<times> kern) option" where
  "exec_name sm mm name k =
     (if name = 0 then do {
        (str, _) \<leftarrow> snprintf False (PROC_NAME_LEN + 1) ''<null> %d'' [VInt (word_of_int (pid (cur_proc k)))];
        Some (Some (takeWhile (\<lambda>c. c \<noteq> CHR 0x00) str), k)
      }
      else do {
        k \<leftarrow> fill_bytes sm (name_at k) 0 (PROC_NAME_LEN + 1) k;
        (ok, k) \<leftarrow> copy_string sm mm (name_at k) name (of_nat (PROC_NAME_LEN + 1)) k;
        if \<not> ok then Some (None, k)
        else do { (str, k) \<leftarrow> string_at sm (name_at k) (PROC_NAME_LEN + 1) k; Some (Some str, k) }
      })"

definition do_execve ::
    "sched_class \<Rightarrow> swap_manager \<Rightarrow> 64 word \<Rightarrow> int \<Rightarrow> 64 word \<Rightarrow> kern \<Rightarrow> (call_result \<times> kern) option" where
  "do_execve sc sm name argc argv k = do {
     let mm = cur_mm k;
     if \<not> (1 \<le> argc \<and> argc \<le> EXEC_MAX_ARG_NUM) then Some (Returned (- E_INVAL), k)
     else do {
       k \<leftarrow> lock_mm mm k;
       (str, k) \<leftarrow> exec_name sm mm name k;
       case str of
         None \<Rightarrow> Some (Returned (- E_INVAL), unlock_mm mm k)
       | Some local_name \<Rightarrow> do {
           (ret, kargv, k) \<leftarrow> copy_kargv sm mm (nat argc) argv k;
           if ret \<noteq> 0 then Some (Returned ret, unlock_mm mm k)
           else do {
             (path, k) \<leftarrow> load_word sm argv 8 k;
             let k = unlock_mm mm k;
             f \<leftarrow> filesp (cur_proc k);
             (_, k) \<leftarrow> with_fs (\<lambda>s. do { s \<leftarrow> files_closeall ktab f s; Some ((), s) }) k;
             (fd', k) \<leftarrow> sysfile_open sm path O_RDONLY k;
             if fd' < 0 then execve_exit sc fd' kargv k
             else do {
               k \<leftarrow> (case mm of
                   None \<Rightarrow> Some k
                 | Some m \<Rightarrow> do {
                     let k = lcr3 (boot_cr3 k) k;
                     let (c, s) = mm_count_dec m (vmst k);
                     let k = k\<lparr>vmst := s\<rparr>;
                     k \<leftarrow> (if c = 0 then drop_mm m k else Some k);
                     Some (upd_cur (\<lambda>x. x\<lparr>proc_mm := None\<rparr>) k)
                   });
               (ret, k) \<leftarrow> load_icode sm fd' kargv k;
               if ret \<noteq> 0 then execve_exit sc ret kargv k
               else do {
                 let k = put_kargv kargv k;
                 Some (Returned 0, upd_ks (set_proc_name (current (ks k)) local_name) k)
               }
             }
           }
         }
     }
   }"

end
