(* ===== verification/Syscall.thy ===== *)
theory Syscall
  imports Exec
begin

section \<open>System calls and traps (kern/syscall/syscall.c, kern/trap/trap.c)\<close>

text \<open>
  A handler takes the five argument registers. \<open>call_result\<close> says how the call ends: with a
  value, in the middle of a wait or a sleep (the caller sleeps and goes on in \<open>syscall_wait_resume\<close>
  or \<open>syscall_sleep_resume\<close>), or with the end of the process.

  Messages are not modelled. The character that the timer interrupt takes from the console is an
  argument, 0 when there is none.
\<close>

definition c_int_arg :: "64 word \<Rightarrow> int" where
  "c_int_arg w = sint (ucast w :: 32 word)"

subsection \<open>Handlers\<close>

type_synonym handler = "64 word list \<Rightarrow> kern \<Rightarrow> (call_result \<times> kern) option"

definition returns :: "(int \<times> kern) option \<Rightarrow> (call_result \<times> kern) option" where
  "returns x = do { (r, k) \<leftarrow> x; Some (Returned r, k) }"

definition sys_exit :: "sched_class \<Rightarrow> handler" where
  "sys_exit sc arg k = do { k \<leftarrow> do_exit sc (c_int_arg (arg ! 0)) k; Some (Exited, k) }"

definition sys_fork :: "sched_class \<Rightarrow> swap_manager \<Rightarrow> handler" where
  "sys_fork sc sm arg k = do {
     a \<leftarrow> proc_tf (cur_proc k);
     let tf = tfs k a;
     returns (do_fork sc sm 0 (gpr tf SP) tf k)
   }"

definition sys_wait :: "sched_class \<Rightarrow> swap_manager \<Rightarrow> handler" where
  "sys_wait sc sm arg k = do_wait sc sm (c_int_arg (arg ! 0)) (arg ! 1) k"

definition sys_exec :: "sched_class \<Rightarrow> swap_manager \<Rightarrow> handler" where
  "sys_exec sc sm arg k = do_execve sc sm (arg ! 0) (c_int_arg (arg ! 1)) (arg ! 2) k"

definition sys_yield :: handler where
  "sys_yield arg k = (let (r, s) = do_yield (ks k) in Some (Returned r, k\<lparr>ks := s\<rparr>))"

definition sys_kill :: "sched_class \<Rightarrow> handler" where
  "sys_kill sc arg k = do { (r, s) \<leftarrow> do_kill sc (c_int_arg (arg ! 0)) (ks k); Some (Returned r, k\<lparr>ks := s\<rparr>) }"

definition sys_getpid :: handler where
  "sys_getpid arg k = Some (Returned (pid (cur_proc k)), k)"

definition sys_putc :: handler where
  "sys_putc arg k =
     Some (Returned 0, k\<lparr>fsys := upd_low (\<lambda>l. l\<lparr>console := ucast (arg ! 0) # console l\<rparr>) (fsys k)\<rparr>)"

definition sys_pgdir :: handler where "sys_pgdir arg k = Some (Returned 0, k)"

definition sys_gettime :: handler where
  "sys_gettime arg k = Some (Returned (sint (ucast (ticks k) * 10 :: 32 word)), k)"

definition sys_lab6_set_priority :: handler where
  "sys_lab6_set_priority arg k = Some (Returned 0, upd_ks (lab6_set_priority (ucast (arg ! 0))) k)"

text \<open>The timer on the caller's stack has the number of the process.\<close>

definition sys_sleep :: "sched_class \<Rightarrow> handler" where
  "sys_sleep sc arg k = do {
     let t = current (ks k);
     (asleep, s) \<leftarrow> do_sleep_begin sc t (unat (ucast (arg ! 0) :: 32 word)) (ks k);
     Some (if asleep then InSleep t else Returned 0, k\<lparr>ks := s\<rparr>)
   }"

definition sys_open :: "swap_manager \<Rightarrow> handler" where
  "sys_open sm arg k = returns (sysfile_open sm (arg ! 0) (ucast (arg ! 1)) k)"

definition sys_close :: handler where
  "sys_close arg k = returns (sysfile_close (c_int_arg (arg ! 0)) k)"

definition sys_read :: "swap_manager \<Rightarrow> handler" where
  "sys_read sm arg k = returns (sysfile_read sm (c_int_arg (arg ! 0)) (arg ! 1) (arg ! 2) k)"

definition sys_write :: "swap_manager \<Rightarrow> handler" where
  "sys_write sm arg k = returns (sysfile_write sm (c_int_arg (arg ! 0)) (arg ! 1) (arg ! 2) k)"

definition sys_seek :: handler where
  "sys_seek arg k = returns (sysfile_seek (c_int_arg (arg ! 0)) (arg ! 1) (c_int_arg (arg ! 2)) k)"

definition sys_fstat :: "swap_manager \<Rightarrow> handler" where
  "sys_fstat sm arg k = returns (sysfile_fstat sm (c_int_arg (arg ! 0)) (arg ! 1) k)"

definition sys_fsync :: handler where
  "sys_fsync arg k = returns (sysfile_fsync (c_int_arg (arg ! 0)) k)"

definition sys_getcwd :: "swap_manager \<Rightarrow> handler" where
  "sys_getcwd sm arg k = returns (sysfile_getcwd sm (arg ! 0) (arg ! 1) k)"

definition sys_getdirentry :: "swap_manager \<Rightarrow> handler" where
  "sys_getdirentry sm arg k = returns (sysfile_getdirentry sm (c_int_arg (arg ! 0)) (arg ! 1) k)"

definition sys_dup :: handler where
  "sys_dup arg k = returns (sysfile_dup (c_int_arg (arg ! 0)) (c_int_arg (arg ! 1)) k)"

subsection \<open>Dispatch\<close>

text \<open>The table; an entry that is null is \<open>None\<close>. Its size is that of the last index, 255, and one.\<close>

definition syscalls :: "sched_class \<Rightarrow> swap_manager \<Rightarrow> int \<Rightarrow> handler option" where
  "syscalls sc sm num =
     map_of [(1, sys_exit sc), (2, sys_fork sc sm), (3, sys_wait sc sm), (4, sys_exec sc sm), (10, sys_yield),
       (12, sys_kill sc), (18, sys_getpid), (30, sys_putc), (31, sys_pgdir), (17, sys_gettime),
       (255, sys_lab6_set_priority), (11, sys_sleep sc), (100, sys_open sm), (101, sys_close),
       (102, sys_read sm), (103, sys_write sm), (104, sys_seek), (110, sys_fstat sm), (111, sys_fsync),
       (121, sys_getcwd sm), (128, sys_getdirentry sm), (130, sys_dup)] num"

definition NUM_SYSCALLS :: int where "NUM_SYSCALLS = 256"

definition set_gpr :: "64 word \<Rightarrow> pushregs \<Rightarrow> 64 word \<Rightarrow> kern \<Rightarrow> kern" where
  "set_gpr a r w k = k\<lparr>tfs := (tfs k)(a := (tfs k a)\<lparr>gpr := (gpr (tfs k a))(r := w)\<rparr>)\<rparr>"

definition syscall :: "sched_class \<Rightarrow> swap_manager \<Rightarrow> kern \<Rightarrow> (call_result \<times> kern) option" where
  "syscall sc sm k = do {
     a \<leftarrow> proc_tf (cur_proc k);
     let g = gpr (tfs k a);
     let num = c_int_arg (g A0);
     assert_c (num \<ge> 0 \<and> num < NUM_SYSCALLS);
     f \<leftarrow> syscalls sc sm num;
     (r, k) \<leftarrow> f [g A1, g A2, g A3, g A4, g A5] k;
     Some (r, case r of Returned v \<Rightarrow> set_gpr a A0 (word_of_int v) k | _ \<Rightarrow> k)
   }"

text \<open>When the scheduler returns to a process that waits or sleeps inside a call.\<close>

definition syscall_wait_resume ::
    "sched_class \<Rightarrow> swap_manager \<Rightarrow> int \<Rightarrow> 64 word \<Rightarrow> kern \<Rightarrow> (call_result \<times> kern) option" where
  "syscall_wait_resume sc sm i store k = do {
     a \<leftarrow> proc_tf (cur_proc k);
     (r, k) \<leftarrow> do_wait_resume sc sm i store k;
     Some (r, case r of Returned v \<Rightarrow> set_gpr a A0 (word_of_int v) k | _ \<Rightarrow> k)
   }"

definition syscall_sleep_resume :: "nat \<Rightarrow> kern \<Rightarrow> (call_result \<times> kern) option" where
  "syscall_sleep_resume t k = do {
     a \<leftarrow> proc_tf (cur_proc k);
     (r, s) \<leftarrow> do_sleep_end t (ks k);
     Some (Returned r, set_gpr a A0 (word_of_int r) (k\<lparr>ks := s\<rparr>))
   }"

subsection \<open>Traps\<close>

definition IRQ_S_TIMER :: "64 word" where "IRQ_S_TIMER = 5"
definition CAUSE_BREAKPOINT :: "64 word" where "CAUSE_BREAKPOINT = 3"
definition CAUSE_LOAD_ACCESS :: "64 word" where "CAUSE_LOAD_ACCESS = 5"
definition CAUSE_MISALIGNED_STORE :: "64 word" where "CAUSE_MISALIGNED_STORE = 6"
definition CAUSE_STORE_ACCESS :: "64 word" where "CAUSE_STORE_ACCESS = 7"
definition CAUSE_USER_ECALL :: "64 word" where "CAUSE_USER_ECALL = 8"
definition CAUSE_SUPERVISOR_ECALL :: "64 word" where "CAUSE_SUPERVISOR_ECALL = 9"

definition trap_in_kernel :: "trapframe \<Rightarrow> bool" where
  "trap_in_kernel tf \<longleftrightarrow> tf_status tf AND SSTATUS_SPP \<noteq> 0"

definition interrupt_handler :: "sched_class \<Rightarrow> byte \<Rightarrow> 64 word \<Rightarrow> kern \<Rightarrow> kern option" where
  "interrupt_handler sc c a k =
     (if tf_cause (tfs k a) AND 0x7FFFFFFFFFFFFFFF = IRQ_S_TIMER then do {
        let k = k\<lparr>ticks := ticks k + 1\<rparr>;
        k \<leftarrow> with_ks (run_timer_list sc) k;
        Some (k\<lparr>fsys := dev_stdin_write c (fsys k)\<rparr>)
      } else Some k)"

text \<open>How a trap ends: the handler comes back, or the call did not return, or the processor goes straight to user mode.\<close>

datatype trap_end = Back | Call call_result | ToUser "64 word"

definition fault_or_panic :: "swap_manager \<Rightarrow> 64 word \<Rightarrow> kern \<Rightarrow> (trap_end \<times> kern) option" where
  "fault_or_panic sm a k = do {
     (ret, k) \<leftarrow> pgfault_handler sm (tf_cause (tfs k a)) (tf_tval (tfs k a)) k;
     assert_c (ret = 0);
     Some (Back, k)
   }"

definition call_end :: "(call_result \<times> kern) option \<Rightarrow> (trap_end \<times> kern) option" where
  "call_end x = do { (r, k) \<leftarrow> x; Some (case r of Returned _ \<Rightarrow> Back | _ \<Rightarrow> Call r, k) }"

definition skip_insn :: "64 word \<Rightarrow> kern \<Rightarrow> kern" where
  "skip_insn a k = k\<lparr>tfs := (tfs k)(a := (tfs k a)\<lparr>tf_epc := tf_epc (tfs k a) + 4\<rparr>)\<rparr>"

text \<open>\<open>kernel_execve_ret\<close> (trapentry.S) copies the frame below the top of the kernel stack and leaves through it.\<close>

definition kernel_execve_ret :: "64 word \<Rightarrow> 64 word \<Rightarrow> kern \<Rightarrow> trap_end \<times> kern" where
  "kernel_execve_ret a kstacktop k =
     (let b = kstacktop - TRAPFRAME_SIZE in (ToUser b, k\<lparr>tfs := (tfs k)(b := tfs k a)\<rparr>))"

definition exception_handler :: "sched_class \<Rightarrow> swap_manager \<Rightarrow> 64 word \<Rightarrow> kern \<Rightarrow> (trap_end \<times> kern) option" where
  "exception_handler sc sm a k =
     (let cause = tf_cause (tfs k a)
      in if cause = CAUSE_BREAKPOINT then
           (if gpr (tfs k a) A7 = 10 then do {
              (r, k) \<leftarrow> call_end (syscall sc sm (skip_insn a k));
              Some (if r = Back then kernel_execve_ret a (kstack (cur_proc k) + KSTACKSIZE) k else (r, k))
            } else Some (Back, k))
         else if cause = CAUSE_MISALIGNED_STORE then None
         else if cause = CAUSE_LOAD_ACCESS \<or> cause = CAUSE_STORE_ACCESS \<or>
                 cause = CAUSE_LOAD_PAGE_FAULT \<or> cause = CAUSE_STORE_PAGE_FAULT then fault_or_panic sm a k
         else if cause = CAUSE_USER_ECALL \<or> cause = CAUSE_SUPERVISOR_ECALL then
           call_end (syscall sc sm (skip_insn a k))
         else Some (Back, k))"

definition trap_dispatch ::
    "sched_class \<Rightarrow> swap_manager \<Rightarrow> byte \<Rightarrow> 64 word \<Rightarrow> kern \<Rightarrow> (trap_end \<times> kern) option" where
  "trap_dispatch sc sm c a k =
     (if sint (tf_cause (tfs k a)) < 0 then do { k \<leftarrow> interrupt_handler sc c a k; Some (Back, k) }
      else exception_handler sc sm a k)"

text \<open>The second half of \<open>trap\<close>; after a call that gave up the processor it runs when the process is resumed.\<close>

definition trap_leave :: "sched_class \<Rightarrow> 64 word option \<Rightarrow> bool \<Rightarrow> kern \<Rightarrow> (trap_end \<times> kern) option" where
  "trap_leave sc otf in_kernel k = do {
     let k = upd_cur (\<lambda>x. x\<lparr>proc_tf := otf\<rparr>) k;
     if in_kernel then Some (Back, k)
     else if pflags (cur_proc k) AND PF_EXITING \<noteq> 0 then do { k \<leftarrow> do_exit sc (- E_KILLED) k; Some (Call Exited, k) }
     else if need_resched (cur_proc k) then do { k \<leftarrow> with_ks (schedule sc) k; Some (Back, k) }
     else Some (Back, k)
   }"

definition trap :: "sched_class \<Rightarrow> swap_manager \<Rightarrow> byte \<Rightarrow> 64 word \<Rightarrow> kern \<Rightarrow> (trap_end \<times> kern) option" where
  "trap sc sm c a k = do {
     let otf = proc_tf (cur_proc k);
     let k = upd_cur (\<lambda>x. x\<lparr>proc_tf := Some a\<rparr>) k;
     let in_kernel = trap_in_kernel (tfs k a);
     (r, k) \<leftarrow> trap_dispatch sc sm c a k;
     if r = Back then trap_leave sc otf in_kernel k else Some (r, k)
   }"

end
