(* ===== verification/Boot.thy ===== *)
theory Boot
  imports Syscall
begin

section \<open>The first processes (kern/process/proc.c)\<close>

text \<open>
  \<open>proc_init\<close>, the body of the second kernel thread \<open>init_main\<close> cut at the points where it gives
  up the processor, and one turn of the idle loop. \<open>init_at\<close> and \<open>user_at\<close> are the addresses of
  \<open>init_main\<close> and \<open>user_main\<close>, \<open>bootstack\<close> the address of the boot stack.
\<close>

fun hash_lists_init :: "nat list \<Rightarrow> kst \<Rightarrow> kst" where
  "hash_lists_init [] s = s"
| "hash_lists_init (h # hs) s = hash_lists_init hs (upd_links (list_init (HashList h)) s)"

definition proc_init ::
    "sched_class \<Rightarrow> swap_manager \<Rightarrow> 64 word \<Rightarrow> 64 word \<Rightarrow> kern \<Rightarrow> kern option" where
  "proc_init sc sm bootstack init_at k = do {
     let k = upd_ks (upd_links (list_init ProcList)) k;
     let k = upd_ks (hash_lists_init [0..<2 ^ HASH_SHIFT]) k;
     let (r, k) = alloc_proc k;
     p \<leftarrow> r;
     let k = upd_ks (\<lambda>s. s\<lparr>idleproc := p\<rparr>) k;
     let k = upd_ks (upd_proc p (\<lambda>x. x\<lparr>pid := 0, state := PROC_RUNNABLE, kstack := bootstack, need_resched := True\<rparr>)) k;
     let (f, s) = files_create (fsys k);
     let k = k\<lparr>fsys := s\<rparr>;
     fp \<leftarrow> f;
     let k = upd_ks (upd_proc p (\<lambda>x. x\<lparr>filesp := Some fp\<rparr>)) k;
     let k = k\<lparr>fsys := files_count_inc fp (fsys k)\<rparr>;
     let k = upd_ks (set_proc_name p ''idle'') k;
     let k = upd_ks (\<lambda>s. s\<lparr>nr_process := nr_process s + 1, current := p\<rparr>) k;
     (i, k) \<leftarrow> kernel_thread sc sm init_at 0 0 k;
     assert_c (i > 0);
     r \<leftarrow> find_proc i (ks k);
     q \<leftarrow> r;
     let k = upd_ks (\<lambda>s. s\<lparr>initproc := q\<rparr>) k;
     let k = upd_ks (set_proc_name q ''init'') k;
     assert_c (pid (procs (ks k) p) = 0);
     assert_c (pid (procs (ks k) q) = 1);
     Some k
   }"

definition init_main_begin :: "sched_class \<Rightarrow> swap_manager \<Rightarrow> 64 word \<Rightarrow> kern \<Rightarrow> kern option" where
  "init_main_begin sc sm user_at k = do {
     (ret, k) \<leftarrow> with_fs (vfs_set_bootfs ktab (Some ''disk0:'')) k;
     assert_c (ret = 0);
     (i, k) \<leftarrow> kernel_thread sc sm user_at 0 0 k;
     assert_c (i > 0);
     Some k
   }"

definition init_main_end :: "kern \<Rightarrow> kern option" where
  "init_main_end k = do {
     (_, k) \<leftarrow> with_fs (\<lambda>s. do { s \<leftarrow> fs_cleanup_all s; Some ((), s) }) k;
     let s = ks k;
     let q = initproc s;
     assert_c (cptr (procs s q) = None \<and> yptr (procs s q) = None \<and> optr (procs s q) = None);
     assert_c (nr_process s = 2);
     assert_c (list_next ProcList (klinks s) = ListLink q);
     assert_c (list_prev ProcList (klinks s) = ListLink q);
     Some k
   }"

text \<open>
  The loop of \<open>init_main\<close>: after a child was collected it yields with \<open>schedule\<close> and tries again,
  while it waits it sleeps inside \<open>do_wait\<close>, and when it has no child left it goes on to the end.
\<close>

definition init_main_step ::
    "sched_class \<Rightarrow> (call_result \<times> kern) option \<Rightarrow> (call_result option \<times> kern) option" where
  "init_main_step sc waited = do {
     (r, k) \<leftarrow> waited;
     case r of
       Returned v \<Rightarrow>
         if v = 0 then do { k \<leftarrow> with_ks (schedule sc) k; Some (Some (Returned 0), k) }
         else do { k \<leftarrow> init_main_end k; Some (None, k) }
     | _ \<Rightarrow> Some (Some r, k)
   }"

definition cpu_idle_step :: "sched_class \<Rightarrow> kern \<Rightarrow> kern option" where
  "cpu_idle_step sc k = (if need_resched (cur_proc k) then with_ks (schedule sc) k else Some k)"

end
