(* ===== verification/Spec2Isabelle.thy ===== *)
theory Spec2Isabelle
  imports Philosophers PrintFmt VmmProps SfsClaims FiletabProps ProcsProps LifeClaims KmallocClaims MonitorProps SwapProps MksfsClaims ShellProps PmmInit ForkClaims Boot
begin

text \<open>
  TriOS is a teaching operating system for RISC-V in eight stages; the directories \<open>lab0\<close> to \<open>lab8\<close> are
  copies of one kernel that grows from stage to stage. The development verifies the last stage,
  \<open>src/lab8\<close>, and from the earlier ones what \<open>lab8\<close> no longer has: the best-fit page allocator of
  \<open>lab2\<close> and the round-robin scheduler of \<open>lab7\<close>. A theory names the files it models in its first
  section. Directories below are those of \<open>src/lab8\<close>.

  Conventions. An operation is a function from its arguments and the state to \<open>Some (result, state)\<close>;
  \<open>None\<close> is a panic, a failed assertion, an access outside every object, or a call that does not
  return. Error numbers are negative integers as in the code. Structures are records, pointers to a
  structure are numbers or the values of a datatype with one constructor for every place a link can lie
  in, and \<open>NULL\<close> is \<open>None\<close>. A machine word keeps its width. A loop that the code ends by a test on data
  is a \<open>partial_function (option)\<close>, so that not returning is \<open>None\<close> and a theorem that says
  \<open>Some\<close> says that the loop ends; a loop with a counter is recursion on the counter. There is no fuel
  anywhere. Code that runs with interrupts off is one step.

  The parts and their theories, from the bottom:

  \<^item> \<open>Prelude\<close>: the assertion of the option monad, lemmas on lists and updated functions, and the
    collections of simplification rules.
  \<^item> \<open>CList\<close> (\<open>libs/list.h\<close>): the ring of links inside other structures, each operation on the two
    pointers. \<open>dlist h l xs\<close> says that the ring at \<open>l\<close> is the list \<open>xs\<close>; every container of the
    kernel is reasoned about through it.
  \<^item> \<open>SkewHeap\<close> (\<open>libs/skew_heap.h\<close>): the heap on parent, left and right pointers, refined to the
    functional skew heap.
  \<^item> \<open>CString\<close>, \<open>PrintFmt\<close> (\<open>libs/string.c\<close>, \<open>printfmt.c\<close>, \<open>hash.c\<close>, \<open>rand.c\<close>): strings
    in a partial byte memory and formatted output as the list of characters passed to \<open>putch\<close>.
  \<^item> \<open>Pmm\<close> (\<open>kern/mm/default_pmm.c\<close>, \<open>lab2/kern/mm/best_fit_pmm.c\<close>): the page allocators;
    \<open>pmm_inv\<close> (blocks sorted, disjoint, flags and counter exact) is kept, and the functional
    behaviour is stated on the set of free pages. \<open>free_ok\<close> excludes freeing above all free blocks, where
    the code corrupts its list: \<open>tail_free_double_allocation\<close> shows what follows.
  \<^item> \<open>PmmCheck\<close>, \<open>PmmInit\<close> (\<open>default_pmm.c\<close>, \<open>pmm.c\<close>): the self test of the allocator, run symbolically
    from the state that \<open>page_init\<close> leaves, for every position of the kernel's end.
  \<^item> \<open>Vmbase\<close>, \<open>PageTable\<close>, \<open>PageTableProps\<close> (\<open>pmm.c\<close>, \<open>mmu.h\<close>, \<open>memlayout.h\<close>,
    \<open>swap*.c\<close>, \<open>kern/fs/swapfs.c\<close>): physical memory as pages of 512 words, the three-level walk,
    mapping and unmapping, refined to the map \<open>translate\<close> from addresses to entries.
  \<^item> \<open>SwapProps\<close>: the contract of a page replacement policy is the locale \<open>swap_policy\<close>; FIFO and
    the clock meet it, and the way from an empty free list through \<open>swap_out\<close> to a page handed out
    and back through \<open>swap_in\<close>, whatever the memory holds by then, is proved in the locale.
  \<^item> \<open>Vmm\<close>, \<open>VmmProps\<close> (\<open>vmm.c\<close>): areas of an address space, their order, the page fault.
  \<^item> \<open>Kmalloc\<close>, \<open>KmallocProps\<close>, \<open>KmallocClaims\<close> (\<open>kmalloc.c\<close>): the SLOB allocator on memory
    cells. The locale \<open>page_source\<close> is what it asks of the pages below; the page allocator of \<open>Pmm\<close>,
    before swapping is switched on, is its interpretation. Both kinds of blocks are covered, those cut from
    the free list and runs of whole pages, and their way back through \<open>kfree\<close>.
  \<^item> \<open>Kstate\<close>, \<open>Sched\<close>, \<open>Stride\<close>, \<open>Timers\<close>, \<open>SchedProps\<close> (\<open>kern/schedule\<close>): the scheduler
    core is proved against the locale \<open>sched_policy\<close> that both scheduler classes interpret; the
    timer list refines a list of absolute deadlines.
  \<^item> \<open>Sync\<close> (\<open>kern/sync\<close>): wait queues and semaphores; a function that gives up the processor is cut
    where it calls \<open>schedule\<close>.
  \<^item> \<open>Philosophers\<close>, \<open>Monitor\<close>, \<open>MonitorProps\<close> (\<open>check_sync.c\<close>, \<open>monitor.c\<close>): interleaved threads
    as step relations, with their invariants by rule induction.
  \<^item> \<open>Procs\<close>, \<open>ProcsProps\<close>, \<open>Lifecycle\<close>, \<open>LifeProps\<close>, \<open>LifeClaims\<close>, \<open>ForkClaims\<close>, \<open>Exec\<close>, \<open>Boot\<close>
    (\<open>kern/process/proc.c\<close>): identifiers, hash lists, family tree; fork, exit, wait, execve, the first
    processes.
  \<^item> \<open>Inode\<close>, \<open>Vfs\<close>, \<open>Filetab\<close>, \<open>FiletabProps\<close>, \<open>Dev\<close> (\<open>kern/fs\<close>, \<open>kern/driver\<close>): inodes with
    their counts and operation tables, path lookup, open files, the devices.
  \<^item> \<open>SfsIo\<close>, \<open>Sfs\<close>, \<open>SfsNode\<close>, \<open>SfsTab\<close>, \<open>BlockIo\<close>, \<open>SfsProps\<close>, \<open>SfsClaims\<close>
    (\<open>kern/fs/sfs\<close>): the simple file system on a disk image of bytes.
  \<^item> \<open>Kern\<close>, \<open>Sysfile\<close>, \<open>Syscall\<close>: the state of the whole kernel, access to user memory, the system
    calls and the dispatch of traps.
  \<^item> \<open>Mksfs\<close>, \<open>MksfsProps\<close>, \<open>SfsMount\<close>, \<open>MksfsClaims\<close> (\<open>tools/mksfs.c\<close>): the program that builds the disk
    image on the host, the invariant of its image under construction, and the proof that the kernel's
    \<open>sfs_do_mount\<close> accepts what it writes and then starts in the invariants of \<open>Sfs\<close>.
  \<^item> \<open>Console\<close>, \<open>ConsoleProps\<close> (\<open>kern/driver/console.c\<close>, \<open>kern/libs/stdio.c\<close>, \<open>readline.c\<close>,
    \<open>kern/debug/kmonitor.c\<close>): the input ring refined to a queue, line editing against a reference editor, the
    split of a command into words.
  \<^item> \<open>Shell\<close>, \<open>ShellProps\<close> (\<open>user/sh.c\<close>, \<open>user/libs\<close>): the shell as a program over system calls. The
    kernel's answers are an argument (\<open>os\<close>), so what is proved holds for every behaviour of the kernel.
  The interfaces. \<open>swap_policy\<close>, \<open>page_source\<close> and \<open>sched_policy\<close> are locales, each interpreted on the
  model's own definitions in the theory of the component that provides it. The calls through
  \<open>struct inode_ops\<close> and \<open>struct fs\<close> are tables of functions in the model as in the code (\<open>ktab\<close> in
  \<open>SfsTab\<close> is the kernel's), because the code decides at run time which entry is missing.

  Not modelled, and why.
  \<^item> Assembly (\<open>entry.S\<close>, \<open>switch.S\<close>, \<open>trapentry.S\<close>, \<open>initcode.S\<close>) and the register macros of
    \<open>libs/riscv.h\<close>, \<open>sbi.h\<close>, \<open>atomic.h\<close>: no C semantics to model; a context switch is the change of the
    current process, an atomic bit operation is the bit operation.
  \<^item> Drivers that only call the firmware (\<open>clock.c\<close>, \<open>intr.c\<close>, \<open>picirq.c\<close>), \<open>kdebug.c\<close> and the
    boot sequence \<open>kern_init\<close>: they set device registers and print.
  \<^item> The self tests that run at boot (\<open>check_swap\<close>, \<open>check_vmm\<close>, \<open>check_pgdir\<close> and others), and the test
    programs in \<open>user\<close>: they exercise the code above.
  \<^item> The stubs of the user library for system calls: inline assembly around one \<open>ecall\<close>; \<open>Shell\<close> models them as
    calls of its argument.
  \<^item> The copies of all this in \<open>lab0\<close> to \<open>lab7\<close>, and the build tools.
  \<^item> The buddy and SLUB allocators of \<open>lab2\<close>: their pointer arithmetic between structures of different
    layout has no defined value; see the findings of the manifest.
\<close>

end
